(* ===== verification/Prelude.thy ===== *)
theory Prelude
  imports Main "HOL-Library.Char_ord" "HOL-Library.List_Lexorder" "HOL-Library.Multiset"
begin

text \<open>
  Shared vocabulary of the development.

  A JavaScript number that the program treats as a count, a revision, a fence or a time
  in milliseconds is an \<^typ>\<open>int\<close>; \<open>Number.isSafeInteger\<close> is
  \<open>is_safe_integer\<close>. A string is a HOL \<^typ>\<open>string\<close>; the identifiers the program
  compares are ASCII by their schemas, so a code unit is a character and the order
  \<open>left < right\<close> of JavaScript is the lexicographic order of the library theories
  \<open>Char_ord\<close> and \<open>List_Lexorder\<close>. \<open>Array.prototype.sort\<close> with a comparator is the
  stable insertion sort \<open>js_sort\<close>, \<open>String.prototype.localeCompare\<close> is a parameter
  that satisfies the laws of the locale \<open>comparator\<close>. \<open>Set\<close> and \<open>Map\<close> keep insertion
  order, so a set of seen identifiers is a list and a map is an association list
  wherever the order of its entries matters.
\<close>

subsection \<open>Safe integers\<close>

definition MAX_SAFE_INTEGER :: int where
  "MAX_SAFE_INTEGER = 9007199254740991"

definition is_safe_integer :: "int \<Rightarrow> bool" where
  "is_safe_integer n \<longleftrightarrow> - MAX_SAFE_INTEGER \<le> n \<and> n \<le> MAX_SAFE_INTEGER"

named_theorems guard_defs \<open>definitions of the numeric guards shared by the components\<close>

declare MAX_SAFE_INTEGER_def [guard_defs] is_safe_integer_def [guard_defs]

lemma is_safe_integer_le_max: "is_safe_integer n \<Longrightarrow> n \<le> MAX_SAFE_INTEGER"
  by (simp add: is_safe_integer_def)

lemma is_safe_integer_between:
  "is_safe_integer a \<Longrightarrow> is_safe_integer b \<Longrightarrow> a \<le> n \<Longrightarrow> n \<le> b \<Longrightarrow> is_safe_integer n"
  by (simp add: is_safe_integer_def)

lemma is_safe_integer_min: "is_safe_integer a \<Longrightarrow> is_safe_integer b \<Longrightarrow> is_safe_integer (min a b)"
  by (simp add: min_def)

subsection \<open>Sorting with a comparator\<close>

fun js_insert :: "('a \<Rightarrow> 'a \<Rightarrow> int) \<Rightarrow> 'a \<Rightarrow> 'a list \<Rightarrow> 'a list" where
  "js_insert cmp x [] = [x]"
| "js_insert cmp x (y # ys) =
     (if cmp x y \<le> 0 then x # y # ys else y # js_insert cmp x ys)"

definition js_sort :: "('a \<Rightarrow> 'a \<Rightarrow> int) \<Rightarrow> 'a list \<Rightarrow> 'a list" where
  "js_sort cmp xs = foldr (js_insert cmp) xs []"

lemma js_sort_simps [simp]:
  "js_sort cmp [] = []"
  "js_sort cmp (x # xs) = js_insert cmp x (js_sort cmp xs)"
  by (simp_all add: js_sort_def)

lemma set_js_insert [simp]: "set (js_insert cmp x ys) = insert x (set ys)"
  by (induction ys) auto

lemma length_js_insert [simp]: "length (js_insert cmp x ys) = Suc (length ys)"
  by (induction ys) auto

lemma distinct_js_insert [simp]:
  "distinct (js_insert cmp x ys) \<longleftrightarrow> x \<notin> set ys \<and> distinct ys"
  by (induction ys) auto

lemma set_js_sort [simp]: "set (js_sort cmp xs) = set xs"
  by (induction xs) auto

lemma length_js_sort [simp]: "length (js_sort cmp xs) = length xs"
  by (induction xs) auto

lemma distinct_js_sort [simp]: "distinct (js_sort cmp xs) \<longleftrightarrow> distinct xs"
  by (induction xs) auto

lemma mset_js_insert [simp]: "mset (js_insert cmp x ys) = add_mset x (mset ys)"
  by (induction ys) auto

lemma mset_js_sort [simp]: "mset (js_sort cmp xs) = mset xs"
  by (induction xs) auto

lemma js_sort_eq_Nil [simp]: "js_sort cmp xs = [] \<longleftrightarrow> xs = []"
  by (metis length_0_conv length_js_sort)

text \<open>The mapping of a sort over a key that determines the rows stays duplicate-free.\<close>

lemma distinct_map_js_insert [simp]:
  "distinct (map f (js_insert cmp x ys)) \<longleftrightarrow> f x \<notin> f ` set ys \<and> distinct (map f ys)"
  by (induction ys) auto

lemma distinct_map_js_sort [simp]: "distinct (map f (js_sort cmp xs)) \<longleftrightarrow> distinct (map f xs)"
  by (induction xs) auto

text \<open>
  What a sort needs of its comparator: a total preorder. It is also all the development
  assumes of \<open>localeCompare\<close>, whose collation is the runtime's.
\<close>

locale comparator =
  fixes cmp :: "'a \<Rightarrow> 'a \<Rightarrow> int"
  assumes cmp_total: "cmp x y \<le> 0 \<or> cmp y x \<le> 0"
    and cmp_trans: "cmp x y \<le> 0 \<Longrightarrow> cmp y z \<le> 0 \<Longrightarrow> cmp x z \<le> 0"
begin

lemma cmp_refl: "cmp x x \<le> 0"
  using cmp_total [of x x] by simp

lemma sorted_js_insert:
  "sorted_wrt (\<lambda>a b. cmp a b \<le> 0) ys \<Longrightarrow> sorted_wrt (\<lambda>a b. cmp a b \<le> 0) (js_insert cmp x ys)"
proof (induction ys)
  case Nil
  then show ?case by simp
next
  case (Cons y ys)
  then show ?case
    using cmp_total [of x y] by (auto intro: cmp_trans)
qed

lemma sorted_js_sort: "sorted_wrt (\<lambda>a b. cmp a b \<le> 0) (js_sort cmp xs)"
  by (induction xs) (auto intro: sorted_js_insert)

lemma hd_js_sort_least: "x \<in> set xs \<Longrightarrow> cmp (hd (js_sort cmp xs)) x \<le> 0"
proof -
  assume "x \<in> set xs"
  then have "x \<in> set (js_sort cmp xs)" by simp
  with sorted_js_sort [of xs] show ?thesis
    by (cases "js_sort cmp xs") (auto intro: cmp_refl simp del: set_js_sort)
qed

end

text \<open>
  The comparator the program writes out itself (\<open>left < right ? -1 : left > right ? 1 : 0\<close>)
  over any linear order is such a preorder, in particular over strings.
\<close>

definition code_unit_compare :: "'a::linorder \<Rightarrow> 'a \<Rightarrow> int" where
  "code_unit_compare left right = (if left < right then -1 else if left > right then 1 else 0)"

lemma code_unit_compare_le: "code_unit_compare a b \<le> 0 \<longleftrightarrow> a \<le> b"
  by (auto simp: code_unit_compare_def)

interpretation code_unit: comparator "code_unit_compare :: 'a::linorder \<Rightarrow> 'a \<Rightarrow> int"
  by unfold_locales (auto simp: code_unit_compare_le)

text \<open>The default sort of an array of strings is the sort of the library.\<close>

lemma js_insert_code_unit: "js_insert code_unit_compare x ys = insort x ys"
  by (induction ys) (auto simp: code_unit_compare_le)

lemma js_sort_code_unit: "js_sort code_unit_compare xs = sort xs"
  by (induction xs) (simp_all add: js_insert_code_unit)

lemma js_sort_code_unit_eq_iff:
  "js_sort code_unit_compare xs = js_sort code_unit_compare ys \<longleftrightarrow> mset xs = mset ys"
proof
  assume "js_sort code_unit_compare xs = js_sort code_unit_compare ys"
  then have "mset (sort xs) = mset (sort ys)" by (simp add: js_sort_code_unit)
  then show "mset xs = mset ys" by simp
next
  assume "mset xs = mset ys"
  then show "js_sort code_unit_compare xs = js_sort code_unit_compare ys"
    by (metis js_sort_code_unit mset_sort properties_for_sort sorted_sort)
qed

subsection \<open>Sets and maps in insertion order\<close>

text \<open>
  \<open>[...new Set(xs)]\<close> keeps the first occurrence of every element; \<open>new Map(entries)\<close> keeps
  the value of the last entry of a key.
\<close>

definition js_set :: "'a list \<Rightarrow> 'a list" where
  "js_set xs = rev (remdups (rev xs))"

definition js_map_of :: "('k \<times> 'v) list \<Rightarrow> 'k \<rightharpoonup> 'v" where
  "js_map_of entries = map_of (rev entries)"

lemma set_js_set [simp]: "set (js_set xs) = set xs"
  by (simp add: js_set_def)

lemma distinct_js_set [simp]: "distinct (js_set xs)"
  by (simp add: js_set_def)

lemma js_map_of_mem: "js_map_of entries k = Some v \<Longrightarrow> (k, v) \<in> set entries"
  unfolding js_map_of_def by (metis map_of_SomeD set_rev)

lemma js_map_of_distinct:
  "distinct (map fst entries) \<Longrightarrow> js_map_of entries k = Some v \<longleftrightarrow> (k, v) \<in> set entries"
  unfolding js_map_of_def by (simp add: rev_map [symmetric])

subsection \<open>Folding events over a partial step\<close>

text \<open>
  A component that answers \<open>null\<close> to an event keeps its state. \<open>run_steps\<close> is the state
  after a sequence of events under that reading.
\<close>

definition step_or_stay :: "('s \<Rightarrow> 'e \<Rightarrow> 's option) \<Rightarrow> 's \<Rightarrow> 'e \<Rightarrow> 's" where
  "step_or_stay step s e = (case step s e of None \<Rightarrow> s | Some t \<Rightarrow> t)"

definition run_steps :: "('s \<Rightarrow> 'e \<Rightarrow> 's option) \<Rightarrow> 's \<Rightarrow> 'e list \<Rightarrow> 's" where
  "run_steps step s es = foldl (step_or_stay step) s es"

lemma run_steps_simps [simp]:
  "run_steps step s [] = s"
  "run_steps step s (e # es) = run_steps step (step_or_stay step s e) es"
  by (simp_all add: run_steps_def)

lemma run_steps_append: "run_steps step s (es @ fs) = run_steps step (run_steps step s es) fs"
  by (simp add: run_steps_def)

text \<open>
  The contract of a lifecycle: terminal states answer \<open>null\<close> to everything. A settled
  lifecycle is then final, whatever arrives later and in whatever order.
\<close>

locale lifecycle =
  fixes step :: "'s \<Rightarrow> 'e \<Rightarrow> 's option"
    and terminal :: "'s \<Rightarrow> bool"
  assumes terminal_stuck: "terminal s \<Longrightarrow> step s e = None"
begin

lemma terminal_absorbing: "terminal s \<Longrightarrow> run_steps step s es = s"
  by (induction es) (simp_all add: step_or_stay_def terminal_stuck)

lemma settled_stays: "terminal (run_steps step s es) \<Longrightarrow> run_steps step s (es @ fs) = run_steps step s es"
  by (simp add: run_steps_append terminal_absorbing)

lemma settled_same:
  "terminal (run_steps step s es) \<Longrightarrow> terminal (run_steps step s (es @ fs))"
  by (simp add: settled_stays)

end

subsection \<open>Decimal text\<close>

text \<open>\<open>Number.prototype.toString\<close> on a natural number, \<open>padStart\<close> and reading digits back.\<close>

definition digit_char :: "nat \<Rightarrow> char" where
  "digit_char d = char_of (48 + d)"

definition char_digit :: "char \<Rightarrow> nat" where
  "char_digit c = of_char c - 48"

definition is_digit :: "char \<Rightarrow> bool" where
  "is_digit c \<longleftrightarrow> 48 \<le> (of_char c :: nat) \<and> (of_char c :: nat) \<le> 57"

fun decimal :: "nat \<Rightarrow> string" where
  "decimal n = (if n < 10 then [digit_char n] else decimal (n div 10) @ [digit_char (n mod 10)])"

declare decimal.simps [simp del]

definition read_digits :: "string \<Rightarrow> nat" where
  "read_digits s = foldl (\<lambda>n c. 10 * n + char_digit c) 0 s"

definition pad_start :: "nat \<Rightarrow> char \<Rightarrow> string \<Rightarrow> string" where
  "pad_start width c s = replicate (width - length s) c @ s"

lemma char_digit_char [simp]: "d < 10 \<Longrightarrow> char_digit (digit_char d) = d"
  by (simp add: char_digit_def digit_char_def)

lemma is_digit_char [simp]: "d < 10 \<Longrightarrow> is_digit (digit_char d)"
  by (simp add: is_digit_def digit_char_def)

lemma char_digit_lt: "is_digit c \<Longrightarrow> char_digit c < 10"
  by (auto simp: is_digit_def char_digit_def)

lemma digit_char_digit: "is_digit c \<Longrightarrow> digit_char (char_digit c) = c"
  by (simp add: is_digit_def char_digit_def digit_char_def)

lemma zero_char: "CHR ''0'' = digit_char 0" "is_digit (CHR ''0'')" "char_digit (CHR ''0'') = 0"
  by code_simp+

lemma read_digits_append: "read_digits (s @ [c]) = 10 * read_digits s + char_digit c"
  by (simp add: read_digits_def)

lemma read_digits_Nil [simp]: "read_digits [] = 0"
  by (simp add: read_digits_def)

lemma read_decimal [simp]: "read_digits (decimal n) = n"
proof (induction n rule: decimal.induct)
  case (1 n)
  show ?case
  proof (cases "n < 10")
    case True
    then show ?thesis by (simp add: decimal.simps [of n] read_digits_def)
  next
    case False
    with 1 show ?thesis by (simp add: decimal.simps [of n] read_digits_append)
  qed
qed

lemma decimal_digits: "list_all is_digit (decimal n)"
proof (induction n rule: decimal.induct)
  case (1 n)
  then show ?case by (cases "n < 10") (simp_all add: decimal.simps [of n])
qed

lemma decimal_not_Nil [simp]: "decimal n \<noteq> []"
  by (subst decimal.simps) simp

lemma decimal_length_le: "n < 10 ^ k \<Longrightarrow> 0 < k \<Longrightarrow> length (decimal n) \<le> k"
proof (induction n arbitrary: k rule: decimal.induct)
  case (1 n)
  show ?case
  proof (cases "n < 10")
    case True
    with 1 show ?thesis by (simp add: decimal.simps [of n])
  next
    case False
    with 1(2) obtain j where k: "k = Suc j" "0 < j" by (cases k; cases "k = 1") (use False in simp_all)
    with 1(2) have "n div 10 < 10 ^ j" by (simp add: less_mult_imp_div_less mult.commute)
    from 1(1) [OF False this k(2)] show ?thesis using False k by (subst decimal.simps) simp
  qed
qed

lemma read_digits_pad [simp]: "read_digits (pad_start width CHR ''0'' s) = read_digits s"
proof -
  have "foldl (\<lambda>n c. 10 * n + char_digit c) 0 (replicate k CHR ''0'') = 0" for k
    by (induction k) (simp_all add: zero_char(3))
  then show ?thesis by (simp add: pad_start_def read_digits_def)
qed

lemma length_pad_start: "length (pad_start width c s) = max width (length s)"
  by (simp add: pad_start_def)

lemma digits_pad_start: "list_all is_digit s \<Longrightarrow> list_all is_digit (pad_start width CHR ''0'' s)"
  by (auto simp: pad_start_def list_all_iff zero_char(2))

subsection \<open>Small list and relation facts\<close>

lemma acyclic_empty [simp]: "acyclic {}"
  by (simp add: acyclic_def)

lemma filter_length_le_length: "length (filter P xs) \<le> length xs"
  by simp

lemma take_set_subset: "x \<in> set (take n xs) \<Longrightarrow> x \<in> set xs"
  by (auto dest: in_set_takeD)

lemma distinct_map_filter: "distinct (map f xs) \<Longrightarrow> distinct (map f (filter P xs))"
  by (induction xs) auto

lemma distinct_map_take: "distinct (map f xs) \<Longrightarrow> distinct (map f (take n xs))"
  by (metis distinct_take take_map)

lemma sum_list_update_int:
  "i < length xs \<Longrightarrow> sum_list (map f (xs[i := y])) = sum_list (map f xs) - f (xs ! i) + (f y :: int)"
proof (induction xs arbitrary: i)
  case Nil
  then show ?case by simp
next
  case (Cons x xs)
  then show ?case by (cases i) auto
qed

end
