(* ===== verification/GraphLaws.thy ===== *)
theory GraphLaws
  imports Prelude
begin

text \<open>
  The work-graph laws of \<open>packages/task-domain/src/graph-laws.ts\<close>: the bounded search that
  admits a dependency edge, the parent walk, the blocker counters and readiness derived
  from them, and the submission lifecycle. The search is modelled with its queue, its
  visited set in insertion order and its edge counter, so that the counts it reports are
  those of the code.
\<close>

subsection \<open>Limits\<close>

definition MAX_DIRECT_BLOCKERS :: int where "MAX_DIRECT_BLOCKERS = 100"
definition MAX_BLOCKING_DEPENDENTS :: int where "MAX_BLOCKING_DEPENDENTS = 500"
definition BLOCKER_PROPAGATION_READ_HEADROOM :: int where
  "BLOCKER_PROPAGATION_READ_HEADROOM = 16"
definition MAX_BLOCKER_PROPAGATION_READS :: int where
  "MAX_BLOCKER_PROPAGATION_READS =
     2 * MAX_DIRECT_BLOCKERS + 2 * MAX_BLOCKING_DEPENDENTS + BLOCKER_PROPAGATION_READ_HEADROOM"
definition MAX_GRAPH_VISITED_TASKS :: int where "MAX_GRAPH_VISITED_TASKS = 500"
definition MAX_GRAPH_EXAMINED_EDGES :: int where "MAX_GRAPH_EXAMINED_EDGES = 10000"
definition MAX_PARENT_DEPTH :: int where "MAX_PARENT_DEPTH = 100"

named_theorems graph_limits \<open>the numeric limits of the work graph\<close>

declare
  MAX_DIRECT_BLOCKERS_def [graph_limits]
  MAX_BLOCKING_DEPENDENTS_def [graph_limits]
  BLOCKER_PROPAGATION_READ_HEADROOM_def [graph_limits]
  MAX_BLOCKER_PROPAGATION_READS_def [graph_limits]
  MAX_GRAPH_VISITED_TASKS_def [graph_limits]
  MAX_GRAPH_EXAMINED_EDGES_def [graph_limits]
  MAX_PARENT_DEPTH_def [graph_limits]

definition blockerPropagationReadBound :: "int \<Rightarrow> int \<Rightarrow> int option" where
  "blockerPropagationReadBound directBlockers blockingDependents =
     (if \<not> is_safe_integer directBlockers \<or> directBlockers < 0 \<or>
         directBlockers > MAX_DIRECT_BLOCKERS \<or>
         \<not> is_safe_integer blockingDependents \<or> blockingDependents < 0 \<or>
         blockingDependents > MAX_BLOCKING_DEPENDENTS
      then None
      else Some (2 * directBlockers + 2 * blockingDependents + BLOCKER_PROPAGATION_READ_HEADROOM))"

lemma blockerPropagationReadBound_le:
  "blockerPropagationReadBound b d = Some n \<Longrightarrow> n \<le> MAX_BLOCKER_PROPAGATION_READS"
  by (auto simp: blockerPropagationReadBound_def graph_limits split: if_splits)

subsection \<open>Cancellation and review guards\<close>

datatype TaskStatus = TS_open | TS_in_progress | TS_in_review | TS_done | TS_cancelled

datatype TaskCancellationDisposition = TC_allowed | TC_revision_conflict | TC_terminal

definition taskCancellationDisposition :: "int \<Rightarrow> int \<Rightarrow> TaskStatus \<Rightarrow> TaskCancellationDisposition" where
  "taskCancellationDisposition currentRevision expectedRevision status =
     (if currentRevision \<noteq> expectedRevision then TC_revision_conflict
      else if status = TS_done \<or> status = TS_cancelled then TC_terminal else TC_allowed)"

datatype ReviewAction = RA_accept | RA_reject

definition reviewAcceptanceAllowed :: "ReviewAction \<Rightarrow> int \<Rightarrow> bool" where
  "reviewAcceptanceAllowed action blockingCount \<longleftrightarrow> action \<noteq> RA_accept \<or> blockingCount = 0"

definition reviewActorAllowed :: "string \<Rightarrow> string option \<Rightarrow> bool" where
  "reviewActorAllowed submittedByAgentId reviewerAgentId \<longleftrightarrow>
     reviewerAgentId = None \<or> reviewerAgentId \<noteq> Some submittedByAgentId"

subsection \<open>Dependency insertion: a bounded breadth-first search\<close>

text \<open>An edge is prerequisite to dependent, as in the code.\<close>

type_synonym task_id = string
type_synonym dependents = "task_id \<rightharpoonup> task_id list"

record graph_bounds =
  lim_visitedTasks :: int
  lim_examinedEdges :: int

definition default_graph_bounds :: graph_bounds where
  "default_graph_bounds =
     \<lparr>lim_visitedTasks = MAX_GRAPH_VISITED_TASKS, lim_examinedEdges = MAX_GRAPH_EXAMINED_EDGES\<rparr>"

datatype GraphValidationResult =
    GV_valid int int
  | GV_cycle int int
  | GV_limit_visited int int
  | GV_limit_edges int int

text \<open>
  The inner loop over the dependents of one task. It returns early with a result
  (\<open>Inl\<close>), or the visited set, the queue and the edge counter after the last dependent.
\<close>

fun scan_dependents ::
  "graph_bounds \<Rightarrow> task_id \<Rightarrow> task_id list \<Rightarrow> task_id list \<Rightarrow> task_id list \<Rightarrow> int \<Rightarrow>
   GraphValidationResult + task_id list \<times> task_id list \<times> int" where
  "scan_dependents lim blocker [] visited queue examinedEdges = Inr (visited, queue, examinedEdges)"
| "scan_dependents lim blocker (dependent # rest) visited queue examinedEdges =
     (let ex = examinedEdges + 1; size = int (length visited) in
      if ex > lim_examinedEdges lim then Inl (GV_limit_edges size ex)
      else if dependent = blocker \<and> dependent \<notin> set visited \<and> size \<ge> lim_visitedTasks lim
        then Inl (GV_limit_visited size ex)
      else if dependent = blocker then Inl (GV_cycle size ex)
      else if dependent \<in> set visited then scan_dependents lim blocker rest visited queue ex
      else if size \<ge> lim_visitedTasks lim then Inl (GV_limit_visited size ex)
      else scan_dependents lim blocker rest (visited @ [dependent]) (queue @ [dependent]) ex)"

text \<open>What one pass over the dependents adds: the same new tasks to both lists, within the limit.\<close>

lemma scan_dependents_grows:
  assumes "scan_dependents lim blocker ds visited queue ex = Inr (v, q, e)"
  shows "\<exists>new. v = visited @ new \<and> q = queue @ new \<and> set new \<subseteq> set ds \<and>
           (new \<noteq> [] \<longrightarrow> int (length v) \<le> lim_visitedTasks lim)"
  using assms
proof (induction ds arbitrary: visited queue ex)
  case Nil
  then show ?case by simp
next
  case (Cons d ds)
  show ?case
  proof (cases "d \<in> set visited")
    case True
    with Cons.prems have "scan_dependents lim blocker ds visited queue (ex + 1) = Inr (v, q, e)"
      by (auto simp: Let_def split: if_splits)
    from Cons.IH [OF this] show ?thesis by auto
  next
    case False
    with Cons.prems have small: "int (length visited) < lim_visitedTasks lim"
      and rest: "scan_dependents lim blocker ds (visited @ [d]) (queue @ [d]) (ex + 1) = Inr (v, q, e)"
      by (auto simp: Let_def split: if_splits)
    from Cons.IH [OF rest] obtain new where
      "v = (visited @ [d]) @ new" "q = (queue @ [d]) @ new" "set new \<subseteq> set ds"
      "new \<noteq> [] \<longrightarrow> int (length v) \<le> lim_visitedTasks lim"
      by blast
    with small have "v = visited @ d # new \<and> q = queue @ d # new \<and> set (d # new) \<subseteq> set (d # ds) \<and>
        int (length v) \<le> lim_visitedTasks lim"
      by (cases "new = []") auto
    then show ?thesis by blast
  qed
qed

text \<open>The outer loop shifts one task off the queue until it is empty or a pass returns.\<close>

function search_dependents ::
  "dependents \<Rightarrow> graph_bounds \<Rightarrow> task_id \<Rightarrow> task_id list \<Rightarrow> task_id list \<Rightarrow> int \<Rightarrow>
   GraphValidationResult" where
  "search_dependents g lim blocker visited [] ex = GV_valid (int (length visited)) ex"
| "search_dependents g lim blocker visited (current # queue) ex =
     (case scan_dependents lim blocker (case g current of None \<Rightarrow> [] | Some ds \<Rightarrow> ds) visited queue ex of
        Inl r \<Rightarrow> r
      | Inr (v, q, e) \<Rightarrow> search_dependents g lim blocker v q e)"
  by pat_completeness auto
termination
proof (relation "measure (\<lambda>(g, lim, blocker, visited, queue, ex).
          nat (lim_visitedTasks lim - int (length visited)) + length queue)", goal_cases)
  case 1
  show ?case by simp
next
  case (2 g lim blocker visited current queue ex b v y q e)
  from 2 have eq: "scan_dependents lim blocker (case g current of None \<Rightarrow> [] | Some ds \<Rightarrow> ds)
      visited queue ex = Inr (v, q, e)" by simp
  from scan_dependents_grows [OF eq] obtain new where
    "v = visited @ new" "q = queue @ new"
    "new \<noteq> [] \<longrightarrow> int (length v) \<le> lim_visitedTasks lim"
    by blast
  then show ?case by (cases "new = []") auto
qed

definition validateDependencyInsertion ::
  "dependents \<Rightarrow> task_id \<Rightarrow> task_id \<Rightarrow> graph_bounds \<Rightarrow> GraphValidationResult" where
  "validateDependencyInsertion dependentsByBlocker blocker blocked lim =
     (if blocker = blocked then GV_cycle 1 0
      else search_dependents dependentsByBlocker lim blocker [blocked] [blocked] 0)"
text \<open>The graph the search walks, and what one pass establishes about it.\<close>

definition dependency_edges :: "dependents \<Rightarrow> (task_id \<times> task_id) set" where
  "dependency_edges g = {(a, b). \<exists>ds. g a = Some ds \<and> b \<in> set ds}"

lemma dependency_edges_update:
  "dependency_edges (g(a \<mapsto> (case g a of None \<Rightarrow> [] | Some ds \<Rightarrow> ds) @ [b])) = insert (a, b) (dependency_edges g)"
  by (cases "g a") (auto simp: dependency_edges_def split: if_splits)

lemma successor_iff:
  "b \<in> set (case g a of None \<Rightarrow> [] | Some ds \<Rightarrow> ds) \<longleftrightarrow> (a, b) \<in> dependency_edges g"
  by (cases "g a") (auto simp: dependency_edges_def)

lemma scan_dependents_covers:
  "scan_dependents lim blocker ds visited queue ex = Inr (v, q, e) \<Longrightarrow>
   blocker \<notin> set ds \<and> set ds \<subseteq> set v"
proof (induction ds arbitrary: visited queue ex)
  case Nil
  then show ?case by simp
next
  case (Cons d ds)
  then obtain visited' queue' where
    "scan_dependents lim blocker ds visited' queue' (ex + 1) = Inr (v, q, e)"
    "d \<noteq> blocker" "d \<in> set visited'"
    by (auto simp: Let_def split: if_splits)
  with Cons.IH scan_dependents_grows show ?case by fastforce
qed

lemma scan_dependents_result:
  "scan_dependents lim blocker ds visited queue ex = Inl r \<Longrightarrow>
   (\<exists>s e. r = GV_cycle s e \<and> blocker \<in> set ds) \<or> (\<exists>s e. r = GV_limit_visited s e \<or> r = GV_limit_edges s e)"
  by (induction ds arbitrary: visited queue ex) (auto simp: Let_def split: if_splits)

text \<open>
  A run that ends with the queue empty has closed its visited set under the edges without
  meeting the blocker; one that reports a cycle has walked from the blocked task to it.
\<close>

lemma search_dependents_valid:
  assumes "search_dependents g lim blocker visited queue ex = GV_valid n e"
    and "\<forall>x \<in> set visited. x \<notin> set queue \<longrightarrow> dependency_edges g `` {x} \<subseteq> set visited"
    and "blocker \<notin> set visited"
  shows "\<exists>V. set visited \<subseteq> V \<and> dependency_edges g `` V \<subseteq> V \<and> blocker \<notin> V"
  using assms
proof (induction g lim blocker visited queue ex rule: search_dependents.induct)
  case (1 g lim blocker visited ex)
  then show ?case by (intro exI [of _ "set visited"]) auto
next
  case (2 g lim blocker visited current queue ex)
  let ?ds = "case g current of None \<Rightarrow> [] | Some ds \<Rightarrow> ds"
  obtain v q e' where scan: "scan_dependents lim blocker ?ds visited queue ex = Inr (v, q, e')"
    and rest: "search_dependents g lim blocker v q e' = GV_valid n e"
    using "2.prems"(1) by (auto split: sum.splits dest!: scan_dependents_result)
  obtain new where new: "v = visited @ new" "q = queue @ new" "set new \<subseteq> set ?ds"
    using scan_dependents_grows [OF scan] by blast
  have cov: "blocker \<notin> set ?ds" "set ?ds \<subseteq> set v"
    using scan_dependents_covers [OF scan] by auto
  have succ: "dependency_edges g `` {current} = set ?ds"
    by (auto simp: successor_iff [symmetric])
  have "\<forall>x \<in> set v. x \<notin> set q \<longrightarrow> dependency_edges g `` {x} \<subseteq> set v"
    using "2.prems"(2) new cov succ by fastforce
  moreover have "blocker \<notin> set v"
    using "2.prems"(3) new cov by auto
  ultimately obtain V where "set v \<subseteq> V" "dependency_edges g `` V \<subseteq> V" "blocker \<notin> V"
    using "2.IH" [OF scan refl refl rest] by blast
  then show ?case using new by auto
qed

lemma search_dependents_cycle:
  assumes "search_dependents g lim blocker visited queue ex = GV_cycle n e"
    and "set queue \<subseteq> set visited"
    and "\<forall>x \<in> set visited. (root, x) \<in> (dependency_edges g)\<^sup>*"
  shows "(root, blocker) \<in> (dependency_edges g)\<^sup>*"
  using assms
proof (induction g lim blocker visited queue ex rule: search_dependents.induct)
  case (1 g lim blocker visited ex)
  then show ?case by simp
next
  case (2 g lim blocker visited current queue ex)
  let ?ds = "case g current of None \<Rightarrow> [] | Some ds \<Rightarrow> ds"
  have step: "\<And>d. d \<in> set ?ds \<Longrightarrow> (root, d) \<in> (dependency_edges g)\<^sup>*"
    using "2.prems"(2,3) successor_iff by (metis list.set_intros(1) rtrancl.rtrancl_into_rtrancl subsetD)
  show ?case
  proof (cases "scan_dependents lim blocker ?ds visited queue ex")
    case (Inl r)
    with "2.prems"(1) scan_dependents_result [OF Inl] step show ?thesis by auto
  next
    case (Inr b)
    obtain v q e' where b: "b = (v, q, e')" by (cases b)
    obtain new where "v = visited @ new" "q = queue @ new" "set new \<subseteq> set ?ds"
      using scan_dependents_grows [of lim blocker ?ds visited queue ex v q e'] Inr b by auto
    then have "set q \<subseteq> set v" "\<forall>x \<in> set v. (root, x) \<in> (dependency_edges g)\<^sup>*"
      using "2.prems"(2,3) step by auto
    moreover have "search_dependents g lim blocker v q e' = GV_cycle n e"
      using "2.prems"(1) Inr b by simp
    ultimately show ?thesis using "2.IH" [of b v "(q, e')" q e'] Inr b by blast
  qed
qed

lemma dependency_insertion_valid_unreachable:
  assumes "validateDependencyInsertion g blocker blocked lim = GV_valid n e"
  shows "(blocked, blocker) \<notin> (dependency_edges g)\<^sup>*"
proof
  assume path: "(blocked, blocker) \<in> (dependency_edges g)\<^sup>*"
  from assms have "search_dependents g lim blocker [blocked] [blocked] 0 = GV_valid n e" "blocker \<noteq> blocked"
    by (auto simp: validateDependencyInsertion_def split: if_splits)
  from search_dependents_valid [OF this(1)] this(2) obtain V
    where "blocked \<in> V" "dependency_edges g `` V \<subseteq> V" "blocker \<notin> V" by auto
  from path this(1,2) have "blocker \<in> V"
    by (metis Image_closed_trancl Image_singleton_iff ImageI)
  with \<open>blocker \<notin> V\<close> show False ..
qed

lemma dependency_insertion_cycle_reachable:
  "validateDependencyInsertion g blocker blocked lim = GV_cycle n e \<Longrightarrow>
   (blocked, blocker) \<in> (dependency_edges g)\<^sup>*"
  using search_dependents_cycle [of g lim blocker "[blocked]" "[blocked]" 0 n e blocked]
  by (auto simp: validateDependencyInsertion_def split: if_splits)

text \<open>
  C35. Inserting an edge that the search calls valid keeps the dependency graph acyclic, and
  one it calls a cycle would close a cycle: the verdict is exact whenever no limit is hit.
\<close>

theorem dependency_insertion_exact:
  assumes "acyclic (dependency_edges g)"
  shows "case validateDependencyInsertion g blocker blocked lim of
      GV_valid n e \<Rightarrow> acyclic (insert (blocker, blocked) (dependency_edges g))
    | GV_cycle n e \<Rightarrow> \<not> acyclic (insert (blocker, blocked) (dependency_edges g))
    | _ \<Rightarrow> True"
  using assms dependency_insertion_valid_unreachable [of g blocker blocked lim]
    dependency_insertion_cycle_reachable [of g blocker blocked lim]
  by (auto simp: acyclic_insert split: GraphValidationResult.splits)

theorem dependency_insertion_exact_witness:
  "acyclic (dependency_edges [''a'' \<mapsto> [''b'']]) \<and>
   acyclic (insert (''b'', ''c'') (dependency_edges [''a'' \<mapsto> [''b'']]))"
proof -
  have e: "dependency_edges [''a'' \<mapsto> [''b'']] = {(''a'', ''b'')}"
    by (auto simp: dependency_edges_def split: if_splits)
  have a: "acyclic (dependency_edges [''a'' \<mapsto> [''b'']])"
    by (simp add: e acyclic_insert)
  have "validateDependencyInsertion [''a'' \<mapsto> [''b'']] ''b'' ''c'' default_graph_bounds = GV_valid 1 0"
    by (simp add: validateDependencyInsertion_def default_graph_bounds_def graph_limits)
  with a dependency_insertion_exact [OF a, of "''b''" "''c''" default_graph_bounds]
  show ?thesis by simp
qed

text \<open>The counts a result carries, and the bounds the limits put on them.\<close>

fun visited_count :: "GraphValidationResult \<Rightarrow> int" where
  "visited_count (GV_valid v e) = v"
| "visited_count (GV_cycle v e) = v"
| "visited_count (GV_limit_visited v e) = v"
| "visited_count (GV_limit_edges v e) = v"

fun examined_count :: "GraphValidationResult \<Rightarrow> int" where
  "examined_count (GV_valid v e) = e"
| "examined_count (GV_cycle v e) = e"
| "examined_count (GV_limit_visited v e) = e"
| "examined_count (GV_limit_edges v e) = e"

definition within_bounds :: "graph_bounds \<Rightarrow> GraphValidationResult \<Rightarrow> bool" where
  "within_bounds lim r \<longleftrightarrow>
     visited_count r \<le> max 1 (lim_visitedTasks lim) \<and>
     examined_count r \<le> lim_examinedEdges lim + 1 \<and>
     (case r of GV_limit_visited v e \<Rightarrow> v \<ge> lim_visitedTasks lim
      | GV_limit_edges v e \<Rightarrow> e = lim_examinedEdges lim + 1
      | GV_valid v e \<Rightarrow> e \<le> lim_examinedEdges lim
      | GV_cycle v e \<Rightarrow> e \<le> lim_examinedEdges lim)"

lemma scan_dependents_bounds:
  assumes "int (length visited) \<le> max 1 (lim_visitedTasks lim)" and "ex \<le> lim_examinedEdges lim"
  shows "case scan_dependents lim blocker ds visited queue ex of
      Inl r \<Rightarrow> within_bounds lim r
    | Inr (v, q, e) \<Rightarrow> int (length v) \<le> max 1 (lim_visitedTasks lim) \<and> e \<le> lim_examinedEdges lim"
  using assms
proof (induction ds arbitrary: visited queue ex)
  case Nil
  then show ?case by simp
next
  case (Cons d ds)
  show ?case
    using Cons.IH [of visited "ex + 1" queue]
      Cons.IH [of "visited @ [d]" "ex + 1" "queue @ [d]"] Cons.prems
    by (auto simp: Let_def within_bounds_def)
qed

lemma search_dependents_bounds:
  assumes "int (length visited) \<le> max 1 (lim_visitedTasks lim)" and "ex \<le> lim_examinedEdges lim"
  shows "within_bounds lim (search_dependents g lim blocker visited queue ex)"
  using assms
proof (induction g lim blocker visited queue ex rule: search_dependents.induct)
  case (1 g lim blocker visited ex)
  then show ?case by (simp add: within_bounds_def)
next
  case (2 g lim blocker visited current queue ex)
  with scan_dependents_bounds [of visited lim ex blocker "case g current of None \<Rightarrow> [] | Some ds \<Rightarrow> ds" queue]
  show ?case by (auto split: sum.splits)
qed

text \<open>
  With any non-negative limits the search returns (the model is total), has visited at
  most the task limit and examined at most one edge over the edge limit, and reports a limit
  only when that very limit is exhausted.
\<close>

theorem dependency_insertion_bounded:
  assumes "0 \<le> lim_examinedEdges lim"
  shows "within_bounds lim (validateDependencyInsertion g blocker blocked lim)"
  using assms search_dependents_bounds [of "[blocked]" lim 0 g blocker "[blocked]"]
  by (auto simp: validateDependencyInsertion_def within_bounds_def)


theorem dependency_insertion_bounded_witness:
  "within_bounds default_graph_bounds
     (validateDependencyInsertion [''a'' \<mapsto> [''b'']] ''b'' ''a'' default_graph_bounds)"
  using dependency_insertion_bounded [of default_graph_bounds "[''a'' \<mapsto> [''b'']]" "''b''" "''a''"]
  by (simp add: default_graph_bounds_def graph_limits)

subsection \<open>Parent insertion: a bounded walk to the root\<close>

datatype ParentValidationResult = PV_valid int | PV_cycle int | PV_limit int

function walk_parents ::
  "(task_id \<rightharpoonup> task_id) \<Rightarrow> task_id \<Rightarrow> int \<Rightarrow> task_id option \<Rightarrow> int \<Rightarrow> task_id list \<Rightarrow>
   ParentValidationResult" where
  "walk_parents parentByTask task maximumDepth None depth visited = PV_valid depth"
| "walk_parents parentByTask task maximumDepth (Some current) depth visited =
     (let depth = depth + 1 in
      if current = task \<or> current \<in> set visited then PV_cycle depth
      else if depth > maximumDepth then PV_limit depth
      else walk_parents parentByTask task maximumDepth (parentByTask current) depth
             (visited @ [current]))"
  by pat_completeness auto
termination
  by (relation "measure (\<lambda>(p, task, maximumDepth, current, depth, visited). nat (maximumDepth - depth))") auto

definition validateParentInsertion ::
  "(task_id \<rightharpoonup> task_id) \<Rightarrow> task_id \<Rightarrow> task_id \<Rightarrow> int \<Rightarrow> ParentValidationResult" where
  "validateParentInsertion parentByTask task proposedParent maximumDepth =
     (if task = proposedParent then PV_cycle 1
      else walk_parents parentByTask task maximumDepth (Some proposedParent) 0 [])"

definition parent_edges :: "(task_id \<rightharpoonup> task_id) \<Rightarrow> (task_id \<times> task_id) set" where
  "parent_edges m = {(c, p). m c = Some p}"

lemma parent_edges_update: "parent_edges (m(t \<mapsto> p)) \<subseteq> insert (t, p) (parent_edges m)"
  by (auto simp: parent_edges_def split: if_splits)

lemma walk_parents_valid:
  "walk_parents m task lim (Some current) depth visited = PV_valid n \<Longrightarrow>
   (current, task) \<notin> (parent_edges m)\<^sup>*"
proof (induction m task lim "Some current" depth visited arbitrary: current rule: walk_parents.induct)
  case (2 m task lim current depth visited)
  then have ne: "current \<noteq> task"
    and rest: "walk_parents m task lim (m current) (depth + 1) (visited @ [current]) = PV_valid n"
    by (auto simp: Let_def split: if_splits)
  show ?case
  proof
    assume "(current, task) \<in> (parent_edges m)\<^sup>*"
    with ne obtain p where "(current, p) \<in> parent_edges m" and p: "(p, task) \<in> (parent_edges m)\<^sup>*"
      by (meson converse_rtranclE)
    then have q: "m current = Some p" by (simp add: parent_edges_def)
    have go: "\<not> (current = task \<or> current \<in> set visited)" "\<not> depth + 1 > lim"
      using "2.prems" by (auto simp: Let_def split: if_splits)
    show False using "2.hyps" [OF refl go q] rest q p by simp
  qed
qed

lemma walk_parents_cycle:
  assumes "walk_parents m task lim (Some current) depth visited = PV_cycle n"
    and "(parent, current) \<in> (parent_edges (m(task \<mapsto> parent)))\<^sup>*"
    and "\<forall>v \<in> set visited. (v, current) \<in> (parent_edges (m(task \<mapsto> parent)))\<^sup>+"
  shows "\<not> acyclic (parent_edges (m(task \<mapsto> parent)))"
  using assms
proof (induction m task lim "Some current" depth visited arbitrary: current rule: walk_parents.induct)
  case (2 m task lim current depth visited)
  let ?R = "parent_edges (m(task \<mapsto> parent))"
  have closing: "(task, parent) \<in> ?R" by (simp add: parent_edges_def)
  consider (self) "current = task" | (seen) "current \<in> set visited"
    | (fresh) "current \<noteq> task" "current \<notin> set visited" by blast
  then show ?case
  proof cases
    case self
    with closing "2.prems"(2) have "(task, task) \<in> ?R\<^sup>+" by (meson rtrancl_into_trancl2)
    then show ?thesis by (auto simp: acyclic_def)
  next
    case seen
    with "2.prems"(3) show ?thesis by (auto simp: acyclic_def)
  next
    case fresh
    with "2.prems"(1) have small: "\<not> depth + 1 > lim"
      and rest: "walk_parents m task lim (m current) (depth + 1) (visited @ [current]) = PV_cycle n"
      by (auto simp: Let_def split: if_splits)
    then obtain q where q: "m current = Some q" by (cases "m current") auto
    with fresh have edge: "(current, q) \<in> ?R" by (simp add: parent_edges_def)
    have "(parent, q) \<in> ?R\<^sup>*" using "2.prems"(2) edge by simp
    moreover have "\<forall>v \<in> set (visited @ [current]). (v, q) \<in> ?R\<^sup>+"
      using "2.prems"(3) edge by (auto intro: trancl_into_trancl)
    ultimately show ?thesis using "2.hyps" [of "depth + 1" q] fresh small q rest by auto
  qed
qed

lemma walk_parents_limit:
  "walk_parents m task lim current depth visited = PV_limit n \<Longrightarrow> n = max depth lim + 1"
  by (induction m task lim current depth visited rule: walk_parents.induct)
    (auto simp: Let_def split: if_splits)

text \<open>
  The parent walk is exact below its depth limit: a parent it accepts keeps the parent
  relation acyclic after the write, one it calls a cycle would close a cycle.
\<close>

theorem parent_insertion_exact:
  assumes "acyclic (parent_edges parentByTask)"
  shows "case validateParentInsertion parentByTask task parent maximumDepth of
      PV_valid n \<Rightarrow> acyclic (parent_edges (parentByTask(task \<mapsto> parent)))
    | PV_cycle n \<Rightarrow> \<not> acyclic (parent_edges (parentByTask(task \<mapsto> parent)))
    | PV_limit n \<Rightarrow> n = max 0 maximumDepth + 1"
proof (cases "task = parent")
  case True
  then have "(task, task) \<in> parent_edges (parentByTask(task \<mapsto> parent))"
    by (simp add: parent_edges_def)
  then have "\<not> acyclic (parent_edges (parentByTask(task \<mapsto> parent)))"
    by (auto simp: acyclic_def)
  with True show ?thesis by (simp add: validateParentInsertion_def)
next
  case False
  let ?r = "walk_parents parentByTask task maximumDepth (Some parent) 0 []"
  have eq: "validateParentInsertion parentByTask task parent maximumDepth = ?r"
    using False by (simp add: validateParentInsertion_def)
  show ?thesis
  proof (cases ?r)
    case (PV_valid n)
    with assms walk_parents_valid [OF PV_valid] have "acyclic (insert (task, parent) (parent_edges parentByTask))"
      by (simp add: acyclic_insert)
    with PV_valid eq show ?thesis
      by (auto intro: acyclic_subset [OF _ parent_edges_update])
  next
    case (PV_cycle n)
    with walk_parents_cycle [OF PV_cycle] eq show ?thesis by simp
  next
    case (PV_limit n)
    with walk_parents_limit [of parentByTask task maximumDepth "Some parent" 0 "[]" n] eq show ?thesis by simp
  qed
qed

theorem parent_insertion_exact_witness:
  "acyclic (parent_edges [''a'' \<mapsto> ''b'']) \<and> \<not> acyclic (parent_edges ([''a'' \<mapsto> ''b''](''b'' \<mapsto> ''a'')))"
proof -
  have a: "acyclic (parent_edges [''a'' \<mapsto> ''b''])"
  proof -
    have "parent_edges [''a'' \<mapsto> ''b''] = {(''a'', ''b'')}"
      by (auto simp: parent_edges_def split: if_splits)
    then show ?thesis by (simp add: acyclic_insert)
  qed
  have "validateParentInsertion [''a'' \<mapsto> ''b''] ''b'' ''a'' MAX_PARENT_DEPTH = PV_cycle 2"
    by (simp add: validateParentInsertion_def graph_limits)
  with a parent_insertion_exact [OF a, of "''b''" "''a''" MAX_PARENT_DEPTH] show ?thesis by simp
qed

subsection \<open>Blocker counters and readiness\<close>

text \<open>\<open>BlockerLifecycle\<close> has the same five values as \<open>TaskStatus\<close> and is used on it.\<close>

record blocker_counters =
  unresolved :: int
  cancelled :: int

definition blockerContribution :: "TaskStatus \<Rightarrow> blocker_counters" where
  "blockerContribution status =
     (if status = TS_done then \<lparr>unresolved = 0, cancelled = 0\<rparr>
      else if status = TS_cancelled then \<lparr>unresolved = 0, cancelled = 1\<rparr>
      else \<lparr>unresolved = 1, cancelled = 0\<rparr>)"

definition transitionBlockerCounters ::
  "blocker_counters \<Rightarrow> TaskStatus \<Rightarrow> TaskStatus \<Rightarrow> blocker_counters" where
  "transitionBlockerCounters counters previous next' =
     (let before = blockerContribution previous; after = blockerContribution next' in
      \<lparr>unresolved = unresolved counters - unresolved before + unresolved after,
       cancelled = cancelled counters - cancelled before + cancelled after\<rparr>)"

definition derivedReady :: "TaskStatus \<Rightarrow> int \<Rightarrow> int \<Rightarrow> blocker_counters \<Rightarrow> bool" where
  "derivedReady status availableAt now counters \<longleftrightarrow>
     status = TS_open \<and> availableAt \<le> now \<and> unresolved counters = 0 \<and> cancelled counters = 0"

definition derivedNeedsAttention :: "TaskStatus \<Rightarrow> blocker_counters \<Rightarrow> bool" where
  "derivedNeedsAttention status counters \<longleftrightarrow>
     cancelled counters > 0 \<or> status = TS_done \<and> unresolved counters > 0"

text \<open>The specification of the counters: a recount over the statuses of the direct blockers.\<close>

definition recount :: "TaskStatus list \<Rightarrow> blocker_counters" where
  "recount ss =
     \<lparr>unresolved = sum_list (map (unresolved \<circ> blockerContribution) ss),
      cancelled = sum_list (map (cancelled \<circ> blockerContribution) ss)\<rparr>"

lemma contribution_nonneg [simp]:
  "0 \<le> unresolved (blockerContribution s)" "0 \<le> cancelled (blockerContribution s)"
  by (simp_all add: blockerContribution_def)

lemma recount_nonneg [simp]: "0 \<le> unresolved (recount ss)" "0 \<le> cancelled (recount ss)"
  by (auto simp: recount_def intro!: sum_list_nonneg)

lemma recount_pos_iff:
  "0 < unresolved (recount ss) \<longleftrightarrow> unresolved (recount ss) \<noteq> 0"
  "0 < cancelled (recount ss) \<longleftrightarrow> cancelled (recount ss) \<noteq> 0"
  by (metis order_less_le recount_nonneg)+

lemma recount_simps [simp]:
  "recount [] = \<lparr>unresolved = 0, cancelled = 0\<rparr>"
  "unresolved (recount (s # ss)) = unresolved (blockerContribution s) + unresolved (recount ss)"
  "cancelled (recount (s # ss)) = cancelled (blockerContribution s) + cancelled (recount ss)"
  by (simp_all add: recount_def)

lemma recount_zero_iff: "unresolved (recount ss) = 0 \<and> cancelled (recount ss) = 0 \<longleftrightarrow> (\<forall>s \<in> set ss. s = TS_done)"
proof (induction ss)
  case Nil
  then show ?case by simp
next
  case (Cons s ss)
  have "unresolved (blockerContribution s) = 0 \<and> cancelled (blockerContribution s) = 0 \<longleftrightarrow> s = TS_done"
    by (simp add: blockerContribution_def)
  with Cons show ?case
    by (auto simp: add_nonneg_eq_0_iff)
qed

lemma recount_cancelled_pos_iff: "cancelled (recount ss) > 0 \<longleftrightarrow> TS_cancelled \<in> set ss"
proof (induction ss)
  case Nil
  then show ?case by simp
next
  case (Cons s ss)
  have "0 < 1 + cancelled (recount ss)"
    using recount_nonneg(2) [of ss] by linarith
  with Cons show ?case by (auto simp: blockerContribution_def)
qed

text \<open>
  The incremental counter update is the recount: changing the status of one blocker and
  transitioning the counters gives exactly the counters of the changed blocker list.
\<close>

theorem counter_transition_is_recount:
  assumes "i < length ss"
  shows "transitionBlockerCounters (recount ss) (ss ! i) status = recount (ss[i := status])"
  using assms
  by (simp add: transitionBlockerCounters_def recount_def sum_list_update_int Let_def)

theorem counter_transition_is_recount_witness:
  "transitionBlockerCounters (recount [TS_open, TS_done]) ([TS_open, TS_done] ! 0) TS_cancelled =
   recount ([TS_open, TS_done][0 := TS_cancelled])"
  using counter_transition_is_recount [of 0 "[TS_open, TS_done]" TS_cancelled] by simp

text \<open>
  Readiness and attention read the blockers correctly: a task is ready exactly when it is
  open, its time has come and every direct blocker is done; it needs attention exactly when a
  blocker was cancelled or it is done with a blocker still unresolved.
\<close>

theorem readiness_reads_blockers:
  "(derivedReady status availableAt now (recount ss) \<longleftrightarrow>
      status = TS_open \<and> availableAt \<le> now \<and> (\<forall>s \<in> set ss. s = TS_done)) \<and>
   (derivedNeedsAttention status (recount ss) \<longleftrightarrow>
      TS_cancelled \<in> set ss \<or>
      status = TS_done \<and> (\<exists>s \<in> set ss. s \<noteq> TS_done))"
proof
  show "derivedReady status availableAt now (recount ss) \<longleftrightarrow>
      status = TS_open \<and> availableAt \<le> now \<and> (\<forall>s \<in> set ss. s = TS_done)"
    using recount_zero_iff [of ss] by (auto simp: derivedReady_def)
  show "derivedNeedsAttention status (recount ss) \<longleftrightarrow>
      TS_cancelled \<in> set ss \<or> status = TS_done \<and> (\<exists>s \<in> set ss. s \<noteq> TS_done)"
    using recount_zero_iff [of ss] recount_cancelled_pos_iff [of ss]
    by (auto simp: derivedNeedsAttention_def recount_pos_iff)
qed

theorem readiness_reads_blockers_witness:
  "derivedReady TS_open 3 7 (recount [TS_done, TS_done]) \<and> \<not> derivedReady TS_open 3 7 (recount [TS_done, TS_open]) \<and>
   derivedNeedsAttention TS_done (recount [TS_done, TS_open])"
  using readiness_reads_blockers [of TS_open 3 7 "[TS_done, TS_done]"]
    readiness_reads_blockers [of TS_open 3 7 "[TS_done, TS_open]"]
    readiness_reads_blockers [of TS_done 3 7 "[TS_done, TS_open]"] by simp

subsection \<open>Submission lifecycle\<close>

datatype SubmissionLifecycle = SL_pending | SL_accepted | SL_rejected | SL_cancelled

datatype SubmissionTerminalCommand = SC_accept | SC_reject | SC_cancel

fun transitionSubmissionLifecycle ::
  "SubmissionLifecycle \<Rightarrow> SubmissionTerminalCommand \<Rightarrow> SubmissionLifecycle option" where
  "transitionSubmissionLifecycle state command =
     (if state \<noteq> SL_pending then None
      else if command = SC_accept then Some SL_accepted
      else if command = SC_reject then Some SL_rejected
      else Some SL_cancelled)"

interpretation submission: lifecycle transitionSubmissionLifecycle "\<lambda>s. s \<noteq> SL_pending"
  by unfold_locales simp

lemma submission_settles: "run_steps transitionSubmissionLifecycle SL_pending (c # cs) \<noteq> SL_pending"
proof -
  have "step_or_stay transitionSubmissionLifecycle SL_pending c \<noteq> SL_pending"
    by (cases c) (simp_all add: step_or_stay_def)
  with submission.terminal_absorbing [OF this, of cs] show ?thesis by simp
qed

end
