(* ===== verification/RunEvents.thy ===== *)
theory RunEvents
  imports GraphLaws
begin

text \<open>
  The dispatched run of \<open>packages/task-domain/src/dispatch.ts\<close>: its public phases and event
  kinds, the phase an event leads to, the display budget of a batch of events with its
  tool-activity bracket, the contiguity of a batch, and the guards of a human resolution.
\<close>

subsection \<open>Bounds, phases and event kinds\<close>

definition MAX_RUN_EVENT_BATCH :: nat where "MAX_RUN_EVENT_BATCH = 25"
definition MAX_RUN_EVENTS_VIEW :: int where "MAX_RUN_EVENTS_VIEW = 100"
definition MAX_NONTERMINAL_RUN_EVENTS :: int where "MAX_NONTERMINAL_RUN_EVENTS = 96"
definition MAX_RUN_DISPLAY_EVENTS :: int where "MAX_RUN_DISPLAY_EVENTS = 64"
definition MAX_RUN_REASONING_SUMMARY_EVENTS :: int where "MAX_RUN_REASONING_SUMMARY_EVENTS = 40"
definition MAX_RUN_TOOL_ACTIVITY_EVENTS :: int where "MAX_RUN_TOOL_ACTIVITY_EVENTS = 16"

named_theorems run_limits \<open>the numeric limits of a run's event stream\<close>

declare
  MAX_RUN_EVENT_BATCH_def [run_limits]
  MAX_RUN_EVENTS_VIEW_def [run_limits]
  MAX_NONTERMINAL_RUN_EVENTS_def [run_limits]
  MAX_RUN_DISPLAY_EVENTS_def [run_limits]
  MAX_RUN_REASONING_SUMMARY_EVENTS_def [run_limits]
  MAX_RUN_TOOL_ACTIVITY_EVENTS_def [run_limits]

datatype PublicRunEventKind =
    EK_run_queued
  | EK_worktree_preparing
  | EK_worktree_ready
  | EK_codex_starting
  | EK_codex_running
  | EK_codex_planning
  | EK_codex_editing
  | EK_codex_testing
  | EK_codex_waiting_for_approval
  | EK_codex_waiting_for_input
  | EK_run_submitted
  | EK_run_failed
  | EK_run_cancelled
  | EK_run_lease_lost
  | EK_codex_tool_activity_started
  | EK_codex_tool_activity_completed
  | EK_codex_reasoning_summary_delta
  | EK_codex_assistant_message_delta

datatype RunPhase =
    RP_queued
  | RP_leased
  | RP_provisioning
  | RP_starting
  | RP_running
  | RP_waiting
  | RP_submitted
  | RP_failed
  | RP_cancel_requested
  | RP_cancelled
  | RP_ambiguous

datatype DesiredState = DS_run | DS_stop

definition TERMINAL_PHASES :: "RunPhase list" where
  "TERMINAL_PHASES = [RP_submitted, RP_failed, RP_cancelled, RP_ambiguous]"

definition FAIL_CLOSED_TASK_DISPATCH_PHASES :: "RunPhase list" where
  "FAIL_CLOSED_TASK_DISPATCH_PHASES =
     [RP_queued, RP_leased, RP_provisioning, RP_starting, RP_running, RP_waiting,
      RP_cancel_requested, RP_ambiguous]"

definition isTerminalRunPhase :: "RunPhase \<Rightarrow> bool" where
  "isTerminalRunPhase phase \<longleftrightarrow> phase \<in> set TERMINAL_PHASES"

definition taskDispatchBlocksTaskRelease :: "RunPhase \<Rightarrow> bool" where
  "taskDispatchBlocksTaskRelease phase \<longleftrightarrow> phase \<in> set FAIL_CLOSED_TASK_DISPATCH_PHASES"

lemma isTerminalRunPhase_simps [simp]:
  "isTerminalRunPhase phase \<longleftrightarrow>
     phase = RP_submitted \<or> phase = RP_failed \<or> phase = RP_cancelled \<or> phase = RP_ambiguous"
  by (auto simp: isTerminalRunPhase_def TERMINAL_PHASES_def)

lemma taskDispatchBlocksTaskRelease_iff:
  "taskDispatchBlocksTaskRelease phase \<longleftrightarrow> phase \<notin> {RP_submitted, RP_failed, RP_cancelled}"
  by (cases phase) (simp_all add: taskDispatchBlocksTaskRelease_def FAIL_CLOSED_TASK_DISPATCH_PHASES_def)

subsection \<open>Human resolution of a settled or ambiguous dispatch\<close>

datatype AmbiguousDispatchResolutionReason = AR_confirmed_cancelled | AR_declared_failed

record DispatchHumanResolutionInput =
  hr_sourcePhase :: RunPhase
  hr_sourceSubmissionRejected :: bool
  hr_taskRevision :: int
  hr_expectedTaskRevision :: int
  hr_taskStatus :: TaskStatus
  hr_taskHasCurrentClaim :: bool
  hr_sourceFenceMatches :: bool
  hr_anotherDispatchBlocksTask :: bool
  hr_sourceAlreadyRetried :: bool

definition dispatchRetryAllowed :: "DispatchHumanResolutionInput \<Rightarrow> bool" where
  "dispatchRetryAllowed input \<longleftrightarrow>
     (hr_sourcePhase input = RP_failed \<or>
      hr_sourcePhase input = RP_cancelled \<or>
      hr_sourcePhase input = RP_submitted \<and> hr_sourceSubmissionRejected input) \<and>
     hr_taskRevision input = hr_expectedTaskRevision input \<and>
     hr_taskStatus input = TS_open \<and>
     \<not> hr_taskHasCurrentClaim input \<and>
     hr_sourceFenceMatches input \<and>
     \<not> hr_anotherDispatchBlocksTask input \<and>
     \<not> hr_sourceAlreadyRetried input"

definition resolvedAmbiguousDispatchPhase ::
  "DispatchHumanResolutionInput \<Rightarrow> AmbiguousDispatchResolutionReason \<Rightarrow> RunPhase option" where
  "resolvedAmbiguousDispatchPhase input reason =
     (if hr_sourcePhase input \<noteq> RP_ambiguous \<or>
         hr_taskRevision input \<noteq> hr_expectedTaskRevision input \<or>
         (hr_taskStatus input \<noteq> TS_in_progress \<and> hr_taskStatus input \<noteq> TS_cancelled) \<or>
         \<not> hr_taskHasCurrentClaim input \<or>
         \<not> hr_sourceFenceMatches input \<or>
         hr_anotherDispatchBlocksTask input
      then None
      else if reason = AR_confirmed_cancelled then Some RP_cancelled else Some RP_failed)"

text \<open>
  A human can retry or resolve a dispatch, never both, and only when no other dispatch
  still holds the task and the source fence matches; what they act on is a dispatch that is
  no longer running, and a resolved one no longer blocks the release of its task.
\<close>

theorem human_resolution_exclusive:
  "\<not> (dispatchRetryAllowed input \<and> resolvedAmbiguousDispatchPhase input reason \<noteq> None) \<and>
   (dispatchRetryAllowed input \<or> resolvedAmbiguousDispatchPhase input reason \<noteq> None \<longrightarrow>
      \<not> hr_anotherDispatchBlocksTask input \<and> hr_sourceFenceMatches input \<and>
      isTerminalRunPhase (hr_sourcePhase input)) \<and>
   (\<forall>phase. resolvedAmbiguousDispatchPhase input reason = Some phase \<longrightarrow>
      \<not> taskDispatchBlocksTaskRelease phase)"
  by (auto simp: dispatchRetryAllowed_def resolvedAmbiguousDispatchPhase_def
        taskDispatchBlocksTaskRelease_iff)

theorem human_resolution_exclusive_witness:
  "\<not> taskDispatchBlocksTaskRelease RP_failed \<and>
   \<not> dispatchRetryAllowed \<lparr>hr_sourcePhase = RP_ambiguous, hr_sourceSubmissionRejected = False, hr_taskRevision = 4,
      hr_expectedTaskRevision = 4, hr_taskStatus = TS_in_progress, hr_taskHasCurrentClaim = True,
      hr_sourceFenceMatches = True, hr_anotherDispatchBlocksTask = False, hr_sourceAlreadyRetried = False\<rparr>"
  using human_resolution_exclusive [of "\<lparr>hr_sourcePhase = RP_ambiguous, hr_sourceSubmissionRejected = False,
      hr_taskRevision = 4, hr_expectedTaskRevision = 4, hr_taskStatus = TS_in_progress, hr_taskHasCurrentClaim = True,
      hr_sourceFenceMatches = True, hr_anotherDispatchBlocksTask = False, hr_sourceAlreadyRetried = False\<rparr>"
      AR_declared_failed]
  by (simp add: resolvedAmbiguousDispatchPhase_def)

subsection \<open>The phase an event leads to\<close>

definition nextRunPhase :: "RunPhase \<Rightarrow> DesiredState \<Rightarrow> PublicRunEventKind \<Rightarrow> RunPhase option" where
  "nextRunPhase phase desiredState kind =
     (if isTerminalRunPhase phase \<or> phase = RP_queued then None
      else case kind of
        EK_run_queued \<Rightarrow> Some phase
      | EK_worktree_preparing \<Rightarrow>
          (if phase = RP_leased \<or> phase = RP_provisioning then Some RP_provisioning else None)
      | EK_worktree_ready \<Rightarrow>
          (if phase = RP_leased \<or> phase = RP_provisioning \<or> phase = RP_starting
           then Some RP_starting else None)
      | EK_codex_starting \<Rightarrow>
          (if phase = RP_leased \<or> phase = RP_provisioning \<or> phase = RP_starting
           then Some RP_starting else None)
      | EK_codex_waiting_for_approval \<Rightarrow>
          (if phase = RP_starting \<or> phase = RP_running \<or> phase = RP_waiting
           then Some RP_waiting else None)
      | EK_codex_waiting_for_input \<Rightarrow>
          (if phase = RP_starting \<or> phase = RP_running \<or> phase = RP_waiting
           then Some RP_waiting else None)
      | EK_run_submitted \<Rightarrow> Some RP_submitted
      | EK_run_failed \<Rightarrow> Some RP_failed
      | EK_run_cancelled \<Rightarrow>
          (if desiredState = DS_stop \<and> phase = RP_cancel_requested then Some RP_cancelled else None)
      | EK_run_lease_lost \<Rightarrow> Some RP_ambiguous
      | _ \<Rightarrow>
          (if phase = RP_leased \<or> phase = RP_provisioning \<or> phase = RP_starting \<or>
              phase = RP_running \<or> phase = RP_waiting
           then Some RP_running else None))"

definition run_phase_step :: "RunPhase \<Rightarrow> DesiredState \<times> PublicRunEventKind \<Rightarrow> RunPhase option" where
  "run_phase_step phase event = nextRunPhase phase (fst event) (snd event)"

interpretation run_phase: lifecycle run_phase_step isTerminalRunPhase
  by unfold_locales (auto simp: run_phase_step_def nextRunPhase_def)

fun phase_rank :: "RunPhase \<Rightarrow> nat" where
  "phase_rank RP_queued = 0"
| "phase_rank RP_leased = 1"
| "phase_rank RP_provisioning = 2"
| "phase_rank RP_starting = 3"
| "phase_rank RP_running = 4"
| "phase_rank RP_waiting = 4"
| "phase_rank RP_cancel_requested = 5"
| "phase_rank RP_submitted = 6"
| "phase_rank RP_failed = 6"
| "phase_rank RP_cancelled = 6"
| "phase_rank RP_ambiguous = 6"

lemma nextRunPhase_rank: "nextRunPhase phase desired kind = Some phase' \<Longrightarrow> phase_rank phase \<le> phase_rank phase'"
  by (cases phase; cases kind) (auto simp: nextRunPhase_def split: if_splits)

lemma run_phase_step_rank: "phase_rank phase \<le> phase_rank (step_or_stay run_phase_step phase e)"
  by (auto simp: step_or_stay_def run_phase_step_def split: option.splits dest: nextRunPhase_rank)

lemma run_phase_run_rank: "phase_rank phase \<le> phase_rank (run_steps run_phase_step phase es)"
  by (induction es arbitrary: phase) (auto intro: le_trans run_phase_step_rank)

text \<open>
  C37. A run only moves forward: over any stream of events the phase never falls back to an
  earlier stage, a terminal phase is never left again whatever arrives later, and a queued
  dispatch is not moved by runner events at all.
\<close>

theorem run_phase_progress:
  "phase_rank phase \<le> phase_rank (run_steps run_phase_step phase es) \<and>
   (isTerminalRunPhase (run_steps run_phase_step phase es) \<longrightarrow>
      run_steps run_phase_step phase (es @ later) = run_steps run_phase_step phase es) \<and>
   run_steps run_phase_step RP_queued es = RP_queued"
proof (intro conjI impI)
  show "phase_rank phase \<le> phase_rank (run_steps run_phase_step phase es)"
    by (rule run_phase_run_rank)
  show "run_steps run_phase_step phase (es @ later) = run_steps run_phase_step phase es"
    if "isTerminalRunPhase (run_steps run_phase_step phase es)"
    by (rule run_phase.settled_stays [OF that])
  show "run_steps run_phase_step RP_queued es = RP_queued"
    by (induction es) (simp_all add: step_or_stay_def run_phase_step_def nextRunPhase_def)
qed

theorem run_phase_progress_witness:
  "run_steps run_phase_step RP_leased ([(DS_run, EK_run_failed)] @ [(DS_run, EK_run_submitted)]) = RP_failed"
  using run_phase_progress [of RP_leased "[(DS_run, EK_run_failed)]" "[(DS_run, EK_run_submitted)]"]
  by (simp add: step_or_stay_def run_phase_step_def nextRunPhase_def isTerminalRunPhase_def TERMINAL_PHASES_def)

text \<open>
  A run is reported cancelled only after a stop was asked for: no event stream reaches the
  phase \<open>cancelled\<close> unless the run was in \<open>cancel_requested\<close> and its desired state was \<open>stop\<close>.
\<close>

theorem cancelled_needs_stop:
  assumes "nextRunPhase phase desired kind = Some RP_cancelled"
  shows "phase = RP_cancel_requested \<and> desired = DS_stop \<and> kind = EK_run_cancelled"
  using assms by (cases phase; cases kind) (auto simp: nextRunPhase_def split: if_splits)

theorem cancelled_needs_stop_witness:
  "nextRunPhase RP_cancel_requested DS_stop EK_run_cancelled = Some RP_cancelled \<and> DS_stop = DS_stop"
  using cancelled_needs_stop [of RP_cancel_requested DS_stop EK_run_cancelled]
  by (simp add: nextRunPhase_def)

subsection \<open>The display budget of a run\<close>

record RunDisplayBudget =
  displayEvents :: int
  reasoningSummaryEvents :: int
  toolActivityEvents :: int

record SequencedRunEventKind =
  ev_sequence :: int
  ev_kind :: PublicRunEventKind

datatype RunDisplayBudgetCheck =
    BC_accepted RunDisplayBudget
  | BC_invalid_existing
  | BC_invalid_event
  | BC_limit_exceeded

definition toolActivityOpenAfter :: "bool \<Rightarrow> SequencedRunEventKind \<Rightarrow> bool option" where
  "toolActivityOpenAfter open event =
     (if ev_kind event = EK_codex_tool_activity_started
      then (if open \<or> ev_sequence event \<ge> MAX_NONTERMINAL_RUN_EVENTS then None else Some True)
      else if ev_kind event = EK_codex_tool_activity_completed
      then (if open then Some False else None)
      else if \<not> open then Some False
      else if ev_kind event = EK_codex_reasoning_summary_delta \<or>
              ev_kind event = EK_codex_assistant_message_delta \<or>
              ev_kind event = EK_run_submitted \<or>
              ev_kind event = EK_run_failed \<or>
              ev_kind event = EK_run_cancelled \<or>
              ev_kind event = EK_run_lease_lost \<or>
              ev_sequence event \<ge> MAX_NONTERMINAL_RUN_EVENTS
      then None
      else Some True)"

definition advanceRunDisplayBudget ::
  "RunDisplayBudget \<Rightarrow> PublicRunEventKind \<Rightarrow> RunDisplayBudget option" where
  "advanceRunDisplayBudget current kind =
     (let reasoningIncrement = (if kind = EK_codex_reasoning_summary_delta then 1 else 0 :: int);
          toolIncrement = (if kind = EK_codex_tool_activity_started \<or>
                              kind = EK_codex_tool_activity_completed then 1 else 0 :: int);
          displayIncrement = (if reasoningIncrement > 0 \<or> kind = EK_codex_assistant_message_delta \<or>
                                 toolIncrement > 0 then 1 else 0 :: int);
          next' = \<lparr>displayEvents = displayEvents current + displayIncrement,
                   reasoningSummaryEvents = reasoningSummaryEvents current + reasoningIncrement,
                   toolActivityEvents = toolActivityEvents current + toolIncrement\<rparr>
      in if displayEvents next' \<le> MAX_RUN_DISPLAY_EVENTS \<and>
            reasoningSummaryEvents next' \<le> MAX_RUN_REASONING_SUMMARY_EVENTS \<and>
            toolActivityEvents next' \<le> MAX_RUN_TOOL_ACTIVITY_EVENTS
         then Some next' else None)"

definition empty_budget :: RunDisplayBudget where
  "empty_budget = \<lparr>displayEvents = 0, reasoningSummaryEvents = 0, toolActivityEvents = 0\<rparr>"

text \<open>
  The two loops of \<open>runDisplayBudgetAfterBatch\<close>. The first replays the stored events with
  their index; the second takes the events of the batch that are new.
\<close>

fun replay_existing ::
  "int \<Rightarrow> SequencedRunEventKind list \<Rightarrow> bool \<Rightarrow> RunDisplayBudget \<Rightarrow> (bool \<times> RunDisplayBudget) option" where
  "replay_existing index [] open budget = Some (open, budget)"
| "replay_existing index (event # rest) open budget =
     (if ev_sequence event \<noteq> index + 1 then None
      else case toolActivityOpenAfter open event of
        None \<Rightarrow> None
      | Some open' \<Rightarrow>
          (case advanceRunDisplayBudget budget (ev_kind event) of
             None \<Rightarrow> None
           | Some budget' \<Rightarrow> replay_existing (index + 1) rest open' budget'))"

fun admit_events ::
  "int \<Rightarrow> SequencedRunEventKind list \<Rightarrow> bool \<Rightarrow> RunDisplayBudget \<Rightarrow> RunDisplayBudgetCheck" where
  "admit_events accepted [] open budget = BC_accepted budget"
| "admit_events accepted (event # rest) open budget =
     (if ev_sequence event \<le> accepted then admit_events accepted rest open budget
      else case toolActivityOpenAfter open event of
        None \<Rightarrow> BC_invalid_event
      | Some open' \<Rightarrow>
          (case advanceRunDisplayBudget budget (ev_kind event) of
             None \<Rightarrow> BC_limit_exceeded
           | Some budget' \<Rightarrow> admit_events accepted rest open' budget'))"

definition runDisplayBudgetAfterBatch ::
  "int \<Rightarrow> SequencedRunEventKind list \<Rightarrow> SequencedRunEventKind list \<Rightarrow> RunDisplayBudgetCheck" where
  "runDisplayBudgetAfterBatch acceptedThroughSequence existingEvents events =
     (if \<not> is_safe_integer acceptedThroughSequence \<or> acceptedThroughSequence < 0 \<or>
         acceptedThroughSequence > MAX_RUN_EVENTS_VIEW \<or>
         int (length existingEvents) \<noteq> acceptedThroughSequence
      then BC_invalid_existing
      else case replay_existing 0 existingEvents False empty_budget of
        None \<Rightarrow> BC_invalid_existing
      | Some (open, budget) \<Rightarrow> admit_events acceptedThroughSequence events open budget)"

text \<open>
  The specification: a budget is the count of the event kinds, and the tool bracket is an
  automaton over the kinds alone.
\<close>

definition is_tool_event :: "PublicRunEventKind \<Rightarrow> bool" where
  "is_tool_event k \<longleftrightarrow> k = EK_codex_tool_activity_started \<or> k = EK_codex_tool_activity_completed"

definition is_display_event :: "PublicRunEventKind \<Rightarrow> bool" where
  "is_display_event k \<longleftrightarrow>
     is_tool_event k \<or> k = EK_codex_reasoning_summary_delta \<or> k = EK_codex_assistant_message_delta"

definition budget_of :: "PublicRunEventKind list \<Rightarrow> RunDisplayBudget" where
  "budget_of ks =
     \<lparr>displayEvents = int (length (filter is_display_event ks)),
      reasoningSummaryEvents = int (length (filter (\<lambda>k. k = EK_codex_reasoning_summary_delta) ks)),
      toolActivityEvents = int (length (filter is_tool_event ks))\<rparr>"

definition within_run_budget :: "RunDisplayBudget \<Rightarrow> bool" where
  "within_run_budget b \<longleftrightarrow>
     displayEvents b \<le> MAX_RUN_DISPLAY_EVENTS \<and>
     reasoningSummaryEvents b \<le> MAX_RUN_REASONING_SUMMARY_EVENTS \<and>
     toolActivityEvents b \<le> MAX_RUN_TOOL_ACTIVITY_EVENTS"

fun tool_bracket :: "bool \<Rightarrow> PublicRunEventKind list \<Rightarrow> bool" where
  "tool_bracket open [] = True"
| "tool_bracket open (k # ks) =
     (if k = EK_codex_tool_activity_started then \<not> open \<and> tool_bracket True ks
      else if k = EK_codex_tool_activity_completed then open \<and> tool_bracket False ks
      else if open \<and> k \<in> {EK_codex_reasoning_summary_delta, EK_codex_assistant_message_delta,
                           EK_run_submitted, EK_run_failed, EK_run_cancelled, EK_run_lease_lost}
      then False
      else tool_bracket open ks)"

definition open_after :: "bool \<Rightarrow> PublicRunEventKind list \<Rightarrow> bool" where
  "open_after open ks =
     foldl (\<lambda>b k. if k = EK_codex_tool_activity_started then True
                 else if k = EK_codex_tool_activity_completed then False else b) open ks"

lemma tool_bracket_append:
  "tool_bracket open (ks @ ls) \<longleftrightarrow> tool_bracket open ks \<and> tool_bracket (open_after open ks) ls"
  by (induction ks arbitrary: "open") (auto simp: open_after_def)

lemma toolActivityOpenAfter_SomeD:
  "toolActivityOpenAfter open event = Some open' \<Longrightarrow>
   open' = open_after open [ev_kind event] \<and> tool_bracket open [ev_kind event]"
  by (auto simp: toolActivityOpenAfter_def open_after_def split: if_splits)

lemma advanceRunDisplayBudget_SomeD:
  "advanceRunDisplayBudget (budget_of ks) k = Some b \<Longrightarrow> b = budget_of (ks @ [k]) \<and> within_run_budget b"
  by (auto simp: advanceRunDisplayBudget_def budget_of_def within_run_budget_def is_display_event_def
        is_tool_event_def Let_def split: if_splits)

lemma budget_of_Nil [simp]: "budget_of [] = empty_budget"
  by (simp add: budget_of_def empty_budget_def)

lemma within_empty_budget [simp]: "within_run_budget empty_budget"
  by (simp add: within_run_budget_def empty_budget_def run_limits)

lemma open_after_append: "open_after b (ks @ ls) = open_after (open_after b ks) ls"
  by (simp add: open_after_def)

lemma budget_step_spec:
  assumes "toolActivityOpenAfter (open_after False ks) e = Some open'"
    and "advanceRunDisplayBudget (budget_of ks) (ev_kind e) = Some b"
    and "tool_bracket False ks"
  shows "open' = open_after False (ks @ [ev_kind e])" "b = budget_of (ks @ [ev_kind e])"
    "tool_bracket False (ks @ [ev_kind e])" "within_run_budget (budget_of (ks @ [ev_kind e]))"
proof -
  from assms(1) have t: "open' = open_after (open_after False ks) [ev_kind e]"
    "tool_bracket (open_after False ks) [ev_kind e]"
    by (blast dest: toolActivityOpenAfter_SomeD)+
  from assms(2) have b: "b = budget_of (ks @ [ev_kind e])" "within_run_budget b"
    by (blast dest: advanceRunDisplayBudget_SomeD)+
  show "open' = open_after False (ks @ [ev_kind e])" using t by (simp only: open_after_append)
  show "b = budget_of (ks @ [ev_kind e])" by (rule b)
  show "tool_bracket False (ks @ [ev_kind e])" using t assms(3) by (simp only: tool_bracket_append simp_thms)
  show "within_run_budget (budget_of (ks @ [ev_kind e]))" using b by simp
qed

lemma replay_existing_spec:
  assumes "replay_existing i es (open_after False ks) (budget_of ks) = Some (open, b)"
    and "tool_bracket False ks" and "within_run_budget (budget_of ks)"
  shows "open = open_after False (ks @ map ev_kind es) \<and> b = budget_of (ks @ map ev_kind es) \<and>
         tool_bracket False (ks @ map ev_kind es) \<and> within_run_budget b \<and>
         map ev_sequence es = map (\<lambda>j. i + 1 + int j) [0..<length es]"
  using assms
proof (induction es arbitrary: i ks)
  case Nil
  then show ?case by simp
next
  case (Cons e es)
  from Cons.prems(1) obtain o' b' where
    sq: "ev_sequence e = i + 1"
    and o': "toolActivityOpenAfter (open_after False ks) e = Some o'"
    and b': "advanceRunDisplayBudget (budget_of ks) (ev_kind e) = Some b'"
    and rest: "replay_existing (i + 1) es o' b' = Some (open, b)"
    by (auto split: if_splits option.splits)
  note eqs = budget_step_spec [OF o' b' Cons.prems(2)]
  have shift: "map (\<lambda>j. i + 1 + int j) [0..<Suc (length es)] =
      (i + 1) # map (\<lambda>j. i + 1 + 1 + int j) [0..<length es]"
    by (simp add: upt_conv_Cons map_Suc_upt [symmetric] comp_def del: upt_Suc)
  show ?case
    using Cons.IH [of "i + 1" "ks @ [ev_kind e]"] rest eqs sq shift by (auto simp del: upt_Suc)
qed

lemma admit_events_spec:
  assumes "admit_events acc es (open_after False ks) (budget_of ks) = BC_accepted b"
    and "tool_bracket False ks" and "within_run_budget (budget_of ks)"
  shows "b = budget_of (ks @ map ev_kind (filter (\<lambda>e. ev_sequence e > acc) es)) \<and>
         tool_bracket False (ks @ map ev_kind (filter (\<lambda>e. ev_sequence e > acc) es)) \<and>
         within_run_budget b"
  using assms
proof (induction es arbitrary: ks)
  case Nil
  then show ?case by simp
next
  case (Cons e es)
  show ?case
  proof (cases "ev_sequence e \<le> acc")
    case True
    with Cons show ?thesis by simp
  next
    case False
    with Cons.prems(1) obtain o' b' where
      o': "toolActivityOpenAfter (open_after False ks) e = Some o'"
      and b': "advanceRunDisplayBudget (budget_of ks) (ev_kind e) = Some b'"
      and rest: "admit_events acc es o' b' = BC_accepted b"
      by (auto split: if_splits option.splits)
    note eqs = budget_step_spec [OF o' b' Cons.prems(2)]
    with Cons.IH [of "ks @ [ev_kind e]"] rest False show ?thesis by auto
  qed
qed

text \<open>
  C36. An accepted batch has exactly the budget of its event kinds: the counts are the counts of
  the stored events followed by the new ones, they stay within the three limits, every stored
  event carries its position as sequence, and over the whole stream the tool activity is
  properly bracketed (no nested start, no completion without a start, no text or terminal
  event inside an open tool activity).
\<close>

theorem display_budget_counts:
  assumes "runDisplayBudgetAfterBatch accepted existing events = BC_accepted budget"
  shows "budget = budget_of (map ev_kind (existing @ filter (\<lambda>e. ev_sequence e > accepted) events)) \<and>
         within_run_budget budget \<and>
         tool_bracket False (map ev_kind (existing @ filter (\<lambda>e. ev_sequence e > accepted) events)) \<and>
         map ev_sequence existing = map (\<lambda>j. 1 + int j) [0..<length existing]"
proof -
  obtain "open" b where
    rep: "replay_existing 0 existing False empty_budget = Some (open, b)"
    and adm: "admit_events accepted events open b = BC_accepted budget"
    using assms by (auto simp: runDisplayBudgetAfterBatch_def split: if_splits option.splits)
  have base: "open_after False [] = False" by (simp add: open_after_def)
  have r: "open = open_after False (map ev_kind existing)" "b = budget_of (map ev_kind existing)"
    "tool_bracket False (map ev_kind existing)" "within_run_budget b"
    "map ev_sequence existing = map (\<lambda>j. 1 + int j) [0..<length existing]"
    using replay_existing_spec [of 0 existing "[]" "open" b] rep base by auto
  with admit_events_spec [of accepted events "map ev_kind existing" budget] adm
  show ?thesis by auto
qed

definition ev :: "int \<Rightarrow> PublicRunEventKind \<Rightarrow> SequencedRunEventKind" where
  "ev s k = \<lparr>ev_sequence = s, ev_kind = k\<rparr>"

theorem display_budget_counts_witness:
  "\<lparr>displayEvents = 2, reasoningSummaryEvents = 1, toolActivityEvents = 1\<rparr> =
   budget_of (map ev_kind ([ev 1 EK_codex_reasoning_summary_delta] @
     filter (\<lambda>e. ev_sequence e > 1)
       [ev 1 EK_codex_reasoning_summary_delta, ev 2 EK_codex_tool_activity_started]))"
proof -
  have "runDisplayBudgetAfterBatch 1 [ev 1 EK_codex_reasoning_summary_delta]
      [ev 1 EK_codex_reasoning_summary_delta, ev 2 EK_codex_tool_activity_started] =
      BC_accepted \<lparr>displayEvents = 2, reasoningSummaryEvents = 1, toolActivityEvents = 1\<rparr>"
    by (simp add: runDisplayBudgetAfterBatch_def guard_defs run_limits toolActivityOpenAfter_def
          advanceRunDisplayBudget_def empty_budget_def ev_def)
  from display_budget_counts [OF this] show ?thesis by simp
qed

text \<open>Replaying what is already accepted changes nothing: a retried batch has the same verdict.\<close>

lemma admit_events_replay:
  "\<forall>e \<in> set replay. ev_sequence e \<le> acc \<Longrightarrow>
   admit_events acc (replay @ es) open b = admit_events acc es open b"
  by (induction replay) auto

lemma display_budget_replay:
  "\<forall>e \<in> set replay. ev_sequence e \<le> accepted \<Longrightarrow>
   runDisplayBudgetAfterBatch accepted existing (replay @ events) =
   runDisplayBudgetAfterBatch accepted existing events"
  by (auto simp: runDisplayBudgetAfterBatch_def admit_events_replay split: option.splits)

subsection \<open>Payloads, sequences and batches\<close>

record PublicRunEvent =
  pe_id :: string
  pe_sequence :: int
  pe_kind :: PublicRunEventKind
  pe_displayText :: "string option"

definition storedRunEventPayloadMatches ::
  "PublicRunEventKind \<Rightarrow> string option \<Rightarrow> PublicRunEvent \<Rightarrow> bool" where
  "storedRunEventPayloadMatches storedKind storedDisplayText incoming =
     (if storedKind \<noteq> pe_kind incoming then False
      else if pe_kind incoming = EK_codex_reasoning_summary_delta \<or>
              pe_kind incoming = EK_codex_assistant_message_delta
      then storedDisplayText = pe_displayText incoming
      else storedDisplayText = None)"

definition TERMINAL_EVENT_KINDS :: "PublicRunEventKind list" where
  "TERMINAL_EVENT_KINDS = [EK_run_submitted, EK_run_failed, EK_run_cancelled, EK_run_lease_lost]"

definition runEventSequenceAllowed :: "int \<Rightarrow> PublicRunEventKind \<Rightarrow> bool" where
  "runEventSequenceAllowed sequence kind \<longleftrightarrow>
     is_safe_integer sequence \<and> sequence > 0 \<and>
     sequence \<le> (if kind \<in> set TERMINAL_EVENT_KINDS then MAX_RUN_EVENTS_VIEW
                  else MAX_NONTERMINAL_RUN_EVENTS)"

definition dispatchSubmissionInputRevisionMatches :: "int \<Rightarrow> int \<Rightarrow> bool" where
  "dispatchSubmissionInputRevisionMatches currentReviewRevision inputReviewRevision \<longleftrightarrow>
     is_safe_integer currentReviewRevision \<and> is_safe_integer inputReviewRevision \<and>
     currentReviewRevision > 0 \<and> currentReviewRevision = inputReviewRevision"

text \<open>
  The loop of \<open>contiguousEventBatch\<close> with the previous event (absent at index 0) and the set of
  identifiers seen so far.
\<close>

fun contiguous_from :: "(string \<times> int) option \<Rightarrow> string list \<Rightarrow> (string \<times> int) list \<Rightarrow> bool" where
  "contiguous_from previous ids [] = True"
| "contiguous_from previous ids ((i, s) # rest) =
     (if s < 1 \<or> i \<in> set ids then False
      else if (case previous of None \<Rightarrow> False | Some p \<Rightarrow> s \<noteq> snd p + 1) then False
      else contiguous_from (Some (i, s)) (ids @ [i]) rest)"

definition contiguousEventBatch :: "int \<Rightarrow> (string \<times> int) list \<Rightarrow> bool" where
  "contiguousEventBatch acceptedThroughSequence events \<longleftrightarrow>
     (if events = [] \<or> length events > MAX_RUN_EVENT_BATCH then False
      else contiguous_from None [] events \<and>
        (case events of [] \<Rightarrow> False | first # _ \<Rightarrow> snd first \<le> acceptedThroughSequence + 1))"

lemma contiguous_from_Some:
  assumes "1 \<le> s0"
  shows "contiguous_from (Some (i0, s0)) ids es \<longleftrightarrow>
     distinct (map fst es) \<and> set (map fst es) \<inter> set ids = {} \<and>
     map snd es = map (\<lambda>j. s0 + 1 + int j) [0..<length es]"
  using assms
proof (induction es arbitrary: i0 s0 ids)
  case Nil
  then show ?case by simp
next
  case (Cons e es)
  obtain i s where e: "e = (i, s)" by (cases e)
  have shift: "map (\<lambda>j. s0 + 1 + int j) [0..<Suc (length es)] =
      (s0 + 1) # map (\<lambda>j. s0 + 1 + 1 + int j) [0..<length es]"
    by (simp add: upt_conv_Cons map_Suc_upt [symmetric] comp_def del: upt_Suc)
  show ?case
    using Cons.IH [of "s0 + 1" i "ids @ [i]"] Cons.prems e shift by (auto simp del: upt_Suc)
qed

text \<open>
  A batch is accepted as contiguous exactly when it has 1 to 25 events with distinct
  identifiers whose sequences count up by one from a first sequence of at least 1 that
  leaves no gap behind the accepted prefix.
\<close>

theorem contiguous_batch_iff:
  "contiguousEventBatch accepted events \<longleftrightarrow>
     1 \<le> length events \<and> length events \<le> 25 \<and> distinct (map fst events) \<and>
     (\<exists>s. 1 \<le> s \<and> s \<le> accepted + 1 \<and> map snd events = map (\<lambda>j. s + int j) [0..<length events])"
proof (cases events)
  case Nil
  then show ?thesis by (simp add: contiguousEventBatch_def)
next
  case (Cons e es)
  obtain i s where e: "e = (i, s)" by (cases e)
  have shift: "\<And>t. map (\<lambda>j. t + int j) [0..<Suc (length es)] =
      t # map (\<lambda>j. t + 1 + int j) [0..<length es]"
    by (simp add: upt_conv_Cons map_Suc_upt [symmetric] comp_def del: upt_Suc)
  show ?thesis
    using contiguous_from_Some [of s i "[i]" es] Cons e
    by (auto simp: contiguousEventBatch_def run_limits shift simp del: upt_Suc)
qed

end
