(* ===== verification/InteractionLaws.thy ===== *)
theory InteractionLaws
  imports Prelude
begin

text \<open>
  Questions a run asks its human: \<open>packages/task-domain/src/interaction-laws.ts\<close> with the part
  of \<open>syncRunInteractions\<close> in \<open>apps/web/convex/dispatchInteractions.ts\<close> that settles a stored
  interaction. Admission counts open and lifetime interactions, a settlement is applied,
  replayed or rejected, and a page is cut to its limit. A \<open>TypeError\<close> the code throws is
  the error side of a sum.
\<close>

definition MAX_RUN_INTERACTIONS_PER_RUN :: int where "MAX_RUN_INTERACTIONS_PER_RUN = 128"

datatype DurableRunInteractionState = IS_pending | IS_answered | IS_resolved | IS_expired
datatype RunInteractionSettlementDisposition = SD_apply | SD_replay | SD_reject
datatype RunInteractionAdmissionDisposition = AD_accept | AD_terminal_limit
datatype RunInteractionOpenAdmissionDisposition = OD_accept | OD_capacity_full
datatype ExpiryReason = ER_local_deadline | ER_provider_expired | ER_cloud_expired

datatype RunInteractionSettlement =
    Applied (settlement_interactionId: string) int
  | Expired (settlement_interactionId: string) "int option" ExpiryReason

datatype RunInteractionBatchAdmissionPlan =
    BP_accept int int
  | BP_capacity_full
  | BP_invalid
  | BP_terminal_limit

datatype interaction_error =
    LimitNotPositive
  | OpenCountInvalid
  | SettlementUnderflow

record DeliveryFence =
  df_runnerId :: string
  df_bootId :: string
  df_bootGeneration :: int
  df_claimId :: string
  df_claimFence :: int

record RunInteractionDeliveryProjection =
  dp_authorityWorkspaceId :: string
  dp_authority :: DeliveryFence
  dp_replyKeyId :: string
  dp_reply :: DeliveryFence
  dp_sealedWorkspaceId :: string
  dp_sealedKeyId :: string

definition runInteractionDeliveryProjectionMatches :: "RunInteractionDeliveryProjection \<Rightarrow> bool" where
  "runInteractionDeliveryProjectionMatches input \<longleftrightarrow>
     dp_sealedWorkspaceId input = dp_authorityWorkspaceId input \<and>
     dp_sealedKeyId input = dp_replyKeyId input \<and>
     df_runnerId (dp_reply input) = df_runnerId (dp_authority input) \<and>
     df_bootId (dp_reply input) = df_bootId (dp_authority input) \<and>
     df_bootGeneration (dp_reply input) = df_bootGeneration (dp_authority input) \<and>
     df_claimId (dp_reply input) = df_claimId (dp_authority input) \<and>
     df_claimFence (dp_reply input) = df_claimFence (dp_authority input)"

definition boundedRunInteractionPage :: "'v list \<Rightarrow> int \<Rightarrow> interaction_error + 'v list \<times> bool" where
  "boundedRunInteractionPage orderedValues limit =
     (if \<not> is_safe_integer limit \<or> limit < 1 then Inl LimitNotPositive
      else Inr (take (nat limit) orderedValues, int (length orderedValues) > limit))"

definition pendingExpiredInteractionPage :: "('v \<Rightarrow> int option) \<Rightarrow> 'v list \<Rightarrow> nat \<Rightarrow> 'v list" where
  "pendingExpiredInteractionPage settlementAcknowledgedAt orderedValues limit =
     take limit (filter (\<lambda>v. settlementAcknowledgedAt v = None) orderedValues)"

definition runInteractionAdmissionDisposition :: "int \<Rightarrow> RunInteractionAdmissionDisposition" where
  "runInteractionAdmissionDisposition lifetimeInteractionCount =
     (if is_safe_integer lifetimeInteractionCount \<and> lifetimeInteractionCount \<ge> 0 \<and>
         lifetimeInteractionCount < MAX_RUN_INTERACTIONS_PER_RUN
      then AD_accept else AD_terminal_limit)"

definition closes_open :: "DurableRunInteractionState \<Rightarrow> RunInteractionSettlementDisposition \<Rightarrow> bool" where
  "closes_open durableState disposition \<longleftrightarrow>
     disposition = SD_apply \<and> (durableState = IS_pending \<or> durableState = IS_answered)"

definition openInteractionCountAfterSettlement ::
  "int \<Rightarrow> DurableRunInteractionState \<Rightarrow> RunInteractionSettlementDisposition \<Rightarrow> interaction_error + int" where
  "openInteractionCountAfterSettlement openInteractionCount durableState disposition =
     (if \<not> is_safe_integer openInteractionCount \<or> openInteractionCount < 0 then Inl OpenCountInvalid
      else if \<not> closes_open durableState disposition then Inr openInteractionCount
      else if openInteractionCount = 0 then Inl SettlementUnderflow
      else Inr (openInteractionCount - 1))"

definition runInteractionOpenAdmissionDisposition ::
  "int \<Rightarrow> int \<Rightarrow> RunInteractionOpenAdmissionDisposition" where
  "runInteractionOpenAdmissionDisposition openInteractionCount maximumOpenInteractions =
     (if \<not> is_safe_integer openInteractionCount \<or> openInteractionCount < 0 \<or>
         \<not> is_safe_integer maximumOpenInteractions \<or> maximumOpenInteractions < 1
      then OD_capacity_full
      else if openInteractionCount < maximumOpenInteractions then OD_accept else OD_capacity_full)"

type_synonym settlement_entry = "RunInteractionSettlementDisposition \<times> DurableRunInteractionState"

definition planRunInteractionBatchAdmission ::
  "int \<Rightarrow> int \<Rightarrow> DurableRunInteractionState list \<Rightarrow> int \<Rightarrow> settlement_entry list \<Rightarrow>
   RunInteractionBatchAdmissionPlan" where
  "planRunInteractionBatchAdmission lifetimeInteractionCount maximumOpenInteractions
       newInteractionStates openInteractionCount settlements =
     (if \<not> is_safe_integer lifetimeInteractionCount \<or> lifetimeInteractionCount < 0 \<or>
         \<not> is_safe_integer openInteractionCount \<or> openInteractionCount < 0 \<or>
         \<not> is_safe_integer maximumOpenInteractions \<or> maximumOpenInteractions < 1 \<or>
         list_ex (\<lambda>s. fst s = SD_reject) settlements
      then BP_invalid
      else let closedOpenInteractions =
                 int (length (filter (\<lambda>s. closes_open (snd s) (fst s)) settlements))
           in if closedOpenInteractions > openInteractionCount then BP_invalid
              else let lifetime = lifetimeInteractionCount + int (length newInteractionStates)
                   in if lifetime > MAX_RUN_INTERACTIONS_PER_RUN then BP_terminal_limit
                      else let open' = openInteractionCount - closedOpenInteractions +
                                 int (length (filter (\<lambda>s. s = IS_pending) newInteractionStates))
                           in if open' > maximumOpenInteractions then BP_capacity_full
                              else BP_accept lifetime open')"

definition runInteractionResponseProjectionMatches ::
  "int option \<Rightarrow> DurableRunInteractionState \<Rightarrow> int list \<Rightarrow> bool" where
  "runInteractionResponseProjectionMatches durableResponseRevision durableState responseRevisions \<longleftrightarrow>
     (let durableRevisionIsValid =
        (case durableResponseRevision of None \<Rightarrow> True | Some r \<Rightarrow> is_safe_integer r \<and> r > 0)
      in if \<not> durableRevisionIsValid \<or> list_ex (\<lambda>r. \<not> is_safe_integer r \<or> r < 1) responseRevisions
         then False
         else if durableState = IS_answered
         then durableResponseRevision \<noteq> None \<and> length responseRevisions = 1 \<and>
              responseRevisions = [the durableResponseRevision]
         else responseRevisions = [] \<and>
              (if durableState = IS_pending then durableResponseRevision = None else True))"

definition runInteractionSettlementDisposition ::
  "int option \<Rightarrow> DurableRunInteractionState \<Rightarrow> RunInteractionSettlement \<Rightarrow>
   RunInteractionSettlementDisposition" where
  "runInteractionSettlementDisposition durableResponseRevision durableState settlement =
     (case settlement of
        Applied interactionId responseRevision \<Rightarrow>
          (if durableResponseRevision \<noteq> Some responseRevision then SD_reject
           else if durableState = IS_answered then SD_apply
           else if durableState = IS_expired \<and> durableResponseRevision \<noteq> None then SD_apply
           else if durableState = IS_resolved then SD_replay else SD_reject)
      | Expired interactionId responseRevision reason \<Rightarrow>
          (if durableState = IS_resolved then SD_reject
           else if durableState = IS_pending
             then (if responseRevision = None then SD_apply else SD_reject)
           else if responseRevision \<noteq> None \<and> responseRevision \<noteq> durableResponseRevision then SD_reject
           else if durableState = IS_answered then SD_apply
           else if durableState = IS_expired then SD_replay else SD_reject))"

subsection \<open>Settling a stored interaction\<close>

text \<open>
  The row of \<open>taskRunInteractions\<close> as far as settlement writes it, with the revisions of its
  response rows. \<open>settle_interaction\<close> is what \<open>syncRunInteractions\<close> does to one prepared
  settlement: it rejects, or deletes the response rows and writes the target state.
\<close>

record interaction_row =
  ir_state :: DurableRunInteractionState
  ir_responseRevision :: "int option"
  ir_responseRows :: "int list"
  ir_resolvedAt :: "int option"
  ir_settlementAcknowledgedAt :: "int option"
  ir_updatedAt :: int

fun settlement_target :: "RunInteractionSettlement \<Rightarrow> DurableRunInteractionState" where
  "settlement_target (Applied i r) = IS_resolved"
| "settlement_target (Expired i r reason) = IS_expired"

datatype settle_failure = TASK_STATE_CONFLICT | PROJECTION_MISMATCH

definition settlement_of_row :: "interaction_row \<Rightarrow> RunInteractionSettlement \<Rightarrow> RunInteractionSettlementDisposition" where
  "settlement_of_row row s = runInteractionSettlementDisposition (ir_responseRevision row) (ir_state row) s"

definition settle_interaction ::
  "interaction_row \<Rightarrow> RunInteractionSettlement \<Rightarrow> int \<Rightarrow> settle_failure + interaction_row" where
  "settle_interaction row settlement now =
     (let disposition = settlement_of_row row settlement; target = settlement_target settlement in
      if disposition = SD_reject then Inl TASK_STATE_CONFLICT
      else if \<not> runInteractionResponseProjectionMatches (ir_responseRevision row) (ir_state row)
                (ir_responseRows row)
      then Inl PROJECTION_MISMATCH
      else let cleared = row\<lparr>ir_responseRows := []\<rparr> in
        if disposition = SD_apply
        then Inr (cleared\<lparr>ir_state := target, ir_resolvedAt := Some now,
               ir_settlementAcknowledgedAt :=
                 (if target = IS_expired then Some now else ir_settlementAcknowledgedAt row),
               ir_updatedAt := now\<rparr>)
        else if ir_state row = IS_expired
        then Inr (cleared\<lparr>ir_settlementAcknowledgedAt := Some now, ir_updatedAt := now\<rparr>)
        else Inr cleared)"

definition interaction_row_ok :: "interaction_row \<Rightarrow> bool" where
  "interaction_row_ok row \<longleftrightarrow>
     runInteractionResponseProjectionMatches (ir_responseRevision row) (ir_state row) (ir_responseRows row)"

lemma settle_keeps_row_ok: "settle_interaction row s now = Inr row' \<Longrightarrow> interaction_row_ok row'"
  by (cases s; cases "ir_state row")
    (auto simp: settle_interaction_def settlement_of_row_def runInteractionSettlementDisposition_def
      interaction_row_ok_def runInteractionResponseProjectionMatches_def Let_def split: if_splits)

lemma settle_interactionD:
  "settle_interaction row s now = Inr row' \<Longrightarrow>
   ir_state row' = settlement_target s \<and> ir_responseRows row' = [] \<and>
   ir_responseRevision row' = ir_responseRevision row \<and> settlement_of_row row s \<noteq> SD_reject"
  by (cases s; cases "ir_state row")
    (auto simp: settle_interaction_def settlement_of_row_def runInteractionSettlementDisposition_def
      Let_def split: if_splits)

lemma settlement_replayed:
  "settlement_of_row row s \<noteq> SD_reject \<Longrightarrow> ir_state row' = settlement_target s \<Longrightarrow>
   ir_responseRevision row' = ir_responseRevision row \<Longrightarrow> settlement_of_row row' s = SD_replay"
  by (cases s) (auto simp: settlement_of_row_def runInteractionSettlementDisposition_def split: if_splits)

lemma settle_replay:
  "settlement_of_row row s = SD_replay \<Longrightarrow> interaction_row_ok row \<Longrightarrow> ir_responseRows row = [] \<Longrightarrow>
   settle_interaction row s now =
     Inr (if ir_state row = IS_expired
          then row\<lparr>ir_settlementAcknowledgedAt := Some now, ir_updatedAt := now\<rparr> else row)"
  by (cases row) (simp add: settle_interaction_def interaction_row_ok_def)

text \<open>
  Settling is idempotent and final: a settlement that was accepted once leaves the row in
  the target state with no sealed response, and presenting the same settlement again is
  accepted as a replay that changes neither the state nor the response revision.
\<close>

theorem settlement_idempotent:
  assumes "settle_interaction row settlement now = Inr row'"
  shows "ir_state row' = settlement_target settlement \<and> ir_responseRows row' = [] \<and>
         settlement_of_row row' settlement = SD_replay \<and>
         (\<exists>row''. settle_interaction row' settlement later = Inr row'' \<and>
            ir_state row'' = ir_state row' \<and> ir_responseRevision row'' = ir_responseRevision row' \<and>
            ir_responseRows row'' = [] \<and> ir_resolvedAt row'' = ir_resolvedAt row')"
proof -
  note r = settle_interactionD [OF assms]
  from r have replay: "settlement_of_row row' settlement = SD_replay"
    by (intro settlement_replayed [of row settlement row']) auto
  from settle_keeps_row_ok [OF assms] r have "settle_interaction row' settlement later =
      Inr (if ir_state row' = IS_expired
           then row'\<lparr>ir_settlementAcknowledgedAt := Some later, ir_updatedAt := later\<rparr> else row')"
    by (intro settle_replay replay) auto
  with r replay show ?thesis by (cases "ir_state row' = IS_expired") auto
qed

definition answered_row :: interaction_row where
  "answered_row = \<lparr>ir_state = IS_answered, ir_responseRevision = Some 1, ir_responseRows = [1],
     ir_resolvedAt = None, ir_settlementAcknowledgedAt = None, ir_updatedAt = 5\<rparr>"

theorem settlement_idempotent_witness:
  "\<exists>row'. settle_interaction answered_row (Applied ''i'' 1) 9 = Inr row' \<and>
     settlement_of_row row' (Applied ''i'' 1) = SD_replay"
proof -
  have "settle_interaction answered_row (Applied ''i'' 1) 9 =
      Inr (answered_row\<lparr>ir_responseRows := [], ir_state := IS_resolved, ir_resolvedAt := Some 9, ir_updatedAt := 9\<rparr>)"
    by (simp add: settle_interaction_def settlement_of_row_def runInteractionSettlementDisposition_def
          runInteractionResponseProjectionMatches_def answered_row_def guard_defs)
  from settlement_idempotent [OF this, of 12] this show ?thesis by blast
qed

subsection \<open>Admission of a batch keeps the counts\<close>

definition is_open :: "DurableRunInteractionState \<Rightarrow> bool" where
  "is_open s \<longleftrightarrow> s = IS_pending \<or> s = IS_answered"

definition open_count :: "DurableRunInteractionState list \<Rightarrow> int" where
  "open_count ss = int (length (filter is_open ss))"

text \<open>The effect of a list of settlements on the states of a run, each at its own position.\<close>

fun settle_states ::
  "(nat \<times> RunInteractionSettlementDisposition \<times> DurableRunInteractionState) list \<Rightarrow>
   DurableRunInteractionState list \<Rightarrow> DurableRunInteractionState list" where
  "settle_states [] ss = ss"
| "settle_states ((i, d, target) # rest) ss =
     settle_states rest (if d = SD_apply then ss[i := target] else ss)"

lemma length_settle_states [simp]: "length (settle_states es ss) = length ss"
  by (induction es ss rule: settle_states.induct) auto

lemma open_length_update:
  "i < length ss \<Longrightarrow> \<not> is_open t \<Longrightarrow>
   length (filter is_open (ss[i := t])) + (if is_open (ss ! i) then 1 else 0) = length (filter is_open ss)"
proof (induction ss arbitrary: i)
  case Nil
  then show ?case by simp
next
  case (Cons s ss)
  then show ?case by (cases i) auto
qed

lemma open_count_update:
  "i < length ss \<Longrightarrow> \<not> is_open t \<Longrightarrow> open_count (ss[i := t]) = open_count ss - (if is_open (ss ! i) then 1 else 0)"
  using open_length_update [of i ss t] by (auto simp: open_count_def)

lemma open_count_settle_states:
  assumes "distinct (map fst es)" and "\<forall>(i, d, t) \<in> set es. i < length ss \<and> \<not> is_open t"
  shows "open_count (settle_states es ss) =
     open_count ss - int (length (filter (\<lambda>(i, d, t). closes_open (ss ! i) d) es))"
  using assms
proof (induction es arbitrary: ss)
  case Nil
  then show ?case by simp
next
  case (Cons e es)
  obtain i d t where e: "e = (i, d, t)" by (cases e)
  let ?ss = "if d = SD_apply then ss[i := t] else ss"
  have other: "filter (\<lambda>(j, d, t). closes_open (?ss ! j) d) es = filter (\<lambda>(j, d, t). closes_open (ss ! j) d) es"
  proof (rule filter_cong)
    fix x assume "x \<in> set es"
    moreover obtain j d' t' where "x = (j, d', t')" by (cases x)
    ultimately have "j \<noteq> i" using Cons.prems(1) e by force
    with \<open>x = (j, d', t')\<close> show "(case x of (j, d, t) \<Rightarrow> closes_open (?ss ! j) d) = (case x of (j, d, t) \<Rightarrow> closes_open (ss ! j) d)"
      by simp
  qed simp
  have "open_count (settle_states es ?ss) =
      open_count ?ss - int (length (filter (\<lambda>(j, d, t). closes_open (?ss ! j) d) es))"
    using Cons.prems e by (intro Cons.IH) auto
  moreover have "open_count ?ss = open_count ss - (if closes_open (ss ! i) d then 1 else 0)"
    using Cons.prems(2) e by (auto simp: open_count_update closes_open_def is_open_def)
  ultimately show ?case using e other by simp
qed

text \<open>
  The admission plan predicts the store: when the counts it is given are those of the
  stored interactions and every settlement names its own interaction, an accepted plan's
  counts are those of the store after the settlements and inserts, within both limits.
\<close>

theorem batch_admission_counts:
  assumes "planRunInteractionBatchAdmission (int (length ss)) maxOpen newStates (open_count ss)
      (map (\<lambda>(i, d, t). (d, ss ! i)) es) = BP_accept lifetime openAfter"
    and "distinct (map fst es)"
    and "\<forall>(i, d, t) \<in> set es. i < length ss \<and> \<not> is_open t"
    and "set newStates \<subseteq> {IS_pending, IS_expired}"
  shows "lifetime = int (length (settle_states es ss @ newStates)) \<and>
         openAfter = open_count (settle_states es ss @ newStates) \<and>
         lifetime \<le> MAX_RUN_INTERACTIONS_PER_RUN \<and> openAfter \<le> maxOpen"
proof -
  have new: "open_count newStates = int (length (filter (\<lambda>s. s = IS_pending) newStates))"
    using assms(4) unfolding open_count_def
    by (intro arg_cong [where f = int] arg_cong [where f = length] filter_cong) (auto simp: is_open_def)
  have closed: "filter (\<lambda>s. closes_open (snd s) (fst s)) (map (\<lambda>(i, d, t). (d, ss ! i)) es) =
      map (\<lambda>(i, d, t). (d, ss ! i)) (filter (\<lambda>(i, d, t). closes_open (ss ! i) d) es)"
    by (induction es) auto
  have app: "open_count (xs @ ys) = open_count xs + open_count ys" for xs ys
    by (simp add: open_count_def)
  show ?thesis
    using assms(1) open_count_settle_states [OF assms(2,3)]
    by (auto simp: planRunInteractionBatchAdmission_def closed new app Let_def split: if_splits)
qed

theorem batch_admission_counts_witness:
  "(2::int) = int (length (settle_states [(0, SD_apply, IS_resolved)] [IS_answered] @ [IS_pending])) \<and>
   1 = open_count (settle_states [(0, SD_apply, IS_resolved)] [IS_answered] @ [IS_pending])"
proof -
  have "planRunInteractionBatchAdmission (int (length [IS_answered])) 4 [IS_pending] (open_count [IS_answered])
      (map (\<lambda>(i, d, t). (d, [IS_answered] ! i)) [(0, SD_apply, IS_resolved)]) = BP_accept 2 1"
    by (simp add: planRunInteractionBatchAdmission_def guard_defs open_count_def is_open_def
          closes_open_def MAX_RUN_INTERACTIONS_PER_RUN_def)
  from batch_admission_counts [OF this] show ?thesis by (simp add: is_open_def)
qed

end
