(* ===== verification/RunnerLaws.thy ===== *)
theory RunnerLaws
  imports RunEvents
begin

text \<open>
  The runner side of \<open>apps/web/convex/dispatchLaws.ts\<close>: which installation holds the authority
  of a workspace, the heartbeat clock of a runner boot, presence derived from a live lease,
  the tenant and binding tuples, and the leases of a claimed dispatch. The heartbeat handler
  of \<open>dispatch.ts\<close> contributes the decision it takes from the two clocks and the rows it
  then writes.
\<close>

subsection \<open>Lease constants\<close>

definition DEFAULT_CLAIM_LEASE_MS :: int where "DEFAULT_CLAIM_LEASE_MS = 15 * 60 * 1000"
definition CLAIM_RENEWAL_THRESHOLD_MS :: int where "CLAIM_RENEWAL_THRESHOLD_MS = 5 * 60 * 1000"
definition RUNNER_PRESENCE_LEASE_MS :: int where "RUNNER_PRESENCE_LEASE_MS = 45000"
definition DISPATCH_LEASE_MS :: int where "DISPATCH_LEASE_MS = 90000"

named_theorems lease_constants \<open>the lease durations\<close>

declare
  DEFAULT_CLAIM_LEASE_MS_def [lease_constants]
  CLAIM_RENEWAL_THRESHOLD_MS_def [lease_constants]
  RUNNER_PRESENCE_LEASE_MS_def [lease_constants]
  DISPATCH_LEASE_MS_def [lease_constants]

subsection \<open>Runner authority\<close>

record PersistedRunnerAuthority =
  ra_runnerPublicId :: string
  ra_installationId :: string
  ra_generation :: int
  ra_leaseUntil :: int

datatype RunnerAuthorityDisposition =
    RA_acquire
  | RA_renew int
  | RA_takeover int
  | RA_conflict int
  | RA_corrupt

definition runnerAuthorityDisposition ::
  "PersistedRunnerAuthority option \<Rightarrow> string \<Rightarrow> string \<Rightarrow> int \<Rightarrow> RunnerAuthorityDisposition" where
  "runnerAuthorityDisposition current runnerPublicId installationId now =
     (if \<not> is_safe_integer now \<or> now < 0 then RA_corrupt
      else case current of
        None \<Rightarrow> RA_acquire
      | Some cur \<Rightarrow>
          (if \<not> is_safe_integer (ra_generation cur) \<or> ra_generation cur < 1 \<or>
              \<not> is_safe_integer (ra_leaseUntil cur) \<or> ra_leaseUntil cur < 0
           then RA_corrupt
           else if ra_runnerPublicId cur = runnerPublicId \<and> ra_installationId cur = installationId
           then RA_renew (ra_generation cur)
           else if ra_leaseUntil cur > now then RA_conflict (ra_leaseUntil cur - now)
           else if ra_generation cur \<ge> MAX_SAFE_INTEGER then RA_corrupt
           else RA_takeover (ra_generation cur + 1)))"

definition runnerAuthorityClockMatches :: "int \<Rightarrow> int \<Rightarrow> int \<Rightarrow> bool" where
  "runnerAuthorityClockMatches authorityGeneration authorityLeaseUntil runnerLeaseUntil \<longleftrightarrow>
     is_safe_integer authorityGeneration \<and> authorityGeneration > 0 \<and>
     is_safe_integer authorityLeaseUntil \<and> authorityLeaseUntil \<ge> 0 \<and>
     is_safe_integer runnerLeaseUntil \<and> runnerLeaseUntil = authorityLeaseUntil"

text \<open>The five coordinates that an authority row and a runner row share.\<close>

record RunnerTuple =
  rt_organizationId :: string
  rt_workspaceId :: string
  rt_runnerId :: string
  rt_runnerPublicId :: string
  rt_installationId :: string

definition runnerAuthorityTupleMatches :: "RunnerTuple \<Rightarrow> RunnerTuple \<Rightarrow> bool" where
  "runnerAuthorityTupleMatches authority runner \<longleftrightarrow>
     rt_organizationId authority = rt_organizationId runner \<and>
     rt_workspaceId authority = rt_workspaceId runner \<and>
     rt_runnerId authority = rt_runnerId runner \<and>
     rt_runnerPublicId authority = rt_runnerPublicId runner \<and>
     rt_installationId authority = rt_installationId runner"

lemma runnerAuthorityTupleMatches_eq: "runnerAuthorityTupleMatches (a :: RunnerTuple) r \<longleftrightarrow> a = r"
  by (cases a; cases r) (auto simp: runnerAuthorityTupleMatches_def)

definition heartbeatLeaseUntil :: "int \<Rightarrow> int" where
  "heartbeatLeaseUntil now = now + RUNNER_PRESENCE_LEASE_MS"

subsection \<open>The heartbeat clock\<close>

record PersistedHeartbeatClock =
  hc_bootId :: string
  hc_bootGeneration :: int
  hc_heartbeatSequence :: int
  hc_heartbeatFingerprint :: string
  hc_leaseUntil :: int

record IncomingHeartbeat =
  ih_bootId :: string
  ih_bootGeneration :: int
  ih_sequence :: int
  ih_fingerprint :: string

datatype HeartbeatDisposition =
  HB_create | HB_advance | HB_restart | HB_replay | HB_stale | HB_gap | HB_conflict

definition heartbeatMayRotateCandidates :: "HeartbeatDisposition \<Rightarrow> bool" where
  "heartbeatMayRotateCandidates disposition \<longleftrightarrow>
     disposition = HB_create \<or> disposition = HB_advance \<or> disposition = HB_restart"

definition heartbeatDisposition ::
  "PersistedHeartbeatClock option \<Rightarrow> IncomingHeartbeat \<Rightarrow> HeartbeatDisposition" where
  "heartbeatDisposition current incoming =
     (if ih_bootGeneration incoming < 1 \<or> ih_sequence incoming < 1 then HB_conflict
      else case current of
        None \<Rightarrow>
          (if ih_bootGeneration incoming = 1 \<and> ih_sequence incoming = 1 then HB_create else HB_gap)
      | Some cur \<Rightarrow>
          (if ih_bootGeneration incoming < hc_bootGeneration cur then HB_stale
           else if ih_bootGeneration incoming = hc_bootGeneration cur then
             (if ih_bootId incoming \<noteq> hc_bootId cur then HB_conflict
              else if ih_sequence incoming < hc_heartbeatSequence cur then HB_stale
              else if ih_sequence incoming = hc_heartbeatSequence cur then
                (if ih_fingerprint incoming = hc_heartbeatFingerprint cur then HB_replay else HB_conflict)
              else if ih_sequence incoming = hc_heartbeatSequence cur + 1 then HB_advance else HB_gap)
           else if ih_bootGeneration incoming \<noteq> hc_bootGeneration cur + 1 then HB_gap
           else if ih_sequence incoming \<noteq> 1 \<or> ih_bootId incoming = hc_bootId cur then HB_conflict
           else HB_restart))"

subsection \<open>The decision and the writes of a heartbeat\<close>

text \<open>
  \<open>heartbeat_admission\<close> is the decision of the handler between loading its two rows and the
  replay or write branch. An accepted heartbeat that is no replay writes the clock of the
  runner and the authority row with the same lease.
\<close>

datatype heartbeat_failure =
    HF_projection_mismatch
  | HF_runner_already_connected int
  | HF_claim_stale
  | HF_idempotency_conflict

definition heartbeat_admission ::
  "PersistedRunnerAuthority option \<Rightarrow> PersistedHeartbeatClock option \<Rightarrow> string \<Rightarrow> string \<Rightarrow>
   IncomingHeartbeat \<Rightarrow> int \<Rightarrow> heartbeat_failure + RunnerAuthorityDisposition \<times> HeartbeatDisposition" where
  "heartbeat_admission authority existing runnerPublicId installationId incoming now =
     (let authorityDisposition = runnerAuthorityDisposition authority runnerPublicId installationId now in
      case authorityDisposition of
        RA_corrupt \<Rightarrow> Inl HF_projection_mismatch
      | RA_conflict retryAfterMs \<Rightarrow> Inl (HF_runner_already_connected retryAfterMs)
      | _ \<Rightarrow>
          (let disposition = heartbeatDisposition existing incoming in
           if disposition = HB_stale \<or> disposition = HB_gap then Inl HF_claim_stale
           else if disposition = HB_conflict then Inl HF_idempotency_conflict
           else Inr (authorityDisposition, disposition)))"

fun disposition_generation :: "RunnerAuthorityDisposition \<Rightarrow> int" where
  "disposition_generation RA_acquire = 1"
| "disposition_generation (RA_renew g) = g"
| "disposition_generation (RA_takeover g) = g"
| "disposition_generation (RA_conflict r) = 0"
| "disposition_generation RA_corrupt = 0"

definition written_clock :: "IncomingHeartbeat \<Rightarrow> int \<Rightarrow> PersistedHeartbeatClock" where
  "written_clock incoming now =
     \<lparr>hc_bootId = ih_bootId incoming, hc_bootGeneration = ih_bootGeneration incoming,
      hc_heartbeatSequence = ih_sequence incoming, hc_heartbeatFingerprint = ih_fingerprint incoming,
      hc_leaseUntil = heartbeatLeaseUntil now\<rparr>"

definition written_authority ::
  "string \<Rightarrow> string \<Rightarrow> RunnerAuthorityDisposition \<Rightarrow> int \<Rightarrow> PersistedRunnerAuthority" where
  "written_authority runnerPublicId installationId disposition now =
     \<lparr>ra_runnerPublicId = runnerPublicId, ra_installationId = installationId,
      ra_generation = disposition_generation disposition, ra_leaseUntil = heartbeatLeaseUntil now\<rparr>"

text \<open>
  The heartbeat clock only moves forward: every heartbeat that may rotate the queue moves
  the pair of boot generation and sequence strictly up in lexicographic order, by exactly one
  step; a replay leaves the clock as it is and names the stored heartbeat exactly; and once
  written, the very same heartbeat is a replay.
\<close>

theorem heartbeat_clock_monotone:
  "case heartbeatDisposition (Some cur) incoming of
     HB_advance \<Rightarrow> ih_bootId incoming = hc_bootId cur \<and>
       ih_bootGeneration incoming = hc_bootGeneration cur \<and>
       ih_sequence incoming = hc_heartbeatSequence cur + 1 \<and>
       heartbeatDisposition (Some (written_clock incoming now)) incoming = HB_replay
   | HB_restart \<Rightarrow> ih_bootId incoming \<noteq> hc_bootId cur \<and>
       ih_bootGeneration incoming = hc_bootGeneration cur + 1 \<and> ih_sequence incoming = 1 \<and>
       heartbeatDisposition (Some (written_clock incoming now)) incoming = HB_replay
   | HB_replay \<Rightarrow> ih_bootId incoming = hc_bootId cur \<and>
       ih_bootGeneration incoming = hc_bootGeneration cur \<and>
       ih_sequence incoming = hc_heartbeatSequence cur \<and>
       ih_fingerprint incoming = hc_heartbeatFingerprint cur \<and>
       \<not> heartbeatMayRotateCandidates HB_replay
   | HB_create \<Rightarrow> False
   | rejected \<Rightarrow> \<not> heartbeatMayRotateCandidates rejected"
  by (auto simp: heartbeatDisposition_def heartbeatMayRotateCandidates_def written_clock_def)

text \<open>
  The history of a workspace's authority: every accepted heartbeat that is no replay, in
  order, as the authority row it wrote. Time never goes back between transactions.
\<close>

inductive authority_run ::
  "PersistedRunnerAuthority option \<Rightarrow> int \<Rightarrow> PersistedRunnerAuthority list \<Rightarrow> bool" where
  authority_start: "authority_run None 0 []"
| authority_step:
    "authority_run authority t history \<Longrightarrow> t \<le> now \<Longrightarrow>
     heartbeat_admission authority existing runner installation incoming now = Inr (d, h) \<Longrightarrow>
     h \<noteq> HB_replay \<Longrightarrow> row = written_authority runner installation d now \<Longrightarrow>
     authority_run (Some row) now (row # history)"
| authority_rejected:
    "authority_run authority t history \<Longrightarrow> t \<le> now \<Longrightarrow>
     authority_run authority now history"

inductive_cases authority_run_NoneE: "authority_run None t history"

definition authority_history_ok :: "PersistedRunnerAuthority list \<Rightarrow> bool" where
  "authority_history_ok history \<longleftrightarrow>
     (\<forall>a \<in> set history. 1 \<le> ra_generation a) \<and>
     (\<forall>a \<in> set history. \<forall>b \<in> set history. ra_generation a = ra_generation b \<longrightarrow>
        ra_runnerPublicId a = ra_runnerPublicId b \<and> ra_installationId a = ra_installationId b)"

lemma authority_history_ok_same:
  "authority_history_ok history \<Longrightarrow> cur \<in> set history \<Longrightarrow>
   ra_runnerPublicId row = ra_runnerPublicId cur \<Longrightarrow> ra_installationId row = ra_installationId cur \<Longrightarrow>
   ra_generation row = ra_generation cur \<Longrightarrow> authority_history_ok (row # history)"
  unfolding authority_history_ok_def by (metis set_ConsD)

lemma authority_history_ok_fresh:
  "authority_history_ok history \<Longrightarrow> 1 \<le> ra_generation row \<Longrightarrow>
   \<forall>b \<in> set history. ra_generation b < ra_generation row \<Longrightarrow> authority_history_ok (row # history)"
  unfolding authority_history_ok_def by (metis less_irrefl set_ConsD)

lemma heartbeat_admission_authorityD:
  assumes "heartbeat_admission authority existing runner installation incoming now = Inr (d, h)"
  shows "(authority = None \<and> d = RA_acquire) \<or>
    (\<exists>cur. authority = Some cur \<and> ra_runnerPublicId cur = runner \<and> ra_installationId cur = installation \<and>
       d = RA_renew (ra_generation cur)) \<or>
    (\<exists>cur. authority = Some cur \<and> ra_leaseUntil cur \<le> now \<and> d = RA_takeover (ra_generation cur + 1))"
  using assms
  by (auto simp: heartbeat_admission_def runnerAuthorityDisposition_def Let_def
      split: option.splits if_splits)

lemma authority_run_invariant:
  "authority_run authority t history \<Longrightarrow>
   authority_history_ok history \<and>
   (case authority of
      None \<Rightarrow> history = []
    | Some cur \<Rightarrow> history \<noteq> [] \<and> hd history = cur \<and>
        (\<forall>a \<in> set history. ra_generation a \<le> ra_generation cur))"
proof (induction rule: authority_run.induct)
  case authority_start
  then show ?case by (simp add: authority_history_ok_def)
next
  case (authority_step authority t history now existing runner installation incoming d h row)
  note IH = authority_step.IH and row = authority_step.hyps(5)
  from heartbeat_admission_authorityD [OF authority_step.hyps(3)]
  consider (acquire) "authority = None" "d = RA_acquire"
    | (renew) cur where "authority = Some cur" "ra_runnerPublicId cur = runner"
        "ra_installationId cur = installation" "d = RA_renew (ra_generation cur)"
    | (takeover) cur where "authority = Some cur" "d = RA_takeover (ra_generation cur + 1)"
    by blast
  then show ?case
  proof cases
    case acquire
    with IH row show ?thesis by (simp add: authority_history_ok_def written_authority_def)
  next
    case renew
    with IH row have "cur \<in> set history" by (auto dest: hd_in_set)
    moreover from renew row have "ra_runnerPublicId row = ra_runnerPublicId cur"
      "ra_installationId row = ra_installationId cur" "ra_generation row = ra_generation cur"
      by (simp_all add: written_authority_def)
    ultimately show ?thesis using IH renew(1) by (simp add: authority_history_ok_same)
  next
    case takeover
    with IH row have fresh: "\<forall>b \<in> set history. ra_generation b < ra_generation row" "1 \<le> ra_generation cur"
      by (auto simp: written_authority_def authority_history_ok_def dest: hd_in_set)
    with takeover row have "1 \<le> ra_generation row" by (simp add: written_authority_def)
    with fresh(1) IH have "authority_history_ok (row # history)"
      by (auto intro: authority_history_ok_fresh)
    with fresh(1) show ?thesis by (auto intro: less_imp_le)
  qed
next
  case (authority_rejected authority t history now)
  then show ?case by simp
qed


definition first_heartbeat :: IncomingHeartbeat where
  "first_heartbeat = \<lparr>ih_bootId = ''boot'', ih_bootGeneration = 1, ih_sequence = 1, ih_fingerprint = ''f''\<rparr>"

definition first_authority :: PersistedRunnerAuthority where
  "first_authority = written_authority ''runner'' ''install'' RA_acquire 7"

lemma first_authority_run: "authority_run (Some first_authority) 7 [first_authority]"
proof (rule authority_step [OF authority_start])
  show "heartbeat_admission None None ''runner'' ''install'' first_heartbeat 7 = Inr (RA_acquire, HB_create)"
    by (simp add: heartbeat_admission_def runnerAuthorityDisposition_def guard_defs
          heartbeatDisposition_def first_heartbeat_def)
qed (simp_all add: first_authority_def)


text \<open>
  A live owner is never superseded: another runner or installation is turned away with the
  exact remaining lease, and takes over only at the lease boundary or later, with the next
  generation.
\<close>

theorem authority_takeover_needs_expiry:
  assumes "runnerAuthorityDisposition (Some cur) runner installation now = RA_takeover g"
  shows "ra_leaseUntil cur \<le> now \<and> g = ra_generation cur + 1 \<and> is_safe_integer g \<and>
         (ra_runnerPublicId cur \<noteq> runner \<or> ra_installationId cur \<noteq> installation) \<and>
         (\<forall>earlier. 0 \<le> earlier \<longrightarrow> earlier < ra_leaseUntil cur \<longrightarrow>
            runnerAuthorityDisposition (Some cur) runner installation earlier =
              RA_conflict (ra_leaseUntil cur - earlier))"
  using assms
  by (auto simp: runnerAuthorityDisposition_def guard_defs split: if_splits)

theorem authority_takeover_needs_expiry_witness:
  "runnerAuthorityDisposition (Some first_authority) ''other'' ''install2'' 45007 = RA_takeover 2 \<and>
   ra_leaseUntil first_authority \<le> 45007"
proof -
  have t: "runnerAuthorityDisposition (Some first_authority) ''other'' ''install2'' 45007 = RA_takeover 2"
    by (simp add: runnerAuthorityDisposition_def first_authority_def written_authority_def
          heartbeatLeaseUntil_def lease_constants guard_defs)
  with authority_takeover_needs_expiry [OF t] show ?thesis by simp
qed

end
