(* ===== verification/DispatchLeases.thy ===== *)
theory DispatchLeases
  imports RunnerLaws
begin

text \<open>
  The rest of the runner side of \<open>apps/web/convex/dispatchLaws.ts\<close>: the semantic identity of a
  heartbeat, the presence a browser sees, the tuples that fence a submission and a claim to one
  tenant and one runner boot, and the leases of a claimed dispatch with the job that expires
  them. \<open>JSON.stringify\<close> on the fixed shape of a heartbeat is a parameter, into any type of
  texts, that is assumed injective where its result is compared.
\<close>

subsection \<open>The semantic identity of a heartbeat\<close>

datatype RunnerDesiredState = RD_active | RD_draining

datatype ReportedState = RS_starting | RS_ready | RS_busy | RS_degraded

datatype BlockReason =
  BR_no_account | BR_no_repository | BR_capacity_full | BR_upgrade_required | BR_credential_invalid

record RunnerHeartbeatRequest =
  hb_runnerId :: string
  hb_installationId :: string
  hb_bootId :: string
  hb_bootGeneration :: int
  hb_sequence :: int
  hb_protocolVersion :: int
  hb_clientVersion :: string
  hb_reportedState :: ReportedState
  hb_blockReason :: "BlockReason option"
  hb_capacity :: int
  hb_activeRuns :: int
  hb_currentRunIds :: "string list"
  hb_retainedRunIds :: "string list"
  hb_repositoryIds :: "string list"

definition heartbeatFingerprint ::
  "(RunnerHeartbeatRequest \<Rightarrow> 'json) \<Rightarrow> RunnerHeartbeatRequest \<Rightarrow> 'json" where
  "heartbeatFingerprint stringify heartbeat = stringify
     (heartbeat \<lparr>
        hb_currentRunIds := js_sort code_unit_compare (hb_currentRunIds heartbeat),
        hb_retainedRunIds := js_sort code_unit_compare (hb_retainedRunIds heartbeat),
        hb_repositoryIds := js_sort code_unit_compare (hb_repositoryIds heartbeat)\<rparr>)"

text \<open>
  Two heartbeats have the same fingerprint exactly when they agree on every scalar field and
  list the same runs, retained runs and repositories up to order. So a heartbeat of a known
  sequence is a replay of the stored one only when it means the same.
\<close>

theorem heartbeat_fingerprint_semantic:
  assumes "inj stringify"
  shows "heartbeatFingerprint stringify a = heartbeatFingerprint stringify b \<longleftrightarrow>
    a \<lparr>hb_currentRunIds := [], hb_retainedRunIds := [], hb_repositoryIds := []\<rparr> =
    b \<lparr>hb_currentRunIds := [], hb_retainedRunIds := [], hb_repositoryIds := []\<rparr> \<and>
    mset (hb_currentRunIds a) = mset (hb_currentRunIds b) \<and>
    mset (hb_retainedRunIds a) = mset (hb_retainedRunIds b) \<and>
    mset (hb_repositoryIds a) = mset (hb_repositoryIds b)"
  using assms unfolding heartbeatFingerprint_def
  by (cases a; cases b) (auto simp: inj_eq js_sort_code_unit_eq_iff)

definition sample_heartbeat :: RunnerHeartbeatRequest where
  "sample_heartbeat =
     \<lparr>hb_runnerId = ''rn'', hb_installationId = ''i'', hb_bootId = ''b'', hb_bootGeneration = 1, hb_sequence = 4,
      hb_protocolVersion = 1, hb_clientVersion = ''1.0'', hb_reportedState = RS_ready, hb_blockReason = None,
      hb_capacity = 2, hb_activeRuns = 0, hb_currentRunIds = [], hb_retainedRunIds = [],
      hb_repositoryIds = [''x'', ''y'']\<rparr>"

theorem heartbeat_fingerprint_semantic_witness:
  "heartbeatFingerprint id sample_heartbeat =
   heartbeatFingerprint id (sample_heartbeat \<lparr>hb_repositoryIds := [''y'', ''x'']\<rparr>)"
  using heartbeat_fingerprint_semantic [of id sample_heartbeat "sample_heartbeat \<lparr>hb_repositoryIds := [''y'', ''x'']\<rparr>"]
  by (simp add: sample_heartbeat_def)

subsection \<open>Reservations a heartbeat may give back\<close>

definition terminalRunPhases :: "RunPhase list" where
  "terminalRunPhases = [RP_submitted, RP_failed, RP_cancelled]"

definition retainedTerminalRunIds :: "string list \<Rightarrow> (string \<times> RunPhase) list \<Rightarrow> string list" where
  "retainedTerminalRunIds retainedRunIds rows =
     (let rowById = js_map_of rows in
      filter (\<lambda>runId. case rowById runId of
          None \<Rightarrow> False
        | Some phase \<Rightarrow> phase \<in> set terminalRunPhases) (js_set retainedRunIds))"

text \<open>
  A reservation is given back only for a run the runner named, once, whose stored row proves
  a terminal outcome: never for an ambiguous run, whose outcome is unknown, nor for one the store
  does not know.
\<close>

theorem retained_terminal_only_proved:
  "distinct (retainedTerminalRunIds retained rows) \<and>
   (runId \<in> set (retainedTerminalRunIds retained rows) \<longleftrightarrow>
     runId \<in> set retained \<and>
     (\<exists>phase. js_map_of rows runId = Some phase \<and> isTerminalRunPhase phase \<and> phase \<noteq> RP_ambiguous))"
  by (auto simp: retainedTerminalRunIds_def Let_def terminalRunPhases_def split: option.splits)

definition rejectedSubmissionMatchesDispatch ::
  "string \<Rightarrow> string option \<Rightarrow> string option \<Rightarrow> bool" where
  "rejectedSubmissionMatchesDispatch sourceDispatchPublicId submissionDispatchPublicId submissionStatus \<longleftrightarrow>
     submissionStatus = Some ''rejected'' \<and>
     submissionDispatchPublicId = Some sourceDispatchPublicId"

subsection \<open>Presence\<close>

record RunnerPresenceInput =
  rp_blockReason :: "BlockReason option"
  rp_capacity :: int
  rp_cloudActiveRuns :: int
  rp_desiredState :: RunnerDesiredState
  rp_leaseUntil :: int
  rp_reportedActiveRuns :: int
  rp_reportedState :: ReportedState
  rp_repositoryCount :: int

datatype RunnerPresenceView =
    PRES_offline int
  | PRES_draining int int
  | PRES_blocked int int BlockReason
  | PRES_busy int int
  | PRES_ready int int int

definition deriveRunnerPresence :: "RunnerPresenceInput \<Rightarrow> int \<Rightarrow> RunnerPresenceView" where
  "deriveRunnerPresence input now =
     (if rp_leaseUntil input \<le> now then PRES_offline now
      else if rp_desiredState input = RD_draining then PRES_draining now (rp_leaseUntil input)
      else if rp_reportedState input = RS_degraded
      then PRES_blocked now (rp_leaseUntil input)
             (case rp_blockReason input of None \<Rightarrow> BR_credential_invalid | Some r \<Rightarrow> r)
      else if rp_repositoryCount input = 0 then PRES_blocked now (rp_leaseUntil input) BR_no_repository
      else
        (let occupied = max (rp_reportedActiveRuns input) (rp_cloudActiveRuns input);
             availableCapacity = max 0 (rp_capacity input - occupied) in
         if rp_capacity input = 0 \<or> availableCapacity = 0
         then PRES_blocked now (rp_leaseUntil input) BR_capacity_full
         else if rp_reportedState input \<noteq> RS_ready then PRES_busy now (rp_leaseUntil input)
         else PRES_ready now (rp_leaseUntil input) availableCapacity))"

subsection \<open>Claiming a queued dispatch\<close>

record ClaimEligibility =
  ce_dispatchPhase :: RunPhase
  ce_repositoryCapability :: bool
  ce_runnerBootMatches :: bool
  ce_runnerDesiredState :: RunnerDesiredState
  ce_runnerLeaseUntil :: int
  ce_runnerReady :: bool
  ce_availableCapacity :: int
  ce_taskReady :: bool

definition dispatchClaimAllowed :: "ClaimEligibility \<Rightarrow> int \<Rightarrow> bool" where
  "dispatchClaimAllowed input now \<longleftrightarrow>
     ce_dispatchPhase input = RP_queued \<and>
     ce_repositoryCapability input \<and>
     ce_runnerBootMatches input \<and>
     ce_runnerDesiredState input = RD_active \<and>
     ce_runnerLeaseUntil input > now \<and>
     ce_runnerReady input \<and>
     ce_availableCapacity input > 0 \<and>
     ce_taskReady input"

text \<open>
  A runner that presence shows as ready can take work now: its lease is live, it is active,
  its capacity exceeds both its own and the store's count of runs by exactly the offered
  capacity, so a queued dispatch of a matching, ready task is claimable and one offered unit
  never oversubscribes it.
\<close>

theorem ready_presence_admits_claim:
  assumes "deriveRunnerPresence input now = PRES_ready t leaseUntil available"
    and "ce_dispatchPhase claim = RP_queued" and "ce_repositoryCapability claim"
    and "ce_runnerBootMatches claim" and "ce_taskReady claim" and "ce_runnerReady claim"
    and "ce_runnerDesiredState claim = rp_desiredState input"
    and "ce_runnerLeaseUntil claim = rp_leaseUntil input" and "ce_availableCapacity claim = available"
  shows "dispatchClaimAllowed claim now \<and>
    rp_reportedActiveRuns input + available \<le> rp_capacity input \<and>
    rp_cloudActiveRuns input + available \<le> rp_capacity input \<and>
    available = rp_capacity input - max (rp_reportedActiveRuns input) (rp_cloudActiveRuns input)"
  using assms
  by (cases "rp_desiredState input")
    (auto simp: deriveRunnerPresence_def dispatchClaimAllowed_def Let_def max_def split: if_splits)

definition sample_presence :: RunnerPresenceInput where
  "sample_presence = \<lparr>rp_blockReason = None, rp_capacity = 4, rp_cloudActiveRuns = 1, rp_desiredState = RD_active,
     rp_leaseUntil = 100, rp_reportedActiveRuns = 2, rp_reportedState = RS_ready, rp_repositoryCount = 1\<rparr>"

theorem ready_presence_admits_claim_witness:
  "dispatchClaimAllowed \<lparr>ce_dispatchPhase = RP_queued, ce_repositoryCapability = True, ce_runnerBootMatches = True,
     ce_runnerDesiredState = RD_active, ce_runnerLeaseUntil = 100, ce_runnerReady = True,
     ce_availableCapacity = 2, ce_taskReady = True\<rparr> 99"
proof -
  have "deriveRunnerPresence sample_presence 99 = PRES_ready 99 100 2"
    by (simp add: deriveRunnerPresence_def sample_presence_def)
  from ready_presence_admits_claim [OF this] show ?thesis by (simp add: sample_presence_def)
qed

subsection \<open>Tenant and binding tuples\<close>

record DispatchTenantTuple =
  dt_authorized :: "string \<times> string"
  dt_runner :: "string \<times> string"
  dt_task :: "string \<times> string"
  dt_repository :: "string \<times> string"
  dt_dispatchOrganizationId :: "string option"
  dt_dispatchWorkspaceId :: "string option"

definition optional_id :: "'a option \<Rightarrow> 'a list" where
  "optional_id v = (case v of None \<Rightarrow> [] | Some x \<Rightarrow> [x])"

definition dispatchTenantTupleMatches :: "DispatchTenantTuple \<Rightarrow> bool" where
  "dispatchTenantTupleMatches input \<longleftrightarrow>
     (let organizationIds = [fst (dt_runner input), fst (dt_task input), fst (dt_repository input)] @
            optional_id (dt_dispatchOrganizationId input);
          workspaceIds = [snd (dt_runner input), snd (dt_task input), snd (dt_repository input)] @
            optional_id (dt_dispatchWorkspaceId input) in
      list_all (\<lambda>x. x = fst (dt_authorized input)) organizationIds \<and>
      list_all (\<lambda>x. x = snd (dt_authorized input)) workspaceIds)"

text \<open>A binding names the runner boot and the task claim a dispatch was leased to.\<close>

record DispatchBinding =
  db_runnerId :: string
  db_bootId :: string
  db_bootGeneration :: int
  db_claimPublicId :: string
  db_claimFence :: int

definition dispatchBindingTupleMatches :: "DispatchBinding \<Rightarrow> DispatchBinding \<Rightarrow> bool" where
  "dispatchBindingTupleMatches dispatch request \<longleftrightarrow>
     db_runnerId dispatch = db_runnerId request \<and>
     db_bootId dispatch = db_bootId request \<and>
     db_bootGeneration dispatch = db_bootGeneration request \<and>
     db_claimPublicId dispatch = db_claimPublicId request \<and>
     db_claimFence dispatch = db_claimFence request"

subsection \<open>The authority behind a submission\<close>

record SubmissionAuthorization =
  sa_organizationId :: string
  sa_workspaceId :: string
  sa_agentId :: string

record SubmissionRequest =
  sr_runId :: string
  sr_runnerId :: string
  sr_bootId :: string
  sr_claimId :: string
  sr_claimFence :: int

record SubmissionTask =
  sk_id :: string
  sk_organizationId :: string
  sk_workspaceId :: string

record SubmissionClaim =
  sc_id :: string
  sc_organizationId :: string
  sc_workspaceId :: string
  sc_taskId :: string
  sc_agentId :: string
  sc_publicId :: string
  sc_fence :: int
  sc_state :: string
  sc_leaseUntil :: int

record SubmissionDispatch =
  sd_publicId :: string
  sd_organizationId :: string
  sd_workspaceId :: string
  sd_taskId :: string
  sd_runnerId :: string
  sd_runnerPublicId :: string
  sd_bootId :: string
  sd_bootGeneration :: int
  sd_taskClaimId :: string
  sd_taskClaimPublicId :: string
  sd_claimFence :: int
  sd_leaseUntil :: int
  sd_phase :: RunPhase

record SubmissionRunner =
  sn_id :: string
  sn_organizationId :: string
  sn_workspaceId :: string
  sn_agentId :: string
  sn_publicId :: string
  sn_installationId :: string
  sn_bootId :: string
  sn_bootGeneration :: int
  sn_leaseUntil :: int

record SubmissionAuthority =
  su_tuple :: RunnerTuple
  su_generation :: int
  su_leaseUntil :: int

record DispatchSubmissionAuthorityInput =
  si_now :: int
  si_authorization :: SubmissionAuthorization
  si_request :: SubmissionRequest
  si_task :: SubmissionTask
  si_claim :: SubmissionClaim
  si_dispatch :: SubmissionDispatch
  si_runner :: SubmissionRunner
  si_authority :: SubmissionAuthority

definition runner_tuple_of :: "SubmissionRunner \<Rightarrow> RunnerTuple" where
  "runner_tuple_of runner =
     \<lparr>rt_organizationId = sn_organizationId runner, rt_workspaceId = sn_workspaceId runner,
      rt_runnerId = sn_id runner, rt_runnerPublicId = sn_publicId runner,
      rt_installationId = sn_installationId runner\<rparr>"

definition dispatchSubmissionAuthorityMatches :: "DispatchSubmissionAuthorityInput \<Rightarrow> bool" where
  "dispatchSubmissionAuthorityMatches input \<longleftrightarrow>
     (let authorization = si_authorization input; authority = si_authority input;
          claim = si_claim input; dispatch = si_dispatch input; now = si_now input;
          request = si_request input; runner = si_runner input; task = si_task input in
      is_safe_integer (su_generation authority) \<and>
      su_generation authority > 0 \<and>
      su_leaseUntil authority > now \<and>
      sn_leaseUntil runner = su_leaseUntil authority \<and>
      sc_leaseUntil claim > now \<and>
      sd_leaseUntil dispatch > now \<and>
      (sd_phase dispatch = RP_running \<or> sd_phase dispatch = RP_waiting) \<and>
      sa_organizationId authorization = sk_organizationId task \<and>
      sa_workspaceId authorization = sk_workspaceId task \<and>
      rt_organizationId (su_tuple authority) = sa_organizationId authorization \<and>
      rt_workspaceId (su_tuple authority) = sa_workspaceId authorization \<and>
      sn_organizationId runner = sa_organizationId authorization \<and>
      sn_workspaceId runner = sa_workspaceId authorization \<and>
      sa_agentId authorization = sc_agentId claim \<and>
      sa_agentId authorization = sn_agentId runner \<and>
      sc_organizationId claim = sk_organizationId task \<and>
      sc_workspaceId claim = sk_workspaceId task \<and>
      sc_taskId claim = sk_id task \<and>
      sc_state claim = ''active'' \<and>
      sd_organizationId dispatch = sk_organizationId task \<and>
      sd_workspaceId dispatch = sk_workspaceId task \<and>
      sd_taskId dispatch = sk_id task \<and>
      sd_publicId dispatch = sr_runId request \<and>
      sd_runnerPublicId dispatch = sr_runnerId request \<and>
      sd_bootId dispatch = sr_bootId request \<and>
      sd_taskClaimPublicId dispatch = sr_claimId request \<and>
      sd_claimFence dispatch = sr_claimFence request \<and>
      sc_publicId claim = sr_claimId request \<and>
      sc_fence claim = sr_claimFence request \<and>
      sd_taskClaimId dispatch = sc_id claim \<and>
      sd_runnerId dispatch = sn_id runner \<and>
      sd_runnerPublicId dispatch = sn_publicId runner \<and>
      sd_bootId dispatch = sn_bootId runner \<and>
      sd_bootGeneration dispatch = sn_bootGeneration runner \<and>
      runnerAuthorityTupleMatches (su_tuple authority) (runner_tuple_of runner))"

text \<open>The tenants and the owner of an accepted submission, and its clock.\<close>

lemma submission_authority_tenant:
  assumes "dispatchSubmissionAuthorityMatches input"
  shows "dispatchTenantTupleMatches
    \<lparr>dt_authorized = (sa_organizationId (si_authorization input), sa_workspaceId (si_authorization input)),
     dt_runner = (sn_organizationId (si_runner input), sn_workspaceId (si_runner input)),
     dt_task = (sk_organizationId (si_task input), sk_workspaceId (si_task input)),
     dt_repository = (rt_organizationId (su_tuple (si_authority input)), rt_workspaceId (su_tuple (si_authority input))),
     dt_dispatchOrganizationId = Some (sd_organizationId (si_dispatch input)),
     dt_dispatchWorkspaceId = Some (sd_workspaceId (si_dispatch input))\<rparr>"
  using assms
  by (auto simp: dispatchSubmissionAuthorityMatches_def dispatchTenantTupleMatches_def optional_id_def Let_def)

lemma submission_authority_binding:
  assumes "dispatchSubmissionAuthorityMatches input"
  shows "dispatchBindingTupleMatches
    \<lparr>db_runnerId = sd_runnerPublicId (si_dispatch input), db_bootId = sd_bootId (si_dispatch input),
     db_bootGeneration = sd_bootGeneration (si_dispatch input),
     db_claimPublicId = sd_taskClaimPublicId (si_dispatch input), db_claimFence = sd_claimFence (si_dispatch input)\<rparr>
    \<lparr>db_runnerId = sn_publicId (si_runner input), db_bootId = sr_bootId (si_request input),
     db_bootGeneration = sn_bootGeneration (si_runner input),
     db_claimPublicId = sc_publicId (si_claim input), db_claimFence = sc_fence (si_claim input)\<rparr>"
  using assms
  by (auto simp: dispatchSubmissionAuthorityMatches_def dispatchBindingTupleMatches_def
      runnerAuthorityTupleMatches_def runner_tuple_of_def Let_def)

lemma submission_authority_clock:
  assumes "dispatchSubmissionAuthorityMatches input"
  shows "dispatchSubmissionAuthorityMatches (input \<lparr>si_now := later\<rparr>) \<longleftrightarrow>
    later < su_leaseUntil (si_authority input) \<and> later < sc_leaseUntil (si_claim input) \<and>
    later < sd_leaseUntil (si_dispatch input)"
  using assms by (auto simp: dispatchSubmissionAuthorityMatches_def Let_def)


definition sample_submission :: DispatchSubmissionAuthorityInput where
  "sample_submission =
     \<lparr>si_now = 10,
      si_authorization = \<lparr>sa_organizationId = ''o'', sa_workspaceId = ''w'', sa_agentId = ''a''\<rparr>,
      si_request = \<lparr>sr_runId = ''run'', sr_runnerId = ''rn'', sr_bootId = ''b'', sr_claimId = ''c'', sr_claimFence = 3\<rparr>,
      si_task = \<lparr>sk_id = ''t'', sk_organizationId = ''o'', sk_workspaceId = ''w''\<rparr>,
      si_claim = \<lparr>sc_id = ''cid'', sc_organizationId = ''o'', sc_workspaceId = ''w'', sc_taskId = ''t'',
        sc_agentId = ''a'', sc_publicId = ''c'', sc_fence = 3, sc_state = ''active'', sc_leaseUntil = 900\<rparr>,
      si_dispatch = \<lparr>sd_publicId = ''run'', sd_organizationId = ''o'', sd_workspaceId = ''w'', sd_taskId = ''t'',
        sd_runnerId = ''rid'', sd_runnerPublicId = ''rn'', sd_bootId = ''b'', sd_bootGeneration = 2,
        sd_taskClaimId = ''cid'', sd_taskClaimPublicId = ''c'', sd_claimFence = 3, sd_leaseUntil = 100,
        sd_phase = RP_running\<rparr>,
      si_runner = \<lparr>sn_id = ''rid'', sn_organizationId = ''o'', sn_workspaceId = ''w'', sn_agentId = ''a'',
        sn_publicId = ''rn'', sn_installationId = ''i'', sn_bootId = ''b'', sn_bootGeneration = 2, sn_leaseUntil = 55\<rparr>,
      si_authority = \<lparr>su_tuple = \<lparr>rt_organizationId = ''o'', rt_workspaceId = ''w'', rt_runnerId = ''rid'',
        rt_runnerPublicId = ''rn'', rt_installationId = ''i''\<rparr>, su_generation = 1, su_leaseUntil = 55\<rparr>\<rparr>"


subsection \<open>The leases of a claimed dispatch\<close>

datatype DispatchClaimLeaseDisposition =
    DL_retain int int int
  | DL_renew int int int

definition dispatchClaimLeaseDisposition ::
  "int \<Rightarrow> int \<Rightarrow> int \<Rightarrow> DispatchClaimLeaseDisposition option" where
  "dispatchClaimLeaseDisposition claimLeaseGeneration claimLeaseUntil now =
     (if \<not> is_safe_integer now \<or> \<not> is_safe_integer claimLeaseGeneration \<or> claimLeaseGeneration < 1 \<or>
         \<not> is_safe_integer claimLeaseUntil \<or> claimLeaseUntil \<le> now
      then None
      else if claimLeaseUntil - now > CLAIM_RENEWAL_THRESHOLD_MS
      then Some (DL_retain claimLeaseGeneration claimLeaseUntil (min claimLeaseUntil (now + DISPATCH_LEASE_MS)))
      else if claimLeaseGeneration = MAX_SAFE_INTEGER then None
      else let renewedUntil = now + DEFAULT_CLAIM_LEASE_MS in
           Some (DL_renew (claimLeaseGeneration + 1) renewedUntil (min renewedUntil (now + DISPATCH_LEASE_MS))))"

fun lease_generation :: "DispatchClaimLeaseDisposition \<Rightarrow> int" where
  "lease_generation (DL_retain g u d) = g"
| "lease_generation (DL_renew g u d) = g"

fun lease_claim_until :: "DispatchClaimLeaseDisposition \<Rightarrow> int" where
  "lease_claim_until (DL_retain g u d) = u"
| "lease_claim_until (DL_renew g u d) = u"

fun lease_dispatch_until :: "DispatchClaimLeaseDisposition \<Rightarrow> int" where
  "lease_dispatch_until (DL_retain g u d) = d"
| "lease_dispatch_until (DL_renew g u d) = d"

lemma dispatch_lease_deadline:
  "dispatchClaimLeaseDisposition generation claimUntil now = Some d \<Longrightarrow>
   lease_dispatch_until d = now + DISPATCH_LEASE_MS"
  by (auto simp: dispatchClaimLeaseDisposition_def Let_def lease_constants split: if_splits)

text \<open>
  C40. A heartbeat that keeps a run keeps both of its leases live: the dispatch lease is the full
  ninety seconds and lies strictly inside the task claim's, the claim lease never shrinks, and its
  generation goes up by one exactly when the claim lease is extended.
\<close>

theorem dispatch_lease_inside_claim:
  assumes "dispatchClaimLeaseDisposition generation claimUntil now = Some d"
  shows "now < lease_dispatch_until d \<and> lease_dispatch_until d = now + DISPATCH_LEASE_MS \<and>
    lease_dispatch_until d < lease_claim_until d \<and>
    claimUntil \<le> lease_claim_until d \<and> now + CLAIM_RENEWAL_THRESHOLD_MS < lease_claim_until d \<and>
    is_safe_integer (lease_generation d) \<and>
    (lease_generation d = generation \<and> lease_claim_until d = claimUntil \<or>
     lease_generation d = generation + 1 \<and> claimUntil < lease_claim_until d)"
  using assms
  by (auto simp: dispatchClaimLeaseDisposition_def Let_def lease_constants guard_defs split: if_splits)

theorem dispatch_lease_inside_claim_witness:
  "lease_dispatch_until (DL_renew 2 900000 90000) < lease_claim_until (DL_renew 2 900000 90000)"
proof -
  have "dispatchClaimLeaseDisposition 1 300000 0 = Some (DL_renew 2 900000 90000)"
    by (simp add: dispatchClaimLeaseDisposition_def Let_def lease_constants guard_defs)
  from dispatch_lease_inside_claim [OF this] show ?thesis by blast
qed

text \<open>The job that expires a dispatch, and the dispatch as it is persisted.\<close>

definition EXPIRABLE_DISPATCH_PHASES :: "RunPhase list" where
  "EXPIRABLE_DISPATCH_PHASES =
     [RP_leased, RP_provisioning, RP_starting, RP_running, RP_waiting, RP_cancel_requested]"

record ScheduledDispatchLease =
  sl_dispatchId :: string
  sl_runnerId :: string
  sl_bootId :: string
  sl_bootGeneration :: int
  sl_taskClaimId :: string
  sl_claimFence :: int
  sl_leaseGeneration :: int
  sl_deadline :: int

record PersistedDispatchLease = ScheduledDispatchLease +
  pl_phase :: RunPhase

definition job_of :: "PersistedDispatchLease \<Rightarrow> ScheduledDispatchLease" where
  "job_of current =
     \<lparr>sl_dispatchId = sl_dispatchId current, sl_runnerId = sl_runnerId current, sl_bootId = sl_bootId current,
      sl_bootGeneration = sl_bootGeneration current, sl_taskClaimId = sl_taskClaimId current,
      sl_claimFence = sl_claimFence current, sl_leaseGeneration = sl_leaseGeneration current,
      sl_deadline = sl_deadline current\<rparr>"

datatype ScheduledDispatchExpiryDisposition = DX_ambiguous | DX_requeue | DX_reschedule | DX_stale

definition scheduledDispatchExpiryDisposition ::
  "PersistedDispatchLease option \<Rightarrow> ScheduledDispatchLease \<Rightarrow> int \<Rightarrow> ScheduledDispatchExpiryDisposition" where
  "scheduledDispatchExpiryDisposition current scheduled now =
     (case current of
        None \<Rightarrow> DX_stale
      | Some cur \<Rightarrow>
          (if sl_dispatchId cur \<noteq> sl_dispatchId scheduled \<or> sl_runnerId cur \<noteq> sl_runnerId scheduled \<or>
              sl_bootId cur \<noteq> sl_bootId scheduled \<or> sl_bootGeneration cur \<noteq> sl_bootGeneration scheduled \<or>
              sl_taskClaimId cur \<noteq> sl_taskClaimId scheduled \<or> sl_claimFence cur \<noteq> sl_claimFence scheduled \<or>
              sl_leaseGeneration cur \<noteq> sl_leaseGeneration scheduled \<or> sl_deadline cur \<noteq> sl_deadline scheduled \<or>
              pl_phase cur \<notin> set EXPIRABLE_DISPATCH_PHASES
           then DX_stale
           else if now < sl_deadline scheduled then DX_reschedule
           else if pl_phase cur = RP_leased then DX_requeue else DX_ambiguous))"

lemma scheduled_dispatch_expiry_iff:
  "scheduledDispatchExpiryDisposition (Some cur) job now \<noteq> DX_stale \<longleftrightarrow>
   job = job_of cur \<and> pl_phase cur \<in> set EXPIRABLE_DISPATCH_PHASES"
  by (cases job) (auto simp: scheduledDispatchExpiryDisposition_def job_of_def)

lemma expirable_iff:
  "phase \<in> set EXPIRABLE_DISPATCH_PHASES \<longleftrightarrow> \<not> isTerminalRunPhase phase \<and> phase \<noteq> RP_queued"
  by (cases phase) (simp_all add: EXPIRABLE_DISPATCH_PHASES_def)

text \<open>
  The expiry job of a dispatch acts only on the very lease that scheduled it, only when that
  lease is due and only while the run is open; a run that may have started work becomes ambiguous
  and only one that was merely leased is queued again. Once a heartbeat has renewed the dispatch
  lease at a later time, the older job is stale for good.
\<close>

theorem dispatch_expiry_exact:
  "(scheduledDispatchExpiryDisposition (Some cur) job now = DX_requeue \<longleftrightarrow>
      job = job_of cur \<and> sl_deadline cur \<le> now \<and> pl_phase cur = RP_leased) \<and>
   (scheduledDispatchExpiryDisposition (Some cur) job now = DX_ambiguous \<longleftrightarrow>
      job = job_of cur \<and> sl_deadline cur \<le> now \<and>
      pl_phase cur \<noteq> RP_leased \<and> pl_phase cur \<noteq> RP_queued \<and> \<not> isTerminalRunPhase (pl_phase cur)) \<and>
   (earlier < renewedAt \<longrightarrow>
      dispatchClaimLeaseDisposition g0 u0 earlier = Some d0 \<longrightarrow>
      dispatchClaimLeaseDisposition g1 u1 renewedAt = Some d1 \<longrightarrow>
      sl_deadline job = lease_dispatch_until d0 \<longrightarrow>
      scheduledDispatchExpiryDisposition
        (Some (cur \<lparr>sl_leaseGeneration := lease_generation d1, sl_deadline := lease_dispatch_until d1\<rparr>))
        job now = DX_stale)"
proof (intro conjI impI)
  show "scheduledDispatchExpiryDisposition (Some cur) job now = DX_requeue \<longleftrightarrow>
      job = job_of cur \<and> sl_deadline cur \<le> now \<and> pl_phase cur = RP_leased"
    by (cases job) (auto simp: scheduledDispatchExpiryDisposition_def job_of_def EXPIRABLE_DISPATCH_PHASES_def)
  show "scheduledDispatchExpiryDisposition (Some cur) job now = DX_ambiguous \<longleftrightarrow>
      job = job_of cur \<and> sl_deadline cur \<le> now \<and>
      pl_phase cur \<noteq> RP_leased \<and> pl_phase cur \<noteq> RP_queued \<and> \<not> isTerminalRunPhase (pl_phase cur)"
    by (cases job; cases "pl_phase cur")
      (auto simp: scheduledDispatchExpiryDisposition_def job_of_def EXPIRABLE_DISPATCH_PHASES_def)
  assume "earlier < renewedAt" "sl_deadline job = lease_dispatch_until d0"
    and d0: "dispatchClaimLeaseDisposition g0 u0 earlier = Some d0"
    and d1: "dispatchClaimLeaseDisposition g1 u1 renewedAt = Some d1"
  with dispatch_lease_deadline [OF d0] dispatch_lease_deadline [OF d1]
  have "sl_deadline job < lease_dispatch_until d1" by simp
  then show "scheduledDispatchExpiryDisposition
      (Some (cur \<lparr>sl_leaseGeneration := lease_generation d1, sl_deadline := lease_dispatch_until d1\<rparr>))
      job now = DX_stale"
    by (simp add: scheduledDispatchExpiryDisposition_def)
qed

definition sample_lease :: PersistedDispatchLease where
  "sample_lease = \<lparr>sl_dispatchId = ''d'', sl_runnerId = ''r'', sl_bootId = ''b'', sl_bootGeneration = 1,
     sl_taskClaimId = ''c'', sl_claimFence = 1, sl_leaseGeneration = 1, sl_deadline = 90000, pl_phase = RP_running\<rparr>"

theorem dispatch_expiry_exact_witness:
  "scheduledDispatchExpiryDisposition (Some sample_lease) (job_of sample_lease) 90000 = DX_ambiguous \<and>
   scheduledDispatchExpiryDisposition (Some (sample_lease \<lparr>sl_leaseGeneration := 1, sl_deadline := 90005\<rparr>))
     (job_of sample_lease) 90010 = DX_stale"
proof -
  have d: "dispatchClaimLeaseDisposition 1 900000 0 = Some (DL_retain 1 900000 90000)"
    "dispatchClaimLeaseDisposition 1 900000 5 = Some (DL_retain 1 900000 90005)"
    by (simp_all add: dispatchClaimLeaseDisposition_def lease_constants guard_defs)
  from dispatch_expiry_exact [of sample_lease "job_of sample_lease" 90000]
    dispatch_expiry_exact [of sample_lease "job_of sample_lease" 90010 0 5 1 900000 "DL_retain 1 900000 90000"
      1 900000 "DL_retain 1 900000 90005"] d
  show ?thesis by (simp add: sample_lease_def job_of_def)
qed

end
