(* ===== verification/Candidates.thy ===== *)
theory Candidates
  imports DispatchLeases
begin

text \<open>
  The fair selection of queued dispatches a heartbeat may offer to a runner:
  \<open>selectFairDispatchCandidateRows\<close>, \<open>planFairEligibleDispatchCandidates\<close>,
  \<open>candidateRowsToRotate\<close> and the scan budgets of \<open>apps/web/convex/dispatchLaws.ts\<close>.
  \<open>localeCompare\<close> is the parameter \<open>lc\<close>; the laws it needs are those of the locale
  \<open>comparator\<close>. A \<open>Map\<close> with arrays as values is an association list in insertion order.
\<close>

subsection \<open>Rows and their order\<close>

record DispatchCandidateRow =
  dc_publicId :: string
  dc_queuedAt :: int
  dc_repositoryId :: string

record EvaluatedDispatchCandidateRow = DispatchCandidateRow +
  dc_candidateOrderAt :: "int option"
  dc_candidateRotationAt :: "int option"
  dc_eligible :: bool

definition CANDIDATE_ROTATION_COOLDOWN_MS :: int where "CANDIDATE_ROTATION_COOLDOWN_MS = 60000"
definition MAX_CANDIDATE_EVALUATIONS_PER_HEARTBEAT :: int where
  "MAX_CANDIDATE_EVALUATIONS_PER_HEARTBEAT = 512"

definition compareDispatchCandidateRows ::
  "(string \<Rightarrow> string \<Rightarrow> int) \<Rightarrow> 'a DispatchCandidateRow_scheme \<Rightarrow> 'a DispatchCandidateRow_scheme \<Rightarrow> int" where
  "compareDispatchCandidateRows lc left right =
     (let byTime = dc_queuedAt left - dc_queuedAt right in
      if byTime \<noteq> 0 then byTime else lc (dc_publicId left) (dc_publicId right))"

definition valid_time :: "int \<Rightarrow> bool" where
  "valid_time t \<longleftrightarrow> is_safe_integer t \<and> 0 \<le> t"

subsection \<open>The selection over repository heads\<close>

fun admit_heads ::
  "'a DispatchCandidateRow_scheme list \<Rightarrow> string list \<Rightarrow> (string \<times> 'a DispatchCandidateRow_scheme) list \<Rightarrow>
   string list \<Rightarrow> (string list \<times> (string \<times> 'a DispatchCandidateRow_scheme) list \<times> string list) option" where
  "admit_heads [] repositoryIds headByPublicId publicIds = Some (repositoryIds, headByPublicId, publicIds)"
| "admit_heads (row # rows) repositoryIds headByPublicId publicIds =
     (if \<not> is_safe_integer (dc_queuedAt row) \<or> dc_queuedAt row < 0 \<or>
         dc_repositoryId row \<in> set repositoryIds \<or> dc_publicId row \<in> set publicIds
      then None
      else admit_heads rows (repositoryIds @ [dc_repositoryId row])
             (headByPublicId @ [(dc_publicId row, row)]) (publicIds @ [dc_publicId row]))"

fun collect_extras ::
  "string list \<Rightarrow> string list \<Rightarrow> (string \<times> 'a DispatchCandidateRow_scheme) list \<Rightarrow>
   'a DispatchCandidateRow_scheme list \<Rightarrow> string list \<Rightarrow> 'a DispatchCandidateRow_scheme list \<Rightarrow>
   'a DispatchCandidateRow_scheme list option" where
  "collect_extras headRepositoryIds offered headByPublicId [] publicIds extras = Some extras"
| "collect_extras headRepositoryIds offered headByPublicId (row # rows) publicIds extras =
     (if \<not> is_safe_integer (dc_queuedAt row) \<or> dc_queuedAt row < 0 \<or>
         dc_repositoryId row \<notin> set headRepositoryIds
      then None
      else if dc_publicId row \<in> set publicIds
      then (case js_map_of headByPublicId (dc_publicId row) of
              None \<Rightarrow> None
            | Some head \<Rightarrow>
                (if dc_repositoryId head = dc_repositoryId row \<and> dc_queuedAt head = dc_queuedAt row
                 then collect_extras headRepositoryIds offered headByPublicId rows publicIds extras
                 else None))
      else collect_extras headRepositoryIds offered headByPublicId rows (publicIds @ [dc_publicId row])
             (if dc_repositoryId row \<in> set offered then extras @ [row] else extras))"

definition cyclic_heads ::
  "(string \<Rightarrow> string \<Rightarrow> int) \<Rightarrow> 'a DispatchCandidateRow_scheme list \<Rightarrow> string option \<Rightarrow>
   'a DispatchCandidateRow_scheme list" where
  "cyclic_heads lc headRows repositoryCursor =
     (let repositoryOrderedHeads =
        js_sort (\<lambda>left right. lc (dc_repositoryId left) (dc_repositoryId right)) headRows in
      case repositoryCursor of
        None \<Rightarrow> repositoryOrderedHeads
      | Some cursor \<Rightarrow>
          (case dropWhile (\<lambda>row. \<not> dc_repositoryId row > cursor) repositoryOrderedHeads of
             [] \<Rightarrow> repositoryOrderedHeads
           | tail \<Rightarrow> tail))"

definition selectFairDispatchCandidateRows ::
  "(string \<Rightarrow> string \<Rightarrow> int) \<Rightarrow> 'a DispatchCandidateRow_scheme list \<Rightarrow> 'a DispatchCandidateRow_scheme list \<Rightarrow>
   int \<Rightarrow> string option \<Rightarrow> 'a DispatchCandidateRow_scheme list option" where
  "selectFairDispatchCandidateRows lc expandedRows headRows limit repositoryCursor =
     (if \<not> is_safe_integer limit \<or> limit < 1 then None
      else case admit_heads headRows [] [] [] of
        None \<Rightarrow> None
      | Some (headRepositoryIds, headByPublicId, publicIds) \<Rightarrow>
          (let heads = take (nat limit) (cyclic_heads lc headRows repositoryCursor) in
           if int (length heads) = limit then Some heads
           else case collect_extras headRepositoryIds (map dc_repositoryId heads) headByPublicId
                       expandedRows publicIds [] of
             None \<Rightarrow> None
           | Some extras \<Rightarrow>
               Some (heads @ take (nat limit - length heads) (js_sort (compareDispatchCandidateRows lc) extras))))"

subsection \<open>The plan over evaluated rows\<close>

definition dispatchCandidateIsEligible :: "int \<Rightarrow> int \<Rightarrow> bool \<Rightarrow> int \<Rightarrow> int \<Rightarrow> bool \<Rightarrow> bool" where
  "dispatchCandidateIsEligible currentClaimFence currentTaskRevision persistedReady
     queuedClaimFence queuedTaskRevision readyNow \<longleftrightarrow>
     persistedReady \<and> readyNow \<and> queuedTaskRevision = currentTaskRevision \<and>
     queuedClaimFence = currentClaimFence"

fun group_push :: "'k \<Rightarrow> 'r \<Rightarrow> ('k \<times> 'r list) list \<Rightarrow> ('k \<times> 'r list) list" where
  "group_push k row [] = [(k, [row])]"
| "group_push k row ((k', rows) # groups) =
     (if k' = k then (k', rows @ [row]) # groups else (k', rows) # group_push k row groups)"

definition optional_time_invalid :: "int option \<Rightarrow> bool" where
  "optional_time_invalid t = (case t of None \<Rightarrow> False | Some v \<Rightarrow> \<not> is_safe_integer v \<or> v < 0)"

fun plan_scan ::
  "'a EvaluatedDispatchCandidateRow_scheme list \<Rightarrow> string list \<Rightarrow>
   (string \<times> 'a EvaluatedDispatchCandidateRow_scheme list) list \<Rightarrow> 'a EvaluatedDispatchCandidateRow_scheme list \<Rightarrow>
   ((string \<times> 'a EvaluatedDispatchCandidateRow_scheme list) list \<times>
    'a EvaluatedDispatchCandidateRow_scheme list) option" where
  "plan_scan [] publicIds eligibleByRepository deferred = Some (eligibleByRepository, deferred)"
| "plan_scan (row # rows) publicIds eligibleByRepository deferred =
     (if dc_publicId row \<in> set publicIds \<or>
         \<not> is_safe_integer (dc_queuedAt row) \<or> dc_queuedAt row < 0 \<or>
         optional_time_invalid (dc_candidateOrderAt row) \<or>
         optional_time_invalid (dc_candidateRotationAt row)
      then None
      else if \<not> dc_eligible row
      then plan_scan rows (dc_publicId row # publicIds) eligibleByRepository (deferred @ [row])
      else plan_scan rows (dc_publicId row # publicIds)
             (group_push (dc_repositoryId row) row eligibleByRepository) deferred)"

record 'a CandidatePlan =
  cp_deferredPublicIds :: "string list"
  cp_nextRepositoryCursor :: "string option"
  cp_selected :: "'a EvaluatedDispatchCandidateRow_scheme list"

definition group_heads :: "('k \<times> 'r list) list \<Rightarrow> 'r list" where
  "group_heads groups = concat (map (\<lambda>(k, rows). case rows of [] \<Rightarrow> [] | head # rest \<Rightarrow> [head]) groups)"

definition planFairEligibleDispatchCandidates ::
  "(string \<Rightarrow> string \<Rightarrow> int) \<Rightarrow> int \<Rightarrow> string option \<Rightarrow> 'a EvaluatedDispatchCandidateRow_scheme list \<Rightarrow>
   'a CandidatePlan option" where
  "planFairEligibleDispatchCandidates lc limit repositoryCursor rows =
     (if \<not> is_safe_integer limit \<or> limit < 1 then None
      else case plan_scan rows [] [] [] of
        None \<Rightarrow> None
      | Some (eligibleByRepository, deferred) \<Rightarrow>
          (let sorted = map (\<lambda>(k, rs). (k, js_sort (compareDispatchCandidateRows lc) rs)) eligibleByRepository;
               headRows = group_heads sorted;
               expandedRows = concat (map snd sorted) in
           case selectFairDispatchCandidateRows lc expandedRows headRows limit repositoryCursor of
             None \<Rightarrow> None
           | Some selected \<Rightarrow>
               (let headPublicIds = map dc_publicId headRows;
                    offered = filter (\<lambda>row. dc_publicId row \<in> set headPublicIds) selected in
                Some \<lparr>cp_deferredPublicIds =
                        map dc_publicId (js_sort (compareDispatchCandidateRows lc) deferred),
                      cp_nextRepositoryCursor =
                        (if offered = [] then None else Some (dc_repositoryId (last offered))),
                      cp_selected = selected\<rparr>)))"

subsection \<open>Rotation of a truncated page and the scan budgets\<close>

definition candidateRowsToRotate ::
  "int \<Rightarrow> string list \<Rightarrow> int \<Rightarrow> int \<Rightarrow> 'a EvaluatedDispatchCandidateRow_scheme list \<Rightarrow> string list \<Rightarrow>
   'a EvaluatedDispatchCandidateRow_scheme list option" where
  "candidateRowsToRotate cooldownMs deferredPublicIds maximumRows now rows truncatedRepositoryIds =
     (if \<not> is_safe_integer maximumRows \<or> maximumRows < 0 \<or> \<not> is_safe_integer now \<or> now < 0 \<or>
         \<not> is_safe_integer cooldownMs \<or> cooldownMs < 1 \<or> int (length rows) > maximumRows
      then None
      else
        (let rowPublicIds = js_set (map dc_publicId rows);
             deferred = js_set deferredPublicIds;
             truncated = js_set truncatedRepositoryIds in
         if length rowPublicIds \<noteq> length rows \<or> length deferred \<noteq> length deferredPublicIds \<or>
            length truncated \<noteq> length truncatedRepositoryIds \<or>
            list_ex (\<lambda>publicId. publicId \<notin> set rowPublicIds) deferredPublicIds
         then None
         else let rotationCutoff = now - cooldownMs in
              Some (filter (\<lambda>row.
                dc_publicId row \<in> set deferred \<and> dc_repositoryId row \<in> set truncated \<and>
                (case dc_candidateRotationAt row of None \<Rightarrow> True | Some at \<Rightarrow> at \<le> rotationCutoff)) rows)))"

definition dispatchCandidateExpansionTake :: "int \<Rightarrow> int \<Rightarrow> int" where
  "dispatchCandidateExpansionTake nonemptyRepositoryCount limit =
     (if \<not> is_safe_integer nonemptyRepositoryCount \<or> nonemptyRepositoryCount < 0 \<or>
         \<not> is_safe_integer limit \<or> limit < 1 \<or> nonemptyRepositoryCount = 0 \<or>
         nonemptyRepositoryCount \<ge> limit
      then 0 else limit - nonemptyRepositoryCount + 1)"

definition dispatchCandidateScanTake :: "int \<Rightarrow> int \<Rightarrow> int" where
  "dispatchCandidateScanTake nonemptyRepositoryCount limit =
     (if \<not> is_safe_integer nonemptyRepositoryCount \<or> nonemptyRepositoryCount < 1 \<or>
         \<not> is_safe_integer limit \<or> limit < 1
      then 0
      else max 2 (max (dispatchCandidateExpansionTake nonemptyRepositoryCount limit)
                      (MAX_CANDIDATE_EVALUATIONS_PER_HEARTBEAT div nonemptyRepositoryCount)))"

subsection \<open>The two scans, characterised\<close>

definition row_times_ok :: "'a DispatchCandidateRow_scheme \<Rightarrow> bool" where
  "row_times_ok row \<longleftrightarrow> is_safe_integer (dc_queuedAt row) \<and> 0 \<le> dc_queuedAt row"

lemma admit_heads_iff:
  "admit_heads rows repos byId pids = Some out \<longleftrightarrow>
     (\<forall>row \<in> set rows. row_times_ok row) \<and>
     distinct (map dc_repositoryId rows) \<and> set (map dc_repositoryId rows) \<inter> set repos = {} \<and>
     distinct (map dc_publicId rows) \<and> set (map dc_publicId rows) \<inter> set pids = {} \<and>
     out = (repos @ map dc_repositoryId rows, byId @ map (\<lambda>row. (dc_publicId row, row)) rows,
            pids @ map dc_publicId rows)"
  by (induction rows arbitrary: repos byId pids) (auto simp: row_times_ok_def)

lemma heads_by_id:
  "distinct (map dc_publicId rows) \<Longrightarrow>
   js_map_of (map (\<lambda>row. (dc_publicId row, row)) rows) p = Some row \<longleftrightarrow> row \<in> set rows \<and> dc_publicId row = p"
  by (subst js_map_of_distinct) (auto simp: comp_def)

lemma collect_extras_sound:
  "collect_extras repos offered byId rows pids extras = Some out \<Longrightarrow>
   distinct (map dc_publicId extras) \<Longrightarrow> dc_publicId ` set extras \<subseteq> set pids \<Longrightarrow>
   distinct (map dc_publicId out) \<and>
   (\<forall>row \<in> set out. row \<in> set extras \<or>
      row \<in> set rows \<and> dc_repositoryId row \<in> set offered \<and> dc_publicId row \<notin> set pids)"
proof (induction rows arbitrary: pids extras)
  case Nil
  then show ?case by simp
next
  case (Cons row rows)
  show ?case
  proof (cases "dc_publicId row \<in> set pids")
    case True
    with Cons.prems(1) have "collect_extras repos offered byId rows pids extras = Some out"
      by (auto split: if_splits option.splits)
    from Cons.IH [OF this Cons.prems(2,3)] show ?thesis by auto
  next
    case False
    define extras' where "extras' = (if dc_repositoryId row \<in> set offered then extras @ [row] else extras)"
    from False Cons.prems(1) have "collect_extras repos offered byId rows (pids @ [dc_publicId row]) extras' = Some out"
      by (simp add: extras'_def split: if_splits)
    moreover from False Cons.prems(2,3) have "distinct (map dc_publicId extras')"
      "dc_publicId ` set extras' \<subseteq> set (pids @ [dc_publicId row])"
      by (auto simp: extras'_def)
    ultimately have IH: "distinct (map dc_publicId out) \<and>
      (\<forall>r \<in> set out. r \<in> set extras' \<or>
        r \<in> set rows \<and> dc_repositoryId r \<in> set offered \<and> dc_publicId r \<notin> set (pids @ [dc_publicId row]))"
      by (rule Cons.IH)
    have "r \<in> set extras \<or> r \<in> set (row # rows) \<and> dc_repositoryId r \<in> set offered \<and> dc_publicId r \<notin> set pids"
      if "r \<in> set out" for r
      using IH that False by (cases "dc_repositoryId row \<in> set offered") (auto simp: extras'_def)
    with IH show ?thesis by blast
  qed
qed

lemma collect_extras_total:
  "\<forall>row \<in> set rows. row_times_ok row \<and> dc_repositoryId row \<in> set repos \<Longrightarrow>
   distinct (map dc_publicId rows) \<Longrightarrow>
   \<forall>row \<in> set rows. dc_publicId row \<in> set pids \<longrightarrow> js_map_of byId (dc_publicId row) = Some row \<Longrightarrow>
   \<exists>out. collect_extras repos offered byId rows pids extras = Some out"
proof (induction rows arbitrary: pids extras)
  case Nil
  then show ?case by simp
next
  case (Cons row rows)
  from Cons.prems(2) have fresh: "\<And>r. r \<in> set rows \<Longrightarrow> dc_publicId r \<noteq> dc_publicId row" by (auto simp: image_iff)
  have IH: "\<exists>out. collect_extras repos offered byId rows pids' extras' = Some out"
    if "set pids' \<subseteq> insert (dc_publicId row) (set pids)" for pids' extras'
  proof (rule Cons.IH)
    show "\<forall>row \<in> set rows. row_times_ok row \<and> dc_repositoryId row \<in> set repos"
      "distinct (map dc_publicId rows)"
      using Cons.prems(1,2) by auto
    show "\<forall>r \<in> set rows. dc_publicId r \<in> set pids' \<longrightarrow> js_map_of byId (dc_publicId r) = Some r"
      using Cons.prems(3) fresh that by auto
  qed
  have ok: "is_safe_integer (dc_queuedAt row)" "0 \<le> dc_queuedAt row" "dc_repositoryId row \<in> set repos"
    using Cons.prems(1) by (auto simp: row_times_ok_def)
  show ?case
  proof (cases "dc_publicId row \<in> set pids")
    case True
    with Cons.prems(3) have "js_map_of byId (dc_publicId row) = Some row" by simp
    with ok True IH [of pids extras] show ?thesis by auto
  next
    case False
    have "set (pids @ [dc_publicId row]) \<subseteq> insert (dc_publicId row) (set pids)" by simp
    from IH [OF this] ok False show ?thesis by simp
  qed
qed

text \<open>The loop over the evaluated rows groups the eligible ones by repository.\<close>

definition group_rows :: "'a EvaluatedDispatchCandidateRow_scheme list \<Rightarrow>
  (string \<times> 'a EvaluatedDispatchCandidateRow_scheme list) list" where
  "group_rows rows = foldl (\<lambda>groups row. group_push (dc_repositoryId row) row groups) [] rows"

definition evaluated_row_ok :: "'a EvaluatedDispatchCandidateRow_scheme \<Rightarrow> bool" where
  "evaluated_row_ok row \<longleftrightarrow> row_times_ok row \<and>
     \<not> optional_time_invalid (dc_candidateOrderAt row) \<and> \<not> optional_time_invalid (dc_candidateRotationAt row)"

lemma plan_scan_iff:
  "plan_scan rows pids groups deferred = Some out \<longleftrightarrow>
     (\<forall>row \<in> set rows. evaluated_row_ok row) \<and> distinct (map dc_publicId rows) \<and>
     dc_publicId ` set rows \<inter> set pids = {} \<and>
     out = (foldl (\<lambda>groups row. group_push (dc_repositoryId row) row groups) groups (filter dc_eligible rows),
            deferred @ filter (\<lambda>row. \<not> dc_eligible row) rows)"
  by (induction rows arbitrary: pids groups deferred) (auto simp: evaluated_row_ok_def row_times_ok_def)

lemma set_group_push:
  "distinct (map fst groups) \<Longrightarrow>
   set (group_push k row groups) =
     {(k', rs) \<in> set groups. k' \<noteq> k} \<union>
     {(k, (case map_of groups k of None \<Rightarrow> [] | Some rs \<Rightarrow> rs) @ [row])}"
proof (induction groups)
  case Nil
  then show ?case by simp
next
  case (Cons g groups)
  obtain k' rs where g: "g = (k', rs)" by (cases g)
  show ?case
  proof (cases "k' = k")
    case True
    with Cons.prems g have "\<forall>(k'', rs') \<in> set groups. k'' \<noteq> k" by force
    with True g show ?thesis by auto
  next
    case False
    with Cons g show ?thesis by auto
  qed
qed

lemma keys_group_push: "fst ` set (group_push k row groups) = insert k (fst ` set groups)"
  by (induction k row groups rule: group_push.induct) auto

lemma distinct_group_push: "distinct (map fst groups) \<Longrightarrow> distinct (map fst (group_push k row groups))"
proof (induction k row groups rule: group_push.induct)
  case (2 k row k' rows groups)
  have "fst ` set (group_push k row groups) = insert k (fst ` set groups)" by (rule keys_group_push)
  with 2 show ?case by auto
qed simp

lemma group_rows_spec:
  "distinct (map fst (group_rows rows)) \<and> fst ` set (group_rows rows) = dc_repositoryId ` set rows \<and>
   (\<forall>k rs. (k, rs) \<in> set (group_rows rows) \<longrightarrow>
      rs = filter (\<lambda>row. dc_repositoryId row = k) rows \<and> rs \<noteq> [])"
proof (induction rows rule: rev_induct)
  case Nil
  show ?case by (simp add: group_rows_def)
next
  case (snoc row rows)
  note snoc_keys = snoc.IH [THEN conjunct1] and snoc_ids = snoc.IH [THEN conjunct2, THEN conjunct1]
    and snoc_rows = snoc.IH [THEN conjunct2, THEN conjunct2]
  let ?g = "group_rows rows" and ?k = "dc_repositoryId row"
  have step: "group_rows (rows @ [row]) = group_push ?k row ?g" by (simp add: group_rows_def)
  have old: "(case map_of ?g ?k of None \<Rightarrow> [] | Some rs \<Rightarrow> rs) = filter (\<lambda>row. dc_repositoryId row = ?k) rows"
  proof (cases "map_of ?g ?k")
    case None
    then have "?k \<notin> fst ` set ?g" by (simp add: map_of_eq_None_iff)
    then have "?k \<notin> dc_repositoryId ` set rows" by (simp only: snoc_ids not_False_eq_True)
    then have "filter (\<lambda>row. dc_repositoryId row = ?k) rows = []"
      unfolding filter_empty_conv by (metis imageI)
    with None show ?thesis by simp
  next
    case (Some rs)
    then have "(?k, rs) \<in> set ?g" by (rule map_of_SomeD)
    then have "rs = filter (\<lambda>row. dc_repositoryId row = ?k) rows"
      by (rule snoc_rows [rule_format, THEN conjunct1])
    with Some show ?thesis by simp
  qed
  have mem: "set (group_rows (rows @ [row])) = {(k', rs) \<in> set ?g. k' \<noteq> ?k} \<union>
      {(?k, filter (\<lambda>row. dc_repositoryId row = ?k) rows @ [row])}"
    unfolding step set_group_push [OF snoc_keys] old ..
  have "distinct (map fst (group_rows (rows @ [row])))"
    "fst ` set (group_rows (rows @ [row])) = dc_repositoryId ` set (rows @ [row])"
    unfolding step using snoc_keys by (simp_all only: distinct_group_push keys_group_push snoc_ids) simp
  moreover have "rs = filter (\<lambda>row. dc_repositoryId row = k) (rows @ [row]) \<and> rs \<noteq> []"
    if "(k, rs) \<in> set (group_rows (rows @ [row]))" for k rs
  proof (cases "k = ?k")
    case True
    with that mem have "rs = filter (\<lambda>row. dc_repositoryId row = k) rows @ [row]" by auto
    with True show ?thesis by simp
  next
    case False
    with that mem have "(k, rs) \<in> set ?g" by auto
    then have "rs = filter (\<lambda>row. dc_repositoryId row = k) rows \<and> rs \<noteq> []"
      by (rule snoc_rows [rule_format])
    with False show ?thesis by (elim conjE) simp
  qed
  ultimately show ?case by blast
qed

lemma group_rows_mem:
  "(k, rs) \<in> set (group_rows rows) \<Longrightarrow>
   rs = filter (\<lambda>row. dc_repositoryId row = k) rows \<and> rs \<noteq> []"
  by (rule group_rows_spec [THEN conjunct2, THEN conjunct2, rule_format])


subsection \<open>The order of candidates\<close>

locale candidate_order = comparator lc for lc :: "string \<Rightarrow> string \<Rightarrow> int"
begin

lemma compare_candidates_total:
  "compareDispatchCandidateRows lc x y \<le> 0 \<or> compareDispatchCandidateRows lc y x \<le> 0"
  using cmp_total by (auto simp: compareDispatchCandidateRows_def Let_def)

lemma compare_candidates_trans:
  "compareDispatchCandidateRows lc x y \<le> 0 \<Longrightarrow> compareDispatchCandidateRows lc y z \<le> 0 \<Longrightarrow>
   compareDispatchCandidateRows lc x z \<le> 0"
  by (auto simp: compareDispatchCandidateRows_def Let_def split: if_splits intro: cmp_trans)

end

sublocale candidate_order \<subseteq> rows: comparator "compareDispatchCandidateRows lc"
  by unfold_locales (rule compare_candidates_total, rule compare_candidates_trans)

interpretation ascii_candidates: candidate_order "code_unit_compare :: string \<Rightarrow> string \<Rightarrow> int"
  by unfold_locales

lemma comparator_candidates:
  "comparator lc \<Longrightarrow> comparator (compareDispatchCandidateRows lc)"
  by (rule comparator.intro)
    (auto dest: candidate_order.compare_candidates_total [OF candidate_order.intro]
       candidate_order.compare_candidates_trans [OF candidate_order.intro])

lemma compare_candidates_oldest:
  "compareDispatchCandidateRows lc x y \<le> 0 \<Longrightarrow> dc_queuedAt x \<le> dc_queuedAt y"
  by (auto simp: compareDispatchCandidateRows_def Let_def split: if_splits)

subsection \<open>Heads and expansion of the grouped rows\<close>

lemma mset_group_push:
  "mset (concat (map snd (group_push k row groups))) = add_mset row (mset (concat (map snd groups)))"
  by (induction k row groups rule: group_push.induct) auto

lemma mset_group_rows: "mset (concat (map snd (group_rows rows))) = mset rows"
  by (induction rows rule: rev_induct) (simp_all add: group_rows_def mset_group_push)

lemma mset_concat_sorted:
  "mset (concat (map snd (map (\<lambda>(k, rs). (k, js_sort cmp rs)) groups))) = mset (concat (map snd groups))"
  by (induction groups) auto

definition sorted_groups where
  "sorted_groups cmp rows = map (\<lambda>(k, rs). (k, js_sort cmp rs)) (group_rows rows)"

lemma sorted_groups_mem:
  "(k, rs) \<in> set (sorted_groups cmp rows) \<Longrightarrow>
   rs = js_sort cmp (filter (\<lambda>row. dc_repositoryId row = k) rows) \<and> rs \<noteq> []"
  by (auto simp: sorted_groups_def dest: group_rows_mem)

lemma sorted_groups_keys:
  "distinct (map fst (sorted_groups cmp rows)) \<and> fst ` set (sorted_groups cmp rows) = dc_repositoryId ` set rows"
proof -
  have "map fst (sorted_groups cmp rows) = map fst (group_rows rows)"
    by (simp add: sorted_groups_def comp_def case_prod_unfold)
  then have "fst ` set (sorted_groups cmp rows) = fst ` set (group_rows rows)"
    by (metis list.set_map)
  with group_rows_spec [of rows] \<open>map fst (sorted_groups cmp rows) = map fst (group_rows rows)\<close>
  show ?thesis by simp
qed

lemma mset_sorted_groups: "mset (concat (map snd (sorted_groups cmp rows))) = mset rows"
  unfolding sorted_groups_def mset_concat_sorted mset_group_rows ..

lemma expanded_rows:
  "set (concat (map snd (sorted_groups cmp rows))) = set rows"
  "distinct (map dc_publicId rows) \<Longrightarrow> distinct (map dc_publicId (concat (map snd (sorted_groups cmp rows))))"
  using mset_sorted_groups [of cmp rows]
  by (metis set_mset_mset, metis mset_eq_imp_distinct_iff mset_map)

lemma group_heads_map:
  "\<forall>(k, rs) \<in> set groups. rs \<noteq> [] \<Longrightarrow> group_heads groups = map (\<lambda>(k, rs). hd rs) groups"
  by (induction groups) (auto simp: group_heads_def neq_Nil_conv)

lemma head_rows_map:
  "group_heads (sorted_groups cmp rows) = map (\<lambda>(k, rs). hd rs) (sorted_groups cmp rows)"
  by (rule group_heads_map) (auto dest: sorted_groups_mem)

lemma sorted_group_hd:
  assumes "(k, rs) \<in> set (sorted_groups cmp rows)"
  shows "hd rs \<in> set rows \<and> dc_repositoryId (hd rs) = k"
proof -
  from sorted_groups_mem [OF assms] have rs: "rs = js_sort cmp (filter (\<lambda>row. dc_repositoryId row = k) rows)"
    and "rs \<noteq> []" by blast+
  then have "hd rs \<in> set rs" by (simp only: hd_in_set not_False_eq_True)
  moreover have "set rs = {row \<in> set rows. dc_repositoryId row = k}" unfolding rs by auto
  ultimately show ?thesis by auto
qed

lemma head_rows_repositories:
  "map dc_repositoryId (group_heads (sorted_groups cmp rows)) = map fst (sorted_groups cmp rows)"
  unfolding head_rows_map by (auto dest: sorted_group_hd)

lemma head_rows_subset: "set (group_heads (sorted_groups cmp rows)) \<subseteq> set rows"
  unfolding head_rows_map by (auto dest: sorted_group_hd)

lemma head_of_repository:
  assumes "comparator cmp" and "row \<in> set rows"
  shows "\<exists>head \<in> set (group_heads (sorted_groups cmp rows)).
    dc_repositoryId head = dc_repositoryId row \<and> cmp head row \<le> 0"
proof -
  from assms(2) sorted_groups_keys [of cmp rows]
  have "dc_repositoryId row \<in> fst ` set (sorted_groups cmp rows)" by simp
  then obtain rs where rs: "(dc_repositoryId row, rs) \<in> set (sorted_groups cmp rows)" by auto
  have "hd rs \<in> set (group_heads (sorted_groups cmp rows))"
    unfolding head_rows_map using rs by force
  moreover have "cmp (hd rs) row \<le> 0"
    unfolding sorted_groups_mem [OF rs, THEN conjunct1]
    by (rule comparator.hd_js_sort_least [OF assms(1)]) (simp add: assms(2))
  ultimately show ?thesis using sorted_group_hd [OF rs] by blast
qed


subsection \<open>What a selection contains\<close>

lemma cyclic_heads_subset: "set (cyclic_heads lc heads cursor) \<subseteq> set heads"
  by (auto simp: cyclic_heads_def Let_def split: option.splits list.splits dest: set_dropWhileD)
    (metis list.set_intros set_dropWhileD set_js_sort)+

lemma cyclic_heads_distinct: "distinct (map f heads) \<Longrightarrow> distinct (map f (cyclic_heads lc heads cursor))"
proof -
  assume "distinct (map f heads)"
  then have ordered: "distinct (map f (js_sort cmp heads))" for cmp by simp
  then have "distinct (map f (dropWhile P (js_sort cmp heads)))" for P cmp
    by (metis (no_types, lifting) distinct_append map_append takeWhile_dropWhile_id)
  with ordered show ?thesis
    unfolding cyclic_heads_def Let_def by (metis (no_types, lifting) list.exhaust list.simps(4,5) option.case_eq_if)
qed

lemma cyclic_heads_Nil [simp]: "cyclic_heads lc heads cursor = [] \<longleftrightarrow> heads = []"
  by (auto simp: cyclic_heads_def Let_def split: option.splits list.splits)

lemma select_unfold:
  assumes "is_safe_integer limit" "1 \<le> limit" "admit_heads heads [] [] [] = Some (repos, byId, pids)"
    and "offered = take (nat limit) (cyclic_heads lc heads cursor)"
  shows "selectFairDispatchCandidateRows lc expanded heads limit cursor =
    (if int (length offered) = limit then Some offered
     else case collect_extras repos (map dc_repositoryId offered) byId expanded pids [] of
       None \<Rightarrow> None
     | Some extras \<Rightarrow>
         Some (offered @ take (nat limit - length offered) (js_sort (compareDispatchCandidateRows lc) extras)))"
  using assms(1,2) unfolding selectFairDispatchCandidateRows_def Let_def assms(3,4) by simp

lemma select_contents:
  assumes "selectFairDispatchCandidateRows lc expanded heads limit cursor = Some sel"
  shows "\<exists>offered extras. offered = take (nat limit) (cyclic_heads lc heads cursor) \<and> sel = offered @ extras \<and>
    length sel \<le> nat limit \<and> 1 \<le> limit \<and> distinct (map dc_publicId sel) \<and>
    (\<forall>row \<in> set extras. row \<in> set expanded \<and> dc_repositoryId row \<in> dc_repositoryId ` set offered \<and>
       dc_publicId row \<notin> dc_publicId ` set heads)"
proof -
  define offered where "offered = take (nat limit) (cyclic_heads lc heads cursor)"
  from assms obtain out where safe: "is_safe_integer limit" and limit: "1 \<le> limit" and out: "admit_heads heads [] [] [] = Some out"
    by (auto simp: selectFairDispatchCandidateRows_def split: if_splits option.splits)
  then have d: "distinct (map dc_publicId heads)" and o: "out = (map dc_repositoryId heads,
      map (\<lambda>row. (dc_publicId row, row)) heads, map dc_publicId heads)"
    by (auto simp: admit_heads_iff)
  have offered: "distinct (map dc_publicId offered)" "set offered \<subseteq> set heads" "length offered \<le> nat limit"
    using cyclic_heads_distinct [OF d] cyclic_heads_subset [of lc heads cursor]
    unfolding offered_def by (simp_all add: distinct_map_take) (auto dest: in_set_takeD)
  note select = select_unfold [OF safe limit out [unfolded o] offered_def, of expanded]
  show ?thesis
  proof (cases "int (length offered) = limit")
    case True
    with assms select have "sel = offered" by simp
    with offered limit show ?thesis unfolding offered_def [symmetric] by (intro exI [of _ offered] exI [of _ "[]"]) simp
  next
    case False
    with assms select obtain extras where extras:
      "collect_extras (map dc_repositoryId heads) (map dc_repositoryId offered)
         (map (\<lambda>row. (dc_publicId row, row)) heads) expanded (map dc_publicId heads) [] = Some extras"
      and sel: "sel = offered @ take (nat limit - length offered) (js_sort (compareDispatchCandidateRows lc) extras)"
      by (auto split: option.splits)
    define taken where "taken = take (nat limit - length offered) (js_sort (compareDispatchCandidateRows lc) extras)"
    from collect_extras_sound [OF extras] have e: "distinct (map dc_publicId extras)"
      "\<And>row. row \<in> set extras \<Longrightarrow> row \<in> set expanded \<and>
         dc_repositoryId row \<in> dc_repositoryId ` set offered \<and> dc_publicId row \<notin> dc_publicId ` set heads"
      by (simp_all del: set_take_subset)
    from e(1) have distinct_taken: "distinct (map dc_publicId taken)" by (simp add: taken_def distinct_map_take)
    have taken: "row \<in> set extras" if "row \<in> set taken" for row
      using that by (auto simp: taken_def dest: in_set_takeD)
    have apart: "dc_publicId ` set offered \<inter> dc_publicId ` set taken = {}"
    proof (rule equals0I)
      fix p
      assume "p \<in> dc_publicId ` set offered \<inter> dc_publicId ` set taken"
      then obtain row where "p \<in> dc_publicId ` set heads" "row \<in> set taken" "p = dc_publicId row"
        using image_mono [OF offered(2), of dc_publicId] by (metis (no_types, lifting) IntE imageE subsetD)
      with e(2) [OF taken] show False by simp
    qed
    have "sel = offered @ taken" using sel by (simp add: taken_def)
    moreover from this have "distinct (map dc_publicId sel)" using offered(1) distinct_taken apart by simp
    moreover have "length sel \<le> nat limit" using offered(3) sel by simp
    ultimately show ?thesis using limit e(2) [OF taken] unfolding offered_def [symmetric]
      by (intro exI [of _ offered] exI [of _ taken]) simp
  qed
qed

lemma select_total:
  assumes "is_safe_integer limit" "1 \<le> limit"
    and heads: "\<forall>row \<in> set heads. row_times_ok row" "distinct (map dc_repositoryId heads)" "distinct (map dc_publicId heads)"
    and expanded: "\<forall>row \<in> set expanded. row_times_ok row \<and> dc_repositoryId row \<in> dc_repositoryId ` set heads"
      "distinct (map dc_publicId expanded)"
      "\<forall>row \<in> set expanded. dc_publicId row \<in> dc_publicId ` set heads \<longrightarrow> row \<in> set heads"
  shows "selectFairDispatchCandidateRows lc expanded heads limit cursor \<noteq> None"
proof -
  have admit: "admit_heads heads [] [] [] = Some (map dc_repositoryId heads,
      map (\<lambda>row. (dc_publicId row, row)) heads, map dc_publicId heads)"
    using heads by (simp add: admit_heads_iff)
  have "\<exists>out. collect_extras (map dc_repositoryId heads) offered
      (map (\<lambda>row. (dc_publicId row, row)) heads) expanded (map dc_publicId heads) [] = Some out" for offered
    by (rule collect_extras_total) (use expanded heads(3) in \<open>auto simp: heads_by_id\<close>)
  then show ?thesis
    unfolding select_unfold [OF assms(1,2) admit refl] by (metis option.distinct(1) option.simps(5))
qed


subsection \<open>The plan\<close>

definition plan_input_ok :: "int \<Rightarrow> 'a EvaluatedDispatchCandidateRow_scheme list \<Rightarrow> bool" where
  "plan_input_ok limit rows \<longleftrightarrow> is_safe_integer limit \<and> 1 \<le> limit \<and>
     list_all evaluated_row_ok rows \<and> distinct (map dc_publicId rows)"

abbreviation eligible_groups where
  "eligible_groups lc rows \<equiv> sorted_groups (compareDispatchCandidateRows lc) (filter dc_eligible rows)"

lemma plan_unfold:
  assumes "plan_input_ok limit rows"
  shows "planFairEligibleDispatchCandidates lc limit cursor rows =
    (let headRows = group_heads (eligible_groups lc rows) in
     case selectFairDispatchCandidateRows lc (concat (map snd (eligible_groups lc rows))) headRows limit cursor of
       None \<Rightarrow> None
     | Some selected \<Rightarrow>
         (let offered = filter (\<lambda>row. dc_publicId row \<in> set (map dc_publicId headRows)) selected in
          Some \<lparr>cp_deferredPublicIds = map dc_publicId
                   (js_sort (compareDispatchCandidateRows lc) (filter (\<lambda>row. \<not> dc_eligible row) rows)),
                cp_nextRepositoryCursor = (if offered = [] then None else Some (dc_repositoryId (last offered))),
                cp_selected = selected\<rparr>))"
proof -
  from assms have "plan_scan rows [] [] [] =
      Some (group_rows (filter dc_eligible rows), filter (\<lambda>row. \<not> dc_eligible row) rows)"
    unfolding plan_scan_iff by (simp add: plan_input_ok_def group_rows_def list_all_iff)
  with assms show ?thesis
    unfolding planFairEligibleDispatchCandidates_def plan_input_ok_def sorted_groups_def Let_def by simp
qed

lemma plan_heads_facts:
  fixes lc :: "string \<Rightarrow> string \<Rightarrow> int" and rows :: "'a EvaluatedDispatchCandidateRow_scheme list"
  assumes "distinct (map dc_publicId rows)"
  defines "heads \<equiv> group_heads (eligible_groups lc rows)"
  shows "distinct (map dc_repositoryId heads)" "distinct (map dc_publicId heads)"
    "set heads \<subseteq> set (filter dc_eligible rows)"
proof -
  show repos: "distinct (map dc_repositoryId heads)"
    unfolding heads_def head_rows_repositories by (simp add: sorted_groups_keys)
  show subset: "set heads \<subseteq> set (filter dc_eligible rows)"
    unfolding heads_def by (rule head_rows_subset)
  from assms(1) have "inj_on dc_publicId (set rows)" by (simp add: distinct_map)
  then have "inj_on dc_publicId (set heads)"
    by (rule inj_on_subset) (use subset in auto)
  with repos show "distinct (map dc_publicId heads)" by (simp add: distinct_map)
qed

lemma plan_total:
  assumes "plan_input_ok limit rows"
  shows "planFairEligibleDispatchCandidates lc limit cursor rows \<noteq> None"
proof -
  let ?rows = "filter dc_eligible rows" and ?heads = "group_heads (eligible_groups lc rows)"
  let ?expanded = "concat (map snd (eligible_groups lc rows))"
  from assms have ok: "is_safe_integer limit" "1 \<le> limit" "distinct (map dc_publicId rows)"
    "\<And>row. row \<in> set rows \<Longrightarrow> row_times_ok row"
    by (auto simp: plan_input_ok_def list_all_iff evaluated_row_ok_def)
  note heads = plan_heads_facts [OF ok(3), of lc]
  have exp: "set ?expanded = set ?rows" by (rule expanded_rows(1))
  have "selectFairDispatchCandidateRows lc ?expanded ?heads limit cursor \<noteq> None"
  proof (rule select_total [OF ok(1,2)])
    show "\<forall>row \<in> set ?heads. row_times_ok row" using heads(3) ok(4) by auto
    have "dc_repositoryId ` set ?heads = fst ` set (eligible_groups lc rows)"
      by (metis head_rows_repositories list.set_map)
    then have "dc_repositoryId ` set ?heads = dc_repositoryId ` set ?rows"
      using sorted_groups_keys by metis
    then show "\<forall>row \<in> set ?expanded. row_times_ok row \<and> dc_repositoryId row \<in> dc_repositoryId ` set ?heads"
      unfolding exp using ok(4) by auto
    show "distinct (map dc_publicId ?expanded)"
      by (rule expanded_rows(2)) (simp add: ok(3) distinct_map_filter)
    show "\<forall>row \<in> set ?expanded. dc_publicId row \<in> dc_publicId ` set ?heads \<longrightarrow> row \<in> set ?heads"
      unfolding exp
    proof (intro ballI impI)
      fix row
      assume row: "row \<in> set ?rows" "dc_publicId row \<in> dc_publicId ` set ?heads"
      then obtain head where head: "head \<in> set ?heads" "dc_publicId head = dc_publicId row" by auto
      with heads(3) have "head \<in> set rows" by auto
      with row(1) head(2) ok(3) have "head = row" by (auto simp: distinct_map dest: inj_onD)
      with head(1) show "row \<in> set ?heads" by simp
    qed
  qed (rule heads(1) heads(2))+
  then show ?thesis unfolding plan_unfold [OF assms] by (auto simp: Let_def)
qed

lemma candidate_plan_total_aux:
  "planFairEligibleDispatchCandidates lc limit cursor rows \<noteq> None \<longleftrightarrow> plan_input_ok limit rows"
proof
  assume "planFairEligibleDispatchCandidates lc limit cursor rows \<noteq> None"
  then obtain out where "is_safe_integer limit" "1 \<le> limit" "plan_scan rows [] [] [] = Some out"
    by (auto simp: planFairEligibleDispatchCandidates_def split: if_splits option.splits)
  then show "plan_input_ok limit rows" by (auto simp: plan_scan_iff plan_input_ok_def list_all_iff)
qed (rule plan_total)

text \<open>
  C38. Planning never fails on a well-formed page: it answers \<open>null\<close> exactly when the limit is no
  positive safe integer, a time of a row is malformed or two rows share an identifier.
\<close>

theorem candidate_plan_total:
  "planFairEligibleDispatchCandidates lc limit cursor rows = None \<longleftrightarrow>
   \<not> (is_safe_integer limit \<and> 1 \<le> limit \<and> list_all evaluated_row_ok rows \<and> distinct (map dc_publicId rows))"
  using candidate_plan_total_aux [of lc limit cursor rows] by (auto simp: plan_input_ok_def)

lemma plan_contents:
  assumes "planFairEligibleDispatchCandidates lc limit cursor rows = Some plan"
  defines "heads \<equiv> group_heads (eligible_groups lc rows)"
  shows "\<exists>offered extras. offered = take (nat limit) (cyclic_heads lc heads cursor) \<and> 1 \<le> limit \<and>
    cp_selected plan = offered @ extras \<and> length (cp_selected plan) \<le> nat limit \<and>
    distinct (map dc_publicId (cp_selected plan)) \<and>
    cp_nextRepositoryCursor plan = (if offered = [] then None else Some (dc_repositoryId (last offered))) \<and>
    cp_deferredPublicIds plan = map dc_publicId
      (js_sort (compareDispatchCandidateRows lc) (filter (\<lambda>row. \<not> dc_eligible row) rows)) \<and>
    (\<forall>row \<in> set extras. row \<in> set (filter dc_eligible rows) \<and>
       dc_repositoryId row \<in> dc_repositoryId ` set offered)"
proof -
  have ok: "plan_input_ok limit rows" using assms(1) candidate_plan_total_aux [of lc limit cursor rows] by simp
  from assms(1) obtain selected where
    sel: "selectFairDispatchCandidateRows lc (concat (map snd (eligible_groups lc rows))) heads limit cursor = Some selected"
    unfolding plan_unfold [OF ok] heads_def by (auto simp: Let_def split: option.splits)
  from select_contents [OF this] obtain offered extras where
    o: "offered = take (nat limit) (cyclic_heads lc heads cursor)" and s: "selected = offered @ extras"
    and len: "length selected \<le> nat limit" "1 \<le> limit" and d: "distinct (map dc_publicId selected)"
    and e: "\<forall>row \<in> set extras. row \<in> set (concat (map snd (eligible_groups lc rows))) \<and>
       dc_repositoryId row \<in> dc_repositoryId ` set offered \<and> dc_publicId row \<notin> dc_publicId ` set heads"
    by blast
  have "set offered \<subseteq> set heads" unfolding o using cyclic_heads_subset by (fastforce dest: in_set_takeD)
  then have f: "filter (\<lambda>row. dc_publicId row \<in> set (map dc_publicId heads)) selected = offered"
    unfolding s using e by (auto simp: filter_id_conv filter_empty_conv)
  have "planFairEligibleDispatchCandidates lc limit cursor rows = Some \<lparr>cp_deferredPublicIds = map dc_publicId
       (js_sort (compareDispatchCandidateRows lc) (filter (\<lambda>row. \<not> dc_eligible row) rows)),
       cp_nextRepositoryCursor = (if offered = [] then None else Some (dc_repositoryId (last offered))),
       cp_selected = selected\<rparr>"
    unfolding plan_unfold [OF ok] Let_def heads_def [symmetric] sel option.case f ..
  with assms(1) have plan: "plan = \<lparr>cp_deferredPublicIds = map dc_publicId
       (js_sort (compareDispatchCandidateRows lc) (filter (\<lambda>row. \<not> dc_eligible row) rows)),
       cp_nextRepositoryCursor = (if offered = [] then None else Some (dc_repositoryId (last offered))),
       cp_selected = selected\<rparr>"
    by simp
  show ?thesis
    using e unfolding plan expanded_rows(1) o [symmetric]
    by (intro exI [of _ offered] exI [of _ extras]) (simp add: s [symmetric] len d)
qed


lemma offered_subset:
  "offered = take n (cyclic_heads lc heads cursor) \<Longrightarrow> set offered \<subseteq> set heads"
  using cyclic_heads_subset by (fastforce dest: in_set_takeD)

lemma plan_selected_eligible:
  assumes "planFairEligibleDispatchCandidates lc limit cursor rows = Some plan"
  shows "set (cp_selected plan) \<subseteq> set (filter dc_eligible rows)"
proof -
  have "plan_input_ok limit rows" using assms candidate_plan_total_aux [of lc limit cursor rows] by simp
  then have ids: "distinct (map dc_publicId rows)" by (simp add: plan_input_ok_def)
  from plan_contents [OF assms] obtain offered extras where
    o: "offered = take (nat limit) (cyclic_heads lc (group_heads (eligible_groups lc rows)) cursor)"
    and sel: "cp_selected plan = offered @ extras"
    and extras: "\<And>row. row \<in> set extras \<Longrightarrow> row \<in> set (filter dc_eligible rows)"
    by blast
  from offered_subset [OF o] plan_heads_facts(3) [OF ids, of lc] extras show ?thesis
    unfolding sel by auto
qed

text \<open>
  C31. Fairness of an offer. Every selected row is an eligible row of the page, no row is offered
  twice and never more than the limit; from every repository that is offered at all its oldest
  eligible row is among the selected, so nothing reaches behind a repository's head; every
  ineligible row, and only those, is deferred; and whenever some row is eligible some row is
  offered.
\<close>

theorem candidate_plan_fair:
  assumes "comparator lc"
    and "planFairEligibleDispatchCandidates lc limit cursor rows = Some plan"
  shows "set (cp_selected plan) \<subseteq> set (filter dc_eligible rows) \<and>
    distinct (map dc_publicId (cp_selected plan)) \<and> length (cp_selected plan) \<le> nat limit \<and>
    (\<forall>row \<in> set (cp_selected plan). \<exists>head \<in> set (cp_selected plan).
       dc_repositoryId head = dc_repositoryId row \<and>
       (\<forall>other \<in> set rows. dc_eligible other \<longrightarrow> dc_repositoryId other = dc_repositoryId row \<longrightarrow>
          dc_queuedAt head \<le> dc_queuedAt other)) \<and>
    set (cp_deferredPublicIds plan) = dc_publicId ` {row \<in> set rows. \<not> dc_eligible row} \<and>
    ((\<exists>row \<in> set rows. dc_eligible row) \<longrightarrow> cp_selected plan \<noteq> [])"
proof -
  let ?heads = "group_heads (eligible_groups lc rows)"
  have "plan_input_ok limit rows" using assms(2) candidate_plan_total_aux [of lc limit cursor rows] by simp
  then have ids: "distinct (map dc_publicId rows)" by (simp add: plan_input_ok_def)
  note heads = plan_heads_facts [OF ids, of lc]
  from plan_contents [OF assms(2)] obtain offered extras where
    o: "offered = take (nat limit) (cyclic_heads lc ?heads cursor)" and limit: "1 \<le> limit"
    and sel: "cp_selected plan = offered @ extras" and len: "length (cp_selected plan) \<le> nat limit"
    and d: "distinct (map dc_publicId (cp_selected plan))"
    and deferred: "cp_deferredPublicIds plan = map dc_publicId
      (js_sort (compareDispatchCandidateRows lc) (filter (\<lambda>row. \<not> dc_eligible row) rows))"
    and extras: "\<And>row. row \<in> set extras \<Longrightarrow> row \<in> set (filter dc_eligible rows) \<and>
       dc_repositoryId row \<in> dc_repositoryId ` set offered"
    by blast
  have oh: "set offered \<subseteq> set ?heads" by (rule offered_subset [OF o])
  have oldest: "dc_queuedAt head \<le> dc_queuedAt other"
    if head: "head \<in> set ?heads" and "other \<in> set rows" "dc_eligible other"
      "dc_repositoryId other = dc_repositoryId head" for head other
  proof -
    from that have "other \<in> set (filter dc_eligible rows)" by simp
    from head_of_repository [OF comparator_candidates [OF assms(1)] this]
    obtain h where h: "h \<in> set ?heads" "dc_repositoryId h = dc_repositoryId other"
      "compareDispatchCandidateRows lc h other \<le> 0" by blast
    with heads(1) head that(4) have "h = head" by (metis distinct_map inj_onD)
    with h(3) show ?thesis by (blast dest: compare_candidates_oldest)
  qed
  have "set (cp_selected plan) \<subseteq> set (filter dc_eligible rows)" by (rule plan_selected_eligible [OF assms(2)])
  moreover have "\<exists>head \<in> set (cp_selected plan). dc_repositoryId head = dc_repositoryId row \<and>
       (\<forall>other \<in> set rows. dc_eligible other \<longrightarrow> dc_repositoryId other = dc_repositoryId row \<longrightarrow>
          dc_queuedAt head \<le> dc_queuedAt other)" if "row \<in> set (cp_selected plan)" for row
  proof -
    from that have "dc_repositoryId row \<in> dc_repositoryId ` set offered"
      unfolding sel using extras by auto
    then obtain head where head: "head \<in> set offered" "dc_repositoryId head = dc_repositoryId row" by auto
    with oh have "head \<in> set ?heads" by auto
    from oldest [OF this] head show ?thesis unfolding sel by auto
  qed
  moreover have "cp_selected plan \<noteq> []" if "\<exists>row \<in> set rows. dc_eligible row"
  proof -
    from that obtain row where "row \<in> set (filter dc_eligible rows)" by auto
    from head_of_repository [OF comparator_candidates [OF assms(1)] this]
    have "cyclic_heads lc ?heads cursor \<noteq> []" by auto
    with limit show ?thesis unfolding sel o by simp
  qed
  moreover have "set (cp_deferredPublicIds plan) = dc_publicId ` {row \<in> set rows. \<not> dc_eligible row}"
    unfolding deferred by simp
  ultimately show ?thesis using d len by blast
qed

definition sample_row :: "string \<Rightarrow> string \<Rightarrow> int \<Rightarrow> bool \<Rightarrow> EvaluatedDispatchCandidateRow" where
  "sample_row pid repo t ok = \<lparr>dc_publicId = pid, dc_queuedAt = t, dc_repositoryId = repo,
     dc_candidateOrderAt = None, dc_candidateRotationAt = None, dc_eligible = ok\<rparr>"

definition sample_page :: "EvaluatedDispatchCandidateRow list" where
  "sample_page = [sample_row ''p1'' ''a'' 5 True, sample_row ''p2'' ''a'' 3 True, sample_row ''p3'' ''b'' 4 True,
     sample_row ''p4'' ''b'' 1 False]"

lemmas sample_page_eval = sample_page_def sample_row_def planFairEligibleDispatchCandidates_def
  selectFairDispatchCandidateRows_def cyclic_heads_def group_heads_def compareDispatchCandidateRows_def
  code_unit_compare_def guard_defs optional_time_invalid_def js_map_of_def Let_def

lemma sample_page_plan:
  "planFairEligibleDispatchCandidates code_unit_compare 1 (Some ''a'') sample_page =
     Some \<lparr>cp_deferredPublicIds = [''p4''], cp_nextRepositoryCursor = Some ''b'',
           cp_selected = [sample_row ''p3'' ''b'' 4 True]\<rparr>"
  by (simp add: sample_page_eval less_char_def)


theorem candidate_plan_fair_witness:
  "set [sample_row ''p3'' ''b'' 4 True] \<subseteq> set (filter dc_eligible sample_page)"
  using candidate_plan_fair [OF code_unit.comparator_axioms sample_page_plan] by simp

subsection \<open>Rotation of the repository cursor\<close>

definition eligible_repositories :: "'a EvaluatedDispatchCandidateRow_scheme list \<Rightarrow> string set" where
  "eligible_repositories rows = dc_repositoryId ` set (filter dc_eligible rows)"

definition offered_repositories where
  "offered_repositories lc limit rows cursor =
     (case planFairEligibleDispatchCandidates lc limit cursor rows of
        None \<Rightarrow> {} | Some plan \<Rightarrow> dc_repositoryId ` set (cp_selected plan))"

text \<open>The cursor the runner row keeps for the next heartbeat.\<close>

definition next_cursor where
  "next_cursor lc limit rows cursor =
     (case planFairEligibleDispatchCandidates lc limit cursor rows of
        None \<Rightarrow> cursor
      | Some plan \<Rightarrow>
          (case cp_nextRepositoryCursor plan of None \<Rightarrow> cursor | Some next \<Rightarrow> Some next))"

text \<open>Repositories still ahead in the current cycle; a cursor past the end starts a new one.\<close>

definition ahead :: "string set \<Rightarrow> string option \<Rightarrow> string \<Rightarrow> bool" where
  "ahead R cursor r \<longleftrightarrow> (case cursor of None \<Rightarrow> True | Some c \<Rightarrow> c < r \<or> \<not> (\<exists>q \<in> R. c < q))"

lemma dropWhile_sorted:
  "sorted_wrt (\<lambda>a b. f a \<le> f b) xs \<Longrightarrow> set (dropWhile (\<lambda>x. \<not> f x > (c :: 'b :: linorder)) xs) = {x \<in> set xs. c < f x}"
  by (induction xs) force+

lemma sorted_distinct_strict:
  "sorted_wrt (\<lambda>a b. f a \<le> f b) xs \<Longrightarrow> distinct (map f xs) \<Longrightarrow>
   sorted_wrt (\<lambda>a b. f a < (f b :: 'b :: linorder)) xs"
  by (induction xs) (auto simp: less_le image_iff)

lemma sorted_prefix:
  assumes "sorted_wrt (\<lambda>a b. f a < f b) xs" "x \<in> set xs" "take n xs \<noteq> []" "f x \<le> f (last (take n xs))"
  shows "x \<in> set (take n (xs :: 'a list)) \<or> (f :: 'a \<Rightarrow> 'b :: linorder) x < f x"
proof (rule disjCI)
  have xs: "xs = take n xs @ drop n xs" by simp
  assume "\<not> f x < f x"
  show "x \<in> set (take n xs)"
  proof (rule ccontr)
    assume "x \<notin> set (take n xs)"
    with assms(2) have "x \<in> set (drop n xs)" by (metis UnE set_append xs)
    moreover have "sorted_wrt (\<lambda>a b. f a < f b) (take n xs @ drop n xs)" using assms(1) by simp
    ultimately have "f (last (take n xs)) < f x"
      using assms(3) unfolding sorted_wrt_append by (meson last_in_set)
    with assms(4) show False by simp
  qed
qed

lemma cyclic_heads_sorted:
  assumes order: "\<And>a b. lc a b \<le> 0 \<longleftrightarrow> a \<le> b" and "distinct (map dc_repositoryId heads)"
  shows "sorted_wrt (\<lambda>a b. dc_repositoryId a < dc_repositoryId b) (cyclic_heads lc heads cursor)"
    and "set (cyclic_heads lc heads cursor) = {h \<in> set heads. ahead (dc_repositoryId ` set heads) cursor (dc_repositoryId h)}"
proof -
  let ?ordered = "js_sort (\<lambda>l r. lc (dc_repositoryId l) (dc_repositoryId r)) heads"
  have "comparator (\<lambda>l r. lc (dc_repositoryId l) (dc_repositoryId r))"
    by (rule comparator.intro) (auto simp: order)
  from comparator.sorted_js_sort [OF this, of heads]
  have le: "sorted_wrt (\<lambda>a b. dc_repositoryId a \<le> dc_repositoryId b) ?ordered" by (simp add: order)
  moreover have "distinct (map dc_repositoryId ?ordered)" using assms(2) by simp
  ultimately have strict: "sorted_wrt (\<lambda>a b. dc_repositoryId a < dc_repositoryId b) ?ordered"
    by (rule sorted_distinct_strict)
  then have drop: "sorted_wrt (\<lambda>a b. dc_repositoryId a < dc_repositoryId b) (dropWhile P ?ordered)" for P
    by (metis sorted_wrt_append takeWhile_dropWhile_id)
  show "sorted_wrt (\<lambda>a b. dc_repositoryId a < dc_repositoryId b) (cyclic_heads lc heads cursor)"
  proof (cases cursor)
    case None
    with strict show ?thesis by (simp add: cyclic_heads_def)
  next
    case (Some c)
    have "cyclic_heads lc heads cursor = ?ordered \<or>
        cyclic_heads lc heads cursor = dropWhile (\<lambda>row. \<not> dc_repositoryId row > c) ?ordered"
      unfolding cyclic_heads_def Let_def Some by (simp split: list.split)
    with strict drop show ?thesis by metis
  qed
  show "set (cyclic_heads lc heads cursor) = {h \<in> set heads. ahead (dc_repositoryId ` set heads) cursor (dc_repositoryId h)}"
  proof (cases cursor)
    case None
    then show ?thesis by (simp add: cyclic_heads_def ahead_def)
  next
    case (Some c)
    have d: "set (dropWhile (\<lambda>row. \<not> dc_repositoryId row > c) ?ordered) = {h \<in> set heads. c < dc_repositoryId h}"
      using dropWhile_sorted [OF le, of c] by simp
    show ?thesis
    proof (cases "dropWhile (\<lambda>row. \<not> dc_repositoryId row > c) ?ordered")
      case Nil
      with d have "\<not> (\<exists>h \<in> set heads. c < dc_repositoryId h)" by auto
      moreover have "cyclic_heads lc heads cursor = ?ordered"
        unfolding cyclic_heads_def Let_def Some by (simp only: Nil list.case option.case)
      ultimately show ?thesis using Some by (simp add: ahead_def)
    next
      case (Cons h tail)
      then have "h \<in> {h \<in> set heads. c < dc_repositoryId h}" unfolding d [symmetric] by simp
      moreover have "cyclic_heads lc heads cursor = dropWhile (\<lambda>row. \<not> dc_repositoryId row > c) ?ordered"
        using Cons Some by (simp add: cyclic_heads_def)
      ultimately show ?thesis using d Some by (auto simp: ahead_def)
    qed
  qed
qed


lemma plan_round:
  assumes order: "\<And>a b. lc a b \<le> 0 \<longleftrightarrow> a \<le> b" and ok: "plan_input_ok limit rows"
    and nonempty: "eligible_repositories rows \<noteq> {}"
  shows "\<exists>n \<in> eligible_repositories rows. next_cursor lc limit rows cursor = Some n \<and>
    ahead (eligible_repositories rows) cursor n \<and>
    (\<forall>r \<in> eligible_repositories rows. ahead (eligible_repositories rows) cursor r \<and> r \<le> n \<longrightarrow>
       r \<in> offered_repositories lc limit rows cursor)"
proof -
  let ?heads = "group_heads (eligible_groups lc rows)"
  let ?cyclic = "cyclic_heads lc ?heads cursor"
  from ok have ids: "distinct (map dc_publicId rows)" by (simp add: plan_input_ok_def)
  note heads = plan_heads_facts [OF ids, of lc]
  have repos: "dc_repositoryId ` set ?heads = eligible_repositories rows"
    by (metis eligible_repositories_def head_rows_repositories list.set_map sorted_groups_keys)
  from plan_total [OF ok] obtain plan where plan: "planFairEligibleDispatchCandidates lc limit cursor rows = Some plan" by auto
  from plan_contents [OF plan] obtain offered extras where
    o: "offered = take (nat limit) ?cyclic" and limit: "1 \<le> limit" and sel: "cp_selected plan = offered @ extras"
    and "cp_nextRepositoryCursor plan = (if offered = [] then None else Some (dc_repositoryId (last offered)))"
    by blast
  moreover from nonempty repos have "?heads \<noteq> []" by auto
  with o limit have ne: "offered \<noteq> []" by simp
  ultimately have nextc: "next_cursor lc limit rows cursor = Some (dc_repositoryId (last offered))"
    by (simp add: next_cursor_def plan)
  note cyc = cyclic_heads_sorted [OF order heads(1), of cursor, unfolded repos]
  have "last offered \<in> set ?cyclic" using ne unfolding o by (meson in_set_takeD last_in_set)
  then have last: "dc_repositoryId (last offered) \<in> eligible_repositories rows"
    "ahead (eligible_repositories rows) cursor (dc_repositoryId (last offered))"
    unfolding cyc(2) repos [symmetric] by auto
  have "r \<in> offered_repositories lc limit rows cursor"
    if "r \<in> eligible_repositories rows" "ahead (eligible_repositories rows) cursor r"
      "r \<le> dc_repositoryId (last offered)" for r
  proof -
    from that(1) obtain h where h: "h \<in> set ?heads" "dc_repositoryId h = r" unfolding repos [symmetric] by auto
    with that(2) have "h \<in> set ?cyclic" unfolding cyc(2) by simp
    from sorted_prefix [OF cyc(1) this, of "nat limit"] ne that(3) h(2) have "h \<in> set offered"
      unfolding o by simp
    with h(2) show ?thesis by (auto simp: offered_repositories_def plan sel)
  qed
  with last nextc show ?thesis by blast
qed

lemma card_above_less:
  assumes "finite R" "n \<in> R" "c < (n :: 'b :: linorder)" "P n"
  shows "card {q \<in> R. n < q \<and> P q} < card {q \<in> R. c < q \<and> P q}"
proof (rule psubset_card_mono)
  show "finite {q \<in> R. c < q \<and> P q}" using assms(1) by simp
  have "{q \<in> R. n < q \<and> P q} \<subseteq> {q \<in> R. c < q \<and> P q}" using assms(3) by (auto intro: less_trans)
  moreover have "n \<in> {q \<in> R. c < q \<and> P q}" "n \<notin> {q \<in> R. n < q \<and> P q}" using assms by auto
  ultimately show "{q \<in> R. n < q \<and> P q} \<subset> {q \<in> R. c < q \<and> P q}" by (metis psubsetI)
qed

text \<open>One round moves a cursor that has something ahead of it, or starts a new cycle.\<close>

lemma rounds_reach_ahead:
  assumes order: "\<And>a b. lc a b \<le> 0 \<longleftrightarrow> a \<le> b" and ok: "plan_input_ok limit rows"
    and r: "r \<in> eligible_repositories rows"
  shows "c < r \<Longrightarrow>
    \<exists>k < card {q \<in> eligible_repositories rows. c < q \<and> q \<le> r}.
      r \<in> offered_repositories lc limit rows ((next_cursor lc limit rows ^^ k) (Some c))"
proof (induction "card {q \<in> eligible_repositories rows. c < q \<and> q \<le> r}" arbitrary: c rule: less_induct)
  case less
  let ?R = "eligible_repositories rows"
  have fin: "finite ?R" by (simp add: eligible_repositories_def)
  from plan_round [OF order ok, of "Some c"] r obtain n where n: "n \<in> ?R"
    "next_cursor lc limit rows (Some c) = Some n" "ahead ?R (Some c) n"
    "\<And>q. q \<in> ?R \<Longrightarrow> ahead ?R (Some c) q \<Longrightarrow> q \<le> n \<Longrightarrow> q \<in> offered_repositories lc limit rows (Some c)"
    by blast
  from less.prems r n(3) have "c < n" by (auto simp: ahead_def)
  have pos: "0 < card {q \<in> ?R. c < q \<and> q \<le> r}"
    using r less.prems fin by (auto simp: card_gt_0_iff)
  show ?case
  proof (cases "r \<le> n")
    case True
    with n(4) [OF r] less.prems have "r \<in> offered_repositories lc limit rows (Some c)" by (simp add: ahead_def)
    with pos show ?thesis by (intro exI [of _ 0]) simp
  next
    case False
    then have "n < r" by simp
    with \<open>c < n\<close> n(1) have smaller: "card {q \<in> ?R. n < q \<and> q \<le> r} < card {q \<in> ?R. c < q \<and> q \<le> r}"
      by (intro card_above_less fin) simp_all
    from less.hyps [OF this \<open>n < r\<close>] obtain k where "k < card {q \<in> ?R. n < q \<and> q \<le> r}"
      "r \<in> offered_repositories lc limit rows ((next_cursor lc limit rows ^^ k) (Some n))" by blast
    with smaller n(2) show ?thesis
      by (intro exI [of _ "Suc k"]) (simp add: funpow_Suc_right del: funpow.simps)
  qed
qed

lemma rounds_reach_fresh:
  assumes order: "\<And>a b. lc a b \<le> 0 \<longleftrightarrow> a \<le> b" and ok: "plan_input_ok limit rows"
    and r: "r \<in> eligible_repositories rows"
    and fresh: "\<And>q. q \<in> eligible_repositories rows \<Longrightarrow> ahead (eligible_repositories rows) cursor q"
  shows "\<exists>k < card (eligible_repositories rows).
    r \<in> offered_repositories lc limit rows ((next_cursor lc limit rows ^^ k) cursor)"
proof -
  let ?R = "eligible_repositories rows"
  have fin: "finite ?R" by (simp add: eligible_repositories_def)
  from plan_round [OF order ok, of cursor] r obtain n where n: "n \<in> ?R" "next_cursor lc limit rows cursor = Some n"
    "\<And>q. q \<in> ?R \<Longrightarrow> ahead ?R cursor q \<Longrightarrow> q \<le> n \<Longrightarrow> q \<in> offered_repositories lc limit rows cursor"
    by blast
  show ?thesis
  proof (cases "r \<le> n")
    case True
    from n(3) [OF r fresh [OF r] True] r fin show ?thesis by (intro exI [of _ 0]) (auto simp: card_gt_0_iff)
  next
    case False
    then have "n < r" by simp
    from rounds_reach_ahead [OF order ok r this] obtain k where k: "k < card {q \<in> ?R. n < q \<and> q \<le> r}"
      "r \<in> offered_repositories lc limit rows ((next_cursor lc limit rows ^^ k) (Some n))" by blast
    have "{q \<in> ?R. n < q \<and> q \<le> r} \<subset> ?R" using n(1) by auto
    then have "card {q \<in> ?R. n < q \<and> q \<le> r} < card ?R" by (rule psubset_card_mono [OF fin])
    with k n(2) show ?thesis
      by (intro exI [of _ "Suc k"]) (simp add: funpow_Suc_right del: funpow.simps)
  qed
qed

lemma rounds_reach_any:
  assumes order: "\<And>a b. lc a b \<le> 0 \<longleftrightarrow> a \<le> b" and ok: "plan_input_ok limit rows"
    and r: "r \<in> eligible_repositories rows"
  shows "\<exists>k < card {q \<in> eligible_repositories rows. c < q} + card (eligible_repositories rows).
    r \<in> offered_repositories lc limit rows ((next_cursor lc limit rows ^^ k) (Some c))"
proof (induction "card {q \<in> eligible_repositories rows. c < q}" arbitrary: c rule: less_induct)
  case less
  let ?R = "eligible_repositories rows"
  have fin: "finite ?R" by (simp add: eligible_repositories_def)
  show ?case
  proof (cases "\<exists>q \<in> ?R. c < q")
    case False
    then have "\<And>q. q \<in> ?R \<Longrightarrow> ahead ?R (Some c) q" by (auto simp: ahead_def)
    from rounds_reach_fresh [OF order ok r this] show ?thesis by (meson trans_less_add2)
  next
    case True
    from plan_round [OF order ok, of "Some c"] r obtain n where n: "n \<in> ?R"
      "next_cursor lc limit rows (Some c) = Some n" "ahead ?R (Some c) n" by blast
    with True have "c < n" by (auto simp: ahead_def)
    with n(1) have smaller: "card {q \<in> ?R. n < q} < card {q \<in> ?R. c < q}"
      using card_above_less [OF fin, of n c "\<lambda>q. True"] by simp
    from less.hyps [OF this] obtain k where "k < card {q \<in> ?R. n < q} + card ?R"
      "r \<in> offered_repositories lc limit rows ((next_cursor lc limit rows ^^ k) (Some n))" by blast
    with smaller n(2) show ?thesis
      by (intro exI [of _ "Suc k"]) (simp add: funpow_Suc_right del: funpow.simps)
  qed
qed




lemma expansion_bound: "1 \<le> n \<Longrightarrow> n < limit \<Longrightarrow> limit \<le> 32 \<Longrightarrow> (n :: int) * (limit - n + 1) \<le> 512"
proof -
  assume "1 \<le> n" "n < limit" "limit \<le> 32"
  then have "n * (limit - n + 1) \<le> n * (33 - n)" by (intro mult_left_mono) auto
  moreover have "0 \<le> (2 * n - 33) * (2 * n - 33)" by simp
  then have "4 * (n * (33 - n)) \<le> 33 * 33" by (simp add: algebra_simps)
  ultimately show ?thesis by linarith
qed

text \<open>
  The scan of a heartbeat is bounded and long enough: for the capacities a runner may have,
  every nonempty repository contributes at least two rows, the repositories together can fill the
  response, and no heartbeat evaluates more than 512 rows.
\<close>

theorem scan_budget:
  assumes "1 \<le> n" and "n \<le> 128" and "1 \<le> limit" and "limit \<le> 32"
  shows "2 \<le> dispatchCandidateScanTake n limit \<and>
    limit \<le> n * dispatchCandidateScanTake n limit \<and>
    n * dispatchCandidateScanTake n limit \<le> MAX_CANDIDATE_EVALUATIONS_PER_HEARTBEAT"
proof -
  have safe: "is_safe_integer n" "is_safe_integer limit" using assms by (simp_all add: guard_defs)
  let ?e = "dispatchCandidateExpansionTake n limit"
  have e: "?e = (if n \<ge> limit then 0 else limit - n + 1)"
    using safe assms by (simp add: dispatchCandidateExpansionTake_def)
  have take: "dispatchCandidateScanTake n limit = max 2 (max ?e (512 div n))"
    using safe assms by (simp add: dispatchCandidateScanTake_def MAX_CANDIDATE_EVALUATIONS_PER_HEARTBEAT_def)
  have "n * ?e \<le> 512"
  proof (cases "n < limit")
    case True
    with expansion_bound [OF assms(1) True assms(4)] show ?thesis by (simp add: e)
  qed (simp add: e)
  moreover have "n * (512 div n) \<le> 512"
    using assms(1) mult_div_mod_eq [of n 512] pos_mod_sign [of n 512] by linarith
  moreover have "n * 2 \<le> 512" using assms(2) by simp
  ultimately have "n * dispatchCandidateScanTake n limit \<le> 512" unfolding take by (simp add: max_def)
  moreover have "limit \<le> n * dispatchCandidateScanTake n limit"
  proof -
    have "512 - n < n * (512 div n)"
      using assms(1) mult_div_mod_eq [of n 512] pos_mod_bound [of n 512] by linarith
    moreover have "n * (512 div n) \<le> n * dispatchCandidateScanTake n limit"
      unfolding take using assms(1) by (intro mult_left_mono) auto
    ultimately show ?thesis using assms by linarith
  qed
  ultimately show ?thesis by (simp add: take MAX_CANDIDATE_EVALUATIONS_PER_HEARTBEAT_def)
qed

theorem scan_budget_witness: "100 * dispatchCandidateScanTake 100 4 \<le> MAX_CANDIDATE_EVALUATIONS_PER_HEARTBEAT"
  using scan_budget [of 100 4] by simp

text \<open>
  Rotation touches only rows that were deferred in a page cut short, and lets each rest for the
  cooldown after its last move: no eligible row, selected or not, is ever moved back.
\<close>

theorem rotation_only_deferred:
  assumes "planFairEligibleDispatchCandidates lc limit cursor rows = Some plan"
    and "candidateRowsToRotate cooldown (cp_deferredPublicIds plan) maximum now rows truncated = Some rotated"
  shows "set rotated \<subseteq> set (filter (\<lambda>row. \<not> dc_eligible row) rows) \<and>
    set rotated \<inter> set (cp_selected plan) = {} \<and>
    (\<forall>row \<in> set rotated. dc_repositoryId row \<in> set truncated \<and>
       (\<forall>at. dc_candidateRotationAt row = Some at \<longrightarrow> at + cooldown \<le> now))"
proof -
  have ok: "plan_input_ok limit rows" using assms(1) candidate_plan_total_aux [of lc limit cursor rows] by simp
  from plan_contents [OF assms(1)] have deferred: "set (cp_deferredPublicIds plan) = dc_publicId ` {row \<in> set rows. \<not> dc_eligible row}"
    by auto
  have inel: "\<not> dc_eligible row" if "row \<in> set rotated" for row
  proof -
    from that assms(2) have "row \<in> set rows" "dc_publicId row \<in> set (cp_deferredPublicIds plan)"
      by (auto simp: candidateRowsToRotate_def Let_def split: if_splits)
    with deferred ok show ?thesis by (auto simp: plan_input_ok_def distinct_map dest: inj_onD)
  qed
  have rot: "set rotated \<subseteq> set rows" "\<forall>row \<in> set rotated. dc_repositoryId row \<in> set truncated \<and>
       (\<forall>at. dc_candidateRotationAt row = Some at \<longrightarrow> at + cooldown \<le> now)"
    using assms(2) by (auto simp: candidateRowsToRotate_def Let_def split: if_splits option.splits)
  have sel: "set (cp_selected plan) \<subseteq> set (filter dc_eligible rows)" by (rule plan_selected_eligible [OF assms(1)])
  have "set rotated \<inter> set (cp_selected plan) = {}" using sel inel by auto
  moreover have "set rotated \<subseteq> set (filter (\<lambda>row. \<not> dc_eligible row) rows)" using rot(1) inel by auto
  ultimately show ?thesis using rot(2) by blast
qed

theorem rotation_only_deferred_witness:
  "set [sample_row ''p4'' ''b'' 1 False] \<inter> {sample_row ''p3'' ''b'' 4 True} = {}"
proof -
  have "candidateRowsToRotate 60000 [''p4''] 4 100000 sample_page [''b''] = Some [sample_row ''p4'' ''b'' 1 False]"
    by (simp add: candidateRowsToRotate_def sample_page_def sample_row_def guard_defs js_set_def)
  with rotation_only_deferred [OF sample_page_plan, of 60000 4 100000 "[''b'']"] show ?thesis by simp
qed

end
