(* ===== verification/Identifiers.thy ===== *)
theory Identifiers
  imports Prelude
begin

text \<open>
  The identifier schemas of \<open>packages/task-domain/src/identifiers.ts\<close> as predicates over ASCII
  text: each regular expression is written out as its prefix, its length and its alphabet.
\<close>

definition char_between :: "char \<Rightarrow> char \<Rightarrow> char \<Rightarrow> bool" where
  "char_between low high c \<longleftrightarrow> (of_char low :: nat) \<le> of_char c \<and> (of_char c :: nat) \<le> of_char high"

text \<open>\<open>[0-9A-HJKMNP-TV-Z]\<close>, \<open>[A-Za-z0-9_-]\<close>, \<open>[a-z0-9_-]\<close> and \<open>[A-Z0-9]\<close>.\<close>

definition is_crockford :: "char \<Rightarrow> bool" where
  "is_crockford c \<longleftrightarrow> is_digit c \<or> char_between CHR ''A'' CHR ''H'' c \<or> c = CHR ''J'' \<or> c = CHR ''K'' \<or>
     c = CHR ''M'' \<or> c = CHR ''N'' \<or> char_between CHR ''P'' CHR ''T'' c \<or> char_between CHR ''V'' CHR ''Z'' c"

definition is_base64url :: "char \<Rightarrow> bool" where
  "is_base64url c \<longleftrightarrow> is_digit c \<or> char_between CHR ''A'' CHR ''Z'' c \<or> char_between CHR ''a'' CHR ''z'' c \<or>
     c = CHR ''_'' \<or> c = CHR ''-''"

definition is_opaque :: "char \<Rightarrow> bool" where
  "is_opaque c \<longleftrightarrow> is_digit c \<or> char_between CHR ''a'' CHR ''z'' c \<or> c = CHR ''_'' \<or> c = CHR ''-''"

definition is_key_char :: "char \<Rightarrow> bool" where
  "is_key_char c \<longleftrightarrow> is_digit c \<or> char_between CHR ''A'' CHR ''Z'' c"

definition has_prefix :: "string \<Rightarrow> string \<Rightarrow> bool" where
  "has_prefix prefix s \<longleftrightarrow> take (length prefix) s = prefix"

definition publicId_matches :: "string \<Rightarrow> string \<Rightarrow> bool" where
  "publicId_matches prefix s \<longleftrightarrow> has_prefix (prefix @ ''_'') s \<and> length s = length prefix + 27 \<and>
     list_all is_crockford (drop (length prefix + 1) s)"

definition opaqueDispatchId :: "string \<Rightarrow> string \<Rightarrow> bool" where
  "opaqueDispatchId prefix s \<longleftrightarrow> 12 \<le> length s \<and> length s \<le> 128 \<and> has_prefix (prefix @ ''_'') s \<and>
     length prefix + 1 < length s \<and> list_all is_opaque (drop (length prefix + 1) s)"

definition epochMsSchema :: "int \<Rightarrow> bool" where
  "epochMsSchema n \<longleftrightarrow> 0 \<le> n \<and> n \<le> MAX_SAFE_INTEGER"

definition generationSchema :: "int \<Rightarrow> bool" where
  "generationSchema n \<longleftrightarrow> 0 \<le> n \<and> n \<le> MAX_SAFE_INTEGER"

definition positiveGenerationSchema :: "int \<Rightarrow> bool" where
  "positiveGenerationSchema n \<longleftrightarrow> generationSchema n \<and> 1 \<le> n"

abbreviation taskPublicIdSchema :: "string \<Rightarrow> bool" where "taskPublicIdSchema \<equiv> publicId_matches ''tsk''"
abbreviation operationIdSchema :: "string \<Rightarrow> bool" where "operationIdSchema \<equiv> publicId_matches ''op''"
abbreviation dispatchIdSchema :: "string \<Rightarrow> bool" where "dispatchIdSchema \<equiv> opaqueDispatchId ''run''"

definition taskKeyPrefixSchema :: "string \<Rightarrow> bool" where
  "taskKeyPrefixSchema s \<longleftrightarrow> 2 \<le> length s \<and> length s \<le> 8 \<and>
     char_between CHR ''A'' CHR ''Z'' (hd s) \<and> list_all is_key_char (tl s)"

text \<open>A key is a prefix, a hyphen and seven Crockford characters; no prefix holds a hyphen.\<close>

definition taskKeySchema :: "string \<Rightarrow> bool" where
  "taskKeySchema s \<longleftrightarrow> 8 < length s \<and>
     (let n = length s - 8 in
      taskKeyPrefixSchema (take n s) \<and> s ! n = CHR ''-'' \<and> list_all is_crockford (drop (n + 1) s))"

lemma publicId_prefix:
  "publicId_matches p s \<Longrightarrow> publicId_matches q s \<Longrightarrow> length p = length q \<Longrightarrow> p = q"
  by (auto simp: publicId_matches_def has_prefix_def)

lemma publicId_same_length:
  "publicId_matches p s \<Longrightarrow> publicId_matches q s \<Longrightarrow> p = q"
  using publicId_prefix [of p s q] by (simp add: publicId_matches_def)

end
