(* ===== verification/Projection.thy ===== *)
theory Projection
  imports Identifiers
begin

text \<open>
  The workspace projection heads of \<open>apps/web/convex/hraProjection.ts\<close>: one global revision and a
  watermark per task view, read from rows of two generations, advanced by every semantic write,
  and the invalidation log the advance appends to. A thrown error, which rolls the mutation
  back, is \<open>None\<close>.
\<close>

definition INITIAL_WORKSPACE_PROJECTION_REVISION :: int where "INITIAL_WORKSPACE_PROJECTION_REVISION = 1"

datatype WorkspaceTaskView =
  WV_all | WV_ready | WV_blocked | WV_deferred | WV_attention | WV_assigned | WV_review

definition workspaceTaskViewValues :: "WorkspaceTaskView list" where
  "workspaceTaskViewValues = [WV_all, WV_ready, WV_blocked, WV_deferred, WV_attention, WV_assigned, WV_review]"

type_synonym WorkspaceTaskViewRevisions = "WorkspaceTaskView \<Rightarrow> int"

lemma all_views [simp]: "v \<in> set workspaceTaskViewValues"
  by (cases v) (simp_all add: workspaceTaskViewValues_def)

lemma length_views [simp]: "length workspaceTaskViewValues = 7"
  by (simp add: workspaceTaskViewValues_def)

record WorkspaceProjectionHeads =
  ph_projectionRevision :: int
  ph_taskViewRevisions :: WorkspaceTaskViewRevisions

datatype WorkspaceProjectionImpact =
    WI_workspace
  | WI_task string "WorkspaceTaskView list" bool
  | WI_run string string "WorkspaceTaskView list" bool

record PersistedWorkspaceProjectionHeads =
  pp_revision :: int
  pp_taskListRevision :: "int option"
  pp_taskViewRevisions :: "(WorkspaceTaskView \<Rightarrow> int) option"

definition requireProjectionRevision :: "int \<Rightarrow> int option" where
  "requireProjectionRevision value =
     (if \<not> is_safe_integer value \<or> value < INITIAL_WORKSPACE_PROJECTION_REVISION then None else Some value)"

definition allTaskViewRevisions :: "int \<Rightarrow> WorkspaceTaskViewRevisions" where
  "allTaskViewRevisions revision = (\<lambda>view. revision)"

definition normalizeTaskViews :: "WorkspaceTaskView list \<Rightarrow> WorkspaceTaskView list option" where
  "normalizeTaskViews views =
     (if length views < 1 \<or> length views > length workspaceTaskViewValues then None
      else if \<not> distinct views then None
      else Some (filter (\<lambda>view. view \<in> set views) workspaceTaskViewValues))"

fun validateProjectionImpact :: "WorkspaceProjectionImpact \<Rightarrow> WorkspaceProjectionImpact option" where
  "validateProjectionImpact WI_workspace = Some WI_workspace"
| "validateProjectionImpact (WI_task taskId views structure) =
     (if \<not> taskPublicIdSchema taskId then None
      else case normalizeTaskViews views of
        None \<Rightarrow> None | Some normalized \<Rightarrow> Some (WI_task taskId normalized structure))"
| "validateProjectionImpact (WI_run taskId runId views structure) =
     (if \<not> taskPublicIdSchema taskId then None
      else case normalizeTaskViews views of
        None \<Rightarrow> None
      | Some normalized \<Rightarrow>
          (if \<not> dispatchIdSchema runId then None else Some (WI_run taskId runId normalized structure)))"

definition normalizeWorkspaceProjectionHeads ::
  "PersistedWorkspaceProjectionHeads option \<Rightarrow> WorkspaceProjectionHeads option" where
  "normalizeWorkspaceProjectionHeads current =
     (case current of
        None \<Rightarrow> Some \<lparr>ph_projectionRevision = INITIAL_WORKSPACE_PROJECTION_REVISION,
          ph_taskViewRevisions = allTaskViewRevisions INITIAL_WORKSPACE_PROJECTION_REVISION\<rparr>
      | Some cur \<Rightarrow>
          (case requireProjectionRevision (pp_revision cur) of
             None \<Rightarrow> None
           | Some projectionRevision \<Rightarrow>
               (case requireProjectionRevision
                       (case pp_taskListRevision cur of None \<Rightarrow> projectionRevision | Some r \<Rightarrow> r) of
                  None \<Rightarrow> None
                | Some legacyRevision \<Rightarrow>
                    (let views = (case pp_taskViewRevisions cur of
                         None \<Rightarrow> Some (allTaskViewRevisions legacyRevision)
                       | Some rs \<Rightarrow>
                           (if list_all (\<lambda>view. requireProjectionRevision (rs view) \<noteq> None) workspaceTaskViewValues
                            then Some rs else None)) in
                     case views of
                       None \<Rightarrow> None
                     | Some taskViewRevisions \<Rightarrow>
                         (if legacyRevision > projectionRevision \<or>
                             list_ex (\<lambda>view. taskViewRevisions view > projectionRevision) workspaceTaskViewValues
                          then None
                          else Some \<lparr>ph_projectionRevision = projectionRevision,
                                     ph_taskViewRevisions = taskViewRevisions\<rparr>)))))"

fun affected_views :: "WorkspaceProjectionImpact \<Rightarrow> WorkspaceTaskView list" where
  "affected_views WI_workspace = workspaceTaskViewValues"
| "affected_views (WI_task taskId views structure) = (if structure then views else [])"
| "affected_views (WI_run taskId runId views structure) = (if structure then views else [])"

definition nextWorkspaceProjectionHeads ::
  "PersistedWorkspaceProjectionHeads option \<Rightarrow> WorkspaceProjectionImpact \<Rightarrow> WorkspaceProjectionHeads option" where
  "nextWorkspaceProjectionHeads current rawImpact =
     (case normalizeWorkspaceProjectionHeads current of
        None \<Rightarrow> None
      | Some normalized \<Rightarrow>
          (case validateProjectionImpact rawImpact of
             None \<Rightarrow> None
           | Some impact \<Rightarrow>
               (case requireProjectionRevision (ph_projectionRevision normalized + 1) of
                  None \<Rightarrow> None
                | Some projectionRevision \<Rightarrow>
                    Some \<lparr>ph_projectionRevision = projectionRevision,
                          ph_taskViewRevisions = foldl (\<lambda>rs view. rs(view := projectionRevision))
                            (ph_taskViewRevisions normalized) (affected_views impact)\<rparr>)))"

subsection \<open>The transactional writer\<close>

record HeadRow = PersistedWorkspaceProjectionHeads +
  hr_organizationId :: nat
  hr_workspacePublicId :: string
  hr_lastSemanticAt :: int

record Invalidation =
  iv_organizationId :: nat
  iv_workspaceId :: nat
  iv_workspacePublicId :: string
  iv_projectionRevision :: int
  iv_impact :: WorkspaceProjectionImpact
  iv_createdAt :: int

text \<open>The index \<open>by_workspace\<close> has at most one row of a workspace: the head table is a map.\<close>

record ProjectionStore =
  ps_heads :: "nat \<Rightarrow> HeadRow option"
  ps_invalidations :: "Invalidation list"

definition persisted_of :: "HeadRow \<Rightarrow> PersistedWorkspaceProjectionHeads" where
  "persisted_of row = \<lparr>pp_revision = pp_revision row, pp_taskListRevision = pp_taskListRevision row,
     pp_taskViewRevisions = pp_taskViewRevisions row\<rparr>"

definition advanceWorkspaceProjection ::
  "ProjectionStore \<Rightarrow> nat \<Rightarrow> nat \<Rightarrow> string \<Rightarrow> int \<Rightarrow> WorkspaceProjectionImpact \<Rightarrow> (int \<times> ProjectionStore) option" where
  "advanceWorkspaceProjection store workspaceId organizationId publicId now rawImpact =
     (case validateProjectionImpact rawImpact of
        None \<Rightarrow> None
      | Some impact \<Rightarrow>
          (let current = ps_heads store workspaceId in
           case nextWorkspaceProjectionHeads (map_option persisted_of current) impact of
             None \<Rightarrow> None
           | Some next' \<Rightarrow>
               (if (case current of
                      None \<Rightarrow> False
                    | Some row \<Rightarrow> hr_organizationId row \<noteq> organizationId \<or> hr_workspacePublicId row \<noteq> publicId)
                then None
                else Some (ph_projectionRevision next',
                  store \<lparr>ps_heads := (ps_heads store)(workspaceId \<mapsto>
                      \<lparr>pp_revision = ph_projectionRevision next',
                       pp_taskListRevision = Some (ph_projectionRevision next'),
                       pp_taskViewRevisions = Some (ph_taskViewRevisions next'),
                       hr_organizationId = organizationId, hr_workspacePublicId = publicId,
                       hr_lastSemanticAt = now\<rparr>),
                    ps_invalidations := ps_invalidations store @
                      [\<lparr>iv_organizationId = organizationId, iv_workspaceId = workspaceId,
                        iv_workspacePublicId = publicId,
                        iv_projectionRevision = ph_projectionRevision next',
                        iv_impact = impact, iv_createdAt = now\<rparr>]\<rparr>))))"

subsection \<open>Watermarks\<close>

lemma fold_views:
  "foldl (\<lambda>rs view. rs(view := r)) f views v = (if v \<in> set views then r else f v)"
  by (induction views arbitrary: f) auto

lemma requireProjectionRevision_Some [simp]:
  "requireProjectionRevision r = Some r' \<longleftrightarrow> r' = r \<and> 1 \<le> r \<and> is_safe_integer r"
  by (auto simp: requireProjectionRevision_def INITIAL_WORKSPACE_PROJECTION_REVISION_def)

lemma normalized_heads_bounded:
  "normalizeWorkspaceProjectionHeads current = Some heads \<Longrightarrow>
   1 \<le> ph_taskViewRevisions heads v \<and> ph_taskViewRevisions heads v \<le> ph_projectionRevision heads \<and>
   is_safe_integer (ph_projectionRevision heads)"
  by (auto simp: normalizeWorkspaceProjectionHeads_def Let_def allTaskViewRevisions_def list_all_iff list_ex_iff
      INITIAL_WORKSPACE_PROJECTION_REVISION_def guard_defs not_less split: option.splits if_splits)

lemma validated_again:
  "validateProjectionImpact raw = Some impact \<Longrightarrow> validateProjectionImpact impact = Some impact"
proof -
  have norm: "normalizeTaskViews normalized = Some normalized" if "normalizeTaskViews views = Some normalized" for views normalized
  proof -
    from that have n: "normalized = filter (\<lambda>view. view \<in> set views) workspaceTaskViewValues" "views \<noteq> []"
      by (auto simp: normalizeTaskViews_def split: if_splits)
    then obtain v where "v \<in> set views" by (cases views) auto
    then have "normalized \<noteq> []" using all_views [of v] by (auto simp: n filter_empty_conv)
    moreover have "length normalized \<le> 7" unfolding n(1) by (metis length_filter_le length_views)
    moreover have "distinct normalized" unfolding n(1) by (rule distinct_filter) (simp add: workspaceTaskViewValues_def)
    moreover have "filter (\<lambda>view. view \<in> set normalized) workspaceTaskViewValues = normalized"
      unfolding n(1) by (simp add: filter_eq_iff cong: filter_cong)
    ultimately show ?thesis by (simp add: normalizeTaskViews_def not_less Suc_le_eq)
  qed
  assume "validateProjectionImpact raw = Some impact"
  then show ?thesis by (cases raw) (auto split: if_splits option.splits dest: norm)
qed

text \<open>
  The projection never runs backwards. Every advance moves the global revision up by exactly
  one, raises the watermark of each affected view to it, leaves the others, keeps all of them at
  or below the global revision, and logs one invalidation under that revision; what it wrote is
  read back unchanged, so no later reader can take an older head for current.
\<close>

theorem projection_advances:
  assumes "advanceWorkspaceProjection store workspaceId organizationId publicId now raw = Some (revision, store')"
  shows "\<exists>before impact row. normalizeWorkspaceProjectionHeads (map_option persisted_of (ps_heads store workspaceId)) = Some before \<and>
    validateProjectionImpact raw = Some impact \<and> revision = ph_projectionRevision before + 1 \<and>
    ps_heads store' workspaceId = Some row \<and>
    normalizeWorkspaceProjectionHeads (Some (persisted_of row)) = Some
      \<lparr>ph_projectionRevision = revision, ph_taskViewRevisions =
         (\<lambda>v. if v \<in> set (affected_views impact) then revision else ph_taskViewRevisions before v)\<rparr> \<and>
    (\<forall>other. other \<noteq> workspaceId \<longrightarrow> ps_heads store' other = ps_heads store other) \<and>
    ps_invalidations store' = ps_invalidations store @
      [\<lparr>iv_organizationId = organizationId, iv_workspaceId = workspaceId, iv_workspacePublicId = publicId,
        iv_projectionRevision = revision, iv_impact = impact, iv_createdAt = now\<rparr>]"
proof -
  from assms obtain impact heads where impact: "validateProjectionImpact raw = Some impact"
    and heads: "nextWorkspaceProjectionHeads (map_option persisted_of (ps_heads store workspaceId)) impact = Some heads"
    and rev: "revision = ph_projectionRevision heads"
    and store': "ps_heads store' workspaceId = Some
      \<lparr>pp_revision = revision, pp_taskListRevision = Some revision, pp_taskViewRevisions = Some (ph_taskViewRevisions heads),
       hr_organizationId = organizationId, hr_workspacePublicId = publicId, hr_lastSemanticAt = now\<rparr>"
      "\<forall>other. other \<noteq> workspaceId \<longrightarrow> ps_heads store' other = ps_heads store other"
      "ps_invalidations store' = ps_invalidations store @
      [\<lparr>iv_organizationId = organizationId, iv_workspaceId = workspaceId, iv_workspacePublicId = publicId,
        iv_projectionRevision = revision, iv_impact = impact, iv_createdAt = now\<rparr>]"
    by (auto simp: advanceWorkspaceProjection_def Let_def split: option.splits if_splits)
  from heads validated_again [OF impact] obtain before where
    before: "normalizeWorkspaceProjectionHeads (map_option persisted_of (ps_heads store workspaceId)) = Some before"
    and new: "revision = ph_projectionRevision before + 1" "1 \<le> revision" "is_safe_integer revision"
      "ph_taskViewRevisions heads = (\<lambda>v. if v \<in> set (affected_views impact) then revision else ph_taskViewRevisions before v)"
    by (auto simp: nextWorkspaceProjectionHeads_def rev fun_eq_iff fold_views split: option.splits)
  have bounded: "1 \<le> ph_taskViewRevisions heads v" "ph_taskViewRevisions heads v \<le> revision"
    "is_safe_integer (ph_taskViewRevisions heads v)" for v
    using normalized_heads_bounded [OF before, of v] new by (auto simp: guard_defs)
  then have "normalizeWorkspaceProjectionHeads (Some \<lparr>pp_revision = revision, pp_taskListRevision = Some revision,
      pp_taskViewRevisions = Some (ph_taskViewRevisions heads)\<rparr>) =
      Some \<lparr>ph_projectionRevision = revision, ph_taskViewRevisions = ph_taskViewRevisions heads\<rparr>"
    using new(2,3)
    by (auto simp: normalizeWorkspaceProjectionHeads_def list_all_iff list_ex_iff requireProjectionRevision_def
        INITIAL_WORKSPACE_PROJECTION_REVISION_def not_less)
  with before impact new(1,4) store' show ?thesis by (auto simp: persisted_of_def)
qed

definition empty_projection :: ProjectionStore where
  "empty_projection = \<lparr>ps_heads = (\<lambda>w. None), ps_invalidations = []\<rparr>"

theorem projection_advances_witness:
  "case advanceWorkspaceProjection empty_projection 1 2 ''w'' 5 WI_workspace of
     None \<Rightarrow> False | Some (revision, store') \<Rightarrow> revision = 2 \<and> length (ps_invalidations store') = 1"
proof -
  obtain revision store' where
    step: "advanceWorkspaceProjection empty_projection 1 2 ''w'' 5 WI_workspace = Some (revision, store')"
    by (simp add: advanceWorkspaceProjection_def empty_projection_def nextWorkspaceProjectionHeads_def
        normalizeWorkspaceProjectionHeads_def requireProjectionRevision_def guard_defs
        INITIAL_WORKSPACE_PROJECTION_REVISION_def)
  from projection_advances [OF step] obtain before inv where
    "normalizeWorkspaceProjectionHeads (map_option persisted_of (ps_heads empty_projection 1)) = Some before"
    "revision = ph_projectionRevision before + 1" "ps_invalidations store' = ps_invalidations empty_projection @ [inv]"
    by blast
  then have "revision = 2 \<and> length (ps_invalidations store') = 1"
    by (auto simp: empty_projection_def normalizeWorkspaceProjectionHeads_def INITIAL_WORKSPACE_PROJECTION_REVISION_def)
  with step show ?thesis by simp
qed

end
