(* ===== verification/RateLimit.thy ===== *)
theory RateLimit
  imports Identifiers "HOL-Library.Word"
begin

unbundle bit_operations_syntax

text \<open>
  \<open>apps/web/convex/rateLimitPolicy.ts\<close> and the storage half of \<open>rateLimits.ts\<close>: fixed windows,
  a shard chosen by a 32-bit hash of the request identifier, a plan that charges every dimension
  or none, the transaction that applies a plan to the bucket table, and the sweep of expired
  buckets. The bucket table is a list of rows with an identifier counter; \<open>unique()\<close> on two
  matching rows throws, which rolls the mutation back (\<open>None\<close>).
\<close>

subsection \<open>Policies\<close>

definition RATE_LIMIT_WINDOW_MS :: int where "RATE_LIMIT_WINDOW_MS = 60000"
definition RATE_LIMIT_BUCKET_RETENTION_WINDOWS :: int where "RATE_LIMIT_BUCKET_RETENTION_WINDOWS = 2"
definition AUTHENTICATED_RATE_LIMIT_SHARDS :: int where "AUTHENTICATED_RATE_LIMIT_SHARDS = 8"
definition UNAUTHENTICATED_RATE_LIMIT_SHARDS :: int where "UNAUTHENTICATED_RATE_LIMIT_SHARDS = 4"
definition UNAUTHENTICATED_RATE_LIMIT_SLOTS :: nat where "UNAUTHENTICATED_RATE_LIMIT_SLOTS = 256"
definition MAX_RATE_LIMIT_CLEANUP_ROWS :: int where "MAX_RATE_LIMIT_CLEANUP_ROWS = 100"

named_theorems rate_constants \<open>the constants of the rate limiter\<close>

declare
  RATE_LIMIT_WINDOW_MS_def [rate_constants]
  RATE_LIMIT_BUCKET_RETENTION_WINDOWS_def [rate_constants]
  AUTHENTICATED_RATE_LIMIT_SHARDS_def [rate_constants]
  UNAUTHENTICATED_RATE_LIMIT_SHARDS_def [rate_constants]
  UNAUTHENTICATED_RATE_LIMIT_SLOTS_def [rate_constants]
  MAX_RATE_LIMIT_CLEANUP_ROWS_def [rate_constants]

datatype RateLimitRouteClass =
    RC_agent_read
  | RC_agent_write
  | RC_agent_claim
  | RC_agent_review
  | RC_agent_session
  | RC_human_read
  | RC_human_mutation
  | RC_human_poll
  | RC_refresh_auth
  | RC_agent_auth_failure
  | RC_enrollment_auth_failure

datatype RateLimitSubjectKind = SK_credential | SK_workspace | SK_user | SK_unauthenticated

record RateLimitPolicy =
  lp_windowMs :: int
  lp_shardCount :: int
  lp_limits :: "RateLimitSubjectKind \<Rightarrow> int option"

definition authenticated_policy :: "RateLimitSubjectKind \<Rightarrow> int \<Rightarrow> int \<Rightarrow> RateLimitPolicy" where
  "authenticated_policy kind limit workspaceLimit =
     \<lparr>lp_windowMs = RATE_LIMIT_WINDOW_MS, lp_shardCount = AUTHENTICATED_RATE_LIMIT_SHARDS,
      lp_limits = [kind \<mapsto> limit, SK_workspace \<mapsto> workspaceLimit]\<rparr>"

definition unauthenticated_policy :: "int \<Rightarrow> RateLimitPolicy" where
  "unauthenticated_policy limit =
     \<lparr>lp_windowMs = RATE_LIMIT_WINDOW_MS, lp_shardCount = UNAUTHENTICATED_RATE_LIMIT_SHARDS,
      lp_limits = [SK_unauthenticated \<mapsto> limit]\<rparr>"

fun rateLimitPolicies :: "RateLimitRouteClass \<Rightarrow> RateLimitPolicy" where
  "rateLimitPolicies RC_agent_read = authenticated_policy SK_credential 600 6000"
| "rateLimitPolicies RC_agent_write = authenticated_policy SK_credential 240 2400"
| "rateLimitPolicies RC_agent_claim = authenticated_policy SK_credential 120 1200"
| "rateLimitPolicies RC_agent_review = authenticated_policy SK_credential 120 1200"
| "rateLimitPolicies RC_agent_session = authenticated_policy SK_credential 60 600"
| "rateLimitPolicies RC_human_read = authenticated_policy SK_user 600 6000"
| "rateLimitPolicies RC_human_mutation = authenticated_policy SK_user 120 1200"
| "rateLimitPolicies RC_human_poll = authenticated_policy SK_user 24 64"
| "rateLimitPolicies RC_refresh_auth = unauthenticated_policy 8"
| "rateLimitPolicies RC_agent_auth_failure = unauthenticated_policy 30"
| "rateLimitPolicies RC_enrollment_auth_failure = unauthenticated_policy 15"

lemma policy_window [simp]: "lp_windowMs (rateLimitPolicies c) = RATE_LIMIT_WINDOW_MS"
  by (cases c) (simp_all add: authenticated_policy_def unauthenticated_policy_def)

lemma policy_shards: "lp_shardCount (rateLimitPolicies c) \<in> {4, 8}"
  by (cases c) (simp_all add: authenticated_policy_def unauthenticated_policy_def rate_constants)

lemma policy_shards_pos [simp]: "0 < lp_shardCount (rateLimitPolicies c)"
  using policy_shards [of c] by auto

lemma policy_limits_pos: "lp_limits (rateLimitPolicies c) k = Some limit \<Longrightarrow> 0 < limit"
  by (cases c) (auto simp: authenticated_policy_def unauthenticated_policy_def split: if_splits)

subsection \<open>Windows, hashes and slots\<close>

definition safeNonnegativeInteger :: "int \<Rightarrow> bool" where
  "safeNonnegativeInteger value \<longleftrightarrow> is_safe_integer value \<and> value \<ge> 0"

record RateLimitWindow =
  lw_startedAt :: int
  lw_endsAt :: int
  lw_expiresAt :: int

definition rateLimitWindow :: "int \<Rightarrow> int \<Rightarrow> RateLimitWindow option" where
  "rateLimitWindow now windowMs =
     (if \<not> safeNonnegativeInteger now \<or> \<not> is_safe_integer windowMs \<or> windowMs \<le> 0 then None
      else let startedAt = (now div windowMs) * windowMs;
               endsAt = startedAt + windowMs;
               expiresAt = startedAt + windowMs * RATE_LIMIT_BUCKET_RETENTION_WINDOWS in
           if \<not> is_safe_integer endsAt \<or> \<not> is_safe_integer expiresAt then None
           else Some \<lparr>lw_startedAt = startedAt, lw_endsAt = endsAt, lw_expiresAt = expiresAt\<rparr>)"

text \<open>The FNV-1a hash: \<open>Math.imul\<close> and \<open>>>> 0\<close> are the multiplication of 32-bit words.\<close>

definition hash_step :: "32 word \<Rightarrow> char \<Rightarrow> 32 word" where
  "hash_step hash character = (hash XOR of_nat (of_char character)) * 16777619"

definition stableHash32 :: "string \<Rightarrow> nat" where
  "stableHash32 value = unat (foldl hash_step 2166136261 value)"

text \<open>\<open>/^req_[0-9A-HJKMNP-TV-Z]{26}$/u\<close>, \<open>/^[A-Za-z0-9_-]{43}$/u\<close> and \<open>/^slot_([0-9]{3})$/u\<close>.\<close>

definition request_id_pattern :: "string \<Rightarrow> bool" where
  "request_id_pattern s \<longleftrightarrow> length s = 30 \<and> take 4 s = ''req_'' \<and> list_all is_crockford (drop 4 s)"

definition opaque_digest_pattern :: "string \<Rightarrow> bool" where
  "opaque_digest_pattern s \<longleftrightarrow> length s = 43 \<and> list_all is_base64url s"

definition rateLimitShard :: "string \<Rightarrow> int \<Rightarrow> int option" where
  "rateLimitShard requestId shardCount =
     (if \<not> request_id_pattern requestId \<or> \<not> is_safe_integer shardCount \<or> shardCount \<le> 0 then None
      else Some (int (stableHash32 requestId) mod shardCount))"

text \<open>The same, without going through unary numbers.\<close>

lemma rateLimitShard_code [code]:
  "rateLimitShard requestId shardCount =
     (if \<not> request_id_pattern requestId \<or> \<not> is_safe_integer shardCount \<or> shardCount \<le> 0 then None
      else Some (uint (foldl hash_step 2166136261 requestId) mod shardCount))"
  by (simp add: rateLimitShard_def stableHash32_def)

definition unauthenticatedSlotKey :: "string \<Rightarrow> string option" where
  "unauthenticatedSlotKey opaqueDigest =
     (if \<not> opaque_digest_pattern opaqueDigest then None
      else let slot = stableHash32 opaqueDigest mod UNAUTHENTICATED_RATE_LIMIT_SLOTS in
           Some (''slot_'' @ pad_start 3 CHR ''0'' (decimal slot)))"

definition isUnauthenticatedSlotKey :: "string \<Rightarrow> bool" where
  "isUnauthenticatedSlotKey value \<longleftrightarrow>
     length value = 8 \<and> take 5 value = ''slot_'' \<and> list_all is_digit (drop 5 value) \<and>
     read_digits (drop 5 value) < UNAUTHENTICATED_RATE_LIMIT_SLOTS"

text \<open>
  Every slot key the gateway derives from an opaque digest is one the limiter accepts, and a
  slot key determines its slot: two digests share a key exactly when they share the slot.
\<close>

theorem slot_key_accepted:
  assumes "unauthenticatedSlotKey digest = Some key"
  shows "isUnauthenticatedSlotKey key \<and>
    (unauthenticatedSlotKey other = Some key \<longleftrightarrow>
       opaque_digest_pattern other \<and> stableHash32 other mod 256 = stableHash32 digest mod 256)"
proof -
  let ?slot = "\<lambda>d. stableHash32 d mod 256"
  have key: "key = ''slot_'' @ pad_start 3 CHR ''0'' (decimal (?slot digest))"
    using assms by (simp add: unauthenticatedSlotKey_def Let_def rate_constants split: if_splits)
  have "?slot d < 10 ^ 3" for d
    by (rule less_trans [of _ 256]) simp_all
  then have len: "length (decimal (?slot d)) \<le> 3" for d by (rule decimal_length_le) simp
  have slots: "decimal (?slot d) = decimal (?slot e) \<longleftrightarrow> ?slot d = ?slot e" for d e
    by (metis read_decimal)
  have "pad_start 3 CHR ''0'' (decimal (?slot d)) = pad_start 3 CHR ''0'' (decimal (?slot e)) \<longleftrightarrow> ?slot d = ?slot e" for d e
    by (metis read_decimal read_digits_pad)
  moreover have "isUnauthenticatedSlotKey key"
    using len [of digest] digits_pad_start [OF decimal_digits, of 3 "?slot digest"]
    by (simp add: key isUnauthenticatedSlotKey_def length_pad_start rate_constants max_def)
  ultimately show ?thesis
    by (auto simp: key unauthenticatedSlotKey_def Let_def rate_constants)
qed


definition sample_digest :: string where
  "sample_digest = replicate 43 CHR ''a''"

theorem slot_key_accepted_witness:
  "case unauthenticatedSlotKey sample_digest of None \<Rightarrow> False | Some key \<Rightarrow> isUnauthenticatedSlotKey key"
proof -
  have "opaque_digest_pattern sample_digest" by code_simp
  then obtain key where key: "unauthenticatedSlotKey sample_digest = Some key"
    by (simp add: unauthenticatedSlotKey_def Let_def)
  from slot_key_accepted [OF this] have "isUnauthenticatedSlotKey key" by blast
  with key show ?thesis by simp
qed

subsection \<open>Subjects\<close>

record RateLimitSubject =
  ls_kind :: RateLimitSubjectKind
  ls_key :: string

datatype RateLimitSubjectProfile =
  SP_agent_credential_workspace | SP_human_user | SP_human_user_workspace

definition perShardRateLimit :: "RateLimitRouteClass \<Rightarrow> RateLimitSubjectKind \<Rightarrow> int option" where
  "perShardRateLimit routeClass subjectKind =
     (let policy = rateLimitPolicies routeClass in
      case lp_limits policy subjectKind of
        None \<Rightarrow> None
      | Some aggregateTarget \<Rightarrow> Some ((aggregateTarget + lp_shardCount policy - 1) div lp_shardCount policy))"

fun subjectKindsForProfile :: "RateLimitSubjectProfile \<Rightarrow> RateLimitSubjectKind list" where
  "subjectKindsForProfile SP_agent_credential_workspace = [SK_credential, SK_workspace]"
| "subjectKindsForProfile SP_human_user = [SK_user]"
| "subjectKindsForProfile SP_human_user_workspace = [SK_user, SK_workspace]"

definition dimensionsAreValid :: "RateLimitRouteClass \<Rightarrow> RateLimitSubjectKind list \<Rightarrow> bool" where
  "dimensionsAreValid routeClass actualKinds \<longleftrightarrow>
     (if routeClass = RC_agent_auth_failure \<or> routeClass = RC_enrollment_auth_failure \<or>
         routeClass = RC_refresh_auth
      then length actualKinds = 1 \<and> SK_unauthenticated \<in> set actualKinds
      else if routeClass = RC_human_read \<or> routeClass = RC_human_mutation \<or> routeClass = RC_human_poll
      then (length actualKinds = 1 \<and> SK_user \<in> set actualKinds) \<or>
           (length actualKinds = 2 \<and> SK_user \<in> set actualKinds \<and> SK_workspace \<in> set actualKinds)
      else length actualKinds = 2 \<and> SK_credential \<in> set actualKinds \<and> SK_workspace \<in> set actualKinds)"

text \<open>
  A bucket row is its subject, the route, the window and the shard it counts for. The token
  \<open>kind NUL key\<close> of a subject is the pair of the two, no kind having a NUL.
\<close>

record RateLimitBucket = RateLimitSubject +
  lb_id :: nat
  lb_routeClass :: RateLimitRouteClass
  lb_windowStartedAt :: int
  lb_shard :: int
  lb_count :: int
  lb_expiresAt :: int

definition subjectToken :: "'a RateLimitSubject_scheme \<Rightarrow> RateLimitSubjectKind \<times> string" where
  "subjectToken subject = (ls_kind subject, ls_key subject)"

datatype RateLimitWrite =
    LW_insert RateLimitSubject RateLimitRouteClass int int int int
  | LW_increment nat int int

datatype RateLimitPlan =
    LP_allowed "RateLimitWrite list"
  | LP_limited int
  | LP_invalid string

subsection \<open>Planning a consumption\<close>

fun scan_subjects ::
  "RateLimitSubject list \<Rightarrow> (RateLimitSubjectKind \<times> string) list \<Rightarrow> string + (RateLimitSubjectKind \<times> string) list" where
  "scan_subjects [] seen = Inr seen"
| "scan_subjects (subject # rest) seen =
     (if length (ls_key subject) = 0 \<or> length (ls_key subject) > 256 then Inl ''invalid_subject''
      else if ls_kind subject = SK_unauthenticated \<and> \<not> isUnauthenticatedSlotKey (ls_key subject)
      then Inl ''invalid_unauthenticated_slot''
      else if subjectToken subject \<in> set seen then Inl ''duplicate_subject''
      else scan_subjects rest (seen @ [subjectToken subject]))"

definition has_bucket :: "RateLimitBucket list \<Rightarrow> RateLimitSubjectKind \<times> string \<Rightarrow> int \<Rightarrow> bool" where
  "has_bucket buckets token shard \<longleftrightarrow> list_ex (\<lambda>b. subjectToken b = token \<and> lb_shard b = shard) buckets"

definition find_bucket ::
  "RateLimitBucket list \<Rightarrow> RateLimitSubjectKind \<times> string \<Rightarrow> int \<Rightarrow> RateLimitBucket option" where
  "find_bucket buckets token shard = find (\<lambda>b. subjectToken b = token \<and> lb_shard b = shard) buckets"

fun scan_buckets ::
  "(RateLimitSubjectKind \<times> string) list \<Rightarrow> RateLimitRouteClass \<Rightarrow> RateLimitWindow \<Rightarrow> int \<Rightarrow> int \<Rightarrow>
   RateLimitBucket list \<Rightarrow> RateLimitBucket list \<Rightarrow> string + RateLimitBucket list" where
  "scan_buckets tokens routeClass window shard shardCount [] seen = Inr seen"
| "scan_buckets tokens routeClass window shard shardCount (bucket # rest) seen =
     (if subjectToken bucket \<notin> set tokens \<or> lb_routeClass bucket \<noteq> routeClass \<or>
         lb_windowStartedAt bucket \<noteq> lw_startedAt window \<or> lb_shard bucket \<noteq> shard \<or>
         lb_expiresAt bucket \<noteq> lw_expiresAt window \<or>
         \<not> safeNonnegativeInteger (lb_count bucket) \<or> \<not> safeNonnegativeInteger (lb_shard bucket) \<or>
         lb_shard bucket \<ge> shardCount
      then Inl ''invalid_bucket''
      else if has_bucket seen (subjectToken bucket) (lb_shard bucket) then Inl ''duplicate_bucket''
      else scan_buckets tokens routeClass window shard shardCount rest (seen @ [bucket]))"

definition selected_count :: "RateLimitBucket list \<Rightarrow> RateLimitSubject \<Rightarrow> int \<Rightarrow> int" where
  "selected_count buckets subject shard =
     (case find_bucket buckets (subjectToken subject) shard of None \<Rightarrow> 0 | Some b \<Rightarrow> lb_count b)"

fun check_limits ::
  "RateLimitRouteClass \<Rightarrow> RateLimitBucket list \<Rightarrow> int \<Rightarrow> int \<Rightarrow> int \<Rightarrow> RateLimitSubject list \<Rightarrow> RateLimitPlan option" where
  "check_limits routeClass buckets shard endsAt now [] = None"
| "check_limits routeClass buckets shard endsAt now (subject # rest) =
     (case lp_limits (rateLimitPolicies routeClass) (ls_kind subject) of
        None \<Rightarrow> Some (LP_invalid ''missing_limit'')
      | Some limit \<Rightarrow>
          (case perShardRateLimit routeClass (ls_kind subject) of
             None \<Rightarrow> Some (LP_invalid ''missing_limit'')
           | Some allowance \<Rightarrow>
               (if limit \<le> 0 then Some (LP_invalid ''missing_limit'')
                else if selected_count buckets subject shard \<ge> allowance
                then Some (LP_limited (max 1 (endsAt - now)))
                else check_limits routeClass buckets shard endsAt now rest)))"

definition plan_write ::
  "RateLimitRouteClass \<Rightarrow> RateLimitBucket list \<Rightarrow> RateLimitWindow \<Rightarrow> int \<Rightarrow> RateLimitSubject \<Rightarrow> RateLimitWrite" where
  "plan_write routeClass buckets window shard subject =
     (case find_bucket buckets (subjectToken subject) shard of
        None \<Rightarrow> LW_insert subject routeClass (lw_startedAt window) shard 1 (lw_expiresAt window)
      | Some bucket \<Rightarrow> LW_increment (lb_id bucket) (lb_count bucket + 1) (lw_expiresAt window))"

definition planRateLimitConsumption ::
  "RateLimitRouteClass \<Rightarrow> RateLimitSubject list \<Rightarrow> RateLimitBucket list \<Rightarrow> string \<Rightarrow> int \<Rightarrow> RateLimitPlan" where
  "planRateLimitConsumption routeClass subjects currentWindowBuckets requestId now =
     (let policy = rateLimitPolicies routeClass in
      case (rateLimitWindow now (lp_windowMs policy), rateLimitShard requestId (lp_shardCount policy)) of
        (Some window, Some shard) \<Rightarrow>
          (case scan_subjects subjects [] of
             Inl reason \<Rightarrow> LP_invalid reason
           | Inr tokens \<Rightarrow>
               (if \<not> dimensionsAreValid routeClass (js_set (map ls_kind subjects))
                then LP_invalid ''subject_dimensions_mismatch''
                else case scan_buckets tokens routeClass window shard (lp_shardCount policy)
                            currentWindowBuckets [] of
                  Inl reason \<Rightarrow> LP_invalid reason
                | Inr buckets \<Rightarrow>
                    (case check_limits routeClass buckets shard (lw_endsAt window) now subjects of
                       Some refused \<Rightarrow> refused
                     | None \<Rightarrow> LP_allowed (map (plan_write routeClass buckets window shard) subjects))))
      | _ \<Rightarrow> LP_invalid ''invalid_clock_or_request'')"

subsection \<open>Applying a plan to the bucket table\<close>

record RateLimitStore =
  lt_rows :: "RateLimitBucket list"
  lt_next :: nat

datatype RateLimitConsumeResult = CR_allowed | CR_limited int | CR_skipped | CR_unavailable

text \<open>\<open>unique()\<close>: no row, the row, or an exception.\<close>

fun unique_row :: "'a list \<Rightarrow> 'a option option" where
  "unique_row [] = Some None"
| "unique_row [x] = Some (Some x)"
| "unique_row (x # y # zs) = None"

definition bucket_matches ::
  "RateLimitSubject \<Rightarrow> RateLimitRouteClass \<Rightarrow> int \<Rightarrow> int \<Rightarrow> RateLimitBucket \<Rightarrow> bool" where
  "bucket_matches subject routeClass startedAt shard b \<longleftrightarrow>
     ls_kind b = ls_kind subject \<and> ls_key b = ls_key subject \<and> lb_routeClass b = routeClass \<and>
     lb_windowStartedAt b = startedAt \<and> lb_shard b = shard"

fun load_buckets ::
  "RateLimitBucket list \<Rightarrow> RateLimitRouteClass \<Rightarrow> int \<Rightarrow> int \<Rightarrow> RateLimitSubject list \<Rightarrow> RateLimitBucket list option" where
  "load_buckets rows routeClass startedAt shard [] = Some []"
| "load_buckets rows routeClass startedAt shard (subject # rest) =
     (case unique_row (filter (bucket_matches subject routeClass startedAt shard) rows) of
        None \<Rightarrow> None
      | Some found \<Rightarrow>
          (case load_buckets rows routeClass startedAt shard rest of
             None \<Rightarrow> None
           | Some others \<Rightarrow> Some ((case found of None \<Rightarrow> [] | Some b \<Rightarrow> [b]) @ others)))"

definition loadSelectedBuckets ::
  "RateLimitStore \<Rightarrow> RateLimitRouteClass \<Rightarrow> RateLimitSubject list \<Rightarrow> string \<Rightarrow> int \<Rightarrow>
   RateLimitBucket list option option" where
  "loadSelectedBuckets store routeClass subjects requestId now =
     (let policy = rateLimitPolicies routeClass in
      case (rateLimitShard requestId (lp_shardCount policy), rateLimitWindow now (lp_windowMs policy)) of
        (Some shard, Some window) \<Rightarrow>
          (case load_buckets (lt_rows store) routeClass (lw_startedAt window) shard subjects of
             None \<Rightarrow> None | Some loaded \<Rightarrow> Some (Some loaded))
      | _ \<Rightarrow> Some None)"

fun apply_write :: "RateLimitStore \<Rightarrow> RateLimitWrite \<Rightarrow> RateLimitStore" where
  "apply_write store (LW_insert subject routeClass startedAt shard cnt expiresAt) =
     store \<lparr>lt_rows := lt_rows store @
        [\<lparr>ls_kind = ls_kind subject, ls_key = ls_key subject, lb_id = lt_next store,
          lb_routeClass = routeClass, lb_windowStartedAt = startedAt, lb_shard = shard,
          lb_count = cnt, lb_expiresAt = expiresAt\<rparr>],
      lt_next := Suc (lt_next store)\<rparr>"
| "apply_write store (LW_increment i cnt expiresAt) =
     store \<lparr>lt_rows := map (\<lambda>b. if lb_id b = i then b \<lparr>lb_count := cnt, lb_expiresAt := expiresAt\<rparr> else b)
       (lt_rows store)\<rparr>"

fun write_id_known :: "nat list \<Rightarrow> RateLimitWrite \<Rightarrow> bool" where
  "write_id_known ids (LW_increment i cnt expiresAt) \<longleftrightarrow> i \<in> set ids"
| "write_id_known ids (LW_insert subject routeClass startedAt shard cnt expiresAt) \<longleftrightarrow> True"

definition consume ::
  "RateLimitStore \<Rightarrow> RateLimitRouteClass \<Rightarrow> RateLimitSubject list \<Rightarrow> string \<Rightarrow> int \<Rightarrow>
   (RateLimitConsumeResult \<times> RateLimitStore) option" where
  "consume store routeClass subjects requestId now =
     (case loadSelectedBuckets store routeClass subjects requestId now of
        None \<Rightarrow> None
      | Some None \<Rightarrow> Some (CR_unavailable, store)
      | Some (Some loaded) \<Rightarrow>
          (case planRateLimitConsumption routeClass subjects loaded requestId now of
             LP_invalid reason \<Rightarrow> Some (CR_unavailable, store)
           | LP_limited retryAfterMs \<Rightarrow> Some (CR_limited retryAfterMs, store)
           | LP_allowed writes \<Rightarrow>
               (if \<not> list_all (write_id_known (map lb_id loaded)) writes then Some (CR_unavailable, store)
                else Some (CR_allowed, foldl apply_write store writes))))"

definition agent_subjects :: "string \<Rightarrow> string \<Rightarrow> RateLimitSubject list" where
  "agent_subjects credentialId workspaceId =
     [\<lparr>ls_kind = SK_credential, ls_key = credentialId\<rparr>, \<lparr>ls_kind = SK_workspace, ls_key = workspaceId\<rparr>]"

definition consumeAuthorizedAgentRateLimit ::
  "RateLimitStore \<Rightarrow> string \<Rightarrow> string \<Rightarrow> RateLimitRouteClass \<Rightarrow> string \<Rightarrow> int \<Rightarrow>
   (RateLimitConsumeResult \<times> RateLimitStore) option" where
  "consumeAuthorizedAgentRateLimit store credentialId workspaceId routeClass requestId now =
     consume store routeClass (agent_subjects credentialId workspaceId) requestId now"

definition consumeAuthorizedHumanRateLimit ::
  "RateLimitStore \<Rightarrow> string \<Rightarrow> string option \<Rightarrow> RateLimitRouteClass \<Rightarrow> string \<Rightarrow> int \<Rightarrow>
   (RateLimitConsumeResult \<times> RateLimitStore) option" where
  "consumeAuthorizedHumanRateLimit store userId workspaceId routeClass requestId now =
     consume store routeClass
       ([\<lparr>ls_kind = SK_user, ls_key = userId\<rparr>] @
        (case workspaceId of None \<Rightarrow> [] | Some w \<Rightarrow> [\<lparr>ls_kind = SK_workspace, ls_key = w\<rparr>]))
       requestId now"

subsection \<open>Cleaning up\<close>

definition selectExpiredRateLimitBucketIds ::
  "(string \<Rightarrow> string \<Rightarrow> int) \<Rightarrow> (string \<times> int) list \<Rightarrow> int \<Rightarrow> int \<Rightarrow> string list" where
  "selectExpiredRateLimitBucketIds lc buckets now requestedLimit =
     (if \<not> safeNonnegativeInteger now \<or> \<not> is_safe_integer requestedLimit \<or> requestedLimit \<le> 0 then []
      else let limit = min requestedLimit MAX_RATE_LIMIT_CLEANUP_ROWS in
           map fst (take (nat limit)
             (js_sort (\<lambda>left right. if snd left - snd right \<noteq> 0 then snd left - snd right
                                     else lc (fst left) (fst right))
               (filter (\<lambda>bucket. safeNonnegativeInteger (snd bucket) \<and> snd bucket \<le> now) buckets))))"

text \<open>The sweep reads the expiry index in order, one row more than it deletes.\<close>

definition sweepExpired :: "RateLimitStore \<Rightarrow> int \<Rightarrow> (int \<times> bool) \<times> RateLimitStore" where
  "sweepExpired store now =
     (let rows = take (nat (MAX_RATE_LIMIT_CLEANUP_ROWS + 1))
            (js_sort (\<lambda>l r. lb_expiresAt l - lb_expiresAt r) (filter (\<lambda>b. lb_expiresAt b \<le> now) (lt_rows store)));
          doomed = map lb_id (take (nat MAX_RATE_LIMIT_CLEANUP_ROWS) rows) in
      ((min (int (length rows)) MAX_RATE_LIMIT_CLEANUP_ROWS, int (length rows) > MAX_RATE_LIMIT_CLEANUP_ROWS),
       store \<lparr>lt_rows := filter (\<lambda>b. lb_id b \<notin> set doomed) (lt_rows store)\<rparr>))"


subsection \<open>The bucket table as a map\<close>

datatype bucket_key = BK RateLimitSubjectKind string RateLimitRouteClass int int

definition bucket_key :: "RateLimitBucket \<Rightarrow> bucket_key" where
  "bucket_key b = BK (ls_kind b) (ls_key b) (lb_routeClass b) (lb_windowStartedAt b) (lb_shard b)"

definition subject_key :: "RateLimitRouteClass \<Rightarrow> int \<Rightarrow> int \<Rightarrow> RateLimitSubject \<Rightarrow> bucket_key" where
  "subject_key routeClass startedAt shard subject = BK (ls_kind subject) (ls_key subject) routeClass startedAt shard"

definition row_at :: "RateLimitBucket list \<Rightarrow> bucket_key \<Rightarrow> RateLimitBucket option" where
  "row_at rows = map_of (map (\<lambda>b. (bucket_key b, b)) rows)"

definition count_at :: "RateLimitBucket list \<Rightarrow> bucket_key \<Rightarrow> int" where
  "count_at rows k = (case row_at rows k of None \<Rightarrow> 0 | Some b \<Rightarrow> lb_count b)"

lemma bucket_matches_key:
  "bucket_matches subject routeClass startedAt shard b \<longleftrightarrow> bucket_key b = subject_key routeClass startedAt shard subject"
  by (auto simp: bucket_matches_def bucket_key_def subject_key_def)

lemma row_at_Some: "row_at rows k = Some b \<Longrightarrow> b \<in> set rows \<and> bucket_key b = k"
  by (auto simp: row_at_def dest: map_of_SomeD)

lemma row_at_mem: "distinct (map bucket_key rows) \<Longrightarrow> b \<in> set rows \<Longrightarrow> row_at rows (bucket_key b) = Some b"
  unfolding row_at_def by (rule map_of_is_SomeI) (auto simp: comp_def)

lemma row_at_None: "row_at rows k = None \<longleftrightarrow> k \<notin> bucket_key ` set rows"
  by (simp add: row_at_def map_of_eq_None_iff image_image)

lemma unique_row_at:
  "distinct (map bucket_key rows) \<Longrightarrow>
   unique_row (filter (bucket_matches subject routeClass startedAt shard) rows) =
     Some (row_at rows (subject_key routeClass startedAt shard subject))"
proof (induction rows)
  case Nil
  then show ?case by (simp add: row_at_def)
next
  case (Cons b rows)
  let ?k = "subject_key routeClass startedAt shard subject"
  show ?case
  proof (cases "bucket_key b = ?k")
    case True
    with Cons.prems have "?k \<notin> bucket_key ` set rows" by simp
    then have "filter (bucket_matches subject routeClass startedAt shard) rows = []"
      unfolding filter_empty_conv bucket_matches_key by (metis imageI)
    with True show ?thesis by (simp add: bucket_matches_key [of _ _ _ _ b] row_at_def)
  next
    case False
    with Cons show ?thesis by (simp add: bucket_matches_key row_at_def)
  qed
qed

definition loaded_rows where
  "loaded_rows rows routeClass startedAt shard subjects =
     concat (map (\<lambda>s. case row_at rows (subject_key routeClass startedAt shard s) of None \<Rightarrow> [] | Some b \<Rightarrow> [b]) subjects)"

lemma load_buckets_eq:
  "distinct (map bucket_key rows) \<Longrightarrow>
   load_buckets rows routeClass startedAt shard subjects = Some (loaded_rows rows routeClass startedAt shard subjects)"
  by (induction subjects) (simp_all add: unique_row_at loaded_rows_def)

lemma set_loaded_rows:
  "b \<in> set (loaded_rows rows routeClass startedAt shard subjects) \<longleftrightarrow>
   (\<exists>s \<in> set subjects. row_at rows (subject_key routeClass startedAt shard s) = Some b)"
  unfolding loaded_rows_def set_concat set_map by (force split: option.splits)

lemma find_loaded:
  assumes "s \<in> set subjects"
  shows "find_bucket (loaded_rows rows routeClass startedAt shard subjects) (subjectToken s) shard =
    row_at rows (subject_key routeClass startedAt shard s)"
proof (cases "find_bucket (loaded_rows rows routeClass startedAt shard subjects) (subjectToken s) shard")
  case None
  have "row_at rows (subject_key routeClass startedAt shard s) \<noteq> Some b" for b
  proof
    assume at: "row_at rows (subject_key routeClass startedAt shard s) = Some b"
    with assms have "b \<in> set (loaded_rows rows routeClass startedAt shard subjects)"
      unfolding set_loaded_rows by blast
    moreover from row_at_Some [OF at] have "subjectToken b = subjectToken s" "lb_shard b = shard"
      by (auto simp: bucket_key_def subject_key_def subjectToken_def)
    ultimately show False using None by (auto simp: find_bucket_def find_None_iff)
  qed
  with None show ?thesis by (metis not_Some_eq)
next
  case (Some b)
  then have b: "b \<in> set (loaded_rows rows routeClass startedAt shard subjects)" "subjectToken b = subjectToken s"
    by (auto simp: find_bucket_def find_Some_iff)
  then obtain s' where at: "row_at rows (subject_key routeClass startedAt shard s') = Some b"
    unfolding set_loaded_rows by blast
  from row_at_Some [OF this] b(2) have "subject_key routeClass startedAt shard s' = subject_key routeClass startedAt shard s"
    by (auto simp: bucket_key_def subject_key_def subjectToken_def)
  with at Some show ?thesis by simp
qed

subsection \<open>The scans of a plan\<close>

lemma scan_subjects_ok:
  "scan_subjects subjects seen = Inr tokens \<Longrightarrow> distinct seen \<Longrightarrow>
   tokens = seen @ map subjectToken subjects \<and> distinct tokens"
proof (induction subjects arbitrary: seen)
  case Nil
  then show ?case by simp
next
  case (Cons s subjects)
  from Cons.prems have step: "scan_subjects subjects (seen @ [subjectToken s]) = Inr tokens"
    and "distinct (seen @ [subjectToken s])"
    by (simp_all split: if_splits)
  from Cons.IH [OF this] show ?case
    unfolding append_assoc append_Cons append_Nil list.map by (elim conjE) (rule conjI; assumption)
qed

lemma scan_buckets_ok:
  "scan_buckets tokens routeClass window shard n buckets seen = Inr out \<Longrightarrow> out = seen @ buckets"
proof (induction buckets arbitrary: seen)
  case Nil
  then show ?case by simp
next
  case (Cons b buckets)
  then have "scan_buckets tokens routeClass window shard n buckets (seen @ [b]) = Inr out"
    by (simp split: if_splits)
  from Cons.IH [OF this] show ?case by simp
qed

lemma check_limits_None:
  "check_limits routeClass buckets shard endsAt now subjects = None \<longleftrightarrow>
   (\<forall>s \<in> set subjects. \<exists>a. perShardRateLimit routeClass (ls_kind s) = Some a \<and> selected_count buckets s shard < a)"
  by (induction subjects)
    (auto simp: perShardRateLimit_def Let_def split: option.splits dest: policy_limits_pos)

lemma check_limits_Some:
  "check_limits routeClass buckets shard endsAt now subjects = Some refused \<Longrightarrow>
   (\<exists>reason. refused = LP_invalid reason) \<or>
   refused = LP_limited (max 1 (endsAt - now)) \<and>
     (\<exists>s \<in> set subjects. \<exists>a. perShardRateLimit routeClass (ls_kind s) = Some a \<and> a \<le> selected_count buckets s shard)"
  by (induction subjects) (auto split: option.splits if_splits)


subsection \<open>Charging the planned subjects\<close>

definition row_ok :: "RateLimitBucket \<Rightarrow> bool" where
  "row_ok b \<longleftrightarrow> (\<exists>a. perShardRateLimit (lb_routeClass b) (ls_kind b) = Some a \<and> 1 \<le> lb_count b \<and> lb_count b \<le> a) \<and>
     0 \<le> lb_shard b \<and> lb_shard b < lp_shardCount (rateLimitPolicies (lb_routeClass b)) \<and>
     lb_expiresAt b = lb_windowStartedAt b + 2 * RATE_LIMIT_WINDOW_MS"

definition store_ok :: "RateLimitStore \<Rightarrow> bool" where
  "store_ok store \<longleftrightarrow> distinct (map lb_id (lt_rows store)) \<and> (\<forall>b \<in> set (lt_rows store). lb_id b < lt_next store) \<and>
     distinct (map bucket_key (lt_rows store)) \<and> (\<forall>b \<in> set (lt_rows store). row_ok b)"

definition empty_store :: RateLimitStore where
  "empty_store = \<lparr>lt_rows = [], lt_next = 0\<rparr>"

lemma empty_store_ok: "store_ok empty_store"
  by (simp add: store_ok_def empty_store_def)

definition charge :: "RateLimitRouteClass \<Rightarrow> int \<Rightarrow> int \<Rightarrow> int \<Rightarrow> RateLimitStore \<Rightarrow> RateLimitSubject \<Rightarrow> RateLimitWrite" where
  "charge routeClass startedAt expiresAt shard store s =
     (case row_at (lt_rows store) (subject_key routeClass startedAt shard s) of
        None \<Rightarrow> LW_insert s routeClass startedAt shard 1 expiresAt
      | Some b \<Rightarrow> LW_increment (lb_id b) (lb_count b + 1) expiresAt)"

lemma row_at_append:
  "row_at (rows @ [b]) k = (case row_at rows k of None \<Rightarrow> if bucket_key b = k then Some b else None | Some c \<Rightarrow> Some c)"
  by (simp add: row_at_def map_add_def split: option.splits)

lemma row_at_map:
  assumes "\<And>b. bucket_key (f b) = bucket_key b"
  shows "row_at (map f rows) k = map_option f (row_at rows k)"
  by (induction rows) (simp_all add: row_at_def assms)

definition set_count :: "nat \<Rightarrow> int \<Rightarrow> int \<Rightarrow> RateLimitBucket \<Rightarrow> RateLimitBucket" where
  "set_count i cnt expiresAt b = (if lb_id b = i then b \<lparr>lb_count := cnt, lb_expiresAt := expiresAt\<rparr> else b)"

lemma apply_increment:
  "lt_rows (apply_write store (LW_increment i cnt expiresAt)) = map (set_count i cnt expiresAt) (lt_rows store)"
  "lt_next (apply_write store (LW_increment i cnt expiresAt)) = lt_next store"
  by (simp_all add: set_count_def)

lemma set_count_simps [simp]:
  "bucket_key (set_count i cnt expiresAt b) = bucket_key b"
  "lb_id (set_count i cnt expiresAt b) = lb_id b"
  by (simp_all add: set_count_def bucket_key_def)

lemma charge_one:
  assumes ok: "store_ok store" and shard: "0 \<le> shard" "shard < lp_shardCount (rateLimitPolicies routeClass)"
    and allowance: "perShardRateLimit routeClass (ls_kind s) = Some a"
    and room: "count_at (lt_rows store) (subject_key routeClass startedAt shard s) < a"
    and expires: "expiresAt = startedAt + 2 * RATE_LIMIT_WINDOW_MS"
  defines "store' \<equiv> apply_write store (charge routeClass startedAt expiresAt shard store s)"
  shows "store_ok store'"
    and "\<And>k. k \<noteq> subject_key routeClass startedAt shard s \<Longrightarrow> row_at (lt_rows store') k = row_at (lt_rows store) k"
    and "count_at (lt_rows store') (subject_key routeClass startedAt shard s) =
      count_at (lt_rows store) (subject_key routeClass startedAt shard s) + 1"
proof -
  let ?k = "subject_key routeClass startedAt shard s"
  let ?rows = "lt_rows store"
  from ok have ids: "distinct (map lb_id ?rows)" "\<And>b. b \<in> set ?rows \<Longrightarrow> lb_id b < lt_next store"
    and keys: "distinct (map bucket_key ?rows)" and rows: "\<And>b. b \<in> set ?rows \<Longrightarrow> row_ok b"
    by (auto simp: store_ok_def)
  have "store_ok store' \<and> (\<forall>k. k \<noteq> ?k \<longrightarrow> row_at (lt_rows store') k = row_at ?rows k) \<and>
      count_at (lt_rows store') ?k = count_at ?rows ?k + 1"
  proof (cases "row_at ?rows ?k")
    case None
    define b where "b = \<lparr>ls_kind = ls_kind s, ls_key = ls_key s, lb_id = lt_next store,
      lb_routeClass = routeClass, lb_windowStartedAt = startedAt, lb_shard = shard, lb_count = 1, lb_expiresAt = expiresAt\<rparr>"
    have store': "lt_rows store' = ?rows @ [b]" "lt_next store' = Suc (lt_next store)"
      using None by (simp_all add: store'_def charge_def b_def)
    have k: "bucket_key b = ?k" by (simp add: b_def bucket_key_def subject_key_def)
    from None have "?k \<notin> bucket_key ` set ?rows" by (simp add: row_at_None)
    moreover have "row_ok b"
      using shard allowance room None expires by (auto simp: b_def row_ok_def count_at_def)
    moreover have "lb_id b \<notin> lb_id ` set ?rows" using ids(2) by (force simp: b_def)
    moreover have "lb_id b = lt_next store" by (simp add: b_def)
    ultimately have "store_ok store'"
      using ids keys rows k by (auto simp: store_ok_def store' less_SucI)
    with None k show ?thesis
      by (auto simp: store' row_at_append count_at_def b_def split: option.splits)
  next
    case (Some b)
    let ?f = "set_count (lb_id b) (lb_count b + 1) expiresAt"
    have store': "lt_rows store' = map ?f ?rows" "lt_next store' = lt_next store"
      using Some unfolding store'_def charge_def by (simp_all add: apply_increment del: apply_write.simps)
    from row_at_Some [OF Some] have b: "b \<in> set ?rows" "bucket_key b = ?k" by auto
    have only: "?f c = c" if "c \<in> set ?rows" "c \<noteq> b" for c
      using that b(1) ids(1) by (auto simp: set_count_def distinct_map dest: inj_onD)
    have fb: "row_ok (?f b)"
      using rows [OF b(1)] b(2) allowance room Some expires
      by (auto simp: row_ok_def set_count_def count_at_def bucket_key_def subject_key_def)
    have "store_ok store'"
      unfolding store_ok_def store' using ids keys rows only fb
      by (auto simp: comp_def) (metis)
    moreover have "row_at (lt_rows store') k = row_at ?rows k" if "k \<noteq> ?k" for k
    proof (cases "row_at ?rows k")
      case (Some c)
      from row_at_Some [OF this] have "c \<in> set ?rows" "c \<noteq> b" using b(2) that by auto
      with Some show ?thesis by (simp add: store' row_at_map only)
    qed (simp add: store' row_at_map)
    moreover have "count_at (lt_rows store') ?k = count_at ?rows ?k + 1"
      unfolding store' count_at_def row_at_map [of ?f, OF set_count_simps(1)]
      using Some by (simp add: set_count_def)
    ultimately show ?thesis by blast
  qed
  then show "store_ok store'" "\<And>k. k \<noteq> ?k \<Longrightarrow> row_at (lt_rows store') k = row_at ?rows k"
    "count_at (lt_rows store') ?k = count_at ?rows ?k + 1" by auto
qed

lemma charge_all:
  assumes shard: "0 \<le> shard" "shard < lp_shardCount (rateLimitPolicies routeClass)"
    and expires: "expiresAt = startedAt + 2 * RATE_LIMIT_WINDOW_MS"
  shows "store_ok store \<Longrightarrow> distinct (map subjectToken subjects) \<Longrightarrow>
    (\<And>s. s \<in> set subjects \<Longrightarrow> \<exists>a. perShardRateLimit routeClass (ls_kind s) = Some a \<and>
       count_at (lt_rows store) (subject_key routeClass startedAt shard s) < a) \<Longrightarrow>
    writes = map (charge routeClass startedAt expiresAt shard store) subjects \<Longrightarrow>
    store_ok (foldl apply_write store writes) \<and>
    (\<forall>k. count_at (lt_rows (foldl apply_write store writes)) k =
       count_at (lt_rows store) k + (if k \<in> subject_key routeClass startedAt shard ` set subjects then 1 else 0))"
proof (induction subjects arbitrary: store writes)
  case Nil
  then show ?case by simp
next
  case (Cons s subjects)
  let ?K = "subject_key routeClass startedAt shard"
  define store1 where "store1 = apply_write store (charge routeClass startedAt expiresAt shard store s)"
  from Cons.prems(3) [of s] obtain a where "perShardRateLimit routeClass (ls_kind s) = Some a"
    "count_at (lt_rows store) (?K s) < a" by auto
  note one = charge_one [OF Cons.prems(1) shard this expires, folded store1_def]
  have apart: "?K s' \<noteq> ?K s" if "s' \<in> set subjects" for s'
  proof
    assume "?K s' = ?K s"
    then have "subjectToken s' = subjectToken s" by (simp add: subject_key_def subjectToken_def)
    with that Cons.prems(2) show False by (simp add: image_iff) (metis)
  qed
  have same: "count_at (lt_rows store1) k = count_at (lt_rows store) k" if "k \<noteq> ?K s" for k
    using one(2) [OF that] by (simp add: count_at_def)
  let ?writes = "map (charge routeClass startedAt expiresAt shard store1) subjects"
  have same_writes: "?writes = map (charge routeClass startedAt expiresAt shard store) subjects"
    using apart one(2) by (auto simp: charge_def)
  have fold: "foldl apply_write store writes = foldl apply_write store1 ?writes"
    by (simp add: Cons.prems(4) same_writes store1_def [symmetric])
  have IH: "store_ok (foldl apply_write store1 ?writes) \<and>
    (\<forall>k. count_at (lt_rows (foldl apply_write store1 ?writes)) k =
       count_at (lt_rows store1) k + (if k \<in> ?K ` set subjects then 1 else 0))"
    by (rule Cons.IH [OF one(1) _ _ refl]) (use Cons.prems apart same in auto)
  have new: "?K s \<notin> ?K ` set subjects" using apart by (metis imageE)
  have "count_at (lt_rows (foldl apply_write store1 ?writes)) k =
       count_at (lt_rows store) k + (if k \<in> ?K ` set (s # subjects) then 1 else 0)" for k
    using IH [THEN conjunct2, THEN spec, of k] one(3) same [of k] new by (cases "k = ?K s") simp_all
  with IH show ?case unfolding fold by blast
qed


subsection \<open>What a consumption does\<close>

lemma rateLimitWindow_Some:
  "rateLimitWindow now RATE_LIMIT_WINDOW_MS = Some w \<Longrightarrow>
   lw_startedAt w \<le> now \<and> now < lw_endsAt w \<and> lw_endsAt w = lw_startedAt w + RATE_LIMIT_WINDOW_MS \<and>
   lw_expiresAt w = lw_startedAt w + 2 * RATE_LIMIT_WINDOW_MS"
  unfolding rateLimitWindow_def Let_def rate_constants
  by (auto split: if_splits)

lemma rateLimitShard_Some: "rateLimitShard requestId n = Some shard \<Longrightarrow> 0 \<le> shard \<and> shard < n"
  by (auto simp: rateLimitShard_def split: if_splits)

text \<open>The key a request counts against: its window and its shard.\<close>

definition request_key ::
  "RateLimitRouteClass \<Rightarrow> string \<Rightarrow> int \<Rightarrow> RateLimitSubject \<Rightarrow> bucket_key option" where
  "request_key routeClass requestId now s =
     (let policy = rateLimitPolicies routeClass in
      case (rateLimitWindow now (lp_windowMs policy), rateLimitShard requestId (lp_shardCount policy)) of
        (Some w, Some shard) \<Rightarrow> Some (subject_key routeClass (lw_startedAt w) shard s)
      | _ \<Rightarrow> None)"

lemma consume_cases:
  assumes ok: "store_ok store"
  obtains (charged) w shard where
      "rateLimitWindow now RATE_LIMIT_WINDOW_MS = Some w"
      "rateLimitShard requestId (lp_shardCount (rateLimitPolicies routeClass)) = Some shard"
      "distinct (map subjectToken subjects)"
      "\<And>s. s \<in> set subjects \<Longrightarrow> \<exists>a. perShardRateLimit routeClass (ls_kind s) = Some a \<and>
         count_at (lt_rows store) (subject_key routeClass (lw_startedAt w) shard s) < a"
      "consume store routeClass subjects requestId now =
         Some (CR_allowed, foldl apply_write store
           (map (charge routeClass (lw_startedAt w) (lw_expiresAt w) shard store) subjects))"
  | (limited) w shard s a where
      "rateLimitWindow now RATE_LIMIT_WINDOW_MS = Some w"
      "rateLimitShard requestId (lp_shardCount (rateLimitPolicies routeClass)) = Some shard"
      "s \<in> set subjects" "perShardRateLimit routeClass (ls_kind s) = Some a"
      "a \<le> count_at (lt_rows store) (subject_key routeClass (lw_startedAt w) shard s)"
      "consume store routeClass subjects requestId now = Some (CR_limited (max 1 (lw_endsAt w - now)), store)"
  | (unavailable) "consume store routeClass subjects requestId now = Some (CR_unavailable, store)"
proof (cases "\<exists>w shard. rateLimitWindow now RATE_LIMIT_WINDOW_MS = Some w \<and>
    rateLimitShard requestId (lp_shardCount (rateLimitPolicies routeClass)) = Some shard")
  case False
  then have "loadSelectedBuckets store routeClass subjects requestId now = Some None"
    by (auto simp: loadSelectedBuckets_def Let_def split: option.splits)
  then show ?thesis by (intro unavailable) (simp add: consume_def)
next
  case True
  then obtain w shard where w: "rateLimitWindow now RATE_LIMIT_WINDOW_MS = Some w"
    and shard: "rateLimitShard requestId (lp_shardCount (rateLimitPolicies routeClass)) = Some shard" by blast
  let ?rows = "lt_rows store" and ?started = "lw_startedAt w"
  let ?loaded = "loaded_rows ?rows routeClass ?started shard subjects"
  have "distinct (map bucket_key ?rows)" using ok by (simp add: store_ok_def)
  then have load: "loadSelectedBuckets store routeClass subjects requestId now = Some (Some ?loaded)"
    by (simp add: loadSelectedBuckets_def Let_def w shard load_buckets_eq)
  have sel: "selected_count ?loaded s shard = count_at ?rows (subject_key routeClass ?started shard s)"
    if "s \<in> set subjects" for s
    using find_loaded [OF that] by (simp add: selected_count_def count_at_def)
  show ?thesis
  proof (cases "planRateLimitConsumption routeClass subjects ?loaded requestId now")
    case (LP_invalid reason)
    with load show ?thesis by (intro unavailable) (simp add: consume_def)
  next
    case (LP_limited retry)
    then obtain buckets where "check_limits routeClass ?loaded shard (lw_endsAt w) now subjects = Some (LP_limited retry)"
      by (auto simp: planRateLimitConsumption_def Let_def w shard split: sum.splits if_splits option.splits
          dest!: scan_buckets_ok)
    from check_limits_Some [OF this] obtain s a where "retry = max 1 (lw_endsAt w - now)" "s \<in> set subjects"
      "perShardRateLimit routeClass (ls_kind s) = Some a" "a \<le> selected_count ?loaded s shard"
      by blast
    with sel LP_limited load show ?thesis
      by (intro limited [OF w shard, of s a]) (simp_all add: consume_def)
  next
    case (LP_allowed writes)
    then obtain tokens where tokens: "scan_subjects subjects [] = Inr tokens"
      and check: "check_limits routeClass ?loaded shard (lw_endsAt w) now subjects = None"
      and writes: "writes = map (plan_write routeClass ?loaded w shard) subjects"
      by (auto simp: planRateLimitConsumption_def Let_def w shard split: sum.splits if_splits option.splits
          dest!: scan_buckets_ok)
        (metis RateLimitPlan.distinct(1,3) check_limits_Some)
    have d: "distinct (map subjectToken subjects)" using scan_subjects_ok [OF tokens] by auto
    have charges: "writes = map (charge routeClass ?started (lw_expiresAt w) shard store) subjects"
      unfolding writes by (auto simp: plan_write_def charge_def find_loaded split: option.splits)
    have known: "list_all (write_id_known (map lb_id ?loaded)) writes"
      unfolding charges
      by (auto simp: list_all_iff charge_def set_loaded_rows intro!: image_eqI split: option.splits)
    have "consume store routeClass subjects requestId now = Some (CR_allowed, foldl apply_write store writes)"
      using load LP_allowed known by (simp add: consume_def)
    with check sel d show ?thesis
      unfolding charges by (intro charged [OF w shard]) (auto simp: check_limits_None)
  qed
qed


text \<open>
  C32. A consumption charges every subject or none. On a well-formed table it never throws and
  leaves the table well formed; where it is allowed, each subject's bucket for this window and
  shard goes up by exactly one, stays within its per-shard allowance, and no other bucket moves;
  where it is refused, nothing is written, some subject's bucket is exhausted, and the caller is
  told to retry within the window.
\<close>

theorem rate_limit_all_or_nothing:
  assumes "store_ok store"
  shows "\<exists>result store'. consume store routeClass subjects requestId now = Some (result, store') \<and> store_ok store' \<and>
    (case result of
       CR_allowed \<Rightarrow>
         (\<forall>s \<in> set subjects. \<exists>k a. request_key routeClass requestId now s = Some k \<and>
            perShardRateLimit routeClass (ls_kind s) = Some a \<and>
            count_at (lt_rows store') k = count_at (lt_rows store) k + 1 \<and> count_at (lt_rows store') k \<le> a) \<and>
         (\<forall>k. Some k \<notin> request_key routeClass requestId now ` set subjects \<longrightarrow>
            count_at (lt_rows store') k = count_at (lt_rows store) k)
     | CR_limited retry \<Rightarrow> store' = store \<and> 1 \<le> retry \<and> retry \<le> RATE_LIMIT_WINDOW_MS \<and>
         (\<exists>s \<in> set subjects. \<exists>k a. request_key routeClass requestId now s = Some k \<and>
            perShardRateLimit routeClass (ls_kind s) = Some a \<and> a \<le> count_at (lt_rows store) k)
     | CR_unavailable \<Rightarrow> store' = store
     | CR_skipped \<Rightarrow> False)"
  using assms
proof (cases rule: consume_cases [of store now requestId routeClass subjects])
  case (charged w shard)
  let ?writes = "map (charge routeClass (lw_startedAt w) (lw_expiresAt w) shard store) subjects"
  note window = rateLimitWindow_Some [OF charged(1)] and shards = rateLimitShard_Some [OF charged(2)]
  have key: "request_key routeClass requestId now s = Some (subject_key routeClass (lw_startedAt w) shard s)" for s
    using charged(1,2) by (simp add: request_key_def Let_def)
  from charge_all [OF _ _ _ assms charged(3) _ refl, of shard routeClass "lw_expiresAt w" "lw_startedAt w"]
  have all: "store_ok (foldl apply_write store ?writes)"
    "\<And>k. count_at (lt_rows (foldl apply_write store ?writes)) k = count_at (lt_rows store) k +
       (if k \<in> subject_key routeClass (lw_startedAt w) shard ` set subjects then 1 else 0)"
    using window shards charged(4) by auto
  show ?thesis
  proof (intro exI conjI)
    show "consume store routeClass subjects requestId now = Some (CR_allowed, foldl apply_write store ?writes)"
      by (rule charged(5))
  qed (use all charged(4) in \<open>force simp: key\<close>)+
next
  case (limited w shard s a)
  note window = rateLimitWindow_Some [OF limited(1)]
  have "request_key routeClass requestId now s = Some (subject_key routeClass (lw_startedAt w) shard s)"
    using limited(1,2) by (simp add: request_key_def Let_def)
  with limited assms window show ?thesis by (auto simp: rate_constants)
next
  case unavailable
  with assms show ?thesis by simp
qed

definition sample_request_id :: string where
  "sample_request_id = ''req_00000000000000000000000000''"

theorem rate_limit_all_or_nothing_witness:
  "\<exists>result store'. consume empty_store RC_agent_claim (agent_subjects ''c'' ''w'') sample_request_id 7 =
     Some (result, store') \<and> store_ok store'"
  using rate_limit_all_or_nothing [OF empty_store_ok, of RC_agent_claim "agent_subjects ''c'' ''w''" sample_request_id 7]
  by blast

text \<open>A history of requests against one table.\<close>

fun run_requests ::
  "RateLimitStore \<Rightarrow> (RateLimitRouteClass \<times> RateLimitSubject list \<times> string \<times> int) list \<Rightarrow> RateLimitStore" where
  "run_requests store [] = store"
| "run_requests store ((routeClass, subjects, requestId, now) # rest) =
     (case consume store routeClass subjects requestId now of
        None \<Rightarrow> run_requests store rest
      | Some (result, store') \<Rightarrow> run_requests store' rest)"

lemma consume_store_ok:
  assumes "store_ok store" "consume store routeClass subjects requestId now = Some (result, store')"
  shows "store_ok store'"
  using assms(1)
proof (cases rule: consume_cases [of store now requestId routeClass subjects])
  case (charged w shard)
  note window = rateLimitWindow_Some [OF charged(1)] and shards = rateLimitShard_Some [OF charged(2)]
  from charge_all [OF _ _ _ assms(1) charged(3) _ refl, of shard routeClass "lw_expiresAt w" "lw_startedAt w"]
  show ?thesis using charged(4,5) window shards assms(2) by auto
qed (use assms in simp_all)

lemma run_requests_ok: "store_ok store \<Longrightarrow> store_ok (run_requests store requests)"
  by (induction store requests rule: run_requests.induct)
    (auto split: option.splits dest: consume_store_ok)

definition window_total ::
  "RateLimitBucket list \<Rightarrow> RateLimitSubjectKind \<Rightarrow> string \<Rightarrow> RateLimitRouteClass \<Rightarrow> int \<Rightarrow> int" where
  "window_total rows kind key routeClass startedAt = sum_list (map lb_count (filter (\<lambda>b.
     ls_kind b = kind \<and> ls_key b = key \<and> lb_routeClass b = routeClass \<and> lb_windowStartedAt b = startedAt) rows))"

lemma sum_list_bound_int:
  "(\<And>x. x \<in> set xs \<Longrightarrow> f x \<le> a) \<Longrightarrow> sum_list (map f xs) \<le> int (length xs) * a"
proof (induction xs)
  case (Cons x xs)
  then have "f x \<le> a" "sum_list (map f xs) \<le> int (length xs) * a" by auto
  then show ?case by (simp add: distrib_right)
qed simp

lemma length_le_shards:
  assumes "distinct xs" "\<And>x. x \<in> set xs \<Longrightarrow> 0 \<le> x \<and> x < (n :: int)"
  shows "int (length xs) \<le> max 0 n"
proof -
  from assms have "set xs \<subseteq> {0..<n}" by auto
  then have "card (set xs) \<le> card {0..<n}" by (intro card_mono) simp_all
  with assms(1) show ?thesis by (simp add: distinct_card)
qed

lemma window_total_bound:
  assumes ok: "store_ok store" and limit: "lp_limits (rateLimitPolicies routeClass) kind = Some limit"
  shows "window_total (lt_rows store) kind key routeClass startedAt < limit + lp_shardCount (rateLimitPolicies routeClass)"
proof -
  let ?n = "lp_shardCount (rateLimitPolicies routeClass)"
  define rows where "rows = filter (\<lambda>b. ls_kind b = kind \<and> ls_key b = key \<and> lb_routeClass b = routeClass \<and>
    lb_windowStartedAt b = startedAt) (lt_rows store)"
  define a where "a = (limit + ?n - 1) div ?n"
  from ok have "distinct (map bucket_key rows)" by (simp add: store_ok_def rows_def distinct_map_filter)
  then have "distinct rows" "inj_on bucket_key (set rows)" by (simp_all add: distinct_map)
  then have "distinct (map lb_shard rows)"
    by (auto simp: distinct_map inj_on_def rows_def bucket_key_def)
  moreover have "0 \<le> lb_shard b \<and> lb_shard b < ?n" if "b \<in> set rows" for b
    using that ok by (auto simp: rows_def store_ok_def row_ok_def)
  ultimately have len: "int (length rows) \<le> ?n"
    using length_le_shards [of "map lb_shard rows" ?n] by auto
  have le: "lb_count b \<le> a" if "b \<in> set rows" for b
    using that ok limit by (auto simp: rows_def store_ok_def row_ok_def perShardRateLimit_def Let_def a_def)
  have pos: "0 \<le> a"
    using policy_limits_pos [OF limit] policy_shards_pos [of routeClass]
    by (simp add: a_def pos_imp_zdiv_nonneg_iff del: policy_shards_pos)
  have "sum_list (map lb_count rows) \<le> int (length rows) * a" by (rule sum_list_bound_int) (rule le)
  also have "\<dots> \<le> ?n * a" using len pos by (rule mult_right_mono)
  also have "\<dots> \<le> limit + ?n - 1"
    unfolding a_def using mult_div_mod_eq [of ?n "limit + ?n - 1"] pos_mod_sign [of ?n "limit + ?n - 1"]
      policy_shards_pos [of routeClass] by linarith
  finally show ?thesis by (simp add: window_total_def rows_def)
qed




text \<open>
  The sweep never forgives a live charge: it deletes at most a hundred rows, each of them
  expired, keeps the table well formed, and leaves every bucket whose window has not ended with
  its count; it asks to be run again exactly when an expired row may be left.
\<close>

theorem sweep_keeps_live_charges:
  assumes ok: "store_ok store"
    and sweep: "sweepExpired store now = ((deleted, hasMore), store')"
  shows "store_ok store' \<and> deleted \<le> MAX_RATE_LIMIT_CLEANUP_ROWS \<and>
    int (length (lt_rows store)) = int (length (lt_rows store')) + deleted \<and>
    (\<forall>b \<in> set (lt_rows store). b \<notin> set (lt_rows store') \<longrightarrow> lb_expiresAt b \<le> now) \<and>
    (\<forall>kind key routeClass startedAt shard. now < startedAt + RATE_LIMIT_WINDOW_MS \<longrightarrow>
       count_at (lt_rows store') (BK kind key routeClass startedAt shard) =
       count_at (lt_rows store) (BK kind key routeClass startedAt shard)) \<and>
    (\<not> hasMore \<longrightarrow> (\<forall>b \<in> set (lt_rows store'). now < lb_expiresAt b))"
proof -
  let ?rows = "lt_rows store" and ?cmp = "\<lambda>l r. lb_expiresAt l - lb_expiresAt r"
  define expired where "expired = js_sort ?cmp (filter (\<lambda>b. lb_expiresAt b \<le> now) ?rows)"
  define doomed where "doomed = take 100 expired"
  have ids: "distinct (map lb_id ?rows)" and keys: "distinct (map bucket_key ?rows)"
    using ok by (simp_all add: store_ok_def)
  have store': "lt_rows store' = filter (\<lambda>b. lb_id b \<notin> lb_id ` set doomed) ?rows" "lt_next store' = lt_next store"
    and deleted: "deleted = min (int (length (take 101 expired))) 100"
    and more: "hasMore \<longleftrightarrow> 100 < int (length (take 101 expired))"
    using sweep by (auto simp: sweepExpired_def Let_def rate_constants expired_def doomed_def min_def)
  have set_expired: "set expired = {b \<in> set ?rows. lb_expiresAt b \<le> now}" by (simp add: expired_def)
  have doomed: "set doomed \<subseteq> {b \<in> set ?rows. lb_expiresAt b \<le> now}"
    unfolding set_expired [symmetric] by (auto simp: doomed_def dest: in_set_takeD)
  have kept: "set (lt_rows store') = set ?rows - set doomed"
    using ids doomed by (auto simp: store' distinct_map dest: inj_onD)
  have ok': "store_ok store'"
    using ok by (auto simp: store_ok_def store' distinct_map_filter)
  have gone: "\<forall>b \<in> set ?rows. b \<notin> set (lt_rows store') \<longrightarrow> lb_expiresAt b \<le> now"
    using kept doomed by auto
  have d: "distinct expired" "distinct ?rows" using ids by (auto simp: expired_def distinct_map)
  have dd: "distinct doomed" using d by (simp add: doomed_def)
  have "length (lt_rows store') = card (set ?rows - set doomed)"
    using d(2) kept distinct_card [of "lt_rows store'"] by (simp add: store')
  also have "\<dots> = length ?rows - length doomed"
    using doomed dd d(2) by (subst card_Diff_subset) (auto simp: distinct_card)
  finally have len: "length (lt_rows store') = length ?rows - length doomed" .
  have "length doomed \<le> length ?rows"
    using card_mono [of "set ?rows" "set doomed"] doomed dd d(2) by (auto simp: distinct_card)
  with len deleted have count: "int (length ?rows) = int (length (lt_rows store')) + deleted"
    by (simp add: doomed_def min_def)
  have same: "count_at (lt_rows store') (BK kind key routeClass startedAt shard) =
       count_at ?rows (BK kind key routeClass startedAt shard)"
    if "now < startedAt + RATE_LIMIT_WINDOW_MS" for kind key routeClass startedAt shard
  proof (cases "row_at ?rows (BK kind key routeClass startedAt shard)")
    case None
    then have "row_at (lt_rows store') (BK kind key routeClass startedAt shard) = None"
      using kept by (auto simp: row_at_None)
    with None show ?thesis by (simp add: count_at_def)
  next
    case (Some b)
    from row_at_Some [OF this] have b: "b \<in> set ?rows" "bucket_key b = BK kind key routeClass startedAt shard" by auto
    with ok have "lb_expiresAt b = startedAt + 2 * RATE_LIMIT_WINDOW_MS"
      by (auto simp: store_ok_def row_ok_def bucket_key_def)
    with that have "\<not> lb_expiresAt b \<le> now" by (simp add: rate_constants)
    with b(1) kept doomed have "b \<in> set (lt_rows store')" by auto
    moreover have "distinct (map bucket_key (lt_rows store'))" using ok' by (simp add: store_ok_def)
    ultimately have "row_at (lt_rows store') (bucket_key b) = Some b" by (intro row_at_mem)
    with Some b(2) show ?thesis by (simp add: count_at_def)
  qed
  have "now < lb_expiresAt b" if "\<not> hasMore" "b \<in> set (lt_rows store')" for b
  proof -
    from that(1) more have "doomed = expired" by (auto simp: doomed_def min_def split: if_splits)
    with that(2) kept set_expired show ?thesis by auto
  qed
  with ok' gone same count show ?thesis by (auto simp: deleted rate_constants)
qed

definition sample_store :: RateLimitStore where
  "sample_store = \<lparr>lt_rows = [\<lparr>ls_kind = SK_user, ls_key = ''u'', lb_id = 0, lb_routeClass = RC_human_poll,
     lb_windowStartedAt = 0, lb_shard = 3, lb_count = 2, lb_expiresAt = 120000\<rparr>], lt_next = 1\<rparr>"

theorem sweep_keeps_live_charges_witness:
  "store_ok (snd (sweepExpired sample_store 59999)) \<and>
   count_at (lt_rows (snd (sweepExpired sample_store 59999))) (BK SK_user ''u'' RC_human_poll 0 3) = 2"
proof -
  have ok: "store_ok sample_store"
    by (simp add: store_ok_def sample_store_def row_ok_def perShardRateLimit_def authenticated_policy_def rate_constants)
  obtain deleted more store' where sweep: "sweepExpired sample_store 59999 = ((deleted, more), store')"
    by (metis prod.collapse)
  from sweep_keeps_live_charges [OF ok sweep]
  have "store_ok store'" "count_at (lt_rows store') (BK SK_user ''u'' RC_human_poll 0 3) =
      count_at (lt_rows sample_store) (BK SK_user ''u'' RC_human_poll 0 3)"
    by (simp_all add: rate_constants)
  moreover have "count_at (lt_rows sample_store) (BK SK_user ''u'' RC_human_poll 0 3) = 2"
    by (simp add: count_at_def row_at_def sample_store_def bucket_key_def)
  ultimately show ?thesis by (simp add: sweep)
qed


subsection \<open>Which operation is limited how\<close>

datatype ApiOperation =
    OP_refreshAuth
  | OP_listOrganizations
  | OP_createOrganization
  | OP_listWorkspaces
  | OP_createWorkspace
  | OP_createAgent
  | OP_listAgents
  | OP_getAgent
  | OP_createAgentEnrollment
  | OP_listAgentCredentials
  | OP_revokeAgentCredential
  | OP_listAgentSessions
  | OP_disableAgent
  | OP_redeemEnrollment
  | OP_startSession
  | OP_context
  | OP_createTask
  | OP_readyTasks
  | OP_claimTask
  | OP_renewClaim
  | OP_releaseClaim
  | OP_listTasks
  | OP_getTask
  | OP_blockedTasks
  | OP_updateTask
  | OP_cancelTask
  | OP_reopenTask
  | OP_assignTask
  | OP_deferTask
  | OP_listTaskLabels
  | OP_addTaskLabel
  | OP_removeTaskLabel
  | OP_listTaskComments
  | OP_addTaskComment
  | OP_listTaskEvents
  | OP_taskGraph
  | OP_listTaskDependencies
  | OP_addTaskDependency
  | OP_removeTaskDependency
  | OP_setTaskParent
  | OP_clearTaskParent
  | OP_listWorkspaceRepositories
  | OP_createWorkspaceRepository
  | OP_removeWorkspaceRepository
  | OP_listTaskReferences
  | OP_addTaskReference
  | OP_removeTaskReference
  | OP_submitTask
  | OP_reviewQueue
  | OP_acceptTask
  | OP_rejectTask

datatype ApiRateLimitRule =
    RR_consume RateLimitRouteClass RateLimitSubjectProfile "RateLimitRouteClass option"
  | RR_failure_only RateLimitRouteClass
  | RR_opaque_pre_auth RateLimitRouteClass

definition human_user_rule :: "RateLimitRouteClass \<Rightarrow> ApiRateLimitRule" where
  "human_user_rule routeClass = RR_consume routeClass SP_human_user None"

definition human_workspace_rule :: "RateLimitRouteClass \<Rightarrow> ApiRateLimitRule" where
  "human_workspace_rule routeClass = RR_consume routeClass SP_human_user_workspace None"

definition agent_rule :: "RateLimitRouteClass \<Rightarrow> ApiRateLimitRule" where
  "agent_rule routeClass = RR_consume routeClass SP_agent_credential_workspace (Some RC_agent_auth_failure)"

fun apiOperationRateLimitClass :: "ApiOperation \<Rightarrow> ApiRateLimitRule" where
  "apiOperationRateLimitClass OP_refreshAuth = RR_opaque_pre_auth RC_refresh_auth"
| "apiOperationRateLimitClass OP_listOrganizations = human_user_rule RC_human_read"
| "apiOperationRateLimitClass OP_createOrganization = human_user_rule RC_human_mutation"
| "apiOperationRateLimitClass OP_listWorkspaces = human_user_rule RC_human_read"
| "apiOperationRateLimitClass OP_createWorkspace = human_user_rule RC_human_mutation"
| "apiOperationRateLimitClass OP_createAgent = human_workspace_rule RC_human_mutation"
| "apiOperationRateLimitClass OP_listAgents = human_workspace_rule RC_human_read"
| "apiOperationRateLimitClass OP_getAgent = human_workspace_rule RC_human_read"
| "apiOperationRateLimitClass OP_createAgentEnrollment = human_workspace_rule RC_human_mutation"
| "apiOperationRateLimitClass OP_listAgentCredentials = human_workspace_rule RC_human_read"
| "apiOperationRateLimitClass OP_revokeAgentCredential = human_workspace_rule RC_human_mutation"
| "apiOperationRateLimitClass OP_listAgentSessions = human_workspace_rule RC_human_read"
| "apiOperationRateLimitClass OP_disableAgent = human_workspace_rule RC_human_mutation"
| "apiOperationRateLimitClass OP_redeemEnrollment = RR_failure_only RC_enrollment_auth_failure"
| "apiOperationRateLimitClass OP_startSession = agent_rule RC_agent_session"
| "apiOperationRateLimitClass OP_context = agent_rule RC_agent_session"
| "apiOperationRateLimitClass OP_createTask = agent_rule RC_agent_write"
| "apiOperationRateLimitClass OP_readyTasks = agent_rule RC_agent_read"
| "apiOperationRateLimitClass OP_claimTask = agent_rule RC_agent_claim"
| "apiOperationRateLimitClass OP_renewClaim = agent_rule RC_agent_claim"
| "apiOperationRateLimitClass OP_releaseClaim = agent_rule RC_agent_claim"
| "apiOperationRateLimitClass OP_listTasks = agent_rule RC_agent_read"
| "apiOperationRateLimitClass OP_getTask = agent_rule RC_agent_read"
| "apiOperationRateLimitClass OP_blockedTasks = agent_rule RC_agent_read"
| "apiOperationRateLimitClass OP_updateTask = agent_rule RC_agent_write"
| "apiOperationRateLimitClass OP_cancelTask = human_workspace_rule RC_human_mutation"
| "apiOperationRateLimitClass OP_reopenTask = human_workspace_rule RC_human_mutation"
| "apiOperationRateLimitClass OP_assignTask = agent_rule RC_agent_write"
| "apiOperationRateLimitClass OP_deferTask = agent_rule RC_agent_write"
| "apiOperationRateLimitClass OP_listTaskLabels = agent_rule RC_agent_read"
| "apiOperationRateLimitClass OP_addTaskLabel = agent_rule RC_agent_write"
| "apiOperationRateLimitClass OP_removeTaskLabel = agent_rule RC_agent_write"
| "apiOperationRateLimitClass OP_listTaskComments = agent_rule RC_agent_read"
| "apiOperationRateLimitClass OP_addTaskComment = agent_rule RC_agent_write"
| "apiOperationRateLimitClass OP_listTaskEvents = agent_rule RC_agent_read"
| "apiOperationRateLimitClass OP_taskGraph = agent_rule RC_agent_read"
| "apiOperationRateLimitClass OP_listTaskDependencies = agent_rule RC_agent_read"
| "apiOperationRateLimitClass OP_addTaskDependency = agent_rule RC_agent_write"
| "apiOperationRateLimitClass OP_removeTaskDependency = agent_rule RC_agent_write"
| "apiOperationRateLimitClass OP_setTaskParent = agent_rule RC_agent_write"
| "apiOperationRateLimitClass OP_clearTaskParent = agent_rule RC_agent_write"
| "apiOperationRateLimitClass OP_listWorkspaceRepositories = human_workspace_rule RC_human_read"
| "apiOperationRateLimitClass OP_createWorkspaceRepository = human_workspace_rule RC_human_mutation"
| "apiOperationRateLimitClass OP_removeWorkspaceRepository = human_workspace_rule RC_human_mutation"
| "apiOperationRateLimitClass OP_listTaskReferences = agent_rule RC_agent_read"
| "apiOperationRateLimitClass OP_addTaskReference = agent_rule RC_agent_write"
| "apiOperationRateLimitClass OP_removeTaskReference = agent_rule RC_agent_write"
| "apiOperationRateLimitClass OP_submitTask = agent_rule RC_agent_review"
| "apiOperationRateLimitClass OP_reviewQueue = agent_rule RC_agent_review"
| "apiOperationRateLimitClass OP_acceptTask = agent_rule RC_agent_review"
| "apiOperationRateLimitClass OP_rejectTask = agent_rule RC_agent_review"

datatype AgentOperationAuthorizationPolicy =
    AP_read string
  | AP_write string
  | AP_session_start

text \<open>The policy of an operation that takes an agent's bearer token, none for the others.\<close>

fun agentOperationAuthorizationPolicy :: "ApiOperation \<Rightarrow> AgentOperationAuthorizationPolicy option" where
  "agentOperationAuthorizationPolicy OP_refreshAuth = None"
| "agentOperationAuthorizationPolicy OP_listOrganizations = None"
| "agentOperationAuthorizationPolicy OP_createOrganization = None"
| "agentOperationAuthorizationPolicy OP_listWorkspaces = None"
| "agentOperationAuthorizationPolicy OP_createWorkspace = None"
| "agentOperationAuthorizationPolicy OP_createAgent = None"
| "agentOperationAuthorizationPolicy OP_listAgents = None"
| "agentOperationAuthorizationPolicy OP_getAgent = None"
| "agentOperationAuthorizationPolicy OP_createAgentEnrollment = None"
| "agentOperationAuthorizationPolicy OP_listAgentCredentials = None"
| "agentOperationAuthorizationPolicy OP_revokeAgentCredential = None"
| "agentOperationAuthorizationPolicy OP_listAgentSessions = None"
| "agentOperationAuthorizationPolicy OP_disableAgent = None"
| "agentOperationAuthorizationPolicy OP_redeemEnrollment = None"
| "agentOperationAuthorizationPolicy OP_startSession = Some AP_session_start"
| "agentOperationAuthorizationPolicy OP_context = Some (AP_read ''tasks:read'')"
| "agentOperationAuthorizationPolicy OP_createTask = Some (AP_write ''tasks:create'')"
| "agentOperationAuthorizationPolicy OP_readyTasks = Some (AP_read ''tasks:read'')"
| "agentOperationAuthorizationPolicy OP_claimTask = Some (AP_write ''tasks:claim'')"
| "agentOperationAuthorizationPolicy OP_renewClaim = Some (AP_write ''tasks:claim'')"
| "agentOperationAuthorizationPolicy OP_releaseClaim = Some (AP_write ''tasks:claim'')"
| "agentOperationAuthorizationPolicy OP_listTasks = Some (AP_read ''tasks:read'')"
| "agentOperationAuthorizationPolicy OP_getTask = Some (AP_read ''tasks:read'')"
| "agentOperationAuthorizationPolicy OP_blockedTasks = Some (AP_read ''tasks:read'')"
| "agentOperationAuthorizationPolicy OP_updateTask = Some (AP_write ''tasks:edit'')"
| "agentOperationAuthorizationPolicy OP_cancelTask = None"
| "agentOperationAuthorizationPolicy OP_reopenTask = None"
| "agentOperationAuthorizationPolicy OP_assignTask = Some (AP_write ''tasks:assign'')"
| "agentOperationAuthorizationPolicy OP_deferTask = Some (AP_write ''tasks:edit'')"
| "agentOperationAuthorizationPolicy OP_listTaskLabels = Some (AP_read ''tasks:read'')"
| "agentOperationAuthorizationPolicy OP_addTaskLabel = Some (AP_write ''tasks:edit'')"
| "agentOperationAuthorizationPolicy OP_removeTaskLabel = Some (AP_write ''tasks:edit'')"
| "agentOperationAuthorizationPolicy OP_listTaskComments = Some (AP_read ''tasks:read'')"
| "agentOperationAuthorizationPolicy OP_addTaskComment = Some (AP_write ''comments:write'')"
| "agentOperationAuthorizationPolicy OP_listTaskEvents = Some (AP_read ''tasks:read'')"
| "agentOperationAuthorizationPolicy OP_taskGraph = Some (AP_read ''tasks:read'')"
| "agentOperationAuthorizationPolicy OP_listTaskDependencies = Some (AP_read ''tasks:read'')"
| "agentOperationAuthorizationPolicy OP_addTaskDependency = Some (AP_write ''dependencies:write'')"
| "agentOperationAuthorizationPolicy OP_removeTaskDependency = Some (AP_write ''dependencies:write'')"
| "agentOperationAuthorizationPolicy OP_setTaskParent = Some (AP_write ''dependencies:write'')"
| "agentOperationAuthorizationPolicy OP_clearTaskParent = Some (AP_write ''dependencies:write'')"
| "agentOperationAuthorizationPolicy OP_listWorkspaceRepositories = None"
| "agentOperationAuthorizationPolicy OP_createWorkspaceRepository = None"
| "agentOperationAuthorizationPolicy OP_removeWorkspaceRepository = None"
| "agentOperationAuthorizationPolicy OP_listTaskReferences = Some (AP_read ''tasks:read'')"
| "agentOperationAuthorizationPolicy OP_addTaskReference = Some (AP_write ''tasks:edit'')"
| "agentOperationAuthorizationPolicy OP_removeTaskReference = Some (AP_write ''tasks:edit'')"
| "agentOperationAuthorizationPolicy OP_submitTask = Some (AP_write ''tasks:submit'')"
| "agentOperationAuthorizationPolicy OP_reviewQueue = Some (AP_read ''tasks:review'')"
| "agentOperationAuthorizationPolicy OP_acceptTask = Some (AP_write ''tasks:review'')"
| "agentOperationAuthorizationPolicy OP_rejectTask = Some (AP_write ''tasks:review'')"

text \<open>The operations in the order of the policy object, and those the read limiter accepts.\<close>

definition agent_operations :: "ApiOperation list" where
  "agent_operations = [OP_startSession, OP_context, OP_createTask, OP_readyTasks, OP_claimTask, OP_renewClaim, OP_releaseClaim, OP_listTasks, OP_getTask, OP_blockedTasks, OP_updateTask, OP_assignTask, OP_deferTask, OP_listTaskLabels, OP_addTaskLabel, OP_removeTaskLabel, OP_listTaskComments, OP_addTaskComment, OP_listTaskEvents, OP_taskGraph, OP_listTaskDependencies, OP_addTaskDependency, OP_removeTaskDependency, OP_setTaskParent, OP_clearTaskParent, OP_listTaskReferences, OP_addTaskReference, OP_removeTaskReference, OP_submitTask, OP_reviewQueue, OP_acceptTask, OP_rejectTask]"

definition agentReadOperations :: "ApiOperation list" where
  "agentReadOperations = filter (\<lambda>operation.
     case agentOperationAuthorizationPolicy operation of Some (AP_read scope) \<Rightarrow> True | _ \<Rightarrow> False) agent_operations"

definition agentReadOperationValidator :: "ApiOperation list" where
  "agentReadOperationValidator = [OP_context, OP_readyTasks, OP_listTasks, OP_getTask, OP_blockedTasks, OP_listTaskLabels, OP_listTaskComments, OP_listTaskEvents, OP_taskGraph, OP_listTaskDependencies, OP_listTaskReferences, OP_reviewQueue]"

definition isAgentReadOperation :: "ApiOperation \<Rightarrow> bool" where
  "isAgentReadOperation operation \<longleftrightarrow> operation \<in> set agentReadOperations"

text \<open>Every rule of the table asks for subjects its route class accepts and has limits for.\<close>

fun rule_ok :: "ApiRateLimitRule \<Rightarrow> bool" where
  "rule_ok (RR_consume routeClass profile failureClass) \<longleftrightarrow>
     dimensionsAreValid routeClass (js_set (subjectKindsForProfile profile)) \<and>
     list_all (\<lambda>k. perShardRateLimit routeClass k \<noteq> None) (subjectKindsForProfile profile) \<and>
     (case failureClass of None \<Rightarrow> True | Some c \<Rightarrow> dimensionsAreValid c [SK_unauthenticated])"
| "rule_ok (RR_failure_only routeClass) \<longleftrightarrow> dimensionsAreValid routeClass [SK_unauthenticated]"
| "rule_ok (RR_opaque_pre_auth routeClass) \<longleftrightarrow> dimensionsAreValid routeClass [SK_unauthenticated]"

text \<open>
  The tables agree. Every operation's rule names subjects that its route class accepts and has
  a limit for, exactly the operations that run as an agent have an authorization policy, and the
  list of reads that the validating limiter accepts is exactly the list of policies of kind read,
  so no write is ever charged by the read limiter.
\<close>

theorem operation_tables_agree:
  "rule_ok (apiOperationRateLimitClass operation) \<and>
   (agentOperationAuthorizationPolicy operation \<noteq> None \<longleftrightarrow>
      (\<exists>c. apiOperationRateLimitClass operation = agent_rule c)) \<and>
   (isAgentReadOperation operation \<longleftrightarrow> (\<exists>scope. agentOperationAuthorizationPolicy operation = Some (AP_read scope))) \<and>
   set agentReadOperations = set agentReadOperationValidator"
proof (intro conjI)
  show "rule_ok (apiOperationRateLimitClass operation)"
    by (cases operation) (simp_all add: human_user_rule_def human_workspace_rule_def agent_rule_def
        dimensionsAreValid_def js_set_def perShardRateLimit_def authenticated_policy_def Let_def)
  show "agentOperationAuthorizationPolicy operation \<noteq> None \<longleftrightarrow> (\<exists>c. apiOperationRateLimitClass operation = agent_rule c)"
    by (cases operation) (simp_all add: human_user_rule_def human_workspace_rule_def agent_rule_def)
  show "isAgentReadOperation operation \<longleftrightarrow> (\<exists>scope. agentOperationAuthorizationPolicy operation = Some (AP_read scope))"
    by (cases operation) (simp_all add: isAgentReadOperation_def agentReadOperations_def agent_operations_def)
  show "set agentReadOperations = set agentReadOperationValidator"
    by (simp add: agentReadOperations_def agent_operations_def agentReadOperationValidator_def)
qed

end
