(* ===== verification/ClaimLaws.thy ===== *)
theory ClaimLaws
  imports GraphLaws RunnerLaws
begin

text \<open>
  The documents of a claimed task and the laws of \<open>apps/web/convex/workGraphLaws.ts\<close>: the tuples
  that tie a loaded row to its tenant and its task, the guard every claim-bound command shares,
  the next fence, and the decision of a scheduled expiry. A task carries a compact copy of its
  current claim; the durable claim is a row of its own.
\<close>

subsection \<open>Tasks and claims\<close>

record CompactClaim =
  cc_claimId :: nat
  cc_publicId :: string
  cc_agentId :: nat
  cc_agentPublicId :: string
  cc_fence :: int
  cc_leaseGeneration :: int
  cc_leaseUntil :: int

text \<open>Who did something: an agent with its credential and session, a human, or a job.\<close>

datatype EventActor =
    EA_agent string string string
  | EA_human string
  | EA_system string string

record Task =
  tk_id :: nat
  tk_organizationId :: nat
  tk_workspaceId :: nat
  tk_publicId :: string
  tk_key :: string
  tk_title :: string
  tk_type :: string
  tk_priority :: int
  tk_status :: TaskStatus
  tk_availableAt :: int
  tk_isReady :: bool
  tk_isBlocked :: "bool option"
  tk_needsAttention :: "bool option"
  tk_unresolvedBlockerCount :: int
  tk_cancelledBlockerCount :: int
  tk_revision :: int
  tk_reviewRevision :: int
  tk_assigneeAgentPublicId :: "string option"
  tk_readySince :: "int option"
  tk_wakeGeneration :: "int option"
  tk_claimFence :: int
  tk_currentClaim :: "CompactClaim option"
  tk_parentTaskId :: "nat option"
  tk_createdBy :: "EventActor option"
  tk_lastEditedBy :: "EventActor option"
  tk_submittedAt :: "int option"
  tk_completedAt :: "int option"
  tk_cancelledAt :: "int option"
  tk_createdAt :: int
  tk_updatedAt :: int

datatype ClaimState = CS_active | CS_released | CS_expired | CS_submitted | CS_replaced

record TaskClaim =
  cl_id :: nat
  cl_organizationId :: nat
  cl_workspaceId :: nat
  cl_taskId :: nat
  cl_publicId :: string
  cl_agentId :: nat
  cl_agentPublicId :: string
  cl_state :: ClaimState
  cl_fence :: int
  cl_leaseGeneration :: int
  cl_leaseUntil :: int
  cl_sweepSuppressed :: "bool option"
  cl_endedAt :: "int option"
  cl_createdAt :: int
  cl_updatedAt :: int

subsection \<open>Tuples\<close>

text \<open>A scope is an organization and a workspace; a task-owned row adds the task.\<close>

definition taskMatchesAuthorizedScope :: "nat \<times> nat \<Rightarrow> nat \<times> nat \<Rightarrow> bool" where
  "taskMatchesAuthorizedScope authorized task \<longleftrightarrow> fst task = fst authorized \<and> snd task = snd authorized"

definition taskScopedRecordMatches :: "nat \<times> nat \<times> nat \<Rightarrow> nat \<times> nat \<times> nat \<Rightarrow> bool" where
  "taskScopedRecordMatches task row \<longleftrightarrow>
     fst row = fst task \<and> fst (snd row) = fst (snd task) \<and> snd (snd row) = snd (snd task)"

definition parentTaskTupleMatches :: "nat \<times> nat \<times> nat \<Rightarrow> nat \<times> nat \<times> nat \<Rightarrow> bool" where
  "parentTaskTupleMatches taskWithParent parent \<longleftrightarrow>
     fst parent = fst taskWithParent \<and> fst (snd parent) = fst (snd taskWithParent) \<and>
     snd (snd parent) = snd (snd taskWithParent)"

record TaskDependency =
  dp_organizationId :: nat
  dp_workspaceId :: nat
  dp_blockerTaskId :: nat
  dp_blockedTaskId :: nat
  dp_kind :: string
  dp_id :: nat
  dp_createdBy :: EventActor
  dp_createdAt :: int

definition dependencyTupleMatches :: "TaskDependency \<Rightarrow> Task \<Rightarrow> Task \<Rightarrow> bool" where
  "dependencyTupleMatches dependency blocker blocked \<longleftrightarrow>
     dp_organizationId dependency = tk_organizationId blocker \<and>
     dp_organizationId dependency = tk_organizationId blocked \<and>
     dp_workspaceId dependency = tk_workspaceId blocker \<and>
     dp_workspaceId dependency = tk_workspaceId blocked \<and>
     dp_blockerTaskId dependency = tk_id blocker \<and>
     dp_blockedTaskId dependency = tk_id blocked"

definition dependencyMatchesTasks :: "TaskDependency \<Rightarrow> Task \<Rightarrow> Task \<Rightarrow> bool" where
  "dependencyMatchesTasks dependency blocker blocked \<longleftrightarrow>
     dp_kind dependency = ''blocks'' \<and> dependencyTupleMatches dependency blocker blocked"

record AgentGrantTupleInput =
  ag_authorizedOrganizationId :: nat
  ag_authorizedWorkspaceId :: nat
  ag_agentOrganizationId :: nat
  ag_agentId :: nat
  ag_grantOrganizationId :: nat
  ag_grantWorkspaceId :: nat
  ag_grantAgentId :: nat

definition agentGrantTupleMatches :: "AgentGrantTupleInput \<Rightarrow> bool" where
  "agentGrantTupleMatches input \<longleftrightarrow>
     ag_agentOrganizationId input = ag_authorizedOrganizationId input \<and>
     ag_grantOrganizationId input = ag_authorizedOrganizationId input \<and>
     ag_grantWorkspaceId input = ag_authorizedWorkspaceId input \<and>
     ag_grantAgentId input = ag_agentId input"

definition activeTaskClaimTupleMatches :: "Task \<Rightarrow> CompactClaim \<Rightarrow> TaskClaim \<Rightarrow> bool" where
  "activeTaskClaimTupleMatches task compact claim \<longleftrightarrow>
     tk_status task = TS_in_progress \<and>
     cl_state claim = CS_active \<and>
     cl_organizationId claim = tk_organizationId task \<and>
     cl_workspaceId claim = tk_workspaceId task \<and>
     cl_taskId claim = tk_id task \<and>
     cl_id claim = cc_claimId compact \<and>
     cl_publicId claim = cc_publicId compact \<and>
     cl_agentId claim = cc_agentId compact \<and>
     cl_agentPublicId claim = cc_agentPublicId compact \<and>
     cl_fence claim = cc_fence compact \<and>
     cl_leaseGeneration claim = cc_leaseGeneration compact \<and>
     cl_leaseUntil claim = cc_leaseUntil compact"

definition activeClaimMatchesTask :: "Task \<Rightarrow> TaskClaim option \<Rightarrow> bool" where
  "activeClaimMatchesTask task claim =
     (case (tk_currentClaim task, claim) of
        (Some compact, Some durable) \<Rightarrow> activeTaskClaimTupleMatches task compact durable
      | _ \<Rightarrow> False)"

lemma activeClaimMatchesTaskE:
  assumes "activeClaimMatchesTask task claim"
  obtains compact durable where "tk_currentClaim task = Some compact" "claim = Some durable"
    "activeTaskClaimTupleMatches task compact durable"
  using assms by (auto simp: activeClaimMatchesTask_def split: option.splits)

subsection \<open>Claim-bound commands\<close>

datatype ClaimCommandKind = CK_renew | CK_release | CK_submit

datatype ClaimCommandDisposition =
  CD_allowed | CD_task_state_conflict | CD_claim_not_owned | CD_claim_stale | CD_lease_not_renewable

definition claimCommandDisposition ::
  "ClaimCommandKind \<Rightarrow> TaskStatus \<Rightarrow> bool \<Rightarrow> nat option \<Rightarrow> nat \<Rightarrow> int option \<Rightarrow> int \<Rightarrow> int option \<Rightarrow> int \<Rightarrow>
   int option \<Rightarrow> ClaimCommandDisposition" where
  "claimCommandDisposition command taskStatus hasCurrentClaim currentAgentId authorizedAgentId
     currentFence requestedFence currentLeaseUntil now renewalThresholdMs =
     (if taskStatus \<noteq> TS_in_progress \<or> \<not> hasCurrentClaim then CD_task_state_conflict
      else case (currentAgentId, currentFence, currentLeaseUntil) of
        (Some agentId, Some fence, Some leaseUntil) \<Rightarrow>
          (if agentId \<noteq> authorizedAgentId then CD_claim_not_owned
           else if fence \<noteq> requestedFence then CD_claim_stale
           else let remaining = leaseUntil - now in
             if command = CK_renew
             then (case renewalThresholdMs of
                     None \<Rightarrow> CD_lease_not_renewable
                   | Some threshold \<Rightarrow>
                       (if remaining \<le> 0 \<or> remaining > threshold then CD_lease_not_renewable else CD_allowed))
             else if remaining \<le> 0 then CD_claim_stale
             else CD_allowed)
      | _ \<Rightarrow> CD_task_state_conflict)"

definition nextClaimFence :: "int \<Rightarrow> int option" where
  "nextClaimFence currentFence =
     (if \<not> is_safe_integer currentFence \<or> currentFence < 0 then None
      else let next' = currentFence + 1 in if is_safe_integer next' then Some next' else None)"

datatype ScheduledClaimDisposition = SD_expire | SD_reschedule | SD_stale

definition scheduledClaimDisposition ::
  "bool \<Rightarrow> nat \<Rightarrow> nat option \<Rightarrow> int \<Rightarrow> int option \<Rightarrow> int \<Rightarrow> int option \<Rightarrow> int \<Rightarrow> int option \<Rightarrow> int \<Rightarrow>
   ScheduledClaimDisposition" where
  "scheduledClaimDisposition activeTupleMatches scheduledClaimId currentClaimId scheduledFence currentFence
     scheduledLeaseGeneration currentLeaseGeneration scheduledDeadline currentLeaseUntil now =
     (if \<not> activeTupleMatches \<or> currentClaimId \<noteq> Some scheduledClaimId \<or> currentFence \<noteq> Some scheduledFence \<or>
         currentLeaseGeneration \<noteq> Some scheduledLeaseGeneration \<or> currentLeaseUntil \<noteq> Some scheduledDeadline
      then SD_stale
      else if now < scheduledDeadline then SD_reschedule else SD_expire)"

text \<open>
  Each instant of a live claim admits exactly the commands it should. For the owner with the
  current fence, submit and release are allowed exactly before the deadline, renewal exactly in
  the last part of the lease, and expiry exactly from the deadline on, so no instant admits both
  a claim-bound write and the expiry; for anyone else, and for any other fence, nothing is allowed.
\<close>

theorem claim_instants_partition:
  assumes "activeTaskClaimTupleMatches task compact durable" and "tk_currentClaim task = Some compact"
  defines "disposition \<equiv> (\<lambda>command agent fence now. claimCommandDisposition command (tk_status task) True
      (Some (cc_agentId compact)) agent (Some (cc_fence compact)) fence (Some (cc_leaseUntil compact)) now
      (Some CLAIM_RENEWAL_THRESHOLD_MS))"
    and "expiry \<equiv> (\<lambda>now. scheduledClaimDisposition (activeClaimMatchesTask task (Some durable)) (cl_id durable)
      (Some (cc_claimId compact)) (cl_fence durable) (Some (cc_fence compact)) (cl_leaseGeneration durable)
      (Some (cc_leaseGeneration compact)) (cl_leaseUntil durable) (Some (cc_leaseUntil compact)) now)"
  shows "(disposition CK_submit agent fence now = CD_allowed \<longleftrightarrow>
            agent = cl_agentId durable \<and> fence = cl_fence durable \<and> now < cl_leaseUntil durable) \<and>
    (disposition CK_release agent fence now = CD_allowed \<longleftrightarrow>
            agent = cl_agentId durable \<and> fence = cl_fence durable \<and> now < cl_leaseUntil durable) \<and>
    (disposition CK_renew agent fence now = CD_allowed \<longleftrightarrow>
            agent = cl_agentId durable \<and> fence = cl_fence durable \<and>
            cl_leaseUntil durable - CLAIM_RENEWAL_THRESHOLD_MS \<le> now \<and> now < cl_leaseUntil durable) \<and>
    (expiry now = SD_expire \<longleftrightarrow> cl_leaseUntil durable \<le> now) \<and> expiry now \<noteq> SD_stale"
  using assms(1,2)
  by (auto simp: disposition_def expiry_def claimCommandDisposition_def scheduledClaimDisposition_def Let_def
      activeTaskClaimTupleMatches_def activeClaimMatchesTask_def)

definition sample_compact :: CompactClaim where
  "sample_compact = \<lparr>cc_claimId = 7, cc_publicId = ''clm'', cc_agentId = 3, cc_agentPublicId = ''agt'', cc_fence = 2,
     cc_leaseGeneration = 1, cc_leaseUntil = 900000\<rparr>"

definition sample_claim :: TaskClaim where
  "sample_claim = \<lparr>cl_id = 7, cl_organizationId = 1, cl_workspaceId = 2, cl_taskId = 5, cl_publicId = ''clm'',
     cl_agentId = 3, cl_agentPublicId = ''agt'', cl_state = CS_active, cl_fence = 2, cl_leaseGeneration = 1,
     cl_leaseUntil = 900000, cl_sweepSuppressed = None, cl_endedAt = None, cl_createdAt = 0, cl_updatedAt = 0\<rparr>"

definition sample_task :: Task where
  "sample_task = \<lparr>tk_id = 5, tk_organizationId = 1, tk_workspaceId = 2, tk_publicId = ''tsk'', tk_key = ''HR-0000001'',
     tk_title = ''t'', tk_type = ''task'', tk_priority = 1, tk_status = TS_in_progress, tk_availableAt = 0,
     tk_isReady = False, tk_isBlocked = Some False, tk_needsAttention = Some False, tk_unresolvedBlockerCount = 0, tk_cancelledBlockerCount = 0, tk_revision = 4,
     tk_reviewRevision = 1, tk_assigneeAgentPublicId = None, tk_readySince = None, tk_wakeGeneration = Some 0,
     tk_claimFence = 2, tk_currentClaim = Some sample_compact, tk_parentTaskId = None,
     tk_createdBy = None, tk_lastEditedBy = None, tk_submittedAt = None, tk_completedAt = None, tk_cancelledAt = None,
     tk_createdAt = 0, tk_updatedAt = 0\<rparr>"

lemma sample_tuple: "activeTaskClaimTupleMatches sample_task sample_compact sample_claim"
  by (simp add: activeTaskClaimTupleMatches_def sample_task_def sample_compact_def sample_claim_def)

theorem claim_instants_partition_witness:
  "claimCommandDisposition CK_renew TS_in_progress True (Some 3) 3 (Some 2) 2 (Some 900000) 600000
     (Some CLAIM_RENEWAL_THRESHOLD_MS) = CD_allowed"
  using claim_instants_partition [OF sample_tuple, of 3 2 600000]
  by (simp add: sample_task_def sample_compact_def sample_claim_def lease_constants)

end
