(* ===== verification/TaskStore.thy ===== *)
theory TaskStore
  imports ClaimLaws Projection RateLimit
begin

text \<open>
  The document store that the task mutations of \<open>apps/web/convex\<close> share, and their helpers:
  request metadata and receipts (\<open>domain.ts\<close>), agent authorization (\<open>authorization.ts\<close>), the
  dispatch guard (\<open>dispatchSafety.ts\<close>), task events (\<open>events.ts\<close>), and the counter check and
  repair queue of \<open>workGraph.ts\<close>.

  A table is the list of its documents in creation order and carries their identifiers; an
  inserted document gets the next identifier. A mutation returns a result and the new store and
  commits both, domain failures included; a thrown error is \<open>None\<close> and commits nothing. Time,
  random public identifiers and the JSON codec of a receipt are arguments.
\<close>

subsection \<open>Tables\<close>

definition get_row :: "('r \<Rightarrow> nat) \<Rightarrow> 'r list \<Rightarrow> nat \<Rightarrow> 'r option" where
  "get_row key rows i = find (\<lambda>r. key r = i) rows"

lemma get_row_map:
  "(\<And>r. r \<in> set rows \<Longrightarrow> key (g r) = key r) \<Longrightarrow> get_row key (map g rows) i = map_option g (get_row key rows i)"
  by (induction rows) (auto simp: get_row_def)

definition patch_row :: "('r \<Rightarrow> nat) \<Rightarrow> nat \<Rightarrow> ('r \<Rightarrow> 'r) \<Rightarrow> 'r list \<Rightarrow> 'r list" where
  "patch_row key i f rows = map (\<lambda>r. if key r = i then f r else r) rows"

named_theorems table_simps \<open>how a table reads after a write\<close>

lemma get_row_Nil [table_simps]: "get_row key [] i = None"
  by (simp add: get_row_def)

lemma get_row_Cons [table_simps]: "get_row key (r # rows) i = (if key r = i then Some r else get_row key rows i)"
  by (simp add: get_row_def)

lemma get_row_append [table_simps]:
  "get_row key (rows @ [r]) i = (case get_row key rows i of None \<Rightarrow> if key r = i then Some r else None | Some s \<Rightarrow> Some s)"
  by (induction rows) (simp_all add: get_row_def)

lemma get_row_patch [table_simps]:
  "(\<And>r. key (f r) = key r) \<Longrightarrow>
   get_row key (patch_row key i f rows) j = (if i = j then map_option f (get_row key rows j) else get_row key rows j)"
  by (induction rows) (auto simp: get_row_def patch_row_def)

lemma get_row_Some: "get_row key rows i = Some r \<Longrightarrow> r \<in> set rows \<and> key r = i"
  by (auto simp: get_row_def find_Some_iff)

lemma get_row_None: "get_row key rows i = None \<longleftrightarrow> i \<notin> key ` set rows"
  by (auto simp: get_row_def find_None_iff)

lemma get_row_mem: "distinct (map key rows) \<Longrightarrow> r \<in> set rows \<Longrightarrow> get_row key rows (key r) = Some r"
  by (induction rows) (auto simp: get_row_def)

lemma keys_patch [table_simps]: "(\<And>r. key (f r) = key r) \<Longrightarrow> map key (patch_row key i f rows) = map key rows"
  by (simp add: patch_row_def)

lemma set_patch: "set (patch_row key i f rows) = (\<lambda>r. if key r = i then f r else r) ` set rows"
  by (simp add: patch_row_def)

subsection \<open>Failures\<close>

datatype ErrorCode =
    EC_VALIDATION_ERROR | EC_IDEMPOTENCY_REQUIRED | EC_IDEMPOTENCY_EXPIRED | EC_IDEMPOTENCY_CONFLICT
  | EC_AUTHENTICATION_FAILED | EC_SESSION_INVALID | EC_AUTHORIZATION_DENIED | EC_SCOPE_REQUIRED
  | EC_RATE_LIMITED | EC_SERVICE_UNAVAILABLE | EC_INTERNAL_ERROR | EC_NOT_FOUND | EC_DEFER_HORIZON
  | EC_PROJECTION_MISMATCH | EC_TASK_BLOCKED | EC_TASK_NOT_READY | EC_TASK_ALREADY_CLAIMED
  | EC_TASK_STATE_CONFLICT | EC_CLAIM_NOT_OWNED | EC_CLAIM_STALE | EC_LEASE_NOT_RENEWABLE
  | EC_TASK_IN_REVIEW | EC_DEPENDENCY_CYCLE | EC_DEPENDENCY_DUPLICATE | EC_BLOCKER_LIMIT | EC_DEPENDENT_LIMIT
  | EC_GRAPH_VALIDATION_LIMIT | EC_SUBMISSION_STALE | EC_SELF_REVIEW_DENIED | EC_WORKSPACE_TASK_LIMIT
  | EC_WORKSPACE_ROLE_REQUIRED | EC_MEMBERSHIP_INACTIVE | EC_ORGANIZATION_REQUIRED | EC_ORGANIZATION_MISMATCH
  | EC_PROVISIONING_IN_PROGRESS | EC_PROVISIONING_FAILED

datatype detail = DT_text string | DT_number int

record DomainError =
  de_code :: ErrorCode
  de_requestId :: string
  de_details :: "(string \<times> detail) list"

definition domainFailure :: "ErrorCode \<Rightarrow> string \<Rightarrow> (string \<times> detail) list \<Rightarrow> DomainError" where
  "domainFailure code requestId details = \<lparr>de_code = code, de_requestId = requestId, de_details = details\<rparr>"

subsection \<open>Documents\<close>

record Organization =
  og_id :: nat
  og_publicId :: string
  og_workosOrganizationId :: "string option"
  og_name :: string
  og_status :: string

record Workspace =
  ws_id :: nat
  ws_organizationId :: nat
  ws_publicId :: string
  ws_slug :: string
  ws_name :: string
  ws_taskKeyPrefix :: string
  ws_status :: string

record Agent =
  an_id :: nat
  an_organizationId :: nat
  an_publicId :: string
  an_name :: string
  an_status :: string

record Grant =
  gr_id :: nat
  gr_organizationId :: nat
  gr_workspaceId :: nat
  gr_agentId :: nat
  gr_status :: string
  gr_scopes :: "string list"

record Credential =
  cr_id :: nat
  cr_locator :: string
  cr_organizationId :: nat
  cr_workspaceId :: nat
  cr_agentId :: nat
  cr_grantId :: nat
  cr_scopes :: "string list"
  cr_status :: string
  cr_expiresAt :: int
  cr_lastUsedAt :: int

record Session =
  se_id :: nat
  se_publicId :: string
  se_organizationId :: nat
  se_workspaceId :: nat
  se_agentId :: nat
  se_credentialId :: nat
  se_status :: string
  se_lastSeenAt :: int
  se_idleExpiresAt :: int

text \<open>
  The columns of a dispatch that the task mutations read; \<open>dr_hold\<close> are those that a dispatch has
  once a runner holds it.
\<close>

record DispatchHold =
  dh_runnerId :: nat
  dh_runnerPublicId :: string
  dh_bootId :: string
  dh_bootGeneration :: int
  dh_taskClaimId :: nat
  dh_taskClaimPublicId :: string
  dh_claimFence :: int
  dh_leaseUntil :: int

record DispatchRow =
  dr_id :: nat
  dr_organizationId :: nat
  dr_workspaceId :: nat
  dr_taskId :: nat
  dr_publicId :: string
  dr_taskKey :: string
  dr_phase :: RunPhase
  dr_hold :: "DispatchHold option"
  dr_queuedTaskRevision :: int
  dr_queuedClaimFence :: int
  dr_candidateOrderAt :: int
  dr_updatedAt :: int

datatype WakeState = WS_pending | WS_completed | WS_stale

record TaskWake =
  wk_id :: nat
  wk_organizationId :: nat
  wk_workspaceId :: nat
  wk_taskId :: nat
  wk_generation :: int
  wk_expectedAvailableAt :: int
  wk_state :: WakeState
  wk_completedAt :: "int option"
  wk_createdAt :: int

datatype RepairKind = RK_task_readiness | RK_task_claim | RK_task_review

datatype RepairStatus = RT_pending | RT_completed | RT_stale

record ProjectionRepair =
  pr_id :: nat
  pr_organizationId :: nat
  pr_workspaceId :: nat
  pr_taskId :: nat
  pr_kind :: RepairKind
  pr_generation :: int
  pr_expectedRevision :: int
  pr_status :: RepairStatus
  pr_createdAt :: int
  pr_updatedAt :: int

datatype EventCommand =
    EM_client string string
  | EM_system string

record TaskEvent =
  te_id :: nat
  te_publicId :: string
  te_organizationId :: nat
  te_workspaceId :: nat
  te_taskId :: nat
  te_taskPublicId :: string
  te_taskRevision :: int
  te_type :: string
  te_actor :: EventActor
  te_command :: EventCommand
  te_payload :: "(string \<times> detail) list"
  te_createdAt :: int

record CommandReceipt =
  rc_id :: nat
  rc_principalKind :: string
  rc_principalId :: string
  rc_organizationId :: nat
  rc_workspaceId :: nat
  rc_operation :: string
  rc_idempotencyKey :: string
  rc_requestDigest :: string
  rc_requestId :: string
  rc_responseJson :: string
  rc_createdAt :: int
  rc_expiresAt :: int

text \<open>What a task carries besides its row, the people of a tenant, and the runners.\<close>

record TaskBody =
  tb_organizationId :: nat
  tb_workspaceId :: nat
  tb_taskId :: nat
  tb_description :: string

record TaskLabel =
  tl_organizationId :: nat
  tl_workspaceId :: nat
  tl_taskId :: nat
  tl_label :: string

record WorkspaceUsage =
  us_id :: nat
  us_organizationId :: nat
  us_workspaceId :: nat
  us_activeTasks :: int
  us_totalTasks :: int
  us_updatedAt :: int

datatype SubmissionEvidence =
    SE_commit string "string option"
  | SE_pull_request string
  | SE_artifact string string
  | SE_url string string
  | SE_test string
  | SE_note string

text \<open>A submission is pending or carries what ended it: who, when and why.\<close>

datatype SubmissionStatus =
    SS_pending
  | SS_accepted EventActor int
  | SS_rejected EventActor int string
  | SS_cancelled EventActor int string

record TaskSubmission =
  ts_id :: nat
  ts_organizationId :: nat
  ts_workspaceId :: nat
  ts_taskId :: nat
  ts_publicId :: string
  ts_dispatchPublicId :: "string option"
  ts_submittedBy :: "string \<times> string \<times> string"
  ts_reviewRevision :: int
  ts_summary :: string
  ts_evidence :: "SubmissionEvidence list"
  ts_submittedAt :: int
  ts_status :: SubmissionStatus

record TaskCancellation =
  tx_organizationId :: nat
  tx_workspaceId :: nat
  tx_taskId :: nat
  tx_reason :: string
  tx_actor :: EventActor
  tx_cancelledAt :: int

record User =
  hu_id :: nat
  hu_publicId :: string
  hu_workosUserId :: "string option"
  hu_status :: string

record OrganizationMembership =
  om_organizationId :: nat
  om_userId :: nat
  om_role :: string
  om_status :: string

record WorkspaceMembership =
  wm_workspaceId :: nat
  wm_userId :: nat
  wm_roles :: "string list"
  wm_status :: string

record HumanReceipt =
  hk_principalKind :: string
  hk_principalId :: string
  hk_organizationId :: "nat option"
  hk_operation :: string
  hk_idempotencyKey :: string
  hk_requestDigest :: string
  hk_requestId :: string
  hk_responseJson :: string
  hk_createdAt :: int
  hk_expiresAt :: int

record DispatchRunnerRow =
  dn_id :: nat
  dn_organizationId :: nat
  dn_workspaceId :: nat
  dn_agentId :: nat
  dn_publicId :: string
  dn_installationId :: string
  dn_bootId :: string
  dn_bootGeneration :: int
  dn_leaseUntil :: int

record DispatchAuthorityRow =
  da_organizationId :: nat
  da_workspaceId :: nat
  da_runnerId :: nat
  da_runnerPublicId :: string
  da_installationId :: string
  da_generation :: int
  da_leaseUntil :: int

datatype Job =
    JB_expireClaim nat nat int int int
  | JB_wakeTask nat nat int int
  | JB_repair nat int
  | JB_sweepOverdueClaims
  | JB_sweepDueWakes

record Db =
  db_next :: nat
  db_organizations :: "Organization list"
  db_workspaces :: "Workspace list"
  db_agents :: "Agent list"
  db_grants :: "Grant list"
  db_credentials :: "Credential list"
  db_sessions :: "Session list"
  db_tasks :: "Task list"
  db_claims :: "TaskClaim list"
  db_dependencies :: "TaskDependency list"
  db_dispatches :: "DispatchRow list"
  db_wakes :: "TaskWake list"
  db_repairs :: "ProjectionRepair list"
  db_events :: "TaskEvent list"
  db_receipts :: "CommandReceipt list"
  db_jobs :: "(int \<times> Job) list"
  db_projection :: ProjectionStore
  db_rates :: RateLimitStore
  db_bodies :: "TaskBody list"
  db_labels :: "TaskLabel list"
  db_usage :: "WorkspaceUsage list"
  db_submissions :: "TaskSubmission list"
  db_cancellations :: "TaskCancellation list"
  db_users :: "User list"
  db_memberships :: "OrganizationMembership list"
  db_workspaceMemberships :: "WorkspaceMembership list"
  db_humanReceipts :: "HumanReceipt list"
  db_runners :: "DispatchRunnerRow list"
  db_authorities :: "DispatchAuthorityRow list"

abbreviation get_task :: "Db \<Rightarrow> nat \<Rightarrow> Task option" where
  "get_task db \<equiv> get_row tk_id (db_tasks db)"

abbreviation get_claim :: "Db \<Rightarrow> nat \<Rightarrow> TaskClaim option" where
  "get_claim db \<equiv> get_row cl_id (db_claims db)"

definition patch_task :: "nat \<Rightarrow> (Task \<Rightarrow> Task) \<Rightarrow> Db \<Rightarrow> Db" where
  "patch_task i f db = db \<lparr>db_tasks := patch_row tk_id i f (db_tasks db)\<rparr>"

definition patch_claim :: "nat \<Rightarrow> (TaskClaim \<Rightarrow> TaskClaim) \<Rightarrow> Db \<Rightarrow> Db" where
  "patch_claim i f db = db \<lparr>db_claims := patch_row cl_id i f (db_claims db)\<rparr>"

definition run_at :: "int \<Rightarrow> Job \<Rightarrow> Db \<Rightarrow> Db" where
  "run_at time job db = db \<lparr>db_jobs := db_jobs db @ [(time, job)]\<rparr>"


subsection \<open>Request metadata\<close>

definition IDEMPOTENCY_WINDOW_MS :: int where "IDEMPOTENCY_WINDOW_MS = 7 * 24 * 60 * 60 * 1000"
definition IDEMPOTENCY_FUTURE_SKEW_MS :: int where "IDEMPOTENCY_FUTURE_SKEW_MS = 5 * 60 * 1000"
definition MAX_COMMAND_RECEIPT_BYTES :: int where "MAX_COMMAND_RECEIPT_BYTES = 512 * 1024"
definition AGENT_SESSION_IDLE_MS :: int where "AGENT_SESSION_IDLE_MS = 20 * 60 * 1000"
definition AGENT_SESSION_HEARTBEAT_MS :: int where "AGENT_SESSION_HEARTBEAT_MS = 5 * 60 * 1000"

definition is_hex :: "char \<Rightarrow> bool" where
  "is_hex c \<longleftrightarrow> is_digit c \<or> char_between CHR ''a'' CHR ''f'' c \<or> char_between CHR ''A'' CHR ''F'' c"

definition hex_value :: "char \<Rightarrow> int" where
  "hex_value c = (if is_digit c then of_char c - 48
     else if char_between CHR ''a'' CHR ''f'' c then of_char c - 87 else of_char c - 55)"

definition UUID_V7_PATTERN :: "string \<Rightarrow> bool" where
  "UUID_V7_PATTERN s \<longleftrightarrow> length s = 36 \<and>
     list_all (\<lambda>i. s ! i = CHR ''-'') [8, 13, 18, 23] \<and>
     list_all (\<lambda>i. is_hex (s ! i)) (filter (\<lambda>i. i \<notin> {8, 13, 18, 23}) [0..<36]) \<and>
     s ! 14 = CHR ''7'' \<and>
     s ! 19 \<in> {CHR ''8'', CHR ''9'', CHR ''a'', CHR ''b'', CHR ''A'', CHR ''B''}"

definition uuid_timestamp :: "string \<Rightarrow> int" where
  "uuid_timestamp s = foldl (\<lambda>n c. 16 * n + hex_value c) 0 (take 12 (filter (\<lambda>c. c \<noteq> CHR ''-'') s))"

definition assertRequestMetadata :: "string \<Rightarrow> string \<Rightarrow> string \<Rightarrow> int \<Rightarrow> DomainError option" where
  "assertRequestMetadata idempotencyKey requestDigest requestId now =
     (if \<not> request_id_pattern requestId \<or> \<not> opaque_digest_pattern requestDigest
      then Some (domainFailure EC_VALIDATION_ERROR requestId [])
      else if \<not> UUID_V7_PATTERN idempotencyKey
      then Some (domainFailure EC_IDEMPOTENCY_REQUIRED requestId [])
      else let timestamp = uuid_timestamp idempotencyKey in
        if \<not> is_safe_integer timestamp then Some (domainFailure EC_IDEMPOTENCY_REQUIRED requestId [])
        else if timestamp < now - IDEMPOTENCY_WINDOW_MS
        then Some (domainFailure EC_IDEMPOTENCY_EXPIRED requestId [])
        else if timestamp > now + IDEMPOTENCY_FUTURE_SKEW_MS
        then Some (domainFailure EC_VALIDATION_ERROR requestId [])
        else None)"

subsection \<open>Agent authorization\<close>

record AuthorizedAgent =
  au_credentialId :: nat
  au_credentialPublicId :: string
  au_sessionId :: nat
  au_agentId :: nat
  au_agentPublicId :: string
  au_organizationId :: nat
  au_workspaceId :: nat
  au_scopes :: "string list"
  au_sessionPublicId :: string

definition authorizeAgent ::
  "Db \<Rightarrow> nat \<Rightarrow> string \<Rightarrow> string \<Rightarrow> string \<Rightarrow> int \<Rightarrow> (DomainError + AuthorizedAgent) option" where
  "authorizeAgent db credentialId sessionPublicId requestId requiredScope now =
     (case get_row cr_id (db_credentials db) credentialId of
        None \<Rightarrow> Some (Inl (domainFailure EC_AUTHENTICATION_FAILED requestId []))
      | Some credential \<Rightarrow>
          (if cr_status credential \<noteq> ''active'' \<or> cr_expiresAt credential \<le> now
           then Some (Inl (domainFailure EC_AUTHENTICATION_FAILED requestId []))
           else case unique_row (filter (\<lambda>s. se_publicId s = sessionPublicId) (db_sessions db)) of
             None \<Rightarrow> None
           | Some None \<Rightarrow> Some (Inl (domainFailure EC_SESSION_INVALID requestId []))
           | Some (Some session) \<Rightarrow>
               (if se_credentialId session \<noteq> cr_id credential \<or>
                   se_organizationId session \<noteq> cr_organizationId credential \<or>
                   se_agentId session \<noteq> cr_agentId credential \<or>
                   se_workspaceId session \<noteq> cr_workspaceId credential \<or>
                   se_status session \<noteq> ''active'' \<or> se_idleExpiresAt session \<le> now
                then Some (Inl (domainFailure EC_SESSION_INVALID requestId []))
                else case (get_row an_id (db_agents db) (cr_agentId credential),
                           get_row gr_id (db_grants db) (cr_grantId credential),
                           get_row ws_id (db_workspaces db) (cr_workspaceId credential),
                           get_row og_id (db_organizations db) (cr_organizationId credential)) of
                  (Some agent, Some grant, Some workspace, Some organization) \<Rightarrow>
                    (if an_status agent \<noteq> ''active'' \<or> gr_status grant \<noteq> ''active'' \<or>
                        ws_status workspace \<noteq> ''active'' \<or> og_status organization \<noteq> ''active'' \<or>
                        an_organizationId agent \<noteq> og_id organization \<or>
                        ws_organizationId workspace \<noteq> og_id organization \<or>
                        gr_organizationId grant \<noteq> og_id organization \<or>
                        gr_workspaceId grant \<noteq> ws_id workspace \<or>
                        gr_agentId grant \<noteq> an_id agent
                     then Some (Inl (domainFailure EC_AUTHORIZATION_DENIED requestId []))
                     else let scopes = filter (\<lambda>scope. scope \<in> set (gr_scopes grant)) (cr_scopes credential) in
                       if requiredScope \<notin> set scopes
                       then Some (Inl (domainFailure EC_SCOPE_REQUIRED requestId [(''requiredScope'', DT_text requiredScope)]))
                       else Some (Inr
                         \<lparr>au_credentialId = cr_id credential, au_credentialPublicId = cr_locator credential,
                          au_sessionId = se_id session, au_agentId = an_id agent,
                          au_agentPublicId = an_publicId agent, au_organizationId = og_id organization,
                          au_workspaceId = ws_id workspace, au_scopes = scopes,
                          au_sessionPublicId = se_publicId session\<rparr>))
                | _ \<Rightarrow> Some (Inl (domainFailure EC_AUTHORIZATION_DENIED requestId [])))))"

definition touchAuthorizedAgent :: "AuthorizedAgent \<Rightarrow> int \<Rightarrow> Db \<Rightarrow> Db" where
  "touchAuthorizedAgent authorization now db =
     db \<lparr>db_sessions := patch_row se_id (au_sessionId authorization)
           (\<lambda>s. if se_lastSeenAt s \<le> now - AGENT_SESSION_HEARTBEAT_MS
                then s \<lparr>se_lastSeenAt := now, se_idleExpiresAt := now + AGENT_SESSION_IDLE_MS\<rparr> else s)
           (db_sessions db),
         db_credentials := patch_row cr_id (au_credentialId authorization)
           (\<lambda>c. if cr_lastUsedAt c \<le> now - AGENT_SESSION_HEARTBEAT_MS then c \<lparr>cr_lastUsedAt := now\<rparr> else c)
           (db_credentials db)\<rparr>"

text \<open>The failure a refused consumption turns into.\<close>

fun agentRateLimitFailure :: "RateLimitConsumeResult \<Rightarrow> string \<Rightarrow> DomainError option" where
  "agentRateLimitFailure CR_allowed requestId = None"
| "agentRateLimitFailure (CR_limited retryAfterMs) requestId =
     Some (domainFailure EC_RATE_LIMITED requestId [(''retryAfterMs'', DT_number retryAfterMs)])"
| "agentRateLimitFailure CR_skipped requestId = Some (domainFailure EC_SERVICE_UNAVAILABLE requestId [])"
| "agentRateLimitFailure CR_unavailable requestId = Some (domainFailure EC_SERVICE_UNAVAILABLE requestId [])"

subsection \<open>Task views and receipts\<close>

record TaskView =
  tv_id :: string
  tv_key :: string
  tv_title :: string
  tv_type :: string
  tv_priority :: int
  tv_availableAt :: int
  tv_isReady :: bool
  tv_unresolvedBlockerCount :: int
  tv_cancelledBlockerCount :: int
  tv_revision :: int
  tv_reviewRevision :: int
  tv_assigneeAgentId :: "string option"
  tv_createdAt :: int
  tv_updatedAt :: int
  tv_status :: TaskStatus
  tv_currentClaim :: "(string \<times> string \<times> int \<times> int \<times> int) option"

definition taskView :: "Task \<Rightarrow> TaskView option" where
  "taskView task =
     (let base = \<lparr>tv_id = tk_publicId task, tv_key = tk_key task, tv_title = tk_title task,
            tv_type = tk_type task, tv_priority = tk_priority task, tv_availableAt = tk_availableAt task,
            tv_isReady = tk_isReady task, tv_unresolvedBlockerCount = tk_unresolvedBlockerCount task,
            tv_cancelledBlockerCount = tk_cancelledBlockerCount task, tv_revision = tk_revision task,
            tv_reviewRevision = tk_reviewRevision task, tv_assigneeAgentId = tk_assigneeAgentPublicId task,
            tv_createdAt = tk_createdAt task, tv_updatedAt = tk_updatedAt task,
            tv_status = tk_status task, tv_currentClaim = None\<rparr> in
      if tk_status task = TS_in_progress
      then (case tk_currentClaim task of
              None \<Rightarrow> None
            | Some c \<Rightarrow> Some (base \<lparr>tv_currentClaim :=
                Some (cc_publicId c, cc_agentPublicId c, cc_fence c, cc_leaseGeneration c, cc_leaseUntil c)\<rparr>))
      else if tk_currentClaim task \<noteq> None then None
      else Some base)"

text \<open>\<open>JSON.stringify\<close> of a view, and \<open>JSON.parse\<close> followed by the protocol's schema.\<close>

record TaskViewCodec =
  tc_stringify :: "TaskView \<Rightarrow> string"
  tc_parse :: "string \<Rightarrow> TaskView option"

definition parseTaskData :: "TaskViewCodec \<Rightarrow> string \<Rightarrow> TaskView option" where
  "parseTaskData codec value =
     (case tc_parse codec value of
        None \<Rightarrow> None
      | Some view \<Rightarrow> if tv_status view \<noteq> TS_open \<and> tv_isReady view then None else Some view)"

record ReceiptIdentity =
  ri_kind :: string
  ri_publicId :: string
  ri_organizationId :: nat
  ri_workspaceId :: nat

definition receiptIdentity :: "AuthorizedAgent \<Rightarrow> ReceiptIdentity" where
  "receiptIdentity authorization = \<lparr>ri_kind = ''agent'', ri_publicId = au_agentPublicId authorization,
     ri_organizationId = au_organizationId authorization, ri_workspaceId = au_workspaceId authorization\<rparr>"

definition commandReceiptMatches ::
  "CommandReceipt \<Rightarrow> ReceiptIdentity \<Rightarrow> string \<Rightarrow> string \<Rightarrow> string \<Rightarrow> bool" where
  "commandReceiptMatches stored identity operation idempotencyKey requestDigest \<longleftrightarrow>
     rc_organizationId stored = ri_organizationId identity \<and>
     rc_workspaceId stored = ri_workspaceId identity \<and>
     rc_principalKind stored = ri_kind identity \<and>
     rc_principalId stored = ri_publicId identity \<and>
     rc_operation stored = operation \<and>
     rc_idempotencyKey stored = idempotencyKey \<and>
     rc_requestDigest stored = requestDigest"

definition receipt_indexed :: "ReceiptIdentity \<Rightarrow> string \<Rightarrow> string \<Rightarrow> CommandReceipt \<Rightarrow> bool" where
  "receipt_indexed identity operation idempotencyKey r \<longleftrightarrow>
     rc_organizationId r = ri_organizationId identity \<and> rc_workspaceId r = ri_workspaceId identity \<and>
     rc_principalKind r = ri_kind identity \<and> rc_principalId r = ri_publicId identity \<and>
     rc_operation r = operation \<and> rc_idempotencyKey r = idempotencyKey"

text \<open>A receipt answers with data of any operation's kind, read by that operation's parser.\<close>

datatype 'd ReceiptLookup =
    RL_none
  | RL_replay 'd string
  | RL_failure DomainError

definition lookupReceipt ::
  "(string \<Rightarrow> 'd option) \<Rightarrow> Db \<Rightarrow> ReceiptIdentity \<Rightarrow> string \<Rightarrow> string \<Rightarrow> string \<Rightarrow> string \<Rightarrow> 'd ReceiptLookup option" where
  "lookupReceipt parse db identity operation idempotencyKey requestDigest requestId =
     (case unique_row (filter (receipt_indexed identity operation idempotencyKey) (db_receipts db)) of
        None \<Rightarrow> None
      | Some None \<Rightarrow> Some RL_none
      | Some (Some receipt) \<Rightarrow>
          (if \<not> commandReceiptMatches receipt identity operation idempotencyKey requestDigest
           then Some (RL_failure (domainFailure EC_IDEMPOTENCY_CONFLICT requestId []))
           else case parse (rc_responseJson receipt) of
             None \<Rightarrow> Some (RL_failure (domainFailure EC_INTERNAL_ERROR requestId []))
           | Some data \<Rightarrow> Some (RL_replay data (rc_requestId receipt))))"

text \<open>\<open>digestArrayBuffer\<close>: 43 base64url characters decode to 32 bytes and back when the two spare
  bits of the last one are zero.\<close>

definition base64url_value :: "char \<Rightarrow> nat" where
  "base64url_value c =
     (if char_between CHR ''A'' CHR ''Z'' c then of_char c - 65
      else if char_between CHR ''a'' CHR ''z'' c then of_char c - 71
      else if is_digit c then of_char c + 4
      else if c = CHR ''-'' then 62 else 63)"

definition canonical_digest :: "string \<Rightarrow> bool" where
  "canonical_digest value \<longleftrightarrow> opaque_digest_pattern value \<and> base64url_value (last value) mod 4 = 0"

definition storeReceipt ::
  "('d \<Rightarrow> string) \<Rightarrow> ReceiptIdentity \<Rightarrow> string \<Rightarrow> string \<Rightarrow> string \<Rightarrow> string \<Rightarrow> 'd \<Rightarrow> int \<Rightarrow> Db \<Rightarrow> Db option" where
  "storeReceipt stringify identity operation idempotencyKey requestDigest requestId data now db =
     (let responseJson = stringify data in
      if int (length responseJson) > MAX_COMMAND_RECEIPT_BYTES then None
      else if \<not> canonical_digest requestDigest then None
      else Some (db \<lparr>db_next := Suc (db_next db),
        db_receipts := db_receipts db @
          [\<lparr>rc_id = db_next db, rc_principalKind = ri_kind identity, rc_principalId = ri_publicId identity,
            rc_organizationId = ri_organizationId identity, rc_workspaceId = ri_workspaceId identity,
            rc_operation = operation, rc_idempotencyKey = idempotencyKey, rc_requestDigest = requestDigest,
            rc_requestId = requestId, rc_responseJson = responseJson, rc_createdAt = now,
            rc_expiresAt = now + IDEMPOTENCY_WINDOW_MS\<rparr>]\<rparr>))"

subsection \<open>Readiness, events, repairs and counters\<close>

definition isTaskReady :: "Task \<Rightarrow> int \<Rightarrow> bool" where
  "isTaskReady task now \<longleftrightarrow> tk_status task = TS_open \<and> tk_currentClaim task = None \<and>
     tk_availableAt task \<le> now \<and> tk_unresolvedBlockerCount task = 0 \<and> tk_cancelledBlockerCount task = 0"

definition advanceWorkspaceProjectionById :: "nat \<Rightarrow> int \<Rightarrow> Db \<Rightarrow> Db option" where
  "advanceWorkspaceProjectionById workspaceId now db =
     (case get_row ws_id (db_workspaces db) workspaceId of
        None \<Rightarrow> None
      | Some workspace \<Rightarrow>
          (case advanceWorkspaceProjection (db_projection db) (ws_id workspace) (ws_organizationId workspace)
                  (ws_publicId workspace) now WI_workspace of
             None \<Rightarrow> None
           | Some (revision, projection) \<Rightarrow> Some (db \<lparr>db_projection := projection\<rparr>)))"

definition appendTaskEvent ::
  "string \<Rightarrow> Task \<Rightarrow> int \<Rightarrow> string \<Rightarrow> EventActor \<Rightarrow> EventCommand \<Rightarrow> (string \<times> detail) list \<Rightarrow> int \<Rightarrow> nat \<Rightarrow> nat \<Rightarrow> Db \<Rightarrow> Db option" where
  "appendTaskEvent eventPublicId task taskRevision type actor command payload now organizationId workspaceId db =
     advanceWorkspaceProjectionById workspaceId now
       (db \<lparr>db_next := Suc (db_next db),
          db_events := db_events db @
            [\<lparr>te_id = db_next db, te_publicId = eventPublicId, te_organizationId = organizationId,
              te_workspaceId = workspaceId, te_taskId = tk_id task, te_taskPublicId = tk_publicId task,
              te_taskRevision = taskRevision, te_type = type, te_actor = actor, te_command = command,
              te_payload = payload, te_createdAt = now\<rparr>]\<rparr>)"

definition queueProjectionRepair :: "Task \<Rightarrow> RepairKind \<Rightarrow> int \<Rightarrow> Db \<Rightarrow> Db option" where
  "queueProjectionRepair task kind now db =
     (case unique_row (filter (\<lambda>r. pr_workspaceId r = tk_workspaceId task \<and> pr_taskId r = tk_id task \<and> pr_kind r = kind)
             (db_repairs db)) of
        None \<Rightarrow> None
      | Some None \<Rightarrow>
          Some (run_at now (JB_repair (db_next db) 1)
            (db \<lparr>db_next := Suc (db_next db),
               db_repairs := db_repairs db @
                 [\<lparr>pr_id = db_next db, pr_organizationId = tk_organizationId task, pr_workspaceId = tk_workspaceId task,
                   pr_taskId = tk_id task, pr_kind = kind, pr_generation = 1, pr_expectedRevision = tk_revision task,
                   pr_status = RT_pending, pr_createdAt = now, pr_updatedAt = now\<rparr>]\<rparr>))
      | Some (Some existing) \<Rightarrow>
          (if pr_organizationId existing \<noteq> tk_organizationId task then Some db
           else let generation = pr_generation existing + 1 in
             Some (run_at now (JB_repair (pr_id existing) generation)
               (db \<lparr>db_repairs := patch_row pr_id (pr_id existing)
                  (\<lambda>r. r \<lparr>pr_generation := generation, pr_expectedRevision := tk_revision task,
                          pr_status := RT_pending, pr_updatedAt := now\<rparr>) (db_repairs db)\<rparr>))))"

abbreviation queueTaskProjectionRepair :: "Task \<Rightarrow> int \<Rightarrow> Db \<Rightarrow> Db option" where
  "queueTaskProjectionRepair task \<equiv> queueProjectionRepair task RK_task_readiness"

abbreviation queueTaskReviewRepair :: "Task \<Rightarrow> int \<Rightarrow> Db \<Rightarrow> Db option" where
  "queueTaskReviewRepair task \<equiv> queueProjectionRepair task RK_task_review"

abbreviation queueTaskClaimRepair :: "Task \<Rightarrow> int \<Rightarrow> Db \<Rightarrow> Db option" where
  "queueTaskClaimRepair task \<equiv> queueProjectionRepair task RK_task_claim"

definition blockerRows :: "Db \<Rightarrow> Task \<Rightarrow> TaskDependency list" where
  "blockerRows db task = take (nat (MAX_DIRECT_BLOCKERS + 1))
     (filter (\<lambda>d. dp_workspaceId d = tk_workspaceId task \<and> dp_blockedTaskId d = tk_id task) (db_dependencies db))"

fun sum_blockers :: "Db \<Rightarrow> Task \<Rightarrow> TaskDependency list \<Rightarrow> blocker_counters \<Rightarrow> blocker_counters option" where
  "sum_blockers db task [] counters = Some counters"
| "sum_blockers db task (row # rows) counters =
     (case get_task db (dp_blockerTaskId row) of
        None \<Rightarrow> None
      | Some blocker \<Rightarrow>
          (if \<not> dependencyMatchesTasks row blocker task then None
           else let contribution = blockerContribution (tk_status blocker) in
             sum_blockers db task rows
               \<lparr>unresolved = unresolved counters + unresolved contribution,
                cancelled = cancelled counters + cancelled contribution\<rparr>))"

definition actualBlockerCounters :: "Db \<Rightarrow> Task \<Rightarrow> blocker_counters option" where
  "actualBlockerCounters db task =
     (let rows = blockerRows db task in
      if int (length rows) > MAX_DIRECT_BLOCKERS then None
      else sum_blockers db task rows \<lparr>unresolved = 0, cancelled = 0\<rparr>)"

definition projection_details :: "Task \<Rightarrow> int \<Rightarrow> (string \<times> detail) list" where
  "projection_details task blockingCount =
     [(''taskKey'', DT_text (tk_key task)), (''blockingCount'', DT_number blockingCount),
      (''currentRevision'', DT_number (tk_revision task))]"

definition task_blocking_count :: "Task \<Rightarrow> int" where
  "task_blocking_count task = tk_unresolvedBlockerCount task + tk_cancelledBlockerCount task"

definition ensureCounterProjection ::
  "Task \<Rightarrow> int \<Rightarrow> string \<Rightarrow> Db \<Rightarrow> ((DomainError + blocker_counters) \<times> Db) option" where
  "ensureCounterProjection task now requestId db =
     (let refused = (case queueTaskProjectionRepair task now db of
          None \<Rightarrow> None
        | Some db' \<Rightarrow> Some (Inl (domainFailure EC_PROJECTION_MISMATCH requestId
            (projection_details task (task_blocking_count task))), db')) in
      case actualBlockerCounters db task of
        None \<Rightarrow> refused
      | Some actual \<Rightarrow>
          (if unresolved actual \<noteq> tk_unresolvedBlockerCount task \<or> cancelled actual \<noteq> tk_cancelledBlockerCount task
           then refused else Some (Inr actual, db)))"

subsection \<open>The dispatch guard\<close>

datatype TaskDispatchGuard = DG_clear | DG_blocked | DG_projection_mismatch

definition taskDispatchGuardFromRows :: "Task \<Rightarrow> DispatchRow list \<Rightarrow> TaskDispatchGuard" where
  "taskDispatchGuardFromRows task rows =
     (if rows = [] then DG_clear
      else if list_all (\<lambda>row. dr_organizationId row = tk_organizationId task \<and>
                 dr_workspaceId row = tk_workspaceId task \<and> dr_taskId row = tk_id task \<and>
                 dr_phase row \<in> set FAIL_CLOSED_TASK_DISPATCH_PHASES) rows
      then DG_blocked else DG_projection_mismatch)"

definition loadTaskDispatchGuard :: "Db \<Rightarrow> Task \<Rightarrow> TaskDispatchGuard" where
  "loadTaskDispatchGuard db task =
     taskDispatchGuardFromRows task
       (concat (map (\<lambda>phase. take 1 (filter (\<lambda>row. dr_workspaceId row = tk_workspaceId task \<and>
            dr_taskId row = tk_id task \<and> dr_phase row = phase) (db_dispatches db)))
          FAIL_CLOSED_TASK_DISPATCH_PHASES))"

lemma dispatch_guard_clear_iff:
  "loadTaskDispatchGuard db task = DG_clear \<longleftrightarrow>
   \<not> (\<exists>row \<in> set (db_dispatches db). dr_workspaceId row = tk_workspaceId task \<and> dr_taskId row = tk_id task \<and>
        taskDispatchBlocksTaskRelease (dr_phase row))"
  by (auto simp: loadTaskDispatchGuard_def taskDispatchGuardFromRows_def filter_empty_conv
      taskDispatchBlocksTaskRelease_def split: if_splits)

end
