(* ===== verification/ClaimCommands.thy ===== *)
theory ClaimCommands
  imports TaskStore
begin

text \<open>
  The claim mutations of \<open>apps/web/convex/tasks.ts\<close>: \<open>createTask\<close>, \<open>claimTask\<close>, \<open>renewClaim\<close>
  and \<open>releaseClaim\<close>, each the whole handler. What the handlers repeat verbatim is named once:
  \<open>command_prologue\<close> (metadata, authorization, rate limit, receipt) and \<open>complete_command\<close>
  (view, receipt, session touch).
\<close>

subsection \<open>What the handlers share\<close>

type_synonym task_result = "(DomainError + TaskView \<times> string) \<times> Db"

text \<open>What every command of an agent carries, and what the claim commands add.\<close>

record AgentArgs =
  ca_credentialId :: nat
  ca_sessionPublicId :: string
  ca_idempotencyKey :: string
  ca_requestDigest :: string
  ca_requestId :: string
  ca_randomEventId :: string

record ClaimArgs = AgentArgs +
  ca_key :: string
  ca_fence :: int
  ca_randomClaimId :: string

text \<open>The prologue answers with a failure or an earlier answer of the operation's kind, or goes on.\<close>

datatype 'd prologue =
    PG_done "DomainError + 'd \<times> string" Db
  | PG_go AuthorizedAgent Db

definition command_prologue ::
  "(string \<Rightarrow> 'd option) \<Rightarrow> string \<Rightarrow> string \<Rightarrow> RateLimitRouteClass \<Rightarrow> 'a AgentArgs_scheme \<Rightarrow> int \<Rightarrow> Db \<Rightarrow>
   'd prologue option" where
  "command_prologue parse operation requiredScope routeClass args now db =
     (case authorizeAgent db (ca_credentialId args) (ca_sessionPublicId args) (ca_requestId args) requiredScope now of
        None \<Rightarrow> None
      | Some (Inl err) \<Rightarrow> Some (PG_done (Inl err) db)
      | Some (Inr authorization) \<Rightarrow>
          (case consumeAuthorizedAgentRateLimit (db_rates db) (decimal (au_credentialId authorization))
                  (decimal (au_workspaceId authorization)) routeClass (ca_requestId args) now of
             None \<Rightarrow> None
           | Some (result, rates) \<Rightarrow>
               (let db1 = db \<lparr>db_rates := rates\<rparr> in
                case agentRateLimitFailure result (ca_requestId args) of
                  Some err \<Rightarrow> Some (PG_done (Inl err) db1)
                | None \<Rightarrow>
                    (case lookupReceipt parse db1 (receiptIdentity authorization) operation
                            (ca_idempotencyKey args) (ca_requestDigest args) (ca_requestId args) of
                       None \<Rightarrow> None
                     | Some (RL_failure err) \<Rightarrow> Some (PG_done (Inl err) db1)
                     | Some (RL_replay data requestId) \<Rightarrow> Some (PG_done (Inr (data, requestId)) db1)
                     | Some RL_none \<Rightarrow> Some (PG_go authorization db1)))))"

definition complete_command ::
  "TaskViewCodec \<Rightarrow> string \<Rightarrow> ClaimArgs \<Rightarrow> AuthorizedAgent \<Rightarrow> nat \<Rightarrow> int \<Rightarrow> Db \<Rightarrow> task_result option" where
  "complete_command codec operation args authorization taskId now db =
     (case get_task db taskId of
        None \<Rightarrow> None
      | Some updated \<Rightarrow>
          (case taskView updated of
             None \<Rightarrow> None
           | Some data \<Rightarrow>
               (case storeReceipt (tc_stringify codec) (receiptIdentity authorization) operation (ca_idempotencyKey args)
                       (ca_requestDigest args) (ca_requestId args) data now db of
                  None \<Rightarrow> None
                | Some db1 \<Rightarrow>
                    Some (Inr (data, ca_requestId args), touchAuthorizedAgent authorization now db1))))"

definition taskByKey :: "Db \<Rightarrow> nat \<Rightarrow> string \<Rightarrow> Task option option" where
  "taskByKey db workspaceId key =
     unique_row (filter (\<lambda>t. tk_workspaceId t = workspaceId \<and> tk_key t = key) (db_tasks db))"

definition agentActor :: "AuthorizedAgent \<Rightarrow> EventActor" where
  "agentActor authorization =
     EA_agent (au_agentPublicId authorization) (au_credentialPublicId authorization) (au_sessionPublicId authorization)"

definition client_command :: "'a AgentArgs_scheme \<Rightarrow> EventCommand" where
  "client_command args = EM_client (ca_idempotencyKey args) (ca_requestId args)"

text \<open>A failure that is returned after queueing a repair of the task.\<close>

definition refuse_with_repair :: "Task \<Rightarrow> RepairKind \<Rightarrow> int \<Rightarrow> string \<Rightarrow> int \<Rightarrow> Db \<Rightarrow> ((DomainError + 'a) \<times> Db) option" where
  "refuse_with_repair task kind now requestId blockingCount db =
     (case queueProjectionRepair task kind now db of
        None \<Rightarrow> None
      | Some db1 \<Rightarrow> Some (Inl (domainFailure EC_PROJECTION_MISMATCH requestId (projection_details task blockingCount)), db1))"

definition refuse :: "ErrorCode \<Rightarrow> string \<Rightarrow> (string \<times> detail) list \<Rightarrow> Db \<Rightarrow> ((DomainError + 'a) \<times> Db) option" where
  "refuse code requestId details db = Some (Inl (domainFailure code requestId details), db)"

subsection \<open>Claiming\<close>

definition claim_admission :: "Task \<Rightarrow> int \<Rightarrow> string \<Rightarrow> Db \<Rightarrow> ((DomainError + TaskClaim option) \<times> Db) option" where
  "claim_admission task now requestId db =
     (if tk_status task = TS_open then
        (case ensureCounterProjection task now requestId db of
           None \<Rightarrow> None
         | Some (Inl err, db1) \<Rightarrow> Some (Inl err, db1)
         | Some (Inr actual, db1) \<Rightarrow>
             (if unresolved actual > 0 \<or> cancelled actual > 0
              then refuse EC_TASK_BLOCKED requestId (projection_details task (unresolved actual + cancelled actual)) db1
              else if isTaskReady task now \<noteq> tk_isReady task
              then refuse_with_repair task RK_task_readiness now requestId 0 db1
              else if \<not> isTaskReady task now
              then refuse EC_TASK_NOT_READY requestId (projection_details task 0) db1
              else Some (Inr None, db1)))
      else if tk_status task = TS_in_progress then
        (case tk_currentClaim task of
           None \<Rightarrow> refuse_with_repair task RK_task_claim now requestId (task_blocking_count task) db
         | Some compact \<Rightarrow>
             (case get_claim db (cc_claimId compact) of
                None \<Rightarrow> refuse_with_repair task RK_task_claim now requestId (task_blocking_count task) db
              | Some previousClaim \<Rightarrow>
                  (if \<not> activeClaimMatchesTask task (Some previousClaim)
                   then refuse_with_repair task RK_task_claim now requestId (task_blocking_count task) db
                   else if cl_leaseUntil previousClaim > now
                   then refuse EC_TASK_ALREADY_CLAIMED requestId
                     [(''taskKey'', DT_text (tk_key task)), (''ownerAgentId'', DT_text (cl_agentPublicId previousClaim)),
                      (''leaseUntil'', DT_number (cl_leaseUntil previousClaim)),
                      (''currentRevision'', DT_number (tk_revision task))] db
                   else
                     (case ensureCounterProjection task now requestId db of
                        None \<Rightarrow> None
                      | Some (Inl err, db1) \<Rightarrow> Some (Inl err, db1)
                      | Some (Inr actual, db1) \<Rightarrow>
                          (if unresolved actual > 0 \<or> cancelled actual > 0
                           then refuse EC_TASK_BLOCKED requestId
                                  (projection_details task (unresolved actual + cancelled actual)) db1
                           else if tk_availableAt task > now
                           then refuse EC_TASK_NOT_READY requestId (projection_details task 0) db1
                           else Some (Inr (Some previousClaim), db1))))))
      else refuse EC_TASK_NOT_READY requestId (projection_details task (task_blocking_count task)) db)"

definition claim_writes ::
  "ClaimArgs \<Rightarrow> AuthorizedAgent \<Rightarrow> Task \<Rightarrow> TaskClaim option \<Rightarrow> int \<Rightarrow> int \<Rightarrow> Db \<Rightarrow> Db option" where
  "claim_writes args authorization task previousClaimToReplace fence now db =
     (let db1 = (case previousClaimToReplace of
            None \<Rightarrow> db
          | Some previous \<Rightarrow> patch_claim (cl_id previous)
              (\<lambda>c. c \<lparr>cl_state := CS_replaced, cl_endedAt := Some now, cl_updatedAt := now\<rparr>) db);
          leaseUntil = now + DEFAULT_CLAIM_LEASE_MS;
          claimId = db_next db1;
          db2 = db1 \<lparr>db_next := Suc claimId, db_claims := db_claims db1 @
            [\<lparr>cl_id = claimId, cl_organizationId = au_organizationId authorization,
              cl_workspaceId = au_workspaceId authorization, cl_taskId = tk_id task,
              cl_publicId = ca_randomClaimId args, cl_agentId = au_agentId authorization,
              cl_agentPublicId = au_agentPublicId authorization, cl_state = CS_active, cl_fence = fence,
              cl_leaseGeneration = 1, cl_leaseUntil = leaseUntil, cl_sweepSuppressed = None,
              cl_endedAt = None, cl_createdAt = now, cl_updatedAt = now\<rparr>]\<rparr>;
          nextRevision = tk_revision task + 1;
          db3 = patch_task (tk_id task) (\<lambda>t. t \<lparr>tk_status := TS_in_progress, tk_isReady := False,
            tk_readySince := None, tk_claimFence := fence,
            tk_currentClaim := Some \<lparr>cc_claimId = claimId, cc_publicId = ca_randomClaimId args,
              cc_agentId = au_agentId authorization, cc_agentPublicId = au_agentPublicId authorization,
              cc_fence = fence, cc_leaseGeneration = 1, cc_leaseUntil = leaseUntil\<rparr>,
            tk_revision := nextRevision, tk_updatedAt := now\<rparr>) db2;
          db4 = run_at leaseUntil (JB_expireClaim (tk_id task) claimId fence 1 leaseUntil) db3 in
      appendTaskEvent (ca_randomEventId args) task nextRevision
        (case previousClaimToReplace of None \<Rightarrow> ''task.claimed'' | Some p \<Rightarrow> ''task.reclaimed'')
        (agentActor authorization) (client_command args)
        ([(''agentId'', DT_text (au_agentPublicId authorization)), (''fence'', DT_number fence),
          (''leaseUntil'', DT_number leaseUntil)] @
         (case previousClaimToReplace of
            None \<Rightarrow> [] | Some p \<Rightarrow> [(''previousAgentId'', DT_text (cl_agentPublicId p))]))
        now (au_organizationId authorization) (au_workspaceId authorization) db4)"

definition claimTask :: "TaskViewCodec \<Rightarrow> ClaimArgs \<Rightarrow> int \<Rightarrow> Db \<Rightarrow> task_result option" where
  "claimTask codec args now db =
     (case assertRequestMetadata (ca_idempotencyKey args) (ca_requestDigest args) (ca_requestId args) now of
        Some err \<Rightarrow> Some (Inl err, db)
      | None \<Rightarrow>
     (case command_prologue (parseTaskData codec) ''tasks.claim'' ''tasks:claim'' RC_agent_claim args now db of
        None \<Rightarrow> None
      | Some (PG_done result db1) \<Rightarrow> Some (result, db1)
      | Some (PG_go authorization db1) \<Rightarrow>
     (case taskByKey db1 (au_workspaceId authorization) (ca_key args) of
        None \<Rightarrow> None
      | Some None \<Rightarrow> refuse EC_NOT_FOUND (ca_requestId args) [] db1
      | Some (Some task) \<Rightarrow>
     (case claim_admission task now (ca_requestId args) db1 of
        None \<Rightarrow> None
      | Some (Inl err, db2) \<Rightarrow> Some (Inl err, db2)
      | Some (Inr previousClaimToReplace, db2) \<Rightarrow>
     (case nextClaimFence (tk_claimFence task) of
        None \<Rightarrow> refuse_with_repair task RK_task_claim now (ca_requestId args) (task_blocking_count task) db2
      | Some fence \<Rightarrow>
     (case claim_writes args authorization task previousClaimToReplace fence now db2 of
        None \<Rightarrow> None
      | Some db3 \<Rightarrow> complete_command codec ''tasks.claim'' args authorization (tk_id task) now db3))))))"

subsection \<open>Renewing\<close>

definition claim_details :: "Task \<Rightarrow> (string \<times> detail) list" where
  "claim_details task = [(''taskKey'', DT_text (tk_key task)), (''currentRevision'', DT_number (tk_revision task))]"

definition renew_writes :: "ClaimArgs \<Rightarrow> AuthorizedAgent \<Rightarrow> Task \<Rightarrow> CompactClaim \<Rightarrow> TaskClaim \<Rightarrow> int \<Rightarrow> Db \<Rightarrow> Db option" where
  "renew_writes args authorization task compact claim now db =
     (let leaseGeneration = cl_leaseGeneration claim + 1;
          leaseUntil = now + DEFAULT_CLAIM_LEASE_MS;
          nextRevision = tk_revision task + 1;
          db1 = patch_claim (cl_id claim) (\<lambda>c. c \<lparr>cl_leaseGeneration := leaseGeneration,
            cl_leaseUntil := leaseUntil, cl_updatedAt := now\<rparr>) db;
          db2 = patch_task (tk_id task) (\<lambda>t. t \<lparr>tk_currentClaim :=
              Some (compact \<lparr>cc_leaseGeneration := leaseGeneration, cc_leaseUntil := leaseUntil\<rparr>),
            tk_revision := nextRevision, tk_updatedAt := now\<rparr>) db1;
          db3 = run_at leaseUntil (JB_expireClaim (tk_id task) (cl_id claim) (ca_fence args) leaseGeneration leaseUntil) db2 in
      appendTaskEvent (ca_randomEventId args) task nextRevision ''task.claim_renewed'' (agentActor authorization)
        (client_command args)
        [(''fence'', DT_number (ca_fence args)), (''leaseGeneration'', DT_number leaseGeneration),
         (''leaseUntil'', DT_number leaseUntil)]
        now (au_organizationId authorization) (au_workspaceId authorization) db3)"

definition renewClaim :: "TaskViewCodec \<Rightarrow> ClaimArgs \<Rightarrow> int \<Rightarrow> Db \<Rightarrow> task_result option" where
  "renewClaim codec args now db =
     (case assertRequestMetadata (ca_idempotencyKey args) (ca_requestDigest args) (ca_requestId args) now of
        Some err \<Rightarrow> Some (Inl err, db)
      | None \<Rightarrow>
     (case command_prologue (parseTaskData codec) ''tasks.claim.renew'' ''tasks:claim'' RC_agent_claim args now db of
        None \<Rightarrow> None
      | Some (PG_done result db1) \<Rightarrow> Some (result, db1)
      | Some (PG_go authorization db1) \<Rightarrow>
     (case taskByKey db1 (au_workspaceId authorization) (ca_key args) of
        None \<Rightarrow> None
      | Some None \<Rightarrow> refuse EC_NOT_FOUND (ca_requestId args) [] db1
      | Some (Some task) \<Rightarrow>
     (if tk_status task \<noteq> TS_in_progress then refuse EC_TASK_STATE_CONFLICT (ca_requestId args) (claim_details task) db1
      else case tk_currentClaim task of
        None \<Rightarrow> refuse EC_TASK_STATE_CONFLICT (ca_requestId args) (claim_details task) db1
      | Some compact \<Rightarrow>
     (case get_claim db1 (cc_claimId compact) of
        None \<Rightarrow> refuse_with_repair task RK_task_claim now (ca_requestId args) (task_blocking_count task) db1
      | Some claim \<Rightarrow>
     (if \<not> activeClaimMatchesTask task (Some claim)
      then refuse_with_repair task RK_task_claim now (ca_requestId args) (task_blocking_count task) db1
      else case claimCommandDisposition CK_renew (tk_status task) True (Some (cc_agentId compact))
                  (au_agentId authorization) (Some (cc_fence compact)) (ca_fence args)
                  (Some (cc_leaseUntil compact)) now (Some CLAIM_RENEWAL_THRESHOLD_MS) of
        CD_task_state_conflict \<Rightarrow> refuse EC_TASK_STATE_CONFLICT (ca_requestId args) (claim_details task) db1
      | CD_claim_not_owned \<Rightarrow> refuse EC_CLAIM_NOT_OWNED (ca_requestId args)
          [(''taskKey'', DT_text (tk_key task)), (''fence'', DT_number (ca_fence args))] db1
      | CD_claim_stale \<Rightarrow> refuse EC_CLAIM_STALE (ca_requestId args)
          [(''taskKey'', DT_text (tk_key task)), (''fence'', DT_number (cc_fence compact)),
           (''currentRevision'', DT_number (tk_revision task))] db1
      | CD_lease_not_renewable \<Rightarrow> refuse EC_LEASE_NOT_RENEWABLE (ca_requestId args)
          [(''taskKey'', DT_text (tk_key task)), (''fence'', DT_number (ca_fence args)),
           (''leaseUntil'', DT_number (cc_leaseUntil compact))] db1
      | CD_allowed \<Rightarrow>
          (case renew_writes args authorization task compact claim now db1 of
             None \<Rightarrow> None
           | Some db2 \<Rightarrow> complete_command codec ''tasks.claim.renew'' args authorization (tk_id task) now db2)))))))"

subsection \<open>Releasing\<close>

text \<open>A task without its claim, ready or not: what a release and an expiry both write.\<close>

definition reopened :: "bool \<Rightarrow> int \<Rightarrow> int \<Rightarrow> Task \<Rightarrow> Task" where
  "reopened ready nextRevision now t = t \<lparr>tk_status := TS_open, tk_isReady := ready,
     tk_readySince := (if ready then Some now else None), tk_currentClaim := None,
     tk_revision := nextRevision, tk_updatedAt := now\<rparr>"

definition release_writes ::
  "ClaimArgs \<Rightarrow> AuthorizedAgent \<Rightarrow> Task \<Rightarrow> TaskClaim \<Rightarrow> blocker_counters \<Rightarrow> int \<Rightarrow> Db \<Rightarrow> Db option" where
  "release_writes args authorization task claim actual now db =
     (let nextRevision = tk_revision task + 1;
          ready = (tk_availableAt task \<le> now \<and> unresolved actual = 0 \<and> cancelled actual = 0);
          db1 = patch_claim (cl_id claim)
            (\<lambda>c. c \<lparr>cl_state := CS_released, cl_endedAt := Some now, cl_updatedAt := now\<rparr>) db;
          db2 = patch_task (tk_id task) (reopened ready nextRevision now) db1 in
      appendTaskEvent (ca_randomEventId args) task nextRevision ''task.claim_released'' (agentActor authorization)
        (client_command args) [(''fence'', DT_number (ca_fence args))]
        now (au_organizationId authorization) (au_workspaceId authorization) db2)"

definition releaseClaim :: "TaskViewCodec \<Rightarrow> ClaimArgs \<Rightarrow> int \<Rightarrow> Db \<Rightarrow> task_result option" where
  "releaseClaim codec args now db =
     (case assertRequestMetadata (ca_idempotencyKey args) (ca_requestDigest args) (ca_requestId args) now of
        Some err \<Rightarrow> Some (Inl err, db)
      | None \<Rightarrow>
     (case command_prologue (parseTaskData codec) ''tasks.claim.release'' ''tasks:claim'' RC_agent_claim args now db of
        None \<Rightarrow> None
      | Some (PG_done result db1) \<Rightarrow> Some (result, db1)
      | Some (PG_go authorization db1) \<Rightarrow>
     (case taskByKey db1 (au_workspaceId authorization) (ca_key args) of
        None \<Rightarrow> None
      | Some None \<Rightarrow> refuse EC_NOT_FOUND (ca_requestId args) [] db1
      | Some (Some task) \<Rightarrow>
     (if tk_status task \<noteq> TS_in_progress then refuse EC_TASK_STATE_CONFLICT (ca_requestId args) (claim_details task) db1
      else case tk_currentClaim task of
        None \<Rightarrow> refuse EC_TASK_STATE_CONFLICT (ca_requestId args) (claim_details task) db1
      | Some compact \<Rightarrow>
     (case get_claim db1 (cc_claimId compact) of
        None \<Rightarrow> refuse_with_repair task RK_task_claim now (ca_requestId args) (task_blocking_count task) db1
      | Some claim \<Rightarrow>
     (if \<not> activeClaimMatchesTask task (Some claim)
      then refuse_with_repair task RK_task_claim now (ca_requestId args) (task_blocking_count task) db1
      else if cc_agentId compact \<noteq> au_agentId authorization
      then refuse EC_CLAIM_NOT_OWNED (ca_requestId args)
        [(''taskKey'', DT_text (tk_key task)), (''fence'', DT_number (ca_fence args))] db1
      else if cc_fence compact \<noteq> ca_fence args \<or> cc_leaseUntil compact \<le> now
      then refuse EC_CLAIM_STALE (ca_requestId args)
        [(''taskKey'', DT_text (tk_key task)), (''fence'', DT_number (cc_fence compact)),
         (''currentRevision'', DT_number (tk_revision task))] db1
      else
     (case ensureCounterProjection task now (ca_requestId args) db1 of
        None \<Rightarrow> None
      | Some (Inl err, db2) \<Rightarrow> Some (Inl err, db2)
      | Some (Inr actual, db2) \<Rightarrow>
          (case release_writes args authorization task claim actual now db2 of
             None \<Rightarrow> None
           | Some db3 \<Rightarrow> complete_command codec ''tasks.claim.release'' args authorization (tk_id task) now db3))))))))"


subsection \<open>Creating\<close>

definition MAX_DEFER_MS :: int where "MAX_DEFER_MS = 4 * 365 * 24 * 60 * 60 * 1000"

record CreateArgs = ClaimArgs +
  ct_title :: string
  ct_type :: string
  ct_priority :: int
  ct_availableAt :: "int option"
  ct_randomTaskId :: string
  ct_randomSuffix :: string
  ct_moreRandomSuffixes :: "string list"

definition is_space :: "char \<Rightarrow> bool" where
  "is_space c \<longleftrightarrow> (9 \<le> (of_char c :: nat) \<and> (of_char c :: nat) \<le> 13) \<or> c = CHR '' ''"

definition js_trim :: "string \<Rightarrow> string" where
  "js_trim s = rev (dropWhile is_space (rev (dropWhile is_space s)))"

text \<open>A fresh key: up to five more random suffixes while the key is taken.\<close>

fun pick_key :: "Db \<Rightarrow> nat \<Rightarrow> string \<Rightarrow> string \<Rightarrow> string list \<Rightarrow> string option" where
  "pick_key db workspaceId prefix key [] = Some key"
| "pick_key db workspaceId prefix key (next_suffix # others) =
     (case taskByKey db workspaceId key of
        None \<Rightarrow> None
      | Some None \<Rightarrow> Some key
      | Some (Some taken) \<Rightarrow> pick_key db workspaceId prefix (prefix @ ''-'' @ next_suffix) others)"

definition create_writes ::
  "CreateArgs \<Rightarrow> AuthorizedAgent \<Rightarrow> nat \<Rightarrow> string \<Rightarrow> string \<Rightarrow> int \<Rightarrow> int \<Rightarrow> Db \<Rightarrow> (nat \<times> Db) option" where
  "create_writes args authorization workspaceId key title availableAt now db =
     (let taskId = db_next db;
          task = \<lparr>tk_id = taskId, tk_organizationId = au_organizationId authorization, tk_workspaceId = workspaceId,
            tk_publicId = ct_randomTaskId args, tk_key = key, tk_title = title, tk_type = ct_type args,
            tk_priority = ct_priority args, tk_status = TS_open, tk_availableAt = availableAt,
            tk_isReady = (availableAt \<le> now), tk_isBlocked = Some False, tk_needsAttention = Some False,
            tk_unresolvedBlockerCount = 0, tk_cancelledBlockerCount = 0,
            tk_revision = 1, tk_reviewRevision = 1, tk_assigneeAgentPublicId = None,
            tk_readySince = (if availableAt \<le> now then Some now else None),
            tk_wakeGeneration = Some (if availableAt > now then 1 else 0), tk_claimFence = 0,
            tk_currentClaim = None, tk_parentTaskId = None, tk_createdBy = None, tk_lastEditedBy = None,
            tk_submittedAt = None, tk_completedAt = None, tk_cancelledAt = None, tk_createdAt = now, tk_updatedAt = now\<rparr>;
          db1 = db \<lparr>db_next := Suc taskId, db_tasks := db_tasks db @ [task]\<rparr>;
          db2 = (if availableAt > now
            then run_at availableAt (JB_wakeTask taskId (db_next db1) 1 availableAt)
              (db1 \<lparr>db_next := Suc (db_next db1), db_wakes := db_wakes db1 @
                 [\<lparr>wk_id = db_next db1, wk_organizationId = au_organizationId authorization,
                   wk_workspaceId = workspaceId, wk_taskId = taskId, wk_generation = 1,
                   wk_expectedAvailableAt = availableAt, wk_state = WS_pending, wk_completedAt = None,
                   wk_createdAt = now\<rparr>]\<rparr>)
            else db1) in
      case appendTaskEvent (ca_randomEventId args) task 1 ''task.created'' (agentActor authorization)
             (EM_client (ca_idempotencyKey args) (ca_requestId args))
             [(''availableAt'', DT_number availableAt)] now (au_organizationId authorization) workspaceId db2 of
        None \<Rightarrow> None
      | Some db3 \<Rightarrow> Some (taskId, db3))"

definition claim_args_of :: "CreateArgs \<Rightarrow> ClaimArgs" where
  "claim_args_of args = \<lparr>ca_credentialId = ca_credentialId args, ca_sessionPublicId = ca_sessionPublicId args,
     ca_idempotencyKey = ca_idempotencyKey args, ca_requestDigest = ca_requestDigest args,
     ca_requestId = ca_requestId args, ca_randomEventId = ca_randomEventId args,
     ca_key = ca_key args, ca_fence = ca_fence args, ca_randomClaimId = ca_randomClaimId args\<rparr>"

definition createTask :: "TaskViewCodec \<Rightarrow> CreateArgs \<Rightarrow> int \<Rightarrow> Db \<Rightarrow> task_result option" where
  "createTask codec args now db =
     (case assertRequestMetadata (ca_idempotencyKey args) (ca_requestDigest args) (ca_requestId args) now of
        Some err \<Rightarrow> Some (Inl err, db)
      | None \<Rightarrow>
     (let title = js_trim (ct_title args);
          availableAt = (case ct_availableAt args of None \<Rightarrow> now | Some t \<Rightarrow> t) in
      if length title = 0 \<or> length title > 512 \<or> ct_priority args < 0 \<or> ct_priority args > 4
      then refuse EC_VALIDATION_ERROR (ca_requestId args) [] db
      else if \<not> is_safe_integer availableAt \<or> availableAt < 0
      then refuse EC_VALIDATION_ERROR (ca_requestId args) [] db
      else if availableAt > now + MAX_DEFER_MS
      then refuse EC_DEFER_HORIZON (ca_requestId args) [] db
      else
     (case command_prologue (parseTaskData codec) ''tasks.create'' ''tasks:create'' RC_agent_write (claim_args_of args) now db of
        None \<Rightarrow> None
      | Some (PG_done result db1) \<Rightarrow> Some (result, db1)
      | Some (PG_go authorization db1) \<Rightarrow>
     (case get_row ws_id (db_workspaces db1) (au_workspaceId authorization) of
        None \<Rightarrow> refuse EC_AUTHORIZATION_DENIED (ca_requestId args) [] db1
      | Some workspace \<Rightarrow>
     (case pick_key db1 (ws_id workspace) (ws_taskKeyPrefix workspace)
             (ws_taskKeyPrefix workspace @ ''-'' @ ct_randomSuffix args) (take 5 (ct_moreRandomSuffixes args)) of
        None \<Rightarrow> None
      | Some key \<Rightarrow>
     (case taskByKey db1 (ws_id workspace) key of
        None \<Rightarrow> None
      | Some (Some taken) \<Rightarrow> refuse EC_SERVICE_UNAVAILABLE (ca_requestId args) [] db1
      | Some None \<Rightarrow>
     (case create_writes args authorization (ws_id workspace) key title availableAt now db1 of
        None \<Rightarrow> None
      | Some (taskId, db2) \<Rightarrow>
          complete_command codec ''tasks.create'' (claim_args_of args) authorization taskId now db2)))))))"

end
