(* ===== verification/ClaimJobs.thy ===== *)
theory ClaimJobs
  imports ClaimCommands
begin

text \<open>
  The scheduled mutations of \<open>apps/web/convex/schedules.ts\<close>: the expiry of a claim, the wake of a
  deferred task, and the two sweeps that schedule them again for rows a lost job left behind.
\<close>

datatype ScheduledResult = SR_applied | SR_rescheduled | SR_stale

definition SCHEDULE_REQUEST_ID :: string where "SCHEDULE_REQUEST_ID = ''req_00000000000000000000000000''"
definition SWEEP_BATCH_SIZE :: nat where "SWEEP_BATCH_SIZE = 64"

text \<open>The next page of a sweep starts again at the head of its index, or the sweep is over.\<close>

definition nextSweepArgs :: "bool \<Rightarrow> unit option" where
  "nextSweepArgs isDone = (if isDone then None else Some ())"

datatype SweepDisposition = SW_expire | SW_protected | SW_suppress

definition overdueClaimSweepDisposition :: "TaskDispatchGuard \<Rightarrow> bool option \<Rightarrow> SweepDisposition" where
  "overdueClaimSweepDisposition dispatchGuardKind sweepSuppressed =
     (if dispatchGuardKind = DG_clear then SW_expire
      else if sweepSuppressed = Some True then SW_protected else SW_suppress)"

subsection \<open>Expiring a claim\<close>

definition expire_writes :: "string \<Rightarrow> Task \<Rightarrow> TaskClaim \<Rightarrow> int \<Rightarrow> blocker_counters \<Rightarrow> int \<Rightarrow> Db \<Rightarrow> Db option" where
  "expire_writes eventPublicId task claim fence actual now db =
     (let nextRevision = tk_revision task + 1;
          ready = (tk_availableAt task \<le> now \<and> unresolved actual = 0 \<and> cancelled actual = 0);
          db1 = patch_claim (cl_id claim)
            (\<lambda>c. c \<lparr>cl_state := CS_expired, cl_endedAt := Some now, cl_updatedAt := now\<rparr>) db;
          db2 = patch_task (tk_id task) (reopened ready nextRevision now) db1 in
      appendTaskEvent eventPublicId task nextRevision ''task.claim_expired''
        (EA_system ''claim_expiry'' (cl_publicId claim)) (EM_system ''claim_expiry'')
        [(''fence'', DT_number fence)] now (tk_organizationId task) (tk_workspaceId task) db2)"

definition expireClaim ::
  "string \<Rightarrow> nat \<Rightarrow> nat \<Rightarrow> int \<Rightarrow> int \<Rightarrow> int \<Rightarrow> int \<Rightarrow> Db \<Rightarrow> (ScheduledResult \<times> Db) option" where
  "expireClaim eventPublicId taskId claimId fence leaseGeneration expectedDeadline now db =
     (case (get_task db taskId, get_claim db claimId) of
        (Some task, Some claim) \<Rightarrow>
          (case scheduledClaimDisposition (activeClaimMatchesTask task (Some claim)) claimId
                  (map_option cc_claimId (tk_currentClaim task)) fence
                  (map_option cc_fence (tk_currentClaim task)) leaseGeneration
                  (map_option cc_leaseGeneration (tk_currentClaim task)) expectedDeadline
                  (map_option cc_leaseUntil (tk_currentClaim task)) now of
             SD_stale \<Rightarrow>
               (case queueTaskClaimRepair task now db of None \<Rightarrow> None | Some db1 \<Rightarrow> Some (SR_stale, db1))
           | SD_reschedule \<Rightarrow>
               Some (SR_rescheduled, run_at expectedDeadline
                 (JB_expireClaim taskId claimId fence leaseGeneration expectedDeadline) db)
           | SD_expire \<Rightarrow>
               (case overdueClaimSweepDisposition (loadTaskDispatchGuard db task) (cl_sweepSuppressed claim) of
                  SW_suppress \<Rightarrow> Some (SR_stale, patch_claim (cl_id claim)
                    (\<lambda>c. c \<lparr>cl_sweepSuppressed := Some True, cl_updatedAt := now\<rparr>) db)
                | SW_protected \<Rightarrow> Some (SR_stale, db)
                | SW_expire \<Rightarrow>
                    (case ensureCounterProjection task now SCHEDULE_REQUEST_ID db of
                       None \<Rightarrow> None
                     | Some (Inl err, db1) \<Rightarrow> Some (SR_stale, db1)
                     | Some (Inr actual, db1) \<Rightarrow>
                         (case expire_writes eventPublicId task claim fence actual now db1 of
                            None \<Rightarrow> None
                          | Some db2 \<Rightarrow> Some (SR_applied, db2)))))
      | _ \<Rightarrow> Some (SR_stale, db))"

subsection \<open>Waking a deferred task\<close>

definition scheduledWakeTupleMatches :: "nat \<Rightarrow> Task \<Rightarrow> TaskWake \<Rightarrow> int \<Rightarrow> int \<Rightarrow> bool" where
  "scheduledWakeTupleMatches scheduledTaskId task wake scheduledGeneration scheduledDeadline \<longleftrightarrow>
     tk_id task = scheduledTaskId \<and> wk_taskId wake = tk_id task \<and>
     wk_organizationId wake = tk_organizationId task \<and> wk_workspaceId wake = tk_workspaceId task \<and>
     wk_generation wake = scheduledGeneration \<and> wk_expectedAvailableAt wake = scheduledDeadline"

datatype WakeDispatchDisposition = WD_none | WD_advance | WD_invalid

definition scheduledWakeDispatchDisposition :: "nat \<Rightarrow> Task \<Rightarrow> DispatchRow option \<Rightarrow> WakeDispatchDisposition" where
  "scheduledWakeDispatchDisposition queuedDispatchCount task queuedDispatch =
     (if queuedDispatchCount = 0 then WD_none
      else if queuedDispatchCount = 1 \<and>
        (case queuedDispatch of
           None \<Rightarrow> False
         | Some dispatch \<Rightarrow>
             dr_organizationId dispatch = tk_organizationId task \<and> dr_workspaceId dispatch = tk_workspaceId task \<and>
             dr_taskId dispatch = tk_id task \<and> dr_taskKey dispatch = tk_key task \<and>
             dr_phase dispatch = RP_queued \<and> dr_queuedTaskRevision dispatch = tk_revision task \<and>
             dr_queuedClaimFence dispatch = tk_claimFence task)
      then WD_advance else WD_invalid)"

definition patch_wake :: "nat \<Rightarrow> WakeState \<Rightarrow> int \<Rightarrow> Db \<Rightarrow> Db" where
  "patch_wake i state now db = db \<lparr>db_wakes := patch_row wk_id i
     (\<lambda>w. w \<lparr>wk_state := state, wk_completedAt := Some now\<rparr>) (db_wakes db)\<rparr>"

definition wake_writes ::
  "string \<Rightarrow> Task \<Rightarrow> int \<Rightarrow> WakeDispatchDisposition \<Rightarrow> DispatchRow option \<Rightarrow> int \<Rightarrow> Db \<Rightarrow> Db option" where
  "wake_writes eventPublicId task generation dispatchDisposition queuedDispatch now db =
     (let nextRevision = tk_revision task + 1;
          db1 = (case (dispatchDisposition, queuedDispatch) of
            (WD_advance, Some d) \<Rightarrow> db \<lparr>db_dispatches := patch_row dr_id (dr_id d)
               (\<lambda>r. r \<lparr>dr_queuedTaskRevision := nextRevision, dr_candidateOrderAt := now,
                       dr_updatedAt := now\<rparr>) (db_dispatches db)\<rparr>
          | _ \<Rightarrow> db);
          db2 = patch_task (tk_id task) (\<lambda>t. t \<lparr>tk_isReady := True, tk_readySince := Some now,
            tk_revision := nextRevision, tk_updatedAt := now\<rparr>) db1 in
      appendTaskEvent eventPublicId task nextRevision ''task.became_ready''
        (EA_system ''defer_wake'' (''wake:'' @ tk_publicId task @ '':'' @ decimal (nat generation)))
        (EM_system ''defer_wake'') [] now (tk_organizationId task) (tk_workspaceId task) db2)"

definition wakeTask :: "string \<Rightarrow> nat \<Rightarrow> nat \<Rightarrow> int \<Rightarrow> int \<Rightarrow> int \<Rightarrow> Db \<Rightarrow> (ScheduledResult \<times> Db) option" where
  "wakeTask eventPublicId taskId wakeId generation expectedAvailableAt now db =
     (case (get_task db taskId, get_row wk_id (db_wakes db) wakeId) of
        (Some task, Some wake) \<Rightarrow>
          (if \<not> scheduledWakeTupleMatches taskId task wake generation expectedAvailableAt \<or> wk_state wake \<noteq> WS_pending
           then Some (SR_stale, db)
           else if tk_wakeGeneration task \<noteq> Some generation \<or> tk_availableAt task \<noteq> expectedAvailableAt \<or>
             tk_status task \<noteq> TS_open
           then Some (SR_stale, patch_wake (wk_id wake) WS_stale now db)
           else if now < expectedAvailableAt
           then Some (SR_rescheduled, run_at expectedAvailableAt
             (JB_wakeTask taskId wakeId generation expectedAvailableAt) db)
           else
             (let ready = isTaskReady task now;
                  queuedDispatches = (if ready \<and> \<not> tk_isReady task
                    then take 2 (filter (\<lambda>d. dr_workspaceId d = tk_workspaceId task \<and> dr_taskId d = tk_id task \<and>
                           dr_phase d = RP_queued) (db_dispatches db))
                    else []);
                  queuedDispatch = (case queuedDispatches of [] \<Rightarrow> None | d # ds \<Rightarrow> Some d);
                  dispatchDisposition =
                    scheduledWakeDispatchDisposition (length queuedDispatches) task queuedDispatch in
              if dispatchDisposition = WD_invalid then None
              else
                (let db1 = patch_wake (wk_id wake) WS_completed now db in
                 if \<not> ready \<or> tk_isReady task then Some (SR_applied, db1)
                 else
                   (case wake_writes eventPublicId task generation dispatchDisposition queuedDispatch now db1 of
                      None \<Rightarrow> None
                    | Some db2 \<Rightarrow> Some (SR_applied, db2)))))
      | _ \<Rightarrow> Some (SR_stale, db))"

subsection \<open>The sweeps\<close>

text \<open>
  Both sweeps take a page of their index and schedule the exact job of every row; the order of
  the index is that of the deadline, ties in creation order.
\<close>

definition sweepOverdueClaims :: "int \<Rightarrow> Db \<Rightarrow> (nat \<times> bool) \<times> Db" where
  "sweepOverdueClaims now db =
     (let rows = js_sort (\<lambda>l r. cl_leaseUntil l - cl_leaseUntil r)
            (filter (\<lambda>c. cl_sweepSuppressed c = None \<and> cl_state c = CS_active \<and> cl_leaseUntil c \<le> now) (db_claims db));
          page = take SWEEP_BATCH_SIZE rows;
          db1 = foldl (\<lambda>d c. run_at now (JB_expireClaim (cl_taskId c) (cl_id c) (cl_fence c)
                   (cl_leaseGeneration c) (cl_leaseUntil c)) d) db page;
          nextArgs = nextSweepArgs (length rows \<le> SWEEP_BATCH_SIZE) in
      ((length page, nextArgs \<noteq> None),
       case nextArgs of None \<Rightarrow> db1 | Some _ \<Rightarrow> run_at now JB_sweepOverdueClaims db1))"

definition sweepDueWakes :: "int \<Rightarrow> Db \<Rightarrow> (nat \<times> bool) \<times> Db" where
  "sweepDueWakes now db =
     (let rows = js_sort (\<lambda>l r. wk_expectedAvailableAt l - wk_expectedAvailableAt r)
            (filter (\<lambda>w. wk_state w = WS_pending \<and> wk_expectedAvailableAt w \<le> now) (db_wakes db));
          page = take SWEEP_BATCH_SIZE rows;
          db1 = foldl (\<lambda>d w. run_at now (JB_wakeTask (wk_taskId w) (wk_id w) (wk_generation w)
                   (wk_expectedAvailableAt w)) d) db page;
          nextArgs = nextSweepArgs (length rows \<le> SWEEP_BATCH_SIZE) in
      ((length page, nextArgs \<noteq> None),
       case nextArgs of None \<Rightarrow> db1 | Some _ \<Rightarrow> run_at now JB_sweepDueWakes db1))"

end
