(* ===== verification/ClaimSafety.thy ===== *)
theory ClaimSafety
  imports ClaimJobs
begin

text \<open>
  What the claim mutations promise. \<open>claims_ok\<close> ties the compact copy of a claim to the durable
  row and the fence; every mutation and every scheduled job preserves it. The abstract
  specification is the lease of a task: its fence and, while it is claimed, the owner, the
  generation and the deadline; each mutation refines a step of it or leaves it alone.
\<close>

subsection \<open>What a helper leaves alone\<close>

definition frame :: "Db \<Rightarrow> Db \<Rightarrow> bool" where
  "frame db db' \<longleftrightarrow> db_tasks db' = db_tasks db \<and> db_claims db' = db_claims db \<and> db_next db \<le> db_next db' \<and>
     db_dispatches db' = db_dispatches db \<and> db_workspaces db' = db_workspaces db \<and>
     db_dependencies db' = db_dependencies db \<and> db_submissions db' = db_submissions db \<and> db_usage db' = db_usage db"

lemma frame_refl [simp]: "frame db db"
  by (simp add: frame_def)

lemma frame_trans: "frame a b \<Longrightarrow> frame b c \<Longrightarrow> frame a c"
  by (simp add: frame_def)

lemma frame_run_at [simp]: "frame db (run_at t j db') \<longleftrightarrow> frame db db'"
  by (simp add: frame_def run_at_def)

lemma frame_rates [simp]: "frame db (db \<lparr>db_rates := r\<rparr>)"
  by (simp add: frame_def)

lemma frame_touch [simp]: "frame db (touchAuthorizedAgent a now db') \<longleftrightarrow> frame db db'"
  by (simp add: frame_def touchAuthorizedAgent_def)

lemma frame_append:
  "appendTaskEvent e task revision type actor command payload now org ws db = Some db' \<Longrightarrow> frame db db'"
  by (auto simp: frame_def appendTaskEvent_def advanceWorkspaceProjectionById_def split: option.splits)

lemma frame_repair: "queueProjectionRepair task kind now db = Some db' \<Longrightarrow> frame db db'"
  by (auto simp: frame_def queueProjectionRepair_def run_at_def Let_def split: option.splits if_splits)

lemma frame_counters: "ensureCounterProjection task now requestId db = Some (r, db') \<Longrightarrow> frame db db'"
  by (auto simp: ensureCounterProjection_def Let_def split: option.splits if_splits dest: frame_repair)

lemma frame_receipt:
  "storeReceipt codec identity operation key digest requestId data now db = Some db' \<Longrightarrow> frame db db'"
  by (auto simp: storeReceipt_def Let_def frame_def split: if_splits)

lemma frame_complete: "complete_command codec operation args a taskId now db = Some (r, db') \<Longrightarrow> frame db db'"
  by (auto simp: complete_command_def split: option.splits dest: frame_receipt)

lemma frame_refuse_with_repair: "refuse_with_repair task kind now requestId n db = Some (r, db') \<Longrightarrow> frame db db'"
  by (auto simp: refuse_with_repair_def split: option.splits dest: frame_repair)

lemma frame_refuse: "refuse code requestId details db = Some (r, db') \<Longrightarrow> frame db db'"
  by (auto simp: refuse_def)

lemma frame_prologue:
  "command_prologue codec operation scope routeClass args now db = Some (PG_done r db') \<Longrightarrow> frame db db'"
  "command_prologue codec operation scope routeClass args now db = Some (PG_go a db') \<Longrightarrow> frame db db'"
  by (auto simp: command_prologue_def Let_def split: option.splits sum.splits ReceiptLookup.splits)

lemma frame_admission: "claim_admission task now requestId db = Some (r, db') \<Longrightarrow> frame db db'"
  by (auto simp: claim_admission_def
      dest!: frame_counters frame_refuse_with_repair frame_refuse
      intro: frame_trans split: option.splits sum.splits if_splits)

lemmas frame_intros = frame_append frame_repair frame_counters frame_receipt frame_complete
  frame_refuse_with_repair frame_refuse frame_prologue frame_admission

lemma taskByKey_mem: "taskByKey db ws key = Some (Some task) \<Longrightarrow> task \<in> set (db_tasks db) \<and> tk_workspaceId task = ws \<and> tk_key task = key"
proof -
  have unique: "x \<in> set xs" if "unique_row xs = Some (Some x)" for xs and x :: Task
    using that by (cases xs rule: unique_row.cases) auto
  assume "taskByKey db ws key = Some (Some task)"
  from unique [OF this [unfolded taskByKey_def]] show ?thesis by simp
qed


subsection \<open>The invariant\<close>

definition task_claim_ok :: "Db \<Rightarrow> Task \<Rightarrow> bool" where
  "task_claim_ok db t \<longleftrightarrow> 0 \<le> tk_claimFence t \<and>
     (case tk_currentClaim t of
        None \<Rightarrow> tk_status t \<noteq> TS_in_progress
      | Some compact \<Rightarrow> cc_fence compact = tk_claimFence t \<and>
          (\<exists>c. get_claim db (cc_claimId compact) = Some c \<and> activeTaskClaimTupleMatches t compact c))"

definition claim_owned :: "Db \<Rightarrow> TaskClaim \<Rightarrow> bool" where
  "claim_owned db c \<longleftrightarrow> 1 \<le> cl_fence c \<and>
     (\<exists>t. get_task db (cl_taskId c) = Some t \<and> cl_fence c \<le> tk_claimFence t \<and>
       (cl_state c = CS_active \<longrightarrow> (\<exists>compact. tk_currentClaim t = Some compact \<and> cc_claimId compact = cl_id c)))"

definition claims_ok :: "Db \<Rightarrow> bool" where
  "claims_ok db \<longleftrightarrow>
     distinct (map tk_id (db_tasks db)) \<and> distinct (map cl_id (db_claims db)) \<and>
     (\<forall>t \<in> set (db_tasks db). tk_id t < db_next db) \<and> (\<forall>c \<in> set (db_claims db). cl_id c < db_next db) \<and>
     (\<forall>t \<in> set (db_tasks db). task_claim_ok db t) \<and> (\<forall>c \<in> set (db_claims db). claim_owned db c) \<and>
     inj_on (\<lambda>c. (cl_taskId c, cl_fence c)) (set (db_claims db))"

lemma task_claim_ok_cong: "db_claims db' = db_claims db \<Longrightarrow> task_claim_ok db' t = task_claim_ok db t"
  by (simp add: task_claim_ok_def split: option.split)

lemma claim_owned_cong: "db_tasks db' = db_tasks db \<Longrightarrow> claim_owned db' c = claim_owned db c"
  by (simp add: claim_owned_def)

lemma claims_ok_frame:
  assumes "claims_ok db" "frame db db'"
  shows "claims_ok db'"
proof -
  from assms(2) have eqs: "db_tasks db' = db_tasks db" "db_claims db' = db_claims db" "db_next db \<le> db_next db'"
    by (simp_all add: frame_def)
  note cong = task_claim_ok_cong [OF eqs(2)] claim_owned_cong [OF eqs(1)]
  from assms(1) eqs(3) show ?thesis
    unfolding claims_ok_def eqs(1,2) cong by (auto intro: less_le_trans)
qed

text \<open>The same invariant, read through the two lookups.\<close>

lemma claims_okI:
  assumes "distinct (map tk_id (db_tasks db))" "distinct (map cl_id (db_claims db))"
    and "\<And>i t. get_task db i = Some t \<Longrightarrow> i < db_next db \<and> task_claim_ok db t"
    and "\<And>i c. get_claim db i = Some c \<Longrightarrow> i < db_next db \<and> claim_owned db c"
    and "\<And>i j c d. get_claim db i = Some c \<Longrightarrow> get_claim db j = Some d \<Longrightarrow>
      cl_taskId c = cl_taskId d \<Longrightarrow> cl_fence c = cl_fence d \<Longrightarrow> i = j"
  shows "claims_ok db"
proof -
  have t: "get_task db (tk_id t) = Some t" if "t \<in> set (db_tasks db)" for t
    using get_row_mem [OF assms(1) that] .
  have c: "get_claim db (cl_id c) = Some c" if "c \<in> set (db_claims db)" for c
    using get_row_mem [OF assms(2) that] .
  have "inj_on (\<lambda>c. (cl_taskId c, cl_fence c)) (set (db_claims db))"
  proof (rule inj_onI)
    fix x y
    assume x: "x \<in> set (db_claims db)" and y: "y \<in> set (db_claims db)" and eq: "(cl_taskId x, cl_fence x) = (cl_taskId y, cl_fence y)"
    from eq have "cl_id x = cl_id y" by (intro assms(5) [OF c [OF x] c [OF y]]) simp_all
    then show "x = y" using assms(2) x y by (metis c option.inject)
  qed
  moreover have "tk_id x < db_next db \<and> task_claim_ok db x" if "x \<in> set (db_tasks db)" for x
    by (rule assms(3) [OF t [OF that]])
  moreover have "cl_id x < db_next db \<and> claim_owned db x" if "x \<in> set (db_claims db)" for x
    by (rule assms(4) [OF c [OF that]])
  ultimately show ?thesis unfolding claims_ok_def using assms(1,2) by simp
qed

lemma claims_okD:
  assumes "claims_ok db"
  shows "distinct (map tk_id (db_tasks db))" "distinct (map cl_id (db_claims db))"
    and "get_task db i = Some t \<Longrightarrow> i < db_next db \<and> tk_id t = i \<and> task_claim_ok db t"
    and "get_claim db j = Some c \<Longrightarrow> j < db_next db \<and> cl_id c = j \<and> claim_owned db c"
    and "get_claim db j = Some c \<Longrightarrow> get_claim db k = Some d \<Longrightarrow>
      cl_taskId c = cl_taskId d \<Longrightarrow> cl_fence c = cl_fence d \<Longrightarrow> j = k"
proof -
  show "distinct (map tk_id (db_tasks db))" "distinct (map cl_id (db_claims db))"
    using assms by (simp_all add: claims_ok_def)
  show "get_task db i = Some t \<Longrightarrow> i < db_next db \<and> tk_id t = i \<and> task_claim_ok db t"
    using assms get_row_Some [of tk_id "db_tasks db" i t] by (auto simp: claims_ok_def)
  show "get_claim db j = Some c \<Longrightarrow> j < db_next db \<and> cl_id c = j \<and> claim_owned db c"
    using assms get_row_Some [of cl_id "db_claims db" j c] by (auto simp: claims_ok_def)
  assume "get_claim db j = Some c" "get_claim db k = Some d" "cl_taskId c = cl_taskId d" "cl_fence c = cl_fence d"
  with assms get_row_Some [of cl_id "db_claims db" j c] get_row_Some [of cl_id "db_claims db" k d]
  show "j = k" by (auto simp: claims_ok_def dest: inj_onD)
qed

lemma claims_ok_task: "claims_ok db \<Longrightarrow> t \<in> set (db_tasks db) \<Longrightarrow> get_task db (tk_id t) = Some t"
  by (rule get_row_mem) (auto simp: claims_ok_def)

text \<open>A claim that matches a task is the one its compact copy names.\<close>

lemma matched_claim:
  assumes "claims_ok db" "get_task db i = Some t" "tk_currentClaim t = Some compact"
  obtains c where "get_claim db (cc_claimId compact) = Some c" "activeTaskClaimTupleMatches t compact c"
    "cl_fence c = tk_claimFence t" "cl_state c = CS_active" "cl_taskId c = i"
proof -
  from claims_okD(3) [OF assms(1,2)] assms(3) obtain c where
    "get_claim db (cc_claimId compact) = Some c" "activeTaskClaimTupleMatches t compact c"
    "cc_fence compact = tk_claimFence t" "tk_id t = i"
    by (auto simp: task_claim_ok_def)
  then show thesis by (intro that) (auto simp: activeTaskClaimTupleMatches_def)
qed

lemma no_active_without_claim:
  assumes "claims_ok db" "get_task db i = Some t" "tk_currentClaim t = None" "get_claim db j = Some c" "cl_taskId c = i"
  shows "cl_state c \<noteq> CS_active"
  using claims_okD(4) [OF assms(1,4)] assms(2,3,5) by (auto simp: claim_owned_def)


text \<open>One task and its own claims change, everything else stays.\<close>

lemma claims_ok_update:
  assumes ok: "claims_ok db" and t: "get_task db i = Some t"
    and tasks: "\<And>j. get_task db' j = (if j = i then Some t' else get_task db j)"
      "map tk_id (db_tasks db') = map tk_id (db_tasks db)"
    and claims: "distinct (map cl_id (db_claims db'))" and next': "db_next db \<le> db_next db'"
    and others: "\<And>j c. cl_taskId c \<noteq> i \<Longrightarrow> get_claim db' j = Some c \<longleftrightarrow> get_claim db j = Some c"
    and own: "\<And>j c. get_claim db' j = Some c \<Longrightarrow> cl_taskId c = i \<Longrightarrow>
      j < db_next db' \<and> 1 \<le> cl_fence c \<and> cl_fence c \<le> tk_claimFence t' \<and>
      (cl_state c = CS_active \<longrightarrow> (\<exists>compact. tk_currentClaim t' = Some compact \<and> cc_claimId compact = j))"
    and unique: "\<And>j k c d. get_claim db' j = Some c \<Longrightarrow> get_claim db' k = Some d \<Longrightarrow>
      cl_taskId c = i \<Longrightarrow> cl_taskId d = i \<Longrightarrow> cl_fence c = cl_fence d \<Longrightarrow> j = k"
    and t': "task_claim_ok db' t'"
  shows "claims_ok db'"
proof (rule claims_okI)
  note old = claims_okD [OF ok]
  show "distinct (map tk_id (db_tasks db'))" unfolding tasks(2) by (rule old(1))
  show "distinct (map cl_id (db_claims db'))" by (rule claims)
  show "j < db_next db' \<and> task_claim_ok db' u" if u: "get_task db' j = Some u" for j u
  proof (cases "j = i")
    case True
    with u tasks(1) t' old(3) [OF t] next' show ?thesis by auto
  next
    case False
    with u tasks(1) have u': "get_task db j = Some u" by simp
    from old(3) [OF this] have "j < db_next db" "tk_id u = j" and uok: "task_claim_ok db u" by auto
    have "task_claim_ok db' u"
    proof (cases "tk_currentClaim u")
      case None
      with uok show ?thesis by (simp add: task_claim_ok_def)
    next
      case (Some compact)
      from matched_claim [OF ok u' Some] obtain c where c: "get_claim db (cc_claimId compact) = Some c"
        "activeTaskClaimTupleMatches u compact c" "cl_taskId c = j" by metis
      with False others [of c] have "get_claim db' (cc_claimId compact) = Some c" by simp
      with c(2) uok Some show ?thesis by (simp add: task_claim_ok_def)
    qed
    with \<open>j < db_next db\<close> next' show ?thesis by simp
  qed
  show "j < db_next db' \<and> claim_owned db' c" if c: "get_claim db' j = Some c" for j c
  proof (cases "cl_taskId c = i")
    case True
    from get_row_Some [OF c] have "cl_id c = j" by simp
    with own [OF c True] tasks(1) [of i] True show ?thesis by (auto simp: claim_owned_def)
  next
    case False
    with c others have "get_claim db j = Some c" by simp
    from old(4) [OF this] have "j < db_next db" "claim_owned db c" by auto
    with False tasks(1) next' show ?thesis by (auto simp: claim_owned_def)
  qed
  show "j = k" if "get_claim db' j = Some c" "get_claim db' k = Some d" "cl_taskId c = cl_taskId d"
    "cl_fence c = cl_fence d" for j k c d
  proof (cases "cl_taskId c = i")
    case True
    with that unique show ?thesis by metis
  next
    case False
    with that others have "get_claim db j = Some c" "get_claim db k = Some d" by auto
    with that(3,4) old(5) show ?thesis by blast
  qed
qed

subsection \<open>The writes\<close>

lemma patch_task_simps [simp]:
  "db_tasks (patch_task i f db) = patch_row tk_id i f (db_tasks db)"
  "db_claims (patch_task i f db) = db_claims db" "db_next (patch_task i f db) = db_next db"
  "db_workspaces (patch_task i f db) = db_workspaces db" "db_dispatches (patch_task i f db) = db_dispatches db"
  "db_dependencies (patch_task i f db) = db_dependencies db" "db_submissions (patch_task i f db) = db_submissions db"
  "db_usage (patch_task i f db) = db_usage db"
  by (simp_all add: patch_task_def)

lemma patch_claim_simps [simp]:
  "db_claims (patch_claim i g db) = patch_row cl_id i g (db_claims db)"
  "db_tasks (patch_claim i g db) = db_tasks db" "db_next (patch_claim i g db) = db_next db"
  "db_workspaces (patch_claim i g db) = db_workspaces db" "db_dispatches (patch_claim i g db) = db_dispatches db"
  "db_dependencies (patch_claim i g db) = db_dependencies db" "db_submissions (patch_claim i g db) = db_submissions db"
  "db_usage (patch_claim i g db) = db_usage db"
  by (simp_all add: patch_claim_def)

lemma run_at_simps [simp]:
  "db_tasks (run_at time job db) = db_tasks db" "db_claims (run_at time job db) = db_claims db"
  "db_next (run_at time job db) = db_next db" "db_workspaces (run_at time job db) = db_workspaces db"
  "db_dispatches (run_at time job db) = db_dispatches db" "db_dependencies (run_at time job db) = db_dependencies db"
  "db_submissions (run_at time job db) = db_submissions db" "db_usage (run_at time job db) = db_usage db"
  by (simp_all add: run_at_def)

text \<open>A task gives up its claim: a release, an expiry, a submission or a cancellation.\<close>

lemma claims_ok_close:
  assumes ok: "claims_ok db" and t: "get_task db i = Some t" and c: "get_claim db j = Some c"
    and m: "tk_currentClaim t = Some compact" "cc_claimId compact = j"
    and state: "state \<noteq> CS_active" and fid: "\<And>x. tk_id (f x) = tk_id x"
    and f: "tk_claimFence (f t) = tk_claimFence t" "tk_currentClaim (f t) = None" "tk_status (f t) \<noteq> TS_in_progress"
    and frame: "frame (patch_task i f
      (patch_claim j (\<lambda>c. c \<lparr>cl_state := state, cl_endedAt := e, cl_updatedAt := u\<rparr>) db)) db'"
  shows "claims_ok db'"
proof (rule claims_ok_frame [OF _ frame])
  let ?g = "\<lambda>c. c \<lparr>cl_state := state, cl_endedAt := e, cl_updatedAt := u\<rparr>"
  let ?db = "patch_task i f (patch_claim j ?g db)"
  note old = claims_okD [OF ok]
  have gid: "cl_id (?g x) = cl_id x" "cl_taskId (?g x) = cl_taskId x" "cl_fence (?g x) = cl_fence x" for x by simp_all
  have claim: "get_claim ?db k = (if j = k then Some (?g c) else get_claim db k)" for k
    using c by (auto simp: table_simps)
  from matched_claim [OF ok t m(1)] m(2) c have ci: "cl_taskId c = i" by auto
  show "claims_ok ?db"
  proof (rule claims_ok_update [OF ok t])
    show "get_task ?db k = (if k = i then Some (f t) else get_task db k)" for k
      using t by (simp add: get_row_patch [of tk_id f, OF fid])
    show "map tk_id (db_tasks ?db) = map tk_id (db_tasks db)" by (simp add: keys_patch [of tk_id f, OF fid])
    show "distinct (map cl_id (db_claims ?db))" using old(2) by (simp add: table_simps)
    show "db_next db \<le> db_next ?db" by simp
    show "get_claim ?db k = Some d \<longleftrightarrow> get_claim db k = Some d" if "cl_taskId d \<noteq> i" for k d
      using that ci c unfolding claim by auto
    show "k < db_next ?db \<and> 1 \<le> cl_fence d \<and> cl_fence d \<le> tk_claimFence (f t) \<and>
        (cl_state d = CS_active \<longrightarrow> (\<exists>compact. tk_currentClaim (f t) = Some compact \<and> cc_claimId compact = k))"
      if "get_claim ?db k = Some d" "cl_taskId d = i" for k d
    proof (cases "j = k")
      case True
      with that claim have "d = ?g c" by simp
      with old(4) [OF c] t ci True state show ?thesis by (auto simp: claim_owned_def f)
    next
      case False
      with that claim have d: "get_claim db k = Some d" by simp
      from old(4) [OF this] that(2) t have "k < db_next db" "1 \<le> cl_fence d" "cl_fence d \<le> tk_claimFence t" "cl_id d = k"
        "cl_state d \<noteq> CS_active"
        using m False by (auto simp: claim_owned_def)
      then show ?thesis by (simp add: f)
    qed
    show "k = l" if "get_claim ?db k = Some x" "get_claim ?db l = Some y" "cl_taskId x = i" "cl_taskId y = i"
      "cl_fence x = cl_fence y" for k l x y
    proof -
      from that(1) obtain x' where "get_claim db k = Some x'" "cl_taskId x' = cl_taskId x" "cl_fence x' = cl_fence x"
        using c unfolding claim by (auto split: if_splits)
      moreover from that(2) obtain y' where "get_claim db l = Some y'" "cl_taskId y' = cl_taskId y" "cl_fence y' = cl_fence y"
        using c unfolding claim by (auto split: if_splits)
      ultimately show ?thesis using old(5) that(3-5) by metis
    qed
    show "task_claim_ok ?db (f t)" using old(3) [OF t] by (auto simp: task_claim_ok_def f)
  qed
qed


text \<open>A task and its claim change together and stay tied: a renewal, or no claim change at all.\<close>

lemma claims_ok_keep:
  assumes ok: "claims_ok db" and t: "get_task db i = Some t"
    and f: "\<And>x. tk_id (f x) = tk_id x" and fence: "tk_claimFence (f t) = tk_claimFence t"
    and g: "\<And>x. cl_id (g x) = cl_id x" "\<And>x. cl_taskId (g x) = cl_taskId x" "\<And>x. cl_fence (g x) = cl_fence x"
      "\<And>x. cl_state (g x) = cl_state x"
    and mine: "\<And>c. get_claim db j = Some c \<Longrightarrow> cl_taskId c = i"
    and claim_ids: "map_option cc_claimId (tk_currentClaim (f t)) = map_option cc_claimId (tk_currentClaim t)"
    and t': "task_claim_ok (patch_task i f (patch_claim j g db)) (f t)"
    and frame: "frame (patch_task i f (patch_claim j g db)) db'"
  shows "claims_ok db'"
proof (rule claims_ok_frame [OF _ frame])
  let ?db = "patch_task i f (patch_claim j g db)"
  note old = claims_okD [OF ok]
  have claim: "get_claim ?db k = (if j = k then map_option g (get_claim db k) else get_claim db k)" for k
    by (simp add: get_row_patch [of cl_id g, OF g(1)])
  have backward: "\<exists>x'. get_claim db k = Some x' \<and> cl_taskId x' = cl_taskId x \<and> cl_fence x' = cl_fence x \<and>
      cl_state x' = cl_state x" if "get_claim ?db k = Some x" for k x
    using that g unfolding claim by (auto split: if_splits)
  show "claims_ok ?db"
  proof (rule claims_ok_update [OF ok t])
    show "get_task ?db k = (if k = i then Some (f t) else get_task db k)" for k
      using t by (simp add: get_row_patch [of tk_id f, OF f])
    show "map tk_id (db_tasks ?db) = map tk_id (db_tasks db)" by (simp add: keys_patch [of tk_id f, OF f])
    show "distinct (map cl_id (db_claims ?db))" using old(2) by (simp add: keys_patch [of cl_id g, OF g(1)])
    show "db_next db \<le> db_next ?db" by simp
    show "get_claim ?db k = Some d \<longleftrightarrow> get_claim db k = Some d" if "cl_taskId d \<noteq> i" for k d
      using that mine g(2) unfolding claim by auto
    show "k < db_next ?db \<and> 1 \<le> cl_fence d \<and> cl_fence d \<le> tk_claimFence (f t) \<and>
        (cl_state d = CS_active \<longrightarrow> (\<exists>compact. tk_currentClaim (f t) = Some compact \<and> cc_claimId compact = k))"
      if d: "get_claim ?db k = Some d" "cl_taskId d = i" for k d
    proof -
      from backward [OF d(1)] obtain x where x: "get_claim db k = Some x" "cl_taskId x = i" "cl_fence x = cl_fence d"
        "cl_state x = cl_state d" using d(2) by auto
      from old(4) [OF x(1)] x t have "k < db_next db" "1 \<le> cl_fence d" "cl_fence d \<le> tk_claimFence t"
        "cl_state d = CS_active \<longrightarrow> (\<exists>compact. tk_currentClaim t = Some compact \<and> cc_claimId compact = k)"
        by (auto simp: claim_owned_def)
      with fence claim_ids show ?thesis by (cases "tk_currentClaim (f t)") auto
    qed
    show "k = l" if "get_claim ?db k = Some x" "get_claim ?db l = Some y" "cl_taskId x = i" "cl_taskId y = i"
      "cl_fence x = cl_fence y" for k l x y
      using backward [OF that(1)] backward [OF that(2)] that(3-5) old(5) by metis
    show "task_claim_ok ?db (f t)" by (rule t')
  qed
qed

text \<open>A task takes a new claim, the previous one if any being replaced.\<close>

definition end_previous :: "TaskClaim option \<Rightarrow> int \<Rightarrow> Db \<Rightarrow> Db" where
  "end_previous previous now db = (case previous of None \<Rightarrow> db | Some p \<Rightarrow> patch_claim (cl_id p)
     (\<lambda>c. c \<lparr>cl_state := CS_replaced, cl_endedAt := Some now, cl_updatedAt := now\<rparr>) db)"

lemma end_previous_simps [simp]:
  "db_tasks (end_previous p now db) = db_tasks db" "db_next (end_previous p now db) = db_next db"
  "db_workspaces (end_previous p now db) = db_workspaces db"
  "map cl_id (db_claims (end_previous p now db)) = map cl_id (db_claims db)"
  by (simp_all add: end_previous_def table_simps split: option.split)

lemma get_end_previous:
  "get_claim (end_previous p now db) k = (case p of
     Some q \<Rightarrow> if cl_id q = k then map_option (\<lambda>c. c \<lparr>cl_state := CS_replaced, cl_endedAt := Some now, cl_updatedAt := now\<rparr>)
         (get_claim db k) else get_claim db k
   | None \<Rightarrow> get_claim db k)"
  by (simp add: end_previous_def table_simps split: option.split)

lemma claims_ok_acquire:
  assumes ok: "claims_ok db" and t: "get_task db i = Some t"
    and prev: "previous = None \<and> tk_currentClaim t = None \<or>
      (\<exists>compact p. previous = Some p \<and> tk_currentClaim t = Some compact \<and> get_claim db (cc_claimId compact) = Some p)"
    and f: "\<And>x. tk_id (f x) = tk_id x" and fence: "tk_claimFence (f t) = tk_claimFence t + 1"
    and new: "cl_id c = db_next db" "cl_taskId c = i" "cl_fence c = tk_claimFence t + 1"
    and compact: "tk_currentClaim (f t) = Some compact" "cc_fence compact = tk_claimFence t + 1"
      "activeTaskClaimTupleMatches (f t) compact c"
    and db1: "db1 = end_previous previous now db"
    and frame: "frame (patch_task i f (db1 \<lparr>db_next := Suc (db_next db), db_claims := db_claims db1 @ [c]\<rparr>)) db'"
  shows "claims_ok db'"
proof (rule claims_ok_frame [OF _ frame])
  let ?db = "patch_task i f (db1 \<lparr>db_next := Suc (db_next db), db_claims := db_claims db1 @ [c]\<rparr>)"
  note old = claims_okD [OF ok]
  have fresh: "get_claim db (db_next db) = None"
  proof (rule ccontr)
    assume "\<not> ?thesis"
    then obtain d where "get_claim db (db_next db) = Some d" by auto
    from old(4) [OF this] show False by simp
  qed
  have keys: "map cl_id (db_claims db1) = map cl_id (db_claims db)" by (simp add: db1)
  have backward: "\<exists>x'. get_claim db k = Some x' \<and> cl_taskId x' = cl_taskId x \<and> cl_fence x' = cl_fence x"
    if "get_claim db1 k = Some x" for k x
    using that unfolding db1 get_end_previous by (auto split: option.splits if_splits)
  have fresh1: "get_claim db1 (db_next db) = None"
    using fresh by (simp add: db1 get_end_previous split: option.split)
  have claim: "get_claim ?db k = (if k = db_next db then Some c else get_claim db1 k)" for k
    using fresh1 new(1) by (auto simp: table_simps split: option.splits)
  show "claims_ok ?db"
  proof (rule claims_ok_update [OF ok t])
    show "get_task ?db k = (if k = i then Some (f t) else get_task db k)" for k
      using t by (simp add: db1 get_row_patch [of tk_id f, OF f])
    show "map tk_id (db_tasks ?db) = map tk_id (db_tasks db)" by (simp add: db1 keys_patch [of tk_id f, OF f])
    have "db_next db \<notin> cl_id ` set (db_claims db1)"
      using fresh unfolding get_row_None by (metis keys list.set_map)
    moreover have "distinct (map cl_id (db_claims db1))" unfolding keys by (rule old(2))
    ultimately show "distinct (map cl_id (db_claims ?db))" using new(1) by simp
    show "db_next db \<le> db_next ?db" by simp
    show "get_claim ?db k = Some d \<longleftrightarrow> get_claim db k = Some d" if d: "cl_taskId d \<noteq> i" for k d
    proof (cases "k = db_next db")
      case True
      with d new(2) fresh claim show ?thesis by auto
    next
      case False
      have "cl_taskId p = i" if "previous = Some p" for p
        using prev that matched_claim [OF ok t] by (metis option.distinct(1) option.inject)
      moreover have "get_claim db (cl_id p) = Some p" if "previous = Some p" for p
        using prev that old(4) by (metis option.distinct(1) option.inject)
      ultimately show ?thesis using False d
        unfolding claim unfolding db1 get_end_previous by (auto split: option.splits)
    qed
    show "k < db_next ?db \<and> 1 \<le> cl_fence d \<and> cl_fence d \<le> tk_claimFence (f t) \<and>
        (cl_state d = CS_active \<longrightarrow> (\<exists>compact. tk_currentClaim (f t) = Some compact \<and> cc_claimId compact = k))"
      if d: "get_claim ?db k = Some d" "cl_taskId d = i" for k d
    proof (cases "k = db_next db")
      case True
      with d claim have "d = c" by simp
      moreover have "cc_claimId compact = db_next db" using compact(3) new(1) by (simp add: activeTaskClaimTupleMatches_def)
      ultimately show ?thesis
        using old(3) [OF t] new fence compact(1) True by (auto simp: task_claim_ok_def)
    next
      case False
      with d claim have d1: "get_claim db1 k = Some d" by simp
      from backward [OF d1] d(2) obtain x where x: "get_claim db k = Some x" "cl_taskId x = i" "cl_fence x = cl_fence d" by auto
      from old(4) [OF x(1)] x t have bounds: "k < db_next db" "1 \<le> cl_fence d" "cl_fence d \<le> tk_claimFence t" "cl_id x = k"
        and active: "cl_state x = CS_active \<Longrightarrow> \<exists>compact. tk_currentClaim t = Some compact \<and> cc_claimId compact = k"
        by (auto simp: claim_owned_def)
      have "cl_state d \<noteq> CS_active"
      proof
        assume a: "cl_state d = CS_active"
        with d1 x(1) have "cl_state x = CS_active" and notprev: "\<forall>p. previous = Some p \<longrightarrow> cl_id p \<noteq> k"
          unfolding db1 get_end_previous by (auto split: option.splits if_splits)
        from active [OF this(1)] obtain comp where "tk_currentClaim t = Some comp" "cc_claimId comp = k" by blast
        with prev x(1) bounds(4) notprev show False by auto
      qed
      with bounds fence show ?thesis by auto
    qed
    show "k = l" if "get_claim ?db k = Some x" "get_claim ?db l = Some y" "cl_taskId x = i" "cl_taskId y = i"
      "cl_fence x = cl_fence y" for k l x y
    proof -
      have low: "cl_fence z < tk_claimFence t + 1 \<and> (\<exists>z'. get_claim db m = Some z' \<and> cl_taskId z' = i \<and> cl_fence z' = cl_fence z)"
        if z: "get_claim db1 m = Some z" "cl_taskId z = i" for m z
      proof -
        from backward [OF z(1)] z(2) obtain z' where "get_claim db m = Some z'" "cl_taskId z' = i" "cl_fence z' = cl_fence z" by auto
        with old(4) [OF this(1)] t show ?thesis by (auto simp: claim_owned_def)
      qed
      show ?thesis
        using that claim low [of k x] low [of l y] new(3) old(5) by (auto split: if_splits)
    qed
    have "cc_claimId compact = db_next db" using compact(3) new(1) by (simp add: activeTaskClaimTupleMatches_def)
    then show "task_claim_ok ?db (f t)"
      using compact fence old(3) [OF t] claim [of "db_next db"] by (simp add: task_claim_ok_def)
  qed
qed


subsection \<open>What a mutation amounts to\<close>

text \<open>Tenancy: a task's organization is that of its workspace.\<close>

definition tenants_ok :: "Db \<Rightarrow> bool" where
  "tenants_ok db \<longleftrightarrow> (\<forall>t \<in> set (db_tasks db). \<exists>w. get_row ws_id (db_workspaces db) (tk_workspaceId t) = Some w \<and>
     ws_organizationId w = tk_organizationId t)"

definition store_inv :: "Db \<Rightarrow> bool" where
  "store_inv db \<longleftrightarrow> claims_ok db \<and> tenants_ok db"

lemma store_inv_frame: "store_inv db \<Longrightarrow> frame db db' \<Longrightarrow> store_inv db'"
  by (auto simp: store_inv_def tenants_ok_def frame_def intro: claims_ok_frame [unfolded frame_def])

lemma tenants_ok_patch:
  assumes "tenants_ok db" "db_tasks db' = patch_row tk_id i f (db_tasks db)" "db_workspaces db' = db_workspaces db"
    and "\<And>t. tk_workspaceId (f t) = tk_workspaceId t" "\<And>t. tk_organizationId (f t) = tk_organizationId t"
  shows "tenants_ok db'"
  using assms(1) unfolding tenants_ok_def assms(2,3) set_patch by (auto simp: assms(4,5))

lemma tenants_ok_frame_patch:
  assumes "tenants_ok db" "db_tasks db0 = db_tasks db" "db_workspaces db0 = db_workspaces db"
    and "frame (patch_task i f db0) db'"
    and "\<And>t. tk_workspaceId (f t) = tk_workspaceId t" "\<And>t. tk_organizationId (f t) = tk_organizationId t"
  shows "tenants_ok db'"
  by (rule tenants_ok_patch [OF assms(1) _ _ assms(5,6), of db' i]) (use assms in \<open>simp_all add: frame_def\<close>)

lemma authorized_tenant:
  assumes "authorizeAgent db credentialId session requestId scope now = Some (Inr a)"
  shows "\<exists>w. get_row ws_id (db_workspaces db) (au_workspaceId a) = Some w \<and> ws_organizationId w = au_organizationId a"
proof -
  from assms obtain i w where w: "get_row ws_id (db_workspaces db) i = Some w"
    "au_workspaceId a = ws_id w" "ws_organizationId w = au_organizationId a"
    unfolding authorizeAgent_def Let_def
    by (simp split: option.splits if_splits) (elim conjE, hypsubst, fastforce)
  from get_row_Some [OF w(1)] w show ?thesis by auto
qed

lemma prologue_tenant:
  assumes "command_prologue codec operation scope routeClass args now db = Some (PG_go a db1)"
  shows "\<exists>w. get_row ws_id (db_workspaces db) (au_workspaceId a) = Some w \<and> ws_organizationId w = au_organizationId a"
  using assms
  by (auto simp: command_prologue_def Let_def dest: authorized_tenant
      split: option.splits sum.splits ReceiptLookup.splits)

text \<open>Counters that were checked are those of the task.\<close>

definition unblocked :: "Task \<Rightarrow> bool" where
  "unblocked t \<longleftrightarrow> tk_unresolvedBlockerCount t = 0 \<and> tk_cancelledBlockerCount t = 0"

lemma checked_counters:
  assumes "ensureCounterProjection task now requestId db = Some (Inr actual, db')"
  shows "actualBlockerCounters db task = Some actual" "unresolved actual = tk_unresolvedBlockerCount task"
    "cancelled actual = tk_cancelledBlockerCount task" "db' = db"
  using assms by (auto simp: ensureCounterProjection_def Let_def split: option.splits if_splits)

lemma checked_unblocked:
  assumes "ensureCounterProjection task now requestId db = Some (Inr actual, db')"
  shows "unblocked task \<longleftrightarrow> unresolved actual = 0 \<and> cancelled actual = 0"
  by (simp add: unblocked_def checked_counters [OF assms])

text \<open>A claim written by an authorized agent belongs to the task's tenant.\<close>

lemma same_tenant:
  assumes "tenants_ok db" "frame db db1" "command_prologue codec operation scope routeClass args now db = Some (PG_go a db1)"
    and "task \<in> set (db_tasks db1)" "tk_workspaceId task = au_workspaceId a"
  shows "au_organizationId a = tk_organizationId task"
proof -
  from assms(2,4) have "task \<in> set (db_tasks db)" by (simp add: frame_def)
  with assms(1) prologue_tenant [OF assms(3)] assms(5) show ?thesis by (auto simp: tenants_ok_def)
qed

definition acquired :: "AuthorizedAgent \<Rightarrow> string \<Rightarrow> int \<Rightarrow> nat \<Rightarrow> int \<Rightarrow> int \<Rightarrow> Task \<Rightarrow> Task" where
  "acquired a publicId fence claimId revision now t = t \<lparr>tk_status := TS_in_progress, tk_isReady := False,
     tk_readySince := None, tk_claimFence := fence,
     tk_currentClaim := Some \<lparr>cc_claimId = claimId, cc_publicId = publicId, cc_agentId = au_agentId a,
       cc_agentPublicId = au_agentPublicId a, cc_fence = fence, cc_leaseGeneration = 1,
       cc_leaseUntil = now + DEFAULT_CLAIM_LEASE_MS\<rparr>,
     tk_revision := revision, tk_updatedAt := now\<rparr>"

definition acquired_claim :: "AuthorizedAgent \<Rightarrow> string \<Rightarrow> int \<Rightarrow> nat \<Rightarrow> nat \<Rightarrow> int \<Rightarrow> TaskClaim" where
  "acquired_claim a publicId fence claimId taskId now = \<lparr>cl_id = claimId, cl_organizationId = au_organizationId a,
     cl_workspaceId = au_workspaceId a, cl_taskId = taskId, cl_publicId = publicId, cl_agentId = au_agentId a,
     cl_agentPublicId = au_agentPublicId a, cl_state = CS_active, cl_fence = fence, cl_leaseGeneration = 1,
     cl_leaseUntil = now + DEFAULT_CLAIM_LEASE_MS, cl_sweepSuppressed = None, cl_endedAt = None,
     cl_createdAt = now, cl_updatedAt = now\<rparr>"

lemma patch_task_cong:
  assumes "distinct (map tk_id (db_tasks db))" "get_task db i = Some t" "f t = g t"
  shows "patch_task i f db = patch_task i g db"
proof -
  have "f r = g r" if "r \<in> set (db_tasks db)" "tk_id r = i" for r
    using get_row_mem [OF assms(1) that(1)] that(2) assms(2,3) by simp
  then show ?thesis by (simp add: patch_task_def patch_row_def)
qed

lemma claim_writes_frame:
  assumes "claim_writes args a task previous fence now db = Some db'"
  shows "frame (patch_task (tk_id task)
      (acquired a (ca_randomClaimId args) fence (db_next db) (tk_revision task + 1) now)
      ((end_previous previous now db) \<lparr>db_next := Suc (db_next db),
         db_claims := db_claims (end_previous previous now db) @
           [acquired_claim a (ca_randomClaimId args) fence (db_next db) (tk_id task) now]\<rparr>)) db'"
proof -
  from assms have "frame (run_at (now + DEFAULT_CLAIM_LEASE_MS)
      (JB_expireClaim (tk_id task) (db_next db) fence 1 (now + DEFAULT_CLAIM_LEASE_MS))
      (patch_task (tk_id task) (acquired a (ca_randomClaimId args) fence (db_next db) (tk_revision task + 1) now)
        ((end_previous previous now db) \<lparr>db_next := Suc (db_next db),
           db_claims := db_claims (end_previous previous now db) @
             [acquired_claim a (ca_randomClaimId args) fence (db_next db) (tk_id task) now]\<rparr>))) db'"
    unfolding claim_writes_def Let_def end_previous_def [symmetric] end_previous_simps
      acquired_def [abs_def] acquired_claim_def
    by (rule frame_append)
  then show ?thesis by (rule frame_trans [rotated]) simp
qed

lemma claim_admission_accepts:
  assumes "claim_admission task now requestId db = Some (Inr previous, db')"
  shows "previous = None \<and> tk_status task = TS_open \<and> tk_currentClaim task = None \<and> isTaskReady task now \<or>
    (\<exists>compact p. previous = Some p \<and> tk_status task = TS_in_progress \<and> tk_currentClaim task = Some compact \<and>
       get_claim db (cc_claimId compact) = Some p \<and> activeClaimMatchesTask task (Some p) \<and> cl_leaseUntil p \<le> now)"
  using assms
  by (auto simp: claim_admission_def refuse_def refuse_with_repair_def isTaskReady_def
      split: if_splits option.splits sum.splits)

lemma claimTask_cases:
  assumes "claimTask codec args now db = Some (r, db')"
  obtains (nothing) "frame db db'"
  | (claimed) a db1 task previous db2 fence db3 where
      "command_prologue (parseTaskData codec) ''tasks.claim'' ''tasks:claim'' RC_agent_claim args now db = Some (PG_go a db1)"
      "frame db db1" "frame db db2" "frame db3 db'"
      "task \<in> set (db_tasks db1)" "tk_workspaceId task = au_workspaceId a" "tk_key task = ca_key args"
      "claim_admission task now (ca_requestId args) db1 = Some (Inr previous, db2)"
      "nextClaimFence (tk_claimFence task) = Some fence"
      "claim_writes args a task previous fence now db2 = Some db3"
      "complete_command codec ''tasks.claim'' args a (tk_id task) now db3 = Some (r, db')"
proof (cases "assertRequestMetadata (ca_idempotencyKey args) (ca_requestDigest args) (ca_requestId args) now")
  case (Some err)
  from assms Some have "frame db db'" by (simp add: claimTask_def)
  then show thesis by (rule nothing)
next
  case None
  show thesis
  proof (cases "command_prologue (parseTaskData codec) ''tasks.claim'' ''tasks:claim'' RC_agent_claim args now db")
    case None
    with \<open>assertRequestMetadata _ _ _ _ = None\<close> assms show thesis by (simp add: claimTask_def)
  next
    case prologue: (Some outcome)
    show thesis
    proof (cases outcome)
      case (PG_done result db1)
      from assms None prologue PG_done have "db1 = db'" by (simp add: claimTask_def)
      with prologue PG_done have "frame db db'" using frame_prologue(1) by blast
      then show thesis by (rule nothing)
    next
      case (PG_go a db1)
      note go = prologue [unfolded PG_go]
      note f1 = frame_prologue(2) [OF go]
      show thesis
      proof (cases "\<exists>task previous db2 fence db3. taskByKey db1 (au_workspaceId a) (ca_key args) = Some (Some task) \<and>
          claim_admission task now (ca_requestId args) db1 = Some (Inr previous, db2) \<and>
          nextClaimFence (tk_claimFence task) = Some fence \<and> claim_writes args a task previous fence now db2 = Some db3")
        case True
        then obtain task previous db2 fence db3 where steps:
          "taskByKey db1 (au_workspaceId a) (ca_key args) = Some (Some task)"
          "claim_admission task now (ca_requestId args) db1 = Some (Inr previous, db2)"
          "nextClaimFence (tk_claimFence task) = Some fence" "claim_writes args a task previous fence now db2 = Some db3"
          by blast
        from steps go None assms have "complete_command codec ''tasks.claim'' args a (tk_id task) now db3 = Some (r, db')"
          by (simp add: claimTask_def)
        then show thesis
          using claimed [OF go f1 frame_trans [OF f1 frame_admission [OF steps(2)]] frame_complete]
            steps taskByKey_mem [OF steps(1)] by blast
      next
        case False
        from False go None assms have "frame db1 db'"
          by (auto simp: claimTask_def refuse_def refuse_with_repair_def dest!: frame_admission frame_repair
              intro: frame_trans split: option.splits sum.splits)
        with f1 have "frame db db'" by (rule frame_trans)
        then show thesis by (rule nothing)
      qed
    qed
  qed
qed

definition renewed :: "CompactClaim \<Rightarrow> int \<Rightarrow> int \<Rightarrow> int \<Rightarrow> int \<Rightarrow> Task \<Rightarrow> Task" where
  "renewed compact generation leaseUntil revision now t = t \<lparr>tk_currentClaim :=
     Some (compact \<lparr>cc_leaseGeneration := generation, cc_leaseUntil := leaseUntil\<rparr>),
     tk_revision := revision, tk_updatedAt := now\<rparr>"

definition renewed_claim :: "int \<Rightarrow> int \<Rightarrow> int \<Rightarrow> TaskClaim \<Rightarrow> TaskClaim" where
  "renewed_claim generation leaseUntil now c =
     c \<lparr>cl_leaseGeneration := generation, cl_leaseUntil := leaseUntil, cl_updatedAt := now\<rparr>"

definition ended :: "ClaimState \<Rightarrow> int \<Rightarrow> TaskClaim \<Rightarrow> TaskClaim" where
  "ended state now c = c \<lparr>cl_state := state, cl_endedAt := Some now, cl_updatedAt := now\<rparr>"

lemma renew_writes_frame:
  assumes "renew_writes args a task compact claim now db = Some db'"
  shows "frame (patch_task (tk_id task)
      (renewed compact (cl_leaseGeneration claim + 1) (now + DEFAULT_CLAIM_LEASE_MS) (tk_revision task + 1) now)
      (patch_claim (cl_id claim) (renewed_claim (cl_leaseGeneration claim + 1) (now + DEFAULT_CLAIM_LEASE_MS) now) db)) db'"
  using assms unfolding renew_writes_def Let_def renewed_def [abs_def] renewed_claim_def [abs_def]
  by (rule frame_trans [OF _ frame_append, rotated]) simp

lemma release_writes_frame:
  assumes "release_writes args a task claim actual now db = Some db'"
  shows "\<exists>ready. (ready \<longrightarrow> unresolved actual = 0 \<and> cancelled actual = 0) \<and>
    frame (patch_task (tk_id task) (reopened ready (tk_revision task + 1) now)
      (patch_claim (cl_id claim) (ended CS_released now) db)) db'"
proof (intro exI conjI)
  show "frame (patch_task (tk_id task)
      (reopened (tk_availableAt task \<le> now \<and> unresolved actual = 0 \<and> cancelled actual = 0) (tk_revision task + 1) now)
      (patch_claim (cl_id claim) (ended CS_released now) db)) db'"
    using frame_append [OF assms [unfolded release_writes_def Let_def]] unfolding ended_def [abs_def] .
qed simp

lemma expire_writes_frame:
  assumes "expire_writes e task claim fence actual now db = Some db'"
  shows "\<exists>ready. (ready \<longrightarrow> unresolved actual = 0 \<and> cancelled actual = 0) \<and>
    frame (patch_task (tk_id task) (reopened ready (tk_revision task + 1) now)
      (patch_claim (cl_id claim) (ended CS_expired now) db)) db'"
proof (intro exI conjI)
  show "frame (patch_task (tk_id task)
      (reopened (tk_availableAt task \<le> now \<and> unresolved actual = 0 \<and> cancelled actual = 0) (tk_revision task + 1) now)
      (patch_claim (cl_id claim) (ended CS_expired now) db)) db'"
    using frame_append [OF assms [unfolded expire_writes_def Let_def]] unfolding ended_def [abs_def] .
qed simp

lemma renewClaim_cases:
  assumes "renewClaim codec args now db = Some (r, db')"
  obtains (nothing) "frame db db'"
  | (renewed) a db1 task compact claim db2 where
      "command_prologue (parseTaskData codec) ''tasks.claim.renew'' ''tasks:claim'' RC_agent_claim args now db = Some (PG_go a db1)"
      "frame db db1" "taskByKey db1 (au_workspaceId a) (ca_key args) = Some (Some task)"
      "tk_currentClaim task = Some compact" "get_claim db1 (cc_claimId compact) = Some claim"
      "activeClaimMatchesTask task (Some claim)"
      "claimCommandDisposition CK_renew (tk_status task) True (Some (cc_agentId compact)) (au_agentId a)
         (Some (cc_fence compact)) (ca_fence args) (Some (cc_leaseUntil compact)) now
         (Some CLAIM_RENEWAL_THRESHOLD_MS) = CD_allowed"
      "renew_writes args a task compact claim now db1 = Some db2" "frame db2 db'"
proof -
  let ?meta = "assertRequestMetadata (ca_idempotencyKey args) (ca_requestDigest args) (ca_requestId args) now"
  let ?prologue = "command_prologue (parseTaskData codec) ''tasks.claim.renew'' ''tasks:claim'' RC_agent_claim args now db"
  consider (early) "frame db db'" | (go) a db1 where "?meta = None" "?prologue = Some (PG_go a db1)" "frame db db1"
    using assms by (auto simp: renewClaim_def split: option.splits prologue.splits dest: frame_prologue)
  then show thesis
  proof cases
    case early
    then show thesis by (rule nothing)
  next
    case go
    show thesis
    proof (cases "\<exists>task compact claim db2. taskByKey db1 (au_workspaceId a) (ca_key args) = Some (Some task) \<and>
        tk_status task = TS_in_progress \<and> tk_currentClaim task = Some compact \<and>
        get_claim db1 (cc_claimId compact) = Some claim \<and> activeClaimMatchesTask task (Some claim) \<and>
        claimCommandDisposition CK_renew (tk_status task) True (Some (cc_agentId compact)) (au_agentId a)
          (Some (cc_fence compact)) (ca_fence args) (Some (cc_leaseUntil compact)) now
          (Some CLAIM_RENEWAL_THRESHOLD_MS) = CD_allowed \<and>
        renew_writes args a task compact claim now db1 = Some db2")
      case True
      then obtain task compact claim db2 where steps: "taskByKey db1 (au_workspaceId a) (ca_key args) = Some (Some task)"
        "tk_status task = TS_in_progress" "tk_currentClaim task = Some compact"
        "get_claim db1 (cc_claimId compact) = Some claim" "activeClaimMatchesTask task (Some claim)"
        "claimCommandDisposition CK_renew (tk_status task) True (Some (cc_agentId compact)) (au_agentId a)
          (Some (cc_fence compact)) (ca_fence args) (Some (cc_leaseUntil compact)) now
          (Some CLAIM_RENEWAL_THRESHOLD_MS) = CD_allowed"
        "renew_writes args a task compact claim now db1 = Some db2" by blast
      from steps go assms have "complete_command codec ''tasks.claim.renew'' args a (tk_id task) now db2 = Some (r, db')"
        by (simp add: renewClaim_def)
      from renewed [OF go(2,3) steps(1,3,4,5,6,7) frame_complete [OF this]] show thesis .
    next
      case False
      with go assms have "frame db1 db'"
        by (auto simp: renewClaim_def refuse_def dest!: frame_refuse_with_repair
            split: option.splits if_splits ClaimCommandDisposition.splits)
      with go(3) have "frame db db'" by (rule frame_trans)
      then show thesis by (rule nothing)
    qed
  qed
qed

lemma releaseClaim_cases:
  assumes "releaseClaim codec args now db = Some (r, db')"
  obtains (nothing) "frame db db'"
  | (released) a db1 task compact claim actual db2 db3 where
      "command_prologue (parseTaskData codec) ''tasks.claim.release'' ''tasks:claim'' RC_agent_claim args now db = Some (PG_go a db1)"
      "frame db db1" "taskByKey db1 (au_workspaceId a) (ca_key args) = Some (Some task)"
      "tk_currentClaim task = Some compact" "get_claim db1 (cc_claimId compact) = Some claim"
      "activeClaimMatchesTask task (Some claim)" "cc_agentId compact = au_agentId a" "cc_fence compact = ca_fence args"
      "now < cc_leaseUntil compact" "ensureCounterProjection task now (ca_requestId args) db1 = Some (Inr actual, db2)"
      "release_writes args a task claim actual now db2 = Some db3" "frame db3 db'"
proof -
  let ?meta = "assertRequestMetadata (ca_idempotencyKey args) (ca_requestDigest args) (ca_requestId args) now"
  let ?prologue = "command_prologue (parseTaskData codec) ''tasks.claim.release'' ''tasks:claim'' RC_agent_claim args now db"
  consider (early) "frame db db'" | (go) a db1 where "?meta = None" "?prologue = Some (PG_go a db1)" "frame db db1"
    using assms by (auto simp: releaseClaim_def split: option.splits prologue.splits dest: frame_prologue)
  then show thesis
  proof cases
    case early
    then show thesis by (rule nothing)
  next
    case go
    show thesis
    proof (cases "\<exists>task compact claim actual db2 db3. taskByKey db1 (au_workspaceId a) (ca_key args) = Some (Some task) \<and>
        tk_status task = TS_in_progress \<and> tk_currentClaim task = Some compact \<and>
        get_claim db1 (cc_claimId compact) = Some claim \<and> activeClaimMatchesTask task (Some claim) \<and>
        cc_agentId compact = au_agentId a \<and> cc_fence compact = ca_fence args \<and> now < cc_leaseUntil compact \<and>
        ensureCounterProjection task now (ca_requestId args) db1 = Some (Inr actual, db2) \<and>
        release_writes args a task claim actual now db2 = Some db3")
      case True
      then obtain task compact claim actual db2 db3 where
        steps: "taskByKey db1 (au_workspaceId a) (ca_key args) = Some (Some task)"
        "tk_status task = TS_in_progress" "tk_currentClaim task = Some compact"
        "get_claim db1 (cc_claimId compact) = Some claim" "activeClaimMatchesTask task (Some claim)"
        "cc_agentId compact = au_agentId a" "cc_fence compact = ca_fence args" "now < cc_leaseUntil compact"
        "ensureCounterProjection task now (ca_requestId args) db1 = Some (Inr actual, db2)"
        "release_writes args a task claim actual now db2 = Some db3" by blast
      from steps go assms have "complete_command codec ''tasks.claim.release'' args a (tk_id task) now db3 = Some (r, db')"
        by (simp add: releaseClaim_def)
      from released [OF go(2,3) steps(1,3-10) frame_complete [OF this]] show thesis .
    next
      case False
      with go assms have "frame db1 db'"
        by (auto simp: releaseClaim_def refuse_def not_less dest!: frame_refuse_with_repair frame_counters
            split: option.splits if_splits sum.splits)
      with go(3) have "frame db db'" by (rule frame_trans)
      then show thesis by (rule nothing)
    qed
  qed
qed

end
