(* ===== verification/ClaimRuns.thy ===== *)
theory ClaimRuns
  imports ClaimSafety
begin

text \<open>
  The mutations and jobs of a task's claim as one system. \<open>effect\<close> lists what a command can do to
  the tables of tasks and claims; each handler refines it, and the properties of whole runs are
  proved once over \<open>effect\<close>. The abstract specification is the lease of one task.
\<close>

subsection \<open>What a command can do\<close>

definition replaceable :: "Db \<Rightarrow> Task \<Rightarrow> TaskClaim option \<Rightarrow> int \<Rightarrow> bool" where
  "replaceable db t previous now \<longleftrightarrow>
     (case (previous, tk_currentClaim t) of
        (None, None) \<Rightarrow> True
      | (Some p, Some compact) \<Rightarrow> get_claim db (cc_claimId compact) = Some p \<and>
          activeTaskClaimTupleMatches t compact p \<and> cl_leaseUntil p \<le> now
      | _ \<Rightarrow> False)"

definition insert_claim :: "TaskClaim \<Rightarrow> Db \<Rightarrow> Db" where
  "insert_claim c db = db \<lparr>db_next := Suc (db_next db), db_claims := db_claims db @ [c]\<rparr>"

definition insert_task :: "Task \<Rightarrow> Db \<Rightarrow> Db" where
  "insert_task t db = db \<lparr>db_next := Suc (db_next db), db_tasks := db_tasks db @ [t]\<rparr>"

definition suppressed :: "int \<Rightarrow> TaskClaim \<Rightarrow> TaskClaim" where
  "suppressed now c = c \<lparr>cl_sweepSuppressed := Some True, cl_updatedAt := now\<rparr>"

definition woken :: "int \<Rightarrow> int \<Rightarrow> Task \<Rightarrow> Task" where
  "woken revision now t = t \<lparr>tk_isReady := True, tk_readySince := Some now, tk_revision := revision, tk_updatedAt := now\<rparr>"

inductive effect :: "int \<Rightarrow> Db \<Rightarrow> Db \<Rightarrow> bool" for now :: int where
  idle: "frame db db' \<Longrightarrow> effect now db db'"
| acquire: "frame db db0 \<Longrightarrow> get_task db i = Some t \<Longrightarrow> replaceable db t previous now \<Longrightarrow>
    au_workspaceId a = tk_workspaceId t \<Longrightarrow> au_organizationId a = tk_organizationId t \<Longrightarrow>
    fence = tk_claimFence t + 1 \<Longrightarrow>
    frame (patch_task i (acquired a publicId fence (db_next db0) revision now)
      (insert_claim (acquired_claim a publicId fence (db_next db0) i now) (end_previous previous now db0))) db' \<Longrightarrow>
    tk_status t = TS_open \<or> tk_status t = TS_in_progress \<Longrightarrow> effect now db db'"
| renew: "frame db db0 \<Longrightarrow> get_task db i = Some t \<Longrightarrow> tk_currentClaim t = Some compact \<Longrightarrow>
    get_claim db (cc_claimId compact) = Some c \<Longrightarrow> activeTaskClaimTupleMatches t compact c \<Longrightarrow>
    now < cc_leaseUntil compact \<Longrightarrow> cc_leaseUntil compact \<le> now + CLAIM_RENEWAL_THRESHOLD_MS \<Longrightarrow>
    frame (patch_task i (renewed compact (cl_leaseGeneration c + 1) (now + DEFAULT_CLAIM_LEASE_MS) revision now)
      (patch_claim (cl_id c) (renewed_claim (cl_leaseGeneration c + 1) (now + DEFAULT_CLAIM_LEASE_MS) now) db0)) db' \<Longrightarrow>
    effect now db db'"
| reopen: "frame db db0 \<Longrightarrow> get_task db i = Some t \<Longrightarrow> tk_currentClaim t = Some compact \<Longrightarrow>
    get_claim db (cc_claimId compact) = Some c \<Longrightarrow> activeTaskClaimTupleMatches t compact c \<Longrightarrow>
    state = (if now < cc_leaseUntil compact then CS_released else CS_expired) \<Longrightarrow>
    frame (patch_task i (reopened ready revision now) (patch_claim (cl_id c) (ended state now) db0)) db' \<Longrightarrow>
    (ready \<Longrightarrow> unblocked t) \<Longrightarrow> effect now db db'"
| suppress: "get_claim db j = Some c \<Longrightarrow> frame (patch_claim j (suppressed now) db) db' \<Longrightarrow> effect now db db'"
| create: "frame db db0 \<Longrightarrow> tk_id t = db_next db0 \<Longrightarrow> tk_status t = TS_open \<Longrightarrow> tk_currentClaim t = None \<Longrightarrow>
    tk_claimFence t = 0 \<Longrightarrow>
    (\<exists>w. get_row ws_id (db_workspaces db) (tk_workspaceId t) = Some w \<and> ws_organizationId w = tk_organizationId t) \<Longrightarrow>
    frame (insert_task t db0) db' \<Longrightarrow> unblocked t \<Longrightarrow> tk_isBlocked t = Some False \<Longrightarrow> effect now db db'"
| wake: "get_task db i = Some t \<Longrightarrow> tk_status t = TS_open \<Longrightarrow> db_tasks db' = patch_row tk_id i (woken revision now) (db_tasks db) \<Longrightarrow>
    db_claims db' = db_claims db \<Longrightarrow> db_workspaces db' = db_workspaces db \<Longrightarrow> db_next db \<le> db_next db' \<Longrightarrow>
    db_dependencies db' = db_dependencies db \<Longrightarrow> unblocked t \<Longrightarrow> tk_currentClaim t = None \<Longrightarrow>
    db_submissions db' = db_submissions db \<Longrightarrow> effect now db db'"

subsection \<open>Each handler is an effect\<close>

lemma prologue_task:
  assumes "store_inv db" "command_prologue codec operation scope routeClass args now db = Some (PG_go a db1)"
    and "task \<in> set (db_tasks db1)" "tk_workspaceId task = au_workspaceId a"
  shows "get_task db (tk_id task) = Some task" "au_organizationId a = tk_organizationId task"
proof -
  have f: "frame db db1" by (rule frame_prologue(2) [OF assms(2)])
  with assms(3) have "task \<in> set (db_tasks db)" by (simp add: frame_def)
  with assms(1) show "get_task db (tk_id task) = Some task"
    by (auto simp: store_inv_def intro: claims_ok_task)
  show "au_organizationId a = tk_organizationId task"
    using assms f by (intro same_tenant [OF _ f assms(2)]) (auto simp: store_inv_def)
qed

lemma frame_claims: "frame db db' \<Longrightarrow> get_claim db' j = get_claim db j"
  by (simp add: frame_def)

lemma frame_tasks: "frame db db' \<Longrightarrow> get_task db' j = get_task db j"
  by (simp add: frame_def)

lemma claimTask_effect:
  assumes inv: "store_inv db" and run: "claimTask codec args now db = Some (r, db')"
  shows "effect now db db'"
  using run
proof (cases rule: claimTask_cases)
  case nothing
  then show ?thesis by (rule effect.idle)
next
  case (claimed a db1 task previous db2 fence db3)
  note t = prologue_task [OF inv claimed(1,5,6)]
  have f2: "frame db1 db2" by (rule frame_admission [OF claimed(8)])
  have replaceable: "replaceable db task previous now"
    using claim_admission_accepts [OF claimed(8)] frame_claims [OF claimed(2)]
    by (auto simp: replaceable_def activeClaimMatchesTask_def)
  have next': "fence = tk_claimFence task + 1"
    using claimed(9) by (auto simp: nextClaimFence_def Let_def split: if_splits)
  show ?thesis
    using claim_writes_frame [OF claimed(10)]
    by (intro effect.acquire [OF claimed(3) t(1) replaceable, of a fence])
      (use claim_admission_accepts [OF claimed(8)] in
        \<open>auto simp: t(2) claimed(6) next' insert_claim_def intro: frame_trans [OF _ claimed(4)]\<close>)
qed

lemma renewClaim_effect:
  assumes inv: "store_inv db" and run: "renewClaim codec args now db = Some (r, db')"
  shows "effect now db db'"
  using run
proof (cases rule: renewClaim_cases)
  case nothing
  then show ?thesis by (rule effect.idle)
next
  case (renewed a db1 task compact claim db2)
  from taskByKey_mem [OF renewed(3)] have mem: "task \<in> set (db_tasks db1)" "tk_workspaceId task = au_workspaceId a" by auto
  from renewed(5) have c: "get_claim db (cc_claimId compact) = Some claim" by (simp add: frame_claims [OF renewed(2)])
  from renewed(4,6) have m: "activeTaskClaimTupleMatches task compact claim" by (simp add: activeClaimMatchesTask_def)
  from renewed(7) have "now < cc_leaseUntil compact" "cc_leaseUntil compact \<le> now + CLAIM_RENEWAL_THRESHOLD_MS"
    by (auto simp: claimCommandDisposition_def split: if_splits)
  then show ?thesis
    by (rule effect.renew [OF renewed(2) prologue_task(1) [OF inv renewed(1) mem] renewed(4) c m _ _
          frame_trans [OF renew_writes_frame [OF renewed(8)] renewed(9)]])
qed

lemma releaseClaim_effect:
  assumes inv: "store_inv db" and run: "releaseClaim codec args now db = Some (r, db')"
  shows "effect now db db'"
  using run
proof (cases rule: releaseClaim_cases)
  case nothing
  then show ?thesis by (rule effect.idle)
next
  case (released a db1 task compact claim actual db2 db3)
  from taskByKey_mem [OF released(3)] have mem: "task \<in> set (db_tasks db1)" "tk_workspaceId task = au_workspaceId a" by auto
  from released(5) have c: "get_claim db (cc_claimId compact) = Some claim" by (simp add: frame_claims [OF released(2)])
  from released(4,6) have m: "activeTaskClaimTupleMatches task compact claim" by (simp add: activeClaimMatchesTask_def)
  from release_writes_frame [OF released(11)] checked_unblocked [OF released(10)] obtain ready where
    ready: "ready \<Longrightarrow> unblocked task" and
    "frame (patch_task (tk_id task) (reopened ready (tk_revision task + 1) now)
      (patch_claim (cl_id claim) (ended CS_released now) db2)) db3" by blast
  note written = this(2)
  from effect.reopen [OF frame_trans [OF released(2) frame_counters [OF released(10)]]
      prologue_task(1) [OF inv released(1) mem] released(4) c m _ frame_trans [OF written released(12)] ready] released(9)
  show ?thesis by simp
qed

text \<open>The expiry job acts only where the exact claim is overdue and no dispatch holds the task.\<close>

lemma expireClaim_cases:
  assumes "expireClaim e i j fence generation deadline now db = Some (r, db')"
  obtains (nothing) "frame db db'" "r \<noteq> SR_applied"
  | (suppressed) c where "get_claim db j = Some c" "frame (patch_claim j (suppressed now) db) db'" "r \<noteq> SR_applied"
  | (applied) t compact c actual db1 where "r = SR_applied" "get_task db i = Some t" "get_claim db j = Some c"
      "tk_currentClaim t = Some compact" "activeTaskClaimTupleMatches t compact c"
      "cc_claimId compact = j" "cc_fence compact = fence" "cc_leaseGeneration compact = generation"
      "cc_leaseUntil compact = deadline" "deadline \<le> now" "loadTaskDispatchGuard db t = DG_clear"
      "ensureCounterProjection t now SCHEDULE_REQUEST_ID db = Some (Inr actual, db1)"
      "expire_writes e t c fence actual now db1 = Some db'"
proof (cases "get_task db i")
  case None
  with assms have "frame db db'" "r \<noteq> SR_applied" by (auto simp: expireClaim_def)
  then show thesis by (rule nothing)
next
  case t: (Some t)
  show thesis
  proof (cases "get_claim db j")
    case None
    with t assms have "frame db db'" "r \<noteq> SR_applied" by (auto simp: expireClaim_def)
    then show thesis by (rule nothing)
  next
    case c: (Some c)
    let ?disposition = "scheduledClaimDisposition (activeClaimMatchesTask t (Some c)) j
      (map_option cc_claimId (tk_currentClaim t)) fence (map_option cc_fence (tk_currentClaim t)) generation
      (map_option cc_leaseGeneration (tk_currentClaim t)) deadline (map_option cc_leaseUntil (tk_currentClaim t)) now"
    show thesis
    proof (cases ?disposition)
      case SD_stale
      with t c assms have "frame db db'" "r \<noteq> SR_applied"
        by (auto simp: expireClaim_def split: option.splits dest: frame_repair)
      then show thesis by (rule nothing)
    next
      case SD_reschedule
      with t c assms have "frame db db'" "r \<noteq> SR_applied" by (auto simp: expireClaim_def)
      then show thesis by (rule nothing)
    next
      case SD_expire
      then obtain compact where m: "tk_currentClaim t = Some compact" "activeTaskClaimTupleMatches t compact c"
        "cc_claimId compact = j" "cc_fence compact = fence" "cc_leaseGeneration compact = generation"
        "cc_leaseUntil compact = deadline" "deadline \<le> now"
        by (auto simp: scheduledClaimDisposition_def activeClaimMatchesTask_def split: if_splits option.splits)
      from get_row_Some [OF c] have cj: "cl_id c = j" by simp
      show thesis
      proof (cases "overdueClaimSweepDisposition (loadTaskDispatchGuard db t) (cl_sweepSuppressed c)")
        case SW_suppress
        with t c SD_expire assms cj have "frame (patch_claim j (suppressed now) db) db'" "r \<noteq> SR_applied"
          by (auto simp: expireClaim_def suppressed_def [abs_def])
        then show thesis by (rule suppressed [OF c])
      next
        case SW_protected
        with t c SD_expire assms have "frame db db'" "r \<noteq> SR_applied" by (auto simp: expireClaim_def)
        then show thesis by (rule nothing)
      next
        case SW_expire
        then have clear: "loadTaskDispatchGuard db t = DG_clear"
          by (simp add: overdueClaimSweepDisposition_def split: if_splits)
        from SW_expire SD_expire t c assms consider (failed) "frame db db'" "r \<noteq> SR_applied"
          | (ok) actual db1 where "r = SR_applied" "ensureCounterProjection t now SCHEDULE_REQUEST_ID db = Some (Inr actual, db1)"
            "expire_writes e t c fence actual now db1 = Some db'"
          by (auto simp: expireClaim_def split: option.splits sum.splits dest: frame_counters)
        then show thesis
        proof cases
          case failed
          then show thesis by (rule nothing)
        next
          case ok
          show thesis by (rule applied [OF ok(1) t c m clear ok(2,3)])
        qed
      qed
    qed
  qed
qed

lemma expireClaim_effect:
  assumes run: "expireClaim e i j fence generation deadline now db = Some (r, db')"
  shows "effect now db db'"
  using run
proof (cases rule: expireClaim_cases)
  case nothing
  then show ?thesis by (intro effect.idle)
next
  case (suppressed c)
  then show ?thesis by (intro effect.suppress)
next
  case (applied t compact c actual db1)
  from get_row_Some [OF applied(2)] have i: "tk_id t = i" by simp
  from applied(6,3) have c: "get_claim db (cc_claimId compact) = Some c" by simp
  from expire_writes_frame [OF applied(13)] checked_unblocked [OF applied(12)] obtain ready where
    ready: "ready \<Longrightarrow> unblocked t" and
    "frame (patch_task i (reopened ready (tk_revision t + 1) now) (patch_claim (cl_id c) (ended CS_expired now) db1)) db'"
    unfolding i by blast
  note written = this(2)
  from effect.reopen [OF frame_counters [OF applied(12)] applied(2,4) c applied(5) _ written ready] applied(9,10)
  show ?thesis by simp
qed

lemma createTask_effect:
  assumes run: "createTask codec args now db = Some (r, db')"
  shows "effect now db db'"
proof (cases "frame db db'")
  case True
  then show ?thesis by (rule effect.idle)
next
  case False
  from run False obtain a db1 w key title availableAt taskId db2 where steps:
    "command_prologue (parseTaskData codec) ''tasks.create'' ''tasks:create'' RC_agent_write (claim_args_of args) now db = Some (PG_go a db1)"
    "get_row ws_id (db_workspaces db1) (au_workspaceId a) = Some w"
    "create_writes args a (ws_id w) key title availableAt now db1 = Some (taskId, db2)"
    "complete_command codec ''tasks.create'' (claim_args_of args) a taskId now db2 = Some (r, db')"
    unfolding createTask_def Let_def refuse_def
    by (auto split: option.splits prologue.splits if_splits dest: frame_prologue)
  note f1 = frame_prologue(2) [OF steps(1)] and f2 = frame_complete [OF steps(4)]
  from prologue_tenant [OF steps(1)] steps(2) f1
  have w: "ws_organizationId w = au_organizationId a" by (simp add: frame_def)
  from get_row_Some [OF steps(2)] have id: "ws_id w = au_workspaceId a" by simp
  from steps(3) obtain t where t: "frame (insert_task t db1) db2" "tk_id t = db_next db1" "tk_status t = TS_open"
    "tk_currentClaim t = None" "tk_claimFence t = 0" "tk_workspaceId t = ws_id w" "tk_organizationId t = au_organizationId a"
    "unblocked t" "tk_isBlocked t = Some False"
  proof -
    assume that: "\<And>t. \<lbrakk>frame (insert_task t db1) db2; tk_id t = db_next db1; tk_status t = TS_open;
      tk_currentClaim t = None; tk_claimFence t = 0; tk_workspaceId t = ws_id w;
      tk_organizationId t = au_organizationId a; unblocked t; tk_isBlocked t = Some False\<rbrakk> \<Longrightarrow> thesis"
    show thesis
      using steps(3) unfolding create_writes_def Let_def
      by (auto split: option.splits if_splits dest!: frame_append simp: frame_def insert_task_def run_at_def unblocked_def intro!: that)
  qed
  have "\<exists>w. get_row ws_id (db_workspaces db) (tk_workspaceId t) = Some w \<and> ws_organizationId w = tk_organizationId t"
    using steps(2) f1 w id t(6,7) by (simp add: frame_def)
  from effect.create [OF f1 t(2-5) this frame_trans [OF t(1) f2] t(8,9)] show ?thesis .
qed

lemma patch_wake_simps [simp]:
  "db_tasks (patch_wake j w now db) = db_tasks db" "db_claims (patch_wake j w now db) = db_claims db"
  "db_next (patch_wake j w now db) = db_next db" "db_workspaces (patch_wake j w now db) = db_workspaces db"
  "db_dispatches (patch_wake j w now db) = db_dispatches db" "db_dependencies (patch_wake j w now db) = db_dependencies db"
  "db_submissions (patch_wake j w now db) = db_submissions db" "db_usage (patch_wake j w now db) = db_usage db"
  by (simp_all add: patch_wake_def)

lemma frame_patch_wake [simp]: "frame db (patch_wake j w now db)"
  by (simp add: frame_def)

lemma wake_writes_tables:
  assumes "wake_writes e t generation d q now db = Some db'"
  shows "db_tasks db' = patch_row tk_id (tk_id t) (woken (tk_revision t + 1) now) (db_tasks db) \<and>
    db_claims db' = db_claims db \<and> db_workspaces db' = db_workspaces db \<and> db_next db \<le> db_next db' \<and>
    db_dependencies db' = db_dependencies db \<and> db_submissions db' = db_submissions db"
  using frame_append [OF assms [unfolded wake_writes_def Let_def]]
  by (cases d; cases q) (simp_all add: frame_def woken_def [abs_def])

lemma wakeTask_effect:
  assumes run: "wakeTask e i j generation deadline now db = Some (r, db')"
  shows "effect now db db'"
proof (cases "frame db db'")
  case True
  then show ?thesis by (rule effect.idle)
next
  case False
  then obtain t w where t: "get_task db i = Some t" and w: "get_row wk_id (db_wakes db) j = Some w"
    using run unfolding wakeTask_def by (auto split: option.splits)
  from False run t w have open_task: "tk_status t = TS_open"
    unfolding wakeTask_def by (auto split: if_splits)
  from False run t w have "isTaskReady t now"
    unfolding wakeTask_def Let_def by (auto split: if_splits)
  then have ready: "unblocked t" "tk_currentClaim t = None" by (simp_all add: isTaskReady_def unblocked_def)
  from get_row_Some [OF t] have i: "tk_id t = i" by simp
  from False run t w obtain d q where
    written: "wake_writes e t generation d q now (patch_wake (wk_id w) WS_completed now db) = Some db'"
    unfolding wakeTask_def Let_def by (auto split: if_splits option.splits)
  from wake_writes_tables [OF written] have "db_tasks db' = patch_row tk_id i (woken (tk_revision t + 1) now) (db_tasks db)"
    "db_claims db' = db_claims db" "db_workspaces db' = db_workspaces db" "db_next db \<le> db_next db'"
    "db_dependencies db' = db_dependencies db" "db_submissions db' = db_submissions db"
    by (simp_all add: i)
  then show ?thesis by (rule effect.wake [OF t open_task _ _ _ _ _ ready])
qed

subsection \<open>Every effect keeps the invariant\<close>

lemma store_invD: "store_inv db \<Longrightarrow> claims_ok db" "store_inv db \<Longrightarrow> tenants_ok db"
  by (simp_all add: store_inv_def)

lemma frame_store: "frame db db0 \<Longrightarrow> db_tasks db0 = db_tasks db" "frame db db0 \<Longrightarrow> db_workspaces db0 = db_workspaces db"
  by (simp_all add: frame_def)

lemma effect_acquire_inv:
  assumes inv: "store_inv db" and f: "frame db db0" and t: "get_task db i = Some t" and prev: "replaceable db t previous now"
    and tenant: "au_workspaceId a = tk_workspaceId t" "au_organizationId a = tk_organizationId t"
    and last: "frame (patch_task i (acquired a publicId (tk_claimFence t + 1) (db_next db0) revision now)
      (insert_claim (acquired_claim a publicId (tk_claimFence t + 1) (db_next db0) i now) (end_previous previous now db0))) db'"
  shows "store_inv db'"
proof -
  note ok = claims_ok_frame [OF store_invD(1) [OF inv] f]
  from t have t0: "get_task db0 i = Some t" by (simp add: frame_tasks [OF f])
  from get_row_Some [OF t] have i: "tk_id t = i" by simp
  have "claims_ok db'"
  proof (rule claims_ok_acquire [OF ok t0 _ _ _ _ _ _ _ _ _ refl last [unfolded insert_claim_def end_previous_simps]])
    show "previous = None \<and> tk_currentClaim t = None \<or> (\<exists>compact p. previous = Some p \<and>
        tk_currentClaim t = Some compact \<and> get_claim db0 (cc_claimId compact) = Some p)"
      using prev by (auto simp: replaceable_def frame_claims [OF f] split: option.splits)
    show "tk_currentClaim (acquired a publicId (tk_claimFence t + 1) (db_next db0) revision now t) =
      Some \<lparr>cc_claimId = db_next db0, cc_publicId = publicId, cc_agentId = au_agentId a,
        cc_agentPublicId = au_agentPublicId a, cc_fence = tk_claimFence t + 1, cc_leaseGeneration = 1,
        cc_leaseUntil = now + DEFAULT_CLAIM_LEASE_MS\<rparr>"
      by (simp add: acquired_def)
  qed (use tenant i in \<open>simp_all add: acquired_def acquired_claim_def activeTaskClaimTupleMatches_def\<close>)
  moreover have "tenants_ok db'"
    by (rule tenants_ok_frame_patch [OF store_invD(2) [OF inv] _ _ last])
      (simp_all add: insert_claim_def frame_store [OF f] acquired_def)
  ultimately show ?thesis by (simp add: store_inv_def)
qed

lemma effect_renew_inv:
  assumes inv: "store_inv db" and f: "frame db db0" and t: "get_task db i = Some t"
    and compact: "tk_currentClaim t = Some compact" and c: "get_claim db (cc_claimId compact) = Some c"
    and m: "activeTaskClaimTupleMatches t compact c"
    and last: "frame (patch_task i (renewed compact generation leaseUntil revision now)
      (patch_claim (cl_id c) (renewed_claim generation leaseUntil now) db0)) db'"
  shows "store_inv db'"
proof -
  note ok = claims_ok_frame [OF store_invD(1) [OF inv] f]
  from t have t0: "get_task db0 i = Some t" by (simp add: frame_tasks [OF f])
  from c have c0: "get_claim db0 (cc_claimId compact) = Some c" by (simp add: frame_claims [OF f])
  from m have id: "cc_claimId compact = cl_id c" by (simp add: activeTaskClaimTupleMatches_def)
  from get_row_Some [OF t] have i: "tk_id t = i" by simp
  have keys: "cl_id (renewed_claim generation leaseUntil now x) = cl_id x" for x by (simp add: renewed_claim_def)
  have "claims_ok db'"
  proof (rule claims_ok_keep [OF ok t0 _ _ _ _ _ _ _ _ _ last])
    show "cl_taskId x = i" if "get_claim db0 (cl_id c) = Some x" for x
      using that c0 m i by (simp add: id activeTaskClaimTupleMatches_def)
    show "task_claim_ok (patch_task i (renewed compact generation leaseUntil revision now)
        (patch_claim (cl_id c) (renewed_claim generation leaseUntil now) db0)) (renewed compact generation leaseUntil revision now t)"
      using claims_okD(3) [OF ok t0] compact c0 m
      by (simp add: task_claim_ok_def renewed_def id get_row_patch [of cl_id, OF keys])
        (simp add: activeTaskClaimTupleMatches_def renewed_claim_def)
  qed (simp_all add: renewed_def renewed_claim_def compact)
  moreover have "tenants_ok db'"
    by (rule tenants_ok_frame_patch [OF store_invD(2) [OF inv] _ _ last]) (simp_all add: frame_store [OF f] renewed_def)
  ultimately show ?thesis by (simp add: store_inv_def)
qed

lemma effect_reopen_inv:
  assumes inv: "store_inv db" and f: "frame db db0" and t: "get_task db i = Some t"
    and compact: "tk_currentClaim t = Some compact" and c: "get_claim db (cc_claimId compact) = Some c"
    and state: "state \<noteq> CS_active"
    and last: "frame (patch_task i (reopened ready revision now) (patch_claim (cl_id c) (ended state now) db0)) db'"
  shows "store_inv db'"
proof -
  note ok = claims_ok_frame [OF store_invD(1) [OF inv] f]
  from t have t0: "get_task db0 i = Some t" by (simp add: frame_tasks [OF f])
  from get_row_Some [OF c] have id: "cc_claimId compact = cl_id c" by simp
  from c have c0: "get_claim db0 (cl_id c) = Some c" by (simp add: frame_claims [OF f] id)
  have "claims_ok db'"
    by (rule claims_ok_close [OF ok t0 c0 compact id state _ _ _ _ last [unfolded ended_def [abs_def]]])
      (simp_all add: reopened_def)
  moreover have "tenants_ok db'"
    by (rule tenants_ok_frame_patch [OF store_invD(2) [OF inv] _ _ last]) (simp_all add: frame_store [OF f] reopened_def)
  ultimately show ?thesis by (simp add: store_inv_def)
qed

text \<open>A change of a claim row that neither its task nor its fence shows.\<close>

lemma effect_suppress_inv:
  assumes inv: "store_inv db" and c: "get_claim db j = Some c" and last: "frame (patch_claim j (suppressed now) db) db'"
  shows "store_inv db'"
proof -
  note ok = store_invD(1) [OF inv]
  from claims_okD(4) [OF ok c] obtain t where t: "get_task db (cl_taskId c) = Some t" by (auto simp: claim_owned_def)
  have same: "patch_task (cl_taskId c) (\<lambda>t. t) x = x" for x by (simp add: patch_task_def patch_row_def)
  have keys: "cl_id (suppressed now x) = cl_id x" for x by (simp add: suppressed_def)
  have "task_claim_ok (patch_claim j (suppressed now) db) t"
    using claims_okD(3) [OF ok t] by (auto simp: task_claim_ok_def get_row_patch [of cl_id, OF keys]
        activeTaskClaimTupleMatches_def suppressed_def split: option.splits)
  then have "claims_ok db'"
    using c by (intro claims_ok_keep [OF ok t, of "\<lambda>t. t" "suppressed now" j]) (auto simp: same suppressed_def last)
  moreover have "tenants_ok db'"
    using store_invD(2) [OF inv] last by (simp add: tenants_ok_def frame_def)
  ultimately show ?thesis by (simp add: store_inv_def)
qed

lemma get_task_insert:
  assumes "claims_ok db" "tk_id t = db_next db"
  shows "get_task (insert_task t db) i = (if i = db_next db then Some t else get_task db i)"
proof -
  have "get_task db (db_next db) = None"
  proof (rule ccontr)
    assume "\<not> ?thesis"
    then obtain u where "get_task db (db_next db) = Some u" by auto
    from claims_okD(3) [OF assms(1) this] show False by simp
  qed
  with assms(2) show ?thesis by (auto simp: insert_task_def table_simps split: option.split)
qed

lemma effect_create_inv:
  assumes inv: "store_inv db" and f: "frame db db0" and t: "tk_id t = db_next db0" "tk_status t = TS_open"
    "tk_currentClaim t = None" "tk_claimFence t = 0"
    and tenant: "\<exists>w. get_row ws_id (db_workspaces db) (tk_workspaceId t) = Some w \<and> ws_organizationId w = tk_organizationId t"
    and last: "frame (insert_task t db0) db'"
  shows "store_inv db'"
proof -
  note ok = claims_ok_frame [OF store_invD(1) [OF inv] f]
  let ?db = "insert_task t db0"
  note task = get_task_insert [OF ok t(1)]
  have stores [simp]: "db_claims ?db = db_claims db0" "db_next ?db = Suc (db_next db0)" "db_workspaces ?db = db_workspaces db0"
    by (simp_all add: insert_task_def)
  have tasks: "db_tasks ?db = db_tasks db0 @ [t]" by (simp add: insert_task_def)
  have "claims_ok ?db"
  proof (rule claims_okI)
    show "distinct (map tk_id (db_tasks ?db))"
    proof -
      have "tk_id t \<notin> tk_id ` set (db_tasks db0)" using ok t(1) by (auto simp: claims_ok_def)
      with claims_okD(1) [OF ok] show ?thesis by (simp add: tasks)
    qed
    show "distinct (map cl_id (db_claims ?db))" using claims_okD(2) [OF ok] by simp
    show "i < db_next ?db \<and> task_claim_ok ?db u" if "get_task ?db i = Some u" for i u
    proof (cases "i = db_next db0")
      case True
      with that task have "u = t" by simp
      with True t show ?thesis by (simp add: task_claim_ok_def)
    next
      case False
      with that task have "get_task db0 i = Some u" by simp
      from claims_okD(3) [OF ok this] task_claim_ok_cong [of ?db db0] show ?thesis by simp
    qed
    show "i < db_next ?db \<and> claim_owned ?db c" if "get_claim ?db i = Some c" for i c
    proof -
      from that claims_okD(4) [OF ok, of i c] obtain u where "i < db_next db0" "get_task db0 (cl_taskId c) = Some u"
        and owned: "claim_owned db0 c" by (auto simp: claim_owned_def)
      moreover from claims_okD(3) [OF ok this(2)] have "cl_taskId c \<noteq> db_next db0" by auto
      ultimately show ?thesis by (auto simp: claim_owned_def task)
    qed
    show "i = j" if "get_claim ?db i = Some c" "get_claim ?db j = Some d" "cl_taskId c = cl_taskId d"
      "cl_fence c = cl_fence d" for i j c d
      using that claims_okD(5) [OF ok, of i c j d] by simp
  qed
  from claims_ok_frame [OF this last] have "claims_ok db'" .
  moreover have "tenants_ok db'"
    using store_invD(2) [OF inv] last tenant unfolding tenants_ok_def
    by (auto simp: frame_def tasks frame_store [OF f])
  ultimately show ?thesis by (simp add: store_inv_def)
qed

lemma effect_wake_inv:
  assumes inv: "store_inv db" and t: "get_task db i = Some t" and "tk_status t = TS_open"
    and tables: "db_tasks db' = patch_row tk_id i (woken revision now) (db_tasks db)" "db_claims db' = db_claims db"
      "db_workspaces db' = db_workspaces db" "db_next db \<le> db_next db'"
  shows "store_inv db'"
proof -
  note ok = store_invD(1) [OF inv]
  have same: "patch_claim j (\<lambda>c. c) x = x" for j x by (simp add: patch_claim_def patch_row_def)
  let ?db = "patch_task i (woken revision now) (patch_claim (db_next db) (\<lambda>c. c) db)"
  have "get_claim db (db_next db) = None"
  proof (rule ccontr)
    assume "\<not> ?thesis"
    then obtain c where "get_claim db (db_next db) = Some c" by auto
    from claims_okD(4) [OF ok this] show False by simp
  qed
  moreover have "task_claim_ok (patch_task i (woken revision now) db) (woken revision now t)"
    using claims_okD(3) [OF ok t] by (auto simp: task_claim_ok_def woken_def activeTaskClaimTupleMatches_def split: option.splits)
  ultimately have "claims_ok ?db"
    by (intro claims_ok_keep [OF ok t, of "woken revision now" "\<lambda>c. c" "db_next db"])
      (auto simp: woken_def same)
  then have "claims_ok (patch_task i (woken revision now) db)" by (simp add: same)
  moreover from this have "claims_ok db'"
  proof -
    let ?patched = "patch_task i (woken revision now) db"
    have "task_claim_ok db' = task_claim_ok ?patched" "claim_owned db' = claim_owned ?patched"
      using task_claim_ok_cong [of db' ?patched] claim_owned_cong [of db' ?patched] tables by auto
    with \<open>claims_ok ?patched\<close> tables show ?thesis unfolding claims_ok_def by (auto intro: less_le_trans)
  qed
  moreover have "tenants_ok db'"
    by (rule tenants_ok_patch [OF store_invD(2) [OF inv] tables(1,3)]) (simp_all add: woken_def)
  ultimately show ?thesis by (simp add: store_inv_def)
qed

lemma effect_store_inv: "effect now db db' \<Longrightarrow> store_inv db \<Longrightarrow> store_inv db'"
proof (induction rule: effect.induct)
  case (reopen db db0 i t compact c state ready revision db')
  from reopen(6) have "state \<noteq> CS_active" by (simp split: if_splits)
  from effect_reopen_inv [OF reopen(9,1-4) this reopen(7)] show ?case .
next
  case (acquire db db0 i t previous a fence publicId revision db')
  from effect_acquire_inv [OF acquire(9,1-5) acquire(7) [unfolded acquire(6)]] show ?case .
qed (blast intro: store_inv_frame effect_renew_inv effect_suppress_inv effect_create_inv effect_wake_inv)+

subsection \<open>The lease of a task\<close>

text \<open>
  The abstract specification. A task is free or leased, and carries a fence. A free task may be
  taken with the next fence; a leased one may be extended by its holder close to the deadline,
  given up, or, once lapsed, taken over with the next fence.
\<close>

record Lease =
  ls_claim :: nat
  ls_agent :: nat
  ls_generation :: int
  ls_until :: int

definition fresh_lease :: "int \<Rightarrow> Lease \<Rightarrow> bool" where
  "fresh_lease now l \<longleftrightarrow> ls_generation l = 1 \<and> ls_until l = now + DEFAULT_CLAIM_LEASE_MS"

definition extended_lease :: "int \<Rightarrow> Lease \<Rightarrow> Lease \<Rightarrow> bool" where
  "extended_lease now l l' \<longleftrightarrow> now < ls_until l \<and> ls_until l \<le> now + CLAIM_RENEWAL_THRESHOLD_MS \<and>
     l' = l \<lparr>ls_generation := ls_generation l + 1, ls_until := now + DEFAULT_CLAIM_LEASE_MS\<rparr>"

fun lease_step :: "int \<Rightarrow> int \<times> Lease option \<Rightarrow> int \<times> Lease option \<Rightarrow> bool" where
  "lease_step now (fence, None) (fence', None) \<longleftrightarrow> fence' = fence"
| "lease_step now (fence, None) (fence', Some l) \<longleftrightarrow> fence' = fence + 1 \<and> fresh_lease now l"
| "lease_step now (fence, Some l) (fence', None) \<longleftrightarrow> fence' = fence"
| "lease_step now (fence, Some l) (fence', Some l') \<longleftrightarrow>
     fence' = fence \<and> (l' = l \<or> extended_lease now l l') \<or>
     fence' = fence + 1 \<and> ls_until l \<le> now \<and> fresh_lease now l'"

lemma lease_step_refl [simp]: "lease_step now l l"
  by (cases l; cases "snd l") auto

definition lease_of :: "Task \<Rightarrow> int \<times> Lease option" where
  "lease_of t = (tk_claimFence t, map_option (\<lambda>c. \<lparr>ls_claim = cc_claimId c, ls_agent = cc_agentId c,
     ls_generation = cc_leaseGeneration c, ls_until = cc_leaseUntil c\<rparr>) (tk_currentClaim t))"

text \<open>Every effect keeps every task and moves its lease by a step; at most one task is touched.\<close>

lemma patched_task:
  assumes "frame (patch_task i f db1) db'" "db_tasks db1 = db_tasks db" "\<And>x. tk_id (f x) = tk_id x"
  shows "get_task db' j = (if i = j then map_option f (get_task db j) else get_task db j)"
  using assms(1,2) by (simp add: frame_def get_row_patch [of tk_id f, OF assms(3)])

lemma effect_lease:
  assumes "effect now db db'" "store_inv db" "get_task db j = Some u"
  shows "\<exists>u'. get_task db' j = Some u' \<and> lease_step now (lease_of u) (lease_of u')"
  using assms
proof (induction rule: effect.induct)
  case (acquire db db0 i t previous a fence publicId revision db')
  have "get_task db' j = (if i = j then map_option (acquired a publicId fence (db_next db0) revision now) (get_task db j)
      else get_task db j)"
    by (rule patched_task [OF acquire(7)]) (simp_all add: insert_claim_def frame_store [OF acquire(1)] acquired_def)
  with acquire(2,10) show ?case
    using acquire(3,6) by (auto simp: lease_of_def acquired_def replaceable_def fresh_lease_def activeTaskClaimTupleMatches_def
        split: option.splits)
next
  case (renew db db0 i t compact c revision db')
  have "get_task db' j = (if i = j then map_option (renewed compact (cl_leaseGeneration c + 1) (now + DEFAULT_CLAIM_LEASE_MS)
      revision now) (get_task db j) else get_task db j)"
    by (rule patched_task [OF renew(8)]) (simp_all add: frame_store [OF renew(1)] renewed_def)
  with renew show ?case
    by (auto simp: lease_of_def renewed_def extended_lease_def activeTaskClaimTupleMatches_def)
next
  case (reopen db db0 i t compact c state ready revision db')
  have "get_task db' j = (if i = j then map_option (reopened ready revision now) (get_task db j) else get_task db j)"
    by (rule patched_task [OF reopen(7)]) (simp_all add: frame_store [OF reopen(1)] reopened_def)
  with reopen show ?case by (auto simp: lease_of_def reopened_def)
next
  case (create db db0 t db')
  from create(11) have "get_task db0 j = Some u" by (simp add: frame_store [OF create(1)])
  moreover have "claims_ok db0" by (rule claims_ok_frame [OF store_invD(1) [OF create(10)] create(1)])
  ultimately have "get_task (insert_task t db0) j = Some u"
    using claims_okD(3) [of db0 j u] create(2) by (simp add: get_task_insert)
  with create(7) show ?case by (simp add: frame_tasks)
next
  case (wake db i t db' revision)
  have keys: "tk_id (woken revision now x) = tk_id x" for x by (simp add: woken_def)
  from wake(12) have "get_task db' j = Some (if i = j then woken revision now u else u)"
    by (simp add: wake(3) get_row_patch [of tk_id, OF keys])
  then show ?case by (auto simp: lease_of_def woken_def)
qed (auto simp: frame_def)

subsection \<open>Commands and runs\<close>

datatype Command =
    CM_create CreateArgs
  | CM_claim ClaimArgs
  | CM_renew ClaimArgs
  | CM_release ClaimArgs
  | CM_expire string nat nat int int int
  | CM_wake string nat nat int int
  | CM_sweep_claims
  | CM_sweep_wakes

text \<open>What a client is told, and the store after a command; a thrown error leaves the store.\<close>

fun answer :: "TaskViewCodec \<Rightarrow> int \<Rightarrow> Command \<Rightarrow> Db \<Rightarrow> task_result option" where
  "answer codec now (CM_create args) db = createTask codec args now db"
| "answer codec now (CM_claim args) db = claimTask codec args now db"
| "answer codec now (CM_renew args) db = renewClaim codec args now db"
| "answer codec now (CM_release args) db = releaseClaim codec args now db"
| "answer codec now _ db = None"

fun exec :: "TaskViewCodec \<Rightarrow> Db \<Rightarrow> int \<times> Command \<Rightarrow> Db option" where
  "exec codec db (now, CM_expire e i j fence generation deadline) =
     map_option snd (expireClaim e i j fence generation deadline now db)"
| "exec codec db (now, CM_wake e i j generation deadline) = map_option snd (wakeTask e i j generation deadline now db)"
| "exec codec db (now, CM_sweep_claims) = Some (snd (sweepOverdueClaims now db))"
| "exec codec db (now, CM_sweep_wakes) = Some (snd (sweepDueWakes now db))"
| "exec codec db (now, command) = map_option snd (answer codec now command db)"

lemma frame_schedule: "frame db d \<Longrightarrow> frame db (foldl (\<lambda>d r. run_at now (job r) d) d rows)"
  by (induction rows arbitrary: d) auto

lemma frame_sweeps: "frame db (snd (sweepOverdueClaims now db))" "frame db (snd (sweepDueWakes now db))"
  by (simp_all add: sweepOverdueClaims_def sweepDueWakes_def Let_def frame_schedule split: option.split)

lemma exec_effect:
  assumes "store_inv db" "exec codec db (now, command) = Some db'"
  shows "effect now db db'"
  using assms frame_sweeps [of db now]
  by (cases command) (auto intro: createTask_effect claimTask_effect renewClaim_effect releaseClaim_effect
      expireClaim_effect wakeTask_effect effect.idle)

lemma step_effect: "store_inv db \<Longrightarrow> effect (fst c) db (step_or_stay (exec codec) db c)"
  by (cases c) (auto simp: step_or_stay_def intro: exec_effect effect.idle split: option.split)

lemma run_store_inv: "store_inv db \<Longrightarrow> store_inv (run_steps (exec codec) db commands)"
  by (induction commands arbitrary: db) (auto intro: effect_store_inv step_effect)

definition no_tasks :: "Db \<Rightarrow> Db" where
  "no_tasks db = db \<lparr>db_tasks := [], db_claims := []\<rparr>"

lemma no_tasks_inv: "store_inv (no_tasks db)"
  by (simp add: store_inv_def claims_ok_def tenants_ok_def no_tasks_def)

end
