(* ===== verification/ClaimContracts.thy ===== *)
theory ClaimContracts
  imports ClaimRuns
begin

text \<open>
  The properties of the claim system, each over the whole handlers or over whole runs of them,
  and the sample store their witnesses run on.
\<close>

subsection \<open>A sample store\<close>

text \<open>One organization, workspace and agent, whose claim 7 on task 5 has fence 2 and lapses at 900000.\<close>

definition sample_db :: Db where
  "sample_db = \<lparr>db_next = 20,
     db_organizations = [\<lparr>og_id = 1, og_publicId = ''org'', og_workosOrganizationId = Some ''org_w'', og_name = ''o'', og_status = ''active''\<rparr>],
     db_workspaces = [\<lparr>ws_id = 2, ws_organizationId = 1, ws_publicId = ''wsp'', ws_slug = ''w'', ws_name = ''w'',
       ws_taskKeyPrefix = ''HR'', ws_status = ''active''\<rparr>],
     db_agents = [\<lparr>an_id = 3, an_organizationId = 1, an_publicId = ''agt'', an_name = ''a'', an_status = ''active''\<rparr>],
     db_grants = [\<lparr>gr_id = 4, gr_organizationId = 1, gr_workspaceId = 2, gr_agentId = 3, gr_status = ''active'',
       gr_scopes = [''tasks:claim'', ''tasks:create'']\<rparr>],
     db_credentials = [\<lparr>cr_id = 8, cr_locator = ''crd'', cr_organizationId = 1, cr_workspaceId = 2, cr_agentId = 3,
       cr_grantId = 4, cr_scopes = [''tasks:claim'', ''tasks:create''], cr_status = ''active'', cr_expiresAt = 9000000,
       cr_lastUsedAt = 0\<rparr>],
     db_sessions = [\<lparr>se_id = 9, se_publicId = ''ses'', se_organizationId = 1, se_workspaceId = 2, se_agentId = 3,
       se_credentialId = 8, se_status = ''active'', se_lastSeenAt = 0, se_idleExpiresAt = 9000000\<rparr>],
     db_tasks = [sample_task], db_claims = [sample_claim], db_dependencies = [], db_dispatches = [], db_wakes = [],
     db_repairs = [], db_events = [], db_receipts = [], db_jobs = [], db_projection = empty_projection,
     db_rates = empty_store, db_bodies = [], db_labels = [], db_usage = [], db_submissions = [], db_cancellations = [],
     db_users = [], db_memberships = [], db_workspaceMemberships = [], db_humanReceipts = [], db_runners = [],
     db_authorities = []\<rparr>"

definition sample_codec :: TaskViewCodec where
  "sample_codec = \<lparr>tc_stringify = (\<lambda>v. ''task''), tc_parse = (\<lambda>s. None)\<rparr>"

definition sample_args :: ClaimArgs where
  "sample_args = \<lparr>ca_credentialId = 8, ca_sessionPublicId = ''ses'',
     ca_idempotencyKey = ''0000000a-ae60-7000-8000-000000000000'', ca_requestDigest = replicate 43 CHR ''A'',
     ca_requestId = sample_request_id, ca_randomEventId = ''evt_1'', ca_key = ''HR-0000001'', ca_fence = 2,
     ca_randomClaimId = ''clm_2''\<rparr>"

definition sample_create :: CreateArgs where
  "sample_create = \<lparr>ca_credentialId = 8, ca_sessionPublicId = ''ses'',
     ca_idempotencyKey = ''0000000a-ae60-7000-8000-000000000001'', ca_requestDigest = replicate 43 CHR ''A'',
     ca_requestId = sample_request_id, ca_randomEventId = ''evt_2'', ca_key = '''', ca_fence = 0, ca_randomClaimId = '''', ct_title = ''new'',
     ct_type = ''task'', ct_priority = 1, ct_availableAt = None, ct_randomTaskId = ''tsk_2'', ct_randomSuffix = ''0000001'',
     ct_moreRandomSuffixes = []\<rparr>"

lemma sample_db_inv: "store_inv sample_db"
  by (simp add: store_inv_def claims_ok_def tenants_ok_def sample_db_def task_claim_ok_def claim_owned_def table_simps
      sample_task_def sample_claim_def sample_compact_def activeTaskClaimTupleMatches_def)

definition sample_released :: Db where
  "sample_released = run_steps (exec sample_codec) sample_db [(700000, CM_release sample_args)]"

lemma sample_released_inv: "store_inv sample_released"
  unfolding sample_released_def by (rule run_store_inv [OF sample_db_inv])

subsection \<open>A claim has one owner\<close>

lemma owned_active:
  assumes "claim_owned db c" "cl_state c = CS_active"
  shows "map_option (map_option cc_claimId o tk_currentClaim) (get_task db (cl_taskId c)) = Some (Some (cl_id c))"
  using assms by (auto simp: claim_owned_def)

lemma claims_ok_consistent:
  assumes "store_inv db"
  shows "(\<forall>t \<in> set (db_tasks db). case tk_currentClaim t of None \<Rightarrow> tk_status t \<noteq> TS_in_progress
      | Some compact \<Rightarrow> cc_fence compact = tk_claimFence t \<and>
          (\<exists>c \<in> set (db_claims db). activeTaskClaimTupleMatches t compact c)) \<and>
    (\<forall>c \<in> set (db_claims db). \<forall>d \<in> set (db_claims db). cl_taskId c = cl_taskId d \<and>
       (cl_fence c = cl_fence d \<or> cl_state c = CS_active \<and> cl_state d = CS_active) \<longrightarrow> c = d)"
proof (intro conjI ballI impI)
  note ok = store_invD(1) [OF assms]
  show "case tk_currentClaim t of None \<Rightarrow> tk_status t \<noteq> TS_in_progress | Some compact \<Rightarrow> cc_fence compact = tk_claimFence t \<and>
      (\<exists>c \<in> set (db_claims db). activeTaskClaimTupleMatches t compact c)" if "t \<in> set (db_tasks db)" for t
    using ok that get_row_Some unfolding claims_ok_def task_claim_ok_def by (fastforce split: option.split)
  fix c d
  assume c: "c \<in> set (db_claims db)" and d: "d \<in> set (db_claims db)" and
    same: "cl_taskId c = cl_taskId d \<and> (cl_fence c = cl_fence d \<or> cl_state c = CS_active \<and> cl_state d = CS_active)"
  have rows: "get_claim db (cl_id c) = Some c" "get_claim db (cl_id d) = Some d"
    using ok c d by (auto simp: claims_ok_def intro: get_row_mem)
  have "cl_id c = cl_id d"
  proof (cases "cl_fence c = cl_fence d")
    case True
    with claims_okD(5) [OF ok rows] same show ?thesis by simp
  next
    case False
    with same have active: "cl_state c = CS_active" "cl_state d = CS_active" and task: "cl_taskId c = cl_taskId d" by simp_all
    from owned_active [OF conjunct2 [OF conjunct2 [OF claims_okD(4) [OF ok rows(1)]]] active(1)]
      owned_active [OF conjunct2 [OF conjunct2 [OF claims_okD(4) [OF ok rows(2)]]] active(2)]
    show ?thesis unfolding task by simp
  qed
  then have "get_claim db (cl_id c) = get_claim db (cl_id d)" by (rule arg_cong)
  then show "c = d" unfolding rows by (rule option.inject [THEN iffD1])
qed

text \<open>
  One owner per task, over every history. After any sequence of creations, claims, renewals,
  releases, expiries, wakes and sweeps, in any order and at any times, from a workspace without
  tasks: a task in progress carries a claim, the claim a task carries is an active row of the
  claim table with the same tenant, owner, fence, generation and deadline, its fence is the task's
  fence; and a task has at most one active claim and never two claims with the same fence.
\<close>

theorem claims_consistent:
  assumes "db' = run_steps (exec codec) (no_tasks db) commands"
  shows "(\<forall>t \<in> set (db_tasks db'). case tk_currentClaim t of None \<Rightarrow> tk_status t \<noteq> TS_in_progress
      | Some compact \<Rightarrow> cc_fence compact = tk_claimFence t \<and>
          (\<exists>c \<in> set (db_claims db'). activeTaskClaimTupleMatches t compact c)) \<and>
    (\<forall>c \<in> set (db_claims db'). \<forall>d \<in> set (db_claims db'). cl_taskId c = cl_taskId d \<and>
       (cl_fence c = cl_fence d \<or> cl_state c = CS_active \<and> cl_state d = CS_active) \<longrightarrow> c = d)"
  unfolding assms by (intro claims_ok_consistent run_store_inv no_tasks_inv)

definition sample_history :: Db where
  "sample_history = run_steps (exec sample_codec) (no_tasks sample_db)
     [(700000, CM_create sample_create), (700001, CM_claim sample_args)]"

theorem claims_consistent_witness:
  "\<exists>t \<in> set (db_tasks sample_history). \<exists>compact. tk_currentClaim t = Some compact \<and> tk_claimFence t = 1 \<and>
     (\<exists>c \<in> set (db_claims sample_history). activeTaskClaimTupleMatches t compact c)"
proof -
  have "list_ex (\<lambda>t. tk_claimFence t = 1 \<and> \<not> Option.is_none (tk_currentClaim t)) (db_tasks sample_history)" by code_simp
  then obtain t compact where t: "t \<in> set (db_tasks sample_history)" "tk_claimFence t = 1" "tk_currentClaim t = Some compact"
    by (auto simp: list_ex_iff Option.is_none_def)
  from bspec [OF conjunct1 [OF claims_consistent [OF sample_history_def]] t(1)] t(2,3)
  show ?thesis by (intro bexI [OF _ t(1)] exI [of _ compact]) simp
qed

subsection \<open>A lease only moves forward\<close>

definition lease_le :: "int \<times> Lease option \<Rightarrow> int \<times> Lease option \<Rightarrow> bool" where
  "lease_le l l' \<longleftrightarrow> fst l \<le> fst l' \<and>
     (fst l = fst l' \<longrightarrow> (case (snd l, snd l') of
        (_, None) \<Rightarrow> True
      | (None, Some h') \<Rightarrow> False
      | (Some h, Some h') \<Rightarrow> ls_claim h = ls_claim h' \<and> ls_agent h = ls_agent h' \<and> ls_generation h \<le> ls_generation h'))"

lemma lease_le_refl [simp]: "lease_le l l"
  by (simp add: lease_le_def split: option.split)

lemma lease_le_trans: "lease_le a b \<Longrightarrow> lease_le b c \<Longrightarrow> lease_le a c"
  by (auto simp: lease_le_def split: option.splits)

lemma lease_step_le: "lease_step now l l' \<Longrightarrow> lease_le l l'"
  by (cases "(now, l, l')" rule: lease_step.cases) (auto simp: lease_le_def extended_lease_def)

lemma run_lease_le:
  assumes "store_inv db" "get_task db i = Some t"
  shows "\<exists>t'. get_task (run_steps (exec codec) db commands) i = Some t' \<and> lease_le (lease_of t) (lease_of t')"
  using assms
proof (induction commands arbitrary: db t)
  case (Cons c commands)
  note eff = step_effect [OF Cons.prems(1), of c codec]
  from effect_lease [OF eff Cons.prems] obtain u where u: "get_task (step_or_stay (exec codec) db c) i = Some u"
    "lease_step (fst c) (lease_of t) (lease_of u)" by blast
  from Cons.IH [OF effect_store_inv [OF eff Cons.prems(1)] u(1)] lease_step_le [OF u(2)] show ?case
    by (auto intro: lease_le_trans)
qed simp

text \<open>
  The claim commands and jobs implement the lease of a task. Whatever one of them does,
  whether it succeeds, is refused or throws, every task is still there and its fence and
  current claim have made one step of the lease specification: taken with the next fence when
  free, extended by a renewal in the last five minutes, given up, or taken over
  with the next fence once lapsed.
\<close>

theorem claims_refine_lease:
  assumes "store_inv db" "get_task db i = Some t"
  shows "\<exists>t'. get_task (step_or_stay (exec codec) db (now, command)) i = Some t' \<and>
    lease_step now (lease_of t) (lease_of t')"
  using effect_lease [OF step_effect [OF assms(1), of "(now, command)" codec] assms] by simp

theorem claims_refine_lease_witness:
  "\<exists>t'. get_task sample_released 5 = Some t' \<and> lease_step 700000 (lease_of sample_task) (lease_of t')"
proof -
  have "get_task sample_db 5 = Some sample_task" by (simp add: sample_db_def table_simps sample_task_def)
  from claims_refine_lease [OF sample_db_inv this, of sample_codec 700000 "CM_release sample_args"]
  show ?thesis by (simp add: sample_released_def)
qed

text \<open>
  A fence identifies its owner for ever. Over any run the fence of a task never falls, and
  while it stays the same the task is held by the same claim of the same agent, whose lease
  generation never falls, or by nobody: once given up, a task is never held again under the old fence.
\<close>

theorem fence_identifies_owner:
  assumes "store_inv db" "get_task db i = Some t"
  shows "\<exists>t'. get_task (run_steps (exec codec) db commands) i = Some t' \<and> tk_claimFence t \<le> tk_claimFence t' \<and>
    (\<forall>compact'. tk_currentClaim t' = Some compact' \<and> tk_claimFence t' = tk_claimFence t \<longrightarrow>
      (\<exists>compact. tk_currentClaim t = Some compact \<and> cc_claimId compact = cc_claimId compact' \<and>
         cc_agentId compact = cc_agentId compact' \<and> cc_leaseGeneration compact \<le> cc_leaseGeneration compact'))"
  using run_lease_le [OF assms, of codec commands]
  by (auto simp: lease_le_def lease_of_def split: option.splits)

theorem fence_identifies_owner_witness:
  "\<exists>t'. get_task (run_steps (exec sample_codec) sample_db [(700000, CM_release sample_args), (700001, CM_claim sample_args)]) 5
     = Some t' \<and> 2 \<le> tk_claimFence t'"
proof -
  have "get_task sample_db 5 = Some sample_task" "tk_claimFence sample_task = 2"
    by (simp_all add: sample_db_def table_simps sample_task_def)
  with fence_identifies_owner [OF sample_db_inv this(1), of sample_codec
      "[(700000, CM_release sample_args), (700001, CM_claim sample_args)]"] show ?thesis by auto
qed

subsection \<open>An ended claim is fenced off\<close>

lemma other_task_untouched:
  assumes "store_inv db" "frame db db0" "c \<in> set (db_claims db)" "cl_taskId c \<noteq> i" "cl_id d \<noteq> cl_id c"
    and "frame (patch_task i f (patch_claim (cl_id d) g db0)) db'" "\<And>x. tk_id (f x) = tk_id x" "\<And>x. cl_id (g x) = cl_id x"
  shows "get_task db' (cl_taskId c) = get_task db (cl_taskId c) \<and> get_claim db' (cl_id c) = Some c"
proof -
  have "get_claim db (cl_id c) = Some c"
    using assms(1,3) by (auto simp: store_inv_def claims_ok_def intro: get_row_mem)
  with assms show ?thesis
    by (auto simp: frame_def get_row_patch [of tk_id f, OF assms(7)] get_row_patch [of cl_id g, OF assms(8)])
qed

lemma ended_claim_not_current:
  assumes "store_inv db" "c \<in> set (db_claims db)" "cl_state c \<noteq> CS_active"
    and "get_claim db (cc_claimId compact) = Some d" "activeTaskClaimTupleMatches t compact d" "cc_fence compact = cl_fence c"
  shows "cl_taskId c \<noteq> tk_id t" "cl_id d \<noteq> cl_id c"
proof -
  note ok = store_invD(1) [OF assms(1)]
  have c: "get_claim db (cl_id c) = Some c" using ok assms(2) by (auto simp: claims_ok_def intro: get_row_mem)
  from assms(5) have d: "cl_state d = CS_active" "cl_fence d = cc_fence compact" "cl_taskId d = tk_id t" "cl_id d = cc_claimId compact"
    by (simp_all add: activeTaskClaimTupleMatches_def)
  show "cl_id d \<noteq> cl_id c"
  proof
    assume "cl_id d = cl_id c"
    with assms(4) c d(4) have "d = c" by simp
    with d(1) assms(3) show False by simp
  qed
  then show "cl_taskId c \<noteq> tk_id t"
    using claims_okD(5) [OF ok c assms(4)] d assms(6) by auto
qed

text \<open>
  C10. Fencing of a stale writer. Once a claim has ended, by release, expiry or takeover, no renewal
  and no release that carries its fence can touch the task it was on or rewrite how it ended,
  whoever sends it and whatever the task has become since.
\<close>

theorem stale_fence_rejected:
  assumes "store_inv db" "c \<in> set (db_claims db)" "cl_state c \<noteq> CS_active" "ca_fence args = cl_fence c"
    and "command = CM_renew args \<or> command = CM_release args" "answer codec now command db = Some (r, db')"
  shows "get_task db' (cl_taskId c) = get_task db (cl_taskId c) \<and> get_claim db' (cl_id c) = Some c"
  using assms(5)
proof
  assume "command = CM_renew args"
  with assms(6) have "renewClaim codec args now db = Some (r, db')" by simp
  then show ?thesis
  proof (cases rule: renewClaim_cases)
    case nothing
    with assms(1,2) show ?thesis by (auto simp: frame_def store_inv_def claims_ok_def intro: get_row_mem)
  next
    case (renewed a db1 task compact claim db2)
    from renewed(7) assms(4) have "cc_fence compact = cl_fence c" by (simp add: claimCommandDisposition_def split: if_splits)
    note this = ended_claim_not_current [OF assms(1-3) _ _ this, of claim task]
    with renewed(2,4-6) have "cl_taskId c \<noteq> tk_id task" "cl_id claim \<noteq> cl_id c"
      by (simp_all add: frame_def activeClaimMatchesTask_def)
    from other_task_untouched [OF assms(1) renewed(2) assms(2) this frame_trans [OF renew_writes_frame [OF renewed(8)] renewed(9)]]
    show ?thesis by (simp add: renewed_def renewed_claim_def)
  qed
next
  assume "command = CM_release args"
  with assms(6) have "releaseClaim codec args now db = Some (r, db')" by simp
  then show ?thesis
  proof (cases rule: releaseClaim_cases)
    case nothing
    with assms(1,2) show ?thesis by (auto simp: frame_def store_inv_def claims_ok_def intro: get_row_mem)
  next
    case (released a db1 task compact claim actual db2 db3)
    from released(8) assms(4) have "cc_fence compact = cl_fence c" by simp
    note this = ended_claim_not_current [OF assms(1-3) _ _ this, of claim task]
    with released(2,4-6) have ids: "cl_taskId c \<noteq> tk_id task" "cl_id claim \<noteq> cl_id c"
      by (simp_all add: frame_def activeClaimMatchesTask_def)
    from release_writes_frame [OF released(11)] obtain ready where
      "frame (patch_task (tk_id task) (reopened ready (tk_revision task + 1) now)
        (patch_claim (cl_id claim) (ended CS_released now) db2)) db3" by blast
    from other_task_untouched [OF assms(1) frame_trans [OF released(2) frame_counters [OF released(10)]] assms(2) ids
        frame_trans [OF this released(12)]]
    show ?thesis by (simp add: reopened_def ended_def)
  qed
qed

theorem stale_fence_rejected_witness:
  "\<exists>r db'. answer sample_codec 710000 (CM_renew sample_args) sample_released = Some (r, db') \<and>
     get_task db' 5 = get_task sample_released 5"
proof -
  have "list_ex (\<lambda>c. cl_state c = CS_released \<and> cl_fence c = 2 \<and> cl_taskId c = 5) (db_claims sample_released)" by code_simp
  then obtain c where c: "c \<in> set (db_claims sample_released)" "cl_state c = CS_released" "cl_fence c = 2" "cl_taskId c = 5"
    by (auto simp: list_ex_iff)
  have "\<not> Option.is_none (answer sample_codec 710000 (CM_renew sample_args) sample_released)" by code_simp
  then obtain r db' where run: "answer sample_codec 710000 (CM_renew sample_args) sample_released = Some (r, db')"
    by (auto simp: Option.is_none_def)
  have "ca_fence sample_args = cl_fence c" using c(3) by (simp add: sample_args_def)
  from c(2) have "cl_state c \<noteq> CS_active" by simp
  from conjunct1 [OF stale_fence_rejected [OF sample_released_inv c(1) this \<open>ca_fence sample_args = cl_fence c\<close>
      disjI1 [OF refl] run], unfolded c(4)] run
  show ?thesis by (intro exI conjI)
qed

end
