(* ===== verification/EntityMap.thy ===== *)
theory EntityMap
  imports Prelude
begin

text \<open>
  \<open>apps/desktop/runtime/src/sessions/entity-map.ts\<close>: the immutable AVL map of session entities.
  \<open>null\<close> is \<open>EN_null\<close>. A node is compared by its contents where the code compares the object:
  \<open>setNode\<close> answers the very node it was given exactly when nothing changed.

  The interface \<open>keyed_map\<close> says what a client of such a map relies on; the AVL map is an
  interpretation of it.
\<close>

subsection \<open>The map\<close>

datatype 'v EntityNode =
    EN_null
  | EntityNode (en_height: int) (en_key: string) (en_left: "'v EntityNode") (en_right: "'v EntityNode") (en_value: 'v)

record 'v SessionEntityMap =
  em_root :: "'v EntityNode"
  em_size :: int

fun nodeHeight :: "'v EntityNode \<Rightarrow> int" where
  "nodeHeight EN_null = 0"
| "nodeHeight (EntityNode height key left right v) = height"

definition createNode :: "string \<Rightarrow> 'v \<Rightarrow> 'v EntityNode \<Rightarrow> 'v EntityNode \<Rightarrow> 'v EntityNode" where
  "createNode key v left right = EntityNode (max (nodeHeight left) (nodeHeight right) + 1) key left right v"

fun rotateLeft :: "'v EntityNode \<Rightarrow> 'v EntityNode" where
  "rotateLeft (EntityNode h key left (EntityNode ph pkey pleft pright pv) v) =
     createNode pkey pv (createNode key v left pleft) pright"
| "rotateLeft node = node"

fun rotateRight :: "'v EntityNode \<Rightarrow> 'v EntityNode" where
  "rotateRight (EntityNode h key (EntityNode ph pkey pleft pright pv) right v) =
     createNode pkey pv pleft (createNode key v pright right)"
| "rotateRight node = node"

fun balanceNode :: "'v EntityNode \<Rightarrow> 'v EntityNode" where
  "balanceNode EN_null = EN_null"
| "balanceNode (EntityNode h key left right v) =
     (let node = EntityNode h key left right v;
          balance = nodeHeight left - nodeHeight right in
      if balance > 1 then
        (case left of
           EN_null \<Rightarrow> node
         | EntityNode lh lkey lleft lright lv \<Rightarrow>
             (if nodeHeight lleft < nodeHeight lright
              then rotateRight (createNode key v (rotateLeft left) right)
              else rotateRight node))
      else if balance < -1 then
        (case right of
           EN_null \<Rightarrow> node
         | EntityNode rh rkey rleft rright rv \<Rightarrow>
             (if nodeHeight rright < nodeHeight rleft
              then rotateLeft (createNode key v left (rotateRight right))
              else rotateLeft node))
      else node)"

fun setNode :: "'v EntityNode \<Rightarrow> string \<Rightarrow> 'v \<Rightarrow> bool \<times> 'v EntityNode" where
  "setNode EN_null key v = (True, createNode key v EN_null EN_null)"
| "setNode (EntityNode h nkey left right nv) key v =
     (if key = nkey then
        (if nv = v then (False, EntityNode h nkey left right nv) else (False, createNode key v left right))
      else if key < nkey then
        (let result = setNode left key v in
         (fst result,
          if snd result = left then EntityNode h nkey left right nv
          else balanceNode (createNode nkey nv (snd result) right)))
      else
        (let result = setNode right key v in
         (fst result,
          if snd result = right then EntityNode h nkey left right nv
          else balanceNode (createNode nkey nv left (snd result)))))"

text \<open>\<open>minimumNode\<close> of a node, as its key and value.\<close>

fun minimumNode :: "'v EntityNode \<Rightarrow> (string \<times> 'v) option" where
  "minimumNode EN_null = None"
| "minimumNode (EntityNode h key EN_null right v) = Some (key, v)"
| "minimumNode (EntityNode h key left right v) = minimumNode left"

fun deleteNode :: "'v EntityNode \<Rightarrow> string \<Rightarrow> 'v EntityNode \<times> bool" where
  "deleteNode EN_null key = (EN_null, False)"
| "deleteNode (EntityNode h nkey left right nv) key =
     (if key < nkey then
        (let result = deleteNode left key in
         if snd result then (balanceNode (createNode nkey nv (fst result) right), True)
         else (EntityNode h nkey left right nv, False))
      else if nkey < key then
        (let result = deleteNode right key in
         if snd result then (balanceNode (createNode nkey nv left (fst result)), True)
         else (EntityNode h nkey left right nv, False))
      else if left = EN_null then (right, True)
      else
        (case minimumNode right of
           None \<Rightarrow> (left, True)
         | Some (skey, sv) \<Rightarrow>
             (balanceNode (createNode skey sv left (fst (deleteNode right skey))), True)))"

definition createSessionEntityMap :: "'v SessionEntityMap" where
  "createSessionEntityMap = \<lparr>em_root = EN_null, em_size = 0\<rparr>"

fun get_node :: "'v EntityNode \<Rightarrow> string \<Rightarrow> 'v option" where
  "get_node EN_null key = None"
| "get_node (EntityNode h nkey left right nv) key =
     (if key = nkey then Some nv else get_node (if key < nkey then left else right) key)"

definition getSessionEntity :: "'v SessionEntityMap \<Rightarrow> string \<Rightarrow> 'v option" where
  "getSessionEntity m key = get_node (em_root m) key"

definition setSessionEntity :: "'v SessionEntityMap \<Rightarrow> string \<Rightarrow> 'v \<Rightarrow> 'v SessionEntityMap" where
  "setSessionEntity m key v =
     (let result = setNode (em_root m) key v in
      if snd result = em_root m then m
      else \<lparr>em_root = snd result, em_size = em_size m + (if fst result then 1 else 0)\<rparr>)"

definition deleteSessionEntity :: "'v SessionEntityMap \<Rightarrow> string \<Rightarrow> 'v SessionEntityMap" where
  "deleteSessionEntity m key =
     (let result = deleteNode (em_root m) key in
      if snd result then \<lparr>em_root = fst result, em_size = em_size m - 1\<rparr> else m)"

text \<open>
  The generator \<open>entries\<close>: \<open>walk node stack\<close> is what the loop still yields. The inner loop
  pushes the left spine; a pop yields a node and goes on to its right.
\<close>

primrec node_count :: "'v EntityNode \<Rightarrow> nat" where
  "node_count EN_null = 0"
| "node_count (EntityNode h key left right v) = Suc (node_count left + node_count right)"

definition pending :: "'v EntityNode list \<Rightarrow> nat" where
  "pending stack = sum_list (map (\<lambda>n. case n of EN_null \<Rightarrow> 1 | EntityNode h k l r v \<Rightarrow> Suc (2 * node_count r)) stack)"

function walk :: "'v EntityNode \<Rightarrow> 'v EntityNode list \<Rightarrow> (string \<times> 'v) list" where
  "walk (EntityNode h key left right v) stack = walk left (EntityNode h key left right v # stack)"
| "walk EN_null (EntityNode h key left right v # stack) = (key, v) # walk right stack"
| "walk EN_null (EN_null # stack) = []"
| "walk EN_null [] = []"
  by pat_completeness auto
termination
  by (relation "measure (\<lambda>(node, stack). 2 * node_count node + pending stack)") (auto simp: pending_def)

definition entries :: "'v SessionEntityMap \<Rightarrow> (string \<times> 'v) list" where
  "entries m = walk (em_root m) []"

subsection \<open>Ordered association lists\<close>

text \<open>The reference the tree is compared with: its entries in key order.\<close>

fun put :: "string \<Rightarrow> 'v \<Rightarrow> (string \<times> 'v) list \<Rightarrow> (string \<times> 'v) list" where
  "put k v [] = [(k, v)]"
| "put k v ((x, y) # ps) = (if k < x then (k, v) # (x, y) # ps else if k = x then (k, v) # ps else (x, y) # put k v ps)"

definition drop_key :: "string \<Rightarrow> (string \<times> 'v) list \<Rightarrow> (string \<times> 'v) list" where
  "drop_key k = filter (\<lambda>p. fst p \<noteq> k)"

definition ordered :: "(string \<times> 'v) list \<Rightarrow> bool" where
  "ordered ps \<longleftrightarrow> sorted_wrt (<) (map fst ps)"

lemma ordered_simps [simp]: "ordered []" "ordered (p # ps) \<longleftrightarrow> (\<forall>q \<in> set ps. fst p < fst q) \<and> ordered ps"
  by (simp_all add: ordered_def)

primrec inorder :: "'v EntityNode \<Rightarrow> (string \<times> 'v) list" where
  "inorder EN_null = []"
| "inorder (EntityNode h key left right v) = inorder left @ (key, v) # inorder right"

lemma inorder_create [simp]: "inorder (createNode key v left right) = inorder left @ (key, v) # inorder right"
  by (simp add: createNode_def)

lemma inorder_rotate [simp]: "inorder (rotateLeft t) = inorder t" "inorder (rotateRight t) = inorder t"
  by (cases t rule: rotateLeft.cases; simp) (cases t rule: rotateRight.cases; simp)

lemma inorder_balance [simp]: "inorder (balanceNode t) = inorder t"
  by (cases t) (simp_all add: Let_def split: EntityNode.split)

lemma put_low: "\<forall>p \<in> set ps. fst p < k \<Longrightarrow> put k v (ps @ qs) = ps @ put k v qs"
  by (induction ps) auto

lemma put_split: "k < x \<Longrightarrow> put k v (ps @ (x, y) # qs) = put k v ps @ (x, y) # qs"
  by (induction ps) (auto split: prod.split)

lemma ordered_node: "ordered (ps @ (x, y) # qs) \<longleftrightarrow>
    ordered ps \<and> ordered qs \<and> (\<forall>p \<in> set ps. fst p < x) \<and> (\<forall>q \<in> set qs. x < fst q)"
  by (auto simp: ordered_def sorted_wrt_append intro: less_trans)

lemma put_keys: "fst ` set (put k v ps) = insert k (fst ` set ps)"
  by (induction k v ps rule: put.induct) auto

lemma put_mem: "p \<in> set (put k v ps) \<Longrightarrow> p = (k, v) \<or> p \<in> set ps"
  by (induction k v ps rule: put.induct) (auto split: if_splits)

lemma ordered_put: "ordered ps \<Longrightarrow> ordered (put k v ps)"
  by (induction k v ps rule: put.induct) (auto dest: put_mem intro: less_trans)

lemma drop_key_absent: "\<forall>p \<in> set ps. fst p \<noteq> k \<Longrightarrow> drop_key k ps = ps"
  by (simp add: drop_key_def)

lemma drop_key_None: "map_of ps k = None \<Longrightarrow> drop_key k ps = ps"
  by (rule drop_key_absent) (force simp: map_of_eq_None_iff)

lemma drop_key_append [simp]: "drop_key k (ps @ qs) = drop_key k ps @ drop_key k qs"
  by (simp add: drop_key_def)

lemma drop_key_Cons [simp]: "drop_key k ((x, y) # ps) = (if x = k then drop_key k ps else (x, y) # drop_key k ps)"
  by (simp add: drop_key_def)

lemma drop_key_above: "\<forall>p \<in> set ps. k < fst p \<Longrightarrow> drop_key k ps = ps"
  by (rule drop_key_absent) auto

lemma drop_key_below: "\<forall>p \<in> set ps. fst p < k \<Longrightarrow> drop_key k ps = ps"
  by (rule drop_key_absent) auto

lemma ordered_drop: "ordered ps \<Longrightarrow> ordered (drop_key k ps)"
  by (auto simp: ordered_def drop_key_def sorted_wrt_map intro: sorted_wrt_filter)

lemma map_of_put: "ordered ps \<Longrightarrow> map_of (put k v ps) = (map_of ps)(k \<mapsto> v)"
proof (induction ps)
  case (Cons p ps)
  obtain x y where p: "p = (x, y)" by (cases p)
  have "map_of ps k = None" if "k < x"
    using Cons.prems that by (auto simp: p map_of_eq_None_iff)
  with Cons show ?case by (auto simp: p fun_eq_iff)
qed simp

lemma map_of_drop: "map_of (drop_key k ps) = (map_of ps)(k := None)"
  by (induction ps) (auto simp: drop_key_def fun_eq_iff)

subsection \<open>The tree holds its entries in order\<close>

lemma walk_inorder: "\<forall>n \<in> set stack. n \<noteq> EN_null \<Longrightarrow>
    walk node stack = inorder node @ concat (map (\<lambda>n. (en_key n, en_value n) # inorder (en_right n)) stack)"
  by (induction node stack rule: walk.induct) auto

lemma entries_inorder: "entries m = inorder (em_root m)"
  by (simp add: entries_def walk_inorder)

text \<open>Which side of a node a key can be on.\<close>

lemma node_parts:
  "ordered (inorder (EntityNode h nkey left right nv)) \<Longrightarrow> ordered (inorder left)"
  "ordered (inorder (EntityNode h nkey left right nv)) \<Longrightarrow> ordered (inorder right)"
  by (simp_all add: ordered_node)

lemma node_sides:
  assumes "ordered (inorder (EntityNode h nkey left right nv))"
  shows "nkey \<le> key \<Longrightarrow> \<forall>p \<in> set (inorder left). fst p < key" "key \<le> nkey \<Longrightarrow> \<forall>p \<in> set (inorder right). key < fst p"
    and "nkey \<le> key \<Longrightarrow> map_of (inorder left) key = None" "key \<le> nkey \<Longrightarrow> map_of (inorder right) key = None"
proof -
  from assms have parts: "ordered (inorder left)" "ordered (inorder right)"
    "\<forall>p \<in> set (inorder left). fst p < nkey" "\<forall>p \<in> set (inorder right). nkey < fst p"
    by (simp_all add: ordered_node)
  show low: "\<forall>p \<in> set (inorder left). fst p < key" if "nkey \<le> key" using parts(3) that by (auto intro: less_le_trans)
  show high: "\<forall>p \<in> set (inorder right). key < fst p" if "key \<le> nkey" using parts(4) that by (auto intro: le_less_trans)
  show "map_of (inorder left) key = None" if "nkey \<le> key" using low [OF that] by (auto simp: map_of_eq_None_iff)
  show "map_of (inorder right) key = None" if "key \<le> nkey" using high [OF that] by (auto simp: map_of_eq_None_iff)
qed

lemma get_inorder: "ordered (inorder t) \<Longrightarrow> get_node t key = map_of (inorder t) key"
proof (induction t)
  case (EntityNode h nkey left right nv)
  note sides = node_sides [OF EntityNode.prems, of key]
  with EntityNode.IH(1) [OF node_parts(1) [OF EntityNode.prems]] EntityNode.IH(2) [OF node_parts(2) [OF EntityNode.prems]] show ?case
    by (cases key nkey rule: linorder_cases) (auto simp: map_add_def split: option.split)
qed simp

lemma set_inorder: "ordered (inorder t) \<Longrightarrow> inorder (snd (setNode t key v)) = put key v (inorder t)"
proof (induction t)
  case (EntityNode h nkey left right nv)
  note sides = node_sides [OF EntityNode.prems, of key]
  with EntityNode.IH(1) [OF node_parts(1) [OF EntityNode.prems]] EntityNode.IH(2) [OF node_parts(2) [OF EntityNode.prems]] show ?case
    by (cases key nkey rule: linorder_cases) (auto simp: Let_def put_low put_split)
qed (simp add: createNode_def)

lemma set_added: "ordered (inorder t) \<Longrightarrow> fst (setNode t key v) \<longleftrightarrow> map_of (inorder t) key = None"
proof (induction t)
  case (EntityNode h nkey left right nv)
  note sides = node_sides [OF EntityNode.prems, of key]
  with EntityNode.IH(1) [OF node_parts(1) [OF EntityNode.prems]] EntityNode.IH(2) [OF node_parts(2) [OF EntityNode.prems]] show ?case
    by (cases key nkey rule: linorder_cases) (auto simp: Let_def map_add_def split: option.split)
qed simp

lemma minimum_inorder: "minimumNode t = (case inorder t of [] \<Rightarrow> None | p # ps \<Rightarrow> Some p)"
  by (induction t rule: minimumNode.induct) (auto split: list.splits simp: Cons_eq_append_conv append_eq_Cons_conv)

lemma delete_inorder:
  "ordered (inorder t) \<Longrightarrow> inorder (fst (deleteNode t key)) = drop_key key (inorder t) \<and>
    (snd (deleteNode t key) \<longleftrightarrow> map_of (inorder t) key \<noteq> None)"
proof (induction t arbitrary: key)
  case (EntityNode h nkey left right nv)
  note sides = node_sides [OF EntityNode.prems, of key]
  note parts = node_parts [OF EntityNode.prems]
  from sides(1,2) have out: "nkey \<le> key \<Longrightarrow> \<forall>p \<in> set (inorder left). fst p \<noteq> key"
    "key \<le> nkey \<Longrightarrow> \<forall>p \<in> set (inorder right). fst p \<noteq> key" by auto
  note none = sides(3,4)
  show ?case
  proof (cases key nkey rule: linorder_cases)
    case less
    with EntityNode.IH(1) [OF parts(1), of key] out none show ?thesis
      by (auto simp: Let_def drop_key_absent drop_key_None map_add_def split: option.split)
  next
    case greater
    with EntityNode.IH(2) [OF parts(2), of key] out none show ?thesis
      by (auto simp: Let_def drop_key_absent drop_key_None map_add_def split: option.split)
  next
    case equal
    show ?thesis
    proof (cases "left = EN_null")
      case True
      with equal out show ?thesis by (simp add: drop_key_absent)
    next
      case False
      show ?thesis
      proof (cases "inorder right")
        case Nil
        with equal out False minimum_inorder [of right] show ?thesis by (simp add: drop_key_absent drop_key_def)
      next
        case (Cons s rest)
        obtain skey sv where s: "s = (skey, sv)" by (cases s)
        with Cons parts(2) have "\<forall>p \<in> set rest. fst p \<noteq> skey" by force
        with Cons s EntityNode.IH(2) [OF parts(2), of skey]
        have "inorder (fst (deleteNode right skey)) = rest" by (simp add: drop_key_absent)
        with equal out False Cons s minimum_inorder [of right] show ?thesis by (simp add: drop_key_absent)
      qed
    qed
  qed
qed (simp add: drop_key_def)

subsection \<open>Balance\<close>

fun avl :: "'v EntityNode \<Rightarrow> bool" where
  "avl EN_null = True"
| "avl (EntityNode h key left right v) \<longleftrightarrow> avl left \<and> avl right \<and>
     h = max (nodeHeight left) (nodeHeight right) + 1 \<and> \<bar>nodeHeight left - nodeHeight right\<bar> \<le> 1"

lemma nodeHeight_create [simp]: "nodeHeight (createNode key v left right) = max (nodeHeight left) (nodeHeight right) + 1"
  by (simp add: createNode_def)

lemma avl_create [simp]: "avl (createNode key v left right) \<longleftrightarrow>
    avl left \<and> avl right \<and> \<bar>nodeHeight left - nodeHeight right\<bar> \<le> 1"
  by (simp add: createNode_def)

lemma avl_nonneg: "avl t \<Longrightarrow> 0 \<le> nodeHeight t"
  by (induction t) auto

text \<open>One rotation, or two, repairs an imbalance of two.\<close>

lemma avl_balance:
  assumes "avl left" "avl right" "\<bar>nodeHeight left - nodeHeight right\<bar> \<le> 2"
  shows "avl (balanceNode (createNode key v left right)) \<and>
    (\<bar>nodeHeight left - nodeHeight right\<bar> \<le> 1 \<longrightarrow>
       nodeHeight (balanceNode (createNode key v left right)) = max (nodeHeight left) (nodeHeight right) + 1) \<and>
    (\<bar>nodeHeight left - nodeHeight right\<bar> = 2 \<longrightarrow>
       nodeHeight (balanceNode (createNode key v left right))
         \<in> {max (nodeHeight left) (nodeHeight right), max (nodeHeight left) (nodeHeight right) + 1})"
proof (cases "\<bar>nodeHeight left - nodeHeight right\<bar> \<le> 1")
  case True
  then have "\<not> nodeHeight left - nodeHeight right > 1" "\<not> nodeHeight left - nodeHeight right < -1" by linarith+
  then have "balanceNode (createNode key v left right) = createNode key v left right" by (simp add: createNode_def Let_def)
  with True assms(1,2) show ?thesis by simp
next
  case False
  then consider (left) "nodeHeight left = nodeHeight right + 2" | (right) "nodeHeight right = nodeHeight left + 2"
    using assms(3) by linarith
  then show ?thesis
  proof cases
    case left
    with avl_nonneg [OF assms(2)] obtain lh lk ll lr lv where l: "left = EntityNode lh lk ll lr lv" by (cases left) auto
    show ?thesis
    proof (cases "nodeHeight ll < nodeHeight lr")
      case True
      with assms(1) l obtain mh mk ml mr mv where "lr = EntityNode mh mk ml mr mv"
        using avl_nonneg [of ll] by (cases lr) auto
      with True left assms show ?thesis by (auto simp: l createNode_def Let_def)
    next
      case False
      with left assms show ?thesis by (auto simp: l createNode_def Let_def)
    qed
  next
    case right
    with avl_nonneg [OF assms(1)] obtain rh rk rl rr rv where r: "right = EntityNode rh rk rl rr rv" by (cases right) auto
    show ?thesis
    proof (cases "nodeHeight rr < nodeHeight rl")
      case True
      with assms(2) r obtain mh mk ml mr mv where "rl = EntityNode mh mk ml mr mv"
        using avl_nonneg [of rr] by (cases rl) auto
      with True right assms show ?thesis by (auto simp: r createNode_def Let_def)
    next
      case False
      with right assms show ?thesis by (auto simp: r createNode_def Let_def)
    qed
  qed
qed

lemma rebalanced_height:
  fixes a b l r x :: int
  assumes "\<bar>l - r\<bar> \<le> 1 \<longrightarrow> x = max l r + 1" "\<bar>l - r\<bar> = 2 \<longrightarrow> x \<in> {max l r, max l r + 1}" "\<bar>a - b\<bar> \<le> 1"
  shows "l \<in> {a, a + 1} \<and> r = b \<or> l = a \<and> r \<in> {b, b + 1} \<Longrightarrow> x \<in> {max a b + 1, max a b + 2}"
    and "l \<in> {a - 1, a} \<and> r = b \<or> l = a \<and> r \<in> {b - 1, b} \<Longrightarrow> x \<in> {max a b, max a b + 1}"
  using assms by (cases "a \<le> b"; cases "l \<le> r"; auto simp: max_def abs_if split: if_splits)+

lemma avl_balance_grown:
  assumes "avl left" "avl right" "\<bar>a - b\<bar> \<le> 1"
    and "nodeHeight left \<in> {a, a + 1} \<and> nodeHeight right = b \<or> nodeHeight left = a \<and> nodeHeight right \<in> {b, b + 1}"
  shows "avl (balanceNode (createNode key v left right)) \<and>
    nodeHeight (balanceNode (createNode key v left right)) \<in> {max a b + 1, max a b + 2}"
proof -
  from assms(3,4) have "\<bar>nodeHeight left - nodeHeight right\<bar> \<le> 2" by auto
  with avl_balance [OF assms(1,2), of key v] rebalanced_height(1) [OF _ _ assms(3,4)] show ?thesis by blast
qed

lemma avl_balance_shrunk:
  assumes "avl left" "avl right" "\<bar>a - b\<bar> \<le> 1"
    and "nodeHeight left \<in> {a - 1, a} \<and> nodeHeight right = b \<or> nodeHeight left = a \<and> nodeHeight right \<in> {b - 1, b}"
  shows "avl (balanceNode (createNode key v left right)) \<and>
    nodeHeight (balanceNode (createNode key v left right)) \<in> {max a b, max a b + 1}"
proof -
  from assms(3,4) have "\<bar>nodeHeight left - nodeHeight right\<bar> \<le> 2" by auto
  with avl_balance [OF assms(1,2), of key v] rebalanced_height(2) [OF _ _ assms(3,4)] show ?thesis by blast
qed

lemma avl_set: "avl t \<Longrightarrow> avl (snd (setNode t key v)) \<and>
    nodeHeight (snd (setNode t key v)) \<in> {nodeHeight t, nodeHeight t + 1}"
proof (induction t)
  case (EntityNode h nkey left right nv)
  then have parts: "avl left" "avl right" "\<bar>nodeHeight left - nodeHeight right\<bar> \<le> 1"
    "h = max (nodeHeight left) (nodeHeight right) + 1" by simp_all
  let ?l = "snd (setNode left key v)" and ?r = "snd (setNode right key v)"
  from EntityNode.IH parts have kids: "avl ?l" "nodeHeight ?l \<in> {nodeHeight left, nodeHeight left + 1}"
    "avl ?r" "nodeHeight ?r \<in> {nodeHeight right, nodeHeight right + 1}" by blast+
  from avl_balance_grown [OF kids(1) parts(2,3), of nkey nv] avl_balance_grown [OF parts(1) kids(3) parts(3), of nkey nv]
    kids(2,4) parts EntityNode.prems
  show ?case by (simp add: Let_def) (auto simp: algebra_simps)
qed simp

lemma avl_delete: "avl t \<Longrightarrow> avl (fst (deleteNode t key)) \<and>
    nodeHeight (fst (deleteNode t key)) \<in> {nodeHeight t - 1, nodeHeight t}"
proof (induction t arbitrary: key)
  case (EntityNode h nkey left right nv)
  then have parts: "avl left" "avl right" "\<bar>nodeHeight left - nodeHeight right\<bar> \<le> 1"
    "h = max (nodeHeight left) (nodeHeight right) + 1" by simp_all
  note l = EntityNode.IH(1) [OF parts(1)] and r = EntityNode.IH(2) [OF parts(2)]
  show ?case
  proof (cases key nkey rule: linorder_cases)
    case less
    with avl_balance_shrunk [OF conjunct1 [OF l] parts(2,3), of key nkey nv] l [of key] parts EntityNode.prems
    show ?thesis by (auto simp: Let_def)
  next
    case greater
    with avl_balance_shrunk [OF parts(1) conjunct1 [OF r] parts(3), of key nkey nv] r [of key] parts EntityNode.prems
    show ?thesis by (auto simp: Let_def)
  next
    case equal
    show ?thesis
    proof (cases "left = EN_null")
      case True
      with equal parts avl_nonneg [OF parts(2)] show ?thesis by auto
    next
      case False
      show ?thesis
      proof (cases "minimumNode right")
        case None
        then have "right = EN_null" using minimum_inorder [of right] by (cases right) (auto split: list.splits)
        with equal False parts avl_nonneg [OF parts(1)] show ?thesis by auto
      next
        case (Some s)
        with avl_balance_shrunk [OF parts(1) conjunct1 [OF r] parts(3), of "fst s" "fst s" "snd s"] r [of "fst s"]
          equal False parts
        show ?thesis by (cases s) auto
      qed
    qed
  qed
qed simp

text \<open>The height is logarithmic in the number of entries.\<close>

lemma half_le: "n \<le> Suc (Suc a) \<Longrightarrow> n div 2 \<le> Suc (a div 2)" for n a :: nat
  using div_le_mono [of n "Suc (Suc a)" 2] by simp

lemma avl_size: "avl t \<Longrightarrow> 2 ^ (nat (nodeHeight t) div 2) \<le> node_count t + 1"
proof (induction t)
  case (EntityNode h key left right v)
  let ?a = "nat (nodeHeight left)" and ?b = "nat (nodeHeight right)"
  from EntityNode.prems have parts: "avl left" "avl right" "\<bar>nodeHeight left - nodeHeight right\<bar> \<le> 1"
    "h = max (nodeHeight left) (nodeHeight right) + 1" by simp_all
  from avl_nonneg [OF parts(1)] avl_nonneg [OF parts(2)] parts(3,4)
  have h: "nat h = Suc (max ?a ?b)" "?a \<le> Suc ?b" "?b \<le> Suc ?a" by auto
  have half: "nat h div 2 \<le> Suc (?a div 2)" "nat h div 2 \<le> Suc (?b div 2)"
    by (rule half_le; use h in simp)+
  have "2 * 2 ^ (nat h div 2 - 1) \<le> node_count left + node_count right + 2" if "0 < nat h div 2"
  proof -
    have "nat h div 2 - 1 \<le> ?a div 2" "nat h div 2 - 1 \<le> ?b div 2" using half by linarith+
    then have "2 ^ (nat h div 2 - 1) \<le> (2::nat) ^ (?a div 2)" "2 ^ (nat h div 2 - 1) \<le> (2::nat) ^ (?b div 2)"
      by (intro power_increasing; simp)+
    with EntityNode.IH(1) [OF parts(1)] EntityNode.IH(2) [OF parts(2)] show ?thesis by linarith
  qed
  then show ?case by (cases "nat h div 2") auto
qed simp

subsection \<open>The interface\<close>

datatype ('k, 'v) map_command = Put 'k 'v | Drop 'k

fun run_map :: "('m \<Rightarrow> 'k \<Rightarrow> 'v \<Rightarrow> 'm) \<Rightarrow> ('m \<Rightarrow> 'k \<Rightarrow> 'm) \<Rightarrow> 'm \<Rightarrow> ('k, 'v) map_command list \<Rightarrow> 'm" where
  "run_map update delete m [] = m"
| "run_map update delete m (Put k v # commands) = run_map update delete (update m k v) commands"
| "run_map update delete m (Drop k # commands) = run_map update delete (delete m k) commands"

text \<open>What the commands mean: a finite partial function.\<close>

abbreviation meaning :: "('k, 'v) map_command list \<Rightarrow> 'k \<Rightarrow> 'v option" where
  "meaning \<equiv> run_map (\<lambda>m k v. m(k \<mapsto> v)) (\<lambda>m k. m(k := None)) (\<lambda>k. None)"

locale keyed_map =
  fixes valid :: "'m \<Rightarrow> bool" and empty_map :: 'm
    and lookup :: "'m \<Rightarrow> 'k::linorder \<Rightarrow> 'v option" and update :: "'m \<Rightarrow> 'k \<Rightarrow> 'v \<Rightarrow> 'm"
    and delete :: "'m \<Rightarrow> 'k \<Rightarrow> 'm" and listing :: "'m \<Rightarrow> ('k \<times> 'v) list"
  assumes valid_empty: "valid empty_map" and lookup_empty: "lookup empty_map = (\<lambda>k. None)"
    and valid_update: "valid m \<Longrightarrow> valid (update m k v)"
    and lookup_update: "valid m \<Longrightarrow> lookup (update m k v) = (lookup m)(k \<mapsto> v)"
    and valid_delete: "valid m \<Longrightarrow> valid (delete m k)"
    and lookup_delete: "valid m \<Longrightarrow> lookup (delete m k) = (lookup m)(k := None)"
    and listing_sorted: "valid m \<Longrightarrow> sorted_wrt (<) (map fst (listing m))"
    and listing_lookup: "valid m \<Longrightarrow> map_of (listing m) = lookup m"
begin

lemma run_lookup:
  "valid m \<Longrightarrow> valid (run_map update delete m commands) \<and>
    lookup (run_map update delete m commands) =
      run_map (\<lambda>m k v. m(k \<mapsto> v)) (\<lambda>m k. m(k := None)) (lookup m) commands"
proof (induction commands arbitrary: m)
  case (Cons c commands)
  then show ?case
    by (cases c) (simp_all add: valid_update lookup_update valid_delete lookup_delete)
qed simp

lemma run_meaning:
  "valid (run_map update delete empty_map commands)"
  "lookup (run_map update delete empty_map commands) = meaning commands"
  using run_lookup [OF valid_empty] by (simp_all add: lookup_empty)

lemma listing_distinct: "valid m \<Longrightarrow> distinct (map fst (listing m))"
  using listing_sorted [of m] by (simp add: strict_sorted_iff)

lemma listing_canonical:
  assumes "valid m" "valid m'" "lookup m = lookup m'"
  shows "listing m = listing m'"
proof -
  have same: "map_of (listing m) = map_of (listing m')" by (simp add: listing_lookup assms)
  have mem: "set (listing m) = set (listing m')"
  proof (rule set_eqI)
    fix p :: "'k \<times> 'v"
    have "p \<in> set (listing m) \<longleftrightarrow> map_of (listing m) (fst p) = Some (snd p)"
      using map_of_eq_Some_iff [OF listing_distinct [OF assms(1)], of "fst p" "snd p"] by simp
    moreover have "p \<in> set (listing m') \<longleftrightarrow> map_of (listing m') (fst p) = Some (snd p)"
      using map_of_eq_Some_iff [OF listing_distinct [OF assms(2)], of "fst p" "snd p"] by simp
    ultimately show "p \<in> set (listing m) \<longleftrightarrow> p \<in> set (listing m')" by (simp add: same)
  qed
  have "inj_on fst (set (listing m) \<union> set (listing m'))"
    using mem listing_distinct [OF assms(1)] by (simp add: distinct_map)
  then show ?thesis
    by (rule map_sorted_distinct_set_unique)
      (use assms(1,2) listing_sorted in \<open>auto simp: listing_distinct mem strict_sorted_iff\<close>)
qed

lemma listing_length: "valid m \<Longrightarrow> length (listing m) = card (dom (lookup m))"
  using distinct_card [OF listing_distinct, of m] by (simp add: listing_lookup [symmetric] dom_map_of_conv_image_fst)

end

definition em_valid :: "'v SessionEntityMap \<Rightarrow> bool" where
  "em_valid m \<longleftrightarrow> avl (em_root m) \<and> ordered (inorder (em_root m)) \<and> em_size m = int (length (inorder (em_root m)))"

lemma length_put: "ordered ps \<Longrightarrow> length (put k v ps) = length ps + (if map_of ps k = None then 1 else 0)"
proof (induction k v ps rule: put.induct)
  case (2 k v x y ps)
  have "map_of ps k = None" if "k < x" using 2 that by (auto simp: map_of_eq_None_iff)
  with 2 show ?case by auto
qed simp

lemma length_drop: "ordered ps \<Longrightarrow> length (drop_key k ps) = length ps - (if map_of ps k = None then 0 else 1)"
proof (induction ps)
  case (Cons p ps)
  obtain x y where p: "p = (x, y)" by (cases p)
  have "x = k \<Longrightarrow> drop_key k ps = ps" using Cons.prems by (auto simp: p intro: drop_key_above)
  moreover have "map_of ps k \<noteq> None \<Longrightarrow> 0 < length ps" by (cases ps) auto
  ultimately show ?case using Cons by (auto simp: p)
qed (simp add: drop_key_def)

lemma em_valid_set: "em_valid m \<Longrightarrow> em_valid (setSessionEntity m key v)"
  using set_inorder [of "em_root m" key v] set_added [of "em_root m" key v] avl_set [of "em_root m" key v]
  by (auto simp: em_valid_def setSessionEntity_def Let_def ordered_put length_put)

lemma root_set: "em_root (setSessionEntity m key v) = snd (setNode (em_root m) key v)"
  by (simp add: setSessionEntity_def Let_def)

lemma em_valid_delete: "em_valid m \<Longrightarrow> em_valid (deleteSessionEntity m key)"
proof -
  assume valid: "em_valid m"
  then have "ordered (inorder (em_root m))" by (simp add: em_valid_def)
  with valid delete_inorder [OF this, of key] avl_delete [of "em_root m" key] length_drop [OF this, of key]
  show ?thesis
    by (cases "inorder (em_root m)") (auto simp: em_valid_def deleteSessionEntity_def Let_def ordered_drop)
qed

lemma inorder_delete: "em_valid m \<Longrightarrow> inorder (em_root (deleteSessionEntity m key)) = drop_key key (inorder (em_root m))"
  using delete_inorder [of "em_root m" key]
  by (auto simp: em_valid_def deleteSessionEntity_def Let_def drop_key_None)

lemma get_map_of: "em_valid m \<Longrightarrow> getSessionEntity m = map_of (inorder (em_root m))"
  by (auto simp: em_valid_def getSessionEntity_def get_inorder)

interpretation entities: keyed_map em_valid createSessionEntityMap getSessionEntity setSessionEntity deleteSessionEntity entries
proof unfold_locales
  fix m :: "'v SessionEntityMap" and k :: string and v :: 'v
  show "em_valid (createSessionEntityMap :: 'v SessionEntityMap)" "getSessionEntity (createSessionEntityMap :: 'v SessionEntityMap) = (\<lambda>k. None)"
    by (auto simp: em_valid_def createSessionEntityMap_def getSessionEntity_def)
  assume valid: "em_valid m"
  then have ord: "ordered (inorder (em_root m))" by (simp add: em_valid_def)
  show "em_valid (setSessionEntity m k v)" by (rule em_valid_set [OF valid])
  show "em_valid (deleteSessionEntity m k)" by (rule em_valid_delete [OF valid])
  show "getSessionEntity (setSessionEntity m k v) = (getSessionEntity m)(k \<mapsto> v)"
    by (simp add: get_map_of valid em_valid_set root_set set_inorder [OF ord] map_of_put [OF ord])
  show "getSessionEntity (deleteSessionEntity m k) = (getSessionEntity m)(k := None)"
    by (simp add: get_map_of valid em_valid_delete inorder_delete map_of_drop)
  show "sorted_wrt (<) (map fst (entries m))" using ord by (simp add: entries_inorder ordered_def)
  show "map_of (entries m) = getSessionEntity m" by (simp add: entries_inorder get_map_of valid)
qed

abbreviation entity_run :: "(string, 'v) map_command list \<Rightarrow> 'v SessionEntityMap" where
  "entity_run \<equiv> run_map setSessionEntity deleteSessionEntity createSessionEntityMap"

text \<open>
  C26. The AVL map is a map, over any history of insertions and deletions: looking a key up gives
  what the history says, \<open>size\<close> is the number of keys present, the entries come out once each in
  increasing key order and hold exactly those bindings, and the search path is logarithmic: a
  tree of height h holds at least 2 to the power h/2, minus one, entries.
\<close>

theorem entity_map_refines:
  "getSessionEntity (entity_run commands) = meaning commands \<and>
   em_size (entity_run commands) = int (card (dom (meaning commands))) \<and>
   sorted_wrt (<) (map fst (entries (entity_run commands))) \<and>
   map_of (entries (entity_run commands)) = meaning commands \<and>
   2 ^ (nat (nodeHeight (em_root (entity_run commands))) div 2) \<le> em_size (entity_run commands) + 1"
proof -
  let ?m = "entity_run commands"
  note valid = entities.run_meaning(1) [of commands] and lookup = entities.run_meaning(2) [of commands]
  have count: "node_count t = length (inorder t)" for t :: "'a EntityNode" by (induction t) auto
  from valid have "avl (em_root ?m)" "em_size ?m = int (node_count (em_root ?m))" by (simp_all add: em_valid_def count)
  with avl_size [of "em_root ?m"] have "2 ^ (nat (nodeHeight (em_root ?m)) div 2) \<le> em_size ?m + 1"
    using of_nat_mono [of "2 ^ (nat (nodeHeight (em_root ?m)) div 2)" "node_count (em_root ?m) + 1", where 'a = int] by simp
  moreover have "em_size ?m = int (card (dom (meaning commands)))"
    using entities.listing_length [OF valid] valid by (simp add: em_valid_def entries_inorder lookup)
  ultimately show ?thesis
    using entities.listing_sorted [OF valid] entities.listing_lookup [OF valid] lookup by simp
qed

text \<open>
  C29. Iteration does not depend on history: two maps that hold the same bindings, however they
  were built, yield the same entries in the same order.
\<close>

theorem entity_order_canonical:
  assumes "meaning commands = meaning others"
  shows "entries (entity_run commands) = entries (entity_run others)"
  by (rule entities.listing_canonical) (simp_all add: entities.run_meaning assms)

theorem entity_order_canonical_witness:
  "entries (entity_run [Put ''b'' 1, Put ''a'' (2::nat), Drop ''c'']) = entries (entity_run [Put ''a'' 2, Put ''b'' 1])"
  by (rule entity_order_canonical) (auto simp: fun_eq_iff)

end
