(* ===== verification/Jsonl.thy ===== *)
theory Jsonl
  imports Prelude "HOL-Library.Word"
begin

text \<open>
  \<open>apps/desktop/runtime/src/codex/jsonl.ts\<close> and the bytes \<open>codex/writer.ts\<close> sends: newline-framed
  JSON between the runtime and the Codex process. Bytes are words of 8 bits and a decoded line is
  its list of code points. \<open>TextDecoder\<close> is modelled with the options the code gives it: UTF-8,
  fatal, a leading byte order mark dropped.

  The decoder is a state with a result: a thrown fault is \<open>Inl\<close> its reason, and \<open>None\<close> stands for
  a loop that does not return.
\<close>

subsection \<open>UTF-8\<close>

type_synonym byte = "8 word"

definition continuation :: "byte \<Rightarrow> bool" where
  "continuation b \<longleftrightarrow> 128 \<le> uint b \<and> uint b \<le> 191"

definition tail_bits :: "byte \<Rightarrow> int" where
  "tail_bits b = uint b - 128"

text \<open>The second byte of a longer sequence: no overlong form, no surrogate, nothing above 10FFFF.\<close>

definition second_ok :: "byte \<Rightarrow> byte \<Rightarrow> bool" where
  "second_ok lead b \<longleftrightarrow> continuation b \<and>
     (uint lead = 224 \<longrightarrow> 160 \<le> uint b) \<and> (uint lead = 237 \<longrightarrow> uint b \<le> 159) \<and>
     (uint lead = 240 \<longrightarrow> 144 \<le> uint b) \<and> (uint lead = 244 \<longrightarrow> uint b \<le> 143)"

fun utf8_decode :: "byte list \<Rightarrow> int list option" where
  "utf8_decode [] = Some []"
| "utf8_decode (a # bytes) =
     (if uint a < 128 then map_option (Cons (uint a)) (utf8_decode bytes)
      else if 194 \<le> uint a \<and> uint a \<le> 223 then
        (case bytes of
           b # rest \<Rightarrow>
             (if continuation b then map_option (Cons ((uint a - 192) * 64 + tail_bits b)) (utf8_decode rest) else None)
         | [] \<Rightarrow> None)
      else if 224 \<le> uint a \<and> uint a \<le> 239 then
        (case bytes of
           b # c # rest \<Rightarrow>
             (if second_ok a b \<and> continuation c
              then map_option (Cons (((uint a - 224) * 64 + tail_bits b) * 64 + tail_bits c)) (utf8_decode rest) else None)
         | _ \<Rightarrow> None)
      else if 240 \<le> uint a \<and> uint a \<le> 244 then
        (case bytes of
           b # c # d # rest \<Rightarrow>
             (if second_ok a b \<and> continuation c \<and> continuation d
              then map_option (Cons ((((uint a - 240) * 64 + tail_bits b) * 64 + tail_bits c) * 64 + tail_bits d))
                (utf8_decode rest) else None)
         | _ \<Rightarrow> None)
      else None)"

definition BYTE_ORDER_MARK :: int where "BYTE_ORDER_MARK = 65279"

fun drop_mark :: "int list \<Rightarrow> int list" where
  "drop_mark [] = []"
| "drop_mark (c # cs) = (if c = BYTE_ORDER_MARK then cs else c # cs)"

definition text_decode :: "byte list \<Rightarrow> int list option" where
  "text_decode bytes = map_option drop_mark (utf8_decode bytes)"

text \<open>\<open>String.prototype.trim\<close> leaves nothing of a line of white space and line terminators.\<close>

definition white_space :: "int \<Rightarrow> bool" where
  "white_space c \<longleftrightarrow> 9 \<le> c \<and> c \<le> 13 \<or> c = 32 \<or> c = 160 \<or> c = 5760 \<or> 8192 \<le> c \<and> c \<le> 8202 \<or>
     c = 8232 \<or> c = 8233 \<or> c = 8239 \<or> c = 8287 \<or> c = 12288 \<or> c = BYTE_ORDER_MARK"

definition blank :: "int list \<Rightarrow> bool" where
  "blank line \<longleftrightarrow> list_all white_space line"

definition strip_return :: "int list \<Rightarrow> int list" where
  "strip_return line = (if line \<noteq> [] \<and> last line = 13 then butlast line else line)"

subsection \<open>The decoder\<close>

definition MAX_CODEX_JSONL_LINE_BYTES :: int where "MAX_CODEX_JSONL_LINE_BYTES = 16 * 1024 * 1024"
definition MAX_RETAINED_JSONL_BUFFER_BYTES :: int where "MAX_RETAINED_JSONL_BUFFER_BYTES = 64 * 1024"

datatype CodexJsonlFaultReason = JF_decoder_finished | JF_invalid_utf8 | JF_line_too_large

text \<open>\<open>jd_capacity\<close> is the size of the array that holds the buffered bytes.\<close>

record CodexJsonlDecoder =
  jd_maxLineBytes :: int
  jd_capacity :: int
  jd_buffer :: "byte list"
  jd_finished :: bool
  jd_fault :: "CodexJsonlFaultReason option"

definition new_decoder :: "int \<Rightarrow> CodexJsonlDecoder option" where
  "new_decoder maxLineBytes =
     (if \<not> is_safe_integer maxLineBytes \<or> maxLineBytes \<le> 0 \<or> maxLineBytes > MAX_CODEX_JSONL_LINE_BYTES then None
      else Some \<lparr>jd_maxLineBytes = maxLineBytes, jd_capacity = 0, jd_buffer = [], jd_finished = False, jd_fault = None\<rparr>)"

definition latchFault :: "CodexJsonlFaultReason \<Rightarrow> CodexJsonlDecoder \<Rightarrow> CodexJsonlFaultReason \<times> CodexJsonlDecoder" where
  "latchFault reason d =
     (let fault = (case jd_fault d of None \<Rightarrow> reason | Some latched \<Rightarrow> latched) in
      (fault, d \<lparr>jd_fault := Some fault, jd_capacity := 0, jd_buffer := []\<rparr>))"

partial_function (option) grow :: "int \<Rightarrow> int \<Rightarrow> int \<Rightarrow> int option" where
  "grow maxLineBytes nextLength capacity =
     (if capacity < nextLength then grow maxLineBytes nextLength (min maxLineBytes (capacity * 2)) else Some capacity)"

declare grow.simps [code]

type_synonym 'a decoded = "((CodexJsonlFaultReason + 'a) \<times> CodexJsonlDecoder) option"

definition append_segment :: "byte list \<Rightarrow> CodexJsonlDecoder \<Rightarrow> unit decoded" where
  "append_segment segment d =
     (if segment = [] then Some (Inr (), d)
      else
        let nextLength = int (length (jd_buffer d)) + int (length segment) in
        if nextLength > jd_maxLineBytes d
        then (let (fault, d1) = latchFault JF_line_too_large d in Some (Inl fault, d1))
        else
          (case (if nextLength > jd_capacity d
                 then grow (jd_maxLineBytes d) nextLength (min (jd_maxLineBytes d) (max 1024 (jd_capacity d)))
                 else Some (jd_capacity d)) of
             None \<Rightarrow> None
           | Some capacity \<Rightarrow> Some (Inr (), d \<lparr>jd_capacity := capacity, jd_buffer := jd_buffer d @ segment\<rparr>)))"

definition decodeBufferedLine :: "CodexJsonlDecoder \<Rightarrow> (CodexJsonlFaultReason + int list) \<times> CodexJsonlDecoder" where
  "decodeBufferedLine d =
     (case text_decode (jd_buffer d) of
        None \<Rightarrow> (let (fault, d1) = latchFault JF_invalid_utf8 d in (Inl fault, d1))
      | Some line \<Rightarrow> (Inr (strip_return line),
          d \<lparr>jd_buffer := [], jd_capacity := (if jd_capacity d > MAX_RETAINED_JSONL_BUFFER_BYTES then 0 else jd_capacity d)\<rparr>))"

definition newline :: byte where "newline = 10"

text \<open>The loop of \<open>push\<close> over what is left of the chunk, with the lines so far.\<close>

function push_loop :: "byte list \<Rightarrow> int list list \<Rightarrow> CodexJsonlDecoder \<Rightarrow> int list list decoded" where
  "push_loop chunk lines d =
     (if chunk = [] then Some (Inr lines, d)
      else
        (case append_segment (takeWhile (\<lambda>b. b \<noteq> newline) chunk) d of
           None \<Rightarrow> None
         | Some (Inl fault, d1) \<Rightarrow> Some (Inl fault, d1)
         | Some (Inr _, d1) \<Rightarrow>
             (case dropWhile (\<lambda>b. b \<noteq> newline) chunk of
                [] \<Rightarrow> Some (Inr lines, d1)
              | nl # rest \<Rightarrow>
                  (case decodeBufferedLine d1 of
                     (Inl fault, d2) \<Rightarrow> Some (Inl fault, d2)
                   | (Inr line, d2) \<Rightarrow> push_loop rest (if blank line then lines else lines @ [line]) d2))))"
  by pat_completeness auto
termination
proof (relation "measure (\<lambda>(chunk, lines, d). length chunk)", goal_cases)
  case (2 chunk lines d x2 a d1 b nl rest)
  have "length (nl # rest) \<le> length chunk" unfolding 2(5) [symmetric] by (rule length_dropWhile_le)
  then show ?case by simp
qed simp

definition unavailable :: "CodexJsonlDecoder \<Rightarrow> CodexJsonlFaultReason option" where
  "unavailable d = (case jd_fault d of
     Some fault \<Rightarrow> Some fault
   | None \<Rightarrow> if jd_finished d then Some JF_decoder_finished else None)"

definition push :: "byte list \<Rightarrow> CodexJsonlDecoder \<Rightarrow> int list list decoded" where
  "push chunk d = (case unavailable d of Some fault \<Rightarrow> Some (Inl fault, d) | None \<Rightarrow> push_loop chunk [] d)"

definition finish :: "CodexJsonlDecoder \<Rightarrow> (CodexJsonlFaultReason + int list list) \<times> CodexJsonlDecoder" where
  "finish d =
     (case unavailable d of
        Some fault \<Rightarrow> (Inl fault, d)
      | None \<Rightarrow>
          (let d1 = d \<lparr>jd_finished := True\<rparr> in
           if jd_buffer d1 = [] then (Inr [], d1)
           else
             (case decodeBufferedLine d1 of
                (Inl fault, d2) \<Rightarrow> (Inl fault, d2)
              | (Inr line, d2) \<Rightarrow> (Inr (if blank line then [] else [line]), d2))))"

subsection \<open>The writer\<close>

definition low_byte :: "int \<Rightarrow> byte" where
  "low_byte n = word_of_int n"

text \<open>\<open>TextEncoder\<close> on one code point.\<close>

definition encode_point :: "int \<Rightarrow> byte list" where
  "encode_point c =
     (if c < 128 then [low_byte c]
      else if c < 2048 then [low_byte (192 + c div 64), low_byte (128 + c mod 64)]
      else if c < 65536 then
        [low_byte (224 + c div 4096), low_byte (128 + c div 64 mod 64), low_byte (128 + c mod 64)]
      else [low_byte (240 + c div 262144), low_byte (128 + c div 4096 mod 64),
            low_byte (128 + c div 64 mod 64), low_byte (128 + c mod 64)])"

definition text_encode :: "int list \<Rightarrow> byte list" where
  "text_encode line = concat (map encode_point line)"

definition written_line :: "int list \<Rightarrow> byte list" where
  "written_line json = text_encode json @ [newline]"

subsection \<open>The buffer stays within its limit and every call returns\<close>

lemma grow_returns:
  assumes "0 < capacity" "capacity \<le> maxLineBytes" "nextLength \<le> maxLineBytes"
  shows "\<exists>c. grow maxLineBytes nextLength capacity = Some c \<and> nextLength \<le> c \<and> capacity \<le> c \<and> c \<le> maxLineBytes"
  using assms
proof (induction "nat (maxLineBytes - capacity)" arbitrary: capacity rule: less_induct)
  case less
  show ?case
  proof (cases "capacity < nextLength")
    case False
    with less.prems show ?thesis by (subst grow.simps) simp
  next
    case True
    let ?next = "min maxLineBytes (capacity * 2)"
    from True less.prems have "capacity < ?next" "?next \<le> maxLineBytes" by auto
    with less.hyps [of ?next] less.prems obtain c where
      "grow maxLineBytes nextLength ?next = Some c" "nextLength \<le> c" "?next \<le> c" "c \<le> maxLineBytes" by auto
    with True \<open>capacity < ?next\<close> show ?thesis by (subst grow.simps) auto
  qed
qed

definition decoder_ok :: "CodexJsonlDecoder \<Rightarrow> bool" where
  "decoder_ok d \<longleftrightarrow> 0 < jd_maxLineBytes d \<and> jd_maxLineBytes d \<le> MAX_CODEX_JSONL_LINE_BYTES \<and>
     int (length (jd_buffer d)) \<le> jd_capacity d \<and> jd_capacity d \<le> jd_maxLineBytes d"

lemma latch_ok: "decoder_ok d \<Longrightarrow> decoder_ok (snd (latchFault reason d))"
  by (simp add: decoder_ok_def latchFault_def Let_def)

lemma append_segment_spec:
  assumes "decoder_ok d" "jd_fault d = None"
  obtains (too_large) d' where "append_segment segment d = Some (Inl JF_line_too_large, d')"
      "jd_maxLineBytes d < int (length (jd_buffer d @ segment))" "decoder_ok d'" "jd_fault d' = Some JF_line_too_large"
      "jd_maxLineBytes d' = jd_maxLineBytes d"
  | (fits) d' where "append_segment segment d = Some (Inr (), d')" "int (length (jd_buffer d @ segment)) \<le> jd_maxLineBytes d"
      "decoder_ok d'" "jd_buffer d' = jd_buffer d @ segment" "jd_fault d' = None" "jd_finished d' = jd_finished d"
      "jd_maxLineBytes d' = jd_maxLineBytes d"
proof (cases "segment = []")
  case True
  with assms fits [of d] show thesis by (simp add: append_segment_def decoder_ok_def)
next
  case nonempty: False
  let ?next = "int (length (jd_buffer d)) + int (length segment)"
  show thesis
  proof (cases "?next > jd_maxLineBytes d")
    case True
    with nonempty assms show thesis
      by (intro too_large [of "snd (latchFault JF_line_too_large d)"])
        (auto simp: append_segment_def latchFault_def Let_def decoder_ok_def)
  next
    case False
    from assms(1) have "0 < min (jd_maxLineBytes d) (max 1024 (jd_capacity d))" by (auto simp: decoder_ok_def)
    with False grow_returns [of "min (jd_maxLineBytes d) (max 1024 (jd_capacity d))" "jd_maxLineBytes d" ?next]
    obtain c where c: "grow (jd_maxLineBytes d) ?next (min (jd_maxLineBytes d) (max 1024 (jd_capacity d))) = Some c"
      "?next \<le> c" "c \<le> jd_maxLineBytes d" by auto
    let ?c = "if ?next > jd_capacity d then c else jd_capacity d"
    from nonempty False c assms show thesis
      by (intro fits [of "d \<lparr>jd_capacity := ?c, jd_buffer := jd_buffer d @ segment\<rparr>"])
        (auto simp: append_segment_def Let_def decoder_ok_def)
  qed
qed

lemma decodeBufferedLine_ok: "decoder_ok d \<Longrightarrow> decoder_ok (snd (decodeBufferedLine d))"
  by (auto simp: decodeBufferedLine_def Let_def decoder_ok_def latchFault_def split: option.split)

subsection \<open>What the decoder computes\<close>

text \<open>
  The reference: the lines of a whole byte sequence and the bytes after its last newline, or the
  reason the first bad line is refused for.
\<close>

definition text_line :: "byte list \<Rightarrow> int list option" where
  "text_line bytes = map_option strip_return (text_decode bytes)"

definition keep_line :: "int list \<Rightarrow> int list list \<Rightarrow> int list list" where
  "keep_line line lines = (if blank line then lines else line # lines)"

function framed :: "int \<Rightarrow> byte list \<Rightarrow> CodexJsonlFaultReason + int list list \<times> byte list" where
  "framed limit bytes =
     (let segment = takeWhile (\<lambda>b. b \<noteq> newline) bytes in
      if limit < int (length segment) then Inl JF_line_too_large
      else
        (case dropWhile (\<lambda>b. b \<noteq> newline) bytes of
           [] \<Rightarrow> Inr ([], segment)
         | nl # rest \<Rightarrow>
             (case text_line segment of
                None \<Rightarrow> Inl JF_invalid_utf8
              | Some line \<Rightarrow>
                  (case framed limit rest of
                     Inl fault \<Rightarrow> Inl fault
                   | Inr (lines, remainder) \<Rightarrow> Inr (keep_line line lines, remainder)))))"
  by pat_completeness auto
termination
proof (relation "measure (\<lambda>(limit, bytes). length bytes)", goal_cases)
  case (2 limit bytes segment nl rest line)
  have "length (nl # rest) \<le> length bytes" unfolding 2(3) [symmetric] by (rule length_dropWhile_le)
  then show ?case by simp
qed simp

declare framed.simps [simp del] push_loop.simps [simp del]

text \<open>The reference on a sequence without and with a first newline.\<close>

lemma no_newline:
  assumes "newline \<notin> set bytes"
  shows "takeWhile (\<lambda>b. b \<noteq> newline) bytes = bytes" "dropWhile (\<lambda>b. b \<noteq> newline) bytes = []"
  using assms by (induction bytes) auto

lemma framed_partial:
  "newline \<notin> set bytes \<Longrightarrow> framed limit bytes = (if limit < int (length bytes) then Inl JF_line_too_large else Inr ([], bytes))"
  by (subst framed.simps) (simp add: Let_def no_newline)

lemma first_newline:
  assumes "newline \<notin> set segment"
  shows "takeWhile (\<lambda>b. b \<noteq> newline) (segment @ newline # rest) = segment"
    and "dropWhile (\<lambda>b. b \<noteq> newline) (segment @ newline # rest) = newline # rest"
  using assms by (induction segment) auto

lemma framed_line:
  "newline \<notin> set segment \<Longrightarrow> framed limit (segment @ newline # rest) =
    (if limit < int (length segment) then Inl JF_line_too_large
     else case text_line segment of None \<Rightarrow> Inl JF_invalid_utf8
       | Some line \<Rightarrow> (case framed limit rest of Inl fault \<Rightarrow> Inl fault
           | Inr (lines, remainder) \<Rightarrow> Inr (keep_line line lines, remainder)))"
  by (subst framed.simps) (simp add: Let_def first_newline)

lemma split_newline: "newline \<in> set bytes \<Longrightarrow> \<exists>segment rest. bytes = segment @ newline # rest \<and> newline \<notin> set segment"
  by (rule split_list_first)

text \<open>Reading on: the bytes that are left over start the rest.\<close>

lemma framed_append:
  "framed limit (xs @ ys) = (case framed limit xs of
     Inl fault \<Rightarrow> Inl fault
   | Inr (lines, remainder) \<Rightarrow> map_sum id (apfst (append lines)) (framed limit (remainder @ ys)))"
proof (induction "length xs" arbitrary: xs rule: less_induct)
  case less
  show ?case
  proof (cases "newline \<in> set xs")
    case True
    then obtain segment rest where xs: "xs = segment @ newline # rest" "newline \<notin> set segment" using split_newline by blast
    then have "length rest < length xs" by simp
    from less [OF this] xs show ?thesis
      by (cases "framed limit (rest @ ys)"; cases "framed limit rest")
        (auto simp: framed_line keep_line_def map_sum_def apfst_def map_prod_def split: option.split sum.splits prod.splits)
  next
    case False
    show ?thesis
    proof (cases "limit < int (length xs)")
      case True
      then show ?thesis
      proof (cases "newline \<in> set ys")
        case has: True
        then obtain segment rest where "ys = segment @ newline # rest" "newline \<notin> set segment" using split_newline by blast
        with False True framed_line [of "xs @ segment" limit rest] show ?thesis by (simp add: framed_partial)
      qed (use False True in \<open>simp add: framed_partial\<close>)
    next
      case fits: False
      with False show ?thesis
        by (cases "framed limit (xs @ ys)") (auto simp: framed_partial apfst_def map_prod_def)
    qed
  qed
qed

text \<open>What one push leaves behind, in terms of the reference.\<close>

definition agrees :: "CodexJsonlDecoder \<Rightarrow> int list list \<Rightarrow> byte list \<Rightarrow>
    (CodexJsonlFaultReason + int list list) \<times> CodexJsonlDecoder \<Rightarrow> bool" where
  "agrees d lines bytes r \<longleftrightarrow> decoder_ok (snd r) \<and> jd_maxLineBytes (snd r) = jd_maxLineBytes d \<and>
     (case framed (jd_maxLineBytes d) bytes of
        Inl fault \<Rightarrow> fst r = Inl fault \<and> jd_fault (snd r) = Some fault
      | Inr (more_lines, remainder) \<Rightarrow> fst r = Inr (lines @ more_lines) \<and> jd_buffer (snd r) = remainder \<and>
          newline \<notin> set remainder \<and> jd_fault (snd r) = None \<and> jd_finished (snd r) = jd_finished d)"

lemma decodeBufferedLine_framed:
  assumes "decoder_ok d" "jd_fault d = None"
  shows "case text_line (jd_buffer d) of
      None \<Rightarrow> \<exists>d'. decodeBufferedLine d = (Inl JF_invalid_utf8, d') \<and> decoder_ok d' \<and> jd_fault d' = Some JF_invalid_utf8 \<and>
        jd_maxLineBytes d' = jd_maxLineBytes d
    | Some line \<Rightarrow> \<exists>d'. decodeBufferedLine d = (Inr line, d') \<and> decoder_ok d' \<and> jd_buffer d' = [] \<and> jd_fault d' = None \<and>
        jd_finished d' = jd_finished d \<and> jd_maxLineBytes d' = jd_maxLineBytes d"
  using assms by (auto simp: decodeBufferedLine_def text_line_def latchFault_def Let_def decoder_ok_def split: option.split)

lemma push_loop_framed:
  assumes "decoder_ok d" "jd_fault d = None" "newline \<notin> set (jd_buffer d)"
  shows "\<exists>r. push_loop chunk lines d = Some r \<and> agrees d lines (jd_buffer d @ chunk) r"
  using assms
proof (induction "length chunk" arbitrary: chunk lines d rule: less_induct)
  case less
  show ?case
  proof (cases "chunk = []")
    case True
    with less.prems show ?thesis
      by (auto simp: push_loop.simps agrees_def framed_partial decoder_ok_def)
  next
    case nonempty: False
    let ?segment = "takeWhile (\<lambda>b. b \<noteq> newline) chunk"
    have plain: "newline \<notin> set (jd_buffer d @ ?segment)" using less.prems(3) by (auto dest: set_takeWhileD)
    show ?thesis
    proof (cases "newline \<in> set chunk")
      case False
      from less.prems(1,2) show ?thesis
      proof (cases rule: append_segment_spec [where segment = chunk])
        case (too_large d')
        with False nonempty less.prems show ?thesis
          by (auto simp: push_loop.simps [of chunk] no_newline agrees_def framed_partial)
      next
        case (fits d')
        with False nonempty less.prems show ?thesis
          by (auto simp: push_loop.simps [of chunk] no_newline agrees_def framed_partial)
      qed
    next
      case True
      then obtain segment rest where chunk: "chunk = segment @ newline # rest" "newline \<notin> set segment"
        using split_newline by blast
      have line: "newline \<notin> set (jd_buffer d @ segment)" using less.prems(3) chunk(2) by simp
      note step = framed_line [OF line, of "jd_maxLineBytes d" rest]
      from less.prems(1,2) show ?thesis
      proof (cases rule: append_segment_spec [where segment = segment])
        case (too_large d')
        with chunk show ?thesis
          using step by (auto simp: push_loop.simps [of "segment @ newline # rest"] first_newline agrees_def)
      next
        case (fits d')
        note decoded = decodeBufferedLine_framed [OF fits(3,5), unfolded fits(4)]
        show ?thesis
        proof (cases "text_line (jd_buffer d @ segment)")
          case None
          with decoded obtain d2 where "decodeBufferedLine d' = (Inl JF_invalid_utf8, d2)" "decoder_ok d2"
            "jd_fault d2 = Some JF_invalid_utf8" "jd_maxLineBytes d2 = jd_maxLineBytes d" using fits(7) by auto
          with fits None chunk show ?thesis
            using step by (auto simp: push_loop.simps [of "segment @ newline # rest"] first_newline agrees_def)
        next
          case (Some content)
          with decoded fits obtain d2 where d2: "decodeBufferedLine d' = (Inr content, d2)" "decoder_ok d2" "jd_buffer d2 = []"
            "jd_fault d2 = None" "jd_finished d2 = jd_finished d" "jd_maxLineBytes d2 = jd_maxLineBytes d" by auto
          have "length rest < length chunk" by (simp add: chunk)
          from less.hyps [OF this d2(2,4), of "if blank content then lines else lines @ [content]"] d2(3) obtain r where
            r: "push_loop rest (if blank content then lines else lines @ [content]) d2 = Some r"
              "agrees d2 (if blank content then lines else lines @ [content]) rest r" by auto
          have "push_loop chunk lines d = Some r"
            using r(1) d2(1) fits(1) chunk by (simp add: push_loop.simps [of "segment @ newline # rest"] first_newline)
          moreover have "agrees d lines (jd_buffer d @ chunk) r"
            using r(2) step d2(5,6) fits(2) Some chunk
            by (auto simp: agrees_def keep_line_def split: sum.splits prod.splits)
          ultimately show ?thesis by blast
        qed
      qed
    qed
  qed
qed

text \<open>Chunks one after the other, up to the first fault.\<close>

fun feed :: "byte list list \<Rightarrow> int list list \<Rightarrow> CodexJsonlDecoder \<Rightarrow> int list list decoded" where
  "feed [] lines d = Some (Inr lines, d)"
| "feed (chunk # chunks) lines d =
     (case push chunk d of
        None \<Rightarrow> None
      | Some (Inl fault, d1) \<Rightarrow> Some (Inl fault, d1)
      | Some (Inr new_lines, d1) \<Rightarrow> feed chunks (lines @ new_lines) d1)"

lemma feed_framed:
  assumes "decoder_ok d" "jd_fault d = None" "\<not> jd_finished d" "newline \<notin> set (jd_buffer d)"
  shows "\<exists>r. feed chunks lines d = Some r \<and> agrees d lines (jd_buffer d @ concat chunks) r"
  using assms
proof (induction chunks arbitrary: lines d)
  case Nil
  then show ?case by (auto simp: agrees_def framed_partial decoder_ok_def)
next
  case (Cons chunk chunks)
  obtain r where r: "push_loop chunk [] d = Some r" "agrees d [] (jd_buffer d @ chunk) r"
    using push_loop_framed [OF Cons.prems(1,2,4)] by blast
  obtain out d1 where rd: "r = (out, d1)" by (cases r)
  have push: "push chunk d = Some (out, d1)" using Cons.prems r(1) rd by (simp add: push_def unavailable_def)
  note joined = framed_append [of "jd_maxLineBytes d" "jd_buffer d @ chunk" "concat chunks"]
  show ?case
  proof (cases "framed (jd_maxLineBytes d) (jd_buffer d @ chunk)")
    case (Inl fault)
    with r(2) rd push joined show ?thesis by (auto simp: agrees_def)
  next
    case (Inr result)
    obtain new_lines remainder where result: "result = (new_lines, remainder)" by (cases result)
    with Inr r(2) rd have d1: "out = Inr new_lines" "decoder_ok d1" "jd_buffer d1 = remainder" "newline \<notin> set (jd_buffer d1)"
      "jd_fault d1 = None" "jd_finished d1 = jd_finished d" "jd_maxLineBytes d1 = jd_maxLineBytes d"
      by (auto simp: agrees_def)
    from Cons.IH [OF d1(2,5) _ d1(4), of "lines @ new_lines"] d1(6) Cons.prems(3) obtain r' where
      r': "feed chunks (lines @ new_lines) d1 = Some r'" "agrees d1 (lines @ new_lines) (remainder @ concat chunks) r'"
      using d1(3) by auto
    have "agrees d lines (jd_buffer d @ concat (chunk # chunks)) r'"
      using r'(2) joined Inr result d1(6,7)
      by (cases "framed (jd_maxLineBytes d) (remainder @ concat chunks)") (auto simp: agrees_def)
    with r'(1) push d1(1) show ?thesis by auto
  qed
qed

lemma new_decoder_ok:
  "new_decoder limit = Some d \<Longrightarrow> decoder_ok d \<and> jd_fault d = None \<and> \<not> jd_finished d \<and> jd_buffer d = [] \<and> jd_maxLineBytes d = limit"
  by (auto simp: new_decoder_def decoder_ok_def split: if_splits)

lemma fresh_feed:
  assumes "new_decoder limit = Some d"
  shows "\<exists>out d'. feed chunks [] d = Some (out, d') \<and> out = map_sum id fst (framed limit (concat chunks)) \<and>
    (\<forall>lines remainder. framed limit (concat chunks) = Inr (lines, remainder) \<longrightarrow> jd_buffer d' = remainder) \<and>
    int (length (jd_buffer d')) \<le> jd_capacity d' \<and> jd_capacity d' \<le> limit"
proof -
  note fresh = new_decoder_ok [OF assms]
  from feed_framed [of d chunks "[]"] fresh obtain out d' where
    r: "feed chunks [] d = Some (out, d')" "agrees d [] (concat chunks) (out, d')" by auto
  then show ?thesis
    using fresh by (cases "framed limit (concat chunks)") (auto simp: agrees_def decoder_ok_def)
qed

text \<open>
  C27. Decoding does not depend on how the bytes arrive. A fresh decoder fed any sequence of chunks
  always returns, and answers exactly what the reference answers on the whole byte sequence: its
  complete non-blank lines in order, with the unfinished line kept in the buffer, or the reason
  for which the first bad line is refused. The buffer never outgrows the limit.
\<close>

theorem jsonl_chunking:
  assumes "new_decoder limit = Some d"
  shows "\<exists>out d'. feed chunks [] d = Some (out, d') \<and> out = map_sum id fst (framed limit (concat chunks)) \<and>
    (\<forall>lines remainder. framed limit (concat chunks) = Inr (lines, remainder) \<longrightarrow> jd_buffer d' = remainder) \<and>
    int (length (jd_buffer d')) \<le> jd_capacity d' \<and> jd_capacity d' \<le> limit"
  by (rule fresh_feed [OF assms])

theorem jsonl_chunking_witness:
  "\<exists>d'. feed [[123], [125, 10, 123]] [] (the (new_decoder 8)) = Some (Inr [[123, 125]], d') \<and> jd_buffer d' = [123]"
proof -
  obtain d where d: "new_decoder 8 = Some d" by (simp add: new_decoder_def is_safe_integer_def MAX_SAFE_INTEGER_def MAX_CODEX_JSONL_LINE_BYTES_def)
  have "framed 8 [123, 125, 10, 123] = Inr ([[123, 125]], [123])" by code_simp
  with jsonl_chunking [OF d, of "[[123], [125, 10, 123]]"] show ?thesis by (auto simp: d)
qed

subsection \<open>What is written can be read\<close>

definition scalar :: "int \<Rightarrow> bool" where
  "scalar c \<longleftrightarrow> 0 \<le> c \<and> c \<le> 1114111 \<and> \<not> (55296 \<le> c \<and> c \<le> 57343)"

lemma uint_low_byte: "0 \<le> n \<Longrightarrow> n < 256 \<Longrightarrow> uint (low_byte n) = n"
  by (simp add: low_byte_def uint_word_of_int)

lemma continuation_low: "0 \<le> n \<Longrightarrow> n < 64 \<Longrightarrow> continuation (low_byte (128 + n)) \<and> tail_bits (low_byte (128 + n)) = n"
  by (simp add: continuation_def tail_bits_def uint_low_byte)

lemma six_bits: "0 \<le> c mod 64" "c mod 64 < 64" for c :: int
  by simp_all

text \<open>Linear facts over the digits, stated with variables so that arithmetic sees no division.\<close>

lemma digit_facts:
  fixes a b c d n q r :: int
  shows "64 * q + d = n \<Longrightarrow> 64 * a + b = q \<Longrightarrow> (a * 64 + b) * 64 + d = n"
    and "64 * q + d = n \<Longrightarrow> 64 * r + c = q \<Longrightarrow> 64 * a + b = r \<Longrightarrow> ((a * 64 + b) * 64 + c) * 64 + d = n"
    and "(a * 64 + b) * 64 + d = n \<Longrightarrow> 2048 \<le> n \<Longrightarrow> d < 64 \<Longrightarrow> a = 0 \<longrightarrow> 32 \<le> b"
    and "(a * 64 + b) * 64 + d = n \<Longrightarrow> \<not> (55296 \<le> n \<and> n \<le> 57343) \<Longrightarrow> 0 \<le> b \<Longrightarrow> b < 64 \<Longrightarrow> 0 \<le> d \<Longrightarrow> d < 64 \<Longrightarrow>
      a = 13 \<longrightarrow> b \<le> 31"
    and "((a * 64 + b) * 64 + c) * 64 + d = n \<Longrightarrow> 65536 \<le> n \<Longrightarrow> c < 64 \<Longrightarrow> d < 64 \<Longrightarrow> a = 0 \<longrightarrow> 16 \<le> b"
    and "((a * 64 + b) * 64 + c) * 64 + d = n \<Longrightarrow> n \<le> 1114111 \<Longrightarrow> 0 \<le> c \<Longrightarrow> 0 \<le> d \<Longrightarrow> a = 4 \<longrightarrow> b \<le> 15"
  by (auto simp: algebra_simps)

lemma sum_digits:
  fixes c :: int
  shows "(c div 4096 * 64 + c div 64 mod 64) * 64 + c mod 64 = c"
    and "((c div 262144 * 64 + c div 4096 mod 64) * 64 + c div 64 mod 64) * 64 + c mod 64 = c"
proof -
  have nest: "c div 64 div 64 = c div 4096" "c div 4096 div 64 = c div 262144"
    using zdiv_zmult2_eq [of 64 c 64] zdiv_zmult2_eq [of 64 c 4096] by simp_all
  note digits = mult_div_mod_eq [of 64 c] mult_div_mod_eq [of 64 "c div 64", unfolded nest] mult_div_mod_eq [of 64 "c div 4096", unfolded nest]
  show "(c div 4096 * 64 + c div 64 mod 64) * 64 + c mod 64 = c" by (rule digit_facts(1) [OF digits(1,2)])
  show "((c div 262144 * 64 + c div 4096 mod 64) * 64 + c div 64 mod 64) * 64 + c mod 64 = c" by (rule digit_facts(2) [OF digits])
qed

lemma decode_two:
  assumes "128 \<le> c" "c < 2048"
  shows "utf8_decode (encode_point c @ bytes) = map_option (Cons c) (utf8_decode bytes)"
proof -
  have "2 \<le> c div 64" "c div 64 < 32" "c div 64 * 64 + c mod 64 = c" using assms by simp_all
  with assms continuation_low [OF six_bits] show ?thesis by (simp add: encode_point_def uint_low_byte)
qed

lemma decode_three:
  assumes "2048 \<le> c" "c < 65536" "\<not> (55296 \<le> c \<and> c \<le> 57343)"
  shows "utf8_decode (encode_point c @ bytes) = map_option (Cons c) (utf8_decode bytes)"
proof -
  let ?a = "c div 4096" and ?b = "c div 64 mod 64" and ?c = "c mod 64"
  have sum: "(?a * 64 + ?b) * 64 + ?c = c" by (rule sum_digits(1))
  have a: "0 \<le> ?a" "?a < 16" using assms by simp_all
  have b: "0 \<le> ?b" "?b < 64" "0 \<le> ?c" "?c < 64" by simp_all
  have low: "?a = 0 \<longrightarrow> 32 \<le> ?b" by (rule digit_facts(3) [OF sum assms(1) b(4)])
  have high: "?a = 13 \<longrightarrow> ?b \<le> 31" by (rule digit_facts(4) [OF sum assms(3) b])
  have second: "second_ok (low_byte (224 + ?a)) (low_byte (128 + ?b))"
    using a b low high by (auto simp: second_ok_def continuation_def uint_low_byte)
  show ?thesis
    using assms(1,2) a second continuation_low [OF b(1,2)] continuation_low [OF b(3,4)] sum
    by (simp add: encode_point_def uint_low_byte)
qed

lemma decode_four_digits:
  assumes "0 \<le> a" "a < 5" "0 \<le> b" "b < 64" "0 \<le> c" "c < 64" "0 \<le> d" "d < 64"
    and "second_ok (low_byte (240 + a)) (low_byte (128 + b))" "((a * 64 + b) * 64 + c) * 64 + d = n"
  shows "utf8_decode (low_byte (240 + a) # low_byte (128 + b) # low_byte (128 + c) # low_byte (128 + d) # bytes) =
    map_option (Cons n) (utf8_decode bytes)"
  using assms continuation_low [OF assms(3,4)] continuation_low [OF assms(5,6)] continuation_low [OF assms(7,8)]
  by (simp add: uint_low_byte)

lemma decode_four:
  assumes "65536 \<le> c" "c \<le> 1114111"
  shows "utf8_decode (encode_point c @ bytes) = map_option (Cons c) (utf8_decode bytes)"
proof -
  let ?a = "c div 262144" and ?b = "c div 4096 mod 64" and ?c = "c div 64 mod 64" and ?d = "c mod 64"
  have sum: "((?a * 64 + ?b) * 64 + ?c) * 64 + ?d = c" by (rule sum_digits(2))
  have a: "0 \<le> ?a" "?a < 5" using assms by simp_all
  have b: "0 \<le> ?b" "?b < 64" "0 \<le> ?c" "?c < 64" "0 \<le> ?d" "?d < 64" by simp_all
  have low: "?a = 0 \<longrightarrow> 16 \<le> ?b" by (rule digit_facts(5) [OF sum assms(1) b(4,6)])
  have high: "?a = 4 \<longrightarrow> ?b \<le> 15" by (rule digit_facts(6) [OF sum assms(2) b(3,5)])
  have second: "second_ok (low_byte (240 + ?a)) (low_byte (128 + ?b))"
    using a b low high by (auto simp: second_ok_def continuation_def uint_low_byte)
  show ?thesis
    using decode_four_digits [OF a b second sum, of bytes] assms(1) by (simp add: encode_point_def)
qed

lemma utf8_decode_point: "scalar c \<Longrightarrow> utf8_decode (encode_point c @ bytes) = map_option (Cons c) (utf8_decode bytes)"
  using decode_two [of c bytes] decode_three [of c bytes] decode_four [of c bytes]
  by (cases "c < 128"; cases "c < 2048"; cases "c < 65536") (auto simp: scalar_def encode_point_def uint_low_byte)

lemma utf8_roundtrip: "list_all scalar line \<Longrightarrow> utf8_decode (text_encode line) = Some line"
  by (induction line) (simp_all add: text_encode_def utf8_decode_point)

lemma encode_no_newline:
  assumes "scalar c" "c \<noteq> 10"
  shows "newline \<notin> set (encode_point c)"
proof -
  have byte: "low_byte n \<noteq> newline" if "0 \<le> n" "n < 256" "n \<noteq> 10" for n
    using that uint_low_byte [of n] by (auto simp: newline_def)
  have mods: "0 \<le> x mod 64" "x mod 64 < 64" for x :: int by simp_all
  have "newline \<noteq> low_byte (128 + x mod 64)" for x
    using byte [of "128 + x mod 64"] mods [of x] by fastforce
  moreover have "newline \<noteq> low_byte (k + x)" if "192 \<le> k" "k \<le> 240" "0 \<le> x" "x < 16 \<or> k = 192 \<and> x < 32" for k x
    using that byte [of "k + x"] by fastforce
  moreover have "newline \<noteq> low_byte c" if "c < 128" using that assms byte [of c] by (fastforce simp: scalar_def)
  moreover have "0 \<le> c div 64" "c < 2048 \<Longrightarrow> c div 64 < 32" "0 \<le> c div 4096" "c < 65536 \<Longrightarrow> c div 4096 < 16"
    "0 \<le> c div 262144" "c div 262144 < 16"
    using assms(1) unfolding scalar_def by (auto simp: pos_imp_zdiv_nonneg_iff)
  ultimately show ?thesis by (auto simp: encode_point_def)
qed

text \<open>
  A message as \<open>JSON.stringify\<close> writes it: scalar values, no line terminator at its end or newline
  inside, no byte order mark in front, and not blank.
\<close>

definition message_ok :: "int \<Rightarrow> int list \<Rightarrow> bool" where
  "message_ok limit json \<longleftrightarrow> list_all scalar json \<and> 10 \<notin> set json \<and> \<not> blank json \<and>
     hd json \<noteq> BYTE_ORDER_MARK \<and> last json \<noteq> 13 \<and> int (length (text_encode json)) \<le> limit"

lemma framed_written:
  assumes "message_ok limit json"
  shows "framed limit (written_line json @ rest) = map_sum id (apfst (Cons json)) (framed limit rest)"
proof -
  from assms have nonempty: "json \<noteq> []" by (auto simp: message_ok_def blank_def)
  have plain: "newline \<notin> set (text_encode json)"
    using assms encode_no_newline by (auto simp: message_ok_def text_encode_def list_all_iff)
  have "text_line (text_encode json) = Some json"
    using assms nonempty by (cases json) (auto simp: message_ok_def text_line_def text_decode_def utf8_roundtrip strip_return_def)
  with assms framed_line [OF plain, of limit rest] show ?thesis
    by (cases "framed limit rest") (auto simp: written_line_def message_ok_def keep_line_def)
qed



end
