(* ===== verification/DispatchBudget.thy ===== *)
theory DispatchBudget
  imports Prelude
begin

text \<open>
  \<open>apps/desktop/runtime/src/accounts/dispatch-budget.ts\<close>: what the desktop runtime knows of the
  provider budget of an account, and when it asks for a fresh reading.

  A JavaScript number that may be an infinity or \<open>NaN\<close> is a \<open>js_number\<close>; the finite numbers here
  are milliseconds and whole percentages. \<open>Date.parse\<close> is the argument \<open>parse\<close> of the definitions,
  with no law: nothing proved depends on how a date is written.
\<close>

subsection \<open>Usage as the gateway keeps it\<close>

datatype js_number = Fin int | PosInf | NegInf | NaN

record RateLimitWindowSummary =
  rw_usedPercent :: int
  rw_windowDurationMinutes :: "int option"
  rw_resetsAt :: "string option"

record IndividualLimit =
  in_remainingPercent :: int
  in_resetsAt :: string

record RateLimitSummary =
  rs_id :: string
  rs_name :: string
  rs_primary :: "RateLimitWindowSummary option"
  rs_secondary :: "RateLimitWindowSummary option"
  rs_individual :: "IndividualLimit option"
  rs_unlimited :: bool
  rs_reached :: bool

text \<open>The token statistics of a ready state are never read here.\<close>

datatype AccountUsageState =
    UsageUnavailable
  | UsageLoading
  | UsageReady (ur_limits: "RateLimitSummary list") (ur_updatedAt: string)
  | UsageFailed string

datatype DispatchBudget = Known int | Unknown | Stale | Exhausted

definition dispatchBudgetFreshnessMs :: int where "dispatchBudgetFreshnessMs = 2 * 60 * 1000"
definition dispatchBudgetRefreshRetryMs :: int where "dispatchBudgetRefreshRetryMs = 30000"
definition chatProactiveRerouteThresholdPercent :: int where "chatProactiveRerouteThresholdPercent = 10"
definition maximumFutureClockSkewMs :: int where "maximumFutureClockSkewMs = 5000"

subsection \<open>The budget of an account\<close>

text \<open>\<open>Math.min(...scores)\<close>; the code never calls it on no scores.\<close>

fun math_min :: "int list \<Rightarrow> int" where
  "math_min [] = 0"
| "math_min [x] = x"
| "math_min (x # xs) = min x (math_min xs)"

text \<open>A reset that cannot be read or is not in the future makes the reading of its limit stale.\<close>

definition reset_passed :: "(string \<Rightarrow> js_number) \<Rightarrow> int \<Rightarrow> string \<Rightarrow> bool" where
  "reset_passed parse now resetsAt =
     (case parse resetsAt of Fin instant \<Rightarrow> instant \<le> now | _ \<Rightarrow> True)"

text \<open>One window of the inner loop, on the constraints so far and the staleness of the limit.\<close>

definition window_step ::
  "(string \<Rightarrow> js_number) \<Rightarrow> int \<Rightarrow> RateLimitWindowSummary option \<Rightarrow> int list \<times> bool \<Rightarrow> int list \<times> bool" where
  "window_step parse now window = (\<lambda>(constraints, limitIsStale).
     (case window of
        None \<Rightarrow> (constraints, limitIsStale)
      | Some w \<Rightarrow>
          (if (case rw_resetsAt w of None \<Rightarrow> False | Some resetsAt \<Rightarrow> reset_passed parse now resetsAt)
           then (constraints, True)
           else (constraints @ [100 - rw_usedPercent w], limitIsStale))))"

definition individual_step ::
  "(string \<Rightarrow> js_number) \<Rightarrow> int \<Rightarrow> IndividualLimit option \<Rightarrow> int list \<times> bool \<Rightarrow> int list \<times> bool" where
  "individual_step parse now individual = (\<lambda>(constraints, limitIsStale).
     (case individual of
        None \<Rightarrow> (constraints, limitIsStale)
      | Some i \<Rightarrow>
          (if reset_passed parse now (in_resetsAt i) then (constraints, True)
           else (constraints @ [in_remainingPercent i], limitIsStale))))"

record BudgetScan =
  bs_bucketScores :: "int list"
  bs_stale :: bool
  bs_exhausted :: bool
  bs_unknown :: bool

definition empty_scan :: BudgetScan where
  "empty_scan = \<lparr>bs_bucketScores = [], bs_stale = False, bs_exhausted = False, bs_unknown = False\<rparr>"

definition scan_limit :: "(string \<Rightarrow> js_number) \<Rightarrow> int \<Rightarrow> RateLimitSummary \<Rightarrow> BudgetScan \<Rightarrow> BudgetScan" where
  "scan_limit parse now limit b =
     (let (constraints, limitIsStale) =
        individual_step parse now (rs_individual limit)
          (window_step parse now (rs_secondary limit) (window_step parse now (rs_primary limit) ([], False)));
          b1 = (if rs_reached limit then b \<lparr>bs_exhausted := True\<rparr> else b) in
      if limitIsStale then b \<lparr>bs_stale := True\<rparr>
      else if constraints = [] then
        (if rs_unlimited limit then b1 \<lparr>bs_bucketScores := bs_bucketScores b1 @ [100]\<rparr>
         else b1 \<lparr>bs_unknown := True\<rparr>)
      else
        (let score = math_min constraints in
         b1 \<lparr>bs_exhausted := bs_exhausted b1 \<or> score \<le> 0, bs_bucketScores := bs_bucketScores b1 @ [score]\<rparr>))"

definition scan_verdict :: "BudgetScan \<Rightarrow> DispatchBudget" where
  "scan_verdict b =
     (if bs_exhausted b then Exhausted
      else if bs_stale b then Stale
      else if bs_unknown b then Unknown
      else if bs_bucketScores b = [] then Unknown
      else let remainingPercent = math_min (bs_bucketScores b) in
           if remainingPercent \<le> 0 then Exhausted else Known remainingPercent)"

definition dispatchBudget :: "(string \<Rightarrow> js_number) \<Rightarrow> AccountUsageState \<Rightarrow> js_number \<Rightarrow> DispatchBudget" where
  "dispatchBudget parse usage now =
     (case now of
        Fin t \<Rightarrow>
          (case usage of
             UsageReady limits updatedAt \<Rightarrow>
               (case parse updatedAt of
                  Fin observedAt \<Rightarrow>
                    (if observedAt > t + maximumFutureClockSkewMs \<or> t - observedAt > dispatchBudgetFreshnessMs
                     then Stale
                     else if limits = [] then Unknown
                     else scan_verdict (fold (scan_limit parse t) limits empty_scan))
                | _ \<Rightarrow> Stale)
           | _ \<Rightarrow> Unknown)
      | _ \<Rightarrow> Stale)"

definition dispatchBudgetNeedsRefresh :: "(string \<Rightarrow> js_number) \<Rightarrow> AccountUsageState \<Rightarrow> js_number \<Rightarrow> bool" where
  "dispatchBudgetNeedsRefresh parse usage now \<longleftrightarrow>
     (let budget = dispatchBudget parse usage now in budget = Stale \<or> budget = Unknown)"

datatype RoutingBudget = RB_healthy | RB_low | RB_exhausted | RB_unknown

definition chatRoutingBudget :: "(string \<Rightarrow> js_number) \<Rightarrow> AccountUsageState \<Rightarrow> js_number \<Rightarrow> RoutingBudget" where
  "chatRoutingBudget parse usage now =
     (case dispatchBudget parse usage now of
        Known remainingPercent \<Rightarrow>
          (if remainingPercent < chatProactiveRerouteThresholdPercent then RB_low else RB_healthy)
      | Exhausted \<Rightarrow> RB_exhausted
      | Stale \<Rightarrow> RB_unknown
      | Unknown \<Rightarrow> RB_unknown)"

subsection \<open>Refresh deadlines\<close>

definition usable_instant :: "js_number \<Rightarrow> bool" where
  "usable_instant now = (case now of Fin t \<Rightarrow> is_safe_integer t \<and> 0 \<le> t | _ \<Rightarrow> False)"

definition dispatchBudgetRefreshRetryAt :: "js_number \<Rightarrow> js_number" where
  "dispatchBudgetRefreshRetryAt now =
     (case now of
        Fin t \<Rightarrow>
          (if \<not> is_safe_integer t \<or> t < 0 then PosInf
           else if t > MAX_SAFE_INTEGER - dispatchBudgetRefreshRetryMs then NegInf
           else Fin (t + dispatchBudgetRefreshRetryMs))
      | _ \<Rightarrow> PosInf)"

definition dispatchBudgetRefreshIsDue :: "js_number \<Rightarrow> js_number \<Rightarrow> bool" where
  "dispatchBudgetRefreshIsDue now retryAt =
     (case now of
        Fin t \<Rightarrow>
          (if \<not> is_safe_integer t \<or> t < 0 then False
           else case retryAt of
             PosInf \<Rightarrow> True
           | NegInf \<Rightarrow> False
           | NaN \<Rightarrow> False
           | Fin deadline \<Rightarrow> is_safe_integer deadline \<and> 0 \<le> deadline \<and> deadline \<le> t)
      | _ \<Rightarrow> False)"

subsection \<open>The scan in closed form\<close>

lemma math_min_least: "xs \<noteq> [] \<Longrightarrow> math_min xs = Min (set xs)"
  by (induction xs rule: math_min.induct) (auto simp: min_def)

lemma math_min_le_iff: "xs \<noteq> [] \<Longrightarrow> math_min xs \<le> b \<longleftrightarrow> (\<exists>x\<in>set xs. x \<le> b)"
  by (simp add: math_min_least Min_le_iff)

text \<open>What a limit says at an instant: whether its reading is stale, and the percentages it leaves.\<close>

definition window_resets :: "RateLimitWindowSummary option \<Rightarrow> string list" where
  "window_resets window = (case window of None \<Rightarrow> [] | Some w \<Rightarrow> (case rw_resetsAt w of None \<Rightarrow> [] | Some r \<Rightarrow> [r]))"

definition window_headroom :: "RateLimitWindowSummary option \<Rightarrow> int list" where
  "window_headroom window = (case window of None \<Rightarrow> [] | Some w \<Rightarrow> [100 - rw_usedPercent w])"

definition limit_resets :: "RateLimitSummary \<Rightarrow> string list" where
  "limit_resets limit = window_resets (rs_primary limit) @ window_resets (rs_secondary limit) @
     (case rs_individual limit of None \<Rightarrow> [] | Some i \<Rightarrow> [in_resetsAt i])"

definition limit_headroom :: "RateLimitSummary \<Rightarrow> int list" where
  "limit_headroom limit = window_headroom (rs_primary limit) @ window_headroom (rs_secondary limit) @
     (case rs_individual limit of None \<Rightarrow> [] | Some i \<Rightarrow> [in_remainingPercent i])"

definition limit_stale :: "(string \<Rightarrow> js_number) \<Rightarrow> int \<Rightarrow> RateLimitSummary \<Rightarrow> bool" where
  "limit_stale parse now limit \<longleftrightarrow> list_ex (reset_passed parse now) (limit_resets limit)"

definition limit_spent :: "RateLimitSummary \<Rightarrow> bool" where
  "limit_spent limit \<longleftrightarrow> rs_reached limit \<or> list_ex (\<lambda>headroom. headroom \<le> 0) (limit_headroom limit)"

definition limit_scores :: "RateLimitSummary \<Rightarrow> int list" where
  "limit_scores limit =
     (if limit_headroom limit \<noteq> [] then [math_min (limit_headroom limit)]
      else if rs_unlimited limit then [100] else [])"

lemma window_step_simps:
  "snd (window_step parse now w s) \<longleftrightarrow> snd s \<or> list_ex (reset_passed parse now) (window_resets w)"
  "\<not> snd (window_step parse now w s) \<Longrightarrow> fst (window_step parse now w s) = fst s @ window_headroom w"
  by (auto simp: window_step_def window_resets_def window_headroom_def split: option.splits prod.splits if_splits)

lemma individual_step_simps:
  "snd (individual_step parse now i s) \<longleftrightarrow>
     snd s \<or> (case i of None \<Rightarrow> False | Some l \<Rightarrow> reset_passed parse now (in_resetsAt l))"
  "\<not> snd (individual_step parse now i s) \<Longrightarrow>
     fst (individual_step parse now i s) = fst s @ (case i of None \<Rightarrow> [] | Some l \<Rightarrow> [in_remainingPercent l])"
  by (auto simp: individual_step_def split: option.splits prod.splits if_splits)

lemma scan_limit_closed:
  "scan_limit parse now l b =
     (if limit_stale parse now l then b \<lparr>bs_stale := True\<rparr>
      else b \<lparr>bs_exhausted := bs_exhausted b \<or> limit_spent l,
              bs_unknown := bs_unknown b \<or> limit_scores l = [],
              bs_bucketScores := bs_bucketScores b @ limit_scores l\<rparr>)"
proof -
  define r where "r = individual_step parse now (rs_individual l)
    (window_step parse now (rs_secondary l) (window_step parse now (rs_primary l) ([], False)))"
  have stale: "snd r \<longleftrightarrow> limit_stale parse now l"
    by (auto simp: r_def window_step_simps(1) individual_step_simps(1) limit_stale_def limit_resets_def split: option.splits)
  have room: "fst r = limit_headroom l" if "\<not> snd r"
    using that by (simp add: r_def window_step_simps individual_step_simps limit_headroom_def)
  have scan: "scan_limit parse now l b =
     (let b1 = (if rs_reached l then b \<lparr>bs_exhausted := True\<rparr> else b) in
      if snd r then b \<lparr>bs_stale := True\<rparr>
      else if fst r = [] then
        (if rs_unlimited l then b1 \<lparr>bs_bucketScores := bs_bucketScores b1 @ [100]\<rparr> else b1 \<lparr>bs_unknown := True\<rparr>)
      else b1 \<lparr>bs_exhausted := bs_exhausted b1 \<or> math_min (fst r) \<le> 0,
               bs_bucketScores := bs_bucketScores b1 @ [math_min (fst r)]\<rparr>)"
    unfolding scan_limit_def r_def [symmetric] by (simp add: Let_def split_beta)
  show ?thesis
  proof (cases "limit_stale parse now l")
    case True
    then show ?thesis using stale by (simp add: scan Let_def)
  next
    case False
    then show ?thesis
      using stale room
      by (simp add: scan Let_def limit_spent_def limit_scores_def math_min_le_iff list_ex_iff)
  qed
qed

lemma fold_scan_limit:
  "fold (scan_limit parse now) limits b =
     \<lparr>bs_bucketScores = bs_bucketScores b @ concat (map limit_scores (filter (\<lambda>l. \<not> limit_stale parse now l) limits)),
      bs_stale = (bs_stale b \<or> list_ex (limit_stale parse now) limits),
      bs_exhausted = (bs_exhausted b \<or> list_ex (\<lambda>l. \<not> limit_stale parse now l \<and> limit_spent l) limits),
      bs_unknown = (bs_unknown b \<or> list_ex (\<lambda>l. \<not> limit_stale parse now l \<and> limit_scores l = []) limits)\<rparr>"
proof (induction limits arbitrary: b)
  case (Cons l limits)
  show ?case by (simp add: Cons.IH) (simp add: scan_limit_closed disj_ac)
qed simp

text \<open>A reading is fresh when it lies within the two minutes before now, or a small skew after.\<close>

definition fresh_reading :: "(string \<Rightarrow> js_number) \<Rightarrow> string \<Rightarrow> int \<Rightarrow> bool" where
  "fresh_reading parse updatedAt now \<longleftrightarrow>
     (case parse updatedAt of
        Fin observedAt \<Rightarrow> now - dispatchBudgetFreshnessMs \<le> observedAt \<and> observedAt \<le> now + maximumFutureClockSkewMs
      | _ \<Rightarrow> False)"

lemma scores_positive:
  assumes "\<not> limit_spent l" and "s \<in> set (limit_scores l)"
  shows "0 < s"
proof (cases "limit_headroom l = []")
  case False
  with assms have "s = math_min (limit_headroom l)" "\<not> math_min (limit_headroom l) \<le> 0"
    by (simp_all add: limit_scores_def limit_spent_def math_min_le_iff list_ex_iff)
  then show ?thesis by simp
qed (use assms in \<open>simp add: limit_scores_def split: if_splits\<close>)

lemma fresh_budget:
  assumes "fresh_reading parse updatedAt t" and "limits \<noteq> []"
  shows "dispatchBudget parse (UsageReady limits updatedAt) (Fin t) =
    (if list_ex (\<lambda>l. \<not> limit_stale parse t l \<and> limit_spent l) limits then Exhausted
     else if list_ex (limit_stale parse t) limits then Stale
     else if list_ex (\<lambda>l. limit_scores l = []) limits then Unknown
     else Known (math_min (concat (map limit_scores limits))))"
proof -
  let ?spent = "list_ex (\<lambda>l. \<not> limit_stale parse t l \<and> limit_spent l) limits"
  let ?stale = "list_ex (limit_stale parse t) limits" and ?bare = "list_ex (\<lambda>l. limit_scores l = []) limits"
  let ?scores = "concat (map limit_scores limits)"
  have fresh: "dispatchBudget parse (UsageReady limits updatedAt) (Fin t) =
      scan_verdict (fold (scan_limit parse t) limits empty_scan)"
    using assms by (auto simp: dispatchBudget_def fresh_reading_def split: js_number.splits)
  show ?thesis
  proof (cases "?spent \<or> ?stale")
    case True
    then show ?thesis by (auto simp: fresh fold_scan_limit empty_scan_def scan_verdict_def)
  next
    case False
    then have none: "filter (\<lambda>l. \<not> limit_stale parse t l) limits = limits"
      and whole: "list_ex (\<lambda>l. \<not> limit_stale parse t l \<and> limit_scores l = []) limits \<longleftrightarrow> ?bare"
      and unspent: "\<forall>l\<in>set limits. \<not> limit_spent l"
      by (auto simp: list_ex_iff filter_id_conv)
    have positive: "\<not> math_min ?scores \<le> 0" if "?scores \<noteq> []"
    proof -
      have "\<not> s \<le> 0" if "s \<in> set ?scores" for s
        using that unspent scores_positive by fastforce
      then show ?thesis using \<open>?scores \<noteq> []\<close> by (subst math_min_le_iff) auto
    qed
    have filled: "?scores \<noteq> []" if "\<not> ?bare"
      using that \<open>limits \<noteq> []\<close> by (cases limits) (auto simp: list_ex_iff)
    have "scan_verdict (fold (scan_limit parse t) limits empty_scan) =
        (if ?bare then Unknown else if ?scores = [] then Unknown
         else if math_min ?scores \<le> 0 then Exhausted else Known (math_min ?scores))"
      using False by (simp add: fold_scan_limit empty_scan_def scan_verdict_def none whole Let_def del: concat_eq_Nil_conv)
    with False positive filled show ?thesis by (simp add: fresh del: concat_eq_Nil_conv)
  qed
qed

text \<open>
  C22. The budget a dispatch may rely on. The budget of an account is known to be \<open>r\<close> exactly when
  the usage is a ready reading that is fresh at this instant, with at least one limit, none of its
  limits past a reset, none reached or with nothing left, each with a percentage or declared
  unlimited, and \<open>r\<close> is the least percentage any limit leaves. So a known budget is positive and no
  limit leaves less; nothing stale, unreadable or from the future ever counts as capacity.
\<close>

theorem known_budget_exact:
  "dispatchBudget parse usage now = Known r \<longleftrightarrow>
   (\<exists>t limits updatedAt. now = Fin t \<and> usage = UsageReady limits updatedAt \<and> limits \<noteq> [] \<and>
      fresh_reading parse updatedAt t \<and>
      list_all (\<lambda>l. \<not> limit_stale parse t l \<and> \<not> limit_spent l \<and> limit_scores l \<noteq> []) limits \<and>
      r = math_min (concat (map limit_scores limits)))"
proof -
  have fresh: "fresh_reading parse u t \<and> limits \<noteq> []"
    if "dispatchBudget parse (UsageReady limits u) (Fin t) = Known r" for limits u t
    using that by (auto simp: dispatchBudget_def fresh_reading_def split: js_number.splits if_splits)
  show ?thesis (is "_ \<longleftrightarrow> ?exact")
  proof
    assume known: "dispatchBudget parse usage now = Known r"
    then obtain t limits u where shape: "now = Fin t" "usage = UsageReady limits u"
      by (auto simp: dispatchBudget_def split: js_number.splits AccountUsageState.splits)
    with known fresh have "fresh_reading parse u t" "limits \<noteq> []" by blast+
    with known shape show ?exact
      by (auto simp: fresh_budget list_ex_iff list_all_iff split: if_splits)
  next
    assume ?exact
    then show "dispatchBudget parse usage now = Known r"
      by (elim exE conjE) (simp add: fresh_budget list_ex_iff list_all_iff)
  qed
qed

text \<open>
  C23. Exhaustion wins. On a fresh reading, one limit that is not past its reset and is reached, or
  leaves nothing, makes the whole account exhausted, whatever the other limits say, stale ones
  included; and it is the only way an account becomes exhausted.
\<close>

theorem exhaustion_is_authoritative:
  "dispatchBudget parse usage now = Exhausted \<longleftrightarrow>
   (\<exists>t limits updatedAt l. now = Fin t \<and> usage = UsageReady limits updatedAt \<and> l \<in> set limits \<and>
      fresh_reading parse updatedAt t \<and> \<not> limit_stale parse t l \<and> limit_spent l)"
proof -
  have fresh: "fresh_reading parse u t \<and> limits \<noteq> []"
    if "dispatchBudget parse (UsageReady limits u) (Fin t) = Exhausted" for limits u t
    using that by (auto simp: dispatchBudget_def fresh_reading_def split: js_number.splits if_splits)
  show ?thesis (is "_ \<longleftrightarrow> ?exact")
  proof
    assume out: "dispatchBudget parse usage now = Exhausted"
    then obtain t limits u where shape: "now = Fin t" "usage = UsageReady limits u"
      by (auto simp: dispatchBudget_def split: js_number.splits AccountUsageState.splits)
    with out fresh have "fresh_reading parse u t" "limits \<noteq> []" by blast+
    with out shape show ?exact
      by (auto simp: fresh_budget list_ex_iff split: if_splits)
  next
    assume ?exact
    then obtain t limits u l where l: "now = Fin t" "usage = UsageReady limits u" "l \<in> set limits"
      "fresh_reading parse u t" "\<not> limit_stale parse t l" "limit_spent l" by blast
    then have "limits \<noteq> []" by auto
    with l show "dispatchBudget parse usage now = Exhausted"
      by (auto simp: fresh_budget list_ex_iff)
  qed
qed

text \<open>
  Refresh deadlines do not overflow. After a refresh that ended at \<open>now\<close>, the next one is due at
  a later reading of the clock exactly when that reading is usable and either \<open>now\<close> was not (the
  clock has become valid again) or thirty seconds have passed and the deadline is still a safe
  integer; a deadline beyond the safe range is never due.
\<close>

theorem refresh_deadline_exact:
  "dispatchBudgetRefreshIsDue later (dispatchBudgetRefreshRetryAt now) \<longleftrightarrow>
   usable_instant later \<and>
   (if usable_instant now
    then \<exists>t u. now = Fin t \<and> later = Fin u \<and> t + dispatchBudgetRefreshRetryMs \<le> u \<and>
           t + dispatchBudgetRefreshRetryMs \<le> MAX_SAFE_INTEGER
    else True)"
  by (cases now; cases later)
    (auto simp: dispatchBudgetRefreshIsDue_def dispatchBudgetRefreshRetryAt_def usable_instant_def
      guard_defs dispatchBudgetRefreshRetryMs_def split: if_splits)

subsection \<open>The percentage shown for an account\<close>

text \<open>
  \<open>accountUsageProjectionDeadline\<close> and \<open>accountUsageRemainingPercent\<close> of
  \<open>accounts/account-service.ts\<close>: the percentage a renderer may keep, and until when.
\<close>

fun push_deadlines :: "(string \<Rightarrow> js_number) \<Rightarrow> string list \<Rightarrow> int list \<Rightarrow> int list option" where
  "push_deadlines parse [] deadlines = Some deadlines"
| "push_deadlines parse (resetsAt # rest) deadlines =
     (case parse resetsAt of Fin reset \<Rightarrow> push_deadlines parse rest (deadlines @ [reset]) | _ \<Rightarrow> None)"

fun limit_deadlines :: "(string \<Rightarrow> js_number) \<Rightarrow> RateLimitSummary list \<Rightarrow> int list \<Rightarrow> int list option" where
  "limit_deadlines parse [] deadlines = Some deadlines"
| "limit_deadlines parse (limit # limits) deadlines =
     (case push_deadlines parse (limit_resets limit) deadlines of
        None \<Rightarrow> None
      | Some more_deadlines \<Rightarrow> limit_deadlines parse limits more_deadlines)"

definition accountUsageProjectionDeadline :: "(string \<Rightarrow> js_number) \<Rightarrow> AccountUsageState \<Rightarrow> int option" where
  "accountUsageProjectionDeadline parse usage =
     (case usage of
        UsageReady limits updatedAt \<Rightarrow>
          (case parse updatedAt of
             Fin observedAt \<Rightarrow>
               map_option math_min (limit_deadlines parse limits [observedAt + dispatchBudgetFreshnessMs])
           | _ \<Rightarrow> None)
      | _ \<Rightarrow> None)"

definition accountUsageRemainingPercent :: "(string \<Rightarrow> js_number) \<Rightarrow> AccountUsageState \<Rightarrow> js_number \<Rightarrow> int option" where
  "accountUsageRemainingPercent parse usage now =
     (case (accountUsageProjectionDeadline parse usage, now) of
        (Some deadline, Fin t) \<Rightarrow>
          (if deadline \<le> t then None
           else case dispatchBudget parse usage now of
             Known remainingPercent \<Rightarrow> Some remainingPercent
           | Exhausted \<Rightarrow> Some 0
           | _ \<Rightarrow> None)
      | _ \<Rightarrow> None)"

lemma push_deadlines_some:
  "push_deadlines parse resets deadlines = Some ds \<Longrightarrow>
   set deadlines \<subseteq> set ds \<and> (\<forall>r\<in>set resets. \<exists>i\<in>set ds. parse r = Fin i)"
  by (induction resets arbitrary: deadlines) (fastforce split: js_number.splits)+

lemma limit_deadlines_some:
  "limit_deadlines parse limits deadlines = Some ds \<Longrightarrow>
   set deadlines \<subseteq> set ds \<and> (\<forall>l\<in>set limits. \<forall>r\<in>set (limit_resets l). \<exists>i\<in>set ds. parse r = Fin i)"
proof (induction limits arbitrary: deadlines)
  case (Cons l limits)
  then obtain es where es: "push_deadlines parse (limit_resets l) deadlines = Some es"
    and rest: "limit_deadlines parse limits es = Some ds" by (auto split: option.splits)
  from Cons.IH [OF rest] push_deadlines_some [OF es] show ?case by fastforce
qed simp

lemma before_deadline:
  assumes "accountUsageProjectionDeadline parse (UsageReady limits updatedAt) = Some deadline" and "t < deadline"
  obtains observedAt where "parse updatedAt = Fin observedAt" and "t - observedAt < dispatchBudgetFreshnessMs"
    and "\<forall>l\<in>set limits. \<not> limit_stale parse t l"
proof -
  from assms(1) obtain o1 ds where observed: "parse updatedAt = Fin o1"
    and ds: "limit_deadlines parse limits [o1 + dispatchBudgetFreshnessMs] = Some ds" "deadline = math_min ds"
    by (auto simp: accountUsageProjectionDeadline_def split: js_number.splits)
  note inside = limit_deadlines_some [OF ds(1)]
  then have "ds \<noteq> []" by auto
  with ds(2) assms(2) have later: "\<forall>i\<in>set ds. t < i"
    by (metis math_min_le_iff not_le)
  have "\<not> limit_stale parse t l" if "l \<in> set limits" for l
    using inside later that by (fastforce simp: limit_stale_def list_ex_iff reset_passed_def)
  moreover from inside later have "t - o1 < dispatchBudgetFreshnessMs" by auto
  ultimately show thesis using that observed by blast
qed

text \<open>
  A shown percentage does not change behind the renderer's back. For every usage there is one
  answer \<open>p\<close> such that, at every instant, the remaining percentage is \<open>p\<close> while the reading is not
  from the future (beyond the tolerated skew) and the projection deadline has not come, and nothing
  otherwise: between two readings the answer changes only at the deadline, so a renderer that waits
  for the deadline never shows a wrong percentage.
\<close>

theorem projection_constant_until_deadline:
  "\<exists>p. \<forall>t. accountUsageRemainingPercent parse usage (Fin t) =
     (case (accountUsageProjectionDeadline parse usage, usage) of
        (Some deadline, UsageReady limits updatedAt) \<Rightarrow>
          (case parse updatedAt of
             Fin observedAt \<Rightarrow> (if observedAt \<le> t + maximumFutureClockSkewMs \<and> t < deadline then p else None)
           | _ \<Rightarrow> None)
      | _ \<Rightarrow> None)"
proof (cases usage)
  case (UsageReady limits updatedAt)
  define p where "p = (if limits = [] then None
     else if list_ex limit_spent limits then Some 0
     else if list_ex (\<lambda>l. limit_scores l = []) limits then None
     else Some (math_min (concat (map limit_scores limits))))"
  have steady: "(case dispatchBudget parse usage (Fin t) of Known r \<Rightarrow> Some r | Exhausted \<Rightarrow> Some 0 | _ \<Rightarrow> None) =
      (if o1 \<le> t + maximumFutureClockSkewMs then p else None)"
    if "accountUsageProjectionDeadline parse usage = Some d" "t < d" "parse updatedAt = Fin o1" for d t o1
  proof -
    from that(1,2) [unfolded UsageReady] obtain o2 where o2: "parse updatedAt = Fin o2"
      "t - o2 < dispatchBudgetFreshnessMs" and live: "\<forall>l\<in>set limits. \<not> limit_stale parse t l"
      by (rule before_deadline)
    with that(3) have recent: "t - o1 < dispatchBudgetFreshnessMs" by simp
    show ?thesis
    proof (cases "o1 \<le> t + maximumFutureClockSkewMs \<and> limits \<noteq> []")
      case True
      with recent that(3) have "fresh_reading parse updatedAt t" by (simp add: fresh_reading_def)
      moreover have "list_ex (\<lambda>l. \<not> limit_stale parse t l \<and> limit_spent l) limits \<longleftrightarrow> list_ex limit_spent limits"
        and "\<not> list_ex (limit_stale parse t) limits"
        using live by (auto simp: list_ex_iff)
      ultimately show ?thesis using True by (simp add: UsageReady fresh_budget p_def)
    next
      case False
      with recent that(3) show ?thesis by (auto simp: UsageReady dispatchBudget_def p_def)
    qed
  qed
  show ?thesis
  proof (rule exI [of _ p], rule allI)
    fix t
    show "accountUsageRemainingPercent parse usage (Fin t) =
      (case (accountUsageProjectionDeadline parse usage, usage) of
        (Some deadline, UsageReady limits updatedAt) \<Rightarrow>
          (case parse updatedAt of
             Fin observedAt \<Rightarrow> (if observedAt \<le> t + maximumFutureClockSkewMs \<and> t < deadline then p else None)
           | _ \<Rightarrow> None)
      | _ \<Rightarrow> None)"
    proof (cases "accountUsageProjectionDeadline parse usage")
      case (Some d)
      then obtain o1 where "parse updatedAt = Fin o1"
        by (auto simp: UsageReady accountUsageProjectionDeadline_def split: js_number.splits)
      with steady [OF Some _ this, of t] Some show ?thesis
        by (simp add: accountUsageRemainingPercent_def UsageReady)
    qed (simp add: accountUsageRemainingPercent_def)
  qed
qed (simp_all add: accountUsageRemainingPercent_def accountUsageProjectionDeadline_def)

end
