(* ===== verification/AccountReservations.thy ===== *)
theory AccountReservations
  imports DispatchBudget "HOL-Library.AList"
begin

text \<open>
  \<open>apps/desktop/runtime/src/dispatch/account-reservations.ts\<close> (the process-wide arbiter of account
  lanes) with \<open>compareDispatchAccounts\<close> of \<open>dispatch/local-capabilities.ts\<close>.

  A \<open>Map\<close> is an association list in insertion order. A call that throws leaves \<open>Inl\<close> its error. A
  method that awaits is one definition per stretch between two awaits: \<open>acquire\<close> reads the accounts
  (\<open>currentAvailableAccounts\<close>), then, after whatever ran in between, takes a lane
  (\<open>acquire_lane\<close>). The accounts the port returns and every reading of the clock are arguments.
\<close>

subsection \<open>Maps in insertion order\<close>

fun map_set :: "'k \<Rightarrow> 'v \<Rightarrow> ('k \<times> 'v) list \<Rightarrow> ('k \<times> 'v) list" where
  "map_set k v [] = [(k, v)]"
| "map_set k v ((k', v') # entries) = (if k' = k then (k, v) # entries else (k', v') # map_set k v entries)"

definition map_delete :: "'k \<Rightarrow> ('k \<times> 'v) list \<Rightarrow> ('k \<times> 'v) list" where
  "map_delete k entries = filter (\<lambda>e. fst e \<noteq> k) entries"

lemma map_of_map_set [simp]: "map_of (map_set k v entries) = (map_of entries)(k \<mapsto> v)"
  by (induction entries) (auto simp: fun_eq_iff)

lemma map_of_map_delete: "map_of (map_delete k entries) = (map_of entries)(k := None)"
  by (induction entries) (auto simp: map_delete_def fun_eq_iff)

lemma map_set_fresh: "k \<notin> fst ` set entries \<Longrightarrow> map_set k v entries = entries @ [(k, v)]"
  by (induction entries) auto

lemma map_set_update:
  "distinct (map fst entries) \<Longrightarrow> k \<in> fst ` set entries \<Longrightarrow>
   map_set k v entries = map (\<lambda>e. if fst e = k then (k, v) else e) entries"
proof (induction entries)
  case (Cons e entries)
  show ?case
  proof (cases "fst e = k")
    case True
    with Cons.prems(1) have "map (\<lambda>e. if fst e = k then (k, v) else e) entries = entries"
      by (induction entries) auto
    with True show ?thesis by (cases e) simp
  next
    case False
    with Cons show ?thesis by (cases e) auto
  qed
qed simp

subsection \<open>The order of accounts\<close>

record DispatchAccountSummary =
  ac_id :: string
  ac_selected :: bool
  ac_usage :: AccountUsageState

fun budgetOrder :: "DispatchBudget \<Rightarrow> int" where
  "budgetOrder (Known _) = 0"
| "budgetOrder Unknown = 1"
| "budgetOrder Stale = 2"
| "budgetOrder Exhausted = 3"

text \<open>\<open>lc\<close> is \<open>localeCompare\<close>.\<close>

definition compareDispatchAccounts ::
  "(string \<Rightarrow> string \<Rightarrow> int) \<Rightarrow> (string \<Rightarrow> js_number) \<Rightarrow> (string \<times> int) list \<Rightarrow> js_number \<Rightarrow>
   DispatchAccountSummary \<Rightarrow> DispatchAccountSummary \<Rightarrow> int" where
  "compareDispatchAccounts lc parse lastUsed now left right =
     (let leftBudget = dispatchBudget parse (ac_usage left) now;
          rightBudget = dispatchBudget parse (ac_usage right) now;
          kindDifference = budgetOrder leftBudget - budgetOrder rightBudget;
          remainingDifference =
            (case (leftBudget, rightBudget) of (Known l, Known r) \<Rightarrow> r - l | _ \<Rightarrow> 0);
          used = (\<lambda>account. case map_of lastUsed (ac_id account) of None \<Rightarrow> 0 | Some t \<Rightarrow> t);
          lastUsedDifference = used left - used right in
      if kindDifference \<noteq> 0 then kindDifference
      else if remainingDifference \<noteq> 0 then remainingDifference
      else if ac_selected left \<noteq> ac_selected right then (if ac_selected left then -1 else 1)
      else if lastUsedDifference \<noteq> 0 then lastUsedDifference
      else lc (ac_id left) (ac_id right))"

subsection \<open>The arbiter\<close>

record DispatchAccountReservation =
  dr_accountProfileId :: string
  dr_reservationId :: string

record Reservation =
  rv_accountProfileId :: string
  rv_runId :: "string option"

datatype ArbiterError =
    RecoveredInconsistent
  | ReservationBelongsToAnotherRun
  | RunOwnsAnotherReservation
  | ReservationNotOwned

text \<open>The two fields of the budget refresh: whether a task runs, and when the next may start.\<close>

record BudgetRefresh =
  br_running :: bool
  br_retryAt :: "js_number option"

record Arbiter =
  ar_lastUsed :: "(string \<times> int) list"
  ar_reservations :: "(string \<times> Reservation) list"
  ar_refresh :: BudgetRefresh
  ar_nextReservation :: nat

definition recovered_id :: "string \<Rightarrow> string" where
  "recovered_id runId = ''recovered:'' @ runId"

definition reservation_id :: "nat \<Rightarrow> string" where
  "reservation_id n = ''account_reservation_'' @ pad_start 8 CHR ''0'' (decimal n)"

text \<open>The constructor: one pass over the recovered pairs with the accounts and runs seen.\<close>

fun recover ::
  "(string \<times> string) list \<Rightarrow> string list \<Rightarrow> string list \<Rightarrow> (string \<times> Reservation) list \<Rightarrow>
   ArbiterError + (string \<times> Reservation) list" where
  "recover [] accounts runs reservations = Inr reservations"
| "recover ((accountProfileId, runId) # rest) accounts runs reservations =
     (if accountProfileId \<in> set accounts \<or> runId \<in> set runs then Inl RecoveredInconsistent
      else recover rest (accountProfileId # accounts) (runId # runs)
             (map_set (recovered_id runId)
               \<lparr>rv_accountProfileId = accountProfileId, rv_runId = Some runId\<rparr> reservations))"

definition no_refresh :: BudgetRefresh where
  "no_refresh = \<lparr>br_running = False, br_retryAt = None\<rparr>"

definition new_arbiter :: "(string \<times> string) list \<Rightarrow> ArbiterError + Arbiter" where
  "new_arbiter recovered =
     (case recover recovered [] [] [] of
        Inl e \<Rightarrow> Inl e
      | Inr reservations \<Rightarrow>
          Inr \<lparr>ar_lastUsed = [], ar_reservations = reservations, ar_refresh = no_refresh,
               ar_nextReservation = 1\<rparr>)"

text \<open>\<open>refreshable\<close>: whether the port has a \<open>refreshDispatchAccounts\<close>.\<close>

definition scheduleBudgetRefresh ::
  "(string \<Rightarrow> js_number) \<Rightarrow> bool \<Rightarrow> DispatchAccountSummary list \<Rightarrow> js_number \<Rightarrow> BudgetRefresh \<Rightarrow> BudgetRefresh" where
  "scheduleBudgetRefresh parse refreshable accounts now b =
     (if \<not> refreshable then b
      else if \<not> list_ex (\<lambda>account. dispatchBudgetNeedsRefresh parse (ac_usage account) now) accounts
      then b \<lparr>br_retryAt := None\<rparr>
      else if br_running b \<or>
        (case br_retryAt b of None \<Rightarrow> False | Some retryAt \<Rightarrow> \<not> dispatchBudgetRefreshIsDue now retryAt)
      then b
      else b \<lparr>br_running := True\<rparr>)"

text \<open>The two outcomes of the refresh task, and its \<open>finally\<close>.\<close>

definition refresh_completed ::
  "(string \<Rightarrow> js_number) \<Rightarrow> DispatchAccountSummary list \<Rightarrow> js_number \<Rightarrow> BudgetRefresh \<Rightarrow> BudgetRefresh" where
  "refresh_completed parse refreshed completedAt b =
     b \<lparr>br_retryAt :=
          (if list_ex (\<lambda>account. dispatchBudgetNeedsRefresh parse (ac_usage account) completedAt) refreshed
           then Some (dispatchBudgetRefreshRetryAt completedAt) else None)\<rparr>"

definition refresh_failed :: "js_number \<Rightarrow> BudgetRefresh \<Rightarrow> BudgetRefresh" where
  "refresh_failed now b = b \<lparr>br_retryAt := Some (dispatchBudgetRefreshRetryAt now)\<rparr>"

definition refresh_finally :: "BudgetRefresh \<Rightarrow> BudgetRefresh" where
  "refresh_finally b = b \<lparr>br_running := False\<rparr>"

definition known_accounts ::
  "(string \<Rightarrow> js_number) \<Rightarrow> DispatchAccountSummary list \<Rightarrow> js_number \<Rightarrow> DispatchAccountSummary list" where
  "known_accounts parse accounts now =
     filter (\<lambda>account. case dispatchBudget parse (ac_usage account) now of Known _ \<Rightarrow> True | _ \<Rightarrow> False) accounts"

definition currentAvailableAccounts ::
  "(string \<Rightarrow> js_number) \<Rightarrow> bool \<Rightarrow> DispatchAccountSummary list \<Rightarrow> js_number \<Rightarrow> Arbiter \<Rightarrow>
   DispatchAccountSummary list \<times> Arbiter" where
  "currentAvailableAccounts parse refreshable accounts now s =
     (known_accounts parse accounts now,
      s \<lparr>ar_refresh := scheduleBudgetRefresh parse refreshable accounts now (ar_refresh s)\<rparr>)"

definition reserved_accounts :: "(string \<times> Reservation) list \<Rightarrow> string list" where
  "reserved_accounts reservations = map (\<lambda>e. rv_accountProfileId (snd e)) reservations"

definition acquire_lane ::
  "(string \<Rightarrow> string \<Rightarrow> int) \<Rightarrow> (string \<Rightarrow> js_number) \<Rightarrow> DispatchAccountSummary list \<Rightarrow> js_number \<Rightarrow> Arbiter \<Rightarrow>
   DispatchAccountReservation option \<times> Arbiter" where
  "acquire_lane lc parse available now s =
     (case js_sort (compareDispatchAccounts lc parse (ar_lastUsed s) now)
             (filter (\<lambda>account. ac_id account \<notin> set (reserved_accounts (ar_reservations s))) available) of
        [] \<Rightarrow> (None, s)
      | account # _ \<Rightarrow>
          (let reservationId = reservation_id (ar_nextReservation s) in
           (Some \<lparr>dr_accountProfileId = ac_id account, dr_reservationId = reservationId\<rparr>,
            s \<lparr>ar_nextReservation := ar_nextReservation s + 1,
               ar_reservations := map_set reservationId
                 \<lparr>rv_accountProfileId = ac_id account, rv_runId = None\<rparr> (ar_reservations s)\<rparr>)))"

definition require_reservation :: "DispatchAccountReservation \<Rightarrow> Arbiter \<Rightarrow> ArbiterError + Reservation" where
  "require_reservation reservation s =
     (case map_of (ar_reservations s) (dr_reservationId reservation) of
        None \<Rightarrow> Inl ReservationNotOwned
      | Some current \<Rightarrow>
          (if rv_accountProfileId current \<noteq> dr_accountProfileId reservation then Inl ReservationNotOwned
           else Inr current))"

definition bind :: "DispatchAccountReservation \<Rightarrow> string \<Rightarrow> Arbiter \<Rightarrow> ArbiterError + Arbiter" where
  "bind reservation runId s =
     (case require_reservation reservation s of
        Inl e \<Rightarrow> Inl e
      | Inr current \<Rightarrow>
          (if rv_runId current \<noteq> None \<and> rv_runId current \<noteq> Some runId then Inl ReservationBelongsToAnotherRun
           else if list_ex (\<lambda>(key, candidate). key \<noteq> dr_reservationId reservation \<and> rv_runId candidate = Some runId)
                     (ar_reservations s)
           then Inl RunOwnsAnotherReservation
           else Inr (s \<lparr>ar_reservations :=
             map_set (dr_reservationId reservation) (current \<lparr>rv_runId := Some runId\<rparr>) (ar_reservations s)\<rparr>)))"

definition release :: "DispatchAccountReservation \<Rightarrow> int \<Rightarrow> Arbiter \<Rightarrow> ArbiterError + Arbiter" where
  "release reservation now s =
     (case require_reservation reservation s of
        Inl e \<Rightarrow> Inl e
      | Inr _ \<Rightarrow>
          Inr (s \<lparr>ar_reservations := map_delete (dr_reservationId reservation) (ar_reservations s),
                  ar_lastUsed := map_set (dr_accountProfileId reservation) now (ar_lastUsed s)\<rparr>))"

definition releaseRun :: "string \<Rightarrow> int \<Rightarrow> Arbiter \<Rightarrow> DispatchAccountReservation option \<times> Arbiter" where
  "releaseRun runId now s =
     (case List.find (\<lambda>(_, reservation). rv_runId reservation = Some runId) (ar_reservations s) of
        None \<Rightarrow> (None, s)
      | Some (reservationId, reservation) \<Rightarrow>
          (Some \<lparr>dr_accountProfileId = rv_accountProfileId reservation, dr_reservationId = reservationId\<rparr>,
           s \<lparr>ar_reservations := map_delete reservationId (ar_reservations s),
              ar_lastUsed := map_set (rv_accountProfileId reservation) now (ar_lastUsed s)\<rparr>))"

definition owns :: "string \<Rightarrow> string \<Rightarrow> Arbiter \<Rightarrow> bool" where
  "owns runId accountProfileId s \<longleftrightarrow>
     list_ex (\<lambda>(_, reservation). rv_runId reservation = Some runId \<and>
       rv_accountProfileId reservation = accountProfileId) (ar_reservations s)"

datatype ReservationState = AS_no_account | AS_capacity_full | AS_ready

record DispatchAccountReservationSnapshot =
  sn_activeRuns :: int
  sn_availableCapacity :: int
  sn_capacity :: int
  sn_retainedRunIds :: "string list"
  sn_state :: ReservationState

definition bound_runs :: "(string \<times> Reservation) list \<Rightarrow> string list" where
  "bound_runs reservations =
     concat (map (\<lambda>e. case rv_runId (snd e) of None \<Rightarrow> [] | Some runId \<Rightarrow> [runId]) reservations)"

definition currentSnapshot ::
  "(string \<Rightarrow> js_number) \<Rightarrow> bool \<Rightarrow> DispatchAccountSummary list \<Rightarrow> js_number \<Rightarrow> Arbiter \<Rightarrow>
   DispatchAccountReservationSnapshot \<times> Arbiter" where
  "currentSnapshot parse refreshable accounts now s =
     (let (available, s1) = currentAvailableAccounts parse refreshable accounts now s;
          accountIds = js_set (map ac_id available @ reserved_accounts (ar_reservations s1));
          capacity = min 32 (int (length accountIds));
          activeRuns = int (length (ar_reservations s1));
          availableCapacity = max 0 (capacity - activeRuns) in
      (\<lparr>sn_activeRuns = activeRuns, sn_availableCapacity = availableCapacity, sn_capacity = capacity,
        sn_retainedRunIds = js_sort code_unit_compare (bound_runs (ar_reservations s1)),
        sn_state = (if available = [] then AS_no_account
                    else if availableCapacity = 0 then AS_capacity_full else AS_ready)\<rparr>, s1))"

subsection \<open>Commands\<close>

text \<open>
  Everything that can happen to the shared arbiter, one entry for each stretch between awaits. A
  call that throws leaves the arbiter as it was. \<open>AcquireLane\<close> takes the accounts an earlier
  \<open>Observe\<close> returned, so any order of the halves of concurrent calls is a list of commands.
\<close>

datatype ArbiterCommand =
    Observe "DispatchAccountSummary list" js_number
  | AcquireLane "DispatchAccountSummary list" js_number
  | Bind DispatchAccountReservation string
  | Release DispatchAccountReservation int
  | ReleaseRun string int
  | RefreshCompleted "DispatchAccountSummary list" js_number
  | RefreshFailed js_number
  | RefreshFinally

definition kept :: "'s \<Rightarrow> 'e + 's \<Rightarrow> 's" where
  "kept s outcome = (case outcome of Inl _ \<Rightarrow> s | Inr t \<Rightarrow> t)"

fun arbiter_exec ::
  "(string \<Rightarrow> string \<Rightarrow> int) \<Rightarrow> (string \<Rightarrow> js_number) \<Rightarrow> bool \<Rightarrow> ArbiterCommand \<Rightarrow> Arbiter \<Rightarrow> Arbiter" where
  "arbiter_exec lc parse refreshable (Observe accounts now) s =
     snd (currentAvailableAccounts parse refreshable accounts now s)"
| "arbiter_exec lc parse refreshable (AcquireLane available now) s = snd (acquire_lane lc parse available now s)"
| "arbiter_exec lc parse refreshable (Bind reservation runId) s = kept s (bind reservation runId s)"
| "arbiter_exec lc parse refreshable (Release reservation now) s = kept s (release reservation now s)"
| "arbiter_exec lc parse refreshable (ReleaseRun runId now) s = snd (releaseRun runId now s)"
| "arbiter_exec lc parse refreshable (RefreshCompleted refreshed now) s =
     s \<lparr>ar_refresh := refresh_completed parse refreshed now (ar_refresh s)\<rparr>"
| "arbiter_exec lc parse refreshable (RefreshFailed now) s = s \<lparr>ar_refresh := refresh_failed now (ar_refresh s)\<rparr>"
| "arbiter_exec lc parse refreshable RefreshFinally s = s \<lparr>ar_refresh := refresh_finally (ar_refresh s)\<rparr>"

subsection \<open>Lanes\<close>

text \<open>
  The specification: an account is a lane, free or held, and a held lane carries at most one run.
  A lane that is taken was free, a run enters a lane only if no other lane carries it, and any held
  lane may be freed.
\<close>

type_synonym lanes = "string \<rightharpoonup> string option"

inductive lane_step :: "lanes \<Rightarrow> lanes \<Rightarrow> bool" where
  lane_idle: "lane_step L L"
| lane_take: "L a = None \<Longrightarrow> lane_step L (L(a \<mapsto> None))"
| lane_enter: "L a = Some r \<Longrightarrow> r = None \<or> r = Some runId \<Longrightarrow> (\<And>b. b \<noteq> a \<Longrightarrow> L b \<noteq> Some (Some runId)) \<Longrightarrow>
    lane_step L (L(a \<mapsto> Some runId))"
| lane_free: "L a = Some r \<Longrightarrow> lane_step L (L(a := None))"

definition lane_of :: "Arbiter \<Rightarrow> lanes" where
  "lane_of s = map_of (map (\<lambda>e. (rv_accountProfileId (snd e), rv_runId (snd e))) (ar_reservations s))"

text \<open>The arbiter's own invariant, over its map of reservations.\<close>

definition issued :: "nat \<Rightarrow> string \<Rightarrow> bool" where
  "issued next key \<longleftrightarrow> (\<exists>n<next. key = reservation_id n) \<or> (\<exists>runId. key = recovered_id runId)"

definition arbiter_ok :: "Arbiter \<Rightarrow> bool" where
  "arbiter_ok s \<longleftrightarrow> distinct (map fst (ar_reservations s)) \<and>
     distinct (reserved_accounts (ar_reservations s)) \<and> distinct (bound_runs (ar_reservations s)) \<and>
     (\<forall>key\<in>fst ` set (ar_reservations s). issued (ar_nextReservation s) key)"

lemma reservation_id_inject: "reservation_id m = reservation_id n \<longleftrightarrow> m = n"
proof
  assume "reservation_id m = reservation_id n"
  then have "pad_start 8 CHR ''0'' (decimal m) = pad_start 8 CHR ''0'' (decimal n)"
    by (simp add: reservation_id_def)
  then have "read_digits (pad_start 8 CHR ''0'' (decimal m)) = read_digits (pad_start 8 CHR ''0'' (decimal n))" by simp
  then show "m = n" by simp
qed simp

lemma reservation_not_recovered: "reservation_id n \<noteq> recovered_id runId"
  by (simp add: reservation_id_def recovered_id_def)

lemma fresh_reservation_id: "issued next key \<Longrightarrow> key \<noteq> reservation_id next"
  by (auto simp: issued_def reservation_id_inject reservation_not_recovered reservation_not_recovered [symmetric])

lemma issued_mono: "issued m key \<Longrightarrow> m \<le> n \<Longrightarrow> issued n key"
  by (auto simp: issued_def intro: less_le_trans)

lemma bound_runs_simps [simp]:
  "bound_runs [] = []"
  "bound_runs (e # es) = (case rv_runId (snd e) of None \<Rightarrow> [] | Some r \<Rightarrow> [r]) @ bound_runs es"
  "bound_runs (es @ fs) = bound_runs es @ bound_runs fs"
  by (simp_all add: bound_runs_def)

lemma reserved_accounts_simps [simp]:
  "reserved_accounts [] = []"
  "reserved_accounts (e # es) = rv_accountProfileId (snd e) # reserved_accounts es"
  "reserved_accounts (es @ fs) = reserved_accounts es @ reserved_accounts fs"
  by (simp_all add: reserved_accounts_def)

lemma bound_runs_member: "runId \<in> set (bound_runs es) \<longleftrightarrow> (\<exists>e\<in>set es. rv_runId (snd e) = Some runId)"
  by (force simp: bound_runs_def split: option.splits)

lemma reserved_accounts_member: "a \<in> set (reserved_accounts es) \<longleftrightarrow> (\<exists>e\<in>set es. rv_accountProfileId (snd e) = a)"
  by (auto simp: reserved_accounts_def)

lemma entry_split:
  assumes "distinct (map fst entries)" and "map_of entries k = Some v"
  obtains xs ys where "entries = xs @ (k, v) # ys" and "k \<notin> fst ` set xs" and "k \<notin> fst ` set ys"
proof -
  from map_of_SomeD [OF assms(2)] obtain xs ys where "entries = xs @ (k, v) # ys"
    by (meson split_list)
  with assms(1) show thesis by (intro that) auto
qed

lemma map_set_split: "k \<notin> fst ` set xs \<Longrightarrow> map_set k w (xs @ (k, v) # ys) = xs @ (k, w) # ys"
  by (induction xs) auto

lemma map_delete_split:
  "k \<notin> fst ` set xs \<Longrightarrow> k \<notin> fst ` set ys \<Longrightarrow> map_delete k (xs @ (k, v) # ys) = xs @ ys"
proof -
  assume "k \<notin> fst ` set xs" and "k \<notin> fst ` set ys"
  then have "filter (\<lambda>e. fst e \<noteq> k) xs = xs" and "filter (\<lambda>e. fst e \<noteq> k) ys = ys"
    by (auto simp: filter_id_conv)
  then show ?thesis by (simp add: map_delete_def)
qed

text \<open>What an operation may do to the reservations.\<close>

inductive entries_step :: "nat \<Rightarrow> (string \<times> Reservation) list \<Rightarrow> nat \<Rightarrow> (string \<times> Reservation) list \<Rightarrow> bool" where
  entries_idle: "entries_step n es n es"
| entries_take: "a \<notin> set (reserved_accounts es) \<Longrightarrow>
    entries_step n es (n + 1) (es @ [(reservation_id n, \<lparr>rv_accountProfileId = a, rv_runId = None\<rparr>)])"
| entries_enter: "rv_runId cur = None \<or> rv_runId cur = Some runId \<Longrightarrow>
    runId \<notin> set (bound_runs xs) \<Longrightarrow> runId \<notin> set (bound_runs ys) \<Longrightarrow>
    entries_step n (xs @ (k, cur) # ys) n (xs @ (k, cur \<lparr>rv_runId := Some runId\<rparr>) # ys)"
| entries_free: "entries_step n (xs @ (k, cur) # ys) n (xs @ ys)"

lemma map_of_replace: "a \<notin> fst ` set xs \<Longrightarrow> map_of (xs @ (a, w) # ys) = (map_of (xs @ (a, v) # ys))(a \<mapsto> w)"
  by (induction xs) (auto simp: fun_eq_iff)

lemma map_of_at: "a \<notin> fst ` set xs \<Longrightarrow> map_of (xs @ (a, v) # ys) a = Some v"
  by (induction xs) auto

lemma map_of_remove:
  "a \<notin> fst ` set xs \<Longrightarrow> a \<notin> fst ` set ys \<Longrightarrow> map_of (xs @ ys) = (map_of (xs @ (a, v) # ys))(a := None)"
proof (induction xs)
  case Nil
  then have "map_of ys a = None" by (simp add: map_of_eq_None_iff)
  then show ?case by (auto simp: fun_eq_iff)
qed (auto simp: fun_eq_iff)

abbreviation entry_lane :: "string \<times> Reservation \<Rightarrow> string \<times> string option" where
  "entry_lane e \<equiv> (rv_accountProfileId (snd e), rv_runId (snd e))"

lemma lane_names: "fst ` set (map entry_lane es) = set (reserved_accounts es)"
  by (force simp: reserved_accounts_def)

lemma entries_step_ok:
  assumes "entries_step n es n' es'"
    and "distinct (map fst es)" "distinct (reserved_accounts es)" "distinct (bound_runs es)"
    and "\<forall>key\<in>fst ` set es. issued n key"
  shows "distinct (map fst es') \<and> distinct (reserved_accounts es') \<and> distinct (bound_runs es') \<and>
    (\<forall>key\<in>fst ` set es'. issued n' key)"
  using assms
proof cases
  case (entries_take a)
  have "reservation_id n \<notin> fst ` set es" using assms(5) fresh_reservation_id by blast
  moreover have "issued (Suc n) key" if "key \<in> fst ` set es" for key
    using bspec [OF assms(5) that] by (rule issued_mono) simp
  moreover have "issued (Suc n) (reservation_id n)" by (auto simp: issued_def)
  ultimately show ?thesis using entries_take assms by auto
qed (auto split: option.splits)

lemma lanes_append:
  assumes "a \<notin> set (reserved_accounts es)"
  shows "map_of (map entry_lane (es @ [(k, \<lparr>rv_accountProfileId = a, rv_runId = None\<rparr>)])) = (map_of (map entry_lane es))(a \<mapsto> None)"
proof -
  from assms have "map_of (map entry_lane es) a = None" by (simp add: map_of_eq_None_iff lane_names del: set_map)
  then show ?thesis by (auto simp: map_add_def fun_eq_iff split: option.splits)
qed

lemma entries_step_lanes:
  assumes "entries_step n es n' es'" and "distinct (reserved_accounts es)"
  shows "lane_step (map_of (map entry_lane es)) (map_of (map entry_lane es'))"
  using assms(1)
proof cases
  case entries_idle
  then show ?thesis by (simp add: lane_idle)
next
  case (entries_take a)
  then have "map_of (map entry_lane es) a = None" by (simp add: map_of_eq_None_iff lane_names del: set_map)
  moreover have "map_of (map entry_lane es') = (map_of (map entry_lane es))(a \<mapsto> None)"
    unfolding entries_take(2) using entries_take(3) by (rule lanes_append)
  ultimately show ?thesis by (simp add: lane_take)
next
  case (entries_enter cur runId xs ys k)
  let ?a = "rv_accountProfileId cur"
  from assms(2) entries_enter(1) have names: "?a \<notin> fst ` set (map entry_lane xs)" "?a \<notin> fst ` set (map entry_lane ys)"
    by (simp_all add: lane_names del: set_map)
  have new: "map_of (map entry_lane es') = (map_of (map entry_lane es))(?a \<mapsto> Some runId)"
    using map_of_replace [OF names(1), of "Some runId" "map entry_lane ys" "rv_runId cur"]
    by (simp add: entries_enter(1,3))
  have old: "map_of (map entry_lane es) ?a = Some (rv_runId cur)"
    using map_of_at [OF names(1)] by (simp add: entries_enter(1))
  have "map_of (map entry_lane es) b \<noteq> Some (Some runId)" if "b \<noteq> ?a" for b
  proof
    assume "map_of (map entry_lane es) b = Some (Some runId)"
    then have "(b, Some runId) \<in> entry_lane ` set es" by (auto dest: map_of_SomeD)
    with that entries_enter(1,5,6) show False by (auto simp: bound_runs_member)
  qed
  with old entries_enter(4) show ?thesis unfolding new by (blast intro: lane_enter)
next
  case (entries_free xs k cur ys)
  let ?a = "rv_accountProfileId cur"
  from assms(2) entries_free(1) have names: "?a \<notin> fst ` set (map entry_lane xs)" "?a \<notin> fst ` set (map entry_lane ys)"
    by (simp_all add: lane_names del: set_map)
  have new: "map_of (map entry_lane es') = (map_of (map entry_lane es))(?a := None)"
    using map_of_remove [OF names, of "rv_runId cur"] by (simp add: entries_free(1,3))
  have "map_of (map entry_lane es) ?a = Some (rv_runId cur)"
    using map_of_at [OF names(1)] by (simp add: entries_free(1))
  then show ?thesis unfolding new by (rule lane_free)
qed

lemma arbiter_entry:
  assumes "arbiter_ok s" and "map_of (ar_reservations s) k = Some v"
  obtains xs ys where "ar_reservations s = xs @ (k, v) # ys" and "k \<notin> fst ` set xs" and "k \<notin> fst ` set ys"
proof -
  from assms(1) have "distinct (map fst (ar_reservations s))" by (simp add: arbiter_ok_def)
  then show thesis using assms(2) by (rule entry_split) (rule that)
qed

lemma acquire_lane_cases:
  assumes "acquire_lane lc parse available now s = (res, s')" and "arbiter_ok s"
  obtains (full) "res = None" "s' = s" "\<forall>account\<in>set available. ac_id account \<in> set (reserved_accounts (ar_reservations s))"
  | (lane) account where "account \<in> set available" "ac_id account \<notin> set (reserved_accounts (ar_reservations s))"
      "account = hd (js_sort (compareDispatchAccounts lc parse (ar_lastUsed s) now)
         (filter (\<lambda>account. ac_id account \<notin> set (reserved_accounts (ar_reservations s))) available))"
      "res = Some \<lparr>dr_accountProfileId = ac_id account, dr_reservationId = reservation_id (ar_nextReservation s)\<rparr>"
      "s' = s \<lparr>ar_nextReservation := Suc (ar_nextReservation s), ar_reservations := ar_reservations s @
         [(reservation_id (ar_nextReservation s), \<lparr>rv_accountProfileId = ac_id account, rv_runId = None\<rparr>)]\<rparr>"
proof -
  let ?free = "filter (\<lambda>account. ac_id account \<notin> set (reserved_accounts (ar_reservations s))) available"
  let ?sorted = "js_sort (compareDispatchAccounts lc parse (ar_lastUsed s) now) ?free"
  show thesis
  proof (cases ?sorted)
    case Nil
    with assms(1) show thesis by (intro full) (auto simp: acquire_lane_def filter_empty_conv)
  next
    case (Cons account rest)
    then have "account \<in> set ?sorted" by simp
    then have member: "account \<in> set available" "ac_id account \<notin> set (reserved_accounts (ar_reservations s))" by auto
    have "reservation_id (ar_nextReservation s) \<notin> fst ` set (ar_reservations s)"
      using assms(2) fresh_reservation_id unfolding arbiter_ok_def by blast
    with assms(1) Cons member show thesis
      by (intro lane [of account]) (auto simp: acquire_lane_def Let_def map_set_fresh)
  qed
qed

lemma bind_cases:
  assumes "bind reservation runId s = Inr s'" and "arbiter_ok s"
  obtains xs ys cur where "ar_reservations s = xs @ (dr_reservationId reservation, cur) # ys"
    "rv_accountProfileId cur = dr_accountProfileId reservation" "rv_runId cur = None \<or> rv_runId cur = Some runId"
    "runId \<notin> set (bound_runs xs)" "runId \<notin> set (bound_runs ys)"
    "s' = s \<lparr>ar_reservations := xs @ (dr_reservationId reservation, cur \<lparr>rv_runId := Some runId\<rparr>) # ys\<rparr>"
proof -
  let ?k = "dr_reservationId reservation"
  from assms(1) obtain cur where cur: "map_of (ar_reservations s) ?k = Some cur"
      "rv_accountProfileId cur = dr_accountProfileId reservation" "rv_runId cur = None \<or> rv_runId cur = Some runId"
    and others: "\<not> list_ex (\<lambda>(key, candidate). key \<noteq> ?k \<and> rv_runId candidate = Some runId) (ar_reservations s)"
    and new: "s' = s \<lparr>ar_reservations := map_set ?k (cur \<lparr>rv_runId := Some runId\<rparr>) (ar_reservations s)\<rparr>"
    by (auto simp: bind_def require_reservation_def split: option.splits if_splits)
  from assms(2) cur(1) obtain xs ys where split: "ar_reservations s = xs @ (?k, cur) # ys" "?k \<notin> fst ` set xs" "?k \<notin> fst ` set ys"
    by (rule arbiter_entry)
  have "rv_runId (snd e) \<noteq> Some runId" if "e \<in> set xs \<union> set ys" for e
  proof -
    from that split have "e \<in> set (ar_reservations s)" by auto
    moreover from that split(2,3) have "fst e \<noteq> ?k" by (metis UnE image_eqI)
    ultimately show ?thesis using others by (cases e) (auto simp: list_ex_iff)
  qed
  then have "runId \<notin> set (bound_runs xs)" "runId \<notin> set (bound_runs ys)" by (auto simp: bound_runs_member)
  with cur split new show thesis by (intro that) (simp_all add: map_set_split)
qed

lemma release_cases:
  assumes "release reservation now s = Inr s'" and "arbiter_ok s"
  obtains xs ys cur where "ar_reservations s = xs @ (dr_reservationId reservation, cur) # ys"
    "rv_accountProfileId cur = dr_accountProfileId reservation"
    "s' = s \<lparr>ar_reservations := xs @ ys, ar_lastUsed := map_set (dr_accountProfileId reservation) now (ar_lastUsed s)\<rparr>"
proof -
  let ?k = "dr_reservationId reservation"
  from assms(1) obtain cur where cur: "map_of (ar_reservations s) ?k = Some cur"
      "rv_accountProfileId cur = dr_accountProfileId reservation"
    and new: "s' = s \<lparr>ar_reservations := map_delete ?k (ar_reservations s),
      ar_lastUsed := map_set (dr_accountProfileId reservation) now (ar_lastUsed s)\<rparr>"
    by (auto simp: release_def require_reservation_def split: option.splits if_splits)
  from assms(2) cur(1) obtain xs ys where "ar_reservations s = xs @ (?k, cur) # ys" "?k \<notin> fst ` set xs" "?k \<notin> fst ` set ys"
    by (rule arbiter_entry)
  with cur new show thesis by (intro that) (simp_all add: map_delete_split)
qed

lemma releaseRun_cases:
  assumes "releaseRun runId now s = (res, s')" and "arbiter_ok s"
  obtains (absent) "res = None" "s' = s" "runId \<notin> set (bound_runs (ar_reservations s))"
  | (freed) xs ys k cur where "ar_reservations s = xs @ (k, cur) # ys" "rv_runId cur = Some runId"
      "res = Some \<lparr>dr_accountProfileId = rv_accountProfileId cur, dr_reservationId = k\<rparr>"
      "s' = s \<lparr>ar_reservations := xs @ ys, ar_lastUsed := map_set (rv_accountProfileId cur) now (ar_lastUsed s)\<rparr>"
proof (cases "List.find (\<lambda>(_, reservation). rv_runId reservation = Some runId) (ar_reservations s)")
  case None
  with assms(1) have "res = None" "s' = s" by (auto simp: releaseRun_def)
  moreover from None have "runId \<notin> set (bound_runs (ar_reservations s))"
    by (force simp: bound_runs_member find_None_iff)
  ultimately show thesis by (rule absent)
next
  case (Some e)
  obtain k cur where e: "e = (k, cur)" by (cases e)
  from Some e have found: "(k, cur) \<in> set (ar_reservations s)" "rv_runId cur = Some runId"
    by (auto simp: find_Some_iff in_set_conv_nth)
  from found(1) assms(2) have at: "map_of (ar_reservations s) k = Some cur"
    by (simp add: arbiter_ok_def)
  from assms(2) at obtain xs ys where split: "ar_reservations s = xs @ (k, cur) # ys" "k \<notin> fst ` set xs" "k \<notin> fst ` set ys"
    by (rule arbiter_entry)
  from assms(1) Some e have "res = Some \<lparr>dr_accountProfileId = rv_accountProfileId cur, dr_reservationId = k\<rparr>"
    "s' = s \<lparr>ar_reservations := map_delete k (ar_reservations s),
      ar_lastUsed := map_set (rv_accountProfileId cur) now (ar_lastUsed s)\<rparr>"
    by (auto simp: releaseRun_def)
  with split found(2) show thesis by (intro freed) (simp_all add: map_delete_split)
qed

lemma exec_entries_step:
  assumes "arbiter_ok s"
  shows "entries_step (ar_nextReservation s) (ar_reservations s)
    (ar_nextReservation (arbiter_exec lc parse refreshable cmd s)) (ar_reservations (arbiter_exec lc parse refreshable cmd s))"
proof (cases cmd)
  case (Observe accounts now)
  then show ?thesis by (simp add: currentAvailableAccounts_def entries_idle)
next
  case (AcquireLane available now)
  obtain res s' where run: "acquire_lane lc parse available now s = (res, s')" by fastforce
  from run assms show ?thesis
  proof (cases rule: acquire_lane_cases)
    case full
    then show ?thesis by (simp add: AcquireLane run entries_idle)
  next
    case (lane account)
    then show ?thesis using entries_take [OF lane(2)] by (simp add: AcquireLane run)
  qed
next
  case (Bind reservation runId)
  show ?thesis
  proof (cases "bind reservation runId s")
    case (Inr s')
    from Inr assms show ?thesis
      by (rule bind_cases) (simp add: Bind Inr kept_def entries_enter)
  qed (simp add: Bind kept_def entries_idle)
next
  case (Release reservation now)
  show ?thesis
  proof (cases "release reservation now s")
    case (Inr s')
    from Inr assms show ?thesis
      by (rule release_cases) (simp add: Release Inr kept_def entries_free)
  qed (simp add: Release kept_def entries_idle)
next
  case (ReleaseRun runId now)
  obtain res s' where run: "releaseRun runId now s = (res, s')" by fastforce
  from run assms show ?thesis
  proof (cases rule: releaseRun_cases)
    case absent
    then show ?thesis by (simp add: ReleaseRun run entries_idle)
  next
    case (freed xs ys k cur)
    then show ?thesis by (simp add: ReleaseRun run entries_free)
  qed
qed (simp_all add: entries_idle)

lemma arbiter_exec_ok: "arbiter_ok s \<Longrightarrow> arbiter_ok (arbiter_exec lc parse refreshable cmd s)"
  using exec_entries_step [of s lc parse refreshable cmd] unfolding arbiter_ok_def by (blast dest: entries_step_ok)

lemma arbiter_run_ok: "arbiter_ok s \<Longrightarrow> arbiter_ok (fold (arbiter_exec lc parse refreshable) cmds s)"
  by (induction cmds arbitrary: s) (simp_all add: arbiter_exec_ok)

lemma recovered_id_inject [simp]: "recovered_id a = recovered_id b \<longleftrightarrow> a = b"
  by (simp add: recovered_id_def)

lemma recover_ok:
  assumes "recover recovered accounts runs es = Inr es'"
    and "set (reserved_accounts es) \<subseteq> set accounts" "set (bound_runs es) \<subseteq> set runs"
    and "fst ` set es \<subseteq> recovered_id ` set runs"
    and "distinct (map fst es)" "distinct (reserved_accounts es)" "distinct (bound_runs es)"
  shows "distinct (map fst es') \<and> distinct (reserved_accounts es') \<and> distinct (bound_runs es') \<and>
    (\<forall>key\<in>fst ` set es'. issued n key)"
  using assms
proof (induction recovered arbitrary: accounts runs es)
  case Nil
  then show ?case by (auto simp: issued_def)
next
  case (Cons p rest)
  obtain a r where p: "p = (a, r)" by (cases p)
  from Cons.prems(1) p have fresh: "a \<notin> set accounts" "r \<notin> set runs" by (auto split: if_splits)
  with Cons.prems(4) have new: "recovered_id r \<notin> fst ` set es" by auto
  then have "map_set (recovered_id r) \<lparr>rv_accountProfileId = a, rv_runId = Some r\<rparr> es =
      es @ [(recovered_id r, \<lparr>rv_accountProfileId = a, rv_runId = Some r\<rparr>)]" by (rule map_set_fresh)
  with Cons.prems(1) p fresh have "recover rest (a # accounts) (r # runs)
      (es @ [(recovered_id r, \<lparr>rv_accountProfileId = a, rv_runId = Some r\<rparr>)]) = Inr es'" by simp
  note step = Cons.IH [OF this]
  from fresh Cons.prems(2,3) have "a \<notin> set (reserved_accounts es)" "r \<notin> set (bound_runs es)" by blast+
  with Cons.prems(2-7) new show ?case by (intro step) auto
qed

lemma new_arbiter_ok:
  assumes "new_arbiter recovered = Inr s"
  shows "arbiter_ok s"
proof -
  from assms have "recover recovered [] [] [] = Inr (ar_reservations s)" by (auto simp: new_arbiter_def split: sum.splits)
  from recover_ok [OF this] show ?thesis by (simp add: arbiter_ok_def)
qed

subsection \<open>The comparator is a total preorder\<close>

definition headroom_rank :: "DispatchBudget \<Rightarrow> int" where
  "headroom_rank budget = (case budget of Known r \<Rightarrow> - r | _ \<Rightarrow> 0)"

definition last_used :: "(string \<times> int) list \<Rightarrow> string \<Rightarrow> int" where
  "last_used lastUsed a = (case map_of lastUsed a of None \<Rightarrow> 0 | Some t \<Rightarrow> t)"

definition account_rank ::
  "(string \<Rightarrow> js_number) \<Rightarrow> (string \<times> int) list \<Rightarrow> js_number \<Rightarrow> DispatchAccountSummary \<Rightarrow> int list" where
  "account_rank parse lastUsed now account =
     (let budget = dispatchBudget parse (ac_usage account) now in
      [budgetOrder budget, headroom_rank budget, if ac_selected account then 0 else 1, last_used lastUsed (ac_id account)])"

lemma budgetOrder_eq_known: "budgetOrder b = budgetOrder c \<Longrightarrow> (\<exists>r. b = Known r) \<longleftrightarrow> (\<exists>r. c = Known r)"
  by (cases b; cases c) simp_all

lemma compare_by_rank:
  "compareDispatchAccounts lc parse lastUsed now left right \<le> 0 \<longleftrightarrow>
     account_rank parse lastUsed now left < account_rank parse lastUsed now right \<or>
     account_rank parse lastUsed now left = account_rank parse lastUsed now right \<and> lc (ac_id left) (ac_id right) \<le> 0"
proof -
  define bl br where "bl = dispatchBudget parse (ac_usage left) now" and "br = dispatchBudget parse (ac_usage right) now"
  have room: "(case (bl, br) of (Known l, Known r) \<Rightarrow> r - l | _ \<Rightarrow> 0) = headroom_rank bl - headroom_rank br"
    if "budgetOrder bl = budgetOrder br"
    using that by (cases bl; cases br) (simp_all add: headroom_rank_def)
  show ?thesis
    unfolding compareDispatchAccounts_def account_rank_def bl_def [symmetric] br_def [symmetric] Let_def last_used_def
    using room by (cases "budgetOrder bl = budgetOrder br") auto
qed

lemma compare_budgets:
  assumes "compareDispatchAccounts lc parse lastUsed now left right \<le> 0"
  shows "let mine = dispatchBudget parse (ac_usage left) now; its = dispatchBudget parse (ac_usage right) now in
    budgetOrder mine \<le> budgetOrder its \<and> (case (mine, its) of (Known m, Known i) \<Rightarrow> i \<le> m | _ \<Rightarrow> True)"
proof -
  define mine its where "mine = dispatchBudget parse (ac_usage left) now" and "its = dispatchBudget parse (ac_usage right) now"
  from assms have "budgetOrder mine < budgetOrder its \<or>
      budgetOrder mine = budgetOrder its \<and> headroom_rank mine \<le> headroom_rank its"
    by (auto simp: compare_by_rank account_rank_def Let_def mine_def its_def)
  then show ?thesis
    unfolding mine_def [symmetric] its_def [symmetric] Let_def
    by (cases mine; cases its) (simp_all add: headroom_rank_def)
qed

lemma account_comparator:
  assumes "comparator lc"
  shows "comparator (compareDispatchAccounts lc parse lastUsed now)"
proof -
  have total: "lc a b \<le> 0 \<or> lc b a \<le> 0" and trans: "lc a b \<le> 0 \<Longrightarrow> lc b c \<le> 0 \<Longrightarrow> lc a c \<le> 0" for a b c
    using assms by (auto simp: comparator_def)
  show ?thesis
  proof
    show "compareDispatchAccounts lc parse lastUsed now x y \<le> 0 \<or> compareDispatchAccounts lc parse lastUsed now y x \<le> 0" for x y
      unfolding compare_by_rank using total by (meson linorder_less_linear)
    show "compareDispatchAccounts lc parse lastUsed now x y \<le> 0 \<Longrightarrow>
      compareDispatchAccounts lc parse lastUsed now y z \<le> 0 \<Longrightarrow> compareDispatchAccounts lc parse lastUsed now x z \<le> 0" for x y z
      unfolding compare_by_rank using trans by (metis order_less_trans)
  qed
qed

subsection \<open>A small run\<close>

text \<open>One recovered run on account \<open>a\<close>; of the free accounts \<open>c\<close> has more left than \<open>b\<close>.\<close>

definition sample_parse :: "string \<Rightarrow> js_number" where
  "sample_parse text = (if text = ''12:00'' then Fin 1000 else NaN)"

definition sample_account :: "string \<Rightarrow> int \<Rightarrow> DispatchAccountSummary" where
  "sample_account account used =
     \<lparr>ac_id = account, ac_selected = False,
      ac_usage = UsageReady [\<lparr>rs_id = ''five hours'', rs_name = ''five hours'',
        rs_primary = Some \<lparr>rw_usedPercent = used, rw_windowDurationMinutes = None, rw_resetsAt = None\<rparr>,
        rs_secondary = None, rs_individual = None, rs_unlimited = False, rs_reached = False\<rparr>] ''12:00''\<rparr>"

definition sample_accounts :: "DispatchAccountSummary list" where
  "sample_accounts = [sample_account ''a'' 10, sample_account ''b'' 60, sample_account ''c'' 30]"

definition sample_arbiter :: Arbiter where
  "sample_arbiter =
     \<lparr>ar_lastUsed = [], ar_reservations = [(''recovered:r1'', \<lparr>rv_accountProfileId = ''a'', rv_runId = Some ''r1''\<rparr>)],
      ar_refresh = no_refresh, ar_nextReservation = 1\<rparr>"

definition sample_commands :: "ArbiterCommand list" where
  "sample_commands = [AcquireLane sample_accounts (Fin 2000),
     Bind \<lparr>dr_accountProfileId = ''c'', dr_reservationId = ''account_reservation_00000001''\<rparr> ''r2'', ReleaseRun ''r1'' 3000]"

abbreviation sample_end :: Arbiter where
  "sample_end \<equiv> fold (arbiter_exec code_unit_compare sample_parse True) sample_commands sample_arbiter"

lemma sample_start: "new_arbiter [(''a'', ''r1'')] = Inr sample_arbiter"
  by code_simp

lemma sample_end_reservations:
  "ar_reservations sample_end =
     [(''account_reservation_00000001'', \<lparr>rv_accountProfileId = ''c'', rv_runId = Some ''r2''\<rparr>)]"
  by code_simp

lemma sample_acquired:
  "acquire_lane code_unit_compare sample_parse sample_accounts (Fin 2000) sample_arbiter =
     (Some \<lparr>dr_accountProfileId = ''c'', dr_reservationId = ''account_reservation_00000001''\<rparr>,
      snd (acquire_lane code_unit_compare sample_parse sample_accounts (Fin 2000) sample_arbiter))"
  by code_simp

subsection \<open>Properties\<close>

lemma lane_of_free: "lane_of s a = None \<longleftrightarrow> a \<notin> set (reserved_accounts (ar_reservations s))"
  by (simp add: lane_of_def map_of_eq_None_iff lane_names del: set_map)

lemma arbiter_lane_step:
  "arbiter_ok s \<Longrightarrow> lane_step (lane_of s) (lane_of (arbiter_exec lc parse refreshable cmd s))"
  using exec_entries_step [of s lc parse refreshable cmd]
  unfolding lane_of_def arbiter_ok_def by (blast intro: entries_step_lanes)

lemma recover_entries:
  "recover recovered accounts runs es = Inr es' \<Longrightarrow> fst ` set es \<subseteq> recovered_id ` set runs \<Longrightarrow>
   map entry_lane es' = map entry_lane es @ map (\<lambda>(a, r). (a, Some r)) recovered"
proof (induction recovered arbitrary: accounts runs es)
  case (Cons p rest)
  obtain a r where p: "p = (a, r)" by (cases p)
  from Cons.prems(1) p have fresh: "a \<notin> set accounts" "r \<notin> set runs" by (auto split: if_splits)
  with Cons.prems(2) have new: "recovered_id r \<notin> fst ` set es" by auto
  then have "map_set (recovered_id r) \<lparr>rv_accountProfileId = a, rv_runId = Some r\<rparr> es =
      es @ [(recovered_id r, \<lparr>rv_accountProfileId = a, rv_runId = Some r\<rparr>)]" by (rule map_set_fresh)
  with Cons.prems(1) p fresh have "recover rest (a # accounts) (r # runs)
      (es @ [(recovered_id r, \<lparr>rv_accountProfileId = a, rv_runId = Some r\<rparr>)]) = Inr es'" by simp
  from Cons.IH [OF this] Cons.prems(2) p show ?case by auto
qed simp

text \<open>
  C18. An account is a one-run lane. Whatever the recovered reservations a start accepts, and in
  whatever order the halves of concurrent acquisitions, bindings, releases and budget refreshes then
  run, no account is reserved twice, no run is bound twice and no reservation id is used twice.
\<close>

theorem account_lanes_exclusive:
  assumes "new_arbiter recovered = Inr s0" and "s = fold (arbiter_exec lc parse refreshable) cmds s0"
  shows "distinct (reserved_accounts (ar_reservations s)) \<and> distinct (bound_runs (ar_reservations s)) \<and>
    distinct (map fst (ar_reservations s))"
  using arbiter_run_ok [OF new_arbiter_ok [OF assms(1)], of lc parse refreshable cmds]
  by (simp add: assms(2) arbiter_ok_def)

text \<open>
  C17. The arbiter implements lanes. Its lanes start as the recovered pairs, and every further command
  changes them by at most one move of the specification: a lane taken was free, a run enters a
  held lane that carries no other run and only when no other lane carries it, a freed lane was held.
\<close>

theorem arbiter_refines_lanes:
  assumes "new_arbiter recovered = Inr s0" and "s = fold (arbiter_exec lc parse refreshable) cmds s0"
  shows "lane_of s0 = map_of (map (\<lambda>(account, run). (account, Some run)) recovered) \<and>
    lane_step (lane_of s) (lane_of (arbiter_exec lc parse refreshable cmd s))"
proof -
  from assms(1) have "recover recovered [] [] [] = Inr (ar_reservations s0)"
    by (auto simp: new_arbiter_def split: sum.splits)
  from recover_entries [OF this] have "lane_of s0 = map_of (map (\<lambda>(account, run). (account, Some run)) recovered)"
    by (simp add: lane_of_def)
  with arbiter_lane_step arbiter_run_ok new_arbiter_ok assms show ?thesis by blast
qed

text \<open>
  C20. A lane is given to the best free account. From any reachable arbiter, taking a lane among the
  accounts observed before either finds all of them held and changes nothing, or takes the lane of an
  observed account that was free at that moment, and no free observed account has a budget of a
  better kind, nor, when both budgets are known, a greater remaining percentage.
\<close>

theorem lane_acquired_is_best:
  assumes "comparator lc" and "new_arbiter recovered = Inr s0"
    and "s = fold (arbiter_exec lc parse refreshable) cmds s0"
    and "acquire_lane lc parse available now s = (res, s')"
  shows "case res of
      None \<Rightarrow> s' = s \<and> (\<forall>account\<in>set available. lane_of s (ac_id account) \<noteq> None)
    | Some reservation \<Rightarrow>
        \<exists>account\<in>set available. ac_id account = dr_accountProfileId reservation \<and>
          lane_of s (ac_id account) = None \<and> lane_of s' = (lane_of s)(ac_id account \<mapsto> None) \<and>
          (\<forall>other\<in>set available. lane_of s (ac_id other) = None \<longrightarrow>
             (let mine = dispatchBudget parse (ac_usage account) now;
                  its = dispatchBudget parse (ac_usage other) now in
              budgetOrder mine \<le> budgetOrder its \<and>
              (case (mine, its) of (Known m, Known i) \<Rightarrow> i \<le> m | _ \<Rightarrow> True)))"
proof -
  from assms(2,3) have ok: "arbiter_ok s" by (simp add: arbiter_run_ok new_arbiter_ok)
  from assms(4) ok show ?thesis
  proof (cases rule: acquire_lane_cases)
    case full
    then show ?thesis by (simp add: lane_of_free)
  next
    case (lane account)
    have new: "lane_of s' = (lane_of s)(ac_id account \<mapsto> None)"
      using lanes_append [OF lane(2)] by (simp add: lane(5) lane_of_def)
    have best: "let mine = dispatchBudget parse (ac_usage account) now; its = dispatchBudget parse (ac_usage other) now in
        budgetOrder mine \<le> budgetOrder its \<and> (case (mine, its) of (Known m, Known i) \<Rightarrow> i \<le> m | _ \<Rightarrow> True)"
      if "other \<in> set available" "lane_of s (ac_id other) = None" for other
    proof -
      from that have "other \<in> set (filter (\<lambda>a. ac_id a \<notin> set (reserved_accounts (ar_reservations s))) available)"
        by (simp add: lane_of_free)
      from comparator.hd_js_sort_least [OF account_comparator [OF assms(1)] this, of parse "ar_lastUsed s" now]
      have "compareDispatchAccounts lc parse (ar_lastUsed s) now account other \<le> 0" by (simp add: lane(3))
      then show ?thesis by (rule compare_budgets)
    qed
    with lane(1,2,4) new show ?thesis by (auto simp: lane_of_free)
  qed
qed

theorem account_lanes_exclusive_witness:
  "distinct (bound_runs (ar_reservations sample_end)) \<and> bound_runs (ar_reservations sample_end) = [''r2'']"
  using account_lanes_exclusive [OF sample_start refl, of code_unit_compare sample_parse True sample_commands]
  by (simp add: sample_end_reservations)

theorem arbiter_refines_lanes_witness:
  "lane_of sample_arbiter = map_of [(''a'', Some ''r1'')] \<and>
   lane_step (lane_of sample_end) (lane_of (arbiter_exec code_unit_compare sample_parse True (ReleaseRun ''r2'' 4000) sample_end))"
  using arbiter_refines_lanes [OF sample_start refl, of code_unit_compare sample_parse True sample_commands "ReleaseRun ''r2'' 4000"]
  by simp

theorem lane_acquired_is_best_witness:
  "\<exists>account\<in>set sample_accounts. ac_id account = ''c'' \<and> lane_of sample_arbiter (ac_id account) = None"
  using lane_acquired_is_best [OF code_unit.comparator_axioms sample_start _ sample_acquired, of True "[]"] by auto

end
