(* ===== verification/LocalCapabilities.thy ===== *)
theory LocalCapabilities
  imports AccountReservations DispatchLeases
begin

text \<open>
  \<open>LocalDispatchCapabilities\<close> of \<open>apps/desktop/runtime/src/dispatch/local-capabilities.ts\<close>: the slots
  the cloud dispatch runner holds, each a repository and an account, over the shared arbiter when
  there is one.

  A call that throws part-way keeps what it wrote: its result is the error, if any, and the state.
  The arbiter is part of the state; what other holders of it do in between is \<open>arbiter_exec\<close>.
\<close>

subsection \<open>State\<close>

record LocalDispatchSlot =
  sl_accountProfileId :: string
  sl_repositoryId :: string
  sl_repositoryPath :: string
  sl_reservationId :: string

record LocalReservation =
  lr_slot :: LocalDispatchSlot
  lr_runId :: "string option"

datatype DispatchSlotDisposition =
    SD_claim_failed
  | SD_running string
  | SD_terminal string
  | SD_ambiguous string
  | SD_lease_lost string
  | SD_execution_failed string

definition disposition_run :: "DispatchSlotDisposition \<Rightarrow> string option" where
  "disposition_run disposition =
     (case disposition of
        SD_claim_failed \<Rightarrow> None
      | SD_running runId \<Rightarrow> Some runId
      | SD_terminal runId \<Rightarrow> Some runId
      | SD_ambiguous runId \<Rightarrow> Some runId
      | SD_lease_lost runId \<Rightarrow> Some runId
      | SD_execution_failed runId \<Rightarrow> Some runId)"

record Capabilities =
  lc_accountReservations :: "Arbiter option"
  lc_repositories :: "(string \<times> string) list"
  lc_reservations :: "(string \<times> LocalReservation) list"
  lc_releasedRunIds :: "string list"
  lc_lastUsed :: "(string \<times> int) list"
  lc_notified :: "string list"
  lc_refresh :: BudgetRefresh
  lc_nextReservation :: nat

datatype LocalError =
    InconsistentWithLocalSetup
  | AccountCapacityNotReserved
  | SlotNotReserved
  | DispositionRunMismatch
  | ArbiterFailed ArbiterError

text \<open>The constructor's pass over \<open>(accountProfileId, repositoryPublicId, runId)\<close>.\<close>

fun recover_slots ::
  "(string \<times> string) list \<Rightarrow> Arbiter option \<Rightarrow> (string \<times> string \<times> string) list \<Rightarrow> string list \<Rightarrow> string list \<Rightarrow>
   (string \<times> LocalReservation) list \<Rightarrow> LocalError + (string \<times> LocalReservation) list" where
  "recover_slots repositories arbiter [] recoveredAccounts recoveredRuns reservations = Inr reservations"
| "recover_slots repositories arbiter ((account, repository, runId) # rest) recoveredAccounts recoveredRuns reservations =
     (if account \<in> set recoveredAccounts \<or> runId \<in> set recoveredRuns then Inl InconsistentWithLocalSetup
      else if (case arbiter of None \<Rightarrow> False | Some a \<Rightarrow> \<not> owns runId account a) then Inl AccountCapacityNotReserved
      else recover_slots repositories arbiter rest (account # recoveredAccounts) (runId # recoveredRuns)
        (map_set (recovered_id runId)
          \<lparr>lr_slot = \<lparr>sl_accountProfileId = account, sl_repositoryId = repository,
             sl_repositoryPath = (case js_map_of repositories repository of None \<Rightarrow> [] | Some path \<Rightarrow> path),
             sl_reservationId = recovered_id runId\<rparr>, lr_runId = Some runId\<rparr> reservations))"

definition new_capabilities ::
  "Arbiter option \<Rightarrow> (string \<times> string) list \<Rightarrow> (string \<times> string \<times> string) list \<Rightarrow> LocalError + Capabilities" where
  "new_capabilities arbiter repositories recovered =
     (case recover_slots repositories arbiter recovered [] [] [] of
        Inl e \<Rightarrow> Inl e
      | Inr reservations \<Rightarrow>
          Inr \<lparr>lc_accountReservations = arbiter, lc_repositories = repositories, lc_reservations = reservations,
               lc_releasedRunIds = [], lc_lastUsed = [], lc_notified = [], lc_refresh = no_refresh,
               lc_nextReservation = 1\<rparr>)"

definition slot_accounts :: "(string \<times> LocalReservation) list \<Rightarrow> string list" where
  "slot_accounts reservations = map (\<lambda>e. sl_accountProfileId (lr_slot (snd e))) reservations"

definition slot_runs :: "(string \<times> LocalReservation) list \<Rightarrow> string list" where
  "slot_runs reservations =
     concat (map (\<lambda>e. case lr_runId (snd e) of None \<Rightarrow> [] | Some runId \<Rightarrow> [runId]) reservations)"

subsection \<open>The snapshot\<close>

record DispatchCapabilitySnapshot =
  cs_reportedState :: ReportedState
  cs_blockReason :: "BlockReason option"
  cs_capacity :: int
  cs_activeRuns :: int
  cs_retainedRunIds :: "string list"
  cs_repositoryIds :: "string list"

definition repository_ids :: "Capabilities \<Rightarrow> string list" where
  "repository_ids s = js_sort code_unit_compare (js_set (map fst (lc_repositories s)))"

definition shared_snapshot :: "DispatchAccountReservationSnapshot \<Rightarrow> string list \<Rightarrow> DispatchCapabilitySnapshot" where
  "shared_snapshot accounts repositoryIds =
     (let base = \<lparr>cs_reportedState = RS_degraded, cs_blockReason = None, cs_capacity = sn_capacity accounts,
            cs_activeRuns = sn_activeRuns accounts, cs_retainedRunIds = sn_retainedRunIds accounts,
            cs_repositoryIds = repositoryIds\<rparr> in
      if sn_state accounts = AS_no_account then base \<lparr>cs_blockReason := Some BR_no_account\<rparr>
      else if repositoryIds = [] then base \<lparr>cs_blockReason := Some BR_no_repository\<rparr>
      else base \<lparr>cs_reportedState := (if sn_state accounts = AS_capacity_full then RS_busy else RS_ready)\<rparr>)"

definition own_snapshot :: "DispatchAccountSummary list \<Rightarrow> Capabilities \<Rightarrow> DispatchCapabilitySnapshot" where
  "own_snapshot connectedAccounts s =
     (let accountCount = min 32 (int (length (js_set (map ac_id connectedAccounts @ slot_accounts (lc_reservations s)))));
          activeRuns = int (length (lc_reservations s));
          base = \<lparr>cs_reportedState = RS_degraded, cs_blockReason = None, cs_capacity = accountCount,
            cs_activeRuns = activeRuns, cs_retainedRunIds = js_sort code_unit_compare (slot_runs (lc_reservations s)),
            cs_repositoryIds = repository_ids s\<rparr> in
      if connectedAccounts = [] then base \<lparr>cs_blockReason := Some BR_no_account\<rparr>
      else if repository_ids s = [] then base \<lparr>cs_blockReason := Some BR_no_repository\<rparr>
      else base \<lparr>cs_reportedState := (if activeRuns \<ge> accountCount then RS_busy else RS_ready)\<rparr>)"

subsection \<open>Taking a slot\<close>

text \<open>
  Up to the await: \<open>None\<close> for a repository that is not set up, otherwise its path, and the state
  with the refresh of budgets scheduled in the arbiter or here.
\<close>

definition acquire_begin ::
  "(string \<Rightarrow> js_number) \<Rightarrow> bool \<Rightarrow> DispatchAccountSummary list \<Rightarrow> js_number \<Rightarrow> string \<Rightarrow> Capabilities \<Rightarrow>
   (string \<times> DispatchAccountSummary list) option \<times> Capabilities" where
  "acquire_begin parse refreshable accounts now repositoryId s =
     (case js_map_of (lc_repositories s) repositoryId of
        None \<Rightarrow> (None, s)
      | Some repositoryPath \<Rightarrow>
          (case lc_accountReservations s of
             Some arbiter \<Rightarrow>
               (let (available, arbiter1) = currentAvailableAccounts parse refreshable accounts now arbiter in
                (Some (repositoryPath, available), s \<lparr>lc_accountReservations := Some arbiter1\<rparr>))
           | None \<Rightarrow>
               (Some (repositoryPath, known_accounts parse accounts now),
                s \<lparr>lc_refresh := scheduleBudgetRefresh parse refreshable accounts now (lc_refresh s)\<rparr>)))"

definition own_reservation_id :: "nat \<Rightarrow> string" where
  "own_reservation_id n = ''reservation_'' @ pad_start 8 CHR ''0'' (decimal n)"

text \<open>After the await, with an arbiter: the account it gave becomes a slot.\<close>

definition acquire_shared ::
  "string \<Rightarrow> string \<Rightarrow> DispatchAccountReservation option \<Rightarrow> Capabilities \<Rightarrow> LocalDispatchSlot option \<times> Capabilities" where
  "acquire_shared repositoryId repositoryPath account s =
     (case account of
        None \<Rightarrow> (None, s)
      | Some given \<Rightarrow>
          (let slot = \<lparr>sl_accountProfileId = dr_accountProfileId given, sl_repositoryId = repositoryId,
                       sl_repositoryPath = repositoryPath, sl_reservationId = dr_reservationId given\<rparr> in
           (Some slot, s \<lparr>lc_reservations :=
              map_set (sl_reservationId slot) \<lparr>lr_slot = slot, lr_runId = None\<rparr> (lc_reservations s)\<rparr>)))"

text \<open>After the await, without one.\<close>

definition acquire_own ::
  "(string \<Rightarrow> string \<Rightarrow> int) \<Rightarrow> (string \<Rightarrow> js_number) \<Rightarrow> string \<Rightarrow> string \<Rightarrow> DispatchAccountSummary list \<Rightarrow> js_number \<Rightarrow>
   Capabilities \<Rightarrow> LocalDispatchSlot option \<times> Capabilities" where
  "acquire_own lc parse repositoryId repositoryPath availableAccounts now s =
     (case js_sort (compareDispatchAccounts lc parse (lc_lastUsed s) now)
             (filter (\<lambda>account. ac_id account \<notin> set (slot_accounts (lc_reservations s))) availableAccounts) of
        [] \<Rightarrow> (None, s)
      | account # _ \<Rightarrow>
          (let reservationId = own_reservation_id (lc_nextReservation s);
               slot = \<lparr>sl_accountProfileId = ac_id account, sl_repositoryId = repositoryId,
                       sl_repositoryPath = repositoryPath, sl_reservationId = reservationId\<rparr> in
           (Some slot, s \<lparr>lc_nextReservation := lc_nextReservation s + 1, lc_reservations :=
              map_set reservationId \<lparr>lr_slot = slot, lr_runId = None\<rparr> (lc_reservations s)\<rparr>)))"

subsection \<open>Settling and releasing\<close>

definition MAX_RELEASED :: nat where "MAX_RELEASED = 128"

definition rememberReleased :: "string \<Rightarrow> Capabilities \<Rightarrow> Capabilities" where
  "rememberReleased runId s =
     (if runId \<in> set (lc_releasedRunIds s) then s
      else
        (let released = lc_releasedRunIds s @ [runId] in
         s \<lparr>lc_notified := lc_notified s @ [runId],
            lc_releasedRunIds := (if length released > MAX_RELEASED then tl released else released)\<rparr>))"

text \<open>The slot goes, then its lane in the arbiter; a failure there throws after the first.\<close>

definition free_slot :: "LocalDispatchSlot \<Rightarrow> int \<Rightarrow> Capabilities \<Rightarrow> LocalError option \<times> Capabilities" where
  "free_slot slot now s =
     (let s1 = s \<lparr>lc_reservations := map_delete (sl_reservationId slot) (lc_reservations s)\<rparr>;
          used = (\<lambda>t. t \<lparr>lc_lastUsed := map_set (sl_accountProfileId slot) now (lc_lastUsed t)\<rparr>) in
      case lc_accountReservations s1 of
        None \<Rightarrow> (None, used s1)
      | Some arbiter \<Rightarrow>
          (case release \<lparr>dr_accountProfileId = sl_accountProfileId slot, dr_reservationId = sl_reservationId slot\<rparr> now arbiter of
             Inl e \<Rightarrow> (Some (ArbiterFailed e), s1)
           | Inr arbiter1 \<Rightarrow> (None, used (s1 \<lparr>lc_accountReservations := Some arbiter1\<rparr>))))"

definition bind_slot :: "LocalDispatchSlot \<Rightarrow> LocalReservation \<Rightarrow> string \<Rightarrow> Capabilities \<Rightarrow> LocalError option \<times> Capabilities" where
  "bind_slot slot reservation runId s =
     (let s1 = s \<lparr>lc_reservations :=
            map_set (sl_reservationId slot) (reservation \<lparr>lr_runId := Some runId\<rparr>) (lc_reservations s)\<rparr> in
      case lc_accountReservations s1 of
        None \<Rightarrow> (None, s1)
      | Some arbiter \<Rightarrow>
          (case bind \<lparr>dr_accountProfileId = sl_accountProfileId slot, dr_reservationId = sl_reservationId slot\<rparr> runId arbiter of
             Inl e \<Rightarrow> (Some (ArbiterFailed e), s1)
           | Inr arbiter1 \<Rightarrow> (None, s1 \<lparr>lc_accountReservations := Some arbiter1\<rparr>)))"

definition was_released :: "DispatchSlotDisposition \<Rightarrow> Capabilities \<Rightarrow> bool" where
  "was_released disposition s \<longleftrightarrow>
     (case disposition_run disposition of None \<Rightarrow> False | Some runId \<Rightarrow> runId \<in> set (lc_releasedRunIds s))"

definition settle ::
  "LocalDispatchSlot \<Rightarrow> DispatchSlotDisposition \<Rightarrow> int \<Rightarrow> Capabilities \<Rightarrow> LocalError option \<times> Capabilities" where
  "settle slot disposition now s =
     (case map_of (lc_reservations s) (sl_reservationId slot) of
        None \<Rightarrow> (if was_released disposition s then (None, s) else (Some SlotNotReserved, s))
      | Some reservation \<Rightarrow>
          (if sl_accountProfileId (lr_slot reservation) \<noteq> sl_accountProfileId slot \<or>
              sl_repositoryId (lr_slot reservation) \<noteq> sl_repositoryId slot \<or>
              sl_repositoryPath (lr_slot reservation) \<noteq> sl_repositoryPath slot
           then (Some SlotNotReserved, s)
           else if disposition_run disposition \<noteq> None \<and> lr_runId reservation \<noteq> None \<and>
              lr_runId reservation \<noteq> disposition_run disposition
           then (Some DispositionRunMismatch, s)
           else if was_released disposition s then free_slot slot now s
           else
             (case disposition of
                SD_running runId \<Rightarrow> bind_slot slot reservation runId s
              | SD_ambiguous runId \<Rightarrow> bind_slot slot reservation runId s
              | SD_claim_failed \<Rightarrow> free_slot slot now s
              | SD_terminal runId \<Rightarrow> free_slot slot now (rememberReleased runId s)
              | SD_lease_lost runId \<Rightarrow> free_slot slot now (rememberReleased runId s)
              | SD_execution_failed runId \<Rightarrow> free_slot slot now (rememberReleased runId s))))"

definition releaseSlotOfRun :: "string \<Rightarrow> int \<Rightarrow> Capabilities \<Rightarrow> LocalDispatchSlot option \<times> Capabilities" where
  "releaseSlotOfRun runId now s =
     (let s1 = rememberReleased runId s in
      case List.find (\<lambda>(_, reservation). lr_runId reservation = Some runId) (lc_reservations s1) of
        None \<Rightarrow> (None, s1)
      | Some (reservationId, reservation) \<Rightarrow>
          (Some (lr_slot reservation),
           s1 \<lparr>lc_reservations := map_delete reservationId (lc_reservations s1),
              lc_accountReservations :=
                map_option (\<lambda>arbiter. snd (releaseRun runId now arbiter)) (lc_accountReservations s1),
              lc_lastUsed := map_set (sl_accountProfileId (lr_slot reservation)) now (lc_lastUsed s1)\<rparr>))"

subsection \<open>What may happen to the provider\<close>

text \<open>
  The steps of a provider and of its arbiter: the provider's own calls, and, between them, commands of
  the arbiter's other holders, which hold none of the provider's reservations and release none of
  its runs. A slot is made of an account the arbiter has just reserved. A call whose arbiter refused
  is not a step: the theorems are about runs in which no call failed half-way.
\<close>

definition foreign :: "Capabilities \<Rightarrow> Arbiter \<Rightarrow> ArbiterCommand \<Rightarrow> bool" where
  "foreign s arbiter cmd \<longleftrightarrow>
     (case cmd of
        Bind reservation runId \<Rightarrow> dr_reservationId reservation \<notin> fst ` set (lc_reservations s)
      | Release reservation now \<Rightarrow> dr_reservationId reservation \<notin> fst ` set (lc_reservations s)
      | ReleaseRun runId now \<Rightarrow> runId \<notin> set (slot_runs (lc_reservations s))
      | _ \<Rightarrow> True)"

definition half_done :: "LocalError option \<Rightarrow> bool" where
  "half_done e \<longleftrightarrow> (case e of Some (ArbiterFailed _) \<Rightarrow> True | _ \<Rightarrow> False)"

inductive caps_step ::
  "(string \<Rightarrow> string \<Rightarrow> int) \<Rightarrow> (string \<Rightarrow> js_number) \<Rightarrow> bool \<Rightarrow> Capabilities \<Rightarrow> Capabilities \<Rightarrow> bool"
  for lc parse refreshable where
  step_begin: "caps_step lc parse refreshable s (snd (acquire_begin parse refreshable accounts now repositoryId s))"
| step_foreign: "lc_accountReservations s = Some arbiter \<Longrightarrow> foreign s arbiter cmd \<Longrightarrow>
    caps_step lc parse refreshable s (s \<lparr>lc_accountReservations := Some (arbiter_exec lc parse refreshable cmd arbiter)\<rparr>)"
| step_shared: "lc_accountReservations s = Some arbiter \<Longrightarrow>
    map_of (ar_reservations arbiter) (dr_reservationId given) =
      Some \<lparr>rv_accountProfileId = dr_accountProfileId given, rv_runId = None\<rparr> \<Longrightarrow>
    dr_reservationId given \<notin> fst ` set (lc_reservations s) \<Longrightarrow>
    caps_step lc parse refreshable s (snd (acquire_shared repositoryId repositoryPath (Some given) s))"
| step_own: "lc_accountReservations s = None \<Longrightarrow>
    caps_step lc parse refreshable s (snd (acquire_own lc parse repositoryId repositoryPath available now s))"
| step_settle: "\<not> half_done (fst (settle slot disposition now s)) \<Longrightarrow>
    caps_step lc parse refreshable s (snd (settle slot disposition now s))"
| step_release: "caps_step lc parse refreshable s (snd (releaseSlotOfRun runId now s))"

subsection \<open>The provider's slots and the arbiter's lanes\<close>

definition mirrored :: "(string \<rightharpoonup> LocalReservation) \<Rightarrow> (string \<rightharpoonup> Reservation) \<Rightarrow> bool" where
  "mirrored L R \<longleftrightarrow> (\<forall>k res. L k = Some res \<longrightarrow> R k =
     Some \<lparr>rv_accountProfileId = sl_accountProfileId (lr_slot res), rv_runId = lr_runId res\<rparr>)"

definition own_issued :: "nat \<Rightarrow> string \<Rightarrow> bool" where
  "own_issued next key \<longleftrightarrow> (\<exists>n<next. key = own_reservation_id n) \<or> (\<exists>runId. key = recovered_id runId)"

definition own_keys :: "nat \<Rightarrow> (string \<times> LocalReservation) list \<Rightarrow> bool" where
  "own_keys next es \<longleftrightarrow> (\<forall>k\<in>fst ` set es. own_issued next k)"

definition accounts_apart :: "(string \<rightharpoonup> LocalReservation) \<Rightarrow> bool" where
  "accounts_apart L \<longleftrightarrow> (\<forall>k k' res res'. L k = Some res \<longrightarrow> L k' = Some res' \<longrightarrow>
     sl_accountProfileId (lr_slot res) = sl_accountProfileId (lr_slot res') \<longrightarrow> k = k')"

definition keyed :: "(string \<rightharpoonup> LocalReservation) \<Rightarrow> bool" where
  "keyed L \<longleftrightarrow> (\<forall>k res. L k = Some res \<longrightarrow> sl_reservationId (lr_slot res) = k)"

definition caps_ok :: "Capabilities \<Rightarrow> bool" where
  "caps_ok s \<longleftrightarrow> distinct (map fst (lc_reservations s)) \<and>
     keyed (map_of (lc_reservations s)) \<and>
     (case lc_accountReservations s of
        None \<Rightarrow> accounts_apart (map_of (lc_reservations s)) \<and>
          own_keys (lc_nextReservation s) (lc_reservations s)
      | Some arbiter \<Rightarrow> arbiter_ok arbiter \<and> mirrored (map_of (lc_reservations s)) (map_of (ar_reservations arbiter)))"

lemma fst_map_set: "fst ` set (map_set k v es) = insert k (fst ` set es)"
  by (simp flip: dom_map_of_conv_image_fst)

lemma distinct_map_set: "distinct (map fst es) \<Longrightarrow> distinct (map fst (map_set k v es))"
proof (induction es)
  case (Cons e es)
  have "fst e \<notin> fst ` set (map_set k v es)" if "fst e \<noteq> k" using that Cons.prems by (simp add: fst_map_set)
  with Cons show ?case by (cases e) auto
qed simp

lemma distinct_map_delete: "distinct (map fst es) \<Longrightarrow> distinct (map fst (map_delete k es))"
  unfolding map_delete_def by (rule distinct_map_filter)

lemma fst_map_delete: "fst ` set (map_delete k es) = fst ` set es - {k}"
  by (auto simp: map_of_map_delete simp flip: dom_map_of_conv_image_fst)

lemma own_keys_delete: "own_keys n es \<Longrightarrow> own_keys n (map_delete k es)"
  unfolding own_keys_def fst_map_delete by blast

lemma own_keys_set: "own_keys n es \<Longrightarrow> own_issued n k \<Longrightarrow> own_keys n (map_set k v es)"
  unfolding own_keys_def fst_map_set by blast

lemma keyed_drop: "keyed L \<Longrightarrow> keyed (L(k := None))"
  by (simp add: keyed_def)

lemma keyed_set: "keyed L \<Longrightarrow> sl_reservationId (lr_slot res) = k \<Longrightarrow> keyed (L(k \<mapsto> res))"
  by (simp add: keyed_def)

lemma accounts_apart_drop: "accounts_apart L \<Longrightarrow> accounts_apart (L(k := None))"
  by (simp add: accounts_apart_def)

abbreviation lane_record :: "LocalReservation \<Rightarrow> Reservation" where
  "lane_record res \<equiv> \<lparr>rv_accountProfileId = sl_accountProfileId (lr_slot res), rv_runId = lr_runId res\<rparr>"

lemma mirrored_drop: "mirrored L R \<Longrightarrow> mirrored (L(k := None)) (R(k := None))"
  by (auto simp: mirrored_def)

lemma mirrored_other: "mirrored L R \<Longrightarrow> L k = None \<Longrightarrow> mirrored L (R(k := v))"
  by (auto simp: mirrored_def)

lemma mirrored_both: "mirrored L R \<Longrightarrow> mirrored (L(k \<mapsto> res)) (R(k \<mapsto> lane_record res))"
  by (auto simp: mirrored_def)

lemma mirrored_add: "mirrored L R \<Longrightarrow> R k = Some (lane_record res) \<Longrightarrow> mirrored (L(k \<mapsto> res)) R"
  by (auto simp: mirrored_def)

lemma slot_runs_member:
  "runId \<in> set (slot_runs es) \<longleftrightarrow> (\<exists>e\<in>set es. lr_runId (snd e) = Some runId)"
  by (force simp: slot_runs_def split: option.splits)

lemma absent_key: "k \<notin> fst ` set es \<longleftrightarrow> map_of es k = None"
  by (simp add: map_of_eq_None_iff)

text \<open>The arbiter's own operations, as updates of its map.\<close>

lemma bind_map:
  assumes "bind reservation runId a = Inr a'" and "map_of (ar_reservations a) (dr_reservationId reservation) = Some cur"
  shows "map_of (ar_reservations a') = (map_of (ar_reservations a))(dr_reservationId reservation \<mapsto> cur \<lparr>rv_runId := Some runId\<rparr>)"
  using assms by (auto simp: bind_def require_reservation_def split: option.splits if_splits)

lemma bind_map_exists: "bind reservation runId a = Inr a' \<Longrightarrow> \<exists>r. map_of (ar_reservations a') = (map_of (ar_reservations a))(dr_reservationId reservation := r)"
  by (auto simp: bind_def require_reservation_def split: option.splits if_splits)

lemma release_map:
  "release reservation now a = Inr a' \<Longrightarrow> map_of (ar_reservations a') = (map_of (ar_reservations a))(dr_reservationId reservation := None)"
  by (auto simp: release_def require_reservation_def map_of_map_delete split: option.splits if_splits)

lemma releaseRun_map:
  assumes "arbiter_ok a" and "map_of (ar_reservations a) k = Some cur" and "rv_runId cur = Some runId"
  shows "map_of (ar_reservations (snd (releaseRun runId now a))) = (map_of (ar_reservations a))(k := None)"
proof -
  obtain res a' where run: "releaseRun runId now a = (res, a')" by fastforce
  from assms(2) have member: "(k, cur) \<in> set (ar_reservations a)" by (rule map_of_SomeD)
  from run assms(1) show ?thesis
  proof (cases rule: releaseRun_cases)
    case absent
    with member assms(3) show ?thesis by (auto simp: bound_runs_member)
  next
    case (freed xs ys k' cur')
    from assms(1) have "distinct (bound_runs (ar_reservations a))" by (simp add: arbiter_ok_def)
    then have apart: "runId \<notin> set (bound_runs xs)" "runId \<notin> set (bound_runs ys)" by (auto simp: freed(1,2))
    have "(k, cur) = (k', cur')"
      using member apart assms(3) unfolding freed(1) by (fastforce simp: bound_runs_member)
    moreover from assms(1) have "k' \<notin> fst ` set xs" "k' \<notin> fst ` set ys" by (auto simp: arbiter_ok_def freed(1))
    ultimately show ?thesis using map_of_remove [of k' xs ys cur'] by (simp add: run freed(1,4))
  qed
qed

lemma releaseRun_map_exists:
  assumes "arbiter_ok a"
  shows "ar_reservations (snd (releaseRun runId now a)) = ar_reservations a \<or>
    (\<exists>k cur. map_of (ar_reservations a) k = Some cur \<and> rv_runId cur = Some runId)"
proof -
  obtain res a' where run: "releaseRun runId now a = (res, a')" by fastforce
  from run assms show ?thesis
  proof (cases rule: releaseRun_cases)
    case (freed xs ys k cur)
    from assms have "k \<notin> fst ` set xs" by (auto simp: arbiter_ok_def freed(1))
    then have "map_of (ar_reservations a) k = Some cur" unfolding freed(1) by (rule map_of_at)
    with freed(2) show ?thesis by blast
  qed (simp add: run)
qed

lemma foreign_mirrored:
  assumes ok: "arbiter_ok a" and m: "mirrored (map_of (lc_reservations s)) (map_of (ar_reservations a))"
    and cmd: "foreign s a cmd"
  shows "mirrored (map_of (lc_reservations s)) (map_of (ar_reservations (arbiter_exec lc parse refreshable cmd a)))"
proof (cases cmd)
  case (AcquireLane available now)
  obtain res a' where run: "acquire_lane lc parse available now a = (res, a')" by fastforce
  from run ok show ?thesis
  proof (cases rule: acquire_lane_cases)
    case (lane account)
    let ?k = "reservation_id (ar_nextReservation a)"
    from ok fresh_reservation_id have "?k \<notin> fst ` set (ar_reservations a)" unfolding arbiter_ok_def by blast
    then have "map_of (ar_reservations a) ?k = None" by (simp add: absent_key)
    moreover from this m have "map_of (lc_reservations s) ?k = None"
      by (cases "map_of (lc_reservations s) ?k") (auto simp: mirrored_def)
    moreover have "map_of (es @ [(k, v)]) = (map_of es)(k \<mapsto> v)" if "map_of es k = None" for es :: "(string \<times> Reservation) list" and k v
      using that by (auto simp: map_add_def fun_eq_iff split: option.splits)
    ultimately show ?thesis using m by (simp add: AcquireLane run lane(5) mirrored_other)
  qed (simp add: AcquireLane run m)
next
  case (Bind reservation runId)
  show ?thesis
  proof (cases "bind reservation runId a")
    case (Inr a')
    from bind_map_exists [OF Inr] m cmd show ?thesis
      by (auto simp: Bind Inr kept_def foreign_def absent_key intro: mirrored_other)
  qed (simp add: Bind kept_def m)
next
  case (Release reservation now)
  show ?thesis
  proof (cases "release reservation now a")
    case (Inr a')
    with m cmd show ?thesis
      by (simp add: Release kept_def foreign_def absent_key release_map mirrored_other)
  qed (simp add: Release kept_def m)
next
  case (ReleaseRun runId now)
  from releaseRun_map_exists [OF ok, of runId now] show ?thesis
  proof (elim disjE exE conjE)
    fix k cur
    assume cur: "map_of (ar_reservations a) k = Some cur" "rv_runId cur = Some runId"
    have "map_of (lc_reservations s) k = None"
    proof (cases "map_of (lc_reservations s) k")
      case (Some res)
      with m cur have "lr_runId res = Some runId" by (auto simp: mirrored_def)
      with map_of_SomeD [OF Some] have "runId \<in> set (slot_runs (lc_reservations s))" by (force simp: slot_runs_member)
      with cmd show ?thesis by (simp add: ReleaseRun foreign_def)
    qed
    with m show ?thesis by (simp add: ReleaseRun releaseRun_map [OF ok cur] mirrored_other)
  qed (simp add: ReleaseRun m)
qed (simp_all add: currentAvailableAccounts_def m)

lemma free_slot_ok:
  assumes "caps_ok s" and "free_slot slot now s = (e, s')" and "\<not> half_done e"
  shows "caps_ok s' \<and> e = None \<and> lc_reservations s' = map_delete (sl_reservationId slot) (lc_reservations s) \<and>
    lc_releasedRunIds s' = lc_releasedRunIds s \<and>
    (case lc_accountReservations s' of None \<Rightarrow> True | Some a \<Rightarrow> sl_reservationId slot \<notin> fst ` set (ar_reservations a))"
proof (cases "lc_accountReservations s")
  case None
  with assms show ?thesis
    by (auto simp: caps_ok_def free_slot_def map_of_map_delete distinct_map_delete own_keys_delete accounts_apart_drop keyed_drop Let_def)
next
  case (Some a)
  let ?r = "\<lparr>dr_accountProfileId = sl_accountProfileId slot, dr_reservationId = sl_reservationId slot\<rparr>"
  from assms Some obtain a' where a': "release ?r now a = Inr a'"
    by (auto simp: free_slot_def half_done_def Let_def split: sum.splits)
  have "arbiter_ok (arbiter_exec undefined undefined undefined (Release ?r now) a)"
    using assms(1) Some by (intro arbiter_exec_ok) (simp add: caps_ok_def)
  then have "arbiter_ok a'" by (simp add: a' kept_def)
  with assms Some a' show ?thesis
    by (auto simp: caps_ok_def free_slot_def map_of_map_delete distinct_map_delete release_map mirrored_drop keyed_drop absent_key Let_def)
qed

lemma rememberReleased_simps [simp]:
  "lc_reservations (rememberReleased runId s) = lc_reservations s"
  "lc_accountReservations (rememberReleased runId s) = lc_accountReservations s"
  "lc_nextReservation (rememberReleased runId s) = lc_nextReservation s"
  unfolding rememberReleased_def Let_def by simp_all

lemma rememberReleased_ok: "caps_ok (rememberReleased runId s) \<longleftrightarrow> caps_ok s"
  by (simp add: caps_ok_def split: option.split)

lemma accounts_apart_add:
  assumes "accounts_apart L" and "\<And>k res'. L k = Some res' \<Longrightarrow> sl_accountProfileId (lr_slot res') \<noteq> sl_accountProfileId (lr_slot res)"
  shows "accounts_apart (L(k \<mapsto> res))"
  using assms(1) assms(2) assms(2) [symmetric] unfolding accounts_apart_def fun_upd_apply
  by (metis option.inject)

lemma accounts_apart_update:
  "accounts_apart L \<Longrightarrow> L k = Some old \<Longrightarrow> lr_slot res = lr_slot old \<Longrightarrow> accounts_apart (L(k \<mapsto> res))"
  by (auto simp: accounts_apart_def)

lemma bind_slot_ok:
  assumes "caps_ok s" and "bind_slot slot reservation runId s = (e, s')" and "\<not> half_done e"
    and "map_of (lc_reservations s) (sl_reservationId slot) = Some reservation"
    and "sl_accountProfileId (lr_slot reservation) = sl_accountProfileId slot"
  shows "caps_ok s'"
proof -
  let ?k = "sl_reservationId slot" and ?new = "reservation \<lparr>lr_runId := Some runId\<rparr>"
  have member: "?k \<in> fst ` set (lc_reservations s)" using assms(4) by (metis absent_key option.distinct(1))
  from assms(1) have keys: "keyed (map_of (lc_reservations s))" by (simp add: caps_ok_def)
  with assms(4) have "sl_reservationId (lr_slot ?new) = ?k" by (simp add: keyed_def)
  with keys have kept_key: "keyed ((map_of (lc_reservations s))(?k \<mapsto> ?new))" by (rule keyed_set)
  show ?thesis
  proof (cases "lc_accountReservations s")
    case None
    then have "s' = s \<lparr>lc_reservations := map_set ?k ?new (lc_reservations s)\<rparr>"
      using assms(2) by (simp add: bind_slot_def)
    moreover have "accounts_apart ((map_of (lc_reservations s))(?k \<mapsto> ?new))"
      using assms(1,4) None by (intro accounts_apart_update) (auto simp: caps_ok_def)
    moreover have "own_keys (lc_nextReservation s) (map_set ?k ?new (lc_reservations s))"
      using assms(1) None member by (intro own_keys_set) (auto simp: caps_ok_def own_keys_def)
    ultimately show ?thesis using None assms(1) kept_key by (simp add: caps_ok_def distinct_map_set)
  next
    case (Some a)
    let ?r = "\<lparr>dr_accountProfileId = sl_accountProfileId slot, dr_reservationId = ?k\<rparr>"
    from assms(2,3) Some obtain a' where a': "bind ?r runId a = Inr a'"
      and s': "s' = s \<lparr>lc_reservations := map_set ?k ?new (lc_reservations s), lc_accountReservations := Some a'\<rparr>"
      by (auto simp: bind_slot_def half_done_def Let_def split: sum.splits)
    have "arbiter_ok (arbiter_exec undefined undefined undefined (Bind ?r runId) a)"
      using assms(1) Some by (intro arbiter_exec_ok) (simp add: caps_ok_def)
    then have "arbiter_ok a'" by (simp add: a' kept_def)
    moreover from assms(1,4) Some have cur: "map_of (ar_reservations a) ?k = Some (lane_record reservation)"
      by (simp add: caps_ok_def mirrored_def)
    then have "map_of (ar_reservations a') = (map_of (ar_reservations a))(?k \<mapsto> lane_record ?new)"
      using bind_map [OF a'] by simp
    ultimately show ?thesis
      using assms(1) Some kept_key mirrored_both [of _ _ ?k ?new]
      by (simp add: caps_ok_def s' distinct_map_set)
  qed
qed

lemma settle_cases:
  assumes "settle slot disposition now s = (e, s')"
  obtains (kept) "s' = s"
  | (freed) s1 where "s1 = s \<or> (\<exists>runId. s1 = rememberReleased runId s)" "free_slot slot now s1 = (e, s')"
  | (bound) reservation runId where "map_of (lc_reservations s) (sl_reservationId slot) = Some reservation"
      "sl_accountProfileId (lr_slot reservation) = sl_accountProfileId slot" "\<not> was_released disposition s"
      "bind_slot slot reservation runId s = (e, s')"
proof (cases "map_of (lc_reservations s) (sl_reservationId slot)")
  case None
  with assms show thesis by (intro kept) (auto simp: settle_def split: if_splits)
next
  case (Some reservation)
  consider "s' = s" | "free_slot slot now s = (e, s')"
    | runId where "free_slot slot now (rememberReleased runId s) = (e, s')"
    | runId where "bind_slot slot reservation runId s = (e, s')" "\<not> was_released disposition s"
        "sl_accountProfileId (lr_slot reservation) = sl_accountProfileId slot"
    using assms Some by (cases disposition) (auto simp: settle_def split: if_splits)
  then show thesis
  proof cases
    case 1
    then show thesis by (rule kept)
  next
    case 2
    then show thesis by (intro freed [of s]) simp_all
  next
    case (3 runId)
    then show thesis by (intro freed [of "rememberReleased runId s"]) auto
  next
    case (4 runId)
    with Some show thesis by (intro bound)
  qed
qed

lemma settle_ok:
  assumes "caps_ok s" and "settle slot disposition now s = (e, s')" and "\<not> half_done e"
  shows "caps_ok s'"
  using assms(2)
proof (cases rule: settle_cases)
  case (freed s1)
  with assms(1) have "caps_ok s1" by (auto simp: rememberReleased_ok)
  with freed(2) assms(3) free_slot_ok show ?thesis by blast
next
  case (bound reservation runId)
  with assms bind_slot_ok show ?thesis by blast
qed (use assms(1) in simp)

lemma releaseSlotOfRun_cases:
  obtains (absent) "releaseSlotOfRun runId now s = (None, rememberReleased runId s)" "runId \<notin> set (slot_runs (lc_reservations s))"
  | (found) k reservation where "(k, reservation) \<in> set (lc_reservations s)" "lr_runId reservation = Some runId"
      "releaseSlotOfRun runId now s = (Some (lr_slot reservation), (rememberReleased runId s)
         \<lparr>lc_reservations := map_delete k (lc_reservations s),
          lc_accountReservations := map_option (\<lambda>arbiter. snd (releaseRun runId now arbiter)) (lc_accountReservations s),
          lc_lastUsed := map_set (sl_accountProfileId (lr_slot reservation)) now (lc_lastUsed (rememberReleased runId s))\<rparr>)"
proof (cases "List.find (\<lambda>(_, reservation). lr_runId reservation = Some runId) (lc_reservations s)")
  case None
  moreover from None have "runId \<notin> set (slot_runs (lc_reservations s))"
    by (force simp: slot_runs_member find_None_iff)
  ultimately show thesis by (intro absent) (simp_all add: releaseSlotOfRun_def Let_def)
next
  case (Some p)
  obtain k reservation where p: "p = (k, reservation)" by (cases p)
  from Some p have "(k, reservation) \<in> set (lc_reservations s)" "lr_runId reservation = Some runId"
    by (auto simp: find_Some_iff in_set_conv_nth)
  with Some p show thesis by (intro found) (simp_all add: releaseSlotOfRun_def Let_def)
qed

lemma releaseSlotOfRun_ok:
  assumes "caps_ok s"
  shows "caps_ok (snd (releaseSlotOfRun runId now s))"
proof (cases rule: releaseSlotOfRun_cases [of runId now s])
  case absent
  with assms show ?thesis by (simp add: rememberReleased_ok)
next
  case (found k reservation)
  show ?thesis
  proof (cases "lc_accountReservations s")
    case None
    with found assms show ?thesis
      by (simp add: caps_ok_def map_of_map_delete distinct_map_delete own_keys_delete accounts_apart_drop keyed_drop)
  next
    case (Some a)
    from found(1) assms have "map_of (lc_reservations s) k = Some reservation" by (simp add: caps_ok_def)
    with assms Some have at: "map_of (ar_reservations a) k = Some (lane_record reservation)" and ok: "arbiter_ok a"
      by (simp_all add: caps_ok_def mirrored_def)
    have "arbiter_ok (arbiter_exec undefined undefined undefined (ReleaseRun runId now) a)"
      using ok by (rule arbiter_exec_ok)
    with at ok found assms Some show ?thesis
      by (simp add: caps_ok_def map_of_map_delete distinct_map_delete keyed_drop releaseRun_map mirrored_drop)
  qed
qed

lemma own_reservation_id_inject: "own_reservation_id m = own_reservation_id n \<longleftrightarrow> m = n"
proof
  assume "own_reservation_id m = own_reservation_id n"
  then have "pad_start 8 CHR ''0'' (decimal m) = pad_start 8 CHR ''0'' (decimal n)"
    by (simp add: own_reservation_id_def)
  then have "read_digits (pad_start 8 CHR ''0'' (decimal m)) = read_digits (pad_start 8 CHR ''0'' (decimal n))" by simp
  then show "m = n" by simp
qed simp

lemma own_not_recovered: "own_reservation_id n \<noteq> recovered_id runId"
  by (simp add: own_reservation_id_def recovered_id_def)

lemma own_fresh: "own_issued next k \<Longrightarrow> k \<noteq> own_reservation_id next"
  by (auto simp: own_issued_def own_reservation_id_inject own_not_recovered own_not_recovered [symmetric])

lemma own_keys_next: "own_keys n es \<Longrightarrow> own_keys (Suc n) es"
  unfolding own_keys_def own_issued_def by (meson less_SucI)

lemma slot_accounts_map:
  "map_of es k = Some res \<Longrightarrow> sl_accountProfileId (lr_slot res) \<in> set (slot_accounts es)"
  by (force simp: slot_accounts_def dest: map_of_SomeD)

lemma acquire_own_ok:
  assumes "caps_ok s" and none: "lc_accountReservations s = None"
  shows "caps_ok (snd (acquire_own lc parse repositoryId repositoryPath available now s))"
proof (cases "js_sort (compareDispatchAccounts lc parse (lc_lastUsed s) now)
    (filter (\<lambda>account. ac_id account \<notin> set (slot_accounts (lc_reservations s))) available)")
  case Nil
  with assms show ?thesis by (simp add: acquire_own_def)
next
  case (Cons account rest)
  let ?k = "own_reservation_id (lc_nextReservation s)"
  let ?res = "\<lparr>lr_slot = \<lparr>sl_accountProfileId = ac_id account, sl_repositoryId = repositoryId,
    sl_repositoryPath = repositoryPath, sl_reservationId = ?k\<rparr>, lr_runId = None\<rparr>"
  from Cons have "account \<in> set (js_sort (compareDispatchAccounts lc parse (lc_lastUsed s) now)
      (filter (\<lambda>account. ac_id account \<notin> set (slot_accounts (lc_reservations s))) available))" by simp
  then have free: "ac_id account \<notin> set (slot_accounts (lc_reservations s))" by simp
  have after: "snd (acquire_own lc parse repositoryId repositoryPath available now s) =
      s \<lparr>lc_nextReservation := Suc (lc_nextReservation s), lc_reservations := map_set ?k ?res (lc_reservations s)\<rparr>"
    using Cons by (simp add: acquire_own_def Let_def)
  have "accounts_apart ((map_of (lc_reservations s))(?k \<mapsto> ?res))"
  proof (rule accounts_apart_add)
    show "accounts_apart (map_of (lc_reservations s))" using assms by (simp add: caps_ok_def)
    show "sl_accountProfileId (lr_slot res) \<noteq> sl_accountProfileId (lr_slot ?res)"
      if "map_of (lc_reservations s) k = Some res" for k res
      using slot_accounts_map [OF that] free by auto
  qed
  moreover have "keyed ((map_of (lc_reservations s))(?k \<mapsto> ?res))"
    using assms(1) by (intro keyed_set) (simp_all add: caps_ok_def)
  moreover have "own_keys (Suc (lc_nextReservation s)) (map_set ?k ?res (lc_reservations s))"
    using assms by (intro own_keys_set own_keys_next) (auto simp: caps_ok_def own_issued_def)
  ultimately show ?thesis using assms by (simp add: after caps_ok_def distinct_map_set)
qed

lemma acquire_begin_ok:
  assumes "caps_ok s"
  shows "caps_ok (snd (acquire_begin parse refreshable accounts now repositoryId s))"
proof (cases "js_map_of (lc_repositories s) repositoryId")
  case (Some path)
  have "arbiter_ok (snd (currentAvailableAccounts parse refreshable accounts now a))" if "arbiter_ok a" for a
    using arbiter_exec_ok [OF that, of undefined parse refreshable "Observe accounts now"] by simp
  with Some assms show ?thesis
    by (auto simp: acquire_begin_def caps_ok_def currentAvailableAccounts_def split: option.splits)
qed (simp add: acquire_begin_def assms)

lemma acquire_shared_ok:
  assumes "caps_ok s" and "lc_accountReservations s = Some arbiter"
    and "map_of (ar_reservations arbiter) (dr_reservationId given) =
      Some \<lparr>rv_accountProfileId = dr_accountProfileId given, rv_runId = None\<rparr>"
  shows "caps_ok (snd (acquire_shared repositoryId repositoryPath (Some given) s))"
  using assms by (simp add: acquire_shared_def caps_ok_def Let_def distinct_map_set keyed_set mirrored_add)

lemma caps_step_ok: "caps_step lc parse refreshable s s' \<Longrightarrow> caps_ok s \<Longrightarrow> caps_ok s'"
proof (induction rule: caps_step.induct)
  case (step_foreign s arbiter cmd)
  then show ?case by (simp add: caps_ok_def arbiter_exec_ok foreign_mirrored)
next
  case (step_settle slot disposition now s)
  then show ?case using settle_ok [OF _ prod.collapse [symmetric]] by blast
qed (simp_all add: acquire_begin_ok acquire_shared_ok acquire_own_ok releaseSlotOfRun_ok)

subsection \<open>Properties\<close>

inductive caps_run ::
  "(string \<Rightarrow> string \<Rightarrow> int) \<Rightarrow> (string \<Rightarrow> js_number) \<Rightarrow> bool \<Rightarrow> Capabilities \<Rightarrow> Capabilities \<Rightarrow> bool"
  for lc parse refreshable where
  run_start: "caps_run lc parse refreshable s s"
| run_step: "caps_run lc parse refreshable s t \<Longrightarrow> caps_step lc parse refreshable t u \<Longrightarrow> caps_run lc parse refreshable s u"

lemma caps_run_ok: "caps_run lc parse refreshable s s' \<Longrightarrow> caps_ok s \<Longrightarrow> caps_ok s'"
  by (induction rule: caps_run.induct) (simp_all add: caps_step_ok)

lemma slot_runs_delete: "set (slot_runs (map_delete k es)) \<subseteq> set (slot_runs es)"
  by (auto simp: slot_runs_def map_delete_def)

text \<open>A provider as a process starts it: over an arbiter just built from what was recovered, or over none.\<close>

definition started :: "Arbiter option \<Rightarrow> (string \<times> string) list \<Rightarrow> (string \<times> string \<times> string) list \<Rightarrow> Capabilities \<Rightarrow> bool" where
  "started arbiter repositories recovered s \<longleftrightarrow> new_capabilities arbiter repositories recovered = Inr s \<and>
     (case arbiter of None \<Rightarrow> True | Some a \<Rightarrow> \<exists>pairs. new_arbiter pairs = Inr a)"

lemma set_map_set_subset: "set (map_set k v es) \<subseteq> insert (k, v) (set es)"
  by (induction es) (auto split: if_splits)

lemma recovered_keys:
  "recover pairs accounts runs es = Inr es' \<Longrightarrow> \<forall>e\<in>set es. \<exists>r. fst e = recovered_id r \<and> rv_runId (snd e) = Some r \<Longrightarrow>
   \<forall>e\<in>set es'. \<exists>r. fst e = recovered_id r \<and> rv_runId (snd e) = Some r"
proof (induction pairs arbitrary: accounts runs es)
  case (Cons p pairs)
  obtain a r where p: "p = (a, r)" by (cases p)
  let ?es = "map_set (recovered_id r) \<lparr>rv_accountProfileId = a, rv_runId = Some r\<rparr> es"
  have "\<forall>e\<in>set ?es. \<exists>r. fst e = recovered_id r \<and> rv_runId (snd e) = Some r"
    using Cons.prems(2) set_map_set_subset by fastforce
  with Cons.IH [of _ _ ?es] Cons.prems(1) p show ?case by (auto split: if_splits)
qed simp

lemma fresh_owns:
  assumes "new_arbiter pairs = Inr a" and "owns runId account a"
  shows "map_of (ar_reservations a) (recovered_id runId) = Some \<lparr>rv_accountProfileId = account, rv_runId = Some runId\<rparr>"
proof -
  from assms(1) have "recover pairs [] [] [] = Inr (ar_reservations a)" by (auto simp: new_arbiter_def split: sum.splits)
  from recovered_keys [OF this] have keys: "\<forall>e\<in>set (ar_reservations a). \<exists>r. fst e = recovered_id r \<and> rv_runId (snd e) = Some r" by simp
  from assms(2) obtain k c where e: "(k, c) \<in> set (ar_reservations a)" "rv_runId c = Some runId" "rv_accountProfileId c = account"
    by (auto simp: owns_def list_ex_iff)
  with keys have "k = recovered_id runId" by fastforce
  moreover from e(2,3) have "c = \<lparr>rv_accountProfileId = account, rv_runId = Some runId\<rparr>" by simp
  ultimately show ?thesis using e(1) new_arbiter_ok [OF assms(1)] by (simp add: arbiter_ok_def)
qed

lemma recover_slots_ok:
  assumes "recover_slots repositories arbiter recovered accounts runs es = Inr es'"
    and "fst ` set es = recovered_id ` set runs" "set (slot_accounts es) = set accounts"
    and "distinct (map fst es)" "keyed (map_of es)" "accounts_apart (map_of es)"
    and "case arbiter of None \<Rightarrow> True | Some a \<Rightarrow> (\<exists>pairs. new_arbiter pairs = Inr a) \<and> mirrored (map_of es) (map_of (ar_reservations a))"
  shows "distinct (map fst es') \<and> keyed (map_of es') \<and> accounts_apart (map_of es') \<and> own_keys n es' \<and>
    (case arbiter of None \<Rightarrow> True | Some a \<Rightarrow> mirrored (map_of es') (map_of (ar_reservations a)))"
  using assms
proof (induction recovered arbitrary: accounts runs es)
  case Nil
  then show ?case by (auto simp: own_keys_def own_issued_def split: option.splits)
next
  case (Cons p rest)
  obtain a q r where p: "p = (a, q, r)" by (cases p) auto
  define res where "res = \<lparr>lr_slot = \<lparr>sl_accountProfileId = a, sl_repositoryId = q,
             sl_repositoryPath = (case js_map_of repositories q of None \<Rightarrow> [] | Some path \<Rightarrow> path),
             sl_reservationId = recovered_id r\<rparr>, lr_runId = Some r\<rparr>"
  have fields: "lane_record res = \<lparr>rv_accountProfileId = a, rv_runId = Some r\<rparr>"
    "sl_reservationId (lr_slot res) = recovered_id r" "sl_accountProfileId (lr_slot res) = a" "lr_runId res = Some r" by (simp_all add: res_def)
  from Cons.prems(1) p have ok: "a \<notin> set accounts" "r \<notin> set runs" "case arbiter of None \<Rightarrow> True | Some b \<Rightarrow> owns r a b"
    and rest: "recover_slots repositories arbiter rest (a # accounts) (r # runs) (map_set (recovered_id r) res es) = Inr es'"
    by (auto simp: res_def split: if_splits option.splits)
  from ok(2) Cons.prems(2) have new: "recovered_id r \<notin> fst ` set es" by auto
  have grown: "map_set (recovered_id r) res es = es @ [(recovered_id r, res)]" by (rule map_set_fresh [OF new])
  show ?case
  proof (rule Cons.IH [OF rest])
    show "set (slot_accounts (map_set (recovered_id r) res es)) = set (a # accounts)"
      using Cons.prems(3) by (simp add: grown slot_accounts_def fields)
    show "keyed (map_of (map_set (recovered_id r) res es))"
      unfolding map_of_map_set using Cons.prems(5) by (rule keyed_set) (simp add: fields)
    show "accounts_apart (map_of (map_set (recovered_id r) res es))"
      unfolding map_of_map_set
      using Cons.prems(3,6) ok(1) slot_accounts_map by (intro accounts_apart_add) (auto simp: fields)
    show "case arbiter of None \<Rightarrow> True | Some b \<Rightarrow> (\<exists>pairs. new_arbiter pairs = Inr b) \<and>
        mirrored (map_of (map_set (recovered_id r) res es)) (map_of (ar_reservations b))"
    proof (cases arbiter)
      case (Some b)
      with Cons.prems(7) ok(3) have "map_of (ar_reservations b) (recovered_id r) = Some (lane_record res)"
        by (auto simp: fields fresh_owns)
      with Some Cons.prems(7) show ?thesis by (simp only: option.case map_of_map_set) (blast intro: mirrored_add)
    qed simp
  qed (use Cons.prems in \<open>simp_all add: fst_map_set distinct_map_set\<close>)
qed

lemma started_ok:
  assumes "started arbiter repositories recovered s"
  shows "caps_ok s"
proof -
  from assms have slots: "recover_slots repositories arbiter recovered [] [] [] = Inr (lc_reservations s)"
    and arbiter: "lc_accountReservations s = arbiter"
    by (auto simp: started_def new_capabilities_def split: sum.splits)
  from assms have fresh: "case arbiter of None \<Rightarrow> True | Some a \<Rightarrow> \<exists>pairs. new_arbiter pairs = Inr a"
    by (simp add: started_def)
  have "case arbiter of None \<Rightarrow> True | Some a \<Rightarrow> (\<exists>pairs. new_arbiter pairs = Inr a) \<and> mirrored (map_of []) (map_of (ar_reservations a))"
    using fresh by (auto simp: mirrored_def split: option.splits)
  from recover_slots_ok [OF slots _ _ _ _ _ this, of "lc_nextReservation s"] fresh show ?thesis
    by (auto simp: caps_ok_def keyed_def accounts_apart_def slot_accounts_def arbiter new_arbiter_ok split: option.splits)
qed

text \<open>
  C19. Slots are lanes. In every run of the provider, with the other holders of the arbiter doing what
  they may in between, each slot the provider holds is reserved in the arbiter under the same id, for
  the same account and with the same run; so without half-done calls the two never disagree on who
  runs what. With no arbiter the provider's own accounts are never given twice.
\<close>

theorem slots_mirror_lanes:
  assumes "started arbiter repositories recovered s0" and "caps_run lc parse refreshable s0 s"
  shows "case lc_accountReservations s of
      Some a \<Rightarrow> mirrored (map_of (lc_reservations s)) (map_of (ar_reservations a)) \<and> arbiter_ok a
    | None \<Rightarrow> accounts_apart (map_of (lc_reservations s))"
  using caps_run_ok [OF assms(2) started_ok [OF assms(1)]] by (auto simp: caps_ok_def split: option.splits)


subsection \<open>A small run of the provider\<close>

text \<open>
  One recovered slot; the arbiter gives \<open>c\<close>, it becomes a slot, and the run that was meant for it is
  released before its report arrives.
\<close>

definition sample_caps :: Capabilities where
  "sample_caps = \<lparr>lc_accountReservations = Some sample_arbiter, lc_repositories = [(''repo'', ''path'')],
     lc_reservations = [(''recovered:r1'', \<lparr>lr_slot = \<lparr>sl_accountProfileId = ''a'', sl_repositoryId = ''repo'',
       sl_repositoryPath = ''path'', sl_reservationId = ''recovered:r1''\<rparr>, lr_runId = Some ''r1''\<rparr>)],
     lc_releasedRunIds = [], lc_lastUsed = [], lc_notified = [], lc_refresh = no_refresh, lc_nextReservation = 1\<rparr>"

definition sample_given :: DispatchAccountReservation where
  "sample_given = \<lparr>dr_accountProfileId = ''c'', dr_reservationId = ''account_reservation_00000001''\<rparr>"

definition sample_slot :: LocalDispatchSlot where
  "sample_slot = \<lparr>sl_accountProfileId = ''c'', sl_repositoryId = ''repo'', sl_repositoryPath = ''path'',
     sl_reservationId = ''account_reservation_00000001''\<rparr>"

definition sample_leased :: Arbiter where
  "sample_leased = arbiter_exec code_unit_compare sample_parse True (AcquireLane sample_accounts (Fin 2000)) sample_arbiter"

definition sample_late :: Capabilities where
  "sample_late = snd (releaseSlotOfRun ''r2'' 2500 (snd (acquire_shared ''repo'' ''path'' (Some sample_given)
     (sample_caps \<lparr>lc_accountReservations := Some sample_leased\<rparr>))))"

lemma sample_started: "started (Some sample_arbiter) [(''repo'', ''path'')] [(''a'', ''repo'', ''r1'')] sample_caps"
proof -
  have "new_capabilities (Some sample_arbiter) [(''repo'', ''path'')] [(''a'', ''repo'', ''r1'')] = Inr sample_caps" by code_simp
  then show ?thesis using sample_start by (auto simp: started_def)
qed

lemma sample_given_leased:
  "map_of (ar_reservations sample_leased) (dr_reservationId sample_given) =
     Some \<lparr>rv_accountProfileId = dr_accountProfileId sample_given, rv_runId = None\<rparr>"
  by code_simp

lemma sample_late_run: "caps_run code_unit_compare sample_parse True sample_caps sample_late"
proof -
  have "caps_step code_unit_compare sample_parse True sample_caps (sample_caps \<lparr>lc_accountReservations := Some sample_leased\<rparr>)"
    unfolding sample_leased_def by (rule step_foreign) (simp_all add: sample_caps_def foreign_def)
  moreover have "caps_step code_unit_compare sample_parse True (sample_caps \<lparr>lc_accountReservations := Some sample_leased\<rparr>)
      (snd (acquire_shared ''repo'' ''path'' (Some sample_given) (sample_caps \<lparr>lc_accountReservations := Some sample_leased\<rparr>)))"
    by (rule step_shared [OF _ sample_given_leased]) (simp_all add: sample_caps_def sample_given_def)
  ultimately show ?thesis
    unfolding sample_late_def by (blast intro: run_start run_step step_release)
qed

theorem slots_mirror_lanes_witness:
  "case lc_accountReservations sample_late of
     Some a \<Rightarrow> mirrored (map_of (lc_reservations sample_late)) (map_of (ar_reservations a)) \<and> arbiter_ok a
   | None \<Rightarrow> False"
proof -
  have "\<not> Option.is_none (lc_accountReservations sample_late)" by code_simp
  then show ?thesis using slots_mirror_lanes [OF sample_started sample_late_run] by (auto split: option.splits)
qed

lemma sample_late_report:
  "was_released (SD_running ''r2'') sample_late"
  "settle sample_slot (SD_running ''r2'') 2600 sample_late = (None, snd (settle sample_slot (SD_running ''r2'') 2600 sample_late))"
  by code_simp+


end
