(* ===== verification/SyncNumbers.thy ===== *)
theory SyncNumbers
  imports Prelude
begin

text \<open>
  The unsigned 64-bit counters of session sync: their canonical decimal text
  (\<open>packages/task-protocol/src/session-sync.ts\<close>) and the order keys, successors and comparisons over
  it (\<open>apps/web/convex/sessionSyncLaws.ts\<close>). A \<open>bigint\<close> is an \<^typ>\<open>int\<close>; a call that throws is \<open>None\<close>.
\<close>

subsection \<open>Canonical text\<close>

definition SYNC_UINT64_MAX :: int where "SYNC_UINT64_MAX = 2 ^ 64 - 1"
definition UINT64_ORDER_KEY_WIDTH :: nat where "UINT64_ORDER_KEY_WIDTH = 20"

text \<open>The pattern \<open>^(?:0|[1-9][0-9]{0,19})$\<close>.\<close>

definition canonical_digits :: "string \<Rightarrow> bool" where
  "canonical_digits s \<longleftrightarrow>
     s = ''0'' \<or> s \<noteq> [] \<and> list_all is_digit s \<and> hd s \<noteq> CHR ''0'' \<and> length s \<le> 20"

definition is_sync_uint64 :: "string \<Rightarrow> bool" where
  "is_sync_uint64 s \<longleftrightarrow> canonical_digits s \<and> int (read_digits s) \<le> SYNC_UINT64_MAX"

definition encodeSyncUint64 :: "int \<Rightarrow> string option" where
  "encodeSyncUint64 v =
     (if v < 0 \<or> v > SYNC_UINT64_MAX then None
      else let t = decimal (nat v) in if is_sync_uint64 t then Some t else None)"

definition decodeSyncUint64 :: "string \<Rightarrow> int option" where
  "decodeSyncUint64 s = (if is_sync_uint64 s then Some (int (read_digits s)) else None)"

text \<open>The inner option is the \<open>null\<close> of an exhausted counter.\<close>

definition nextSyncUint64 :: "string \<Rightarrow> string option option" where
  "nextSyncUint64 s =
     (case decodeSyncUint64 s of
        None \<Rightarrow> None
      | Some parsed \<Rightarrow>
          (if parsed = SYNC_UINT64_MAX then Some None
           else map_option Some (encodeSyncUint64 (parsed + 1))))"

definition nextRequiredSyncUint64 :: "string \<Rightarrow> string option" where
  "nextRequiredSyncUint64 s =
     (case nextSyncUint64 s of None \<Rightarrow> None | Some None \<Rightarrow> None | Some (Some next) \<Rightarrow> Some next)"

definition syncUint64OrderKey :: "string \<Rightarrow> string option" where
  "syncUint64OrderKey s =
     map_option (\<lambda>parsed. pad_start UINT64_ORDER_KEY_WIDTH CHR ''0'' (decimal (nat parsed))) (decodeSyncUint64 s)"

definition syncUint64ToSafeNumber :: "string \<Rightarrow> int option option" where
  "syncUint64ToSafeNumber s =
     map_option (\<lambda>parsed. if parsed > MAX_SAFE_INTEGER then None else Some parsed) (decodeSyncUint64 s)"

definition compareSyncUint64 :: "string \<Rightarrow> string \<Rightarrow> int option" where
  "compareSyncUint64 left right =
     (case (decodeSyncUint64 left, decodeSyncUint64 right) of
        (Some l, Some r) \<Rightarrow>
          (let difference = l - r in Some (if difference < 0 then -1 else if difference > 0 then 1 else 0))
      | _ \<Rightarrow> None)"

definition encodeServerCounter :: "int \<Rightarrow> string option" where
  "encodeServerCounter value = (if \<not> is_safe_integer value \<or> value < 0 then None else encodeSyncUint64 value)"

subsection \<open>Text and number\<close>

lemma decimal_zero: "decimal 0 = ''0''"
  by (simp add: decimal.simps zero_char(1))

lemma decimal_hd: "0 < n \<Longrightarrow> hd (decimal n) \<noteq> CHR ''0''"
proof (induction n rule: decimal.induct)
  case (1 n)
  show ?case
  proof (cases "n < 10")
    case True
    with 1(2) have "char_digit (digit_char n) \<noteq> char_digit CHR ''0''" by (simp add: zero_char(3))
    then have "digit_char n \<noteq> CHR ''0''" by metis
    with True show ?thesis by (simp add: decimal.simps [of n])
  next
    case False
    then have "0 < n div 10" by simp
    with 1(1) False show ?thesis by (simp add: decimal.simps [of n])
  qed
qed

lemma read_digits_Cons: "read_digits (c # s) = char_digit c * 10 ^ length s + read_digits s"
proof (induction s rule: rev_induct)
  case Nil
  then show ?case by (simp add: read_digits_def)
next
  case (snoc d s)
  have "read_digits (c # s @ [d]) = 10 * read_digits (c # s) + char_digit d"
    using read_digits_append [of "c # s" d] by simp
  with snoc show ?case by (simp add: read_digits_append algebra_simps)
qed

lemma read_digits_less: "list_all is_digit s \<Longrightarrow> read_digits s < 10 ^ length s"
proof (induction s)
  case (Cons c s)
  then have "char_digit c \<le> 9" and "read_digits s < 10 ^ length s" using char_digit_lt [of c] by simp_all
  then have "char_digit c * 10 ^ length s \<le> 9 * 10 ^ length s" by (intro mult_right_mono) simp_all
  with \<open>read_digits s < 10 ^ length s\<close> have "char_digit c * 10 ^ length s + read_digits s < 10 * 10 ^ length s" by linarith
  then show ?case by (simp add: read_digits_Cons del: mult_less_cancel2)
qed simp

lemma decimal_read:
  "list_all is_digit s \<Longrightarrow> s \<noteq> [] \<Longrightarrow> s = ''0'' \<or> hd s \<noteq> CHR ''0'' \<Longrightarrow> decimal (read_digits s) = s"
proof (induction s rule: rev_induct)
  case (snoc d s)
  have d: "is_digit d" "list_all is_digit s" using snoc.prems(1) by simp_all
  show ?case
  proof (cases "s = []")
    case True
    with d show ?thesis
      using char_digit_lt [of d] digit_char_digit [of d]
      by (simp add: read_digits_append [of "[]", simplified] decimal.simps)
  next
    case False
    with snoc.prems(3) have hd: "hd s \<noteq> CHR ''0''" by (cases s) auto
    with False d(2) snoc.IH have s: "decimal (read_digits s) = s" by blast
    have "0 < read_digits s"
    proof (rule ccontr)
      assume "\<not> 0 < read_digits s"
      with s have "s = decimal 0" by simp
      also have "\<dots> = ''0''" by (rule decimal_zero)
      finally show False using hd by simp
    qed
    moreover have "(10 * read_digits s + char_digit d) div 10 = read_digits s" "(10 * read_digits s + char_digit d) mod 10 = char_digit d"
      using char_digit_lt [OF d(1)] by simp_all
    ultimately show ?thesis
      using s digit_char_digit [OF d(1)] by (subst decimal.simps) (simp add: read_digits_append)
  qed
qed simp

lemma canonical_decimal: "int n \<le> SYNC_UINT64_MAX \<Longrightarrow> is_sync_uint64 (decimal n)"
proof -
  assume bound: "int n \<le> SYNC_UINT64_MAX"
  have "n < 10 ^ 20" using bound by (simp add: SYNC_UINT64_MAX_def)
  then have "length (decimal n) \<le> 20" by (rule decimal_length_le) simp
  moreover note decimal_zero
  moreover have "read_digits ''0'' = 0" by (metis decimal_zero read_decimal)
  ultimately show ?thesis
    using bound decimal_hd [of n] by (cases "n = 0") (simp_all add: is_sync_uint64_def canonical_digits_def decimal_digits)
qed

lemma decimal_of_canonical: "canonical_digits s \<Longrightarrow> decimal (read_digits s) = s"
  by (rule decimal_read) (auto simp: canonical_digits_def zero_char(2))

text \<open>Evaluation on binary integers.\<close>

definition digits_int :: "string \<Rightarrow> int" where
  "digits_int s = foldl (\<lambda>n c. 10 * n + (of_char c - 48)) 0 s"

function decimal_int :: "int \<Rightarrow> string" where
  "decimal_int v = (if v < 10 then [char_of (48 + v)] else decimal_int (v div 10) @ [char_of (48 + v mod 10)])"
  by auto
termination by (relation "measure nat") auto

declare decimal_int.simps [simp del]

lemma is_digit_int [code]: "is_digit c \<longleftrightarrow> 48 \<le> (of_char c :: int) \<and> (of_char c :: int) \<le> 57"
proof -
  have "(of_char c :: int) = int (of_char c)" by (simp add: of_nat_of_char)
  then show ?thesis by (simp add: is_digit_def)
qed

lemma digits_int: "list_all is_digit s \<Longrightarrow> digits_int s = int (read_digits s)"
proof (induction s rule: rev_induct)
  case (snoc c s)
  have "(of_char c :: int) = int (of_char c)" by (simp add: of_nat_of_char)
  with snoc show ?case by (simp add: digits_int_def read_digits_def char_digit_def is_digit_def)
qed (simp add: digits_int_def)

lemma digit_char_int: "digit_char d = char_of (48 + int d)"
proof -
  have "char_of (48 + int d) = char_of (48 + d)"
    using char_of_nat [where n = "48 + d" and 'a = int] by simp
  then show ?thesis by (simp add: digit_char_def)
qed

lemma decimal_int: "decimal_int (int n) = decimal n"
proof (induction n rule: decimal.induct)
  case (1 n)
  then show ?case
    by (simp add: decimal.simps [of n] decimal_int.simps [of "int n"] digit_char_int zdiv_int zmod_int)
qed

lemma encodeSyncUint64_code [code]:
  "encodeSyncUint64 v = (if v < 0 \<or> v > SYNC_UINT64_MAX then None else Some (decimal_int v))"
proof (cases "v < 0")
  case False
  then have "int (nat v) = v" by simp
  with canonical_decimal [of "nat v"] decimal_int [of "nat v"] False show ?thesis by (simp add: encodeSyncUint64_def Let_def)
qed (simp add: encodeSyncUint64_def)

lemma decodeSyncUint64_code [code]:
  "decodeSyncUint64 s = (if canonical_digits s \<and> digits_int s \<le> SYNC_UINT64_MAX then Some (digits_int s) else None)"
proof (cases "canonical_digits s")
  case True
  have "is_digit (CHR ''0'')" by (simp add: is_digit_def)
  with True have "list_all is_digit s" by (auto simp: canonical_digits_def)
  with True show ?thesis by (simp add: decodeSyncUint64_def is_sync_uint64_def digits_int)
qed (simp add: decodeSyncUint64_def is_sync_uint64_def)

lemma syncUint64OrderKey_code [code]:
  "syncUint64OrderKey s = (if decodeSyncUint64 s = None then None else Some (pad_start UINT64_ORDER_KEY_WIDTH CHR ''0'' s))"
  using decimal_of_canonical by (auto simp: syncUint64OrderKey_def decodeSyncUint64_def is_sync_uint64_def)

lemma digits_order:
  "list_all is_digit s \<Longrightarrow> list_all is_digit t \<Longrightarrow> length s = length t \<Longrightarrow> s < t \<longleftrightarrow> read_digits s < read_digits t"
proof (induction s arbitrary: t)
  case (Cons c s)
  then obtain d u where t: "t = d # u" "length s = length u" by (cases t) auto
  have digits: "is_digit c" "is_digit d" "list_all is_digit s" "list_all is_digit u" using Cons.prems t by simp_all
  have less: "c < d \<longleftrightarrow> char_digit c < char_digit d"
    using digits(1,2) by (simp add: less_char_def char_digit_def is_digit_def) arith
  have same: "c = d \<longleftrightarrow> char_digit c = char_digit d"
    using digit_char_digit [OF digits(1)] digit_char_digit [OF digits(2)] by metis
  have bounds: "read_digits s < 10 ^ length u" "read_digits u < 10 ^ length u"
    using read_digits_less [OF digits(3)] read_digits_less [OF digits(4)] t(2) by simp_all
  consider "char_digit c < char_digit d" | "char_digit c = char_digit d" | "char_digit d < char_digit c" by linarith
  then show ?case
  proof cases
    case 1
    then have "(char_digit c + 1) * 10 ^ length u \<le> char_digit d * 10 ^ length u" by (intro mult_right_mono) simp_all
    with bounds 1 show ?thesis by (simp add: t read_digits_Cons less add_mult_distrib)
  next
    case 2
    with Cons.IH [OF digits(3,4) t(2)] same show ?thesis by (simp add: t read_digits_Cons)
  next
    case 3
    then have "(char_digit d + 1) * 10 ^ length u \<le> char_digit c * 10 ^ length u" by (intro mult_right_mono) simp_all
    with bounds 3 less same show ?thesis by (simp add: t read_digits_Cons add_mult_distrib)
  qed
qed simp

lemma encode_decode: "encodeSyncUint64 v = Some s \<longleftrightarrow> decodeSyncUint64 s = Some v"
proof
  assume "encodeSyncUint64 v = Some s"
  then show "decodeSyncUint64 s = Some v"
    by (auto simp: encodeSyncUint64_def decodeSyncUint64_def Let_def split: if_splits)
next
  assume "decodeSyncUint64 s = Some v"
  then have "is_sync_uint64 s" "v = int (read_digits s)" by (auto simp: decodeSyncUint64_def split: if_splits)
  then show "encodeSyncUint64 v = Some s"
    by (simp add: encodeSyncUint64_def is_sync_uint64_def decimal_of_canonical)
qed

text \<open>
  C24. Canonical counters. Encoding and decoding are inverse partial functions, defined exactly on the
  unsigned 64-bit range, so two valid texts are equal exactly when their numbers are: comparing the
  texts, as every fence of session sync does, compares the counters.
\<close>

theorem sync_uint64_roundtrip:
  "(encodeSyncUint64 v = Some s \<longleftrightarrow> decodeSyncUint64 s = Some v) \<and>
   (encodeSyncUint64 v \<noteq> None \<longleftrightarrow> 0 \<le> v \<and> v \<le> SYNC_UINT64_MAX)"
proof -
  have "is_sync_uint64 (decimal (nat v))" if "0 \<le> v" "v \<le> SYNC_UINT64_MAX"
    using that by (intro canonical_decimal) simp
  then have "encodeSyncUint64 v \<noteq> None \<longleftrightarrow> 0 \<le> v \<and> v \<le> SYNC_UINT64_MAX"
    by (simp add: encodeSyncUint64_def Let_def)
  with encode_decode show ?thesis by blast
qed

lemma order_key: "decodeSyncUint64 c = Some k \<Longrightarrow> syncUint64OrderKey c = Some (pad_start 20 CHR ''0'' (decimal (nat k)))"
  by (simp add: syncUint64OrderKey_def UINT64_ORDER_KEY_WIDTH_def)

lemma order_key_less:
  assumes "decodeSyncUint64 a = Some m" and "decodeSyncUint64 b = Some n"
  shows "the (syncUint64OrderKey a) < the (syncUint64OrderKey b) \<longleftrightarrow> m < n"
proof -
  have width: "length (pad_start 20 CHR ''0'' (decimal (nat k))) = 20" and range: "0 \<le> k"
    if "decodeSyncUint64 c = Some k" for c k
  proof -
    from that have k: "0 \<le> k" "k \<le> SYNC_UINT64_MAX" by (auto simp: decodeSyncUint64_def is_sync_uint64_def split: if_splits)
    then have "nat k < 10 ^ 20" by (simp add: SYNC_UINT64_MAX_def)
    then have "length (decimal (nat k)) \<le> 20" by (rule decimal_length_le) simp
    then show "length (pad_start 20 CHR ''0'' (decimal (nat k))) = 20" by (simp add: length_pad_start)
    show "0 \<le> k" by (rule k(1))
  qed
  have digits: "list_all is_digit (pad_start 20 CHR ''0'' (decimal k))" for k
    by (rule digits_pad_start [OF decimal_digits])
  show ?thesis
    using digits_order [OF digits digits, of "nat m" "nat n"] width [OF assms(1)] width [OF assms(2)]
      range [OF assms(1)] range [OF assms(2)] by (auto simp: order_key [OF assms(1)] order_key [OF assms(2)])
qed

text \<open>
  C25. Order keys. For any two counters, the order keys compare as strings exactly as the numbers do,
  so an index over the keys is in numeric order; and the successor of a counter is one more, or an
  error at the last one, never a wrap-around.
\<close>

theorem order_key_numeric:
  assumes "decodeSyncUint64 a = Some m" and "decodeSyncUint64 b = Some n"
  shows "(the (syncUint64OrderKey a) < the (syncUint64OrderKey b) \<longleftrightarrow> m < n) \<and>
    (syncUint64OrderKey a = syncUint64OrderKey b \<longleftrightarrow> a = b) \<and>
    nextRequiredSyncUint64 a = (if m = SYNC_UINT64_MAX then None else encodeSyncUint64 (m + 1))"
proof -
  have range: "0 \<le> m" "0 \<le> n" using assms by (auto simp: decodeSyncUint64_def split: if_splits)
  note order_key_less [OF assms]
  moreover have "syncUint64OrderKey a = syncUint64OrderKey b \<longleftrightarrow> a = b"
  proof
    assume "syncUint64OrderKey a = syncUint64OrderKey b"
    then have "pad_start 20 CHR ''0'' (decimal (nat m)) = pad_start 20 CHR ''0'' (decimal (nat n))"
      by (simp add: order_key [OF assms(1)] order_key [OF assms(2)])
    then have "read_digits (pad_start 20 CHR ''0'' (decimal (nat m))) = read_digits (pad_start 20 CHR ''0'' (decimal (nat n)))" by simp
    then have "m = n" using range by simp
    with assms show "a = b" by (metis encode_decode option.inject)
  qed simp
  moreover have "nextRequiredSyncUint64 a = (if m = SYNC_UINT64_MAX then None else encodeSyncUint64 (m + 1))"
    using assms(1) by (auto simp: nextRequiredSyncUint64_def nextSyncUint64_def split: option.splits)
  ultimately show ?thesis by blast
qed

theorem order_key_numeric_witness: "the (syncUint64OrderKey ''9'') < the (syncUint64OrderKey ''10'')"
proof -
  have "decodeSyncUint64 ''9'' = Some 9" "decodeSyncUint64 ''10'' = Some 10" by code_simp+
  from order_key_numeric [OF this] show ?thesis by simp
qed

end
