(* ===== verification/SessionSync.thy ===== *)
theory SessionSync
  imports SyncNumbers TaskStore "HOL-Library.Monad_Syntax"
begin

text \<open>
  Session sync, the laws and the documents: \<open>apps/web/convex/sessionSyncLaws.ts\<close>, the tables of
  \<open>schema.ts\<close> it works on, and the handlers of \<open>sessionSyncModel.ts\<close> that only touch a device or one
  session entry (\<open>establishBoot\<close>, \<open>reserveSession\<close>, \<open>acquireWriter\<close>).

  Counters are their canonical text, as in the documents. The canonical JSON of an envelope is kept
  as the envelope: the program only compares it with canonical JSON and parses it back. A handler
  returns its result and the store; a thrown error is \<open>None\<close> and commits nothing.
\<close>

subsection \<open>Presence and quotas\<close>

datatype SyncErrorCode =
    SY_AUTHORIZATION_DENIED | SY_CONFLICT | SY_DIRECTORY_LIMIT | SY_DEVICE_LIMIT | SY_EVENT_LIMIT
  | SY_GRANT_EXPIRED | SY_INVALID_REQUEST | SY_MAINTENANCE_REQUIRED | SY_NOT_FOUND | SY_QUOTA_EXCEEDED
  | SY_RETIRED | SY_SEQUENCE_GAP | SY_STALE_BOOT | SY_STALE_MEMBERSHIP | SY_STALE_MIRROR | SY_STALE_REVISION
  | SY_STALE_WRITER | SY_RATE_LIMITED

definition MAX_SYNC_DEVICES :: int where "MAX_SYNC_DEVICES = 8"
definition MAX_SYNC_LOCAL_SESSIONS_PER_DEVICE :: int where "MAX_SYNC_LOCAL_SESSIONS_PER_DEVICE = 64"
definition MAX_SYNC_DIRECTORY_SESSIONS :: int where "MAX_SYNC_DIRECTORY_SESSIONS = 512"
definition MAX_SYNC_LIFETIME_DIRECTORY_IDENTITIES :: int where "MAX_SYNC_LIFETIME_DIRECTORY_IDENTITIES = 65536"
definition MAX_SYNC_ACTIVE_STREAMS :: int where "MAX_SYNC_ACTIVE_STREAMS = 64"
definition MAX_SYNC_RETAINED_CIPHERTEXT_BYTES :: int where "MAX_SYNC_RETAINED_CIPHERTEXT_BYTES = 64 * 1024 * 1024"
definition MAX_SYNC_RETAINED_EVENTS :: int where "MAX_SYNC_RETAINED_EVENTS = 8192"
definition SESSION_SYNC_DEVICE_ONLINE_TTL_MS :: int where "SESSION_SYNC_DEVICE_ONLINE_TTL_MS = 60000"
definition SESSION_SYNC_CREATION_GRANT_TTL_MS :: int where "SESSION_SYNC_CREATION_GRANT_TTL_MS = 2 * 60000"
definition SESSION_SYNC_TOMBSTONE_RETENTION_MS :: int where
  "SESSION_SYNC_TOMBSTONE_RETENTION_MS = 24 * 60 * 60 * 1000"
definition MAX_SESSION_SYNC_PENDING_ENROLLMENTS :: int where "MAX_SESSION_SYNC_PENDING_ENROLLMENTS = 8"

datatype SyncDeviceConnection = SD_online | SD_offline | SD_unknown

definition deviceConnectionState :: "bool \<Rightarrow> int option \<Rightarrow> int \<Rightarrow> SyncDeviceConnection option" where
  "deviceConnectionState revoked lastHeartbeatAt now =
     (if \<not> is_safe_integer now \<or> now < 0 then None
      else if revoked then Some SD_offline
      else case lastHeartbeatAt of
        None \<Rightarrow> Some SD_unknown
      | Some at \<Rightarrow>
          (if \<not> is_safe_integer at \<or> at < 0 \<or> at > now then Some SD_unknown
           else if now - at < SESSION_SYNC_DEVICE_ONLINE_TTL_MS then Some SD_online
           else Some SD_offline))"

definition enrollmentQuotaFailure :: "int \<Rightarrow> int \<Rightarrow> SyncErrorCode option option" where
  "enrollmentQuotaFailure activePendingRequests activeDevices =
     (if activePendingRequests < 0 \<or> activeDevices < 0 then None
      else if activePendingRequests \<ge> MAX_SESSION_SYNC_PENDING_ENROLLMENTS then Some (Some SY_QUOTA_EXCEEDED)
      else if activeDevices \<ge> MAX_SYNC_DEVICES then Some (Some SY_DEVICE_LIMIT)
      else Some None)"

record SyncQuotaSnapshot =
  qs_activeDevices :: int
  qs_directorySessions :: int
  qs_locallyOwnedSessions :: int
  qs_activeStreams :: int
  qs_retainedEvents :: int
  qs_retainedCiphertextBytes :: int

definition quotaFailure :: "SyncQuotaSnapshot \<Rightarrow> SyncErrorCode option" where
  "quotaFailure snapshot =
     (if qs_activeDevices snapshot > 8 then Some SY_DEVICE_LIMIT
      else if qs_directorySessions snapshot > MAX_SYNC_DIRECTORY_SESSIONS then Some SY_DIRECTORY_LIMIT
      else if qs_locallyOwnedSessions snapshot > MAX_SYNC_LOCAL_SESSIONS_PER_DEVICE then Some SY_DIRECTORY_LIMIT
      else if qs_activeStreams snapshot > MAX_SYNC_ACTIVE_STREAMS then Some SY_QUOTA_EXCEEDED
      else if qs_retainedEvents snapshot > MAX_SYNC_RETAINED_EVENTS then Some SY_EVENT_LIMIT
      else if qs_retainedCiphertextBytes snapshot > MAX_SYNC_RETAINED_CIPHERTEXT_BYTES then Some SY_QUOTA_EXCEEDED
      else None)"

subsection \<open>Envelopes and fences\<close>

datatype SyncEventKind =
    SE_created | SE_projection_changed | SE_turn_started | SE_activity | SE_terminal | SE_attention
  | SE_archived | SE_deleted

fun nextStreamState :: "bool \<Rightarrow> SyncEventKind \<Rightarrow> bool" where
  "nextStreamState current SE_turn_started = True"
| "nextStreamState current SE_activity = True"
| "nextStreamState current SE_terminal = False"
| "nextStreamState current SE_attention = False"
| "nextStreamState current SE_archived = False"
| "nextStreamState current SE_deleted = False"
| "nextStreamState current SE_created = current"
| "nextStreamState current SE_projection_changed = current"

record SessionSyncHeader =
  hd_tenantId :: string
  hd_organizationId :: string
  hd_ownerUserId :: string
  hd_vaultId :: string
  hd_vaultGeneration :: string
  hd_membershipEpoch :: string
  hd_originDeviceId :: string
  hd_sessionId :: string
  hd_mirrorEpoch :: string
  hd_writerGeneration :: string
  hd_bootId :: string
  hd_bootGeneration :: string
  hd_directoryOrdinal :: string
  hd_keyEpoch :: string
  hd_syncSequence :: string
  hd_sourceRevision :: string
  hd_eventKind :: SyncEventKind
  hd_previousDigest :: "string option"
  hd_creationGrantDigest :: "string option"

record SealedSessionSummary =
  sl_header :: SessionSyncHeader
  sl_ciphertext :: string
  sl_ciphertextBytes :: int
  sl_ciphertextDigest :: string

datatype EntryState = EN_reserved | EN_active | EN_tombstone | EN_retired

record SessionEntry =
  en_id :: nat
  en_vaultId :: nat
  en_sessionId :: string
  en_originDeviceId :: nat
  en_originDevicePublicId :: string
  en_directoryOrdinal :: string
  en_directoryOrdinalOrderKey :: string
  en_state :: EntryState
  en_creationGrantDigest :: string
  en_creationGrantExpiresAt :: int
  en_creationGrantConsumedAt :: "int option"
  en_createdDirectoryVersion :: "string option"
  en_mirrorEpoch :: string
  en_writerGeneration :: string
  en_writerBootId :: "string option"
  en_writerBootGeneration :: "string option"
  en_currentSequence :: string
  en_currentDigest :: "string option"
  en_currentSourceRevision :: string
  en_currentKeyEpoch :: string
  en_streamActive :: bool
  en_latestDirectoryVersion :: string
  en_latestDirectoryVersionOrderKey :: string
  en_tombstoneDirectoryVersion :: "string option"
  en_retirementDirectoryVersion :: "string option"
  en_retainedEventCount :: int
  en_retainedCiphertextBytes :: int
  en_createdAt :: int
  en_updatedAt :: int

record PublicationArgs =
  pa_tenantId :: string
  pa_organizationId :: string
  pa_ownerUserId :: string
  pa_vaultId :: string
  pa_vaultGeneration :: string
  pa_currentDeviceId :: string
  pa_currentBootId :: string
  pa_currentBootGeneration :: string
  pa_currentMembershipEpoch :: string
  pa_currentRootKeyEpoch :: string
  pa_now :: int

datatype PublicationDecision = PD_accept | PD_replay | PD_reject SyncErrorCode

text \<open>
  The caller passes the entry with its public device identifier as origin. \<open>None\<close>: a counter that
  cannot be decoded, or is exhausted, throws.
\<close>

definition decideSessionPublication ::
  "SessionEntry \<Rightarrow> SealedSessionSummary \<Rightarrow> PublicationArgs \<Rightarrow> PublicationDecision option" where
  "decideSessionPublication stored envelope args =
     (let header = sl_header envelope in
      if hd_eventKind header = SE_deleted then Some (PD_reject SY_INVALID_REQUEST)
      else if hd_tenantId header \<noteq> pa_tenantId args \<or> hd_organizationId header \<noteq> pa_organizationId args \<or>
        hd_ownerUserId header \<noteq> pa_ownerUserId args \<or> hd_vaultId header \<noteq> pa_vaultId args \<or>
        hd_vaultGeneration header \<noteq> pa_vaultGeneration args
      then Some (PD_reject SY_AUTHORIZATION_DENIED)
      else if en_state stored = EN_retired \<or> en_state stored = EN_tombstone then Some (PD_reject SY_RETIRED)
      else if hd_originDeviceId header \<noteq> en_originDevicePublicId stored \<or>
        hd_originDeviceId header \<noteq> pa_currentDeviceId args
      then Some (PD_reject SY_AUTHORIZATION_DENIED)
      else if hd_directoryOrdinal header \<noteq> en_directoryOrdinal stored then Some (PD_reject SY_CONFLICT)
      else if hd_membershipEpoch header \<noteq> pa_currentMembershipEpoch args then Some (PD_reject SY_STALE_MEMBERSHIP)
      else if hd_keyEpoch header \<noteq> pa_currentRootKeyEpoch args then Some (PD_reject SY_STALE_MEMBERSHIP)
      else if hd_mirrorEpoch header \<noteq> en_mirrorEpoch stored then Some (PD_reject SY_STALE_MIRROR)
      else if hd_writerGeneration header \<noteq> en_writerGeneration stored then Some (PD_reject SY_STALE_WRITER)
      else if Some (hd_bootId header) \<noteq> en_writerBootId stored \<or>
        Some (hd_bootGeneration header) \<noteq> en_writerBootGeneration stored \<or>
        hd_bootId header \<noteq> pa_currentBootId args \<or> hd_bootGeneration header \<noteq> pa_currentBootGeneration args
      then Some (PD_reject SY_STALE_BOOT)
      else if hd_syncSequence header = en_currentSequence stored
      then (if Some (sl_ciphertextDigest envelope) = en_currentDigest stored then Some PD_replay
            else Some (PD_reject SY_CONFLICT))
      else case nextRequiredSyncUint64 (en_currentSequence stored) of
        None \<Rightarrow> None
      | Some next \<Rightarrow>
          (if hd_syncSequence header \<noteq> next then Some (PD_reject SY_SEQUENCE_GAP)
           else if hd_previousDigest header \<noteq> en_currentDigest stored then Some (PD_reject SY_CONFLICT)
           else case (decodeSyncUint64 (hd_sourceRevision header), decodeSyncUint64 (en_currentSourceRevision stored)) of
             (Some sourceRevision, Some currentSourceRevision) \<Rightarrow>
               (if sourceRevision < currentSourceRevision then Some (PD_reject SY_STALE_REVISION)
                else if en_state stored = EN_reserved then
                  (if pa_now args > en_creationGrantExpiresAt stored then Some (PD_reject SY_GRANT_EXPIRED)
                   else if hd_eventKind header \<noteq> SE_created \<or> hd_syncSequence header \<noteq> ''1'' \<or>
                     hd_previousDigest header \<noteq> None \<or>
                     hd_creationGrantDigest header \<noteq> Some (en_creationGrantDigest stored)
                   then Some (PD_reject SY_CONFLICT)
                   else Some PD_accept)
                else if hd_eventKind header = SE_created \<or> hd_creationGrantDigest header \<noteq> None
                then Some (PD_reject SY_CONFLICT)
                else Some PD_accept)
           | _ \<Rightarrow> None))"

subsection \<open>Documents and store\<close>

record SyncVault =
  va_id :: nat
  va_tenantId :: string
  va_organizationCoordinate :: string
  va_ownerUserCoordinate :: string
  va_vaultId :: string
  va_vaultGeneration :: string
  va_active :: bool
  va_membershipEpoch :: string
  va_rootKeyEpoch :: string
  va_directoryVersion :: string
  va_directoryVersionOrderKey :: string
  va_changeFloorVersion :: string
  va_nextDirectoryOrdinal :: string
  va_activeDeviceCount :: int
  va_directorySessionCount :: int
  va_activeStreamCount :: int
  va_retainedEventCount :: int
  va_retainedCiphertextBytes :: int
  va_compatibilityEvidenceCiphertextBytes :: int
  va_updatedAt :: int

record SyncDevice =
  de_id :: nat
  de_deviceId :: string
  de_bootId :: "string option"
  de_bootGeneration :: "string option"
  de_bootEstablishRequestDigest :: "string option"
  de_heartbeatSequence :: "string option"
  de_lastHeartbeatAt :: "int option"
  de_updatedAt :: int

record SessionEvent =
  ve_id :: nat
  ve_vaultId :: nat
  ve_sessionEntryId :: nat
  ve_sessionId :: string
  ve_directoryVersion :: string
  ve_directoryVersionOrderKey :: string
  ve_mirrorEpoch :: string
  ve_syncSequence :: string
  ve_sourceRevision :: string
  ve_keyEpoch :: string
  ve_eventKind :: SyncEventKind
  ve_ciphertextDigest :: string
  ve_ciphertextBytes :: int
  ve_envelope :: SealedSessionSummary
  ve_observedAt :: int

record SessionHead =
  sh_id :: nat
  sh_vaultId :: nat
  sh_sessionEntryId :: nat
  sh_sessionId :: string
  sh_directoryOrdinal :: string
  sh_directoryVersion :: string
  sh_mirrorEpoch :: string
  sh_writerGeneration :: string
  sh_bootId :: string
  sh_bootGeneration :: string
  sh_syncSequence :: string
  sh_sourceRevision :: string
  sh_keyEpoch :: string
  sh_ciphertextDigest :: string
  sh_ciphertextBytes :: int
  sh_envelope :: SealedSessionSummary
  sh_observedAt :: int

datatype ChangeKind = CK_upsert | CK_tombstone | CK_retired | CK_mirror_reset

record DirectoryChange =
  ch_id :: nat
  ch_vaultId :: nat
  ch_directoryVersion :: string
  ch_directoryVersionOrderKey :: string
  ch_kind :: ChangeKind
  ch_sessionEntryId :: nat
  ch_eventId :: "nat option"
  ch_createdAt :: int

record SnapshotPin =
  pi_id :: nat
  pi_vaultId :: nat
  pi_snapshotVersion :: string
  pi_expiresAt :: int

record SessionTombstone =
  to_id :: nat
  to_vaultId :: nat
  to_sessionEntryId :: nat
  to_sessionId :: string
  to_directoryVersion :: string
  to_tombstoneDigest :: string
  to_purgeAfter :: int
  to_createdAt :: int

record SyncDb =
  sy_next :: nat
  sy_vaults :: "SyncVault list"
  sy_devices :: "SyncDevice list"
  sy_entries :: "SessionEntry list"
  sy_events :: "SessionEvent list"
  sy_heads :: "SessionHead list"
  sy_changes :: "DirectoryChange list"
  sy_pins :: "SnapshotPin list"
  sy_tombstones :: "SessionTombstone list"

text \<open>What a request answers; the coordinates of the vault, which every success repeats, are left out.\<close>

datatype SyncResult =
    SR_failure SyncErrorCode "int option"
  | SR_boot_current string string string
  | SR_session_reserved string string string string
  | SR_reconcile_required "string option" string string string
  | SR_writer_acquired string string string string
  | SR_session_accepted SealedSessionSummary string string string bool
  | SR_session_deleted string string bool

type_synonym sync_outcome = "(SyncResult \<times> SyncDb) option"

text \<open>\<open>failure\<close> throws when a rate limit carries no delay, or another code carries one.\<close>

definition sync_failure :: "SyncErrorCode \<Rightarrow> int option \<Rightarrow> SyncResult option" where
  "sync_failure code retryAfterMs =
     (if (code = SY_RATE_LIMITED) = (retryAfterMs \<noteq> None) then Some (SR_failure code retryAfterMs) else None)"

abbreviation refuse_sync :: "SyncErrorCode \<Rightarrow> SyncDb \<Rightarrow> sync_outcome" where
  "refuse_sync code db \<equiv> map_option (\<lambda>r. (r, db)) (sync_failure code None)"

text \<open>\<open>ctx.db.delete\<close> throws on a document that is not there.\<close>

definition delete_row :: "('r \<Rightarrow> nat) \<Rightarrow> nat \<Rightarrow> 'r list \<Rightarrow> 'r list option" where
  "delete_row key i rows =
     (case get_row key rows i of None \<Rightarrow> None | Some _ \<Rightarrow> Some (filter (\<lambda>r. key r \<noteq> i) rows))"

abbreviation patch_entry :: "nat \<Rightarrow> (SessionEntry \<Rightarrow> SessionEntry) \<Rightarrow> SyncDb \<Rightarrow> SyncDb" where
  "patch_entry i f db \<equiv> db \<lparr>sy_entries := patch_row en_id i f (sy_entries db)\<rparr>"

abbreviation patch_vault :: "nat \<Rightarrow> (SyncVault \<Rightarrow> SyncVault) \<Rightarrow> SyncDb \<Rightarrow> SyncDb" where
  "patch_vault i f db \<equiv> db \<lparr>sy_vaults := patch_row va_id i f (sy_vaults db)\<rparr>"

text \<open>The unique document of an index; \<open>None\<close> is the thrown error of two of them.\<close>

definition find_entry :: "SyncDb \<Rightarrow> nat \<Rightarrow> string \<Rightarrow> SessionEntry option option" where
  "find_entry db vaultId sessionId =
     unique_row (filter (\<lambda>e. en_vaultId e = vaultId \<and> en_sessionId e = sessionId) (sy_entries db))"

definition currentBoot :: "SyncDevice \<Rightarrow> (string \<times> string) option" where
  "currentBoot device =
     (case (de_bootId device, de_bootGeneration device) of
        (Some bootId, Some bootGeneration) \<Rightarrow> Some (bootId, bootGeneration)
      | _ \<Rightarrow> None)"

subsection \<open>Boots\<close>

record BootRequest =
  bq_heartbeat :: bool
  bq_bootId :: string
  bq_bootGeneration :: "string option"
  bq_heartbeatSequence :: string

definition boot_heartbeat :: "SyncDevice \<Rightarrow> BootRequest \<Rightarrow> string \<Rightarrow> string \<Rightarrow> (SyncErrorCode + string \<times> string) option" where
  "boot_heartbeat device request currentGeneration currentSequence =
     (if de_bootId device \<noteq> Some (bq_bootId request) \<or> bq_bootGeneration request \<noteq> Some currentGeneration
      then Some (Inl SY_STALE_BOOT)
      else if bq_heartbeatSequence request = currentSequence
      then Some (Inr (currentGeneration, bq_heartbeatSequence request))
      else case nextRequiredSyncUint64 currentSequence of
        None \<Rightarrow> None
      | Some next \<Rightarrow>
          (if bq_heartbeatSequence request \<noteq> next then Some (Inl SY_STALE_BOOT)
           else Some (Inr (currentGeneration, bq_heartbeatSequence request))))"

definition boot_establish ::
  "SyncDevice \<Rightarrow> BootRequest \<Rightarrow> string \<Rightarrow> string \<Rightarrow> string \<Rightarrow> (SyncErrorCode + string \<times> string) option" where
  "boot_establish device request requestDigest currentGeneration currentSequence =
     (if de_bootId device = Some (bq_bootId request) \<and> de_bootEstablishRequestDigest device = Some requestDigest
      then
        (if bq_bootGeneration request \<noteq> None \<and> bq_bootGeneration request \<noteq> Some currentGeneration
         then Some (Inl SY_STALE_BOOT)
         else Some (Inr (currentGeneration, currentSequence)))
      else case nextRequiredSyncUint64 currentGeneration of
        None \<Rightarrow> None
      | Some acceptedGeneration \<Rightarrow>
          (if de_bootId device = Some (bq_bootId request) \<or>
              bq_bootGeneration request \<noteq> None \<and> bq_bootGeneration request \<noteq> Some acceptedGeneration \<or>
              bq_heartbeatSequence request \<noteq> ''1''
           then Some (Inl SY_STALE_BOOT)
           else Some (Inr (acceptedGeneration, ''1''))))"

definition establishBoot :: "SyncDevice \<Rightarrow> BootRequest \<Rightarrow> string \<Rightarrow> int \<Rightarrow> SyncDb \<Rightarrow> sync_outcome" where
  "establishBoot device request requestDigest now db =
     (let currentGeneration = (case de_bootGeneration device of None \<Rightarrow> ''0'' | Some g \<Rightarrow> g);
          currentSequence = (case de_heartbeatSequence device of None \<Rightarrow> ''0'' | Some s \<Rightarrow> s) in
      case (if bq_heartbeat request then boot_heartbeat device request currentGeneration currentSequence
            else boot_establish device request requestDigest currentGeneration currentSequence) of
        None \<Rightarrow> None
      | Some (Inl code) \<Rightarrow> refuse_sync code db
      | Some (Inr (acceptedGeneration, acceptedSequence)) \<Rightarrow>
          Some (SR_boot_current acceptedGeneration (bq_bootId request) acceptedSequence,
            if acceptedSequence \<noteq> currentSequence \<or> de_bootId device \<noteq> Some (bq_bootId request)
            then db \<lparr>sy_devices := patch_row de_id (de_id device)
              (\<lambda>d. d \<lparr>de_bootId := Some (bq_bootId request), de_bootGeneration := Some acceptedGeneration,
                     de_bootEstablishRequestDigest :=
                       (if bq_heartbeat request then de_bootEstablishRequestDigest d else Some requestDigest),
                     de_heartbeatSequence := Some acceptedSequence, de_lastHeartbeatAt := Some now,
                     de_updatedAt := now\<rparr>) (sy_devices db)\<rparr>
            else db))"

subsection \<open>Reserving a session\<close>

definition reserved_entry ::
  "SyncVault \<Rightarrow> SyncDevice \<Rightarrow> string \<Rightarrow> string \<Rightarrow> string \<Rightarrow> string \<Rightarrow> string \<Rightarrow> int \<Rightarrow> int \<Rightarrow> nat \<Rightarrow> SessionEntry" where
  "reserved_entry vault device sessionId creationGrantDigest directoryOrdinal ordinalKey zeroKey expiresAt now entryId =
     \<lparr>en_id = entryId, en_vaultId = va_id vault, en_sessionId = sessionId, en_originDeviceId = de_id device,
      en_originDevicePublicId = de_deviceId device, en_directoryOrdinal = directoryOrdinal,
      en_directoryOrdinalOrderKey = ordinalKey, en_state = EN_reserved,
      en_creationGrantDigest = creationGrantDigest, en_creationGrantExpiresAt = expiresAt,
      en_creationGrantConsumedAt = None, en_createdDirectoryVersion = None, en_mirrorEpoch = ''1'',
      en_writerGeneration = ''0'', en_writerBootId = None, en_writerBootGeneration = None,
      en_currentSequence = ''0'', en_currentDigest = None, en_currentSourceRevision = ''0'',
      en_currentKeyEpoch = va_rootKeyEpoch vault, en_streamActive = False, en_latestDirectoryVersion = ''0'',
      en_latestDirectoryVersionOrderKey = zeroKey, en_tombstoneDirectoryVersion = None,
      en_retirementDirectoryVersion = None, en_retainedEventCount = 0, en_retainedCiphertextBytes = 0,
      en_createdAt = now, en_updatedAt = now\<rparr>"

definition owned_states :: "SyncDb \<Rightarrow> nat \<Rightarrow> SessionEntry list" where
  "owned_states db deviceId =
     filter (\<lambda>e. en_originDeviceId e = deviceId \<and>
       (en_state e = EN_reserved \<or> en_state e = EN_active \<or> en_state e = EN_tombstone)) (sy_entries db)"

definition reserveSession ::
  "SyncVault \<Rightarrow> SyncDevice \<Rightarrow> string \<Rightarrow> string \<Rightarrow> int \<Rightarrow> SyncDb \<Rightarrow> sync_outcome" where
  "reserveSession vault device sessionId creationGrantDigest now db =
     (if currentBoot device = None then refuse_sync SY_STALE_BOOT db
      else do {
        existing \<leftarrow> find_entry db (va_id vault) sessionId;
        (case existing of
           Some entry \<Rightarrow>
             (if en_state entry = EN_reserved \<and> en_creationGrantDigest entry = creationGrantDigest \<and>
                 en_originDeviceId entry = de_id device
              then (if en_creationGrantExpiresAt entry < now then refuse_sync SY_GRANT_EXPIRED db
                    else do {
                      expires \<leftarrow> encodeSyncUint64 (en_creationGrantExpiresAt entry);
                      Some (SR_session_reserved (en_creationGrantDigest entry) (en_directoryOrdinal entry)
                        expires (en_sessionId entry), db)
                    })
              else refuse_sync
                (if en_state entry = EN_retired \<or> en_state entry = EN_tombstone then SY_RETIRED else SY_CONFLICT) db)
         | None \<Rightarrow>
             (if va_directorySessionCount vault \<ge> MAX_SYNC_DIRECTORY_SESSIONS then refuse_sync SY_DIRECTORY_LIMIT db
              else do {
                ordinal \<leftarrow> decodeSyncUint64 (va_nextDirectoryOrdinal vault);
                (if ordinal \<ge> MAX_SYNC_LIFETIME_DIRECTORY_IDENTITIES then refuse_sync SY_MAINTENANCE_REQUIRED db
                 else if int (length (owned_states db (de_id device))) \<ge> MAX_SYNC_LOCAL_SESSIONS_PER_DEVICE
                 then refuse_sync SY_DIRECTORY_LIMIT db
                 else do {
                   directoryOrdinal \<leftarrow> nextRequiredSyncUint64 (va_nextDirectoryOrdinal vault);
                   ordinalKey \<leftarrow> syncUint64OrderKey directoryOrdinal;
                   zeroKey \<leftarrow> syncUint64OrderKey ''0'';
                   (let expiresAt = now + SESSION_SYNC_CREATION_GRANT_TTL_MS in do {
                     expires \<leftarrow> encodeSyncUint64 expiresAt;
                     Some (SR_session_reserved creationGrantDigest directoryOrdinal expires sessionId,
                       patch_vault (va_id vault) (\<lambda>v. v \<lparr>va_nextDirectoryOrdinal := directoryOrdinal,
                           va_directorySessionCount := va_directorySessionCount vault + 1, va_updatedAt := now\<rparr>)
                         (db \<lparr>sy_next := Suc (sy_next db), sy_entries := sy_entries db @
                           [reserved_entry vault device sessionId creationGrantDigest directoryOrdinal ordinalKey
                              zeroKey expiresAt now (sy_next db)]\<rparr>))
                   })
                 })
              }))
      })"

subsection \<open>Acquiring the writer\<close>

record WriterRequest =
  wq_sessionId :: string
  wq_bootId :: string
  wq_bootGeneration :: string
  wq_acknowledgedMirrorEpoch :: string
  wq_acknowledgedSequence :: string
  wq_acknowledgedDigest :: "string option"

definition writer_reconcile :: "SessionEntry \<Rightarrow> WriterRequest \<Rightarrow> SyncDb \<Rightarrow> sync_outcome" where
  "writer_reconcile entry request db = do {
     behind \<leftarrow> compareSyncUint64 (wq_acknowledgedSequence request) (en_currentSequence entry);
     (if behind \<ge> 0 then refuse_sync SY_CONFLICT db
      else do {
        acknowledged \<leftarrow> unique_row (filter (\<lambda>v. ve_sessionEntryId v = en_id entry \<and>
          ve_mirrorEpoch v = en_mirrorEpoch entry \<and> ve_syncSequence v = wq_acknowledgedSequence request) (sy_events db));
        (if map_option ve_ciphertextDigest acknowledged = None \<or>
            map_option ve_ciphertextDigest acknowledged \<noteq> wq_acknowledgedDigest request
         then refuse_sync SY_CONFLICT db
         else Some (SR_reconcile_required (en_currentDigest entry) (en_mirrorEpoch entry)
           (en_currentSourceRevision entry) (en_currentSequence entry), db))
      })
   }"

definition acquireWriter ::
  "SyncVault \<Rightarrow> SyncDevice \<Rightarrow> WriterRequest \<Rightarrow> int \<Rightarrow> SyncDb \<Rightarrow> sync_outcome" where
  "acquireWriter vault device request now db =
     (case currentBoot device of
        None \<Rightarrow> refuse_sync SY_STALE_BOOT db
      | Some (bootId, bootGeneration) \<Rightarrow>
          (if wq_bootId request \<noteq> bootId \<or> wq_bootGeneration request \<noteq> bootGeneration
           then refuse_sync SY_STALE_BOOT db
           else do {
             found \<leftarrow> find_entry db (va_id vault) (wq_sessionId request);
             (case found of
                None \<Rightarrow> refuse_sync SY_NOT_FOUND db
              | Some entry \<Rightarrow>
                  (if en_originDeviceId entry \<noteq> de_id device then refuse_sync SY_NOT_FOUND db
                   else if en_state entry = EN_retired \<or> en_state entry = EN_tombstone then refuse_sync SY_RETIRED db
                   else if en_state entry = EN_reserved \<and> en_creationGrantExpiresAt entry < now
                   then refuse_sync SY_GRANT_EXPIRED db
                   else if wq_acknowledgedMirrorEpoch request \<noteq> en_mirrorEpoch entry
                   then refuse_sync SY_STALE_MIRROR db
                   else if \<not> (wq_acknowledgedSequence request = en_currentSequence entry \<and>
                     wq_acknowledgedDigest request = en_currentDigest entry)
                   then writer_reconcile entry request db
                   else if en_writerBootId entry = Some bootId \<and> en_writerBootGeneration entry = Some bootGeneration \<and>
                     en_writerGeneration entry \<noteq> ''0''
                   then Some (SR_writer_acquired bootGeneration bootId (en_mirrorEpoch entry) (en_writerGeneration entry), db)
                   else do {
                     writerGeneration \<leftarrow> nextRequiredSyncUint64 (en_writerGeneration entry);
                     Some (SR_writer_acquired bootGeneration bootId (en_mirrorEpoch entry) writerGeneration,
                       patch_entry (en_id entry) (\<lambda>e. e \<lparr>en_writerGeneration := writerGeneration,
                         en_writerBootId := Some bootId, en_writerBootGeneration := Some bootGeneration,
                         en_updatedAt := now\<rparr>) db)
                   }))
           }))"

end
