(* ===== verification/SessionPublish.thy ===== *)
theory SessionPublish
  imports SessionSync "HOL-Library.AList"
begin

text \<open>
  Publishing and deleting a session, the pruning of the oldest directory changes and the retirement of
  expired sessions: \<open>planEventPrefixPrune\<close>, \<open>applyEventPrefixPrune\<close>, \<open>publishSession\<close>,
  \<open>deleteSession\<close>, \<open>purgeRetiringSessionEventPrefix\<close> and the session
  loop of \<open>retireExpiredSyncState\<close> in \<open>apps/web/convex/sessionSyncModel.ts\<close>.

  The index of directory changes is ordered by the order key of the version. The deltas by session
  are a \<open>Map\<close>, an association list with \<open>AList.update\<close>.
\<close>

subsection \<open>Planning a prune\<close>

definition eventQuotaFits :: "SyncVault \<Rightarrow> int \<Rightarrow> int \<Rightarrow> int \<Rightarrow> bool" where
  "eventQuotaFits vault retainedEventCount retainedCiphertextBytes neededCiphertextBytes \<longleftrightarrow>
     retainedEventCount + 1 \<le> MAX_SYNC_RETAINED_EVENTS \<and>
     retainedCiphertextBytes + va_compatibilityEvidenceCiphertextBytes vault + neededCiphertextBytes
       \<le> MAX_SYNC_RETAINED_CIPHERTEXT_BYTES"

record EventPrefixPrunePlan =
  pp_changeFloorVersion :: string
  pp_retainedCiphertextBytes :: int
  pp_retainedEventCount :: int
  pp_changes :: "DirectoryChange list"
  pp_events :: "SessionEvent list"
  pp_entryDeltas :: "(nat \<times> int \<times> int) list"

definition vault_changes :: "SyncDb \<Rightarrow> nat \<Rightarrow> DirectoryChange list" where
  "vault_changes db vaultId =
     sort_key ch_directoryVersionOrderKey (filter (\<lambda>c. ch_vaultId c = vaultId) (sy_changes db))"

definition live_pins :: "SyncDb \<Rightarrow> nat \<Rightarrow> int \<Rightarrow> SnapshotPin list" where
  "live_pins db vaultId now = filter (\<lambda>p. pi_vaultId p = vaultId \<and> pi_expiresAt p > now) (sy_pins db)"

fun oldest_pin :: "SnapshotPin list \<Rightarrow> string option \<Rightarrow> string option option" where
  "oldest_pin [] pruneThrough = Some pruneThrough"
| "oldest_pin (pin # pins) pruneThrough =
     (case pruneThrough of
        None \<Rightarrow> oldest_pin pins (Some (pi_snapshotVersion pin))
      | Some version \<Rightarrow> do {
          order \<leftarrow> compareSyncUint64 (pi_snapshotVersion pin) version;
          oldest_pin pins (if order < 0 then Some (pi_snapshotVersion pin) else pruneThrough)
        })"

definition prior_delta :: "(nat \<times> int \<times> int) list \<Rightarrow> nat \<Rightarrow> int \<times> int" where
  "prior_delta entryDeltas entryId = (case map_of entryDeltas entryId of None \<Rightarrow> (0, 0) | Some d \<Rightarrow> d)"

definition add_delta :: "SessionEvent \<Rightarrow> (nat \<times> int \<times> int) list \<Rightarrow> (nat \<times> int \<times> int) list" where
  "add_delta event entryDeltas =
     (let (bytes, events) = prior_delta entryDeltas (ve_sessionEntryId event) in
      AList.update (ve_sessionEntryId event) (bytes + ve_ciphertextBytes event, events + 1) entryDeltas)"

text \<open>The body of the loop after the check for a pin: one change enters the plan.\<close>

definition plan_change :: "SyncDb \<Rightarrow> DirectoryChange \<Rightarrow> EventPrefixPrunePlan \<Rightarrow> EventPrefixPrunePlan option" where
  "plan_change db change plan =
     (let plan1 = plan \<lparr>pp_changes := pp_changes plan @ [change], pp_changeFloorVersion := ch_directoryVersion change\<rparr> in
      case ch_eventId change of
        None \<Rightarrow> Some plan1
      | Some eventId \<Rightarrow> do {
          event \<leftarrow> get_row ve_id (sy_events db) eventId;
          Some (plan1 \<lparr>pp_events := pp_events plan1 @ [event],
            pp_retainedCiphertextBytes := pp_retainedCiphertextBytes plan1 - ve_ciphertextBytes event,
            pp_retainedEventCount := pp_retainedEventCount plan1 - 1,
            pp_entryDeltas := add_delta event (pp_entryDeltas plan1)\<rparr>)
        })"

definition beyond_pin :: "string option \<Rightarrow> DirectoryChange \<Rightarrow> bool option" where
  "beyond_pin pruneThrough change =
     (case pruneThrough of
        None \<Rightarrow> Some False
      | Some version \<Rightarrow> map_option (\<lambda>order. order > 0) (compareSyncUint64 (ch_directoryVersion change) version))"

fun plan_changes ::
  "SyncDb \<Rightarrow> SyncVault \<Rightarrow> int \<Rightarrow> string option \<Rightarrow> DirectoryChange list \<Rightarrow> EventPrefixPrunePlan \<Rightarrow>
   EventPrefixPrunePlan option" where
  "plan_changes db vault needed pruneThrough [] plan = Some plan"
| "plan_changes db vault needed pruneThrough (change # changes) plan = do {
     beyond \<leftarrow> beyond_pin pruneThrough change;
     (if beyond then Some plan
      else do {
        plan1 \<leftarrow> plan_change db change plan;
        (if eventQuotaFits vault (pp_retainedEventCount plan1) (pp_retainedCiphertextBytes plan1) needed
         then Some plan1
         else plan_changes db vault needed pruneThrough changes plan1)
      })
   }"

definition PRUNE_CHANGE_LIMIT :: nat where "PRUNE_CHANGE_LIMIT = 256"

definition empty_plan :: "SyncVault \<Rightarrow> EventPrefixPrunePlan" where
  "empty_plan vault =
     \<lparr>pp_changeFloorVersion = va_changeFloorVersion vault,
      pp_retainedCiphertextBytes = va_retainedCiphertextBytes vault,
      pp_retainedEventCount = va_retainedEventCount vault, pp_changes = [], pp_events = [], pp_entryDeltas = []\<rparr>"

text \<open>The outer option is a thrown error, the inner one the code's \<open>null\<close>; the flag is \<open>sufficient\<close>.\<close>

definition planEventPrefixPrune ::
  "SyncDb \<Rightarrow> SyncVault \<Rightarrow> int \<Rightarrow> int \<Rightarrow> (bool \<times> EventPrefixPrunePlan) option option" where
  "planEventPrefixPrune db vault needed now =
     (if eventQuotaFits vault (va_retainedEventCount vault) (va_retainedCiphertextBytes vault) needed
      then Some (Some (True, empty_plan vault))
      else do {
        pruneThrough \<leftarrow> oldest_pin (live_pins db (va_id vault) now) None;
        plan \<leftarrow> plan_changes db vault needed pruneThrough
          (take PRUNE_CHANGE_LIMIT (vault_changes db (va_id vault))) (empty_plan vault);
        (if pp_retainedCiphertextBytes plan < 0 \<or> pp_retainedEventCount plan < 0 then None
         else
           (let sufficient = eventQuotaFits vault (pp_retainedEventCount plan) (pp_retainedCiphertextBytes plan) needed in
            if \<not> sufficient \<and> pp_changes plan = [] then Some None
            else Some (Some (sufficient, plan))))
      })"

subsection \<open>Applying a prune\<close>

fun delete_rows :: "('r \<Rightarrow> nat) \<Rightarrow> nat list \<Rightarrow> 'r list \<Rightarrow> 'r list option" where
  "delete_rows key [] rows = Some rows"
| "delete_rows key (i # is) rows = do { rest \<leftarrow> delete_row key i rows; delete_rows key is rest }"

definition discharge :: "int \<times> int \<Rightarrow> SessionEntry \<Rightarrow> SessionEntry" where
  "discharge delta e = e \<lparr>en_retainedCiphertextBytes := en_retainedCiphertextBytes e - fst delta,
     en_retainedEventCount := en_retainedEventCount e - snd delta\<rparr>"

fun apply_deltas :: "(nat \<times> int \<times> int) list \<Rightarrow> SessionEntry list \<Rightarrow> SessionEntry list option" where
  "apply_deltas [] entries = Some entries"
| "apply_deltas ((entryId, delta) # deltas) entries = do {
     entry \<leftarrow> get_row en_id entries entryId;
     (if en_retainedCiphertextBytes entry < fst delta \<or> en_retainedEventCount entry < snd delta then None
      else apply_deltas deltas (patch_row en_id entryId
        (\<lambda>e. e \<lparr>en_retainedCiphertextBytes := en_retainedCiphertextBytes entry - fst delta,
               en_retainedEventCount := en_retainedEventCount entry - snd delta\<rparr>) entries))
   }"

definition applyEventPrefixPrune :: "SyncVault \<Rightarrow> EventPrefixPrunePlan \<Rightarrow> int \<Rightarrow> SyncDb \<Rightarrow> SyncDb option" where
  "applyEventPrefixPrune vault plan now db = do {
     changes \<leftarrow> delete_rows ch_id (map ch_id (pp_changes plan)) (sy_changes db);
     events \<leftarrow> delete_rows ve_id (map ve_id (pp_events plan)) (sy_events db);
     entries \<leftarrow> apply_deltas (pp_entryDeltas plan) (sy_entries db);
     (let db1 = db \<lparr>sy_changes := changes, sy_events := events, sy_entries := entries\<rparr> in
      Some (if pp_changes plan \<noteq> []
        then patch_vault (va_id vault) (\<lambda>v. v \<lparr>va_changeFloorVersion := pp_changeFloorVersion plan,
          va_retainedCiphertextBytes := pp_retainedCiphertextBytes plan,
          va_retainedEventCount := pp_retainedEventCount plan, va_updatedAt := now\<rparr>) db1
        else db1))
   }"

subsection \<open>Publishing\<close>

definition publication_args :: "SyncVault \<Rightarrow> SyncDevice \<Rightarrow> string \<Rightarrow> string \<Rightarrow> int \<Rightarrow> PublicationArgs" where
  "publication_args vault device bootId bootGeneration now =
     \<lparr>pa_tenantId = va_tenantId vault, pa_organizationId = va_organizationCoordinate vault,
      pa_ownerUserId = va_ownerUserCoordinate vault, pa_vaultId = va_vaultId vault,
      pa_vaultGeneration = va_vaultGeneration vault, pa_currentDeviceId = de_deviceId device,
      pa_currentBootId = bootId, pa_currentBootGeneration = bootGeneration,
      pa_currentMembershipEpoch = va_membershipEpoch vault, pa_currentRootKeyEpoch = va_rootKeyEpoch vault,
      pa_now = now\<rparr>"

text \<open>\<open>acceptedSessionHeadSchema.parse\<close>: two positive versions, the head not before its creation.\<close>

definition positive_sync_uint64 :: "string \<Rightarrow> bool" where
  "positive_sync_uint64 s \<longleftrightarrow> is_sync_uint64 s \<and> s \<noteq> ''0''"

definition accepted_head_valid :: "string \<Rightarrow> string \<Rightarrow> bool" where
  "accepted_head_valid createdDirectoryVersion directoryVersion \<longleftrightarrow>
     positive_sync_uint64 createdDirectoryVersion \<and> positive_sync_uint64 directoryVersion \<and>
     read_digits createdDirectoryVersion \<le> read_digits directoryVersion"

definition accepted_head ::
  "SealedSessionSummary \<Rightarrow> string option \<Rightarrow> string \<Rightarrow> int \<Rightarrow> bool \<Rightarrow> SyncResult option" where
  "accepted_head envelope createdDirectoryVersion directoryVersion observedAt replay =
     (case createdDirectoryVersion of
        None \<Rightarrow> None
      | Some created \<Rightarrow> do {
          serverObservedAt \<leftarrow> encodeSyncUint64 observedAt;
          (if accepted_head_valid created directoryVersion
           then Some (SR_session_accepted envelope created directoryVersion serverObservedAt replay) else None)
        })"

definition find_head :: "SyncDb \<Rightarrow> nat \<Rightarrow> SessionHead option option" where
  "find_head db entryId = unique_row (filter (\<lambda>h. sh_sessionEntryId h = entryId) (sy_heads db))"

definition head_matches :: "SessionHead \<Rightarrow> SealedSessionSummary \<Rightarrow> bool" where
  "head_matches head envelope \<longleftrightarrow>
     sh_mirrorEpoch head = hd_mirrorEpoch (sl_header envelope) \<and>
     sh_writerGeneration head = hd_writerGeneration (sl_header envelope) \<and>
     sh_bootId head = hd_bootId (sl_header envelope) \<and>
     sh_bootGeneration head = hd_bootGeneration (sl_header envelope) \<and>
     sh_syncSequence head = hd_syncSequence (sl_header envelope) \<and>
     sh_sourceRevision head = hd_sourceRevision (sl_header envelope) \<and>
     sh_keyEpoch head = hd_keyEpoch (sl_header envelope) \<and>
     sh_ciphertextDigest head = sl_ciphertextDigest envelope \<and> sh_envelope head = envelope"

definition publish_replay :: "SessionEntry \<Rightarrow> SealedSessionSummary \<Rightarrow> SyncDb \<Rightarrow> sync_outcome" where
  "publish_replay entry envelope db = do {
     found \<leftarrow> unique_row (filter (\<lambda>v. ve_sessionEntryId v = en_id entry \<and>
       ve_mirrorEpoch v = hd_mirrorEpoch (sl_header envelope) \<and>
       ve_syncSequence v = hd_syncSequence (sl_header envelope)) (sy_events db));
     (case found of
        Some event \<Rightarrow>
          (if ve_ciphertextDigest event \<noteq> sl_ciphertextDigest envelope \<or> ve_envelope event \<noteq> envelope
           then refuse_sync SY_CONFLICT db
           else map_option (\<lambda>r. (r, db)) (accepted_head (ve_envelope event) (en_createdDirectoryVersion entry)
             (ve_directoryVersion event) (ve_observedAt event) True))
      | None \<Rightarrow> do {
          retained \<leftarrow> find_head db (en_id entry);
          (case retained of
             None \<Rightarrow> refuse_sync SY_CONFLICT db
           | Some head \<Rightarrow>
               (if \<not> head_matches head envelope then refuse_sync SY_CONFLICT db
                else map_option (\<lambda>r. (r, db)) (accepted_head (sh_envelope head) (en_createdDirectoryVersion entry)
                  (sh_directoryVersion head) (sh_observedAt head) True)))
        })
   }"

definition published_event ::
  "SyncVault \<Rightarrow> SessionEntry \<Rightarrow> SealedSessionSummary \<Rightarrow> string \<Rightarrow> string \<Rightarrow> int \<Rightarrow> nat \<Rightarrow> SessionEvent" where
  "published_event vault entry envelope directoryVersion orderKey now eventId =
     (let header = sl_header envelope in
      \<lparr>ve_id = eventId, ve_vaultId = va_id vault, ve_sessionEntryId = en_id entry, ve_sessionId = en_sessionId entry,
       ve_directoryVersion = directoryVersion, ve_directoryVersionOrderKey = orderKey,
       ve_mirrorEpoch = hd_mirrorEpoch header, ve_syncSequence = hd_syncSequence header,
       ve_sourceRevision = hd_sourceRevision header, ve_keyEpoch = hd_keyEpoch header,
       ve_eventKind = hd_eventKind header, ve_ciphertextDigest = sl_ciphertextDigest envelope,
       ve_ciphertextBytes = sl_ciphertextBytes envelope, ve_envelope = envelope, ve_observedAt = now\<rparr>)"

definition head_fields :: "SealedSessionSummary \<Rightarrow> string \<Rightarrow> int \<Rightarrow> SessionHead \<Rightarrow> SessionHead" where
  "head_fields envelope directoryVersion now h =
     (let header = sl_header envelope in
      h \<lparr>sh_directoryVersion := directoryVersion, sh_mirrorEpoch := hd_mirrorEpoch header,
         sh_writerGeneration := hd_writerGeneration header, sh_bootId := hd_bootId header,
         sh_bootGeneration := hd_bootGeneration header, sh_syncSequence := hd_syncSequence header,
         sh_sourceRevision := hd_sourceRevision header, sh_keyEpoch := hd_keyEpoch header,
         sh_ciphertextDigest := sl_ciphertextDigest envelope, sh_ciphertextBytes := sl_ciphertextBytes envelope,
         sh_envelope := envelope, sh_observedAt := now\<rparr>)"

definition new_head :: "SyncVault \<Rightarrow> SessionEntry \<Rightarrow> SealedSessionSummary \<Rightarrow> string \<Rightarrow> int \<Rightarrow> nat \<Rightarrow> SessionHead" where
  "new_head vault entry envelope directoryVersion now headId =
     (let header = sl_header envelope in
      \<lparr>sh_id = headId, sh_vaultId = va_id vault, sh_sessionEntryId = en_id entry, sh_sessionId = en_sessionId entry,
       sh_directoryOrdinal = en_directoryOrdinal entry, sh_directoryVersion = directoryVersion,
       sh_mirrorEpoch = hd_mirrorEpoch header, sh_writerGeneration = hd_writerGeneration header,
       sh_bootId = hd_bootId header, sh_bootGeneration = hd_bootGeneration header,
       sh_syncSequence = hd_syncSequence header, sh_sourceRevision = hd_sourceRevision header,
       sh_keyEpoch = hd_keyEpoch header, sh_ciphertextDigest = sl_ciphertextDigest envelope,
       sh_ciphertextBytes = sl_ciphertextBytes envelope, sh_envelope = envelope, sh_observedAt = now\<rparr>)"

definition write_head ::
  "SyncVault \<Rightarrow> SessionEntry \<Rightarrow> SessionHead option \<Rightarrow> SealedSessionSummary \<Rightarrow> string \<Rightarrow> int \<Rightarrow> SyncDb \<Rightarrow> SyncDb" where
  "write_head vault entry oldHead envelope directoryVersion now db =
     (case oldHead of
        None \<Rightarrow> db \<lparr>sy_next := Suc (sy_next db),
          sy_heads := sy_heads db @ [new_head vault entry envelope directoryVersion now (sy_next db)]\<rparr>
      | Some head \<Rightarrow> db \<lparr>sy_heads := patch_row sh_id (sh_id head) (head_fields envelope directoryVersion now) (sy_heads db)\<rparr>)"

definition insert_change :: "nat \<Rightarrow> string \<Rightarrow> string \<Rightarrow> ChangeKind \<Rightarrow> nat \<Rightarrow> nat option \<Rightarrow> int \<Rightarrow> SyncDb \<Rightarrow> SyncDb" where
  "insert_change vaultId directoryVersion orderKey kind entryId eventId now db =
     db \<lparr>sy_next := Suc (sy_next db), sy_changes := sy_changes db @
       [\<lparr>ch_id = sy_next db, ch_vaultId = vaultId, ch_directoryVersion = directoryVersion,
         ch_directoryVersionOrderKey = orderKey, ch_kind = kind, ch_sessionEntryId = entryId,
         ch_eventId = eventId, ch_createdAt = now\<rparr>]\<rparr>"

text \<open>The patches of an accepted publication: the session entry and the vault.\<close>

definition published_entry ::
  "SessionEntry \<Rightarrow> SealedSessionSummary \<Rightarrow> EventPrefixPrunePlan \<Rightarrow> int \<Rightarrow> bool \<Rightarrow> string \<Rightarrow> string \<Rightarrow> string \<Rightarrow> int \<Rightarrow>
   SessionEntry \<Rightarrow> SessionEntry" where
  "published_entry entry envelope pruned neededBytes streamActive directoryVersion orderKey createdDirectoryVersion now e =
     (let (deltaBytes, deltaEvents) = prior_delta (pp_entryDeltas pruned) (en_id entry) in
      e \<lparr>en_state := EN_active,
         en_creationGrantConsumedAt :=
           (if en_creationGrantConsumedAt entry = None then Some now else en_creationGrantConsumedAt e),
         en_createdDirectoryVersion := Some createdDirectoryVersion,
         en_currentSequence := hd_syncSequence (sl_header envelope),
         en_currentDigest := Some (sl_ciphertextDigest envelope),
         en_currentSourceRevision := hd_sourceRevision (sl_header envelope),
         en_currentKeyEpoch := hd_keyEpoch (sl_header envelope), en_streamActive := streamActive,
         en_latestDirectoryVersion := directoryVersion, en_latestDirectoryVersionOrderKey := orderKey,
         en_retainedEventCount := en_retainedEventCount entry - deltaEvents + 1,
         en_retainedCiphertextBytes := en_retainedCiphertextBytes entry - deltaBytes + neededBytes,
         en_updatedAt := now\<rparr>)"

definition published_vault :: "EventPrefixPrunePlan \<Rightarrow> int \<Rightarrow> int \<Rightarrow> string \<Rightarrow> string \<Rightarrow> int \<Rightarrow> SyncVault \<Rightarrow> SyncVault" where
  "published_vault pruned neededBytes activeStreamCount directoryVersion orderKey now v =
     v \<lparr>va_directoryVersion := directoryVersion, va_directoryVersionOrderKey := orderKey,
        va_changeFloorVersion := pp_changeFloorVersion pruned, va_activeStreamCount := activeStreamCount,
        va_retainedEventCount := pp_retainedEventCount pruned + 1,
        va_retainedCiphertextBytes := pp_retainedCiphertextBytes pruned + neededBytes, va_updatedAt := now\<rparr>"

text \<open>Everything an accepted publication writes after the prune.\<close>

definition publish_writes ::
  "SyncVault \<Rightarrow> SessionEntry \<Rightarrow> SealedSessionSummary \<Rightarrow> SessionHead option \<Rightarrow> EventPrefixPrunePlan \<Rightarrow> int \<Rightarrow>
   bool \<Rightarrow> int \<Rightarrow> string \<Rightarrow> string \<Rightarrow> string \<Rightarrow> int \<Rightarrow> SyncDb \<Rightarrow> SyncDb" where
  "publish_writes vault entry envelope oldHead pruned neededBytes streamActive activeStreamCount
     directoryVersion orderKey createdDirectoryVersion now db =
     (let eventId = sy_next db;
          db1 = db \<lparr>sy_next := Suc (sy_next db), sy_events := sy_events db @
            [published_event vault entry envelope directoryVersion orderKey now eventId]\<rparr>;
          db2 = write_head vault entry oldHead envelope directoryVersion now db1;
          db3 = insert_change (va_id vault) directoryVersion orderKey CK_upsert (en_id entry) (Some eventId) now db2;
          db4 = patch_entry (en_id entry) (published_entry entry envelope pruned neededBytes streamActive
            directoryVersion orderKey createdDirectoryVersion now) db3 in
      patch_vault (va_id vault) (published_vault pruned neededBytes activeStreamCount directoryVersion orderKey now) db4)"

definition old_bytes :: "SessionHead option \<Rightarrow> int" where
  "old_bytes head = (case head of None \<Rightarrow> 0 | Some h \<Rightarrow> sh_ciphertextBytes h)"

text \<open>The quota once the event and the head are in.\<close>

definition publish_quota :: "SyncVault \<Rightarrow> EventPrefixPrunePlan \<Rightarrow> int \<Rightarrow> int \<Rightarrow> SyncQuotaSnapshot" where
  "publish_quota vault pruned neededBytes activeStreamCount =
     \<lparr>qs_activeDevices = va_activeDeviceCount vault, qs_directorySessions = va_directorySessionCount vault,
      qs_locallyOwnedSessions = 0, qs_activeStreams = activeStreamCount,
      qs_retainedEvents = pp_retainedEventCount pruned + 1,
      qs_retainedCiphertextBytes = pp_retainedCiphertextBytes pruned
        + va_compatibilityEvidenceCiphertextBytes vault + neededBytes\<rparr>"

definition publish_commit ::
  "SyncVault \<Rightarrow> SessionEntry \<Rightarrow> SealedSessionSummary \<Rightarrow> SessionHead option \<Rightarrow> EventPrefixPrunePlan \<Rightarrow> int \<Rightarrow>
   bool \<Rightarrow> int \<Rightarrow> int \<Rightarrow> SyncDb \<Rightarrow> sync_outcome" where
  "publish_commit vault entry envelope oldHead pruned neededBytes streamActive activeStreamCount now db = do {
     directoryVersion \<leftarrow> nextRequiredSyncUint64 (va_directoryVersion vault);
     orderKey \<leftarrow> syncUint64OrderKey directoryVersion;
     (let createdDirectoryVersion = (case en_createdDirectoryVersion entry of
            None \<Rightarrow> directoryVersion | Some created \<Rightarrow> created);
          (deltaBytes, deltaEvents) = prior_delta (pp_entryDeltas pruned) (en_id entry) in
      if en_retainedCiphertextBytes entry < deltaBytes \<or> en_retainedEventCount entry < deltaEvents then None
      else do {
        db1 \<leftarrow> applyEventPrefixPrune vault pruned now db;
        accepted \<leftarrow> accepted_head envelope (Some createdDirectoryVersion) directoryVersion now False;
        Some (accepted, publish_writes vault entry envelope oldHead pruned neededBytes streamActive
          activeStreamCount directoryVersion orderKey createdDirectoryVersion now db1)
      })
   }"

definition publish_accept ::
  "SyncVault \<Rightarrow> SessionEntry \<Rightarrow> SealedSessionSummary \<Rightarrow> int \<Rightarrow> SyncDb \<Rightarrow> sync_outcome" where
  "publish_accept vault entry envelope now db = do {
     oldHead \<leftarrow> find_head db (en_id entry);
     (let headDelta = sl_ciphertextBytes envelope - old_bytes oldHead;
          neededBytes = sl_ciphertextBytes envelope + headDelta in do {
        planned \<leftarrow> planEventPrefixPrune db vault neededBytes now;
        (case planned of
           None \<Rightarrow> refuse_sync SY_QUOTA_EXCEEDED db
         | Some (sufficient, pruned) \<Rightarrow>
             (if \<not> sufficient
              then do {
                db1 \<leftarrow> applyEventPrefixPrune vault pruned now db;
                map_option (\<lambda>r. (r, db1)) (sync_failure SY_RATE_LIMITED (Some 1))
              }
              else
                (let streamActive = nextStreamState (en_streamActive entry) (hd_eventKind (sl_header envelope));
                     activeStreamCount = va_activeStreamCount vault + (if streamActive then 1 else 0)
                       - (if en_streamActive entry then 1 else 0) in
                 case quotaFailure (publish_quota vault pruned neededBytes activeStreamCount) of
                   Some code \<Rightarrow> refuse_sync code db
                 | None \<Rightarrow> publish_commit vault entry envelope oldHead pruned neededBytes streamActive
                     activeStreamCount now db)))
      })
   }"

definition publishSession ::
  "SyncVault \<Rightarrow> SyncDevice \<Rightarrow> SealedSessionSummary \<Rightarrow> int \<Rightarrow> SyncDb \<Rightarrow> sync_outcome" where
  "publishSession vault device envelope now db =
     (case currentBoot device of
        None \<Rightarrow> refuse_sync SY_STALE_BOOT db
      | Some (bootId, bootGeneration) \<Rightarrow> do {
          found \<leftarrow> find_entry db (va_id vault) (hd_sessionId (sl_header envelope));
          (case found of
             None \<Rightarrow> refuse_sync SY_NOT_FOUND db
           | Some entry \<Rightarrow> do {
               decision \<leftarrow> decideSessionPublication entry envelope
                 (publication_args vault device bootId bootGeneration now);
               (case decision of
                  PD_reject code \<Rightarrow> refuse_sync code db
                | PD_replay \<Rightarrow> publish_replay entry envelope db
                | PD_accept \<Rightarrow> publish_accept vault entry envelope now db)
             })
        })"

subsection \<open>Deleting\<close>

record DeleteRequest =
  dq_sessionId :: string
  dq_originDeviceId :: string
  dq_mirrorEpoch :: string
  dq_writerGeneration :: string
  dq_bootId :: string
  dq_bootGeneration :: string
  dq_membershipEpoch :: string
  dq_keyEpoch :: string
  dq_syncSequence :: string
  dq_sourceRevision :: string
  dq_previousDigest :: string
  dq_tombstoneDigest :: string

definition delete_fenced :: "SyncVault \<Rightarrow> SyncDevice \<Rightarrow> string \<Rightarrow> string \<Rightarrow> SessionEntry \<Rightarrow> DeleteRequest \<Rightarrow> bool" where
  "delete_fenced vault device bootId bootGeneration entry request \<longleftrightarrow>
     dq_originDeviceId request = de_deviceId device \<and> dq_membershipEpoch request = va_membershipEpoch vault \<and>
     dq_keyEpoch request = va_rootKeyEpoch vault \<and> dq_mirrorEpoch request = en_mirrorEpoch entry \<and>
     dq_writerGeneration request = en_writerGeneration entry \<and> dq_bootId request = bootId \<and>
     dq_bootGeneration request = bootGeneration \<and> Some (dq_bootId request) = en_writerBootId entry \<and>
     Some (dq_bootGeneration request) = en_writerBootGeneration entry"

definition deleted_entry :: "DeleteRequest \<Rightarrow> string \<Rightarrow> string \<Rightarrow> int \<Rightarrow> SessionEntry \<Rightarrow> SessionEntry" where
  "deleted_entry request directoryVersion orderKey now e =
     e \<lparr>en_state := EN_tombstone, en_currentSequence := dq_syncSequence request,
        en_currentDigest := Some (dq_tombstoneDigest request), en_currentSourceRevision := dq_sourceRevision request,
        en_streamActive := False, en_latestDirectoryVersion := directoryVersion,
        en_latestDirectoryVersionOrderKey := orderKey, en_tombstoneDirectoryVersion := Some directoryVersion,
        en_updatedAt := now\<rparr>"

definition deleted_vault :: "SyncVault \<Rightarrow> SessionEntry \<Rightarrow> string \<Rightarrow> string \<Rightarrow> int \<Rightarrow> SyncVault \<Rightarrow> SyncVault" where
  "deleted_vault vault entry directoryVersion orderKey now v =
     v \<lparr>va_directoryVersion := directoryVersion, va_directoryVersionOrderKey := orderKey,
        va_activeStreamCount := va_activeStreamCount vault - (if en_streamActive entry then 1 else 0),
        va_updatedAt := now\<rparr>"

text \<open>The tombstone, its change, the entry and the vault; the schedule of the session is another part.\<close>

definition delete_writes ::
  "SyncVault \<Rightarrow> SessionEntry \<Rightarrow> DeleteRequest \<Rightarrow> string \<Rightarrow> string \<Rightarrow> int \<Rightarrow> SyncDb \<Rightarrow> SyncDb" where
  "delete_writes vault entry request directoryVersion orderKey now db =
     (let db1 = db \<lparr>sy_next := Suc (sy_next db), sy_tombstones := sy_tombstones db @
            [\<lparr>to_id = sy_next db, to_vaultId = va_id vault, to_sessionEntryId = en_id entry,
              to_sessionId = en_sessionId entry, to_directoryVersion = directoryVersion,
              to_tombstoneDigest = dq_tombstoneDigest request,
              to_purgeAfter = now + SESSION_SYNC_TOMBSTONE_RETENTION_MS, to_createdAt = now\<rparr>]\<rparr>;
          db2 = insert_change (va_id vault) directoryVersion orderKey CK_tombstone (en_id entry) None now db1;
          db3 = patch_entry (en_id entry) (deleted_entry request directoryVersion orderKey now) db2 in
      patch_vault (va_id vault) (deleted_vault vault entry directoryVersion orderKey now) db3)"

definition delete_admitted ::
  "SyncVault \<Rightarrow> SyncDevice \<Rightarrow> string \<Rightarrow> string \<Rightarrow> SessionEntry \<Rightarrow> DeleteRequest \<Rightarrow> int \<Rightarrow> SyncDb \<Rightarrow> sync_outcome" where
  "delete_admitted vault device bootId bootGeneration entry request now db =
     (if \<not> delete_fenced vault device bootId bootGeneration entry request then refuse_sync SY_STALE_WRITER db
      else do {
        next \<leftarrow> nextRequiredSyncUint64 (en_currentSequence entry);
        (if dq_syncSequence request \<noteq> next \<or> Some (dq_previousDigest request) \<noteq> en_currentDigest entry
         then refuse_sync SY_SEQUENCE_GAP db
         else do {
           order \<leftarrow> compareSyncUint64 (dq_sourceRevision request) (en_currentSourceRevision entry);
           (if order \<le> 0 then refuse_sync SY_STALE_REVISION db
            else do {
              directoryVersion \<leftarrow> nextRequiredSyncUint64 (va_directoryVersion vault);
              serverObservedAt \<leftarrow> encodeSyncUint64 now;
              purgeAfter \<leftarrow> encodeSyncUint64 (now + SESSION_SYNC_TOMBSTONE_RETENTION_MS);
              (case en_createdDirectoryVersion entry of
                 None \<Rightarrow> refuse_sync SY_CONFLICT db
               | Some created \<Rightarrow>
                   (if \<not> accepted_head_valid created directoryVersion then None
                    else do {
                      orderKey \<leftarrow> syncUint64OrderKey directoryVersion;
                      Some (SR_session_deleted (dq_tombstoneDigest request) directoryVersion False,
                        delete_writes vault entry request directoryVersion orderKey now db)
                    }))
            })
         })
      })"

definition deleteSession ::
  "SyncVault \<Rightarrow> SyncDevice \<Rightarrow> DeleteRequest \<Rightarrow> int \<Rightarrow> SyncDb \<Rightarrow> sync_outcome" where
  "deleteSession vault device request now db =
     (case currentBoot device of
        None \<Rightarrow> refuse_sync SY_STALE_BOOT db
      | Some (bootId, bootGeneration) \<Rightarrow> do {
          found \<leftarrow> find_entry db (va_id vault) (dq_sessionId request);
          (case found of
             None \<Rightarrow> refuse_sync SY_NOT_FOUND db
           | Some entry \<Rightarrow>
               (if en_originDeviceId entry \<noteq> de_id device then refuse_sync SY_NOT_FOUND db
                else if en_state entry = EN_retired then refuse_sync SY_RETIRED db
                else if en_state entry = EN_tombstone then do {
                  tombstone \<leftarrow> unique_row (filter (\<lambda>t. to_sessionEntryId t = en_id entry) (sy_tombstones db));
                  (case tombstone of
                     None \<Rightarrow> refuse_sync SY_RETIRED db
                   | Some t \<Rightarrow>
                       (if to_tombstoneDigest t = dq_tombstoneDigest request
                        then Some (SR_session_deleted (to_tombstoneDigest t) (to_directoryVersion t) True, db)
                        else refuse_sync SY_RETIRED db))
                }
                else delete_admitted vault device bootId bootGeneration entry request now db))
        })"

subsection \<open>Retirement\<close>

datatype EventPurge = PU_blocked | PU_incomplete nat | PU_complete nat

definition newest_event :: "SyncDb \<Rightarrow> nat \<Rightarrow> SessionEvent option" where
  "newest_event db entryId =
     (case rev (sort_key ve_directoryVersionOrderKey (filter (\<lambda>v. ve_sessionEntryId v = entryId) (sy_events db))) of
        [] \<Rightarrow> None | v # _ \<Rightarrow> Some v)"

fun collect_events ::
  "SyncDb \<Rightarrow> DirectoryChange list \<Rightarrow> SessionEvent list \<Rightarrow> (nat \<times> int \<times> int) list \<Rightarrow> int \<Rightarrow> int \<Rightarrow>
   (SessionEvent list \<times> (nat \<times> int \<times> int) list \<times> int \<times> int) option" where
  "collect_events db [] events deltas bytes n = Some (events, deltas, bytes, n)"
| "collect_events db (change # changes) events deltas bytes n =
     (case ch_eventId change of
        None \<Rightarrow> collect_events db changes events deltas bytes n
      | Some eventId \<Rightarrow> do {
          event \<leftarrow> get_row ve_id (sy_events db) eventId;
          collect_events db changes (events @ [event]) (add_delta event deltas) (bytes + ve_ciphertextBytes event) (n + 1)
        })"

fun deltas_coherent :: "(nat \<times> int \<times> int) list \<Rightarrow> SessionEntry list \<Rightarrow> bool" where
  "deltas_coherent [] entries \<longleftrightarrow> True"
| "deltas_coherent ((entryId, delta) # deltas) entries \<longleftrightarrow>
     (case get_row en_id entries entryId of
        None \<Rightarrow> False
      | Some e \<Rightarrow> fst delta \<le> en_retainedCiphertextBytes e \<and> snd delta \<le> en_retainedEventCount e)
     \<and> deltas_coherent deltas entries"

definition purge_deltas :: "int \<Rightarrow> (nat \<times> int \<times> int) list \<Rightarrow> SessionEntry list \<Rightarrow> SessionEntry list" where
  "purge_deltas now deltas entries =
     fold (\<lambda>(entryId, delta). patch_row en_id entryId (\<lambda>e. (discharge delta e) \<lparr>en_updatedAt := now\<rparr>)) deltas entries"

definition purge_selected ::
  "SyncVault \<Rightarrow> DirectoryChange list \<Rightarrow> string \<Rightarrow> int \<Rightarrow> SyncDb \<Rightarrow> (EventPurge \<times> SyncDb) option" where
  "purge_selected vault selected targetVersion now db = do {
     (events, deltas, totalBytes, totalEvents) \<leftarrow> collect_events db selected [] [] 0 0;
     (if va_retainedCiphertextBytes vault < totalBytes \<or> va_retainedEventCount vault < totalEvents \<or>
         \<not> deltas_coherent deltas (sy_entries db) then None
      else do {
        changes \<leftarrow> delete_rows ch_id (map ch_id selected) (sy_changes db);
        kept \<leftarrow> delete_rows ve_id (map ve_id events) (sy_events db);
        order \<leftarrow> compareSyncUint64 (ch_directoryVersion (last selected)) targetVersion;
        Some ((if order \<ge> 0 then PU_complete else PU_incomplete) (length selected),
          patch_vault (va_id vault) (\<lambda>v. v \<lparr>va_changeFloorVersion := ch_directoryVersion (last selected),
            va_retainedCiphertextBytes := va_retainedCiphertextBytes vault - totalBytes,
            va_retainedEventCount := va_retainedEventCount vault - totalEvents, va_updatedAt := now\<rparr>)
          (db \<lparr>sy_changes := changes, sy_events := kept, sy_entries := purge_deltas now deltas (sy_entries db)\<rparr>))
      })
   }"

definition purge_target :: "SessionEvent option \<Rightarrow> string option \<Rightarrow> string option option" where
  "purge_target target purgeThroughVersion =
     (case (target, purgeThroughVersion) of
        (None, through) \<Rightarrow> Some through
      | (Some v, None) \<Rightarrow> Some (Some (ve_directoryVersion v))
      | (Some v, Some through) \<Rightarrow> do {
          order \<leftarrow> compareSyncUint64 (ve_directoryVersion v) through;
          Some (Some (if order \<ge> 0 then ve_directoryVersion v else through))
        })"

definition purgeRetiringSessionEventPrefix ::
  "SyncVault \<Rightarrow> SessionEntry \<Rightarrow> string option \<Rightarrow> int \<Rightarrow> nat \<Rightarrow> SyncDb \<Rightarrow> (EventPurge \<times> SyncDb) option" where
  "purgeRetiringSessionEventPrefix vault entry purgeThroughVersion now maximumChanges db =
     (let target = newest_event db (en_id entry) in do {
        through \<leftarrow> purge_target target purgeThroughVersion;
        (case through of
           None \<Rightarrow> (if en_retainedEventCount entry \<noteq> 0 then None else Some (PU_complete 0, db))
         | Some targetVersion \<Rightarrow>
             (if live_pins db (va_id vault) now \<noteq> [] then Some (PU_blocked, db)
              else if maximumChanges = 0 then Some (PU_incomplete 0, db)
              else do {
                order \<leftarrow> compareSyncUint64 targetVersion (va_changeFloorVersion vault);
                (if order \<le> 0 then
                   (if target = None \<and> en_retainedEventCount entry = 0 then Some (PU_complete 0, db) else None)
                 else do {
                   targetKey \<leftarrow> syncUint64OrderKey targetVersion;
                   first \<leftarrow> nextRequiredSyncUint64 (va_changeFloorVersion vault);
                   (let selected = take maximumChanges
                          (filter (\<lambda>c. ch_directoryVersionOrderKey c \<le> targetKey) (vault_changes db (va_id vault))) in
                    if selected = [] \<or> ch_directoryVersion (hd selected) \<noteq> first then None
                    else purge_selected vault selected targetVersion now db)
                 })
              }))
      })"

definition retired_entry :: "string \<Rightarrow> string \<Rightarrow> string \<Rightarrow> int \<Rightarrow> SessionEntry \<Rightarrow> SessionEntry" where
  "retired_entry created directoryVersion orderKey now e =
     e \<lparr>en_state := EN_retired, en_createdDirectoryVersion := Some created,
        en_retirementDirectoryVersion := Some directoryVersion, en_latestDirectoryVersion := directoryVersion,
        en_latestDirectoryVersionOrderKey := orderKey, en_retainedCiphertextBytes := 0,
        en_retainedEventCount := 0, en_streamActive := False, en_updatedAt := now\<rparr>"

definition retired_vault :: "SyncVault \<Rightarrow> int \<Rightarrow> string \<Rightarrow> string \<Rightarrow> int \<Rightarrow> SyncVault \<Rightarrow> SyncVault" where
  "retired_vault vault headBytes directoryVersion orderKey now v =
     v \<lparr>va_directoryVersion := directoryVersion, va_directoryVersionOrderKey := orderKey,
        va_directorySessionCount := va_directorySessionCount vault - 1,
        va_retainedCiphertextBytes := va_retainedCiphertextBytes vault - headBytes, va_updatedAt := now\<rparr>"

text \<open>The last step of a retirement, on the documents as they are after the purge.\<close>

definition retire_writes :: "SyncVault \<Rightarrow> SessionEntry \<Rightarrow> SessionTombstone option \<Rightarrow> int \<Rightarrow> SyncDb \<Rightarrow> SyncDb option" where
  "retire_writes vault entry tombstone now db =
     (if \<not> va_active vault \<or> en_retainedEventCount entry \<noteq> 0 then None
      else do {
        directoryVersion \<leftarrow> nextRequiredSyncUint64 (va_directoryVersion vault);
        orderKey \<leftarrow> syncUint64OrderKey directoryVersion;
        retiredAt \<leftarrow> encodeSyncUint64 now;
        head \<leftarrow> find_head db (en_id entry);
        (let created = (case en_createdDirectoryVersion entry of None \<Rightarrow> directoryVersion | Some c \<Rightarrow> c);
             headBytes = old_bytes head in
         if \<not> accepted_head_valid created directoryVersion \<or> en_retainedCiphertextBytes entry \<noteq> headBytes \<or>
            va_retainedCiphertextBytes vault < headBytes \<or> va_directorySessionCount vault \<le> 0 then None
         else do {
           heads \<leftarrow> (case head of None \<Rightarrow> Some (sy_heads db) | Some h \<Rightarrow> delete_row sh_id (sh_id h) (sy_heads db));
           tombstones \<leftarrow> (case tombstone of None \<Rightarrow> Some (sy_tombstones db) | Some t \<Rightarrow> delete_row to_id (to_id t) (sy_tombstones db));
           (let db1 = insert_change (va_id vault) directoryVersion orderKey CK_retired (en_id entry) None now
                  (db \<lparr>sy_heads := heads, sy_tombstones := tombstones\<rparr>);
                db2 = patch_entry (en_id entry) (retired_entry created directoryVersion orderKey now) db1 in
            Some (patch_vault (va_id vault) (retired_vault vault headBytes directoryVersion orderKey now) db2))
         })
      })"

text \<open>One target of the sweep: whether the loop stops there, the changes left to purge, and the store.\<close>

definition retire_target :: "nat \<Rightarrow> int \<Rightarrow> nat \<Rightarrow> SyncDb \<Rightarrow> (bool \<times> nat \<times> SyncDb) option" where
  "retire_target entryId now budget db =
     (case get_row en_id (sy_entries db) entryId of
        None \<Rightarrow> Some (False, budget, db)
      | Some entry \<Rightarrow>
          (case get_row va_id (sy_vaults db) (en_vaultId entry) of
             None \<Rightarrow> Some (False, budget, db)
           | Some vault \<Rightarrow>
               (if en_state entry = EN_retired \<or> \<not> va_active vault \<or> live_pins db (va_id vault) now \<noteq> []
                then Some (False, budget, db)
                else do {
                  tombstone \<leftarrow> (if en_state entry = EN_tombstone
                    then unique_row (filter (\<lambda>t. to_sessionEntryId t = en_id entry) (sy_tombstones db)) else Some None);
                  (if \<not> (en_state entry = EN_reserved \<and> en_creationGrantExpiresAt entry \<le> now) \<and>
                      \<not> (case tombstone of None \<Rightarrow> False | Some t \<Rightarrow> to_purgeAfter t \<le> now)
                   then Some (False, budget, db)
                   else do {
                     (purge, db1) \<leftarrow> purgeRetiringSessionEventPrefix vault entry
                       (map_option to_directoryVersion tombstone) now budget db;
                     (case purge of
                        PU_blocked \<Rightarrow> Some (False, budget, db1)
                      | PU_incomplete processed \<Rightarrow> Some (budget - processed = 0, budget - processed, db1)
                      | PU_complete processed \<Rightarrow>
                          (case (get_row en_id (sy_entries db1) entryId, get_row va_id (sy_vaults db1) (va_id vault)) of
                             (Some retiringEntry, Some retiringVault) \<Rightarrow> do {
                               db2 \<leftarrow> retire_writes retiringVault retiringEntry tombstone now db1;
                               Some (False, budget - processed, db2)
                             }
                           | _ \<Rightarrow> None))
                   })
                })))"

definition MAX_RETIREMENT_CHANGE_PURGE_PER_SWEEP :: nat where "MAX_RETIREMENT_CHANGE_PURGE_PER_SWEEP = 128"

fun retire_targets :: "nat list \<Rightarrow> int \<Rightarrow> nat \<Rightarrow> SyncDb \<Rightarrow> SyncDb option" where
  "retire_targets [] now budget db = Some db"
| "retire_targets (entryId # entryIds) now budget db = do {
     (stop, left, db1) \<leftarrow> retire_target entryId now budget db;
     (if stop then Some db1 else retire_targets entryIds now left db1)
   }"

definition retirement_targets :: "int \<Rightarrow> SyncDb \<Rightarrow> nat list" where
  "retirement_targets now db = take 64 (js_set
     (map en_id (take 64 (sort_key en_creationGrantExpiresAt
        (filter (\<lambda>e. en_state e = EN_reserved \<and> en_creationGrantExpiresAt e \<le> now) (sy_entries db)))) @
      map to_sessionEntryId (take 64 (sort_key to_purgeAfter (filter (\<lambda>t. to_purgeAfter t \<le> now) (sy_tombstones db))))))"

definition retireExpiredSessions :: "int \<Rightarrow> SyncDb \<Rightarrow> SyncDb option" where
  "retireExpiredSessions now db =
     retire_targets (retirement_targets now db) now MAX_RETIREMENT_CHANGE_PURGE_PER_SWEEP db"

end
