(* ===== verification/SessionRetention.thy ===== *)
theory SessionRetention
  imports SessionPublish
begin

text \<open>
  Retention accounting of session sync: after any sequence of reservations, writer acquisitions,
  publications, deletions and retirement sweeps the counters of every session and vault are the
  counts and bytes of the rows that are there, and the quotas hold.
\<close>

subsection \<open>Rows of a load\<close>

definition ev_count :: "(SessionEvent \<Rightarrow> bool) \<Rightarrow> SessionEvent list \<Rightarrow> int" where
  "ev_count P rows = int (length (filter P rows))"

definition ev_bytes :: "(SessionEvent \<Rightarrow> bool) \<Rightarrow> SessionEvent list \<Rightarrow> int" where
  "ev_bytes P rows = sum_list (map ve_ciphertextBytes (filter P rows))"

definition hd_bytes :: "(SessionHead \<Rightarrow> bool) \<Rightarrow> SessionHead list \<Rightarrow> int" where
  "hd_bytes P rows = sum_list (map sh_ciphertextBytes (filter P rows))"

abbreviation of_entry :: "nat \<Rightarrow> SessionEvent \<Rightarrow> bool" where
  "of_entry i v \<equiv> ve_sessionEntryId v = i"

abbreviation of_vault :: "nat \<Rightarrow> SessionEvent \<Rightarrow> bool" where
  "of_vault i v \<equiv> ve_vaultId v = i"

lemma load_simps [simp]:
  "ev_count P [] = 0" "ev_bytes P [] = 0" "hd_bytes Q [] = 0"
  "ev_count P (rows @ [v]) = ev_count P rows + (if P v then 1 else 0)"
  "ev_bytes P (rows @ [v]) = ev_bytes P rows + (if P v then ve_ciphertextBytes v else 0)"
  "hd_bytes Q (heads @ [h]) = hd_bytes Q heads + (if Q h then sh_ciphertextBytes h else 0)"
  by (simp_all add: ev_count_def ev_bytes_def hd_bytes_def)

lemma load_Cons:
  "ev_count P (v # rows) = (if P v then 1 else 0) + ev_count P rows"
  "ev_bytes P (v # rows) = (if P v then ve_ciphertextBytes v else 0) + ev_bytes P rows"
  by (simp_all add: ev_count_def ev_bytes_def)

lemma load_mset:
  "ev_count P rows = int (size (filter_mset P (mset rows)))"
  "ev_bytes P rows = sum_mset (image_mset ve_ciphertextBytes (filter_mset P (mset rows)))"
  unfolding ev_count_def ev_bytes_def
  by (simp_all flip: mset_filter sum_mset_sum_list)

lemma load_removed:
  assumes "mset rows = mset gone + mset rest"
  shows "ev_count P rest = ev_count P rows - ev_count P gone" and "ev_bytes P rest = ev_bytes P rows - ev_bytes P gone"
  by (simp_all add: load_mset assms)

text \<open>Deleting rows that were read from the table takes exactly them away.\<close>

lemma delete_row_mset:
  assumes "distinct (map key rows)" and "r \<in> set rows" and "delete_row key (key r) rows = Some rest"
  shows "mset rows = add_mset r (mset rest)"
proof -
  from assms(3) have rest: "rest = filter (\<lambda>x. key x \<noteq> key r) rows"
    by (auto simp: delete_row_def split: option.splits)
  have one: "mset (filter (\<lambda>x. key x = key r) rows) = {#r#}"
    using assms(1,2)
  proof (induction rows)
    case (Cons x rows)
    show ?case
    proof (cases "x = r")
      case True
      with Cons.prems(1) have "filter (\<lambda>x. key x = key r) rows = []" by (auto simp: filter_empty_conv image_iff)
      with True show ?thesis by simp
    next
      case False
      with Cons.prems have "r \<in> set rows" "key x \<noteq> key r" by (auto simp: image_iff)
      with Cons show ?thesis by simp
    qed
  qed simp
  have "mset rows = mset (filter (\<lambda>x. key x = key r) rows) + mset (filter (\<lambda>x. key x \<noteq> key r) rows)"
    unfolding mset_filter by (rule union_filter_mset_complement [symmetric]) simp
  also have "\<dots> = {#r#} + mset rest" unfolding one rest ..
  finally show ?thesis by (rule trans) simp
qed

lemma delete_row_set: "delete_row key i rows = Some rest \<Longrightarrow> set rest = {r \<in> set rows. key r \<noteq> i} \<and> (distinct (map key rows) \<longrightarrow> distinct (map key rest))"
  by (auto simp: delete_row_def distinct_map_filter split: option.splits)

lemma delete_rows_mset:
  assumes "delete_rows key (map key gone) rows = Some rest" and "distinct (map key rows)" and "set gone \<subseteq> set rows"
  shows "mset rows = mset gone + mset rest"
  using assms
proof (induction gone arbitrary: rows)
  case (Cons r gone)
  then obtain mid where mid: "delete_row key (key r) rows = Some mid" and rest: "delete_rows key (map key gone) mid = Some rest"
    by (auto split: Option.bind_splits)
  from Cons.prems mid have first: "mset rows = add_mset r (mset mid)" by (intro delete_row_mset) auto
  have "set gone \<subseteq> set mid"
  proof
    fix x assume x: "x \<in> set gone"
    then have "key x \<in> key ` set mid"
      using rest
    proof (induction gone arbitrary: mid)
      case (Cons y gone)
      then obtain m where m: "delete_row key (key y) mid = Some m" "delete_rows key (map key gone) m = Some rest"
        by (auto split: Option.bind_splits)
      from m(1) have y: "key y \<in> key ` set mid" unfolding delete_row_def using get_row_None [of key mid "key y"]
        by (cases "get_row key mid (key y)") auto
      from delete_row_set [OF m(1)] have "key ` set m \<subseteq> key ` set mid" by auto
      with Cons m(2) y show ?case by auto
    qed simp
    then obtain z where z: "z \<in> set mid" "key z = key x" by auto
    with delete_row_set [OF mid] have "z \<in> set rows" by auto
    moreover have "x \<in> set rows" using x Cons.prems(3) by auto
    ultimately have "z = x" using Cons.prems(2) z(2) by (auto simp: distinct_map dest: inj_onD)
    with z(1) show "x \<in> set mid" by simp
  qed
  moreover have "distinct (map key mid)" using delete_row_set [OF mid] Cons.prems(2) by blast
  ultimately have "mset mid = mset gone + mset rest" using Cons.IH [OF rest] by blast
  with first show ?case by simp
qed simp

lemma delete_rows_set:
  "delete_rows key is rows = Some rest \<Longrightarrow> set rest = {r \<in> set rows. key r \<notin> set is} \<and> (distinct (map key rows) \<longrightarrow> distinct (map key rest))"
proof (induction "is" arbitrary: rows)
  case (Cons i "is")
  then obtain mid where "delete_row key i rows = Some mid" "delete_rows key is mid = Some rest"
    by (auto split: Option.bind_splits)
  with delete_row_set Cons.IH show ?case by fastforce
qed simp

subsection \<open>Deltas by session\<close>

lemma prior_delta_add:
  "prior_delta (add_delta v deltas) i =
     (if i = ve_sessionEntryId v then (fst (prior_delta deltas i) + ve_ciphertextBytes v, snd (prior_delta deltas i) + 1)
      else prior_delta deltas i)"
  by (auto simp: prior_delta_def add_delta_def update_conv Let_def split_beta split: option.splits)

lemma distinct_add_delta: "distinct (map fst deltas) \<Longrightarrow> distinct (map fst (add_delta v deltas))"
  by (simp add: add_delta_def Let_def split_beta distinct_update)

definition deltas_of :: "SessionEvent list \<Rightarrow> (nat \<times> int \<times> int) list \<Rightarrow> bool" where
  "deltas_of events deltas \<longleftrightarrow> distinct (map fst deltas) \<and>
     (\<forall>i. prior_delta deltas i = (ev_bytes (of_entry i) events, ev_count (of_entry i) events))"

lemma deltas_of_Nil: "deltas_of [] []"
  by (simp add: deltas_of_def prior_delta_def)

lemma deltas_of_add: "deltas_of events deltas \<Longrightarrow> deltas_of (events @ [v]) (add_delta v deltas)"
  by (auto simp: deltas_of_def prior_delta_add distinct_add_delta)

lemma discharge_zero [simp]: "discharge (0, 0) e = e"
  by (simp add: discharge_def)

lemma prior_delta_Cons:
  "prior_delta ((i, d) # deltas) j = (if i = j then d else prior_delta deltas j)"
  by (simp add: prior_delta_def)

lemma discharge_id [simp]: "en_id (discharge d e) = en_id e"
  by (simp add: discharge_def)

lemma prior_delta_absent: "i \<notin> fst ` set deltas \<Longrightarrow> prior_delta deltas i = (0, 0)"
  using map_of_eq_None_iff [of deltas i] by (simp add: prior_delta_def)

lemma apply_deltas_map:
  assumes "apply_deltas deltas entries = Some entries'" and "distinct (map fst deltas)" and "distinct (map en_id entries)"
  shows "entries' = map (\<lambda>e. discharge (prior_delta deltas (en_id e)) e) entries"
  using assms
proof (induction deltas arbitrary: entries)
  case Nil
  then show ?case by (simp add: prior_delta_def map_idI)
next
  case (Cons p deltas)
  obtain i d where p: "p = (i, d)" by (cases p)
  from Cons.prems(1) p obtain entry where entry: "get_row en_id entries i = Some entry"
    and rest: "apply_deltas deltas (patch_row en_id i (\<lambda>e. e \<lparr>en_retainedCiphertextBytes := en_retainedCiphertextBytes entry - fst d,
        en_retainedEventCount := en_retainedEventCount entry - snd d\<rparr>) entries) = Some entries'"
    by (auto split: Option.bind_splits if_splits)
  have same: "e = entry" if "e \<in> set entries" "en_id e = i" for e
    using that get_row_mem [OF Cons.prems(3) that(1)] entry by simp
  have patched: "patch_row en_id i (\<lambda>e. e \<lparr>en_retainedCiphertextBytes := en_retainedCiphertextBytes entry - fst d,
        en_retainedEventCount := en_retainedEventCount entry - snd d\<rparr>) entries =
      map (\<lambda>e. if en_id e = i then discharge d e else e) entries"
    unfolding patch_row_def using same by (intro map_cong) (auto simp: discharge_def)
  have "distinct (map en_id (map (\<lambda>e. if en_id e = i then discharge d e else e) entries))"
    using Cons.prems(3) by (simp add: comp_def if_distrib cong: if_cong)
  with Cons.IH [OF rest [unfolded patched]] Cons.prems(2) p have
    "entries' = map (\<lambda>e. discharge (prior_delta deltas (en_id e)) e) (map (\<lambda>e. if en_id e = i then discharge d e else e) entries)" by simp
  moreover have "prior_delta deltas i = (0, 0)" using Cons.prems(2) p by (intro prior_delta_absent) simp
  ultimately show ?case by (auto simp: p prior_delta_Cons)
qed

subsection \<open>The invariant\<close>

text \<open>Identifiers, references and sizes of the rows.\<close>

definition tables_ok :: "SyncDb \<Rightarrow> bool" where
  "tables_ok db \<longleftrightarrow>
     distinct (map va_id (sy_vaults db)) \<and> distinct (map en_id (sy_entries db)) \<and>
     distinct (map ve_id (sy_events db)) \<and> distinct (map ch_id (sy_changes db)) \<and>
     distinct (map sh_id (sy_heads db)) \<and> distinct (map sh_sessionEntryId (sy_heads db)) \<and>
     (\<forall>e\<in>set (sy_entries db). en_id e < sy_next db) \<and>
     (\<forall>v\<in>set (sy_events db). ve_id v < sy_next db \<and> ve_sessionEntryId v < sy_next db \<and> 0 \<le> ve_ciphertextBytes v) \<and>
     (\<forall>h\<in>set (sy_heads db). sh_id h < sy_next db \<and> sh_sessionEntryId h < sy_next db \<and> 0 \<le> sh_ciphertextBytes h \<and>
        (\<forall>e\<in>set (sy_entries db). en_id e = sh_sessionEntryId h \<longrightarrow> sh_vaultId h = en_vaultId e)) \<and>
     (\<forall>c\<in>set (sy_changes db). ch_id c < sy_next db \<and>
        (\<forall>i. ch_eventId c = Some i \<longrightarrow> i < sy_next db \<and>
           (\<forall>v\<in>set (sy_events db). ve_id v = i \<longrightarrow> ve_vaultId v = ch_vaultId c)))"

definition entry_load :: "SyncDb \<Rightarrow> SessionEntry \<Rightarrow> bool" where
  "entry_load db e \<longleftrightarrow>
     en_retainedEventCount e = ev_count (of_entry (en_id e)) (sy_events db) \<and>
     en_retainedCiphertextBytes e =
       ev_bytes (of_entry (en_id e)) (sy_events db) + hd_bytes (\<lambda>h. sh_sessionEntryId h = en_id e) (sy_heads db) \<and>
     (en_streamActive e \<longrightarrow> en_state e = EN_active)"

definition count_entries :: "(SessionEntry \<Rightarrow> bool) \<Rightarrow> SyncDb \<Rightarrow> int" where
  "count_entries P db = int (length (filter P (sy_entries db)))"

abbreviation streaming :: "nat \<Rightarrow> SessionEntry \<Rightarrow> bool" where
  "streaming i e \<equiv> en_vaultId e = i \<and> en_streamActive e"

abbreviation listed :: "nat \<Rightarrow> SessionEntry \<Rightarrow> bool" where
  "listed i e \<equiv> en_vaultId e = i \<and> en_state e \<noteq> EN_retired"

text \<open>\<open>material\<close>: the ciphertext of a vault's own key material, which these operations never touch.\<close>

definition vault_load :: "(nat \<Rightarrow> int) \<Rightarrow> SyncDb \<Rightarrow> SyncVault \<Rightarrow> bool" where
  "vault_load material db w \<longleftrightarrow>
     va_retainedEventCount w = ev_count (of_vault (va_id w)) (sy_events db) \<and>
     va_retainedCiphertextBytes w = material (va_id w) + ev_bytes (of_vault (va_id w)) (sy_events db)
       + hd_bytes (\<lambda>h. sh_vaultId h = va_id w) (sy_heads db) \<and>
     va_activeStreamCount w = count_entries (streaming (va_id w)) db \<and>
     va_directorySessionCount w = count_entries (listed (va_id w)) db"

definition vault_quota :: "SyncVault \<Rightarrow> bool" where
  "vault_quota w \<longleftrightarrow>
     va_retainedEventCount w \<le> MAX_SYNC_RETAINED_EVENTS \<and>
     va_retainedCiphertextBytes w + va_compatibilityEvidenceCiphertextBytes w \<le> MAX_SYNC_RETAINED_CIPHERTEXT_BYTES \<and>
     va_activeStreamCount w \<le> MAX_SYNC_ACTIVE_STREAMS \<and>
     va_directorySessionCount w \<le> MAX_SYNC_DIRECTORY_SESSIONS"

definition acct :: "(nat \<Rightarrow> int) \<Rightarrow> SyncDb \<Rightarrow> bool" where
  "acct material db \<longleftrightarrow> tables_ok db \<and> (\<forall>e\<in>set (sy_entries db). entry_load db e) \<and>
     (\<forall>w\<in>set (sy_vaults db). vault_load material db w \<and> vault_quota w)"

lemma acct_tables: "acct material db \<Longrightarrow> tables_ok db"
  by (simp add: acct_def)

lemma acct_entry: "acct material db \<Longrightarrow> e \<in> set (sy_entries db) \<Longrightarrow> entry_load db e"
  by (simp add: acct_def)

lemma acct_vault: "acct material db \<Longrightarrow> w \<in> set (sy_vaults db) \<Longrightarrow> vault_load material db w \<and> vault_quota w"
  by (simp add: acct_def)

lemma count_map_cong:
  "(\<And>e. e \<in> set es \<Longrightarrow> P (g e) \<longleftrightarrow> P e) \<Longrightarrow> length (filter P (map g es)) = length (filter P es)"
  by (induction es) auto

subsection \<open>Plans\<close>

definition plan_ok :: "SyncDb \<Rightarrow> SyncVault \<Rightarrow> EventPrefixPrunePlan \<Rightarrow> bool" where
  "plan_ok db vault plan \<longleftrightarrow>
     set (pp_changes plan) \<subseteq> {c \<in> set (sy_changes db). ch_vaultId c = va_id vault} \<and>
     set (pp_events plan) \<subseteq> {v \<in> set (sy_events db). ve_vaultId v = va_id vault} \<and>
     deltas_of (pp_events plan) (pp_entryDeltas plan) \<and>
     pp_retainedEventCount plan = va_retainedEventCount vault - ev_count (\<lambda>_. True) (pp_events plan) \<and>
     pp_retainedCiphertextBytes plan = va_retainedCiphertextBytes vault - ev_bytes (\<lambda>_. True) (pp_events plan) \<and>
     (pp_changes plan = [] \<longrightarrow> plan = empty_plan vault)"

lemma empty_plan_ok: "plan_ok db vault (empty_plan vault)"
  by (simp add: plan_ok_def empty_plan_def deltas_of_Nil)

lemma plan_change_ok:
  assumes "tables_ok db" and "plan_ok db vault plan" and "plan_change db change plan = Some plan'"
    and "change \<in> set (sy_changes db)" and "ch_vaultId change = va_id vault"
  shows "plan_ok db vault plan'"
proof (cases "ch_eventId change")
  case None
  with assms(2-5) show ?thesis by (auto simp: plan_change_def plan_ok_def)
next
  case (Some i)
  with assms(3) obtain v where v: "get_row ve_id (sy_events db) i = Some v"
    and plan': "plan' = plan \<lparr>pp_changes := pp_changes plan @ [change], pp_changeFloorVersion := ch_directoryVersion change,
      pp_events := pp_events plan @ [v], pp_retainedCiphertextBytes := pp_retainedCiphertextBytes plan - ve_ciphertextBytes v,
      pp_retainedEventCount := pp_retainedEventCount plan - 1, pp_entryDeltas := add_delta v (pp_entryDeltas plan)\<rparr>"
    by (auto simp: plan_change_def split: Option.bind_splits)
  from get_row_Some [OF v] have member: "v \<in> set (sy_events db)" "ve_id v = i" by simp_all
  with assms(1,4,5) Some have "ve_vaultId v = va_id vault" by (auto simp: tables_ok_def)
  with assms(2,4,5) member show ?thesis
    by (simp add: plan_ok_def plan' deltas_of_add)
qed

lemma plan_changes_ok:
  assumes "tables_ok db"
  shows "plan_ok db vault plan \<Longrightarrow> plan_changes db vault needed pruneThrough changes plan = Some plan' \<Longrightarrow>
    set changes \<subseteq> {c \<in> set (sy_changes db). ch_vaultId c = va_id vault} \<Longrightarrow> plan_ok db vault plan'"
proof (induction changes arbitrary: plan)
  case (Cons change changes)
  obtain beyond where beyond: "beyond_pin pruneThrough change = Some beyond"
    using Cons.prems(2) by (cases "beyond_pin pruneThrough change") simp_all
  show ?case
  proof (cases beyond)
    case False
    obtain plan1 where plan1: "plan_change db change plan = Some plan1"
      using Cons.prems(2) beyond False by (cases "plan_change db change plan") simp_all
    from plan_change_ok [OF assms Cons.prems(1) this] Cons.prems(3) have ok: "plan_ok db vault plan1" by simp
    show ?thesis
    proof (cases "eventQuotaFits vault (pp_retainedEventCount plan1) (pp_retainedCiphertextBytes plan1) needed")
      case True
      with ok Cons.prems(2) beyond False plan1 show ?thesis by simp
    next
      case False
      with Cons.prems(2) beyond \<open>\<not> beyond\<close> plan1
      have rest: "plan_changes db vault needed pruneThrough changes plan1 = Some plan'" by simp
      from Cons.IH [OF ok rest] Cons.prems(3) show ?thesis by simp
    qed
  qed (use Cons.prems(1,2) beyond in simp)
qed simp

lemma vault_changes_set: "set (vault_changes db i) = {c \<in> set (sy_changes db). ch_vaultId c = i}"
  by (simp add: vault_changes_def)

lemma planned:
  assumes "tables_ok db" and "planEventPrefixPrune db vault needed now = Some (Some (sufficient, plan))"
  shows "plan_ok db vault plan \<and>
    (sufficient \<longrightarrow> eventQuotaFits vault (pp_retainedEventCount plan) (pp_retainedCiphertextBytes plan) needed)"
proof (cases "eventQuotaFits vault (va_retainedEventCount vault) (va_retainedCiphertextBytes vault) needed")
  case True
  with assms(2) have "plan = empty_plan vault" by (simp add: planEventPrefixPrune_def)
  with True show ?thesis by (simp add: empty_plan_ok) (simp add: empty_plan_def)
next
  case False
  with assms(2) obtain pruneThrough where
    plan: "plan_changes db vault needed pruneThrough (take PRUNE_CHANGE_LIMIT (vault_changes db (va_id vault))) (empty_plan vault) = Some plan"
    and fits: "sufficient = eventQuotaFits vault (pp_retainedEventCount plan) (pp_retainedCiphertextBytes plan) needed"
    by (auto simp: planEventPrefixPrune_def Let_def split: Option.bind_splits if_splits)
  have "set (take PRUNE_CHANGE_LIMIT (vault_changes db (va_id vault))) \<subseteq> {c \<in> set (sy_changes db). ch_vaultId c = va_id vault}"
    using set_take_subset [of PRUNE_CHANGE_LIMIT "vault_changes db (va_id vault)"] by (simp only: vault_changes_set)
  with plan_changes_ok [OF assms(1) empty_plan_ok plan] have "plan_ok db vault plan" by blast
  with fits show ?thesis by simp
qed

subsection \<open>Pruning keeps the accounts\<close>

lemma load_split:
  assumes "set gone \<subseteq> {v. P v}"
  shows "ev_count P gone = ev_count (\<lambda>_. True) gone" and "ev_bytes P gone = ev_bytes (\<lambda>_. True) gone"
  using assms by (auto simp: ev_count_def ev_bytes_def filter_id_conv subset_iff)

lemma load_none:
  assumes "set gone \<subseteq> {v. \<not> P v}"
  shows "ev_count P gone = 0" and "ev_bytes P gone = 0"
proof -
  from assms have "filter P gone = []" by (auto simp: filter_empty_conv)
  then show "ev_count P gone = 0" and "ev_bytes P gone = 0" by (simp_all add: ev_count_def ev_bytes_def)
qed

lemma ev_bytes_nonneg: "\<forall>v\<in>set rows. 0 \<le> ve_ciphertextBytes v \<Longrightarrow> 0 \<le> ev_bytes P rows"
  by (induction rows) (simp_all add: load_Cons)

lemma ev_count_nonneg: "0 \<le> ev_count P rows"
  by (simp add: ev_count_def)

text \<open>Taking planned rows away, charging entries and a vault accordingly.\<close>

definition taken :: "SyncVault \<Rightarrow> DirectoryChange list \<Rightarrow> SessionEvent list \<Rightarrow> (SessionEntry \<Rightarrow> SessionEntry) \<Rightarrow> SyncVault \<Rightarrow> SyncDb \<Rightarrow> SyncDb \<Rightarrow> bool" where
  "taken vault changes events g vault' db db' \<longleftrightarrow>
     sy_next db' = sy_next db \<and> sy_heads db' = sy_heads db \<and>
     delete_rows ch_id (map ch_id changes) (sy_changes db) = Some (sy_changes db') \<and>
     delete_rows ve_id (map ve_id events) (sy_events db) = Some (sy_events db') \<and>
     sy_entries db' = map g (sy_entries db) \<and>
     sy_vaults db' = map (\<lambda>w. if va_id w = va_id vault then vault' else w) (sy_vaults db)"

definition discharged :: "SessionEvent list \<Rightarrow> (SessionEntry \<Rightarrow> SessionEntry) \<Rightarrow> bool" where
  "discharged events g \<longleftrightarrow> (\<forall>e. en_id (g e) = en_id e \<and> en_vaultId (g e) = en_vaultId e \<and> en_state (g e) = en_state e \<and>
     en_streamActive (g e) = en_streamActive e \<and>
     en_retainedEventCount (g e) = en_retainedEventCount e - ev_count (of_entry (en_id e)) events \<and>
     en_retainedCiphertextBytes (g e) = en_retainedCiphertextBytes e - ev_bytes (of_entry (en_id e)) events)"

definition charged :: "SessionEvent list \<Rightarrow> SyncVault \<Rightarrow> SyncVault \<Rightarrow> bool" where
  "charged events w w' \<longleftrightarrow> va_id w' = va_id w \<and>
     va_retainedEventCount w' = va_retainedEventCount w - ev_count (\<lambda>_. True) events \<and>
     va_retainedCiphertextBytes w' = va_retainedCiphertextBytes w - ev_bytes (\<lambda>_. True) events \<and>
     va_compatibilityEvidenceCiphertextBytes w' = va_compatibilityEvidenceCiphertextBytes w \<and>
     va_activeStreamCount w' = va_activeStreamCount w \<and> va_directorySessionCount w' = va_directorySessionCount w"

lemma taken_acct:
  assumes acct: "acct material db" and vault: "get_row va_id (sy_vaults db) (va_id vault) = Some vault"
    and taken: "taken vault changes events g vault' db db'" and g: "discharged events g" and c: "charged events vault vault'"
    and events: "set events \<subseteq> {v \<in> set (sy_events db). ve_vaultId v = va_id vault}"
  shows "acct material db'"
proof -
  note t = acct_tables [OF acct]
  from taken have next_eq: "sy_next db' = sy_next db" and heads: "sy_heads db' = sy_heads db"
    and entries: "sy_entries db' = map g (sy_entries db)"
    and vaults: "sy_vaults db' = map (\<lambda>w. if va_id w = va_id vault then vault' else w) (sy_vaults db)"
    and ch: "delete_rows ch_id (map ch_id changes) (sy_changes db) = Some (sy_changes db')"
    and ev: "delete_rows ve_id (map ve_id events) (sy_events db) = Some (sy_events db')" by (simp_all add: taken_def)
  from g have ids: "en_id (g e) = en_id e" "en_vaultId (g e) = en_vaultId e" "en_state (g e) = en_state e"
      "en_streamActive (g e) = en_streamActive e" for e by (simp_all add: discharged_def)
  from c have vid: "va_id vault' = va_id vault" by (simp add: charged_def)
  have rows: "mset (sy_events db) = mset events + mset (sy_events db')"
    using delete_rows_mset [OF ev] t events by (auto simp: tables_ok_def)
  note load = load_removed [OF rows]
  have sub_ev: "set (sy_events db') \<subseteq> set (sy_events db)" and dist_ev: "distinct (map ve_id (sy_events db'))"
    and sub_ch: "set (sy_changes db') \<subseteq> set (sy_changes db)" and dist_ch: "distinct (map ch_id (sy_changes db'))"
    using delete_rows_set [OF ev] delete_rows_set [OF ch] t by (auto simp: tables_ok_def)
  have vault_ids: "map va_id (sy_vaults db') = map va_id (sy_vaults db)" using vid by (simp add: vaults)
  have entry_ids: "map en_id (sy_entries db') = map en_id (sy_entries db)" using ids by (simp add: entries)
  have tables: "tables_ok db'"
    unfolding tables_ok_def vault_ids entry_ids heads next_eq
    using t dist_ev dist_ch sub_ev sub_ch ids by (auto simp: tables_ok_def entries subset_iff)
  have entry: "entry_load db' (g e)" if "e \<in> set (sy_entries db)" for e
    using acct_entry [OF acct that] g by (simp add: entry_load_def discharged_def load heads)
  have counts: "count_entries P db' = count_entries P db" if "\<And>e. P (g e) \<longleftrightarrow> P e" for P
    unfolding count_entries_def entries using count_map_cong that by metis
  have other: "vault_load material db' w \<and> vault_quota w" if "w \<in> set (sy_vaults db)" "va_id w \<noteq> va_id vault" for w
  proof -
    have "ev_count (of_vault (va_id w)) events = 0" "ev_bytes (of_vault (va_id w)) events = 0"
      using events that(2) by (auto intro!: load_none)
    with acct_vault [OF acct that(1)] show ?thesis by (simp add: vault_load_def load heads counts ids)
  qed
  have mine: "vault_load material db' vault' \<and> vault_quota vault'"
  proof -
    from get_row_Some [OF vault] have "vault \<in> set (sy_vaults db)" by simp
    from acct_vault [OF acct this] have old: "vault_load material db vault" "vault_quota vault" by simp_all
    have all: "ev_count (of_vault (va_id vault)) events = ev_count (\<lambda>_. True) events"
      "ev_bytes (of_vault (va_id vault)) events = ev_bytes (\<lambda>_. True) events"
      using events by (auto intro!: load_split)
    have "vault_load material db' vault'"
      using old(1) c by (simp add: vault_load_def charged_def load heads counts ids all)
    moreover have "0 \<le> ev_bytes (\<lambda>_. True) events"
      using events t by (intro ev_bytes_nonneg) (auto simp: tables_ok_def)
    with old(2) c ev_count_nonneg [of "\<lambda>_. True" events] have "vault_quota vault'"
      by (simp add: vault_quota_def charged_def)
    ultimately show ?thesis ..
  qed
  show ?thesis
    unfolding acct_def
  proof (intro conjI ballI)
    show "tables_ok db'" by (rule tables)
    show "entry_load db' e" if "e \<in> set (sy_entries db')" for e using that entry by (auto simp: entries)
    show "vault_load material db' w" if "w \<in> set (sy_vaults db')" for w
      using that mine other by (auto simp: vaults split: if_splits)
    show "vault_quota w" if "w \<in> set (sy_vaults db')" for w
      using that mine other by (auto simp: vaults split: if_splits)
  qed
qed

text \<open>The documents a mutation works with are those of the store.\<close>

definition current :: "SyncVault \<Rightarrow> SyncDb \<Rightarrow> bool" where
  "current vault db \<longleftrightarrow> get_row va_id (sy_vaults db) (va_id vault) = Some vault"

definition pruned_vault :: "EventPrefixPrunePlan \<Rightarrow> int \<Rightarrow> SyncVault \<Rightarrow> SyncVault" where
  "pruned_vault plan now vault =
     (if pp_changes plan = [] then vault
      else vault \<lparr>va_changeFloorVersion := pp_changeFloorVersion plan,
        va_retainedCiphertextBytes := pp_retainedCiphertextBytes plan,
        va_retainedEventCount := pp_retainedEventCount plan, va_updatedAt := now\<rparr>)"

lemma patch_unique:
  assumes "distinct (map key rows)" and "get_row key rows i = Some r"
  shows "patch_row key i f rows = map (\<lambda>x. if key x = i then f r else x) rows"
proof -
  have same: "x = r" if "x \<in> set rows" "key x = i" for x
    using get_row_mem [OF assms(1) that(1)] assms(2) unfolding that(2) by simp
  have "(if key x = i then f x else x) = (if key x = i then f r else x)" if x: "x \<in> set rows" for x
  proof (cases "key x = i")
    case True
    from same [OF x True] show ?thesis by (rule ssubst) (rule refl)
  next
    case False
    then show ?thesis by (simp only: if_False)
  qed
  then show ?thesis unfolding patch_row_def by (rule map_cong [OF refl])
qed

lemmas patch_current = patch_unique [where key = va_id and i = "va_id vault" and r = vault for vault]

lemma get_current:
  assumes "va_id v = va_id vault" and "get_row va_id vaults (va_id vault) = Some vault"
  shows "get_row va_id (map (\<lambda>w. if va_id w = va_id vault then v else w) vaults) (va_id v) = Some v"
  unfolding assms(1) using assms(2)
proof (induction vaults)
  case (Cons w vaults)
  then show ?case by (cases "va_id w = va_id vault") (simp_all add: get_row_Cons assms(1))
qed (simp add: get_row_Nil)

lemma applied_shape:
  assumes "applyEventPrefixPrune vault plan now db = Some db'"
  obtains changes events entries where
    "delete_rows ch_id (map ch_id (pp_changes plan)) (sy_changes db) = Some changes"
    "delete_rows ve_id (map ve_id (pp_events plan)) (sy_events db) = Some events"
    "apply_deltas (pp_entryDeltas plan) (sy_entries db) = Some entries"
    "sy_next db' = sy_next db" "sy_heads db' = sy_heads db" "sy_pins db' = sy_pins db"
    "sy_changes db' = changes" "sy_events db' = events" "sy_entries db' = entries"
    "sy_vaults db' = (if pp_changes plan = [] then sy_vaults db
      else patch_row va_id (va_id vault) (\<lambda>v. v \<lparr>va_changeFloorVersion := pp_changeFloorVersion plan,
          va_retainedCiphertextBytes := pp_retainedCiphertextBytes plan,
          va_retainedEventCount := pp_retainedEventCount plan, va_updatedAt := now\<rparr>) (sy_vaults db))"
proof -
  from assms obtain changes events entries where
    rows: "delete_rows ch_id (map ch_id (pp_changes plan)) (sy_changes db) = Some changes"
      "delete_rows ve_id (map ve_id (pp_events plan)) (sy_events db) = Some events"
      "apply_deltas (pp_entryDeltas plan) (sy_entries db) = Some entries"
    unfolding applyEventPrefixPrune_def by (auto simp: bind_eq_Some_conv)
  with assms show thesis
    by (intro that [OF rows]; cases "pp_changes plan = []")
      (auto simp: applyEventPrefixPrune_def Let_def)
qed

lemma pruned:
  assumes acct: "acct material db" and vault: "current vault db" and plan: "plan_ok db vault plan"
    and run: "applyEventPrefixPrune vault plan now db = Some db'"
  shows "acct material db' \<and> current (pruned_vault plan now vault) db' \<and>
    taken vault (pp_changes plan) (pp_events plan) (\<lambda>e. discharge (prior_delta (pp_entryDeltas plan) (en_id e)) e)
      (pruned_vault plan now vault) db db' \<and>
    va_retainedEventCount (pruned_vault plan now vault) = pp_retainedEventCount plan \<and>
    va_retainedCiphertextBytes (pruned_vault plan now vault) = pp_retainedCiphertextBytes plan"
proof -
  let ?g = "\<lambda>e. discharge (prior_delta (pp_entryDeltas plan) (en_id e)) e" and ?v = "pruned_vault plan now vault"
  note t = acct_tables [OF acct]
  from run obtain changes events entries where
    ch: "delete_rows ch_id (map ch_id (pp_changes plan)) (sy_changes db) = Some changes"
    and ev: "delete_rows ve_id (map ve_id (pp_events plan)) (sy_events db) = Some events"
    and en: "apply_deltas (pp_entryDeltas plan) (sy_entries db) = Some entries"
    and now: "sy_next db' = sy_next db" "sy_heads db' = sy_heads db" "sy_changes db' = changes"
      "sy_events db' = events" "sy_entries db' = entries"
    and patch: "sy_vaults db' = (if pp_changes plan = [] then sy_vaults db
      else patch_row va_id (va_id vault) (\<lambda>v. v \<lparr>va_changeFloorVersion := pp_changeFloorVersion plan,
          va_retainedCiphertextBytes := pp_retainedCiphertextBytes plan,
          va_retainedEventCount := pp_retainedEventCount plan, va_updatedAt := now\<rparr>) (sy_vaults db))"
    by (rule applied_shape)
  from plan have deltas: "deltas_of (pp_events plan) (pp_entryDeltas plan)" by (simp add: plan_ok_def)
  have entries: "entries = map ?g (sy_entries db)"
    using apply_deltas_map [OF en] deltas t by (simp add: deltas_of_def tables_ok_def)
  have v_id: "va_id ?v = va_id vault" by (simp add: pruned_vault_def)
  from t have vault_ids: "distinct (map va_id (sy_vaults db))" by (simp add: tables_ok_def)
  note patched = patch_current [OF vault_ids vault [unfolded current_def]]
  have kept: "map (\<lambda>w. if va_id w = va_id vault then vault else w) (sy_vaults db) = sy_vaults db"
    using patched [of "\<lambda>w. w"] by (simp only: patch_row_def if_cancel map_ident)
  have vaults: "sy_vaults db' = map (\<lambda>w. if va_id w = va_id vault then ?v else w) (sy_vaults db)"
  proof (cases "pp_changes plan = []")
    case True
    then have "sy_vaults db' = sy_vaults db" "?v = vault" by (simp_all add: patch pruned_vault_def)
    then show ?thesis by (simp only: kept)
  next
    case False
    then show ?thesis by (simp only: patch patched pruned_vault_def if_False)
  qed
  have taken: "taken vault (pp_changes plan) (pp_events plan) ?g ?v db db'"
    using ch ev now vaults by (simp add: taken_def entries)
  have counts: "va_retainedEventCount ?v = pp_retainedEventCount plan" "va_retainedCiphertextBytes ?v = pp_retainedCiphertextBytes plan"
    using plan by (auto simp: plan_ok_def pruned_vault_def empty_plan_def)
  have charged: "charged (pp_events plan) vault ?v"
    using counts plan by (simp add: charged_def plan_ok_def pruned_vault_def)
  have discharged: "discharged (pp_events plan) ?g"
    using deltas by (simp add: discharged_def deltas_of_def discharge_def)
  have "acct material db'"
    using taken_acct [OF acct _ taken discharged charged] vault plan by (simp add: current_def plan_ok_def)
  moreover have "current ?v db'"
    unfolding current_def vaults using v_id vault [unfolded current_def] by (rule get_current)
  ultimately show ?thesis using taken counts by blast
qed

subsection \<open>Replacing one row\<close>

lemma filter_replaced:
  fixes f :: "'r \<Rightarrow> int"
  assumes "distinct (map key rows)" and "get_row key rows i = Some r"
  shows "sum_list (map f (filter P (map (\<lambda>x. if key x = i then r' else x) rows))) =
    sum_list (map f (filter P rows)) + (if P r' then f r' else 0) - (if P r then f r else 0)"
  using assms
proof (induction rows)
  case (Cons x rows)
  show ?case
  proof (cases "key x = i")
    case True
    with Cons.prems have "x = r" and absent: "i \<notin> key ` set rows" by (auto simp: get_row_Cons)
    then have "map (\<lambda>x. if key x = i then r' else x) rows = rows" by (intro map_idI) auto
    with True \<open>x = r\<close> show ?thesis by simp
  next
    case False
    with Cons show ?thesis by (simp add: get_row_Cons)
  qed
qed (simp add: get_row_Nil)

lemma length_as_sum: "int (length rows) = sum_list (map (\<lambda>_. 1) rows)"
  by (induction rows) simp_all

lemma count_replaced:
  assumes "distinct (map key rows)" and "get_row key rows i = Some r"
  shows "int (length (filter P (map (\<lambda>x. if key x = i then r' else x) rows))) =
    int (length (filter P rows)) + (if P r' then 1 else 0) - (if P r then 1 else 0)"
  unfolding length_as_sum by (rule filter_replaced [OF assms])

lemma hd_bytes_replaced:
  assumes "distinct (map sh_id heads)" and "get_row sh_id heads i = Some h"
  shows "hd_bytes P (map (\<lambda>x. if sh_id x = i then h' else x) heads) =
    hd_bytes P heads + (if P h' then sh_ciphertextBytes h' else 0) - (if P h then sh_ciphertextBytes h else 0)"
  unfolding hd_bytes_def by (rule filter_replaced [OF assms])

lemma keys_replaced:
  assumes "key r' = i"
  shows "map key (map (\<lambda>x. if key x = i then r' else x) rows) = map key rows"
  by (simp add: assms)

lemma hd_bytes_none: "(\<And>h. h \<in> set heads \<Longrightarrow> \<not> P h) \<Longrightarrow> hd_bytes P heads = 0"
  by (auto simp: hd_bytes_def filter_empty_conv)

lemma ev_none: "(\<And>v. v \<in> set rows \<Longrightarrow> \<not> P v) \<Longrightarrow> ev_count P rows = 0 \<and> ev_bytes P rows = 0"
  by (intro conjI; rule load_none) auto

subsection \<open>Publication\<close>

lemma unique_row_None: "unique_row xs = Some None \<longleftrightarrow> xs = []"
  by (cases xs rule: unique_row.cases) simp_all

lemma unique_row_Some: "unique_row xs = Some (Some x) \<longleftrightarrow> xs = [x]"
  by (cases xs rule: unique_row.cases) auto

lemma find_head_None: "find_head db i = Some None \<Longrightarrow> h \<in> set (sy_heads db) \<Longrightarrow> sh_sessionEntryId h \<noteq> i"
  by (auto simp: find_head_def unique_row_None filter_empty_conv)

lemma find_head_Some:
  assumes "find_head db i = Some (Some h)"
  shows "h \<in> set (sy_heads db) \<and> sh_sessionEntryId h = i"
proof -
  from assms have "filter (\<lambda>h. sh_sessionEntryId h = i) (sy_heads db) = [h]" by (simp add: find_head_def unique_row_Some)
  then have "h \<in> set (filter (\<lambda>h. sh_sessionEntryId h = i) (sy_heads db))" by simp
  then show ?thesis by simp
qed

text \<open>The heads after the head of session \<open>i\<close> of vault \<open>w\<close> has grown by \<open>delta\<close>.\<close>

definition head_written :: "SyncDb \<Rightarrow> nat \<Rightarrow> nat \<Rightarrow> int \<Rightarrow> nat \<Rightarrow> SyncDb \<Rightarrow> bool" where
  "head_written db i w delta n db2 \<longleftrightarrow>
     (\<forall>j. hd_bytes (\<lambda>h. sh_sessionEntryId h = j) (sy_heads db2) =
        hd_bytes (\<lambda>h. sh_sessionEntryId h = j) (sy_heads db) + (if j = i then delta else 0)) \<and>
     (\<forall>j. hd_bytes (\<lambda>h. sh_vaultId h = j) (sy_heads db2) =
        hd_bytes (\<lambda>h. sh_vaultId h = j) (sy_heads db) + (if j = w then delta else 0)) \<and>
     distinct (map sh_id (sy_heads db2)) \<and> distinct (map sh_sessionEntryId (sy_heads db2)) \<and> n \<le> sy_next db2 \<and>
     (\<forall>h\<in>set (sy_heads db2). sh_id h < sy_next db2 \<and> sh_sessionEntryId h < sy_next db2 \<and> 0 \<le> sh_ciphertextBytes h \<and>
        (sh_sessionEntryId h = i \<and> sh_vaultId h = w \<or>
         (\<exists>h0\<in>set (sy_heads db). sh_sessionEntryId h0 = sh_sessionEntryId h \<and> sh_vaultId h0 = sh_vaultId h)))"

lemma head_inserted:
  assumes t: "tables_ok db" and i: "i < sy_next db" and n: "sy_next db \<le> n"
    and absent: "find_head db i = Some None"
    and h: "sh_id h = n" "sh_sessionEntryId h = i" "sh_vaultId h = w" "0 \<le> sh_ciphertextBytes h"
    and db2: "sy_heads db2 = sy_heads db @ [h]" "sy_next db2 = Suc n"
  shows "head_written db i w (sh_ciphertextBytes h) n db2"
proof -
  have old: "sh_id x < n" "sh_sessionEntryId x < n" "0 \<le> sh_ciphertextBytes x" "sh_sessionEntryId x \<noteq> i" if "x \<in> set (sy_heads db)" for x
    using t n that find_head_None [OF absent that] by (auto simp: tables_ok_def)
  from old(1) have "n \<notin> sh_id ` set (sy_heads db)" by blast
  moreover from old(4) have "i \<notin> sh_sessionEntryId ` set (sy_heads db)" by blast
  moreover have "distinct (map sh_id (sy_heads db))" "distinct (map sh_sessionEntryId (sy_heads db))"
    using t by (simp_all add: tables_ok_def)
  moreover have "sh_id x < Suc n \<and> sh_sessionEntryId x < Suc n \<and> 0 \<le> sh_ciphertextBytes x" if "x \<in> set (sy_heads db)" for x
    using old [OF that] by simp
  ultimately show ?thesis
    using h i n by (auto simp: head_written_def db2)
qed

lemma head_replaced:
  assumes t: "tables_ok db" and n: "sy_next db \<le> n" and h: "find_head db i = Some (Some h)" and w: "sh_vaultId h = w"
    and h': "sh_id h' = sh_id h" "sh_sessionEntryId h' = i" "sh_vaultId h' = w" "0 \<le> sh_ciphertextBytes h'"
    and db2: "sy_heads db2 = map (\<lambda>x. if sh_id x = sh_id h then h' else x) (sy_heads db)" "sy_next db2 = n"
  shows "head_written db i w (sh_ciphertextBytes h' - sh_ciphertextBytes h) n db2"
proof -
  from find_head_Some [OF h] have member: "h \<in> set (sy_heads db)" "sh_sessionEntryId h = i" by simp_all
  from t have ids: "distinct (map sh_id (sy_heads db))" "distinct (map sh_sessionEntryId (sy_heads db))"
    by (simp_all add: tables_ok_def)
  have old: "sh_id x < n" "sh_sessionEntryId x < n" "0 \<le> sh_ciphertextBytes x" if "x \<in> set (sy_heads db)" for x
    using t n that by (auto simp: tables_ok_def)
  note row = get_row_mem [OF ids(1) member(1)]
  have same: "x = h" if "x \<in> set (sy_heads db)" "sh_id x = sh_id h" for x
    using get_row_mem [OF ids(1) that(1)] row unfolding that(2) by simp
  have "map sh_sessionEntryId (sy_heads db2) = map sh_sessionEntryId (sy_heads db)"
    unfolding db2 map_map using same member(2) h' by (intro map_cong refl) (auto simp: o_def)
  moreover have "map sh_id (sy_heads db2) = map sh_id (sy_heads db)"
    unfolding db2 by (rule keys_replaced [where key = sh_id, OF h'(1)])
  moreover have "hd_bytes P (sy_heads db2) = hd_bytes P (sy_heads db) +
      (if P h' then sh_ciphertextBytes h' else 0) - (if P h then sh_ciphertextBytes h else 0)" for P
    unfolding db2 by (rule hd_bytes_replaced [OF ids(1) row])
  moreover have "sh_id x < n \<and> sh_sessionEntryId x < n \<and> 0 \<le> sh_ciphertextBytes x \<and>
      (sh_sessionEntryId x = i \<and> sh_vaultId x = w \<or>
       (\<exists>h0\<in>set (sy_heads db). sh_sessionEntryId h0 = sh_sessionEntryId x \<and> sh_vaultId h0 = sh_vaultId x))"
    if "x \<in> set (sy_heads db2)" for x
  proof (cases "x = h'")
    case True
    with h' old [OF member(1)] member(2) show ?thesis by simp
  next
    case False
    with that have "x \<in> set (sy_heads db)" by (auto simp: db2 split: if_splits)
    with old [OF this] show ?thesis by blast
  qed
  ultimately show ?thesis using ids member(2) w h' db2(2) by (simp add: head_written_def)
qed

lemma written_head:
  assumes t: "tables_ok db" and head: "find_head db (en_id entry) = Some oldHead"
    and e: "e \<in> set (sy_entries db)" "en_id e = en_id entry" "en_vaultId e = va_id vault"
    and n: "sy_next db \<le> n" and size: "0 \<le> sl_ciphertextBytes envelope"
    and db1: "sy_next db1 = n" "sy_heads db1 = sy_heads db"
  shows "head_written db (en_id entry) (va_id vault) (sl_ciphertextBytes envelope - old_bytes oldHead) n
    (write_head vault entry oldHead envelope directoryVersion now db1)"
proof (cases oldHead)
  case None
  have "en_id entry < sy_next db" using t e by (auto simp: tables_ok_def)
  from head_inserted [OF t this n head [unfolded None], where h = "new_head vault entry envelope directoryVersion now n"] size
  show ?thesis by (simp add: None old_bytes_def write_head_def db1 new_head_def Let_def)
next
  case (Some h)
  from find_head_Some [OF head [unfolded Some]] t e have hv: "h \<in> set (sy_heads db)" "sh_vaultId h = va_id vault" and i: "sh_sessionEntryId h = en_id entry"
    by (auto simp: tables_ok_def)
  let ?h = "head_fields envelope directoryVersion now h"
  have fields: "sh_id ?h = sh_id h" "sh_sessionEntryId ?h = sh_sessionEntryId h" "sh_vaultId ?h = sh_vaultId h"
    "sh_ciphertextBytes ?h = sl_ciphertextBytes envelope" by (simp_all add: head_fields_def Let_def)
  from t have "distinct (map sh_id (sy_heads db))" by (simp add: tables_ok_def)
  note patch_unique [OF this get_row_mem [OF this hv(1)]]
  then show ?thesis
    using head_replaced [OF t n head [unfolded Some] hv(2), where h' = ?h] size fields i hv(2)
    by (simp add: Some old_bytes_def write_head_def db1)
qed

text \<open>A change of session \<open>i\<close> in vault \<open>w\<close>, with at most one new event, as all of the mutations post it.\<close>

definition new_events :: "nat \<Rightarrow> nat \<Rightarrow> SyncDb \<Rightarrow> SyncDb \<Rightarrow> SessionEvent list \<Rightarrow> bool" where
  "new_events i wi db db' vs \<longleftrightarrow> sy_events db' = sy_events db @ vs \<and> length vs \<le> 1 \<and>
     (\<forall>v\<in>set vs. ve_id v = sy_next db \<and> sy_next db < sy_next db' \<and> ve_sessionEntryId v = i \<and> ve_vaultId v = wi \<and> 0 \<le> ve_ciphertextBytes v)"

definition new_change :: "nat \<Rightarrow> SyncDb \<Rightarrow> SyncDb \<Rightarrow> SessionEvent list \<Rightarrow> DirectoryChange \<Rightarrow> bool" where
  "new_change wi db db' vs c \<longleftrightarrow> sy_changes db' = sy_changes db @ [c] \<and> sy_next db \<le> ch_id c \<and> ch_id c < sy_next db' \<and>
     ch_vaultId c = wi \<and> ch_eventId c = (if vs = [] then None else Some (sy_next db))"

definition new_entry :: "SessionEntry \<Rightarrow> SessionEntry \<Rightarrow> int \<Rightarrow> SessionEvent list \<Rightarrow> SyncDb \<Rightarrow> SyncDb \<Rightarrow> bool" where
  "new_entry e e' delta vs db db' \<longleftrightarrow>
     sy_entries db' = map (\<lambda>x. if en_id x = en_id e then e' else x) (sy_entries db) \<and>
     en_id e' = en_id e \<and> en_vaultId e' = en_vaultId e \<and> (en_streamActive e' \<longrightarrow> en_state e' = EN_active) \<and>
     en_retainedEventCount e' = en_retainedEventCount e + int (length vs) \<and>
     en_retainedCiphertextBytes e' = en_retainedCiphertextBytes e + ev_bytes (\<lambda>_. True) vs + delta"

definition new_vault :: "SessionEntry \<Rightarrow> SessionEntry \<Rightarrow> SyncVault \<Rightarrow> SyncVault \<Rightarrow> int \<Rightarrow> SessionEvent list \<Rightarrow> SyncDb \<Rightarrow> SyncDb \<Rightarrow> bool" where
  "new_vault e e' w w' delta vs db db' \<longleftrightarrow>
     sy_vaults db' = map (\<lambda>x. if va_id x = va_id w then w' else x) (sy_vaults db) \<and> va_id w' = va_id w \<and>
     va_retainedEventCount w' = va_retainedEventCount w + int (length vs) \<and>
     va_retainedCiphertextBytes w' = va_retainedCiphertextBytes w + ev_bytes (\<lambda>_. True) vs + delta \<and>
     va_activeStreamCount w' = va_activeStreamCount w + (if en_streamActive e' then 1 else 0) - (if en_streamActive e then 1 else 0) \<and>
     va_directorySessionCount w' = va_directorySessionCount w + (if en_state e' \<noteq> EN_retired then 1 else 0)
       - (if en_state e \<noteq> EN_retired then 1 else 0) \<and>
     vault_quota w'"

lemma tables_distinct:
  "tables_ok db \<Longrightarrow> distinct (map va_id (sy_vaults db)) \<and> distinct (map en_id (sy_entries db)) \<and>
     distinct (map ve_id (sy_events db)) \<and> distinct (map ch_id (sy_changes db))"
  by (simp add: tables_ok_def)

lemma tables_entry: "tables_ok db \<Longrightarrow> e \<in> set (sy_entries db) \<Longrightarrow> en_id e < sy_next db"
  by (simp add: tables_ok_def)

lemma tables_event: "tables_ok db \<Longrightarrow> v \<in> set (sy_events db) \<Longrightarrow>
  ve_id v < sy_next db \<and> ve_sessionEntryId v < sy_next db \<and> 0 \<le> ve_ciphertextBytes v"
  by (simp add: tables_ok_def)

lemma tables_change: "tables_ok db \<Longrightarrow> c \<in> set (sy_changes db) \<Longrightarrow> ch_id c < sy_next db \<and>
  (\<forall>i. ch_eventId c = Some i \<longrightarrow> i < sy_next db \<and> (\<forall>v\<in>set (sy_events db). ve_id v = i \<longrightarrow> ve_vaultId v = ch_vaultId c))"
  by (simp add: tables_ok_def)

lemma tables_head: "tables_ok db \<Longrightarrow> h \<in> set (sy_heads db) \<Longrightarrow> e \<in> set (sy_entries db) \<Longrightarrow>
  en_id e = sh_sessionEntryId h \<Longrightarrow> sh_vaultId h = en_vaultId e"
  by (simp add: tables_ok_def)

lemma distinct_snoc: "distinct (map f xs) \<Longrightarrow> (\<And>x. x \<in> set xs \<Longrightarrow> f x < (n :: nat)) \<Longrightarrow> n \<le> f y \<Longrightarrow> distinct (map f (xs @ [y]))"
  by force

lemma load_append:
  "ev_count P (rows @ vs) = ev_count P rows + ev_count P vs" "ev_bytes P (rows @ vs) = ev_bytes P rows + ev_bytes P vs"
  by (simp_all add: ev_count_def ev_bytes_def)

lemma posted_heads:
  assumes t: "tables_ok db" and e: "get_row en_id (sy_entries db) (en_id e) = Some e" "en_vaultId e = va_id w"
    and heads: "head_written db (en_id e) (va_id w) delta (sy_next db) db'" and entry: "new_entry e e' delta vs db db'"
  shows "\<forall>h\<in>set (sy_heads db'). sh_id h < sy_next db' \<and> sh_sessionEntryId h < sy_next db' \<and> 0 \<le> sh_ciphertextBytes h \<and>
      (\<forall>x\<in>set (sy_entries db'). en_id x = sh_sessionEntryId h \<longrightarrow> sh_vaultId h = en_vaultId x)"
proof (intro ballI conjI impI)
  fix h assume h: "h \<in> set (sy_heads db')"
  with heads show "sh_id h < sy_next db'" "sh_sessionEntryId h < sy_next db'" "0 \<le> sh_ciphertextBytes h"
    by (simp_all add: head_written_def)
  fix x assume x: "x \<in> set (sy_entries db')" "en_id x = sh_sessionEntryId h"
  from get_row_Some [OF e(1)] have "e \<in> set (sy_entries db)" by simp
  with x entry obtain x0 where x0: "x0 \<in> set (sy_entries db)" "en_id x0 = en_id x" "en_vaultId x0 = en_vaultId x"
    by (auto simp: new_entry_def split: if_splits)
  from h heads have "sh_sessionEntryId h = en_id e \<and> sh_vaultId h = va_id w \<or>
      (\<exists>h0\<in>set (sy_heads db). sh_sessionEntryId h0 = sh_sessionEntryId h \<and> sh_vaultId h0 = sh_vaultId h)"
    by (simp add: head_written_def)
  then show "sh_vaultId h = en_vaultId x"
  proof
    assume "sh_sessionEntryId h = en_id e \<and> sh_vaultId h = va_id w"
    then have same: "en_id x0 = en_id e" "sh_vaultId h = en_vaultId e" using x0(2) x(2) e(2) by simp_all
    have "get_row en_id (sy_entries db) (en_id x0) = Some x0" using tables_distinct [OF t] x0(1) by (blast intro: get_row_mem)
    then have "x0 = e" unfolding same(1) using e(1) by simp
    with same(2) x0(3) show ?thesis by simp
  next
    assume "\<exists>h0\<in>set (sy_heads db). sh_sessionEntryId h0 = sh_sessionEntryId h \<and> sh_vaultId h0 = sh_vaultId h"
    then obtain h0 where h0: "h0 \<in> set (sy_heads db)" "sh_sessionEntryId h0 = sh_sessionEntryId h" "sh_vaultId h0 = sh_vaultId h" by blast
    from tables_head [OF t h0(1) x0(1)] h0 x0 x(2) show ?thesis by simp
  qed
qed

lemma posted_changes:
  assumes t: "tables_ok db" and events: "new_events i wi db db' vs" and change: "new_change wi db db' vs c"
  shows "\<forall>d\<in>set (sy_changes db'). ch_id d < sy_next db' \<and>
      (\<forall>i. ch_eventId d = Some i \<longrightarrow> i < sy_next db' \<and> (\<forall>v\<in>set (sy_events db'). ve_id v = i \<longrightarrow> ve_vaultId v = ch_vaultId d))"
proof
  fix d assume "d \<in> set (sy_changes db')"
  have grown: "sy_next db < sy_next db'" using change by (simp add: new_change_def)
  have old_event: "v \<in> set (sy_events db) \<or> ve_id v = sy_next db \<and> ve_vaultId v = wi"
    if "v \<in> set (sy_events db')" for v using that events by (auto simp: new_events_def)
  from \<open>d \<in> set (sy_changes db')\<close> change consider "d = c" | "d \<in> set (sy_changes db)" by (auto simp: new_change_def)
  then show "ch_id d < sy_next db' \<and>
      (\<forall>i. ch_eventId d = Some i \<longrightarrow> i < sy_next db' \<and> (\<forall>v\<in>set (sy_events db'). ve_id v = i \<longrightarrow> ve_vaultId v = ch_vaultId d))"
  proof cases
    case 1
    have "ve_vaultId v = ch_vaultId d" if "v \<in> set (sy_events db')" "ve_id v = sy_next db" for v
      using old_event [OF that(1)] tables_event [OF t, of v] that(2) change 1 by (auto simp: new_change_def)
    with 1 change grown show ?thesis by (simp add: new_change_def)
  next
    case 2
    note old = tables_change [OF t 2]
    have "ve_vaultId v = ch_vaultId d" if "v \<in> set (sy_events db')" "ch_eventId d = Some (ve_id v)" for v
      using old_event [OF that(1)] old that(2) by auto
    with old grown show ?thesis by (auto intro: less_trans)
  qed
qed

lemma posted_tables:
  assumes t: "tables_ok db" and e: "get_row en_id (sy_entries db) (en_id e) = Some e" "en_vaultId e = va_id w"
    and heads: "head_written db (en_id e) (va_id w) delta (sy_next db) db'"
    and events: "new_events (en_id e) (va_id w) db db' vs" and change: "new_change (va_id w) db db' vs c"
    and entry: "new_entry e e' delta vs db db'" and vault: "new_vault e e' w w' delta vs db db'"
  shows "tables_ok db'"
proof -
  from get_row_Some [OF e(1)] have member: "e \<in> set (sy_entries db)" by simp
  have grown: "sy_next db < sy_next db'" using change by (simp add: new_change_def)
  have vault_ids: "map va_id (sy_vaults db') = map va_id (sy_vaults db)" using vault by (simp add: new_vault_def)
  have entry_ids: "map en_id (sy_entries db') = map en_id (sy_entries db)" using entry by (simp add: new_entry_def)
  have entries: "\<exists>x0\<in>set (sy_entries db). en_id x0 = en_id x \<and> en_vaultId x0 = en_vaultId x" if "x \<in> set (sy_entries db')" for x
    using that entry member by (auto simp: new_entry_def split: if_splits)
  have old_event: "v \<in> set (sy_events db) \<or> ve_id v = sy_next db \<and> ve_sessionEntryId v = en_id e \<and> ve_vaultId v = va_id w \<and> 0 \<le> ve_ciphertextBytes v"
    if "v \<in> set (sy_events db')" for v using that events by (auto simp: new_events_def)
  have "distinct (map ve_id (sy_events db'))"
  proof (cases vs)
    case Nil
    with events have "sy_events db' = sy_events db" by (simp add: new_events_def)
    with tables_distinct [OF t] show ?thesis by simp
  next
    case (Cons v vs')
    with events have rows: "sy_events db' = sy_events db @ [v]" and id: "ve_id v = sy_next db" by (simp_all add: new_events_def)
    show ?thesis unfolding rows by (rule distinct_snoc [of _ _ "sy_next db"]) (use tables_distinct [OF t] tables_event [OF t] id in auto)
  qed
  moreover have "distinct (map ch_id (sy_changes db'))"
  proof -
    from change have rows: "sy_changes db' = sy_changes db @ [c]" and id: "sy_next db \<le> ch_id c" by (simp_all add: new_change_def)
    show ?thesis unfolding rows by (rule distinct_snoc [of _ _ "sy_next db"]) (use tables_distinct [OF t] tables_change [OF t] id in auto)
  qed
  moreover have "\<forall>x\<in>set (sy_entries db'). en_id x < sy_next db'"
  proof
    fix x assume "x \<in> set (sy_entries db')"
    from entries [OF this] obtain x0 where "x0 \<in> set (sy_entries db)" "en_id x0 = en_id x" by blast
    with tables_entry [OF t] grown show "en_id x < sy_next db'" by fastforce
  qed
  moreover have "\<forall>v\<in>set (sy_events db'). ve_id v < sy_next db' \<and> ve_sessionEntryId v < sy_next db' \<and> 0 \<le> ve_ciphertextBytes v"
  proof
    fix v assume "v \<in> set (sy_events db')"
    from old_event [OF this] show "ve_id v < sy_next db' \<and> ve_sessionEntryId v < sy_next db' \<and> 0 \<le> ve_ciphertextBytes v"
    proof
      assume "v \<in> set (sy_events db)"
      from tables_event [OF t this] grown show ?thesis by simp
    next
      assume "ve_id v = sy_next db \<and> ve_sessionEntryId v = en_id e \<and> ve_vaultId v = va_id w \<and> 0 \<le> ve_ciphertextBytes v"
      with grown tables_entry [OF t member] show ?thesis by simp
    qed
  qed
  moreover have "\<forall>h\<in>set (sy_heads db'). sh_id h < sy_next db' \<and> sh_sessionEntryId h < sy_next db' \<and> 0 \<le> sh_ciphertextBytes h \<and>
      (\<forall>x\<in>set (sy_entries db'). en_id x = sh_sessionEntryId h \<longrightarrow> sh_vaultId h = en_vaultId x)"
    by (rule posted_heads [OF t e heads entry])
  moreover have "\<forall>d\<in>set (sy_changes db'). ch_id d < sy_next db' \<and>
      (\<forall>i. ch_eventId d = Some i \<longrightarrow> i < sy_next db' \<and> (\<forall>v\<in>set (sy_events db'). ve_id v = i \<longrightarrow> ve_vaultId v = ch_vaultId d))"
    by (rule posted_changes [OF t events change])
  ultimately show ?thesis
    unfolding tables_ok_def vault_ids entry_ids using tables_distinct [OF t] heads by (simp add: head_written_def)
qed

lemma new_events_load:
  assumes "new_events i wi db db' vs"
  shows "ev_count P (sy_events db') = ev_count P (sy_events db) + ev_count P vs"
    and "ev_bytes P (sy_events db') = ev_bytes P (sy_events db) + ev_bytes P vs"
    and "ev_count (of_entry j) vs = (if j = i then int (length vs) else 0)"
    and "ev_bytes (of_entry j) vs = (if j = i then ev_bytes (\<lambda>_. True) vs else 0)"
    and "ev_count (of_vault k) vs = (if k = wi then int (length vs) else 0)"
    and "ev_bytes (of_vault k) vs = (if k = wi then ev_bytes (\<lambda>_. True) vs else 0)"
proof -
  from assms show "ev_count P (sy_events db') = ev_count P (sy_events db) + ev_count P vs"
    and "ev_bytes P (sy_events db') = ev_bytes P (sy_events db) + ev_bytes P vs"
    by (simp_all add: new_events_def load_append)
  from assms have "vs = [] \<or> (\<exists>v. vs = [v] \<and> ve_sessionEntryId v = i \<and> ve_vaultId v = wi)"
    by (cases vs) (auto simp: new_events_def)
  then show "ev_count (of_entry j) vs = (if j = i then int (length vs) else 0)"
    and "ev_bytes (of_entry j) vs = (if j = i then ev_bytes (\<lambda>_. True) vs else 0)"
    and "ev_count (of_vault k) vs = (if k = wi then int (length vs) else 0)"
    and "ev_bytes (of_vault k) vs = (if k = wi then ev_bytes (\<lambda>_. True) vs else 0)"
    by (auto simp: load_Cons)
qed

lemma posted_acct:
  assumes acct: "acct material db"
    and e: "get_row en_id (sy_entries db) (en_id e) = Some e" "en_vaultId e = va_id w"
    and w: "get_row va_id (sy_vaults db) (va_id w) = Some w"
    and heads: "head_written db (en_id e) (va_id w) delta (sy_next db) db'"
    and events: "new_events (en_id e) (va_id w) db db' vs" and change: "new_change (va_id w) db db' vs c"
    and entry: "new_entry e e' delta vs db db'" and vault: "new_vault e e' w w' delta vs db db'"
  shows "acct material db'"
proof -
  note t = acct_tables [OF acct] and load = new_events_load [OF events]
  from heads have hd_e: "hd_bytes (\<lambda>h. sh_sessionEntryId h = j) (sy_heads db') =
        hd_bytes (\<lambda>h. sh_sessionEntryId h = j) (sy_heads db) + (if j = en_id e then delta else 0)"
    and hd_w: "hd_bytes (\<lambda>h. sh_vaultId h = k) (sy_heads db') =
        hd_bytes (\<lambda>h. sh_vaultId h = k) (sy_heads db) + (if k = va_id w then delta else 0)" for j k
    by (simp_all only: head_written_def)
  from entry have entries: "sy_entries db' = map (\<lambda>x. if en_id x = en_id e then e' else x) (sy_entries db)"
    and e': "en_id e' = en_id e" "en_vaultId e' = va_id w" "en_streamActive e' \<longrightarrow> en_state e' = EN_active"
      "en_retainedEventCount e' = en_retainedEventCount e + int (length vs)"
      "en_retainedCiphertextBytes e' = en_retainedCiphertextBytes e + ev_bytes (\<lambda>_. True) vs + delta"
    using e(2) by (simp_all add: new_entry_def)
  from vault have vaults: "sy_vaults db' = map (\<lambda>x. if va_id x = va_id w then w' else x) (sy_vaults db)"
    and w': "va_id w' = va_id w" "va_retainedEventCount w' = va_retainedEventCount w + int (length vs)"
      "va_retainedCiphertextBytes w' = va_retainedCiphertextBytes w + ev_bytes (\<lambda>_. True) vs + delta"
      "va_activeStreamCount w' = va_activeStreamCount w + (if en_streamActive e' then 1 else 0) - (if en_streamActive e then 1 else 0)"
      "va_directorySessionCount w' = va_directorySessionCount w + (if en_state e' \<noteq> EN_retired then 1 else 0)
         - (if en_state e \<noteq> EN_retired then 1 else 0)" and quota: "vault_quota w'"
    by (simp_all add: new_vault_def)
  have ids: "distinct (map en_id (sy_entries db))" using tables_distinct [OF t] by blast
  have counts: "count_entries P db' = count_entries P db + (if P e' then 1 else 0) - (if P e then 1 else 0)" for P
    unfolding count_entries_def entries by (rule count_replaced [OF ids e(1)])
  from get_row_Some [OF e(1)] get_row_Some [OF w] have member: "e \<in> set (sy_entries db)" "w \<in> set (sy_vaults db)" by simp_all
  have "entry_load db' x" if "x \<in> set (sy_entries db')" for x
  proof (cases "x = e'")
    case True
    with acct_entry [OF acct member(1)] e' show ?thesis by (simp add: entry_load_def load hd_e)
  next
    case False
    with that have "x \<in> set (sy_entries db)" "en_id x \<noteq> en_id e" by (auto simp: entries split: if_splits)
    with acct_entry [OF acct this(1)] show ?thesis by (simp add: entry_load_def load hd_e)
  qed
  moreover have "vault_load material db' x \<and> vault_quota x" if "x \<in> set (sy_vaults db')" for x
  proof (cases "x = w'")
    case True
    with acct_vault [OF acct member(2)] w' e' e(2) quota show ?thesis by (simp add: vault_load_def load hd_w counts)
  next
    case False
    with that have "x \<in> set (sy_vaults db)" "va_id x \<noteq> va_id w" by (auto simp: vaults split: if_splits)
    with acct_vault [OF acct this(1)] e' e(2) show ?thesis by (simp add: vault_load_def load hd_w counts)
  qed
  ultimately show ?thesis
    unfolding acct_def using posted_tables [OF t e heads events change entry vault] by blast
qed

lemma head_written_later:
  assumes "head_written db i w delta n db2" and "m \<le> n" and "sy_heads db3 = sy_heads db2" and "sy_next db2 \<le> sy_next db3"
  shows "head_written db i w delta m db3"
proof -
  have "\<forall>h\<in>set (sy_heads db3). sh_id h < sy_next db3 \<and> sh_sessionEntryId h < sy_next db3"
    using assms(1,4) unfolding assms(3) head_written_def by (auto intro: less_le_trans)
  with assms show ?thesis unfolding head_written_def assms(3) by auto
qed

lemma write_head_tables [simp]:
  "sy_events (write_head vault entry oldHead envelope directoryVersion now db) = sy_events db"
  "sy_changes (write_head vault entry oldHead envelope directoryVersion now db) = sy_changes db"
  "sy_entries (write_head vault entry oldHead envelope directoryVersion now db) = sy_entries db"
  "sy_vaults (write_head vault entry oldHead envelope directoryVersion now db) = sy_vaults db"
  "sy_pins (write_head vault entry oldHead envelope directoryVersion now db) = sy_pins db"
  by (simp_all add: write_head_def split: option.splits)

lemma insert_change_tables [simp]:
  "sy_next (insert_change i v k kind j eventId now db) = Suc (sy_next db)"
  "sy_events (insert_change i v k kind j eventId now db) = sy_events db"
  "sy_heads (insert_change i v k kind j eventId now db) = sy_heads db"
  "sy_entries (insert_change i v k kind j eventId now db) = sy_entries db"
  "sy_vaults (insert_change i v k kind j eventId now db) = sy_vaults db"
  "sy_pins (insert_change i v k kind j eventId now db) = sy_pins db"
  "sy_changes (insert_change i v k kind j eventId now db) = sy_changes db @
    [\<lparr>ch_id = sy_next db, ch_vaultId = i, ch_directoryVersion = v, ch_directoryVersionOrderKey = k, ch_kind = kind,
      ch_sessionEntryId = j, ch_eventId = eventId, ch_createdAt = now\<rparr>]"
  by (simp_all add: insert_change_def)

lemma quotaFailure_None:
  "quotaFailure q = None \<longleftrightarrow> qs_activeDevices q \<le> 8 \<and> qs_directorySessions q \<le> MAX_SYNC_DIRECTORY_SESSIONS \<and>
     qs_locallyOwnedSessions q \<le> MAX_SYNC_LOCAL_SESSIONS_PER_DEVICE \<and> qs_activeStreams q \<le> MAX_SYNC_ACTIVE_STREAMS \<and>
     qs_retainedEvents q \<le> MAX_SYNC_RETAINED_EVENTS \<and> qs_retainedCiphertextBytes q \<le> MAX_SYNC_RETAINED_CIPHERTEXT_BYTES"
  by (auto simp: quotaFailure_def)

text \<open>The documents an accepted publication still sees, \<open>e\<close> and \<open>w\<close>, after the prune.\<close>

definition seen :: "SessionEntry \<Rightarrow> SyncVault \<Rightarrow> EventPrefixPrunePlan \<Rightarrow> SessionEntry \<Rightarrow> SyncVault \<Rightarrow> bool" where
  "seen entry vault plan e w \<longleftrightarrow>
     en_id e = en_id entry \<and> en_vaultId e = va_id vault \<and> en_state e \<noteq> EN_retired \<and> en_streamActive e = en_streamActive entry \<and>
     en_retainedCiphertextBytes e = en_retainedCiphertextBytes entry - fst (prior_delta (pp_entryDeltas plan) (en_id entry)) \<and>
     en_retainedEventCount e = en_retainedEventCount entry - snd (prior_delta (pp_entryDeltas plan) (en_id entry)) \<and>
     va_id w = va_id vault \<and> va_retainedEventCount w = pp_retainedEventCount plan \<and>
     va_retainedCiphertextBytes w = pp_retainedCiphertextBytes plan \<and> va_activeStreamCount w = va_activeStreamCount vault \<and>
     va_compatibilityEvidenceCiphertextBytes w = va_compatibilityEvidenceCiphertextBytes vault"

lemma published_entry_simps [simp]:
  "en_id (published_entry entry envelope plan n b k o' c now e) = en_id e"
  "en_vaultId (published_entry entry envelope plan n b k o' c now e) = en_vaultId e"
  "en_state (published_entry entry envelope plan n b k o' c now e) = EN_active"
  "en_streamActive (published_entry entry envelope plan n b k o' c now e) = b"
  "en_retainedEventCount (published_entry entry envelope plan n b k o' c now e) =
     en_retainedEventCount entry - snd (prior_delta (pp_entryDeltas plan) (en_id entry)) + 1"
  "en_retainedCiphertextBytes (published_entry entry envelope plan n b k o' c now e) =
     en_retainedCiphertextBytes entry - fst (prior_delta (pp_entryDeltas plan) (en_id entry)) + n"
  by (simp_all add: published_entry_def split_beta Let_def)

lemma published_vault_simps [simp]:
  "va_id (published_vault plan n streams k o' now w) = va_id w"
  "va_retainedEventCount (published_vault plan n streams k o' now w) = pp_retainedEventCount plan + 1"
  "va_retainedCiphertextBytes (published_vault plan n streams k o' now w) = pp_retainedCiphertextBytes plan + n"
  "va_activeStreamCount (published_vault plan n streams k o' now w) = streams"
  "va_directorySessionCount (published_vault plan n streams k o' now w) = va_directorySessionCount w"
  "va_compatibilityEvidenceCiphertextBytes (published_vault plan n streams k o' now w) = va_compatibilityEvidenceCiphertextBytes w"
  by (simp_all add: published_vault_def)

lemma published_acct:
  assumes acct: "acct material db" and e: "get_row en_id (sy_entries db) (en_id entry) = Some e"
    and w: "get_row va_id (sy_vaults db) (va_id vault) = Some w" and seen: "seen entry vault plan e w"
    and head: "find_head db (en_id entry) = Some oldHead" and size: "0 \<le> sl_ciphertextBytes envelope"
    and needed: "neededBytes = sl_ciphertextBytes envelope + (sl_ciphertextBytes envelope - old_bytes oldHead)"
    and streams: "streams = va_activeStreamCount vault + (if streamActive then 1 else 0) - (if en_streamActive entry then 1 else 0)"
    and quota: "streams \<le> MAX_SYNC_ACTIVE_STREAMS" "pp_retainedEventCount plan + 1 \<le> MAX_SYNC_RETAINED_EVENTS"
      "pp_retainedCiphertextBytes plan + va_compatibilityEvidenceCiphertextBytes vault + neededBytes \<le> MAX_SYNC_RETAINED_CIPHERTEXT_BYTES"
  shows "acct material (publish_writes vault entry envelope oldHead plan neededBytes streamActive streams
    directoryVersion orderKey created now db)" (is "acct material ?db")
proof -
  note t = acct_tables [OF acct]
  let ?v = "published_event vault entry envelope directoryVersion orderKey now (sy_next db)"
  let ?db1 = "db \<lparr>sy_next := Suc (sy_next db), sy_events := sy_events db @ [?v]\<rparr>"
  let ?db2 = "write_head vault entry oldHead envelope directoryVersion now ?db1"
  let ?delta = "sl_ciphertextBytes envelope - old_bytes oldHead"
  have v: "ve_id ?v = sy_next db" "ve_sessionEntryId ?v = en_id entry" "ve_vaultId ?v = va_id vault"
    "ve_ciphertextBytes ?v = sl_ciphertextBytes envelope" by (simp_all add: published_event_def Let_def)
  from get_row_Some [OF e] get_row_Some [OF w] have member: "e \<in> set (sy_entries db)" "w \<in> set (sy_vaults db)" by simp_all
  from seen have ids: "en_id entry = en_id e" "va_id vault = va_id w" "en_vaultId e = va_id w" by (simp_all add: seen_def)
  have hw: "head_written db (en_id entry) (va_id vault) ?delta (Suc (sy_next db)) ?db2"
    by (rule written_head [OF t head member(1)]) (use ids size in simp_all)
  then have grown: "Suc (sy_next db) \<le> sy_next ?db2" by (simp only: head_written_def)
  note dist = tables_distinct [OF t]
  let ?f = "published_entry entry envelope plan neededBytes streamActive directoryVersion orderKey created now"
  let ?g = "published_vault plan neededBytes streams directoryVersion orderKey now"
  have patched: "sy_entries ?db = patch_row en_id (en_id entry) ?f (sy_entries db)"
    "sy_vaults ?db = patch_row va_id (va_id vault) ?g (sy_vaults db)" by (simp_all add: publish_writes_def Let_def)
  have entries: "sy_entries ?db = map (\<lambda>x. if en_id x = en_id entry then ?f e else x) (sy_entries db)"
    unfolding patched(1) using dist by (intro patch_unique [OF _ e]) blast
  have vaults: "sy_vaults ?db = map (\<lambda>x. if va_id x = va_id vault then ?g w else x) (sy_vaults db)"
    unfolding patched(2) using dist by (intro patch_unique [OF _ w]) blast
  have rows: "sy_next ?db = Suc (sy_next ?db2)" "sy_heads ?db = sy_heads ?db2" "sy_events ?db = sy_events db @ [?v]"
    and change: "new_change (va_id w) db ?db [?v] \<lparr>ch_id = sy_next ?db2, ch_vaultId = va_id vault, ch_directoryVersion = directoryVersion,
      ch_directoryVersionOrderKey = orderKey, ch_kind = CK_upsert, ch_sessionEntryId = en_id entry,
      ch_eventId = Some (sy_next db), ch_createdAt = now\<rparr>"
    using grown by (simp_all add: publish_writes_def Let_def new_change_def ids)
  have "vault_quota (?g w)"
    using acct_vault [OF acct member(2)] seen quota by (simp add: vault_quota_def seen_def)
  show ?thesis
  proof (rule posted_acct [OF acct e [unfolded ids(1)] ids(3) w [unfolded ids(2)]])
    show "head_written db (en_id e) (va_id w) ?delta (sy_next db) ?db"
      by (rule head_written_later [OF hw [unfolded ids(1,2)]]) (simp_all only: rows ids le_SucI order_refl)
    show "new_events (en_id e) (va_id w) db ?db [?v]"
      using rows grown v size ids by (simp add: new_events_def)
    show "new_change (va_id w) db ?db [?v] \<lparr>ch_id = sy_next ?db2, ch_vaultId = va_id vault, ch_directoryVersion = directoryVersion,
      ch_directoryVersionOrderKey = orderKey, ch_kind = CK_upsert, ch_sessionEntryId = en_id entry,
      ch_eventId = Some (sy_next db), ch_createdAt = now\<rparr>" by (rule change)
    show "new_entry e (?f e) ?delta [?v] db ?db"
      using entries seen v by (simp add: new_entry_def seen_def load_Cons needed ids)
    show "new_vault e (?f e) w (?g w) ?delta [?v] db ?db"
      using vaults seen v \<open>vault_quota (?g w)\<close> by (simp add: new_vault_def seen_def load_Cons needed streams ids)
  qed
qed

lemma unique_row_mem: "unique_row (filter P xs) = Some (Some x) \<Longrightarrow> x \<in> set xs \<and> P x"
proof -
  assume "unique_row (filter P xs) = Some (Some x)"
  then have "x \<in> set (filter P xs)" by (simp add: unique_row_Some)
  then show ?thesis by simp
qed

lemma find_entry_Some:
  "find_entry db i s = Some (Some entry) \<Longrightarrow> entry \<in> set (sy_entries db) \<and> en_vaultId entry = i \<and> en_sessionId entry = s"
  unfolding find_entry_def by (drule unique_row_mem) simp

lemma get_entry: "tables_ok db \<Longrightarrow> e \<in> set (sy_entries db) \<Longrightarrow> get_row en_id (sy_entries db) (en_id e) = Some e"
  using tables_distinct by (blast intro: get_row_mem)

lemma refused: "refuse_sync code db = Some (r, db') \<Longrightarrow> db' = db"
  by auto

lemma publish_commit_cases:
  assumes "publish_commit vault entry envelope oldHead plan needed streamActive streams now db = Some (r, db')"
  obtains directoryVersion orderKey created db1 where "applyEventPrefixPrune vault plan now db = Some db1"
    "nextRequiredSyncUint64 (va_directoryVersion vault) = Some directoryVersion" "syncUint64OrderKey directoryVersion = Some orderKey"
    "db' = publish_writes vault entry envelope oldHead plan needed streamActive streams directoryVersion orderKey created now db1"
proof -
  obtain directoryVersion where v: "nextRequiredSyncUint64 (va_directoryVersion vault) = Some directoryVersion"
    using assms by (cases "nextRequiredSyncUint64 (va_directoryVersion vault)") (simp_all add: publish_commit_def)
  obtain orderKey where k: "syncUint64OrderKey directoryVersion = Some orderKey"
    using assms v by (cases "syncUint64OrderKey directoryVersion") (simp_all add: publish_commit_def)
  obtain db1 where p: "applyEventPrefixPrune vault plan now db = Some db1"
    using assms v k by (cases "applyEventPrefixPrune vault plan now db")
      (simp_all add: publish_commit_def Let_def split_beta split: if_splits)
  show thesis
  proof (rule that [OF p v k])
    show "db' = publish_writes vault entry envelope oldHead plan needed streamActive streams directoryVersion orderKey
      (case en_createdDirectoryVersion entry of None \<Rightarrow> directoryVersion | Some created \<Rightarrow> created) now db1"
      using assms v k p by (simp add: publish_commit_def Let_def split_beta bind_eq_Some_conv split: if_splits)
  qed
qed

lemma publish_accept_cases:
  assumes "publish_accept vault entry envelope now db = Some (r, db')"
  obtains (unchanged) "db' = db"
  | (pruned) plan sufficient needed where "planEventPrefixPrune db vault needed now = Some (Some (sufficient, plan))"
      "applyEventPrefixPrune vault plan now db = Some db'"
  | (published) plan needed oldHead streamActive streams where
      "find_head db (en_id entry) = Some oldHead"
      "needed = sl_ciphertextBytes envelope + (sl_ciphertextBytes envelope - old_bytes oldHead)"
      "planEventPrefixPrune db vault needed now = Some (Some (True, plan))"
      "streams = va_activeStreamCount vault + (if streamActive then 1 else 0) - (if en_streamActive entry then 1 else 0)"
      "quotaFailure (publish_quota vault plan needed streams) = None"
      "publish_commit vault entry envelope oldHead plan needed streamActive streams now db = Some (r, db')"
proof -
  obtain oldHead where head: "find_head db (en_id entry) = Some oldHead"
    using assms by (cases "find_head db (en_id entry)") (simp_all add: publish_accept_def)
  define needed where "needed = sl_ciphertextBytes envelope + (sl_ciphertextBytes envelope - old_bytes oldHead)"
  note run = assms [unfolded publish_accept_def Let_def head Option.bind.simps, folded needed_def]
  obtain planned where planned: "planEventPrefixPrune db vault needed now = Some planned"
    using run by (cases "planEventPrefixPrune db vault needed now") simp_all
  note run = run [unfolded planned Option.bind.simps]
  show thesis
  proof (cases planned)
    case None
    with run show thesis by (intro unchanged) auto
  next
    case (Some p)
    obtain sufficient plan where p: "p = (sufficient, plan)" by (cases p)
    show thesis
    proof (cases sufficient)
      case False
      with run Some p have "applyEventPrefixPrune vault plan now db = Some db'" by (auto simp: bind_eq_Some_conv)
      with planned Some p show thesis by (intro pruned) simp_all
    next
      case True
      then have p': "planned = Some (True, plan)" by (simp add: Some p)
      note run = run [unfolded p' option.case prod.case not_True_eq_False if_False]
      let ?stream = "nextStreamState (en_streamActive entry) (hd_eventKind (sl_header envelope))"
      let ?streams = "va_activeStreamCount vault + (if ?stream then 1 else 0) - (if en_streamActive entry then 1 else 0)"
      show thesis
      proof (cases "quotaFailure (publish_quota vault plan needed ?streams)")
        case (Some code)
        with run show thesis by (intro unchanged) auto
      next
        case None
        with run have "publish_commit vault entry envelope oldHead plan needed ?stream ?streams now db = Some (r, db')" by (simp only: option.case)
        then show thesis by (rule published [OF head needed_def planned [unfolded p'] refl None])
      qed
    qed
  qed
qed

lemma accepted_acct:
  assumes acct: "acct material db" and vault: "current vault db" and entry: "entry \<in> set (sy_entries db)"
    and state: "en_vaultId entry = va_id vault" "en_state entry \<noteq> EN_retired" and size: "0 \<le> sl_ciphertextBytes envelope"
    and run: "publish_accept vault entry envelope now db = Some (r, db')"
  shows "acct material db'"
  using run
proof (cases rule: publish_accept_cases)
  case (pruned plan sufficient needed)
  from planned [OF acct_tables [OF acct] this(1)] have "plan_ok db vault plan" by blast
  from SessionRetention.pruned [OF acct vault this pruned(2)] show ?thesis by blast
next
  case (published plan needed oldHead streamActive streams)
  from published(6) obtain v k created db1 where db1: "applyEventPrefixPrune vault plan now db = Some db1"
    and db': "db' = publish_writes vault entry envelope oldHead plan needed streamActive streams v k created now db1"
    by (rule publish_commit_cases)
  note t = acct_tables [OF acct]
  from planned [OF t published(3)] have plan: "plan_ok db vault plan" by blast
  let ?g = "\<lambda>e. discharge (prior_delta (pp_entryDeltas plan) (en_id e)) e" and ?w = "pruned_vault plan now vault"
  from SessionRetention.pruned [OF acct vault plan db1] have acct1: "acct material db1" and w: "current ?w db1"
    and taken: "taken vault (pp_changes plan) (pp_events plan) ?g ?w db db1"
    and counts: "va_retainedEventCount ?w = pp_retainedEventCount plan" "va_retainedCiphertextBytes ?w = pp_retainedCiphertextBytes plan"
    by blast+
  from taken entry have "?g entry \<in> set (sy_entries db1)" by (simp add: taken_def)
  from get_entry [OF acct_tables [OF acct1] this] have e: "get_row en_id (sy_entries db1) (en_id entry) = Some (?g entry)" by simp
  have w_id: "va_id ?w = va_id vault" by (simp add: pruned_vault_def)
  have seen: "seen entry vault plan (?g entry) ?w"
    using state counts by (simp add: seen_def discharge_def pruned_vault_def)
  have head: "find_head db1 (en_id entry) = Some oldHead" using published(1) taken by (simp add: find_head_def taken_def)
  from published(5) have quota: "streams \<le> MAX_SYNC_ACTIVE_STREAMS" "pp_retainedEventCount plan + 1 \<le> MAX_SYNC_RETAINED_EVENTS"
    "pp_retainedCiphertextBytes plan + va_compatibilityEvidenceCiphertextBytes vault + needed \<le> MAX_SYNC_RETAINED_CIPHERTEXT_BYTES"
    by (simp_all add: quotaFailure_None publish_quota_def)
  show ?thesis
    unfolding db'
    by (rule published_acct [OF acct1 e w [unfolded current_def w_id] seen head size published(2,4) quota])
qed (use acct in simp)

subsection \<open>The other requests\<close>

lemma decide_accept_state:
  "decideSessionPublication stored envelope args = Some PD_accept \<Longrightarrow> en_state stored = EN_reserved \<or> en_state stored = EN_active"
  by (cases "en_state stored") (simp_all add: decideSessionPublication_def Let_def split: if_splits)

lemma publish_replay_unchanged: "publish_replay entry envelope db = Some (r, db') \<Longrightarrow> db' = db"
  by (auto simp: publish_replay_def bind_eq_Some_conv split: option.splits if_splits)

lemma publishSession_cases:
  assumes "publishSession vault device envelope now db = Some (r, db')"
  obtains "db' = db"
  | entry bootId bootGeneration where "currentBoot device = Some (bootId, bootGeneration)"
      "find_entry db (va_id vault) (hd_sessionId (sl_header envelope)) = Some (Some entry)"
      "decideSessionPublication entry envelope (publication_args vault device bootId bootGeneration now) = Some PD_accept"
      "publish_accept vault entry envelope now db = Some (r, db')"
proof (cases "currentBoot device")
  case None
  with assms that(1) show thesis by (auto simp: publishSession_def)
next
  case (Some b)
  obtain bootId bootGeneration where b: "currentBoot device = Some (bootId, bootGeneration)" using Some by (cases b) simp
  from assms b obtain found where found: "find_entry db (va_id vault) (hd_sessionId (sl_header envelope)) = Some found"
    by (cases "find_entry db (va_id vault) (hd_sessionId (sl_header envelope))") (simp_all add: publishSession_def)
  show thesis
  proof (cases found)
    case None
    with assms b found that(1) show thesis by (auto simp: publishSession_def)
  next
    case entry: (Some entry)
    let ?args = "publication_args vault device bootId bootGeneration now"
    from assms b found entry obtain decision where decision: "decideSessionPublication entry envelope ?args = Some decision"
      by (cases "decideSessionPublication entry envelope ?args") (simp_all add: publishSession_def)
    note run = assms [unfolded publishSession_def b option.case prod.case found entry Option.bind.simps decision]
    show thesis
    proof (cases decision)
      case PD_accept
      with run that(2) [OF b found [unfolded entry] decision [unfolded PD_accept]] show thesis by simp
    next
      case PD_replay
      with run publish_replay_unchanged that(1) show thesis by auto
    qed (use run that(1) in auto)
  qed
qed

lemma publish_acct:
  assumes acct: "acct material db" and vault: "current vault db" and size: "0 \<le> sl_ciphertextBytes envelope"
    and run: "publishSession vault device envelope now db = Some (r, db')"
  shows "acct material db'"
  using run
proof (cases rule: publishSession_cases)
  case (2 entry bootId bootGeneration)
  from find_entry_Some [OF 2(2)] have member: "entry \<in> set (sy_entries db)" "en_vaultId entry = va_id vault" by simp_all
  from decide_accept_state [OF 2(3)] have state: "en_state entry \<noteq> EN_retired" by auto
  from accepted_acct [OF acct vault member state size 2(4)] show ?thesis .
qed (use acct in simp)

text \<open>A session that appears with nothing retained, and a vault that counts it.\<close>

lemma inserted_acct:
  assumes acct: "acct material db" and w: "get_row va_id (sy_vaults db) (va_id w) = Some w"
    and e: "en_id e = sy_next db" "en_vaultId e = va_id w" "en_state e = EN_reserved" "\<not> en_streamActive e"
      "en_retainedEventCount e = 0" "en_retainedCiphertextBytes e = 0"
    and db': "sy_next db' = Suc (sy_next db)" "sy_entries db' = sy_entries db @ [e]" "sy_events db' = sy_events db"
      "sy_heads db' = sy_heads db" "sy_changes db' = sy_changes db"
      "sy_vaults db' = map (\<lambda>x. if va_id x = va_id w then w' else x) (sy_vaults db)"
    and w': "va_id w' = va_id w" "va_retainedEventCount w' = va_retainedEventCount w"
      "va_retainedCiphertextBytes w' = va_retainedCiphertextBytes w" "va_activeStreamCount w' = va_activeStreamCount w"
      "va_directorySessionCount w' = va_directorySessionCount w + 1" "vault_quota w'"
  shows "acct material db'"
proof -
  note t = acct_tables [OF acct]
  have vault_ids: "map va_id (sy_vaults db') = map va_id (sy_vaults db)" using w'(1) by (simp add: db')
  have fresh: "sh_sessionEntryId h \<noteq> sy_next db" if "h \<in> set (sy_heads db)" for h
    using t that by (auto simp: tables_ok_def)
  have "distinct (map en_id (sy_entries db'))"
    unfolding db' by (rule distinct_snoc [of _ _ "sy_next db"]) (use tables_distinct [OF t] tables_entry [OF t] e in auto)
  then have tables: "tables_ok db'"
    unfolding tables_ok_def vault_ids using t fresh e by (auto simp: db' tables_ok_def less_Suc_eq)
  have counts: "count_entries P db' = count_entries P db + (if P e then 1 else 0)" for P
    by (simp add: count_entries_def db')
  have "ev_count (of_entry (sy_next db)) (sy_events db) = 0 \<and> ev_bytes (of_entry (sy_next db)) (sy_events db) = 0"
    by (rule ev_none) (use tables_event [OF t] in fastforce)
  moreover have "hd_bytes (\<lambda>h. sh_sessionEntryId h = sy_next db) (sy_heads db) = 0"
    by (rule hd_bytes_none) (rule fresh)
  ultimately have new: "entry_load db' e" using e by (simp add: entry_load_def db')
  have old: "entry_load db' x" if "x \<in> set (sy_entries db)" for x
    using acct_entry [OF acct that] by (simp add: entry_load_def db')
  from get_row_Some [OF w] have member: "w \<in> set (sy_vaults db)" by simp
  have "vault_load material db' x \<and> vault_quota x" if "x \<in> set (sy_vaults db')" for x
  proof (cases "x = w'")
    case True
    with acct_vault [OF acct member] w' e show ?thesis by (simp add: vault_load_def db'(3-5) counts)
  next
    case False
    with that have "x \<in> set (sy_vaults db)" "va_id x \<noteq> va_id w" by (auto simp: db' split: if_splits)
    with acct_vault [OF acct this(1)] e show ?thesis by (simp add: vault_load_def db'(3-5) counts)
  qed
  with tables new old show ?thesis unfolding acct_def by (auto simp: db'(2))
qed

lemma reserve_cases:
  assumes "reserveSession vault device sessionId digest now db = Some (r, db')"
  obtains "db' = db"
  | ordinal key zero expires where "va_directorySessionCount vault < MAX_SYNC_DIRECTORY_SESSIONS"
    "db' = patch_vault (va_id vault) (\<lambda>v. v \<lparr>va_nextDirectoryOrdinal := ordinal,
           va_directorySessionCount := va_directorySessionCount vault + 1, va_updatedAt := now\<rparr>)
         (db \<lparr>sy_next := Suc (sy_next db), sy_entries := sy_entries db @
           [reserved_entry vault device sessionId digest ordinal key zero expires now (sy_next db)]\<rparr>)"
proof (cases "find_entry db (va_id vault) sessionId")
  case None
  with assms that(1) show thesis by (cases "currentBoot device") (auto simp: reserveSession_def)
next
  case (Some existing)
  show thesis
  proof (cases existing)
    case None
    with assms Some show thesis
      by (auto simp: reserveSession_def bind_eq_Some_conv Let_def split: if_splits intro: that)
  next
    case (Some entry)
    with assms \<open>find_entry _ _ _ = _\<close> show thesis
      by (intro that(1)) (auto simp: reserveSession_def bind_eq_Some_conv split: if_splits)
  qed
qed

lemma reserve_acct:
  assumes acct: "acct material db" and vault: "current vault db"
    and run: "reserveSession vault device sessionId digest now db = Some (r, db')"
  shows "acct material db'"
  using run
proof (cases rule: reserve_cases)
  case (2 ordinal key zero expires)
  let ?e = "reserved_entry vault device sessionId digest ordinal key zero expires now (sy_next db)"
  let ?w = "vault \<lparr>va_nextDirectoryOrdinal := ordinal, va_directorySessionCount := va_directorySessionCount vault + 1, va_updatedAt := now\<rparr>"
  from vault have w: "get_row va_id (sy_vaults db) (va_id vault) = Some vault" by (simp add: current_def)
  from get_row_Some [OF w] acct_vault [OF acct] have "vault_quota vault" by blast
  with 2(1) have quota: "vault_quota ?w" by (simp add: vault_quota_def)
  have vaults: "sy_vaults db' = map (\<lambda>x. if va_id x = va_id vault then ?w else x) (sy_vaults db)"
    unfolding 2(2) using patch_unique [OF conjunct1 [OF tables_distinct [OF acct_tables [OF acct]]] w] by simp
  show ?thesis
    by (rule inserted_acct [OF acct w, where e = ?e and w' = ?w])
      (use 2(2) quota vaults in \<open>simp_all add: reserved_entry_def\<close>)
qed (use acct in simp)

lemma acctI_same:
  assumes acct: "acct material db"
    and rows: "map (\<lambda>x. (en_id x, en_vaultId x, en_state x, en_streamActive x, en_retainedEventCount x, en_retainedCiphertextBytes x)) (sy_entries db') =
      map (\<lambda>x. (en_id x, en_vaultId x, en_state x, en_streamActive x, en_retainedEventCount x, en_retainedCiphertextBytes x)) (sy_entries db)"
      (is "map ?k _ = _")
    and rest: "sy_next db' = sy_next db" "sy_events db' = sy_events db" "sy_heads db' = sy_heads db"
      "sy_changes db' = sy_changes db" "sy_vaults db' = sy_vaults db"
  shows "acct material db'"
proof -
  have ids: "map en_id (sy_entries db') = map en_id (sy_entries db)"
    using arg_cong [OF rows, of "map fst"] by (simp add: comp_def)
  have like: "\<exists>x0\<in>set (sy_entries db). ?k x0 = ?k x" if "x \<in> set (sy_entries db')" for x
  proof -
    from that have "?k x \<in> set (map ?k (sy_entries db'))" by simp
    then show ?thesis unfolding rows by auto
  qed
  note t = acct_tables [OF acct]
  have "sh_vaultId h = en_vaultId x" if h: "h \<in> set (sy_heads db)" and x: "x \<in> set (sy_entries db')" "en_id x = sh_sessionEntryId h" for h x
  proof -
    from like [OF x(1)] obtain x0 where x0: "x0 \<in> set (sy_entries db)" "?k x0 = ?k x" by blast
    from x0(2) x(2) have "en_id x0 = sh_sessionEntryId h" "en_vaultId x0 = en_vaultId x" by simp_all
    with tables_head [OF t h x0(1)] show ?thesis by simp
  qed
  moreover have "en_id x < sy_next db" if x: "x \<in> set (sy_entries db')" for x
  proof -
    from like [OF x] obtain x0 where x0: "x0 \<in> set (sy_entries db)" "?k x0 = ?k x" by blast
    from tables_entry [OF t x0(1)] x0(2) show ?thesis by simp
  qed
  ultimately have tables: "tables_ok db'"
    using t unfolding tables_ok_def rest ids by blast
  have loads: "entry_load db' x" if "x \<in> set (sy_entries db')" for x
  proof -
    from like [OF that] obtain x0 where x0: "x0 \<in> set (sy_entries db)" "?k x0 = ?k x" by blast
    from acct_entry [OF acct x0(1)] have "entry_load db' x0" by (simp add: entry_load_def rest)
    with x0(2) show ?thesis by (simp add: entry_load_def)
  qed
  have kept: "count_entries P db' = count_entries P db" if "\<And>x. P x \<longleftrightarrow> Q (?k x)" for P Q
  proof -
    have "length (filter Q (map ?k (sy_entries db'))) = length (filter Q (map ?k (sy_entries db)))" unfolding rows ..
    moreover have "P = Q \<circ> ?k" by (simp add: that fun_eq_iff)
    ultimately show ?thesis by (simp add: count_entries_def filter_map)
  qed
  have "count_entries (streaming i) db' = count_entries (streaming i) db" for i
    by (rule kept [of _ "\<lambda>(a, b, c, d, e). b = i \<and> d"]) simp
  moreover have "count_entries (listed i) db' = count_entries (listed i) db" for i
    by (rule kept [of _ "\<lambda>(a, b, c, d, e). b = i \<and> c \<noteq> EN_retired"]) simp
  ultimately have "vault_load material db' x \<and> vault_quota x" if "x \<in> set (sy_vaults db')" for x
    using that acct_vault [OF acct, of x] by (simp add: vault_load_def rest)
  with tables loads show ?thesis unfolding acct_def by blast
qed

text \<open>A patch of one entry that keeps what is accounted.\<close>

lemma patched_entry_acct:
  assumes acct: "acct material db" and e: "get_row en_id (sy_entries db) i = Some e"
    and g: "\<And>x. en_id (g x) = en_id x \<and> en_vaultId (g x) = en_vaultId x \<and> en_state (g x) = en_state x \<and>
      en_streamActive (g x) = en_streamActive x \<and> en_retainedEventCount (g x) = en_retainedEventCount x \<and>
      en_retainedCiphertextBytes (g x) = en_retainedCiphertextBytes x"
  shows "acct material (patch_entry i g db)"
proof (rule acctI_same [OF acct])
  show "map (\<lambda>x. (en_id x, en_vaultId x, en_state x, en_streamActive x, en_retainedEventCount x, en_retainedCiphertextBytes x))
      (sy_entries (patch_entry i g db)) =
    map (\<lambda>x. (en_id x, en_vaultId x, en_state x, en_streamActive x, en_retainedEventCount x, en_retainedCiphertextBytes x)) (sy_entries db)"
    by (simp add: patch_row_def g)
qed simp_all

lemma reconcile_unchanged: "writer_reconcile entry request db = Some (r, db') \<Longrightarrow> db' = db"
  by (auto simp: writer_reconcile_def bind_eq_Some_conv split: if_splits)

lemma acquire_cases:
  assumes "acquireWriter vault device request now db = Some (r, db')"
  obtains "db' = db"
  | entry generation bootId bootGeneration where
    "find_entry db (va_id vault) (wq_sessionId request) = Some (Some entry)"
    "nextRequiredSyncUint64 (en_writerGeneration entry) = Some generation"
    "db' = patch_entry (en_id entry) (\<lambda>e. e \<lparr>en_writerGeneration := generation,
       en_writerBootId := Some bootId, en_writerBootGeneration := Some bootGeneration, en_updatedAt := now\<rparr>) db"
proof (cases "currentBoot device")
  case None
  with assms that(1) show thesis by (auto simp: acquireWriter_def)
next
  case (Some b)
  obtain bootId bootGeneration where b: "currentBoot device = Some (bootId, bootGeneration)" using Some by (cases b) simp
  note run = assms [unfolded acquireWriter_def b option.case prod.case]
  show thesis
  proof (cases "find_entry db (va_id vault) (wq_sessionId request)")
    case None
    with run that(1) show thesis by (auto split: if_splits)
  next
    case (Some found)
    show thesis
    proof (cases found)
      case None
      with run Some that(1) show thesis by (auto split: if_splits)
    next
      case entry: (Some entry)
      note run = run [unfolded Some entry Option.bind.simps option.case]
      show thesis
      proof (cases "writer_reconcile entry request db = Some (r, db')")
        case True
        with reconcile_unchanged that(1) show thesis by blast
      next
        case False
        with run Some entry show thesis
          by (cases "nextRequiredSyncUint64 (en_writerGeneration entry)")
            (auto split: if_splits intro: that)
      qed
    qed
  qed
qed

lemma acquire_acct:
  assumes acct: "acct material db" and run: "acquireWriter vault device request now db = Some (r, db')"
  shows "acct material db'"
  using run
proof (cases rule: acquire_cases)
  case (2 entry generation bootId bootGeneration)
  from find_entry_Some [OF 2(1)] get_entry [OF acct_tables [OF acct]]
  have "get_row en_id (sy_entries db) (en_id entry) = Some entry" by blast
  then show ?thesis unfolding 2(3) by (rule patched_entry_acct [OF acct]) simp
qed (use acct in simp)

subsection \<open>Deletion\<close>

lemma head_unwritten:
  assumes "tables_ok db" and "sy_heads db' = sy_heads db" and "sy_next db \<le> sy_next db'"
  shows "head_written db i w 0 (sy_next db) db'"
  using assms unfolding head_written_def assms(2) tables_ok_def by (auto intro: less_le_trans)

lemma delete_writes_acct:
  assumes acct: "acct material db" and vault: "current vault db" and entry: "entry \<in> set (sy_entries db)"
    and state: "en_vaultId entry = va_id vault" "en_state entry \<noteq> EN_retired"
  shows "acct material (delete_writes vault entry request directoryVersion orderKey now db)" (is "acct material ?db")
proof -
  note t = acct_tables [OF acct]
  let ?f = "deleted_entry request directoryVersion orderKey now" and ?g = "deleted_vault vault entry directoryVersion orderKey now"
  note e = get_entry [OF t entry] and w = vault [unfolded current_def]
  from get_row_Some [OF w] acct_vault [OF acct] have quota: "vault_quota vault" by blast
  have entries: "sy_entries ?db = map (\<lambda>x. if en_id x = en_id entry then ?f entry else x) (sy_entries db)"
    using patch_unique [OF conjunct1 [OF conjunct2 [OF tables_distinct [OF t]]] e] by (simp add: delete_writes_def Let_def)
  have vaults: "sy_vaults ?db = map (\<lambda>x. if va_id x = va_id vault then ?g vault else x) (sy_vaults db)"
    using patch_unique [OF conjunct1 [OF tables_distinct [OF t]] w] by (simp add: delete_writes_def Let_def)
  have rows: "sy_next ?db = Suc (Suc (sy_next db))" "sy_heads ?db = sy_heads db" "sy_events ?db = sy_events db"
    by (simp_all add: delete_writes_def Let_def)
  show ?thesis
  proof (rule posted_acct [OF acct e state(1) w])
    show "head_written db (en_id entry) (va_id vault) 0 (sy_next db) ?db"
      by (rule head_unwritten [OF t]) (simp_all add: rows)
    show "new_events (en_id entry) (va_id vault) db ?db []" by (simp add: new_events_def rows)
    show "new_change (va_id vault) db ?db [] \<lparr>ch_id = Suc (sy_next db), ch_vaultId = va_id vault,
        ch_directoryVersion = directoryVersion, ch_directoryVersionOrderKey = orderKey, ch_kind = CK_tombstone,
        ch_sessionEntryId = en_id entry, ch_eventId = None, ch_createdAt = now\<rparr>"
      by (simp add: new_change_def rows) (simp add: delete_writes_def Let_def)
    show "new_entry entry (?f entry) 0 [] db ?db"
      using entries by (simp add: new_entry_def deleted_entry_def)
    show "new_vault entry (?f entry) vault (?g vault) 0 [] db ?db"
      using vaults state(2) quota by (simp add: new_vault_def deleted_entry_def deleted_vault_def vault_quota_def)
  qed
qed

lemma delete_admitted_cases:
  assumes "delete_admitted vault device bootId bootGeneration entry request now db = Some (r, db')"
  obtains "db' = db"
  | directoryVersion orderKey where "delete_fenced vault device bootId bootGeneration entry request"
    "nextRequiredSyncUint64 (va_directoryVersion vault) = Some directoryVersion" "syncUint64OrderKey directoryVersion = Some orderKey"
    "db' = delete_writes vault entry request directoryVersion orderKey now db"
  using assms
  by (auto simp: delete_admitted_def bind_eq_Some_conv split: if_splits option.splits intro: that)

lemma deleteSession_cases:
  assumes "deleteSession vault device request now db = Some (r, db')"
  obtains "db' = db"
  | entry bootId bootGeneration where "currentBoot device = Some (bootId, bootGeneration)"
      "find_entry db (va_id vault) (dq_sessionId request) = Some (Some entry)" "en_originDeviceId entry = de_id device"
      "en_state entry = EN_reserved \<or> en_state entry = EN_active"
      "delete_admitted vault device bootId bootGeneration entry request now db = Some (r, db')"
proof (cases "currentBoot device")
  case None
  with assms that(1) show thesis by (auto simp: deleteSession_def)
next
  case (Some b)
  obtain bootId bootGeneration where b: "currentBoot device = Some (bootId, bootGeneration)" using Some by (cases b) simp
  note run = assms [unfolded deleteSession_def b option.case prod.case]
  obtain found where found: "find_entry db (va_id vault) (dq_sessionId request) = Some found"
    using run by (cases "find_entry db (va_id vault) (dq_sessionId request)") simp_all
  show thesis
  proof (cases found)
    case None
    with run found that(1) show thesis by auto
  next
    case entry: (Some entry)
    note run = run [unfolded found entry Option.bind.simps option.case]
    show thesis
    proof (cases "en_originDeviceId entry = de_id device \<and> (en_state entry = EN_reserved \<or> en_state entry = EN_active)")
      case True
      with run that(2) [OF b found [unfolded entry]] show thesis by auto
    next
      case False
      with run have "db' = db"
        by (cases "en_state entry") (auto simp: bind_eq_Some_conv split: if_splits option.splits)
      then show thesis by (rule that(1))
    qed
  qed
qed

lemma delete_acct:
  assumes acct: "acct material db" and vault: "current vault db"
    and run: "deleteSession vault device request now db = Some (r, db')"
  shows "acct material db'"
  using run
proof (cases rule: deleteSession_cases)
  case (2 entry bootId bootGeneration)
  from find_entry_Some [OF 2(2)] have member: "entry \<in> set (sy_entries db)" "en_vaultId entry = va_id vault" by simp_all
  from 2(5) show ?thesis
  proof (cases rule: delete_admitted_cases)
    case (2 directoryVersion orderKey)
    with delete_writes_acct [OF acct vault member] \<open>en_state entry = EN_reserved \<or> _\<close> show ?thesis by auto
  qed (use acct in simp)
qed (use acct in simp)

subsection \<open>Retirement\<close>

lemma collect_events_ok:
  assumes t: "tables_ok db"
  shows "collect_events db changes events deltas bytes n = Some (events', deltas', bytes', n') \<Longrightarrow>
    set changes \<subseteq> {c \<in> set (sy_changes db). ch_vaultId c = w} \<Longrightarrow>
    set events \<subseteq> {v \<in> set (sy_events db). ve_vaultId v = w} \<Longrightarrow> deltas_of events deltas \<Longrightarrow>
    bytes = ev_bytes (\<lambda>_. True) events \<Longrightarrow> n = ev_count (\<lambda>_. True) events \<Longrightarrow>
    set events' \<subseteq> {v \<in> set (sy_events db). ve_vaultId v = w} \<and> deltas_of events' deltas' \<and>
    bytes' = ev_bytes (\<lambda>_. True) events' \<and> n' = ev_count (\<lambda>_. True) events'"
proof (induction changes arbitrary: events deltas bytes n)
  case (Cons change changes)
  show ?case
  proof (cases "ch_eventId change")
    case None
    with Cons.prems show ?thesis by (intro Cons.IH) simp_all
  next
    case (Some i)
    obtain v where v: "get_row ve_id (sy_events db) i = Some v"
      using Cons.prems(1) Some by (cases "get_row ve_id (sy_events db) i") simp_all
    from get_row_Some [OF v] have member: "v \<in> set (sy_events db)" "ve_id v = i" by simp_all
    with tables_change [OF t, of change] Cons.prems(2) Some have "ve_vaultId v = w" by auto
    with member Cons.prems(3) have grown: "set (events @ [v]) \<subseteq> {v \<in> set (sy_events db). ve_vaultId v = w}" by simp
    show ?thesis
      by (rule Cons.IH [OF _ _ grown deltas_of_add [OF Cons.prems(4)]])
        (use Cons.prems Some v in simp_all)
  qed
qed simp

definition purged_entry :: "int \<Rightarrow> (nat \<times> int \<times> int) list \<Rightarrow> SessionEntry \<Rightarrow> SessionEntry" where
  "purged_entry now deltas e =
     (if en_id e \<in> fst ` set deltas then (discharge (prior_delta deltas (en_id e)) e) \<lparr>en_updatedAt := now\<rparr> else e)"

lemma purge_deltas_map:
  "distinct (map fst deltas) \<Longrightarrow> purge_deltas now deltas entries = map (purged_entry now deltas) entries"
proof (induction deltas arbitrary: entries)
  case (Cons p deltas)
  obtain i d where p: "p = (i, d)" by (cases p)
  have "purge_deltas now (p # deltas) entries =
      purge_deltas now deltas (patch_row en_id i (\<lambda>e. (discharge d e) \<lparr>en_updatedAt := now\<rparr>) entries)"
    by (simp add: purge_deltas_def p)
  also have "\<dots> = map (purged_entry now deltas) (patch_row en_id i (\<lambda>e. (discharge d e) \<lparr>en_updatedAt := now\<rparr>) entries)"
    using Cons p by simp
  also have "\<dots> = map (purged_entry now (p # deltas)) entries"
    using Cons.prems p by (auto simp: patch_row_def purged_entry_def prior_delta_Cons)
  finally show ?case .
qed (simp add: purge_deltas_def purged_entry_def map_idI)

lemma purge_selected_cases:
  assumes "purge_selected vault selected targetVersion now db = Some (p, db')"
  obtains events deltas bytes n changes kept where "collect_events db selected [] [] 0 0 = Some (events, deltas, bytes, n)"
    "delete_rows ch_id (map ch_id selected) (sy_changes db) = Some changes"
    "delete_rows ve_id (map ve_id events) (sy_events db) = Some kept"
    "bytes \<le> va_retainedCiphertextBytes vault" "n \<le> va_retainedEventCount vault"
    "db' = patch_vault (va_id vault) (\<lambda>v. v \<lparr>va_changeFloorVersion := ch_directoryVersion (last selected),
            va_retainedCiphertextBytes := va_retainedCiphertextBytes vault - bytes,
            va_retainedEventCount := va_retainedEventCount vault - n, va_updatedAt := now\<rparr>)
          (db \<lparr>sy_changes := changes, sy_events := kept, sy_entries := purge_deltas now deltas (sy_entries db)\<rparr>)"
proof -
  obtain events deltas bytes n where c: "collect_events db selected [] [] 0 0 = Some (events, deltas, bytes, n)"
    using assms by (cases "collect_events db selected [] [] 0 0") (auto simp: purge_selected_def)
  note run = assms [unfolded purge_selected_def c Option.bind.simps prod.case]
  obtain changes where ch: "delete_rows ch_id (map ch_id selected) (sy_changes db) = Some changes"
    using run by (cases "delete_rows ch_id (map ch_id selected) (sy_changes db)") (simp_all split: if_splits)
  obtain kept where k: "delete_rows ve_id (map ve_id events) (sy_events db) = Some kept"
    using run ch by (cases "delete_rows ve_id (map ve_id events) (sy_events db)") (simp_all split: if_splits)
  obtain order where o: "compareSyncUint64 (ch_directoryVersion (last selected)) targetVersion = Some order"
    using run ch k by (cases "compareSyncUint64 (ch_directoryVersion (last selected)) targetVersion") (simp_all split: if_splits)
  show thesis
    by (rule that [OF c ch k]) (use run in \<open>auto simp: ch k o split: if_splits\<close>)
qed

lemma purge_selected_acct:
  assumes acct: "acct material db" and vault: "current vault db"
    and selected: "set selected \<subseteq> {c \<in> set (sy_changes db). ch_vaultId c = va_id vault}"
    and run: "purge_selected vault selected targetVersion now db = Some (p, db')"
  shows "acct material db'"
  using run
proof (cases rule: purge_selected_cases)
  case (1 events deltas bytes n changes kept)
  note t = acct_tables [OF acct]
  from collect_events_ok [OF t 1(1) selected] deltas_of_Nil
  have events: "set events \<subseteq> {v \<in> set (sy_events db). ve_vaultId v = va_id vault}" and deltas: "deltas_of events deltas"
    and load: "bytes = ev_bytes (\<lambda>_. True) events" "n = ev_count (\<lambda>_. True) events" by simp_all
  from deltas have dist: "distinct (map fst deltas)" by (simp add: deltas_of_def)
  let ?w = "vault \<lparr>va_changeFloorVersion := ch_directoryVersion (last selected),
            va_retainedCiphertextBytes := va_retainedCiphertextBytes vault - bytes,
            va_retainedEventCount := va_retainedEventCount vault - n, va_updatedAt := now\<rparr>"
  have vaults: "sy_vaults db' = map (\<lambda>x. if va_id x = va_id vault then ?w else x) (sy_vaults db)"
    unfolding 1(6) using patch_unique [OF conjunct1 [OF tables_distinct [OF t]] vault [unfolded current_def]] by simp
  have taken: "taken vault selected events (purged_entry now deltas) ?w db db'"
    using 1(2,3) vaults by (simp add: taken_def 1(6) purge_deltas_map [OF dist])
  have absent: "ev_count (of_entry i) events = 0 \<and> ev_bytes (of_entry i) events = 0" if "i \<notin> fst ` set deltas" for i
    using prior_delta_absent [OF that] deltas by (simp add: deltas_of_def)
  have discharged: "discharged events (purged_entry now deltas)"
    using deltas absent by (simp add: discharged_def purged_entry_def deltas_of_def discharge_def)
  have charged: "charged events vault ?w" by (simp add: charged_def load)
  show ?thesis by (rule taken_acct [OF acct vault [unfolded current_def] taken discharged charged events])
qed

lemma purge_cases:
  assumes "purgeRetiringSessionEventPrefix vault entry purgeThroughVersion now maximumChanges db = Some (p, db')"
  obtains "db' = db"
  | selected targetVersion key where "set selected \<subseteq> {c \<in> set (sy_changes db). ch_vaultId c = va_id vault}"
      "live_pins db (va_id vault) now = []"
      "purge_selected vault selected targetVersion now db = Some (p, db')"
      "selected = take maximumChanges (filter (\<lambda>c. ch_directoryVersionOrderKey c \<le> key) (vault_changes db (va_id vault)))"
      "selected \<noteq> []"
proof (cases "db' = db")
  case False
  obtain through where through: "purge_target (newest_event db (en_id entry)) purgeThroughVersion = Some through"
    using assms by (cases "purge_target (newest_event db (en_id entry)) purgeThroughVersion")
      (simp_all add: purgeRetiringSessionEventPrefix_def)
  note run = assms [unfolded purgeRetiringSessionEventPrefix_def Let_def through Option.bind.simps]
  from run False obtain targetVersion where target: "through = Some targetVersion"
    by (cases through) (auto split: if_splits)
  note run = run [unfolded target option.case]
  from run False have pins: "live_pins db (va_id vault) now = []" by (auto split: if_splits)
  from run False pins obtain order where order: "compareSyncUint64 targetVersion (va_changeFloorVersion vault) = Some order"
    by (cases "compareSyncUint64 targetVersion (va_changeFloorVersion vault)") (auto split: if_splits)
  from run False pins order obtain key where key: "syncUint64OrderKey targetVersion = Some key"
    by (cases "syncUint64OrderKey targetVersion") (auto split: if_splits)
  from run False pins order key obtain first where first: "nextRequiredSyncUint64 (va_changeFloorVersion vault) = Some first"
    by (cases "nextRequiredSyncUint64 (va_changeFloorVersion vault)") (auto split: if_splits)
  define selected where "selected = take maximumChanges (filter (\<lambda>c. ch_directoryVersionOrderKey c \<le> key) (vault_changes db (va_id vault)))"
  have "set selected \<subseteq> set (vault_changes db (va_id vault))"
    unfolding selected_def by (rule subset_trans [OF set_take_subset]) simp
  then have inside: "set selected \<subseteq> {c \<in> set (sy_changes db). ch_vaultId c = va_id vault}" by (simp only: vault_changes_set)
  from run False pins order key first
  have "purge_selected vault selected targetVersion now db = Some (p, db') \<and> selected \<noteq> []"
    by (auto simp: selected_def split: if_splits)
  then have "purge_selected vault selected targetVersion now db = Some (p, db')" "selected \<noteq> []" by blast+
  with inside pins show thesis by (intro that(2) [OF _ _ _ selected_def])
qed (use that in blast)

lemma purge_acct:
  assumes acct: "acct material db" and vault: "current vault db"
    and run: "purgeRetiringSessionEventPrefix vault entry purgeThroughVersion now maximumChanges db = Some (p, db')"
  shows "acct material db'"
  using run
proof (cases rule: purge_cases)
  case (2 selected targetVersion key)
  from purge_selected_acct [OF acct vault 2(1,3)] show ?thesis .
qed (use acct in simp)

text \<open>Deleting the head of a session takes its bytes away.\<close>

lemma head_deleted:
  assumes t: "tables_ok db" and h: "find_head db i = Some (Some h)" and w: "sh_vaultId h = w"
    and run: "delete_row sh_id (sh_id h) (sy_heads db) = Some (sy_heads db')" and later: "sy_next db \<le> sy_next db'"
  shows "head_written db i w (- sh_ciphertextBytes h) (sy_next db) db'"
proof -
  from find_head_Some [OF h] have member: "h \<in> set (sy_heads db)" "sh_sessionEntryId h = i" by simp_all
  from t have ids: "distinct (map sh_id (sy_heads db))" "distinct (map sh_sessionEntryId (sy_heads db))"
    and old: "\<And>x. x \<in> set (sy_heads db) \<Longrightarrow> sh_id x < sy_next db \<and> sh_sessionEntryId x < sy_next db \<and> 0 \<le> sh_ciphertextBytes x"
    by (simp_all add: tables_ok_def)
  have mset: "mset (sy_heads db) = add_mset h (mset (sy_heads db'))" by (rule delete_row_mset [OF ids(1) member(1) run])
  have bytes: "hd_bytes P (sy_heads db') = hd_bytes P (sy_heads db) - (if P h then sh_ciphertextBytes h else 0)" for P
  proof -
    have "hd_bytes P rows = sum_mset (image_mset sh_ciphertextBytes (filter_mset P (mset rows)))" for rows
      unfolding hd_bytes_def by (simp flip: mset_filter sum_mset_sum_list)
    then show ?thesis by (simp add: mset)
  qed
  from run have rest: "sy_heads db' = filter (\<lambda>x. sh_id x \<noteq> sh_id h) (sy_heads db)"
    by (auto simp: delete_row_def split: option.splits)
  have "distinct (map sh_id (sy_heads db'))" "distinct (map sh_sessionEntryId (sy_heads db'))"
    unfolding rest using ids by (simp_all add: distinct_map_filter)
  moreover have "sh_id x < sy_next db' \<and> sh_sessionEntryId x < sy_next db' \<and> 0 \<le> sh_ciphertextBytes x \<and> x \<in> set (sy_heads db)"
    if "x \<in> set (sy_heads db')" for x using that old [of x] later by (auto simp: rest)
  ultimately show ?thesis
    using member(2) w later unfolding head_written_def bytes by auto
qed

lemma retire_writes_cases:
  assumes "retire_writes vault entry tombstone now db = Some db'"
  obtains directoryVersion orderKey created head where
    "nextRequiredSyncUint64 (va_directoryVersion vault) = Some directoryVersion" "syncUint64OrderKey directoryVersion = Some orderKey"
    "find_head db (en_id entry) = Some head" "en_retainedEventCount entry = 0"
    "en_retainedCiphertextBytes entry = old_bytes head"
    "(case head of None \<Rightarrow> Some (sy_heads db) | Some h \<Rightarrow> delete_row sh_id (sh_id h) (sy_heads db)) = Some (sy_heads db')"
    "sy_next db' = Suc (sy_next db)" "sy_events db' = sy_events db"
    "sy_changes db' = sy_changes db @ [\<lparr>ch_id = sy_next db, ch_vaultId = va_id vault, ch_directoryVersion = directoryVersion,
       ch_directoryVersionOrderKey = orderKey, ch_kind = CK_retired, ch_sessionEntryId = en_id entry, ch_eventId = None,
       ch_createdAt = now\<rparr>]"
    "sy_entries db' = patch_row en_id (en_id entry) (retired_entry created directoryVersion orderKey now) (sy_entries db)"
    "sy_vaults db' = patch_row va_id (va_id vault) (retired_vault vault (old_bytes head) directoryVersion orderKey now) (sy_vaults db)"
    "sy_pins db' = sy_pins db"
proof -
  obtain v where v: "nextRequiredSyncUint64 (va_directoryVersion vault) = Some v"
    using assms by (cases "nextRequiredSyncUint64 (va_directoryVersion vault)") (simp_all add: retire_writes_def split: if_splits)
  obtain k where k: "syncUint64OrderKey v = Some k"
    using assms v by (cases "syncUint64OrderKey v") (simp_all add: retire_writes_def split: if_splits)
  obtain head where head: "find_head db (en_id entry) = Some head"
    using assms v k by (cases "find_head db (en_id entry)") (auto simp: retire_writes_def bind_eq_Some_conv split: if_splits)
  obtain r where r: "encodeSyncUint64 now = Some r"
    using assms v k by (cases "encodeSyncUint64 now") (simp_all add: retire_writes_def split: if_splits)
  define created where "created = (case en_createdDirectoryVersion entry of None \<Rightarrow> v | Some c \<Rightarrow> c)"
  note run = assms [unfolded retire_writes_def v k r head Option.bind.simps Let_def, folded created_def]
  obtain heads where heads: "(case head of None \<Rightarrow> Some (sy_heads db) | Some h \<Rightarrow> delete_row sh_id (sh_id h) (sy_heads db)) = Some heads"
    using run by (cases "case head of None \<Rightarrow> Some (sy_heads db) | Some h \<Rightarrow> delete_row sh_id (sh_id h) (sy_heads db)") (simp_all split: if_splits)
  obtain tombs where tombs: "(case tombstone of None \<Rightarrow> Some (sy_tombstones db) | Some t \<Rightarrow> delete_row to_id (to_id t) (sy_tombstones db)) = Some tombs"
    using run heads by (cases "case tombstone of None \<Rightarrow> Some (sy_tombstones db) | Some t \<Rightarrow> delete_row to_id (to_id t) (sy_tombstones db)") (simp_all split: if_splits)
  note run = run [unfolded heads tombs Option.bind.simps]
  then have zero: "en_retainedEventCount entry = 0" "en_retainedCiphertextBytes entry = old_bytes head"
    and db': "db' = patch_vault (va_id vault) (retired_vault vault (old_bytes head) v k now)
      (patch_entry (en_id entry) (retired_entry created v k now)
        (insert_change (va_id vault) v k CK_retired (en_id entry) None now (db \<lparr>sy_heads := heads, sy_tombstones := tombs\<rparr>)))"
    by (simp_all split: if_splits)
  show thesis
    by (rule that [OF v k head zero]) (simp_all add: db' heads)
qed

lemma retire_writes_acct:
  assumes acct: "acct material db" and vault: "current vault db" and entry: "get_row en_id (sy_entries db) (en_id entry) = Some entry"
    and state: "en_vaultId entry = va_id vault" "en_state entry = EN_reserved \<or> en_state entry = EN_tombstone"
    and run: "retire_writes vault entry tombstone now db = Some db'"
  shows "acct material db'"
  using run
proof (cases rule: retire_writes_cases)
  case (1 directoryVersion orderKey created head)
  note t = acct_tables [OF acct] and w = vault [unfolded current_def]
  let ?f = "retired_entry created directoryVersion orderKey now" and ?g = "retired_vault vault (old_bytes head) directoryVersion orderKey now"
  from get_row_Some [OF entry] have member: "entry \<in> set (sy_entries db)" by simp
  with acct_entry [OF acct] state(2) have idle: "\<not> en_streamActive entry" by (auto simp: entry_load_def)
  from get_row_Some [OF w] acct_vault [OF acct] have quota: "vault_quota vault" by blast
  have entries: "sy_entries db' = map (\<lambda>x. if en_id x = en_id entry then ?f entry else x) (sy_entries db)"
    unfolding 1(10) using tables_distinct [OF t] by (intro patch_unique [OF _ entry]) blast
  have vaults: "sy_vaults db' = map (\<lambda>x. if va_id x = va_id vault then ?g vault else x) (sy_vaults db)"
    unfolding 1(11) using tables_distinct [OF t] by (intro patch_unique [OF _ w]) blast
  have heads: "head_written db (en_id entry) (va_id vault) (- old_bytes head) (sy_next db) db' \<and> 0 \<le> old_bytes head"
  proof (cases head)
    case None
    with 1 head_unwritten [OF t, of db' "en_id entry" "va_id vault"] show ?thesis by (simp add: old_bytes_def)
  next
    case (Some h)
    from find_head_Some [OF 1(3) [unfolded Some]] have h: "h \<in> set (sy_heads db)" "sh_sessionEntryId h = en_id entry" by simp_all
    with tables_head [OF t h(1) member] state(1) have hv: "sh_vaultId h = va_id vault" by simp
    have "0 \<le> sh_ciphertextBytes h" using t h(1) by (simp add: tables_ok_def)
    with head_deleted [OF t 1(3) [unfolded Some] hv] 1 Some show ?thesis by (simp add: old_bytes_def)
  qed
  show ?thesis
  proof (rule posted_acct [OF acct entry state(1) w])
    show "head_written db (en_id entry) (va_id vault) (- old_bytes head) (sy_next db) db'" using heads by blast
    show "new_events (en_id entry) (va_id vault) db db' []" by (simp add: new_events_def 1(8))
    show "new_change (va_id vault) db db' [] \<lparr>ch_id = sy_next db, ch_vaultId = va_id vault, ch_directoryVersion = directoryVersion,
       ch_directoryVersionOrderKey = orderKey, ch_kind = CK_retired, ch_sessionEntryId = en_id entry, ch_eventId = None,
       ch_createdAt = now\<rparr>" by (simp add: new_change_def 1(7,9))
    show "new_entry entry (?f entry) (- old_bytes head) [] db db'"
      using entries 1(4,5) by (simp add: new_entry_def retired_entry_def)
    show "new_vault entry (?f entry) vault (?g vault) (- old_bytes head) [] db db'"
      using vaults state(2) idle quota heads by (auto simp: new_vault_def retired_entry_def retired_vault_def vault_quota_def)
  qed
qed

lemma purge_keeps_state:
  assumes "purgeRetiringSessionEventPrefix vault entry through now maximumChanges db = Some (p, db')"
    and "get_row en_id (sy_entries db) i = Some e" and "get_row en_id (sy_entries db') i = Some e'"
    and t: "tables_ok db"
  shows "en_state e' = en_state e \<and> en_vaultId e' = en_vaultId e"
  using assms(1)
proof (cases rule: purge_cases)
  case 1
  with assms(2,3) show ?thesis by simp
next
  case (2 selected targetVersion key)
  from 2(3) show ?thesis
  proof (cases rule: purge_selected_cases)
    case (1 events deltas bytes n changes kept)
    from collect_events_ok [OF t 1(1) 2(1)] deltas_of_Nil have "distinct (map fst deltas)" by (simp add: deltas_of_def)
    from purge_deltas_map [OF this] 1(6) have "sy_entries db' = map (purged_entry now deltas) (sy_entries db)" by simp
    with assms(2,3) show ?thesis by (auto simp: get_row_map purged_entry_def discharge_def)
  qed
qed

lemma retire_target_cases:
  assumes "retire_target entryId now budget db = Some (stop, left, db')"
  obtains "db' = db"
  | (purged) entry vault through purge db1 where "get_row en_id (sy_entries db) entryId = Some entry"
      "get_row va_id (sy_vaults db) (en_vaultId entry) = Some vault" "live_pins db (va_id vault) now = []"
      "en_state entry = EN_reserved \<or> en_state entry = EN_tombstone"
      "purgeRetiringSessionEventPrefix vault entry through now budget db = Some (purge, db1)"
      "db' = db1 \<or> (\<exists>e w tombstone. get_row en_id (sy_entries db1) entryId = Some e \<and>
         get_row va_id (sy_vaults db1) (va_id vault) = Some w \<and> retire_writes w e tombstone now db1 = Some db')"
proof (cases "db' = db")
  case False
  obtain entry where entry: "get_row en_id (sy_entries db) entryId = Some entry"
    using assms False by (cases "get_row en_id (sy_entries db) entryId") (auto simp: retire_target_def)
  obtain vault where vault: "get_row va_id (sy_vaults db) (en_vaultId entry) = Some vault"
    using assms False entry by (cases "get_row va_id (sy_vaults db) (en_vaultId entry)") (auto simp: retire_target_def)
  note run = assms [unfolded retire_target_def entry vault option.case]
  let ?t = "if en_state entry = EN_tombstone then unique_row (filter (\<lambda>t. to_sessionEntryId t = en_id entry) (sy_tombstones db)) else Some None"
  from run False have open_state: "en_state entry \<noteq> EN_retired" and pins: "live_pins db (va_id vault) now = []" by (auto split: if_splits)
  obtain tombstone where tombstone: "?t = Some tombstone"
    using run False by (cases ?t) (auto split: if_splits)
  note run = run [unfolded tombstone Option.bind.simps]
  from run False tombstone have state: "en_state entry = EN_reserved \<or> en_state entry = EN_tombstone"
    by (auto split: if_splits option.splits)
  let ?p = "purgeRetiringSessionEventPrefix vault entry (map_option to_directoryVersion tombstone) now budget db"
  obtain purge db1 where p: "?p = Some (purge, db1)" using run False by (cases ?p) (auto split: if_splits)
  have "db' = db1 \<or> (\<exists>e w tombstone. get_row en_id (sy_entries db1) entryId = Some e \<and>
         get_row va_id (sy_vaults db1) (va_id vault) = Some w \<and> retire_writes w e tombstone now db1 = Some db')"
    using run False unfolding p
    by (cases purge) (auto simp: bind_eq_Some_conv split: if_splits option.splits)
  with purged [OF entry vault pins state p] show thesis by blast
qed (use that in blast)

lemma retire_target_acct:
  assumes acct: "acct material db" and run: "retire_target entryId now budget db = Some (stop, left, db')"
  shows "acct material db'"
  using run
proof (cases rule: retire_target_cases)
  case (purged entry vault through purge db1)
  from get_row_Some [OF purged(1)] get_row_Some [OF purged(2)]
  have ids: "en_id entry = entryId" "va_id vault = en_vaultId entry" by simp_all
  with purged(2) have "current vault db" by (simp add: current_def)
  from purge_acct [OF acct this purged(5)] have acct1: "acct material db1" .
  from purged(6) show ?thesis
  proof (elim disjE exE conjE)
    fix e w tombstone
    assume e: "get_row en_id (sy_entries db1) entryId = Some e" and w: "get_row va_id (sy_vaults db1) (va_id vault) = Some w"
      and written: "retire_writes w e tombstone now db1 = Some db'"
    from get_row_Some [OF e] get_row_Some [OF w] have new: "en_id e = entryId" "va_id w = va_id vault" by simp_all
    from purge_keeps_state [OF purged(5,1) e acct_tables [OF acct]] purged(4)
    have state: "en_state e = EN_reserved \<or> en_state e = EN_tombstone" "en_vaultId e = va_id w" using ids new by simp_all
    show ?thesis
      by (rule retire_writes_acct [OF acct1 _ _ state(2,1) written]) (use e w new in \<open>simp_all add: current_def\<close>)
  qed (use acct1 in simp)
qed (use acct in simp)

lemma retire_targets_acct:
  "acct material db \<Longrightarrow> retire_targets entryIds now budget db = Some db' \<Longrightarrow> acct material db'"
proof (induction entryIds arbitrary: budget db)
  case (Cons entryId entryIds)
  obtain stop left db1 where one: "retire_target entryId now budget db = Some (stop, left, db1)"
    using Cons.prems(2) by (cases "retire_target entryId now budget db") auto
  from retire_target_acct [OF Cons.prems(1) one] have acct1: "acct material db1" .
  show ?case
  proof (cases stop)
    case True
    with Cons.prems(2) one acct1 show ?thesis by simp
  next
    case False
    with Cons.prems(2) one have "retire_targets entryIds now left db1 = Some db'" by simp
    from Cons.IH [OF acct1 this] show ?thesis .
  qed
qed simp

subsection \<open>Runs\<close>

text \<open>
  One request or sweep. A request is authorised for a device and the vault it is bound to; its documents are
  those of the store. \<open>SS_boot\<close> is \<open>establishBoot\<close>; \<open>SS_pin\<close> is a snapshot opened or dropped by a reader.
  An envelope passed its schema: at least the sixteen bytes of its tag and one of text.
\<close>

datatype SyncStep =
    SS_boot nat BootRequest string
  | SS_reserve nat nat string string
  | SS_acquire nat nat WriterRequest
  | SS_publish nat nat SealedSessionSummary
  | SS_delete nat nat DeleteRequest
  | SS_retire
  | SS_pin "SnapshotPin list"

definition sealed_ok :: "SealedSessionSummary \<Rightarrow> bool" where
  "sealed_ok envelope \<longleftrightarrow> 17 \<le> sl_ciphertextBytes envelope \<and> sl_ciphertextBytes envelope \<le> 1040"

fun sync_step :: "SyncStep \<Rightarrow> int \<Rightarrow> SyncDb \<Rightarrow> SyncDb option" where
  "sync_step (SS_boot d request digest) now db = do {
     device \<leftarrow> get_row de_id (sy_devices db) d;
     map_option snd (establishBoot device request digest now db) }"
| "sync_step (SS_reserve w d sessionId digest) now db = do {
     vault \<leftarrow> get_row va_id (sy_vaults db) w; device \<leftarrow> get_row de_id (sy_devices db) d;
     map_option snd (reserveSession vault device sessionId digest now db) }"
| "sync_step (SS_acquire w d request) now db = do {
     vault \<leftarrow> get_row va_id (sy_vaults db) w; device \<leftarrow> get_row de_id (sy_devices db) d;
     map_option snd (acquireWriter vault device request now db) }"
| "sync_step (SS_publish w d envelope) now db = do {
     vault \<leftarrow> get_row va_id (sy_vaults db) w; device \<leftarrow> get_row de_id (sy_devices db) d;
     (if sealed_ok envelope then map_option snd (publishSession vault device envelope now db) else None) }"
| "sync_step (SS_delete w d request) now db = do {
     vault \<leftarrow> get_row va_id (sy_vaults db) w; device \<leftarrow> get_row de_id (sy_devices db) d;
     map_option snd (deleteSession vault device request now db) }"
| "sync_step SS_retire now db = retireExpiredSessions now db"
| "sync_step (SS_pin pins) now db = Some (db \<lparr>sy_pins := pins\<rparr>)"

fun sync_run :: "(SyncStep \<times> int) list \<Rightarrow> SyncDb \<Rightarrow> SyncDb option" where
  "sync_run [] db = Some db"
| "sync_run ((s, now) # steps) db = do { db1 \<leftarrow> sync_step s now db; sync_run steps db1 }"

lemma boot_shape: "establishBoot device request digest now db = Some (r, db') \<Longrightarrow>
  db' = db \<or> (\<exists>devices. db' = db \<lparr>sy_devices := devices\<rparr>)"
  by (auto simp: establishBoot_def Let_def split: option.splits sum.splits prod.splits if_splits)

lemma acct_rest: "acct material db \<Longrightarrow> acct material (db \<lparr>sy_devices := devices\<rparr>) \<and> acct material (db \<lparr>sy_pins := pins\<rparr>)"
  by (simp add: acct_def tables_ok_def entry_load_def vault_load_def count_entries_def)

lemma step_acct:
  assumes acct: "acct material db" and run: "sync_step s now db = Some db'"
  shows "acct material db'"
proof -
  have current: "get_row va_id (sy_vaults db) w = Some vault \<Longrightarrow> current vault db" for w vault
    using get_row_Some [of va_id "sy_vaults db" w vault] by (auto simp: current_def)
  show ?thesis
  proof (cases s)
    case (SS_boot d request digest)
    with run boot_shape acct_rest [OF acct] acct show ?thesis by (fastforce simp: bind_eq_Some_conv)
  next
    case (SS_reserve w d sessionId digest)
    with run show ?thesis by (auto simp: bind_eq_Some_conv intro: reserve_acct [OF acct] current)
  next
    case (SS_acquire w d request)
    with run show ?thesis by (auto simp: bind_eq_Some_conv intro: acquire_acct [OF acct])
  next
    case (SS_publish w d envelope)
    with run obtain vault device r where "get_row va_id (sy_vaults db) w = Some vault" and "0 \<le> sl_ciphertextBytes envelope"
      and "publishSession vault device envelope now db = Some (r, db')"
      by (auto simp: bind_eq_Some_conv sealed_ok_def split: if_splits)
    with publish_acct [OF acct current] show ?thesis by blast
  next
    case (SS_delete w d request)
    with run show ?thesis by (auto simp: bind_eq_Some_conv intro: delete_acct [OF acct current])
  next
    case SS_retire
    with run retire_targets_acct [OF acct] show ?thesis by (auto simp: retireExpiredSessions_def)
  next
    case (SS_pin pins)
    with run acct_rest [OF acct] show ?thesis by auto
  qed
qed

lemma run_acct: "acct material db \<Longrightarrow> sync_run steps db = Some db' \<Longrightarrow> acct material db'"
proof (induction steps arbitrary: db)
  case (Cons p steps)
  obtain s now where p: "p = (s, now)" by (cases p)
  with Cons.prems(2) obtain db1 where "sync_step s now db = Some db1" "sync_run steps db1 = Some db'"
    by (auto simp: bind_eq_Some_conv)
  with Cons.IH step_acct [OF Cons.prems(1)] show ?case by blast
qed simp

subsection \<open>The accounts\<close>

text \<open>A store before its first session: vaults may already retain their own key material.\<close>

definition fresh_db :: "SyncDb \<Rightarrow> bool" where
  "fresh_db db \<longleftrightarrow> sy_entries db = [] \<and> sy_events db = [] \<and> sy_heads db = [] \<and> sy_changes db = [] \<and>
     distinct (map va_id (sy_vaults db)) \<and>
     list_all (\<lambda>w. va_retainedEventCount w = 0 \<and> va_activeStreamCount w = 0 \<and> va_directorySessionCount w = 0 \<and>
       va_retainedCiphertextBytes w + va_compatibilityEvidenceCiphertextBytes w \<le> MAX_SYNC_RETAINED_CIPHERTEXT_BYTES)
       (sy_vaults db)"

definition key_material :: "SyncDb \<Rightarrow> nat \<Rightarrow> int" where
  "key_material db i = (case get_row va_id (sy_vaults db) i of None \<Rightarrow> 0 | Some w \<Rightarrow> va_retainedCiphertextBytes w)"

lemma fresh_acct: "fresh_db db \<Longrightarrow> acct (key_material db) db"
proof -
  assume fresh: "fresh_db db"
  have "key_material db (va_id w) = va_retainedCiphertextBytes w" if "w \<in> set (sy_vaults db)" for w
    using fresh get_row_mem [OF _ that] by (simp add: key_material_def fresh_db_def)
  with fresh show ?thesis
    by (simp add: acct_def fresh_db_def tables_ok_def vault_load_def vault_quota_def count_entries_def list_all_iff
        MAX_SYNC_RETAINED_EVENTS_def MAX_SYNC_ACTIVE_STREAMS_def MAX_SYNC_DIRECTORY_SESSIONS_def)
qed

definition sample_vault :: SyncVault where
  "sample_vault = \<lparr>va_id = 0, va_tenantId = ''t'', va_organizationCoordinate = ''o'', va_ownerUserCoordinate = ''u'',
     va_vaultId = ''v'', va_vaultGeneration = ''1'', va_active = True, va_membershipEpoch = ''1'', va_rootKeyEpoch = ''1'',
     va_directoryVersion = ''0'', va_directoryVersionOrderKey = ''00000000000000000000'', va_changeFloorVersion = ''0'',
     va_nextDirectoryOrdinal = ''0'', va_activeDeviceCount = 1, va_directorySessionCount = 0, va_activeStreamCount = 0,
     va_retainedEventCount = 0, va_retainedCiphertextBytes = 96, va_compatibilityEvidenceCiphertextBytes = 0,
     va_updatedAt = 0\<rparr>"

definition sample_device :: SyncDevice where
  "sample_device = \<lparr>de_id = 0, de_deviceId = ''d'', de_bootId = Some ''b'', de_bootGeneration = Some ''1'',
     de_bootEstablishRequestDigest = Some ''q'', de_heartbeatSequence = Some ''1'', de_lastHeartbeatAt = Some 0, de_updatedAt = 0\<rparr>"

definition sample_db :: SyncDb where
  "sample_db = \<lparr>sy_next = 1, sy_vaults = [sample_vault], sy_devices = [sample_device], sy_entries = [], sy_events = [],
     sy_heads = [], sy_changes = [], sy_pins = [], sy_tombstones = []\<rparr>"

definition sample_envelope :: "string \<Rightarrow> SyncEventKind \<Rightarrow> string option \<Rightarrow> string option \<Rightarrow> int \<Rightarrow> SealedSessionSummary" where
  "sample_envelope n kind previous grant bytes =
     \<lparr>sl_header = \<lparr>hd_tenantId = ''t'', hd_organizationId = ''o'', hd_ownerUserId = ''u'', hd_vaultId = ''v'',
        hd_vaultGeneration = ''1'', hd_membershipEpoch = ''1'', hd_originDeviceId = ''d'', hd_sessionId = ''s'',
        hd_mirrorEpoch = ''1'', hd_writerGeneration = ''1'', hd_bootId = ''b'', hd_bootGeneration = ''1'',
        hd_directoryOrdinal = ''1'', hd_keyEpoch = ''1'', hd_syncSequence = n, hd_sourceRevision = n,
        hd_eventKind = kind, hd_previousDigest = previous, hd_creationGrantDigest = grant\<rparr>,
      sl_ciphertext = ''c'', sl_ciphertextBytes = bytes, sl_ciphertextDigest = n\<rparr>"

definition sample_steps :: "(SyncStep \<times> int) list" where
  "sample_steps =
     [(SS_reserve 0 0 ''s'' ''g'', 10),
      (SS_acquire 0 0 \<lparr>wq_sessionId = ''s'', wq_bootId = ''b'', wq_bootGeneration = ''1'',
         wq_acknowledgedMirrorEpoch = ''1'', wq_acknowledgedSequence = ''0'', wq_acknowledgedDigest = None\<rparr>, 20),
      (SS_publish 0 0 (sample_envelope ''1'' SE_created None (Some ''g'') 40), 30),
      (SS_publish 0 0 (sample_envelope ''2'' SE_turn_started (Some ''1'') None 50), 40)]"

text \<open>
  C11. Retention accounting. After any sequence of boots, reservations, writer acquisitions, publications,
  deletions, retirement sweeps and snapshots, from a store without sessions, the counters of a vault are
  exact: the events, the ciphertext (its own key material, its events and its heads), the open streams and
  the unretired sessions that are in the store. All four stay within their quotas.
\<close>

theorem retention_accounted:
  assumes "fresh_db db0" and "sync_run steps db0 = Some db" and "vault \<in> set (sy_vaults db)"
  shows "va_retainedEventCount vault = int (length (filter (\<lambda>v. ve_vaultId v = va_id vault) (sy_events db))) \<and>
    va_retainedCiphertextBytes vault = key_material db0 (va_id vault) +
      sum_list (map ve_ciphertextBytes (filter (\<lambda>v. ve_vaultId v = va_id vault) (sy_events db))) +
      sum_list (map sh_ciphertextBytes (filter (\<lambda>h. sh_vaultId h = va_id vault) (sy_heads db))) \<and>
    va_activeStreamCount vault = int (length (filter (\<lambda>e. en_vaultId e = va_id vault \<and> en_streamActive e) (sy_entries db))) \<and>
    va_directorySessionCount vault =
      int (length (filter (\<lambda>e. en_vaultId e = va_id vault \<and> en_state e \<noteq> EN_retired) (sy_entries db))) \<and>
    va_retainedEventCount vault \<le> MAX_SYNC_RETAINED_EVENTS \<and>
    va_retainedCiphertextBytes vault + va_compatibilityEvidenceCiphertextBytes vault \<le> MAX_SYNC_RETAINED_CIPHERTEXT_BYTES \<and>
    va_activeStreamCount vault \<le> MAX_SYNC_ACTIVE_STREAMS \<and> va_directorySessionCount vault \<le> MAX_SYNC_DIRECTORY_SESSIONS"
  using acct_vault [OF run_acct [OF fresh_acct [OF assms(1)] assms(2)] assms(3)]
  by (simp add: vault_load_def vault_quota_def ev_count_def ev_bytes_def hd_bytes_def count_entries_def)

theorem retention_accounted_witness:
  "list_all (\<lambda>vault. va_retainedEventCount vault = int (length (filter (\<lambda>v. ve_vaultId v = va_id vault)
     (sy_events (the (sync_run sample_steps sample_db)))))) (sy_vaults (the (sync_run sample_steps sample_db))) \<and>
   map va_retainedEventCount (sy_vaults (the (sync_run sample_steps sample_db))) = [2]"
proof -
  have fresh: "fresh_db sample_db" by code_simp
  have counts: "\<not> Option.is_none (sync_run sample_steps sample_db) \<and>
    map va_retainedEventCount (sy_vaults (the (sync_run sample_steps sample_db))) = [2]" by code_simp
  then obtain db where db: "sync_run sample_steps sample_db = Some db" by (cases "sync_run sample_steps sample_db") simp_all
  have "list_all (\<lambda>vault. va_retainedEventCount vault = int (length (filter (\<lambda>v. ve_vaultId v = va_id vault) (sy_events db)))) (sy_vaults db)"
    unfolding list_all_iff using retention_accounted [OF fresh db] by blast
  with counts db show ?thesis by simp
qed

text \<open>
  C16. A session is charged exactly its retained events and its head, and only an active session streams.
\<close>

theorem session_accounted:
  assumes "fresh_db db0" and "sync_run steps db0 = Some db" and "entry \<in> set (sy_entries db)"
  shows "en_retainedEventCount entry = int (length (filter (\<lambda>v. ve_sessionEntryId v = en_id entry) (sy_events db))) \<and>
    en_retainedCiphertextBytes entry =
      sum_list (map ve_ciphertextBytes (filter (\<lambda>v. ve_sessionEntryId v = en_id entry) (sy_events db))) +
      sum_list (map sh_ciphertextBytes (filter (\<lambda>h. sh_sessionEntryId h = en_id entry) (sy_heads db))) \<and>
    (if en_streamActive entry then en_state entry = EN_active else True)"
  using acct_entry [OF run_acct [OF fresh_acct [OF assms(1)] assms(2)] assms(3)]
  by (simp add: entry_load_def ev_count_def ev_bytes_def hd_bytes_def)

theorem session_accounted_witness:
  "list_all (\<lambda>entry. en_retainedEventCount entry = int (length (filter (\<lambda>v. ve_sessionEntryId v = en_id entry)
     (sy_events (the (sync_run sample_steps sample_db)))))) (sy_entries (the (sync_run sample_steps sample_db))) \<and>
   map en_retainedCiphertextBytes (sy_entries (the (sync_run sample_steps sample_db))) = [140]"
proof -
  have fresh: "fresh_db sample_db" by code_simp
  have counts: "\<not> Option.is_none (sync_run sample_steps sample_db) \<and>
    map en_retainedCiphertextBytes (sy_entries (the (sync_run sample_steps sample_db))) = [140]" by code_simp
  then obtain db where db: "sync_run sample_steps sample_db = Some db" by (cases "sync_run sample_steps sample_db") simp_all
  have "list_all (\<lambda>entry. en_retainedEventCount entry = int (length (filter (\<lambda>v. ve_sessionEntryId v = en_id entry) (sy_events db)))) (sy_entries db)"
    unfolding list_all_iff using session_accounted [OF fresh db] by blast
  with counts db show ?thesis by simp
qed

end
