(* ===== verification/SessionDirectory.thy ===== *)
theory SessionDirectory
  imports SessionRetention
begin

text \<open>
  The directory of a vault: what a publication must carry to be accepted, the versions of the retained
  directory changes, and what a live snapshot keeps from being pruned.
\<close>

subsection \<open>Admission\<close>

lemma decode_eq: "decodeSyncUint64 s = Some n \<longleftrightarrow> encodeSyncUint64 n = Some s"
  by (simp add: encode_decode)

lemma next_numeric:
  "nextRequiredSyncUint64 s = Some t \<longleftrightarrow> (\<exists>n. decodeSyncUint64 s = Some n \<and> decodeSyncUint64 t = Some (n + 1))"
proof (cases "decodeSyncUint64 s")
  case (Some n)
  have "decodeSyncUint64 t \<noteq> Some (SYNC_UINT64_MAX + 1)" by (auto simp: decodeSyncUint64_def is_sync_uint64_def split: if_splits)
  moreover have "nextRequiredSyncUint64 s = Some t \<longleftrightarrow> n \<noteq> SYNC_UINT64_MAX \<and> encodeSyncUint64 (n + 1) = Some t"
    using Some by (auto simp: nextRequiredSyncUint64_def nextSyncUint64_def split: option.splits)
  ultimately show ?thesis using Some by (auto simp: encode_decode)
qed (simp add: nextRequiredSyncUint64_def nextSyncUint64_def)

lemma decode_unique: "decodeSyncUint64 s = Some n \<Longrightarrow> decodeSyncUint64 t = Some n \<Longrightarrow> s = t"
  unfolding decode_eq by simp

lemma admitted_chain:
  "decideSessionPublication stored envelope args = Some PD_accept \<Longrightarrow>
     nextRequiredSyncUint64 (en_currentSequence stored) = Some (hd_syncSequence (sl_header envelope)) \<and>
     hd_previousDigest (sl_header envelope) = en_currentDigest stored"
  by (auto simp: decideSessionPublication_def Let_def split: option.splits if_splits)

text \<open>
  C15. Admission of a publication. An envelope is accepted exactly when it names the tenant, organization,
  owner, vault and generation of the vault, the session's origin and ordinal, the current membership, key
  and mirror epochs, the writer generation and boot that hold the session, the successor of the current
  sequence, the current digest as its predecessor and a source revision not before the current one; a
  reserved session takes only the first event, within its grant, and an active one no further creation.
\<close>

theorem publication_admitted_iff:
  "decideSessionPublication stored envelope args = Some PD_accept \<longleftrightarrow>
    (let header = sl_header envelope in
     hd_tenantId header = pa_tenantId args \<and> hd_organizationId header = pa_organizationId args \<and>
     hd_ownerUserId header = pa_ownerUserId args \<and> hd_vaultId header = pa_vaultId args \<and>
     hd_vaultGeneration header = pa_vaultGeneration args \<and>
     hd_originDeviceId header = en_originDevicePublicId stored \<and> hd_originDeviceId header = pa_currentDeviceId args \<and>
     hd_directoryOrdinal header = en_directoryOrdinal stored \<and>
     hd_membershipEpoch header = pa_currentMembershipEpoch args \<and> hd_keyEpoch header = pa_currentRootKeyEpoch args \<and>
     hd_mirrorEpoch header = en_mirrorEpoch stored \<and> hd_writerGeneration header = en_writerGeneration stored \<and>
     en_writerBootId stored = Some (hd_bootId header) \<and> en_writerBootGeneration stored = Some (hd_bootGeneration header) \<and>
     hd_bootId header = pa_currentBootId args \<and> hd_bootGeneration header = pa_currentBootGeneration args \<and>
     (\<exists>n. decodeSyncUint64 (en_currentSequence stored) = Some n \<and> decodeSyncUint64 (hd_syncSequence header) = Some (n + 1)) \<and>
     hd_previousDigest header = en_currentDigest stored \<and>
     (\<exists>old new. decodeSyncUint64 (en_currentSourceRevision stored) = Some old \<and>
        decodeSyncUint64 (hd_sourceRevision header) = Some new \<and> old \<le> new) \<and>
     (if en_state stored = EN_reserved
      then pa_now args \<le> en_creationGrantExpiresAt stored \<and> hd_eventKind header = SE_created \<and> hd_syncSequence header = ''1'' \<and>
        hd_previousDigest header = None \<and> hd_creationGrantDigest header = Some (en_creationGrantDigest stored)
      else en_state stored = EN_active \<and> hd_eventKind header \<noteq> SE_created \<and> hd_eventKind header \<noteq> SE_deleted \<and>
        hd_creationGrantDigest header = None))"
proof -
  let ?h = "sl_header envelope"
  have fresh: "hd_syncSequence ?h \<noteq> en_currentSequence stored"
    if "nextRequiredSyncUint64 (en_currentSequence stored) = Some (hd_syncSequence ?h)"
    using that by (auto simp: next_numeric)
  show ?thesis
    unfolding Let_def next_numeric [symmetric]
    using fresh
    by (cases "en_state stored")
      (auto simp: decideSessionPublication_def Let_def split: option.splits if_splits)
qed

subsection \<open>Versions\<close>

definition version_of :: "DirectoryChange \<Rightarrow> nat" where
  "version_of c = read_digits (ch_directoryVersion c)"

definition changes_in :: "nat \<Rightarrow> SyncDb \<Rightarrow> DirectoryChange list" where
  "changes_in i db = filter (\<lambda>c. ch_vaultId c = i) (sy_changes db)"

text \<open>The changes of a vault, in the order they were written, are the versions above its floor.\<close>

definition directory_of :: "SyncVault \<Rightarrow> DirectoryChange list \<Rightarrow> bool" where
  "directory_of w cs \<longleftrightarrow> is_sync_uint64 (va_directoryVersion w) \<and> is_sync_uint64 (va_changeFloorVersion w) \<and>
     read_digits (va_changeFloorVersion w) \<le> read_digits (va_directoryVersion w) \<and>
     map version_of cs = [Suc (read_digits (va_changeFloorVersion w)) ..< Suc (read_digits (va_directoryVersion w))] \<and>
     list_all (\<lambda>c. is_sync_uint64 (ch_directoryVersion c) \<and>
       syncUint64OrderKey (ch_directoryVersion c) = Some (ch_directoryVersionOrderKey c)) cs"

definition dir_ok :: "SyncDb \<Rightarrow> bool" where
  "dir_ok db \<longleftrightarrow> (\<forall>w\<in>set (sy_vaults db). directory_of w (changes_in (va_id w) db))"

lemma key_order:
  assumes "is_sync_uint64 s" and "is_sync_uint64 t" and "syncUint64OrderKey s = Some ks" and "syncUint64OrderKey t = Some kt"
  shows "ks \<le> kt \<longleftrightarrow> read_digits s \<le> read_digits t"
proof -
  have "decodeSyncUint64 s = Some (int (read_digits s))" "decodeSyncUint64 t = Some (int (read_digits t))"
    using assms(1,2) by (simp_all add: decodeSyncUint64_def)
  from order_key_less [OF this(2,1)] assms(3,4) show ?thesis by (auto simp flip: not_less)
qed

lemma sorted_changes:
  assumes "directory_of w cs"
  shows "sorted (map ch_directoryVersionOrderKey cs)"
proof -
  have "sorted (map version_of cs)" using assms by (simp add: directory_of_def del: upt_Suc)
  then have ascending: "sorted_wrt (\<lambda>c d. version_of c \<le> version_of d) cs" by (simp only: sorted_wrt_map)
  have "ch_directoryVersionOrderKey c \<le> ch_directoryVersionOrderKey d"
    if "c \<in> set cs" "d \<in> set cs" "version_of c \<le> version_of d" for c d
  proof (rule key_order [THEN iffD2])
    show "is_sync_uint64 (ch_directoryVersion c)" "is_sync_uint64 (ch_directoryVersion d)"
      "syncUint64OrderKey (ch_directoryVersion c) = Some (ch_directoryVersionOrderKey c)"
      "syncUint64OrderKey (ch_directoryVersion d) = Some (ch_directoryVersionOrderKey d)"
      using assms that(1,2) by (simp_all add: directory_of_def list_all_iff)
    show "read_digits (ch_directoryVersion c) \<le> read_digits (ch_directoryVersion d)" using that(3) by (simp add: version_of_def)
  qed
  with ascending show ?thesis unfolding sorted_wrt_map by (rule sorted_wrt_mono_rel [rotated])
qed

lemma dir_changes:
  assumes "dir_ok db" and "w \<in> set (sy_vaults db)"
  shows "vault_changes db (va_id w) = changes_in (va_id w) db"
proof -
  from assms have "directory_of w (changes_in (va_id w) db)" by (simp add: dir_ok_def)
  from sort_key_id_if_sorted [OF sorted_changes [OF this]] show ?thesis by (simp add: vault_changes_def changes_in_def)
qed

lemma get_next: "nextRequiredSyncUint64 s = Some t \<Longrightarrow> is_sync_uint64 s \<and> is_sync_uint64 t \<and> read_digits t = Suc (read_digits s)"
  by (auto simp: next_numeric decodeSyncUint64_def split: if_splits)

text \<open>Writing the next version, and taking a prefix away.\<close>

lemma directory_insert:
  assumes "directory_of w cs" and "nextRequiredSyncUint64 (va_directoryVersion w) = Some (ch_directoryVersion c)"
    and "syncUint64OrderKey (ch_directoryVersion c) = Some (ch_directoryVersionOrderKey c)"
    and "va_directoryVersion w' = ch_directoryVersion c" and "va_changeFloorVersion w' = va_changeFloorVersion w"
  shows "directory_of w' (cs @ [c])"
  using assms get_next [OF assms(2)] by (simp add: directory_of_def version_of_def)

lemma directory_drop:
  assumes dir: "directory_of w cs" and k: "k \<le> length cs"
    and floor: "va_changeFloorVersion w' = (if k = 0 then va_changeFloorVersion w else ch_directoryVersion (last (take k cs)))"
    and same: "va_directoryVersion w' = va_directoryVersion w"
  shows "directory_of w' (drop k cs)"
proof (cases "k = 0")
  case True
  with assms show ?thesis by (simp add: directory_of_def)
next
  case False
  let ?f = "read_digits (va_changeFloorVersion w)" and ?v = "read_digits (va_directoryVersion w)"
  from dir have versions: "map version_of cs = [Suc ?f ..< Suc ?v]" by (simp add: directory_of_def del: upt_Suc)
  have len: "length cs = ?v - ?f" using arg_cong [OF versions, of length] by (simp del: upt_Suc)
  have last: "last (take k cs) = cs ! (k - 1)" using False k by (subst last_conv_nth) (auto simp: min_def)
  have "version_of (cs ! (k - 1)) = map version_of cs ! (k - 1)" using False k by simp
  also have "\<dots> = ?f + k" unfolding versions using False k len by (simp del: upt_Suc)
  finally have at: "version_of (cs ! (k - 1)) = ?f + k" .
  have floor': "va_changeFloorVersion w' = ch_directoryVersion (cs ! (k - 1))" using floor False last by simp
  have "map version_of (drop k cs) = drop k (map version_of cs)" by (simp add: drop_map)
  then have "map version_of (drop k cs) = [Suc (read_digits (va_changeFloorVersion w')) ..< Suc (read_digits (va_directoryVersion w'))]"
    unfolding versions floor' same using at by (simp add: version_of_def del: upt_Suc)
  moreover have "is_sync_uint64 (ch_directoryVersion (cs ! (k - 1)))"
    using dir False k by (auto simp: directory_of_def list_all_length)
  ultimately show ?thesis
    using dir at len k same floor' set_drop_subset [of k cs]
    by (auto simp: directory_of_def version_of_def list_all_iff simp del: upt_Suc)
qed

subsection \<open>Steps of the directory\<close>

lemma delete_rows_filter: "delete_rows key is rows = Some rest \<Longrightarrow> rest = filter (\<lambda>r. key r \<notin> set is) rows"
proof (induction "is" arbitrary: rows)
  case (Cons i "is")
  then obtain mid where mid: "delete_row key i rows = Some mid" "delete_rows key is mid = Some rest"
    by (auto split: Option.bind_splits)
  from mid(1) have "mid = filter (\<lambda>r. key r \<noteq> i) rows" by (auto simp: delete_row_def split: option.splits)
  with Cons.IH [OF mid(2)] show ?case by (auto intro: filter_cong)
qed simp

lemma filter_prefix:
  assumes "distinct (map key xs)"
  shows "filter (\<lambda>r. key r \<notin> key ` set (take k xs)) xs = drop k xs"
proof -
  have "distinct (map key (take k xs @ drop k xs))" using assms by simp
  then have apart: "key ` set (take k xs) \<inter> key ` set (drop k xs) = {}" by (simp only: map_append distinct_append set_map)
  have "filter (\<lambda>r. key r \<notin> key ` set (take k xs)) (take k xs @ drop k xs) = drop k xs"
    unfolding filter_append using apart by (auto simp: filter_empty_conv filter_id_conv)
  then show ?thesis by simp
qed

lemma changes_dropped:
  assumes t: "tables_ok db" and run: "delete_rows ch_id (map ch_id (take k (changes_in i db))) (sy_changes db) = Some (sy_changes db')"
  shows "changes_in i db' = drop k (changes_in i db)" and "j \<noteq> i \<Longrightarrow> changes_in j db' = changes_in j db"
proof -
  have rest: "sy_changes db' = filter (\<lambda>c. ch_id c \<notin> ch_id ` set (take k (changes_in i db))) (sy_changes db)"
    using delete_rows_filter [OF run] by simp
  have ids: "distinct (map ch_id (sy_changes db))" using tables_distinct [OF t] by blast
  have "distinct (map ch_id (changes_in i db))" unfolding changes_in_def by (rule distinct_map_filter [OF ids])
  from filter_prefix [OF this, of k] show "changes_in i db' = drop k (changes_in i db)"
    unfolding changes_in_def [of _ db'] rest by (simp add: changes_in_def conj_commute)
  have "ch_id c \<notin> ch_id ` set (take k (changes_in i db))" if "c \<in> set (sy_changes db)" "ch_vaultId c \<noteq> i" for c
  proof
    assume "ch_id c \<in> ch_id ` set (take k (changes_in i db))"
    then obtain d where d: "d \<in> set (changes_in i db)" "ch_id d = ch_id c" by (auto dest: in_set_takeD)
    then have "d \<in> set (sy_changes db)" "ch_vaultId d = i" by (simp_all add: changes_in_def)
    with ids d(2) that show False by (auto simp: distinct_map dest: inj_onD)
  qed
  then show "changes_in j db' = changes_in j db" if "j \<noteq> i"
    unfolding changes_in_def [of j] rest using that by (auto intro!: filter_cong)
qed

lemma dir_step:
  assumes dir: "dir_ok db" and w: "get_row va_id (sy_vaults db) (va_id w) = Some w"
    and vaults: "sy_vaults db' = map (\<lambda>x. if va_id x = va_id w then w' else x) (sy_vaults db)" and id: "va_id w' = va_id w"
    and other: "\<And>j. j \<noteq> va_id w \<Longrightarrow> changes_in j db' = changes_in j db"
    and mine: "directory_of w' (changes_in (va_id w) db')"
  shows "dir_ok db'"
  using dir mine other id by (auto simp: dir_ok_def vaults)

lemma dir_vault: "dir_ok db \<Longrightarrow> current w db \<Longrightarrow> directory_of w (changes_in (va_id w) db)"
  using get_row_Some [of va_id "sy_vaults db" "va_id w" w] by (simp add: dir_ok_def current_def)

lemma changes_in_snoc:
  "sy_changes db' = sy_changes db @ [c] \<Longrightarrow> changes_in j db' = changes_in j db @ (if ch_vaultId c = j then [c] else [])"
  by (simp add: changes_in_def)

lemma dir_insert:
  assumes dir: "dir_ok db" and w: "current w db"
    and vaults: "sy_vaults db' = map (\<lambda>x. if va_id x = va_id w then w' else x) (sy_vaults db)" and id: "va_id w' = va_id w"
    and changes: "sy_changes db' = sy_changes db @ [c]" and c: "ch_vaultId c = va_id w"
    and v: "nextRequiredSyncUint64 (va_directoryVersion w) = Some (ch_directoryVersion c)"
    and k: "syncUint64OrderKey (ch_directoryVersion c) = Some (ch_directoryVersionOrderKey c)"
    and w': "va_directoryVersion w' = ch_directoryVersion c" "va_changeFloorVersion w' = va_changeFloorVersion w"
  shows "dir_ok db'"
proof (rule dir_step [OF dir w [unfolded current_def] vaults id])
  show "changes_in j db' = changes_in j db" if "j \<noteq> va_id w" for j
    using that c by (simp add: changes_in_snoc [OF changes])
  show "directory_of w' (changes_in (va_id w) db')"
    using directory_insert [OF dir_vault [OF dir w] v k w'] c by (simp add: changes_in_snoc [OF changes])
qed

lemma dir_drop:
  assumes dir: "dir_ok db" and w: "current w db" and t: "tables_ok db"
    and vaults: "sy_vaults db' = map (\<lambda>x. if va_id x = va_id w then w' else x) (sy_vaults db)" and id: "va_id w' = va_id w"
    and k: "k \<le> length (changes_in (va_id w) db)"
    and run: "delete_rows ch_id (map ch_id (take k (changes_in (va_id w) db))) (sy_changes db) = Some (sy_changes db')"
    and floor: "va_changeFloorVersion w' =
      (if k = 0 then va_changeFloorVersion w else ch_directoryVersion (last (take k (changes_in (va_id w) db))))"
    and same: "va_directoryVersion w' = va_directoryVersion w"
  shows "dir_ok db'"
proof (rule dir_step [OF dir w [unfolded current_def] vaults id])
  show "changes_in j db' = changes_in j db" if "j \<noteq> va_id w" for j by (rule changes_dropped(2) [OF t run that])
  show "directory_of w' (changes_in (va_id w) db')"
    unfolding changes_dropped(1) [OF t run] by (rule directory_drop [OF dir_vault [OF dir w] k floor same])
qed

subsection \<open>Prunes take a prefix, up to the oldest live snapshot\<close>

definition not_after :: "string \<Rightarrow> string \<Rightarrow> bool" where
  "not_after s t \<longleftrightarrow> s = t \<or> (\<exists>m n. decodeSyncUint64 s = Some m \<and> decodeSyncUint64 t = Some n \<and> m \<le> n)"

lemma compare_numeric:
  "compareSyncUint64 s t = Some order \<Longrightarrow> \<exists>m n. decodeSyncUint64 s = Some m \<and> decodeSyncUint64 t = Some n \<and>
     (order < 0 \<longleftrightarrow> m < n) \<and> (order > 0 \<longleftrightarrow> n < m)"
  by (auto simp: compareSyncUint64_def Let_def split: option.splits if_splits)

lemma not_after_trans: "not_after s t \<Longrightarrow> not_after t u \<Longrightarrow> not_after s u"
  by (auto simp: not_after_def)

lemma not_after_refl [simp]: "not_after s s"
  by (simp add: not_after_def)

lemma oldest_pin_le:
  "oldest_pin pins acc = Some r \<Longrightarrow>
     (\<forall>v. acc = Some v \<longrightarrow> (\<exists>u. r = Some u \<and> not_after u v)) \<and>
     (\<forall>p\<in>set pins. \<exists>u. r = Some u \<and> not_after u (pi_snapshotVersion p))"
proof (induction pins acc rule: oldest_pin.induct)
  case (2 pin pins acc)
  show ?case
  proof (cases acc)
    case None
    with 2 show ?thesis by auto
  next
    case (Some v)
    with 2(3) obtain order where order: "compareSyncUint64 (pi_snapshotVersion pin) v = Some order"
      and run: "oldest_pin pins (if order < 0 then Some (pi_snapshotVersion pin) else acc) = Some r"
      by (auto split: Option.bind_splits)
    from 2(2) [OF Some order run] obtain u where u: "r = Some u" "\<forall>p\<in>set pins. not_after u (pi_snapshotVersion p)"
      and le: "not_after u (if order < 0 then pi_snapshotVersion pin else v)" by (cases "order < 0") (auto simp: Some)
    from compare_numeric [OF order] have "not_after (if order < 0 then pi_snapshotVersion pin else v) v"
      "not_after (if order < 0 then pi_snapshotVersion pin else v) (pi_snapshotVersion pin)"
      by (auto simp: not_after_def)
    with le u Some show ?thesis by (auto intro: not_after_trans)
  qed
qed simp

lemma beyond_pin_False: "beyond_pin (Some v) c = Some False \<Longrightarrow>
  \<exists>m n. decodeSyncUint64 (ch_directoryVersion c) = Some m \<and> decodeSyncUint64 v = Some n \<and> m \<le> n"
  using compare_numeric [of "ch_directoryVersion c" v] by (auto simp: beyond_pin_def)

lemma plan_change_fields: "plan_change db change plan = Some plan1 \<Longrightarrow>
  pp_changes plan1 = pp_changes plan @ [change] \<and> pp_changeFloorVersion plan1 = ch_directoryVersion change"
  by (auto simp: plan_change_def Let_def split: option.splits Option.bind_splits)

lemma plan_changes_prefix:
  "plan_changes db vault needed pruneThrough changes plan = Some plan' \<Longrightarrow>
   \<exists>k \<le> length changes. pp_changes plan' = pp_changes plan @ take k changes \<and>
     pp_changeFloorVersion plan' = (if k = 0 then pp_changeFloorVersion plan else ch_directoryVersion (last (take k changes))) \<and>
     (\<forall>c\<in>set (take k changes). beyond_pin pruneThrough c = Some False)"
proof (induction changes arbitrary: plan)
  case (Cons change changes)
  obtain beyond where beyond: "beyond_pin pruneThrough change = Some beyond"
    using Cons.prems by (cases "beyond_pin pruneThrough change") simp_all
  show ?case
  proof (cases beyond)
    case True
    with Cons.prems beyond show ?thesis by (intro exI [of _ 0]) simp
  next
    case False
    obtain plan1 where plan1: "plan_change db change plan = Some plan1"
      using Cons.prems beyond False by (cases "plan_change db change plan") simp_all
    note fields = plan_change_fields [OF plan1]
    show ?thesis
    proof (cases "eventQuotaFits vault (pp_retainedEventCount plan1) (pp_retainedCiphertextBytes plan1) needed")
      case True
      with Cons.prems beyond False plan1 fields show ?thesis by (intro exI [of _ 1]) simp
    next
      case unfit: False
      with Cons.prems beyond False plan1
      have "plan_changes db vault needed pruneThrough changes plan1 = Some plan'" by simp
      from Cons.IH [OF this] obtain k where "k \<le> length changes" "pp_changes plan' = pp_changes plan1 @ take k changes"
        "pp_changeFloorVersion plan' = (if k = 0 then pp_changeFloorVersion plan1 else ch_directoryVersion (last (take k changes)))"
        "\<forall>c\<in>set (take k changes). beyond_pin pruneThrough c = Some False" by blast
      with fields beyond False show ?thesis by (intro exI [of _ "Suc k"]) auto
    qed
  qed
qed (simp add: exI [of _ 0])

lemma planned_prefix:
  assumes dir: "dir_ok db" and w: "current vault db"
    and plan: "planEventPrefixPrune db vault needed now = Some (Some (sufficient, plan))"
  obtains k where "k \<le> length (changes_in (va_id vault) db)" "pp_changes plan = take k (changes_in (va_id vault) db)"
    "pp_changeFloorVersion plan =
      (if k = 0 then va_changeFloorVersion vault else ch_directoryVersion (last (take k (changes_in (va_id vault) db))))"
    "\<forall>c\<in>set (pp_changes plan). \<forall>pin\<in>set (live_pins db (va_id vault) now).
      \<exists>m n. decodeSyncUint64 (ch_directoryVersion c) = Some m \<and> decodeSyncUint64 (pi_snapshotVersion pin) = Some n \<and> m \<le> n"
proof (cases "eventQuotaFits vault (va_retainedEventCount vault) (va_retainedCiphertextBytes vault) needed")
  case True
  with plan have "plan = empty_plan vault" by (simp add: planEventPrefixPrune_def)
  with that [of 0] show thesis by (simp add: empty_plan_def)
next
  case False
  with plan obtain through where
    through: "oldest_pin (live_pins db (va_id vault) now) None = Some through" and
    run: "plan_changes db vault needed through (take PRUNE_CHANGE_LIMIT (vault_changes db (va_id vault))) (empty_plan vault) = Some plan"
    by (auto simp: planEventPrefixPrune_def Let_def split: Option.bind_splits if_splits)
  let ?cs = "changes_in (va_id vault) db"
  have "vault \<in> set (sy_vaults db)" using w get_row_Some by (fastforce simp: current_def)
  from dir_changes [OF dir this] run
  have "plan_changes db vault needed through (take PRUNE_CHANGE_LIMIT ?cs) (empty_plan vault) = Some plan" by simp
  from plan_changes_prefix [OF this] obtain k where k: "k \<le> length (take PRUNE_CHANGE_LIMIT ?cs)"
    and pp: "pp_changes plan = take k (take PRUNE_CHANGE_LIMIT ?cs)"
    and floor: "pp_changeFloorVersion plan = (if k = 0 then va_changeFloorVersion vault
      else ch_directoryVersion (last (take k (take PRUNE_CHANGE_LIMIT ?cs))))"
    and unpinned: "\<forall>c\<in>set (take k (take PRUNE_CHANGE_LIMIT ?cs)). beyond_pin through c = Some False"
    by (auto simp: empty_plan_def)
  from k have min: "min k PRUNE_CHANGE_LIMIT = k" "k \<le> length ?cs" by simp_all
  have "\<exists>m n. decodeSyncUint64 (ch_directoryVersion c) = Some m \<and> decodeSyncUint64 (pi_snapshotVersion pin) = Some n \<and> m \<le> n"
    if c: "c \<in> set (pp_changes plan)" and pin: "pin \<in> set (live_pins db (va_id vault) now)" for c pin
  proof -
    from oldest_pin_le [OF through] pin obtain u where u: "through = Some u" "not_after u (pi_snapshotVersion pin)" by blast
    from unpinned c pp have "beyond_pin (Some u) c = Some False" by (simp add: u(1))
    from beyond_pin_False [OF this] u(2) show ?thesis by (auto simp: not_after_def)
  qed
  with min pp floor show thesis by (intro that [of k]) simp_all
qed

subsection \<open>Requests and sweeps\<close>

definition after_pin :: "DirectoryChange \<Rightarrow> SnapshotPin \<Rightarrow> bool" where
  "after_pin c pin \<longleftrightarrow> (case (decodeSyncUint64 (ch_directoryVersion c), decodeSyncUint64 (pi_snapshotVersion pin)) of
     (Some m, Some n) \<Rightarrow> n < m | _ \<Rightarrow> False)"

definition keeps :: "int \<Rightarrow> SyncDb \<Rightarrow> SyncDb \<Rightarrow> bool" where
  "keeps now db db' \<longleftrightarrow> sy_pins db' = sy_pins db \<and>
     (\<forall>c\<in>set (sy_changes db). \<forall>pin\<in>set (live_pins db (ch_vaultId c) now). after_pin c pin \<longrightarrow> c \<in> set (sy_changes db'))"

lemma live_pins_same: "sy_pins db' = sy_pins db \<Longrightarrow> live_pins db' = live_pins db"
  by (simp add: live_pins_def fun_eq_iff)

lemma keeps_refl: "sy_pins db' = sy_pins db \<Longrightarrow> set (sy_changes db) \<subseteq> set (sy_changes db') \<Longrightarrow> keeps now db db'"
  by (auto simp: keeps_def)

lemma keeps_trans: "keeps now db db1 \<Longrightarrow> keeps now db1 db2 \<Longrightarrow> keeps now db db2"
  using live_pins_same [of db1 db] by (auto simp: keeps_def)

lemma prune_dir:
  assumes acct: "acct material db" and dir: "dir_ok db" and vault: "current vault db"
    and plan: "planEventPrefixPrune db vault needed now = Some (Some (sufficient, plan))"
    and run: "applyEventPrefixPrune vault plan now db = Some db1"
  shows "dir_ok db1 \<and> keeps now db db1 \<and> va_changeFloorVersion (pruned_vault plan now vault) = pp_changeFloorVersion plan"
proof -
  note t = acct_tables [OF acct]
  from planned [OF t plan] have ok: "plan_ok db vault plan" by blast
  from pruned [OF acct vault ok run]
  have taken: "taken vault (pp_changes plan) (pp_events plan) (\<lambda>e. discharge (prior_delta (pp_entryDeltas plan) (en_id e)) e)
      (pruned_vault plan now vault) db db1" by blast
  obtain k where k: "k \<le> length (changes_in (va_id vault) db)"
    and pp: "pp_changes plan = take k (changes_in (va_id vault) db)"
    and floor: "pp_changeFloorVersion plan =
      (if k = 0 then va_changeFloorVersion vault else ch_directoryVersion (last (take k (changes_in (va_id vault) db))))"
    and pins: "\<forall>c\<in>set (pp_changes plan). \<forall>pin\<in>set (live_pins db (va_id vault) now).
      \<exists>m n. decodeSyncUint64 (ch_directoryVersion c) = Some m \<and> decodeSyncUint64 (pi_snapshotVersion pin) = Some n \<and> m \<le> n"
    by (rule planned_prefix [OF dir vault plan])
  have gone: "delete_rows ch_id (map ch_id (pp_changes plan)) (sy_changes db) = Some (sy_changes db1)"
    and vaults: "sy_vaults db1 = map (\<lambda>x. if va_id x = va_id vault then pruned_vault plan now vault else x) (sy_vaults db)"
    using taken by (simp_all add: taken_def)
  have w: "va_id (pruned_vault plan now vault) = va_id vault" "va_directoryVersion (pruned_vault plan now vault) = va_directoryVersion vault"
    by (simp_all add: pruned_vault_def)
  have floor1: "va_changeFloorVersion (pruned_vault plan now vault) = pp_changeFloorVersion plan"
    using ok by (auto simp: pruned_vault_def plan_ok_def empty_plan_def)
  have "dir_ok db1"
    by (rule dir_drop [OF dir vault t vaults w(1) k gone [unfolded pp] floor1 [unfolded floor] w(2)])
  moreover have "c \<in> set (sy_changes db1)"
    if c: "c \<in> set (sy_changes db)" and pin: "pin \<in> set (live_pins db (ch_vaultId c) now)" "after_pin c pin" for c pin
  proof (rule ccontr)
    assume "c \<notin> set (sy_changes db1)"
    then have "ch_id c \<in> ch_id ` set (pp_changes plan)" using delete_rows_filter [OF gone] c by auto
    then obtain d where d: "d \<in> set (pp_changes plan)" "ch_id d = ch_id c" by auto
    with pp have "d \<in> set (changes_in (va_id vault) db)" by (auto dest: in_set_takeD)
    then have member: "d \<in> set (sy_changes db)" "ch_vaultId d = va_id vault" by (simp_all add: changes_in_def)
    with tables_distinct [OF t] d(2) c have "d = c" by (auto simp: distinct_map dest: inj_onD)
    with pins d(1) pin member(2) show False by (fastforce simp: after_pin_def)
  qed
  moreover have "sy_pins db1 = sy_pins db" by (rule applied_shape [OF run])
  ultimately show ?thesis using floor1 by (simp add: keeps_def)
qed

text \<open>A mutation that appends the next change of a vault.\<close>

lemma appended:
  assumes dir: "dir_ok db" and w: "current w db"
    and vaults: "sy_vaults db' = patch_row va_id (va_id w) f (sy_vaults db)" and id: "\<And>x. va_id (f x) = va_id x"
    and changes: "sy_changes db' = sy_changes db @ [c]" and c: "ch_vaultId c = va_id w"
    and v: "nextRequiredSyncUint64 (va_directoryVersion w) = Some (ch_directoryVersion c)"
    and k: "syncUint64OrderKey (ch_directoryVersion c) = Some (ch_directoryVersionOrderKey c)"
    and w': "va_directoryVersion (f w) = ch_directoryVersion c" "va_changeFloorVersion (f w) = va_changeFloorVersion w"
    and pins: "sy_pins db' = sy_pins db" and t: "tables_ok db"
  shows "dir_ok db' \<and> keeps now db db'"
proof
  have "sy_vaults db' = map (\<lambda>x. if va_id x = va_id w then f w else x) (sy_vaults db)"
    unfolding vaults using tables_distinct [OF t] by (intro patch_unique [OF _ w [unfolded current_def]]) blast
  from dir_insert [OF dir w this id changes c v k w'] show "dir_ok db'" .
  show "keeps now db db'" by (rule keeps_refl [OF pins]) (simp add: changes subset_iff)
qed

lemma accept_dir:
  assumes acct: "acct material db" and dir: "dir_ok db" and vault: "current vault db"
    and run: "publish_accept vault entry envelope now db = Some (r, db')"
  shows "dir_ok db' \<and> keeps now db db'"
  using run
proof (cases rule: publish_accept_cases)
  case (pruned plan sufficient needed)
  from prune_dir [OF acct dir vault pruned] show ?thesis by blast
next
  case (published plan needed oldHead streamActive streams)
  from published(6) obtain v k created db1 where db1: "applyEventPrefixPrune vault plan now db = Some db1"
    and v: "nextRequiredSyncUint64 (va_directoryVersion vault) = Some v" and k: "syncUint64OrderKey v = Some k"
    and db': "db' = publish_writes vault entry envelope oldHead plan needed streamActive streams v k created now db1"
    by (rule publish_commit_cases)
  let ?w = "pruned_vault plan now vault"
  let ?n = "sy_next (write_head vault entry oldHead envelope v now (db1 \<lparr>sy_next := Suc (sy_next db1),
    sy_events := sy_events db1 @ [published_event vault entry envelope v k now (sy_next db1)]\<rparr>))"
  from planned [OF acct_tables [OF acct] published(3)] have ok: "plan_ok db vault plan" by blast
  from SessionRetention.pruned [OF acct vault ok db1] have acct1: "acct material db1" and w: "current ?w db1" by blast+
  from prune_dir [OF acct dir vault published(3) db1] have dir1: "dir_ok db1" and keep: "keeps now db db1"
    and floor: "va_changeFloorVersion ?w = pp_changeFloorVersion plan" by blast+
  have w_id: "va_id ?w = va_id vault" "va_directoryVersion ?w = va_directoryVersion vault" by (simp_all add: pruned_vault_def)
  let ?c = "\<lparr>ch_id = ?n, ch_vaultId = va_id vault, ch_directoryVersion = v, ch_directoryVersionOrderKey = k, ch_kind = CK_upsert,
     ch_sessionEntryId = en_id entry, ch_eventId = Some (sy_next db1), ch_createdAt = now\<rparr>"
  have "dir_ok db' \<and> keeps now db1 db'"
    by (rule appended [OF dir1 w, where c = ?c and f = "published_vault plan needed streams v k now"])
      (use v k floor w_id acct_tables [OF acct1] in \<open>simp_all add: db' publish_writes_def Let_def published_vault_def\<close>)
  with keep keeps_trans show ?thesis by blast
qed (use dir in \<open>simp add: keeps_refl\<close>)

lemma sorted_filter_prefix:
  "sorted (map f cs) \<Longrightarrow> \<exists>k \<le> length cs. filter (\<lambda>c. f c \<le> x) cs = take k cs"
proof (induction cs)
  case (Cons c cs)
  show ?case
  proof (cases "f c \<le> x")
    case True
    with Cons obtain k where "k \<le> length cs" "filter (\<lambda>c. f c \<le> x) cs = take k cs" by auto
    with True show ?thesis by (intro exI [of _ "Suc k"]) simp
  next
    case False
    with Cons.prems have "filter (\<lambda>c. f c \<le> x) (c # cs) = []" by (auto simp: filter_empty_conv)
    then show ?thesis by (intro exI [of _ 0]) simp
  qed
qed simp

lemma purge_prefix:
  assumes "purgeRetiringSessionEventPrefix vault entry purgeThroughVersion now maximumChanges db = Some (p, db')"
    and dir: "dir_ok db" and w: "current vault db"
  obtains "db' = db"
  | k targetVersion where "k \<le> length (changes_in (va_id vault) db)" "k \<noteq> 0" "live_pins db (va_id vault) now = []"
      "purge_selected vault (take k (changes_in (va_id vault) db)) targetVersion now db = Some (p, db')"
  using assms(1)
proof (cases rule: purge_cases)
  case (2 selected targetVersion key)
  have member: "vault \<in> set (sy_vaults db)" using w get_row_Some by (fastforce simp: current_def)
  let ?cs = "changes_in (va_id vault) db"
  have "sorted (map ch_directoryVersionOrderKey ?cs)" using dir member sorted_changes by (auto simp: dir_ok_def)
  from sorted_filter_prefix [OF this] obtain j where j: "j \<le> length ?cs" "filter (\<lambda>c. ch_directoryVersionOrderKey c \<le> key) ?cs = take j ?cs" by blast
  have selected: "selected = take (min maximumChanges j) ?cs" unfolding 2(4) dir_changes [OF dir member] j(2) by simp
  moreover from selected 2(5) have "min maximumChanges j \<noteq> 0" by auto
  ultimately show thesis using 2(2,3) j(1) by (intro that(2) [of "min maximumChanges j" targetVersion]) (simp_all add: min.coboundedI2)
qed (use that in blast)

lemma purge_dir:
  assumes acct: "acct material db" and dir: "dir_ok db" and vault: "current vault db"
    and run: "purgeRetiringSessionEventPrefix vault entry purgeThroughVersion now maximumChanges db = Some (p, db')"
  shows "dir_ok db' \<and> (db' = db \<or> live_pins db (va_id vault) now = []) \<and> keeps now db db'"
  using run dir vault
proof (cases rule: purge_prefix)
  case (2 k targetVersion)
  note t = acct_tables [OF acct]
  from 2(4) show ?thesis
  proof (cases rule: purge_selected_cases)
    case (1 events deltas bytes n changes kept)
    let ?g = "\<lambda>v. v \<lparr>va_changeFloorVersion := ch_directoryVersion (last (take k (changes_in (va_id vault) db))),
            va_retainedCiphertextBytes := va_retainedCiphertextBytes vault - bytes,
            va_retainedEventCount := va_retainedEventCount vault - n, va_updatedAt := now\<rparr>"
    have vaults: "sy_vaults db' = map (\<lambda>x. if va_id x = va_id vault then ?g vault else x) (sy_vaults db)"
      unfolding 1(6) using patch_unique [OF conjunct1 [OF tables_distinct [OF t]] vault [unfolded current_def]] by simp
    have gone: "delete_rows ch_id (map ch_id (take k (changes_in (va_id vault) db))) (sy_changes db) = Some (sy_changes db')"
      using 1(2,6) by simp
    have "dir_ok db'" by (rule dir_drop [OF dir vault t vaults _ 2(1) gone]) (use 2(2) in simp_all)
    moreover have "c \<in> set (sy_changes db')" if "c \<in> set (sy_changes db)" "pin \<in> set (live_pins db (ch_vaultId c) now)" for c pin
    proof -
      from that 2(3) have "ch_vaultId c \<noteq> va_id vault" by auto
      from changes_dropped(2) [OF t gone this] that(1) have "c \<in> set (changes_in (ch_vaultId c) db')" by (simp add: changes_in_def)
      then show ?thesis by (simp add: changes_in_def)
    qed
    ultimately show ?thesis using 2(3) 1(6) by (simp add: keeps_def)
  qed
qed (use dir in \<open>simp add: keeps_refl\<close>)

lemma retire_writes_dir:
  assumes acct: "acct material db" and dir: "dir_ok db" and vault: "current vault db"
    and run: "retire_writes vault entry tombstone now db = Some db'"
  shows "dir_ok db' \<and> keeps now db db'"
  using run
proof (cases rule: retire_writes_cases)
  case (1 v k created head)
  show ?thesis
    by (rule appended [OF dir vault 1(11) _ 1(9)]) (use 1 acct_tables [OF acct] in \<open>simp_all add: retired_vault_def\<close>)
qed

lemma retire_target_dir:
  assumes acct: "acct material db" and dir: "dir_ok db" and run: "retire_target entryId now budget db = Some (stop, left, db')"
  shows "dir_ok db' \<and> keeps now db db'"
  using run
proof (cases rule: retire_target_cases)
  case (purged entry vault through purge db1)
  from get_row_Some [OF purged(2)] purged(2) have "current vault db" by (simp add: current_def)
  from purge_dir [OF acct dir this purged(5)] purge_acct [OF acct this purged(5)]
  have one: "dir_ok db1" "keeps now db db1" "acct material db1" by blast+
  from purged(6) show ?thesis
  proof (elim disjE exE conjE)
    fix e w tombstone
    assume w: "get_row va_id (sy_vaults db1) (va_id vault) = Some w" and written: "retire_writes w e tombstone now db1 = Some db'"
    from get_row_Some [OF w] w have "current w db1" by (simp add: current_def)
    from retire_writes_dir [OF one(3,1) this written] one(2) keeps_trans show ?thesis by blast
  qed (use one in simp)
qed (use dir in \<open>simp add: keeps_refl\<close>)

lemma retire_targets_dir:
  "acct material db \<Longrightarrow> dir_ok db \<Longrightarrow> retire_targets entryIds now budget db = Some db' \<Longrightarrow> dir_ok db' \<and> keeps now db db'"
proof (induction entryIds arbitrary: budget db)
  case (Cons entryId entryIds)
  obtain stop left db1 where one: "retire_target entryId now budget db = Some (stop, left, db1)"
    using Cons.prems(3) by (cases "retire_target entryId now budget db") auto
  from retire_target_acct [OF Cons.prems(1) one] retire_target_dir [OF Cons.prems(1,2) one]
  have acct1: "acct material db1" and dir1: "dir_ok db1" "keeps now db db1" by blast+
  show ?case
  proof (cases stop)
    case True
    with Cons.prems(3) one dir1 show ?thesis by simp
  next
    case False
    with Cons.prems(3) one have "retire_targets entryIds now left db1 = Some db'" by simp
    from Cons.IH [OF acct1 dir1(1) this] dir1(2) keeps_trans show ?thesis by blast
  qed
qed (simp add: keeps_refl)

lemma dir_same:
  assumes "dir_ok db" and "sy_changes db' = sy_changes db" and "sy_pins db' = sy_pins db"
    and "\<And>w'. w' \<in> set (sy_vaults db') \<Longrightarrow> \<exists>w\<in>set (sy_vaults db). va_id w' = va_id w \<and>
      va_directoryVersion w' = va_directoryVersion w \<and> va_changeFloorVersion w' = va_changeFloorVersion w"
  shows "dir_ok db' \<and> keeps now db db'"
proof
  show "dir_ok db'"
    unfolding dir_ok_def
  proof
    fix w' assume "w' \<in> set (sy_vaults db')"
    from assms(4) [OF this] obtain w where "w \<in> set (sy_vaults db)" "va_id w' = va_id w"
      "va_directoryVersion w' = va_directoryVersion w" "va_changeFloorVersion w' = va_changeFloorVersion w" by blast
    with assms(1,2) show "directory_of w' (changes_in (va_id w') db')" by (simp add: dir_ok_def directory_of_def changes_in_def)
  qed
  show "keeps now db db'" using assms(2,3) by (simp add: keeps_refl)
qed

lemma reserve_dir:
  assumes dir: "dir_ok db" and vault: "current vault db" and run: "reserveSession vault device sessionId digest now db = Some (r, db')"
  shows "dir_ok db' \<and> keeps now db db'"
  using run
proof (cases rule: reserve_cases)
  case (2 ordinal key zero expires)
  show ?thesis
  proof (rule dir_same [OF dir])
    fix w' assume "w' \<in> set (sy_vaults db')"
    then obtain x where "x \<in> set (sy_vaults db)" and w': "w' = (if va_id x = va_id vault
        then x \<lparr>va_nextDirectoryOrdinal := ordinal, va_directorySessionCount := va_directorySessionCount vault + 1, va_updatedAt := now\<rparr>
        else x)" by (auto simp: 2(2) set_patch)
    then show "\<exists>w\<in>set (sy_vaults db). va_id w' = va_id w \<and> va_directoryVersion w' = va_directoryVersion w \<and>
        va_changeFloorVersion w' = va_changeFloorVersion w"
      by (intro bexI [of _ x]) simp_all
  qed (simp_all add: 2(2))
qed (use dir in \<open>simp add: keeps_refl\<close>)

lemma acquire_dir:
  assumes dir: "dir_ok db" and run: "acquireWriter vault device request now db = Some (r, db')"
  shows "dir_ok db' \<and> keeps now db db'"
  using run
proof (cases rule: acquire_cases)
  case (2 entry generation bootId bootGeneration)
  show ?thesis by (rule dir_same [OF dir]) (auto simp: 2(3))
qed (use dir in \<open>simp add: keeps_refl\<close>)

lemma publish_dir:
  assumes acct: "acct material db" and dir: "dir_ok db" and vault: "current vault db"
    and run: "publishSession vault device envelope now db = Some (r, db')"
  shows "dir_ok db' \<and> keeps now db db'"
  using run
proof (cases rule: publishSession_cases)
  case (2 entry bootId bootGeneration)
  from accept_dir [OF acct dir vault 2(4)] show ?thesis .
qed (use dir in \<open>simp add: keeps_refl\<close>)

lemma delete_dir:
  assumes acct: "acct material db" and dir: "dir_ok db" and vault: "current vault db"
    and run: "deleteSession vault device request now db = Some (r, db')"
  shows "dir_ok db' \<and> keeps now db db'"
  using run
proof (cases rule: deleteSession_cases)
  case (2 entry bootId bootGeneration)
  from 2(5) show ?thesis
  proof (cases rule: delete_admitted_cases)
    case (2 v k)
    let ?c = "\<lparr>ch_id = Suc (sy_next db), ch_vaultId = va_id vault, ch_directoryVersion = v, ch_directoryVersionOrderKey = k,
      ch_kind = CK_tombstone, ch_sessionEntryId = en_id entry, ch_eventId = None, ch_createdAt = now\<rparr>"
    show ?thesis
      by (rule appended [OF dir vault, where c = ?c and f = "deleted_vault vault entry v k now"])
        (use 2 acct_tables [OF acct] in \<open>simp_all add: delete_writes_def Let_def deleted_vault_def\<close>)
  qed (use dir in \<open>simp add: keeps_refl\<close>)
qed (use dir in \<open>simp add: keeps_refl\<close>)

lemma step_dir:
  assumes acct: "acct material db" and dir: "dir_ok db" and run: "sync_step s now db = Some db'"
  shows "dir_ok db' \<and> (keeps now db db' \<or> sy_changes db' = sy_changes db)"
proof -
  have current: "get_row va_id (sy_vaults db) w = Some vault \<Longrightarrow> current vault db" for w vault
    using get_row_Some [of va_id "sy_vaults db" w vault] by (auto simp: current_def)
  show ?thesis
  proof (cases s)
    case (SS_boot d request digest)
    with run obtain device r where "establishBoot device request digest now db = Some (r, db')"
      by (auto simp: bind_eq_Some_conv)
    from boot_shape [OF this] have "sy_changes db' = sy_changes db" "sy_pins db' = sy_pins db" "sy_vaults db' = sy_vaults db" by auto
    with dir show ?thesis by (simp add: dir_ok_def changes_in_def)
  next
    case (SS_reserve w d sessionId digest)
    with run obtain vault device r where "current vault db" "reserveSession vault device sessionId digest now db = Some (r, db')"
      by (auto simp: bind_eq_Some_conv intro: current)
    from reserve_dir [OF dir this] show ?thesis by blast
  next
    case (SS_acquire w d request)
    with run obtain vault device r where "acquireWriter vault device request now db = Some (r, db')" by (auto simp: bind_eq_Some_conv)
    from acquire_dir [OF dir this] show ?thesis by blast
  next
    case (SS_publish w d envelope)
    with run obtain vault device r where "current vault db" "publishSession vault device envelope now db = Some (r, db')"
      by (auto simp: bind_eq_Some_conv intro: current split: if_splits)
    from publish_dir [OF acct dir this] show ?thesis by blast
  next
    case (SS_delete w d request)
    with run obtain vault device r where "current vault db" "deleteSession vault device request now db = Some (r, db')"
      by (auto simp: bind_eq_Some_conv intro: current)
    from delete_dir [OF acct dir this] show ?thesis by blast
  next
    case SS_retire
    with run retire_targets_dir [OF acct dir] show ?thesis by (auto simp: retireExpiredSessions_def)
  next
    case (SS_pin pins)
    with run have "sy_changes db' = sy_changes db" "sy_vaults db' = sy_vaults db" by auto
    with dir show ?thesis by (simp add: dir_ok_def changes_in_def)
  qed
qed

lemma run_dir: "acct material db \<Longrightarrow> dir_ok db \<Longrightarrow> sync_run steps db = Some db' \<Longrightarrow> dir_ok db'"
proof (induction steps arbitrary: db)
  case (Cons p steps)
  obtain s now where p: "p = (s, now)" by (cases p)
  with Cons.prems(3) obtain db1 where "sync_step s now db = Some db1" "sync_run steps db1 = Some db'"
    by (auto simp: bind_eq_Some_conv)
  with Cons.IH step_acct [OF Cons.prems(1)] step_dir [OF Cons.prems(1,2)] show ?case by blast
qed simp

text \<open>A vault starts with no change: its floor is its version.\<close>

definition empty_directory :: "SyncDb \<Rightarrow> bool" where
  "empty_directory db \<longleftrightarrow> list_all (\<lambda>w. is_sync_uint64 (va_directoryVersion w) \<and> va_changeFloorVersion w = va_directoryVersion w) (sy_vaults db)"

lemma fresh_dir: "fresh_db db \<Longrightarrow> empty_directory db \<Longrightarrow> dir_ok db"
  by (auto simp: dir_ok_def directory_of_def changes_in_def fresh_db_def empty_directory_def list_all_iff)

text \<open>
  C12. No gap in the directory. After any run, what a reader finds by paging through the index of a
  vault's directory changes, in the order of their keys, are the versions from the successor of the
  change floor up to the directory version, each exactly once.
\<close>

theorem directory_has_no_gap:
  assumes "fresh_db db0" and "empty_directory db0" and "sync_run steps db0 = Some db" and "vault \<in> set (sy_vaults db)"
  shows "map (\<lambda>c. read_digits (ch_directoryVersion c)) (vault_changes db (va_id vault)) =
    [read_digits (va_changeFloorVersion vault) + 1 ..< read_digits (va_directoryVersion vault) + 1]"
proof -
  from run_dir [OF fresh_acct [OF assms(1)] fresh_dir [OF assms(1,2)] assms(3)] have dir: "dir_ok db" .
  with assms(4) have "directory_of vault (changes_in (va_id vault) db)" by (simp add: dir_ok_def)
  moreover have "version_of = (\<lambda>c. read_digits (ch_directoryVersion c))" by (simp add: fun_eq_iff version_of_def)
  ultimately show ?thesis unfolding dir_changes [OF dir assms(4)] by (simp add: directory_of_def del: upt_Suc)
qed

theorem directory_has_no_gap_witness:
  "list_all (\<lambda>vault. map (\<lambda>c. read_digits (ch_directoryVersion c)) (vault_changes (the (sync_run sample_steps sample_db)) (va_id vault)) =
     [read_digits (va_changeFloorVersion vault) + 1 ..< read_digits (va_directoryVersion vault) + 1])
     (sy_vaults (the (sync_run sample_steps sample_db))) \<and>
   map va_directoryVersion (sy_vaults (the (sync_run sample_steps sample_db))) = [''2'']"
proof -
  have fresh: "fresh_db sample_db" "empty_directory sample_db" by code_simp+
  have counts: "\<not> Option.is_none (sync_run sample_steps sample_db) \<and>
    map va_directoryVersion (sy_vaults (the (sync_run sample_steps sample_db))) = [''2'']" by code_simp
  then obtain db where db: "sync_run sample_steps sample_db = Some db" by (cases "sync_run sample_steps sample_db") simp_all
  have "list_all (\<lambda>vault. map (\<lambda>c. read_digits (ch_directoryVersion c)) (vault_changes db (va_id vault)) =
     [read_digits (va_changeFloorVersion vault) + 1 ..< read_digits (va_directoryVersion vault) + 1]) (sy_vaults db)"
    unfolding list_all_iff using directory_has_no_gap [OF fresh db] by blast
  with counts db show ?thesis by simp
qed

text \<open>
  C13. Snapshots keep their history. While a snapshot of a vault has not expired, no request and no sweep
  removes a change of the vault that is newer than the version the snapshot was taken at.
\<close>

theorem live_snapshot_keeps_changes:
  assumes "fresh_db db0" and "empty_directory db0" and "sync_run steps db0 = Some db"
    and "sync_step s now db = Some db'" and "c \<in> set (sy_changes db)"
    and "pin \<in> set (sy_pins db)" and "pi_vaultId pin = ch_vaultId c" and "now < pi_expiresAt pin"
    and "decodeSyncUint64 (ch_directoryVersion c) = Some m" and "decodeSyncUint64 (pi_snapshotVersion pin) = Some n" and "n < m"
  shows "c \<in> set (sy_changes db')"
proof -
  note acct = run_acct [OF fresh_acct [OF assms(1)] assms(3)]
  note dir = run_dir [OF fresh_acct [OF assms(1)] fresh_dir [OF assms(1,2)] assms(3)]
  have "pin \<in> set (live_pins db (ch_vaultId c) now)" "after_pin c pin"
    using assms(6-11) by (simp_all add: live_pins_def after_pin_def)
  with step_dir [OF acct dir assms(4)] assms(5) show ?thesis by (auto simp: keeps_def)
qed

theorem live_snapshot_keeps_changes_witness:
  "(let db = the (sync_run (sample_steps @ [(SS_pin [\<lparr>pi_id = 9, pi_vaultId = 0, pi_snapshotVersion = ''1'', pi_expiresAt = 1000\<rparr>], 50)]) sample_db)
    in last (sy_changes db) \<in> set (sy_changes (the (sync_step SS_retire 60 db))))"
proof -
  let ?pin = "\<lparr>pi_id = 9, pi_vaultId = 0, pi_snapshotVersion = ''1'', pi_expiresAt = 1000\<rparr>"
  let ?steps = "sample_steps @ [(SS_pin [?pin], 50)]"
  define db where "db = the (sync_run ?steps sample_db)"
  define db' where "db' = the (sync_step SS_retire 60 db)"
  have fresh: "fresh_db sample_db" "empty_directory sample_db" by code_simp+
  have ran: "\<not> Option.is_none (sync_run ?steps sample_db) \<and> \<not> Option.is_none (sync_step SS_retire 60 (the (sync_run ?steps sample_db))) \<and>
    sy_changes (the (sync_run ?steps sample_db)) \<noteq> [] \<and> sy_pins (the (sync_run ?steps sample_db)) = [?pin] \<and>
    ch_vaultId (last (sy_changes (the (sync_run ?steps sample_db)))) = 0 \<and>
    decodeSyncUint64 (ch_directoryVersion (last (sy_changes (the (sync_run ?steps sample_db))))) = Some 2" by code_simp
  from ran have db: "sync_run ?steps sample_db = Some db" "sync_step SS_retire 60 db = Some db'"
    by (auto simp: db_def db'_def Option.is_none_def)
  have one: "decodeSyncUint64 ''1'' = Some 1" by code_simp
  from ran have c: "last (sy_changes db) \<in> set (sy_changes db)" "ch_vaultId (last (sy_changes db)) = 0"
    "decodeSyncUint64 (ch_directoryVersion (last (sy_changes db))) = Some 2" "sy_pins db = [?pin]" by (simp_all add: db_def)
  have "last (sy_changes db) \<in> set (sy_changes db')"
    by (rule live_snapshot_keeps_changes [OF fresh db c(1), of ?pin 2 1]) (use c one in simp_all)
  then show ?thesis by (simp only: Let_def db_def db'_def)
qed

subsection \<open>What a publication answers\<close>

lemma accepted_head_result: "accepted_head envelope created v now replay = Some r \<Longrightarrow>
  \<exists>c t. r = SR_session_accepted envelope c v t replay"
  by (auto simp: accepted_head_def bind_eq_Some_conv split: option.splits if_splits)

lemma failure_not_accepted [simp]: "sync_failure code d \<noteq> Some (SR_session_accepted e c v t replay)"
  by (simp add: sync_failure_def)

lemma head_matches_envelope: "head_matches head envelope \<Longrightarrow> sh_envelope head = envelope"
  by (simp add: head_matches_def)

lemma replay_result:
  assumes "publish_replay entry envelope db = Some (SR_session_accepted e c v t replay, db')"
  shows "replay \<and> e = envelope \<and>
     ((\<exists>ev\<in>set (sy_events db). ve_envelope ev = envelope \<and> ve_directoryVersion ev = v) \<or>
      (\<exists>h\<in>set (sy_heads db). sh_envelope h = envelope \<and> sh_directoryVersion h = v))"
proof -
  let ?q = "unique_row (filter (\<lambda>v. ve_sessionEntryId v = en_id entry \<and>
       ve_mirrorEpoch v = hd_mirrorEpoch (sl_header envelope) \<and>
       ve_syncSequence v = hd_syncSequence (sl_header envelope)) (sy_events db))"
  obtain found where found: "?q = Some found" using assms by (cases ?q) (simp_all add: publish_replay_def)
  show ?thesis
  proof (cases found)
    case (Some event)
    from unique_row_mem [OF found [unfolded Some]] have "event \<in> set (sy_events db)" by simp
    moreover from assms found Some have "ve_envelope event = envelope"
      "accepted_head (ve_envelope event) (en_createdDirectoryVersion entry) (ve_directoryVersion event) (ve_observedAt event) True
        = Some (SR_session_accepted e c v t replay)"
      by (auto simp: publish_replay_def split: if_splits)
    ultimately show ?thesis by (auto dest!: accepted_head_result)
  next
    case None
    obtain retained where retained: "find_head db (en_id entry) = Some retained"
      using assms found None by (cases "find_head db (en_id entry)") (simp_all add: publish_replay_def)
    show ?thesis
    proof (cases retained)
      case None
      with assms found \<open>found = None\<close> retained show ?thesis by (auto simp: publish_replay_def)
    next
      case (Some head)
      from find_head_Some [OF retained [unfolded Some]] have "head \<in> set (sy_heads db)" by simp
      moreover from assms found \<open>found = None\<close> retained Some have "head_matches head envelope"
        "accepted_head (sh_envelope head) (en_createdDirectoryVersion entry) (sh_directoryVersion head) (sh_observedAt head) True
          = Some (SR_session_accepted e c v t replay)"
        by (auto simp: publish_replay_def split: if_splits)
      ultimately show ?thesis by (auto dest!: accepted_head_result head_matches_envelope)
    qed
  qed
qed

lemma commit_result:
  assumes "publish_commit vault entry envelope oldHead plan needed streamActive streams now db = Some (SR_session_accepted e c v t replay, db')"
  obtains orderKey created db1 where "\<not> replay" "e = envelope" "applyEventPrefixPrune vault plan now db = Some db1"
    "nextRequiredSyncUint64 (va_directoryVersion vault) = Some v"
    "db' = publish_writes vault entry envelope oldHead plan needed streamActive streams v orderKey created now db1"
  using assms
  by (auto simp: publish_commit_def Let_def split_beta bind_eq_Some_conv dest!: accepted_head_result split: if_splits)

lemma accept_result:
  assumes "publish_accept vault entry envelope now db = Some (SR_session_accepted e c v t replay, db')"
  obtains oldHead plan needed streamActive streams where "planEventPrefixPrune db vault needed now = Some (Some (True, plan))"
    "publish_commit vault entry envelope oldHead plan needed streamActive streams now db = Some (SR_session_accepted e c v t replay, db')"
proof -
  obtain oldHead where head: "find_head db (en_id entry) = Some oldHead"
    using assms by (cases "find_head db (en_id entry)") (simp_all add: publish_accept_def)
  define needed where "needed = sl_ciphertextBytes envelope + (sl_ciphertextBytes envelope - old_bytes oldHead)"
  note run = assms [unfolded publish_accept_def Let_def head Option.bind.simps, folded needed_def]
  obtain sufficient plan where planned: "planEventPrefixPrune db vault needed now = Some (Some (sufficient, plan))"
    using run by (cases "planEventPrefixPrune db vault needed now") (auto split: option.splits)
  note run = run [unfolded planned Option.bind.simps option.case prod.case]
  from run have suff: "sufficient = True" by (cases sufficient) (auto simp: bind_eq_Some_conv)
  let ?stream = "nextStreamState (en_streamActive entry) (hd_eventKind (sl_header envelope))"
  let ?streams = "va_activeStreamCount vault + (if ?stream then 1 else 0) - (if en_streamActive entry then 1 else 0)"
  note run = run [unfolded suff not_True_eq_False if_False]
  then have "publish_commit vault entry envelope oldHead plan needed ?stream ?streams now db = Some (SR_session_accepted e c v t replay, db')"
    by (cases "quotaFailure (publish_quota vault plan needed ?streams)") (simp_all only: option.case, simp)
  with planned [unfolded suff] show thesis by (rule that)
qed

text \<open>
  C14. What an accepted publication means. The answer repeats the envelope. A replay leaves the store as
  it is, and the envelope is there at the version answered. Otherwise the envelope extends the session:
  its sequence is the successor of the session's, its predecessor the session's digest, the version
  answered the successor of the vault's, and the session now stands at the envelope, active, with the
  event stored at that version.
\<close>

theorem publication_outcome:
  assumes "fresh_db db0" and "sync_run steps db0 = Some db" and "get_row va_id (sy_vaults db) w = Some vault"
    and "publishSession vault device envelope now db = Some (SR_session_accepted e c v t replay, db')"
  shows "e = envelope \<and>
    (if replay then db' = db \<and>
       ((\<exists>ev\<in>set (sy_events db). ve_envelope ev = envelope \<and> ve_directoryVersion ev = v) \<or>
        (\<exists>h\<in>set (sy_heads db). sh_envelope h = envelope \<and> sh_directoryVersion h = v))
     else nextRequiredSyncUint64 (va_directoryVersion vault) = Some v \<and>
       (\<exists>entry entry'. find_entry db w (hd_sessionId (sl_header envelope)) = Some (Some entry) \<and>
         nextRequiredSyncUint64 (en_currentSequence entry) = Some (hd_syncSequence (sl_header envelope)) \<and>
         hd_previousDigest (sl_header envelope) = en_currentDigest entry \<and>
         get_row en_id (sy_entries db') (en_id entry) = Some entry' \<and> en_state entry' = EN_active \<and>
         en_currentSequence entry' = hd_syncSequence (sl_header envelope) \<and>
         en_currentDigest entry' = Some (sl_ciphertextDigest envelope) \<and> en_latestDirectoryVersion entry' = v) \<and>
       (\<exists>ev\<in>set (sy_events db'). ve_envelope ev = envelope \<and> ve_directoryVersion ev = v))"
proof -
  have acct: "acct (key_material db0) db" by (rule run_acct [OF fresh_acct [OF assms(1)] assms(2)])
  from get_row_Some [OF assms(3)] assms(3) have vault: "current vault db" "va_id vault = w" by (simp_all add: current_def)
  obtain b where b: "currentBoot device = Some b" using assms(4) by (cases "currentBoot device") (auto simp: publishSession_def)
  note run = assms(4) [unfolded publishSession_def b option.case]
  from run obtain entry where found: "find_entry db w (hd_sessionId (sl_header envelope)) = Some (Some entry)"
    by (auto simp: bind_eq_Some_conv vault(2) split: prod.splits option.splits)
  let ?args = "publication_args vault device (fst b) (snd b) now"
  from run found obtain decision where decision: "decideSessionPublication entry envelope ?args = Some decision"
    by (auto simp: bind_eq_Some_conv vault(2) split: prod.splits)
  show ?thesis
  proof (cases decision)
    case PD_replay
    with run found decision have replay: "publish_replay entry envelope db = Some (SR_session_accepted e c v t replay, db')"
      by (simp add: vault(2) split_beta)
    from replay_result [OF this] publish_replay_unchanged [OF this] show ?thesis by simp
  next
    case (PD_reject code)
    with run found decision show ?thesis by (simp add: vault(2) split_beta)
  next
    case PD_accept
    with run found decision have "publish_accept vault entry envelope now db = Some (SR_session_accepted e c v t replay, db')"
      by (simp add: vault(2) split_beta)
    from accept_result [OF this] obtain oldHead plan needed streamActive streams
      where plan: "planEventPrefixPrune db vault needed now = Some (Some (True, plan))"
      and commit: "publish_commit vault entry envelope oldHead plan needed streamActive streams now db = Some (SR_session_accepted e c v t replay, db')" .
    from commit_result [OF commit] obtain orderKey created db1 where new: "\<not> replay" "e = envelope"
      and prune: "applyEventPrefixPrune vault plan now db = Some db1"
      and v: "nextRequiredSyncUint64 (va_directoryVersion vault) = Some v"
      and db': "db' = publish_writes vault entry envelope oldHead plan needed streamActive streams v orderKey created now db1" .
    from planned [OF acct_tables [OF acct] plan] have "plan_ok db vault plan" by blast
    from pruned [OF acct vault(1) this prune] have "acct (key_material db0) db1"
      and taken: "taken vault (pp_changes plan) (pp_events plan) (\<lambda>e. discharge (prior_delta (pp_entryDeltas plan) (en_id e)) e)
        (pruned_vault plan now vault) db db1" by blast+
    from find_entry_Some [OF found] get_entry [OF acct_tables [OF acct]]
    have "get_row en_id (sy_entries db) (en_id entry) = Some entry" by blast
    with taken have "\<exists>x. get_row en_id (sy_entries db1) (en_id entry) = Some x" by (simp add: taken_def get_row_map)
    then obtain x where "get_row en_id (sy_entries db1) (en_id entry) = Some x" by blast
    then have "get_row en_id (sy_entries db') (en_id entry) =
        Some (published_entry entry envelope plan needed streamActive v orderKey created now x)"
      by (simp add: db' publish_writes_def Let_def get_row_patch)
    moreover have "published_event vault entry envelope v orderKey now (sy_next db1) \<in> set (sy_events db')"
      by (simp add: db' publish_writes_def Let_def)
    then have "\<exists>ev\<in>set (sy_events db'). ve_envelope ev = envelope \<and> ve_directoryVersion ev = v"
      by (rule bexI [rotated]) (simp add: published_event_def Let_def)
    moreover have "nextRequiredSyncUint64 (en_currentSequence entry) = Some (hd_syncSequence (sl_header envelope)) \<and>
        hd_previousDigest (sl_header envelope) = en_currentDigest entry"
      using admitted_chain decision PD_accept by blast
    ultimately show ?thesis using new v found by (simp add: published_entry_def split_beta Let_def)
  qed
qed

theorem publication_outcome_witness:
  "(\<exists>ev\<in>set (sy_events (snd (the (publishSession (hd (sy_vaults (the (sync_run (take 2 sample_steps) sample_db)))) sample_device
      (sample_envelope ''1'' SE_created None (Some ''g'') 40) 30 (the (sync_run (take 2 sample_steps) sample_db)))))).
    ve_envelope ev = sample_envelope ''1'' SE_created None (Some ''g'') 40 \<and> ve_directoryVersion ev = ''1'')"
proof -
  let ?E = "sample_envelope ''1'' SE_created None (Some ''g'') 40"
  define db where "db = the (sync_run (take 2 sample_steps) sample_db)"
  define w where "w = hd (sy_vaults db)"
  define out where "out = publishSession w sample_device ?E 30 db"
  have fresh: "fresh_db sample_db" by code_simp
  have "\<not> Option.is_none (sync_run (take 2 sample_steps) sample_db) \<and>
    map va_id (sy_vaults (the (sync_run (take 2 sample_steps) sample_db))) = [0]" by code_simp
  then have db: "sync_run (take 2 sample_steps) sample_db = Some db" and one: "map va_id (sy_vaults db) = [0]"
    by (auto simp: db_def Option.is_none_def)
  from one have w: "get_row va_id (sy_vaults db) 0 = Some w" by (cases "sy_vaults db") (simp_all add: w_def get_row_Cons)
  have "map_option fst (publishSession (hd (sy_vaults (the (sync_run (take 2 sample_steps) sample_db)))) sample_device ?E 30
      (the (sync_run (take 2 sample_steps) sample_db))) = Some (SR_session_accepted ?E ''1'' ''1'' ''30'' False)" by code_simp
  then have "map_option fst out = Some (SR_session_accepted ?E ''1'' ''1'' ''30'' False)" by (simp only: out_def w_def db_def)
  then obtain db' where out: "out = Some (SR_session_accepted ?E ''1'' ''1'' ''30'' False, db')" by (cases out) auto
  from publication_outcome [OF fresh db w out [unfolded out_def]]
  have "\<exists>ev\<in>set (sy_events db'). ve_envelope ev = ?E \<and> ve_directoryVersion ev = ''1''" by simp
  moreover have "db' = snd (the (publishSession (hd (sy_vaults db)) sample_device ?E 30 db))"
    using out by (simp add: out_def w_def)
  ultimately show ?thesis by (simp only: db_def)
qed

end
