(* ===== verification/WorkStore.thy ===== *)
theory WorkStore
  imports ClaimCommands DispatchLeases
begin

text \<open>
  What the work graph mutations of \<open>apps/web/convex/workGraph.ts\<close> share: the detail of a task, the
  check that an agent may edit one, submissions and their views, the usage row of a workspace, and
  the authorization and receipts of a human (\<open>humanAuthorization.ts\<close>, \<open>humanTenancy.ts\<close>). Random
  identifiers are an argument: a supply of event identifiers by the number of the inserted row.
\<close>

definition MAX_TASK_LABELS :: nat where "MAX_TASK_LABELS = 50"
definition WORKSPACE_ACTIVE_TASK_LIMIT :: int where "WORKSPACE_ACTIVE_TASK_LIMIT = 10000"
definition MAX_TASK_COMMENT_BYTES :: nat where "MAX_TASK_COMMENT_BYTES = 16 * 1024"
definition MAX_SUBMISSION_SUMMARY_BYTES :: nat where "MAX_SUBMISSION_SUMMARY_BYTES = 16 * 1024"
definition MAX_SUBMISSION_EVIDENCE :: nat where "MAX_SUBMISSION_EVIDENCE = 50"

text \<open>The JSON of an operation's data and its parser.\<close>

record 'd ReceiptCodec =
  rx_stringify :: "'d \<Rightarrow> string"
  rx_parse :: "string \<Rightarrow> 'd option"

text \<open>An event of a client's command, with the next row's event identifier.\<close>

definition append_event ::
  "(nat \<Rightarrow> string) \<Rightarrow> Task \<Rightarrow> string \<Rightarrow> EventActor \<Rightarrow> EventCommand \<Rightarrow> (string \<times> detail) list \<Rightarrow> int \<Rightarrow> Db \<Rightarrow> Db option" where
  "append_event fresh task type actor command payload now db =
     appendTaskEvent (fresh (db_next db)) task (tk_revision task + 1) type actor command payload now
       (tk_organizationId task) (tk_workspaceId task) db"

definition state_details :: "Task \<Rightarrow> (string \<times> detail) list" where
  "state_details task = [(''taskKey'', DT_text (tk_key task)), (''currentRevision'', DT_number (tk_revision task))]"

definition blocking_details :: "Task \<Rightarrow> int \<Rightarrow> (string \<times> detail) list" where
  "blocking_details task blockingCount = state_details task @ [(''blockingCount'', DT_number blockingCount)]"

text \<open>A failure returned after queueing a repair, with its own details.\<close>

definition repair_and_refuse ::
  "Task \<Rightarrow> RepairKind \<Rightarrow> int \<Rightarrow> string \<Rightarrow> (string \<times> detail) list \<Rightarrow> Db \<Rightarrow> ((DomainError + 'a) \<times> Db) option" where
  "repair_and_refuse task kind now requestId details db =
     (case queueProjectionRepair task kind now db of
        None \<Rightarrow> None
      | Some db1 \<Rightarrow> Some (Inl (domainFailure EC_PROJECTION_MISMATCH requestId details), db1))"

subsection \<open>The detail of a task\<close>

record TaskDetailData =
  td_task :: TaskView
  td_description :: string
  td_labels :: "string list"
  td_parentKey :: "string option"

definition task_scope :: "Task \<Rightarrow> nat \<times> nat \<times> nat" where
  "task_scope task = (tk_organizationId task, tk_workspaceId task, tk_id task)"

definition parentRelationMatches :: "Task \<Rightarrow> Task \<Rightarrow> bool" where
  "parentRelationMatches task parent \<longleftrightarrow>
     (case tk_parentTaskId task of
        None \<Rightarrow> False
      | Some parentId \<Rightarrow> parentTaskTupleMatches (tk_organizationId task, tk_workspaceId task, parentId)
          (tk_organizationId parent, tk_workspaceId parent, tk_id parent))"

text \<open>The outer \<open>None\<close> is a thrown error, the inner one the code's \<open>null\<close>.\<close>

definition taskDetail :: "Db \<Rightarrow> Task \<Rightarrow> TaskDetailData option option" where
  "taskDetail db task =
     (case unique_row (filter (\<lambda>b. tb_workspaceId b = tk_workspaceId task \<and> tb_taskId b = tk_id task) (db_bodies db)) of
        None \<Rightarrow> None
      | Some body \<Rightarrow>
          (let labels = take (MAX_TASK_LABELS + 1)
             (filter (\<lambda>l. tl_workspaceId l = tk_workspaceId task \<and> tl_taskId l = tk_id task) (db_labels db));
               parent = Option.bind (tk_parentTaskId task) (get_task db) in
           if (case body of None \<Rightarrow> False
               | Some b \<Rightarrow> \<not> taskScopedRecordMatches (task_scope task)
                   (tb_organizationId b, tb_workspaceId b, tb_taskId b)) \<or>
              length labels > MAX_TASK_LABELS \<or>
              list_ex (\<lambda>l. \<not> taskScopedRecordMatches (task_scope task)
                (tl_organizationId l, tl_workspaceId l, tl_taskId l)) labels \<or>
              (\<not> Option.is_none (tk_parentTaskId task) \<and>
               (case parent of None \<Rightarrow> True | Some p \<Rightarrow> \<not> parentRelationMatches task p))
           then Some None
           else
             (case taskView task of
                None \<Rightarrow> None
              | Some view \<Rightarrow> Some (Some
                  \<lparr>td_task = view, td_description = (case body of None \<Rightarrow> [] | Some b \<Rightarrow> tb_description b),
                   td_labels = js_sort code_unit_compare (map tl_label labels),
                   td_parentKey = map_option tk_key parent\<rparr>))))"

subsection \<open>Editing a task\<close>

definition specFailure :: "Task \<Rightarrow> AuthorizedAgent \<Rightarrow> int option \<Rightarrow> int \<Rightarrow> string \<Rightarrow> DomainError option" where
  "specFailure task authorization fence now requestId =
     (if tk_status task = TS_in_review
      then Some (domainFailure EC_TASK_IN_REVIEW requestId (state_details task))
      else if tk_status task = TS_open \<and> Option.is_none (tk_currentClaim task) then None
      else case tk_currentClaim task of
        None \<Rightarrow> Some (domainFailure EC_TASK_STATE_CONFLICT requestId (state_details task))
      | Some compact \<Rightarrow>
          (if tk_status task \<noteq> TS_in_progress
           then Some (domainFailure EC_TASK_STATE_CONFLICT requestId (state_details task))
           else if cc_agentId compact \<noteq> au_agentId authorization
           then Some (domainFailure EC_CLAIM_NOT_OWNED requestId
             [(''taskKey'', DT_text (tk_key task)),
              (''fence'', DT_number (case fence of None \<Rightarrow> cc_fence compact | Some f \<Rightarrow> f))])
           else if Option.is_none fence \<or> fence \<noteq> Some (cc_fence compact) \<or> cc_leaseUntil compact \<le> now
           then Some (domainFailure EC_CLAIM_STALE requestId
             [(''taskKey'', DT_text (tk_key task)), (''fence'', DT_number (cc_fence compact)),
              (''currentRevision'', DT_number (tk_revision task))])
           else None))"

definition loadMutableAgentTask ::
  "AuthorizedAgent \<Rightarrow> string \<Rightarrow> int \<Rightarrow> int option \<Rightarrow> int \<Rightarrow> string \<Rightarrow> Db \<Rightarrow> ((DomainError + Task) \<times> Db) option" where
  "loadMutableAgentTask authorization key revision fence now requestId db =
     (case taskByKey db (au_workspaceId authorization) key of
        None \<Rightarrow> None
      | Some None \<Rightarrow> refuse EC_NOT_FOUND requestId [] db
      | Some (Some task) \<Rightarrow>
     (if \<not> taskMatchesAuthorizedScope (tk_organizationId task, tk_workspaceId task)
             (au_organizationId authorization, au_workspaceId authorization)
      then refuse EC_PROJECTION_MISMATCH requestId [] db
      else case taskDetail db task of
        None \<Rightarrow> None
      | Some None \<Rightarrow> repair_and_refuse task RK_task_readiness now requestId (state_details task) db
      | Some (Some detail) \<Rightarrow>
     (if tk_revision task \<noteq> revision then refuse EC_TASK_STATE_CONFLICT requestId (state_details task) db
      else if (tk_status task = TS_in_progress \<or> \<not> Option.is_none (tk_currentClaim task)) \<and>
        \<not> activeClaimMatchesTask task (Option.bind (tk_currentClaim task) (\<lambda>c. get_claim db (cc_claimId c)))
      then repair_and_refuse task RK_task_claim now requestId (state_details task) db
      else case specFailure task authorization fence now requestId of
        Some err \<Rightarrow> Some (Inl err, db)
      | None \<Rightarrow> Some (Inr task, db))))"

subsection \<open>Submissions and usage\<close>

text \<open>A submission as a client sees it; the status says which of the code's variants it is.\<close>

record SubmissionView =
  vw_id :: string
  vw_taskKey :: string
  vw_agentId :: string
  vw_reviewRevision :: int
  vw_summary :: string
  vw_evidence :: "SubmissionEvidence list"
  vw_submittedAt :: int
  vw_status :: SubmissionLifecycle
  vw_reviewedAt :: "int option"
  vw_reviewReason :: "string option"
  vw_cancelledAt :: "int option"
  vw_cancellationReason :: "string option"

fun submission_lifecycle :: "SubmissionStatus \<Rightarrow> SubmissionLifecycle" where
  "submission_lifecycle SS_pending = SL_pending"
| "submission_lifecycle (SS_accepted by at) = SL_accepted"
| "submission_lifecycle (SS_rejected by at reason) = SL_rejected"
| "submission_lifecycle (SS_cancelled by at reason) = SL_cancelled"

definition submissionView :: "TaskSubmission \<Rightarrow> string \<Rightarrow> SubmissionView" where
  "submissionView submission taskKey =
     (let base = \<lparr>vw_id = ts_publicId submission, vw_taskKey = taskKey, vw_agentId = fst (ts_submittedBy submission),
            vw_reviewRevision = ts_reviewRevision submission, vw_summary = ts_summary submission,
            vw_evidence = ts_evidence submission, vw_submittedAt = ts_submittedAt submission,
            vw_status = submission_lifecycle (ts_status submission), vw_reviewedAt = None, vw_reviewReason = None,
            vw_cancelledAt = None, vw_cancellationReason = None\<rparr> in
      case ts_status submission of
        SS_pending \<Rightarrow> base
      | SS_accepted by at \<Rightarrow> base \<lparr>vw_reviewedAt := Some at\<rparr>
      | SS_rejected by at reason \<Rightarrow> base \<lparr>vw_reviewedAt := Some at, vw_reviewReason := Some reason\<rparr>
      | SS_cancelled by at reason \<Rightarrow> base \<lparr>vw_cancelledAt := Some at, vw_cancellationReason := Some reason\<rparr>)"

record SubmissionMutationData =
  sv_task :: TaskView
  sv_submission :: SubmissionView

text \<open>
  What a review or a cancellation keeps of a submission: the columns the code lists, and no others.
\<close>

definition pendingSubmissionBase :: "TaskSubmission \<Rightarrow> SubmissionStatus \<Rightarrow> TaskSubmission" where
  "pendingSubmissionBase submission status =
     \<lparr>ts_id = ts_id submission, ts_organizationId = ts_organizationId submission,
      ts_workspaceId = ts_workspaceId submission, ts_taskId = ts_taskId submission,
      ts_publicId = ts_publicId submission, ts_dispatchPublicId = None,
      ts_submittedBy = ts_submittedBy submission, ts_reviewRevision = ts_reviewRevision submission,
      ts_summary = ts_summary submission, ts_evidence = ts_evidence submission,
      ts_submittedAt = ts_submittedAt submission, ts_status = status\<rparr>"

definition submissionHasTaskOwnership :: "Task \<Rightarrow> TaskSubmission \<Rightarrow> bool" where
  "submissionHasTaskOwnership task submission \<longleftrightarrow>
     taskScopedRecordMatches (task_scope task)
       (ts_organizationId submission, ts_workspaceId submission, ts_taskId submission)"

definition pendingSubmissionsForTask :: "Db \<Rightarrow> Task \<Rightarrow> TaskSubmission list" where
  "pendingSubmissionsForTask db task =
     take 2 (sort_key ts_submittedAt (filter (\<lambda>s. ts_workspaceId s = tk_workspaceId task \<and>
       ts_taskId s = tk_id task \<and> ts_status s = SS_pending) (db_submissions db)))"

definition patch_submission :: "nat \<Rightarrow> (TaskSubmission \<Rightarrow> TaskSubmission) \<Rightarrow> Db \<Rightarrow> Db" where
  "patch_submission i f db = db \<lparr>db_submissions := patch_row ts_id i f (db_submissions db)\<rparr>"

definition activeWorkspaceUsage :: "Db \<Rightarrow> nat \<Rightarrow> WorkspaceUsage option option" where
  "activeWorkspaceUsage db workspaceId = unique_row (filter (\<lambda>u. us_workspaceId u = workspaceId) (db_usage db))"

definition patch_usage :: "WorkspaceUsage \<Rightarrow> int \<Rightarrow> int \<Rightarrow> Db \<Rightarrow> Db" where
  "patch_usage usage activeTasks now db = db \<lparr>db_usage := patch_row us_id (us_id usage)
     (\<lambda>u. u \<lparr>us_activeTasks := activeTasks, us_updatedAt := now\<rparr>) (db_usage db)\<rparr>"

subsection \<open>Humans\<close>

text \<open>The verified token of a request is an argument: its subject and organization claim.\<close>

record HumanIdentity =
  hi_subject :: string
  hi_organizationId :: "string option"

record AuthorizedHuman =
  ah_subject :: string
  ah_user :: User
  ah_organization :: Organization
  ah_role :: string
  ah_workspace :: Workspace
  ah_workspaceMembership :: "WorkspaceMembership option"

definition findHumanUser :: "Db \<Rightarrow> string \<Rightarrow> User option option" where
  "findHumanUser db workosUserId =
     (case unique_row (filter (\<lambda>u. hu_workosUserId u = Some workosUserId) (db_users db)) of
        None \<Rightarrow> None
      | Some (Some byWorkos) \<Rightarrow> Some (Some byWorkos)
      | Some None \<Rightarrow> unique_row (filter (\<lambda>u. hu_publicId u = workosUserId) (db_users db)))"

definition authorizeOrganizationHuman ::
  "Db \<Rightarrow> HumanIdentity option \<Rightarrow> string \<Rightarrow> string list option \<Rightarrow>
   (DomainError + User \<times> Organization \<times> OrganizationMembership) option" where
  "authorizeOrganizationHuman db identified requestId allowedRoles =
     (case identified of
        None \<Rightarrow> Some (Inl (domainFailure EC_AUTHENTICATION_FAILED requestId []))
      | Some identity \<Rightarrow>
     (case hi_organizationId identity of
        None \<Rightarrow> Some (Inl (domainFailure EC_ORGANIZATION_REQUIRED requestId []))
      | Some workosOrganizationId \<Rightarrow>
     (case (findHumanUser db (hi_subject identity),
            unique_row (filter (\<lambda>org. og_workosOrganizationId org = Some workosOrganizationId) (db_organizations db))) of
        (Some user, Some (Some organization)) \<Rightarrow>
          (if og_status organization = ''provisioning''
           then Some (Inl (domainFailure EC_PROVISIONING_IN_PROGRESS requestId [(''retryAfterMs'', DT_number 1000)]))
           else if og_status organization = ''failed''
           then Some (Inl (domainFailure EC_PROVISIONING_FAILED requestId []))
           else case user of
             None \<Rightarrow> Some (Inl (domainFailure EC_MEMBERSHIP_INACTIVE requestId []))
           | Some u \<Rightarrow>
               (if og_status organization \<noteq> ''active'' \<or> hu_status u \<noteq> ''active''
                then Some (Inl (domainFailure EC_MEMBERSHIP_INACTIVE requestId []))
                else case unique_row (filter (\<lambda>m. om_organizationId m = og_id organization \<and> om_userId m = hu_id u)
                       (db_memberships db)) of
                  None \<Rightarrow> None
                | Some None \<Rightarrow> Some (Inl (domainFailure EC_MEMBERSHIP_INACTIVE requestId []))
                | Some (Some membership) \<Rightarrow>
                    (if om_status membership \<noteq> ''active''
                     then Some (Inl (domainFailure EC_MEMBERSHIP_INACTIVE requestId []))
                     else if (case allowedRoles of None \<Rightarrow> False | Some roles \<Rightarrow> om_role membership \<notin> set roles)
                     then Some (Inl (domainFailure EC_WORKSPACE_ROLE_REQUIRED requestId []))
                     else Some (Inr (u, organization, membership)))))
      | (Some user, Some None) \<Rightarrow> Some (Inl (domainFailure EC_ORGANIZATION_MISMATCH requestId []))
      | _ \<Rightarrow> None)))"

definition authorizeWorkspaceHuman ::
  "Db \<Rightarrow> HumanIdentity option \<Rightarrow> string \<Rightarrow> string \<Rightarrow> bool \<Rightarrow> (DomainError + AuthorizedHuman) option" where
  "authorizeWorkspaceHuman db identified requestId workspacePublicId requireOrganizationAdmin =
     (case authorizeOrganizationHuman db identified requestId
             (if requireOrganizationAdmin then Some [''owner'', ''admin''] else None) of
        None \<Rightarrow> None
      | Some (Inl err) \<Rightarrow> Some (Inl err)
      | Some (Inr (user, organization, membership)) \<Rightarrow>
     (case unique_row (filter (\<lambda>w. ws_publicId w = workspacePublicId) (db_workspaces db)) of
        None \<Rightarrow> None
      | Some None \<Rightarrow> Some (Inl (domainFailure EC_NOT_FOUND requestId []))
      | Some (Some workspace) \<Rightarrow>
     (if ws_organizationId workspace \<noteq> og_id organization \<or> ws_status workspace \<noteq> ''active''
      then Some (Inl (domainFailure EC_NOT_FOUND requestId []))
      else let base = \<lparr>ah_subject = hi_subject (the identified), ah_user = user, ah_organization = organization,
             ah_role = om_role membership, ah_workspace = workspace, ah_workspaceMembership = None\<rparr> in
      if om_role membership = ''owner'' \<or> om_role membership = ''admin'' then Some (Inr base)
      else case unique_row (filter (\<lambda>m. wm_workspaceId m = ws_id workspace \<and> wm_userId m = hu_id user)
             (db_workspaceMemberships db)) of
        None \<Rightarrow> None
      | Some None \<Rightarrow> Some (Inl (domainFailure EC_NOT_FOUND requestId []))
      | Some (Some workspaceMembership) \<Rightarrow>
          (if wm_status workspaceMembership \<noteq> ''active'' then Some (Inl (domainFailure EC_NOT_FOUND requestId []))
           else Some (Inr (base \<lparr>ah_workspaceMembership := Some workspaceMembership\<rparr>))))))"

text \<open>A planner or a reviewer: an owner or admin of the organization, or a member with that role.\<close>

definition authorize_role ::
  "string \<Rightarrow> Db \<Rightarrow> HumanIdentity option \<Rightarrow> string \<Rightarrow> string \<Rightarrow> (DomainError + AuthorizedHuman) option" where
  "authorize_role role db identified requestId workspacePublicId =
     (case authorizeWorkspaceHuman db identified requestId workspacePublicId False of
        None \<Rightarrow> None
      | Some (Inl err) \<Rightarrow> Some (Inl err)
      | Some (Inr authorization) \<Rightarrow>
          (if ah_role authorization \<noteq> ''owner'' \<and> ah_role authorization \<noteq> ''admin'' \<and>
              (case ah_workspaceMembership authorization of None \<Rightarrow> True | Some m \<Rightarrow> role \<notin> set (wm_roles m))
           then Some (Inl (domainFailure EC_WORKSPACE_ROLE_REQUIRED requestId []))
           else Some (Inr authorization)))"

abbreviation authorizePlanner ::
  "Db \<Rightarrow> HumanIdentity option \<Rightarrow> string \<Rightarrow> string \<Rightarrow> (DomainError + AuthorizedHuman) option" where
  "authorizePlanner \<equiv> authorize_role ''planner''"

record HumanReceiptIdentity =
  hj_kind :: string
  hj_principalId :: string
  hj_organizationId :: "nat option"

definition humanReceiptIdentity :: "AuthorizedHuman \<Rightarrow> HumanReceiptIdentity" where
  "humanReceiptIdentity authorization =
     \<lparr>hj_kind = ''organization'', hj_principalId = ah_subject authorization,
      hj_organizationId = Some (og_id (ah_organization authorization))\<rparr>"

definition humanActor :: "AuthorizedHuman \<Rightarrow> EventActor" where
  "humanActor authorization = EA_human (hu_publicId (ah_user authorization))"

definition lookupHumanReceipt ::
  "(string \<Rightarrow> 'd option) \<Rightarrow> Db \<Rightarrow> HumanReceiptIdentity \<Rightarrow> string \<Rightarrow> string \<Rightarrow> string \<Rightarrow> string \<Rightarrow> 'd ReceiptLookup option" where
  "lookupHumanReceipt parse db identity operation idempotencyKey requestDigest requestId =
     (case unique_row (filter (\<lambda>r. hk_principalKind r = hj_kind identity \<and> hk_principalId r = hj_principalId identity \<and>
             hk_organizationId r = hj_organizationId identity \<and> hk_operation r = operation \<and>
             hk_idempotencyKey r = idempotencyKey) (db_humanReceipts db)) of
        None \<Rightarrow> None
      | Some None \<Rightarrow> Some RL_none
      | Some (Some receipt) \<Rightarrow>
          (if hk_requestDigest receipt \<noteq> requestDigest \<or> hk_organizationId receipt \<noteq> hj_organizationId identity
           then Some (RL_failure (domainFailure EC_IDEMPOTENCY_CONFLICT requestId []))
           else case parse (hk_responseJson receipt) of
             None \<Rightarrow> Some (RL_failure (domainFailure EC_INTERNAL_ERROR requestId []))
           | Some data \<Rightarrow> Some (RL_replay data (hk_requestId receipt))))"

definition storeHumanReceipt ::
  "('d \<Rightarrow> string) \<Rightarrow> HumanReceiptIdentity \<Rightarrow> string \<Rightarrow> string \<Rightarrow> string \<Rightarrow> string \<Rightarrow> 'd \<Rightarrow> int \<Rightarrow> Db \<Rightarrow> Db option" where
  "storeHumanReceipt stringify identity operation idempotencyKey requestDigest requestId data now db =
     (let responseJson = stringify data in
      if int (length responseJson) > MAX_COMMAND_RECEIPT_BYTES then None
      else if \<not> canonical_digest requestDigest then None
      else Some (db \<lparr>db_next := Suc (db_next db),
        db_humanReceipts := db_humanReceipts db @
          [\<lparr>hk_principalKind = hj_kind identity, hk_principalId = hj_principalId identity,
            hk_organizationId = hj_organizationId identity, hk_operation = operation,
            hk_idempotencyKey = idempotencyKey, hk_requestDigest = requestDigest, hk_requestId = requestId,
            hk_responseJson = responseJson, hk_createdAt = now,
            hk_expiresAt = now + IDEMPOTENCY_WINDOW_MS\<rparr>]\<rparr>))"

end
