(* ===== verification/DependencyCommands.thy ===== *)
theory DependencyCommands
  imports WorkStore
begin

text \<open>
  Adding and removing a dependency: \<open>validateDependencyCycleIntegrityDb\<close> and
  \<open>mutateTaskDependency\<close> of \<open>apps/web/convex/workGraph.ts\<close>, and what a passed cycle check shows of
  the stored graph.
\<close>

subsection \<open>The cycle check over stored rows\<close>

text \<open>The index by workspace, blocker and creation time.\<close>

definition blocking_edges :: "Db \<Rightarrow> nat \<Rightarrow> nat \<Rightarrow> TaskDependency list" where
  "blocking_edges db workspaceId blockerId = sort_key dp_createdAt
     (filter (\<lambda>d. dp_workspaceId d = workspaceId \<and> dp_blockerTaskId d = blockerId) (db_dependencies db))"

datatype CycleCheck = CY_valid | CY_cycle | CY_projection_mismatch | CY_limit_visited | CY_limit_edges

fun scan_edges ::
  "Db \<Rightarrow> nat \<Rightarrow> Task \<Rightarrow> TaskDependency list \<Rightarrow> nat list \<Rightarrow> Task list \<Rightarrow> CycleCheck + nat list \<times> Task list" where
  "scan_edges db blockerId current [] visited queue = Inr (visited, queue)"
| "scan_edges db blockerId current (edge # edges) visited queue =
     (case get_task db (dp_blockedTaskId edge) of
        None \<Rightarrow> Inl CY_projection_mismatch
      | Some neighbor \<Rightarrow>
          (if \<not> dependencyMatchesTasks edge current neighbor then Inl CY_projection_mismatch
           else if dp_blockedTaskId edge = blockerId \<and> dp_blockedTaskId edge \<notin> set visited \<and>
             int (length visited) \<ge> MAX_GRAPH_VISITED_TASKS
           then Inl CY_limit_visited
           else if dp_blockedTaskId edge = blockerId then Inl CY_cycle
           else if dp_blockedTaskId edge \<in> set visited then scan_edges db blockerId current edges visited queue
           else if int (length visited) \<ge> MAX_GRAPH_VISITED_TASKS then Inl CY_limit_visited
           else scan_edges db blockerId current edges (visited @ [dp_blockedTaskId edge]) (queue @ [neighbor])))"

text \<open>What one pass adds, and that it leaves no edge of the task out.\<close>

lemma scan_edges_grows:
  assumes "scan_edges db blockerId current edges visited queue = Inr (v, q)"
  shows "\<exists>new. v = visited @ map tk_id new \<and> q = queue @ new \<and>
    (new \<noteq> [] \<longrightarrow> int (length v) \<le> MAX_GRAPH_VISITED_TASKS) \<and>
    (blockerId \<notin> set visited \<longrightarrow> blockerId \<notin> set v) \<and> dp_blockedTaskId ` set edges \<subseteq> set v"
  using assms
proof (induction edges arbitrary: visited queue)
  case Nil
  then show ?case by simp
next
  case (Cons edge edges)
  from Cons.prems obtain neighbor where t: "get_task db (dp_blockedTaskId edge) = Some neighbor"
    by (simp split: option.splits)
  from get_row_Some [OF t] have id: "tk_id neighbor = dp_blockedTaskId edge" by simp
  show ?case
  proof (cases "dp_blockedTaskId edge \<in> set visited")
    case True
    with Cons.prems t have "scan_edges db blockerId current edges visited queue = Inr (v, q)"
      by (simp split: if_splits)
    from Cons.IH [OF this] obtain new where new: "v = visited @ map tk_id new" "q = queue @ new"
      "new \<noteq> [] \<longrightarrow> int (length v) \<le> MAX_GRAPH_VISITED_TASKS"
      "blockerId \<notin> set visited \<longrightarrow> blockerId \<notin> set v" "dp_blockedTaskId ` set edges \<subseteq> set v" by blast
    with True show ?thesis by (intro exI [of _ new]) simp
  next
    case False
    with Cons.prems t have "scan_edges db blockerId current edges (visited @ [tk_id neighbor]) (queue @ [neighbor]) = Inr (v, q)"
      and small: "int (length visited) < MAX_GRAPH_VISITED_TASKS" and other: "tk_id neighbor \<noteq> blockerId"
      by (simp_all add: id split: if_splits)
    from Cons.IH [OF this(1)] obtain new where new: "v = visited @ map tk_id (neighbor # new)" "q = queue @ neighbor # new"
      "new \<noteq> [] \<longrightarrow> int (length v) \<le> MAX_GRAPH_VISITED_TASKS"
      "blockerId \<notin> set (visited @ [tk_id neighbor]) \<longrightarrow> blockerId \<notin> set v" "dp_blockedTaskId ` set edges \<subseteq> set v" by auto
    with small other id show ?thesis by (intro exI [of _ "neighbor # new"]) (cases "new = []", auto)
  qed
qed

lemma scan_edges_not_valid: "scan_edges db blockerId current edges visited queue \<noteq> Inl CY_valid"
  by (induction edges arbitrary: visited queue) (auto split: option.split)

function search_edges :: "Db \<Rightarrow> nat \<Rightarrow> nat \<Rightarrow> nat list \<Rightarrow> Task list \<Rightarrow> int \<Rightarrow> CycleCheck" where
  "search_edges db workspaceId blockerId visited [] examinedEdges = CY_valid"
| "search_edges db workspaceId blockerId visited (current # queue) examinedEdges =
     (let remaining = MAX_GRAPH_EXAMINED_EDGES - examinedEdges in
      if remaining \<le> 0 then CY_limit_edges
      else let edges = take (nat (remaining + 1)) (blocking_edges db workspaceId (tk_id current)) in
        if int (length edges) > remaining then CY_limit_edges
        else case scan_edges db blockerId current edges visited queue of
          Inl result \<Rightarrow> result
        | Inr (v, q) \<Rightarrow> search_edges db workspaceId blockerId v q (examinedEdges + int (length edges)))"
  by pat_completeness auto
termination
proof (relation "measure (\<lambda>(db, workspaceId, blockerId, visited, queue, examinedEdges).
    nat (MAX_GRAPH_VISITED_TASKS - int (length visited)) + length queue)", goal_cases)
  case 1
  show ?case by simp
next
  case (2 db workspaceId blockerId visited current queue examinedEdges remaining edges b v q)
  from 2 have eq: "scan_edges db blockerId current edges visited queue = Inr (v, q)" by simp
  from scan_edges_grows [OF eq] obtain new where
    "v = visited @ map tk_id new" "q = queue @ new" "new \<noteq> [] \<longrightarrow> int (length v) \<le> MAX_GRAPH_VISITED_TASKS" by blast
  then show ?case by (cases "new = []") auto
qed

definition validateDependencyCycleIntegrityDb :: "Db \<Rightarrow> nat \<Rightarrow> nat \<Rightarrow> nat \<Rightarrow> CycleCheck" where
  "validateDependencyCycleIntegrityDb db workspaceId blockerId blockedId =
     (if blockerId = blockedId then CY_cycle
      else case (get_task db blockerId, get_task db blockedId) of
        (Some blockerRoot, Some blockedRoot) \<Rightarrow>
          (if tk_workspaceId blockerRoot \<noteq> workspaceId \<or> tk_workspaceId blockedRoot \<noteq> workspaceId \<or>
              tk_organizationId blockerRoot \<noteq> tk_organizationId blockedRoot
           then CY_projection_mismatch
           else search_edges db workspaceId blockerId [blockedId] [blockedRoot] 0)
      | _ \<Rightarrow> CY_projection_mismatch)"

text \<open>The stored graph: an edge from the blocker to the blocked task of every row of a workspace.\<close>

definition dependency_pairs :: "Db \<Rightarrow> (nat \<times> nat) set" where
  "dependency_pairs db = (\<lambda>d. (dp_blockerTaskId d, dp_blockedTaskId d)) ` set (db_dependencies db)"

definition workspace_pairs :: "Db \<Rightarrow> nat \<Rightarrow> (nat \<times> nat) set" where
  "workspace_pairs db workspaceId = (\<lambda>d. (dp_blockerTaskId d, dp_blockedTaskId d)) `
     {d \<in> set (db_dependencies db). dp_workspaceId d = workspaceId}"

lemma blocking_edges_image:
  "dp_blockedTaskId ` set (blocking_edges db workspaceId i) = workspace_pairs db workspaceId `` {i}"
  by (auto simp: blocking_edges_def workspace_pairs_def)

text \<open>The search keeps a set that every edge of a finished task leads into, and without the blocker.\<close>

lemma search_edges_closed:
  assumes "search_edges db workspaceId blockerId visited queue examinedEdges = CY_valid"
    and "blockerId \<notin> set visited" "tk_id ` set queue \<subseteq> set visited"
    and "workspace_pairs db workspaceId `` (set visited - tk_id ` set queue) \<subseteq> set visited"
  shows "\<exists>closed. set visited \<subseteq> closed \<and> blockerId \<notin> closed \<and> workspace_pairs db workspaceId `` closed \<subseteq> closed"
  using assms
proof (induction db workspaceId blockerId visited queue examinedEdges rule: search_edges.induct)
  case (1 db workspaceId blockerId visited examinedEdges)
  then show ?case by (intro exI [of _ "set visited"]) simp
next
  case (2 db workspaceId blockerId visited current queue examinedEdges)
  let ?remaining = "MAX_GRAPH_EXAMINED_EDGES - examinedEdges"
  let ?all = "blocking_edges db workspaceId (tk_id current)"
  let ?edges = "take (nat (?remaining + 1)) ?all"
  from 2(2) have r: "\<not> ?remaining \<le> 0" "\<not> int (length ?edges) > ?remaining"
    by (auto simp: Let_def split: if_splits)
  then have whole: "?edges = ?all" by (cases "length ?all \<le> nat (?remaining + 1)") auto
  note run = 2(2) [unfolded search_edges.simps Let_def if_not_P [OF r(1)] if_not_P [OF r(2)]]
  obtain v q where scanned: "scan_edges db blockerId current ?edges visited queue = Inr (v, q)"
    and rest: "search_edges db workspaceId blockerId v q (examinedEdges + int (length ?edges)) = CY_valid"
  proof (cases "scan_edges db blockerId current ?edges visited queue")
    case (Inl result)
    from run [unfolded Inl sum.case] scan_edges_not_valid Inl show ?thesis by metis
  next
    case (Inr p)
    from run [unfolded Inr sum.case] Inr that show ?thesis by (cases p) simp
  qed
  from scan_edges_grows [OF scanned] obtain new where new: "v = visited @ map tk_id new" "q = queue @ new"
    "blockerId \<notin> set visited \<longrightarrow> blockerId \<notin> set v" "dp_blockedTaskId ` set ?edges \<subseteq> set v" by blast
  have mine: "workspace_pairs db workspaceId `` {tk_id current} \<subseteq> set v"
    using new(4) unfolding whole blocking_edges_image .
  have "tk_id ` set q \<subseteq> set v" using 2(4) new(1,2) by auto
  moreover have "workspace_pairs db workspaceId `` (set v - tk_id ` set q) \<subseteq> set v"
    using 2(5) mine new(1,2) by auto
  ultimately have "\<exists>closed. set v \<subseteq> closed \<and> blockerId \<notin> closed \<and> workspace_pairs db workspaceId `` closed \<subseteq> closed"
    using 2(3) new(3) by (intro 2(1) [OF refl r(1) refl r(2) scanned refl rest]) simp_all
  with new(1) show ?case by auto
qed

declare search_edges.simps [simp del]

lemma closed_reachable:
  assumes "r `` closed \<subseteq> closed" "(a, b) \<in> r\<^sup>*" "a \<in> closed"
  shows "b \<in> closed"
  using assms(2,3,1) by (induction rule: rtrancl_induct) auto

lemma valid_not_reachable:
  assumes "validateDependencyCycleIntegrityDb db workspaceId blockerId blockedId = CY_valid"
  shows "(blockedId, blockerId) \<notin> (workspace_pairs db workspaceId)\<^sup>*"
proof -
  from assms obtain root where root: "get_task db blockedId = Some root" "blockerId \<noteq> blockedId"
    and run: "search_edges db workspaceId blockerId [blockedId] [root] 0 = CY_valid"
    unfolding validateDependencyCycleIntegrityDb_def by (auto split: if_splits option.splits)
  from get_row_Some [OF root(1)] have id: "tk_id root = blockedId" by simp
  have "\<exists>closed. set [blockedId] \<subseteq> closed \<and> blockerId \<notin> closed \<and> workspace_pairs db workspaceId `` closed \<subseteq> closed"
    by (rule search_edges_closed [OF run]) (simp_all add: id root(2))
  then obtain closed where closed: "blockedId \<in> closed" "blockerId \<notin> closed"
    "workspace_pairs db workspaceId `` closed \<subseteq> closed" by auto
  from closed_reachable [OF closed(3) _ closed(1), of blockerId] closed(2) show ?thesis by blast
qed

subsection \<open>Adding and removing\<close>

record DependencyArgs = AgentArgs +
  wa_key :: string
  wa_blockerKey :: string
  wa_revision :: int
  wa_fence :: "int option"
  wa_remove :: bool

record DependencyData =
  dd_blockerKey :: string
  dd_blockedKey :: string
  dd_createdAt :: int
  dd_task :: TaskView

text \<open>The view of a row reads both of its tasks, as they are after the command.\<close>

definition dependencyView :: "Db \<Rightarrow> TaskDependency \<Rightarrow> (string \<times> string \<times> int) option" where
  "dependencyView db dependency =
     (case (get_task db (dp_blockerTaskId dependency), get_task db (dp_blockedTaskId dependency)) of
        (Some blocker, Some blocked) \<Rightarrow>
          (if \<not> dependencyMatchesTasks dependency blocker blocked then None
           else Some (tk_key blocker, tk_key blocked, dp_createdAt dependency))
      | _ \<Rightarrow> None)"

text \<open>The checks that an insertion makes: bounds, the rows of the blocker, and the cycle.\<close>

definition dependents_mismatch :: "Db \<Rightarrow> Task \<Rightarrow> TaskDependency list \<Rightarrow> bool" where
  "dependents_mismatch db blocker dependents \<longleftrightarrow>
     list_ex (\<lambda>d. case get_task db (dp_blockedTaskId d) of None \<Rightarrow> True
       | Some blockedTask \<Rightarrow> \<not> dependencyMatchesTasks d blocker blockedTask) dependents"

definition admit_insertion :: "Task \<Rightarrow> Task \<Rightarrow> int \<Rightarrow> string \<Rightarrow> Db \<Rightarrow> ((DomainError + unit) \<times> Db) option" where
  "admit_insertion task blocker now requestId db =
     (let blockers = blockerRows db task;
          dependents = take (nat (MAX_BLOCKING_DEPENDENTS + 1))
            (blocking_edges db (tk_workspaceId blocker) (tk_id blocker)) in
      if int (length blockers) \<ge> MAX_DIRECT_BLOCKERS
      then refuse EC_BLOCKER_LIMIT requestId (blocking_details task (int (length blockers))) db
      else if dependents_mismatch db blocker dependents
      then repair_and_refuse task RK_task_readiness now requestId (state_details task) db
      else if int (length dependents) \<ge> MAX_BLOCKING_DEPENDENTS
      then refuse EC_DEPENDENT_LIMIT requestId (blocking_details blocker (int (length dependents))) db
      else case validateDependencyCycleIntegrityDb db (tk_workspaceId task) (tk_id blocker) (tk_id task) of
        CY_cycle \<Rightarrow> refuse EC_DEPENDENCY_CYCLE requestId (state_details task) db
      | CY_projection_mismatch \<Rightarrow> repair_and_refuse task RK_task_readiness now requestId (state_details task) db
      | CY_limit_visited \<Rightarrow> refuse EC_GRAPH_VALIDATION_LIMIT requestId
          (state_details task @ [(''exhaustedLimit'', DT_text ''visited_tasks'')]) db
      | CY_limit_edges \<Rightarrow> refuse EC_GRAPH_VALIDATION_LIMIT requestId
          (state_details task @ [(''exhaustedLimit'', DT_text ''examined_edges'')]) db
      | CY_valid \<Rightarrow> Some (Inr (), db))"

text \<open>The blocked task with its new counters: what a change of its rows or of a blocker's status writes.\<close>

definition recounted :: "int \<Rightarrow> int \<Rightarrow> EventActor \<Rightarrow> int \<Rightarrow> Task \<Rightarrow> Task" where
  "recounted unresolvedCount cancelledCount actor now t =
     (let counters = \<lparr>unresolved = unresolvedCount, cancelled = cancelledCount\<rparr>;
          ready = derivedReady (tk_status t) (tk_availableAt t) now counters in
      t \<lparr>tk_isReady := ready, tk_isBlocked := Some (unresolvedCount + cancelledCount > 0),
         tk_needsAttention := Some (derivedNeedsAttention (tk_status t) counters),
         tk_unresolvedBlockerCount := unresolvedCount, tk_cancelledBlockerCount := cancelledCount,
         tk_revision := tk_revision t + 1, tk_reviewRevision := tk_reviewRevision t + 1,
         tk_readySince := (if ready then Some (case tk_readySince t of None \<Rightarrow> now | Some since \<Rightarrow> since) else None),
         tk_lastEditedBy := Some actor, tk_updatedAt := now\<rparr>)"

definition dependency_rows ::
  "bool \<Rightarrow> Task \<Rightarrow> Task \<Rightarrow> TaskDependency option \<Rightarrow> EventActor \<Rightarrow> int \<Rightarrow> Db \<Rightarrow> (TaskDependency \<times> Db) option" where
  "dependency_rows remove task blocker existing actor now db =
     (if remove
      then (case existing of
              None \<Rightarrow> None
            | Some row \<Rightarrow> Some (row, db \<lparr>db_dependencies := filter (\<lambda>d. dp_id d \<noteq> dp_id row) (db_dependencies db)\<rparr>))
      else (let row = \<lparr>dp_organizationId = tk_organizationId task, dp_workspaceId = tk_workspaceId task,
              dp_blockerTaskId = tk_id blocker, dp_blockedTaskId = tk_id task, dp_kind = ''blocks'',
              dp_id = db_next db, dp_createdBy = actor, dp_createdAt = now\<rparr> in
            Some (row, db \<lparr>db_next := Suc (db_next db), db_dependencies := db_dependencies db @ [row]\<rparr>)))"

definition existing_dependency :: "Db \<Rightarrow> Task \<Rightarrow> Task \<Rightarrow> TaskDependency option option" where
  "existing_dependency db task blocker =
     unique_row (filter (\<lambda>d. dp_workspaceId d = tk_workspaceId task \<and> dp_blockerTaskId d = tk_id blocker \<and>
       dp_blockedTaskId d = tk_id task) (db_dependencies db))"

text \<open>The rows, the counters and the event; a count below zero is refused with the row already changed.\<close>

definition dependency_writes ::
  "(nat \<Rightarrow> string) \<Rightarrow> 'z DependencyArgs_scheme \<Rightarrow> EventActor \<Rightarrow> Task \<Rightarrow> Task \<Rightarrow> TaskDependency option \<Rightarrow> int \<Rightarrow> Db \<Rightarrow>
   ((DomainError + TaskDependency) \<times> Db) option" where
  "dependency_writes fresh args actor task blocker existing now db =
     (case dependency_rows (wa_remove args) task blocker existing actor now db of
        None \<Rightarrow> refuse EC_NOT_FOUND (ca_requestId args) [] db
      | Some (dependency, db1) \<Rightarrow>
          (let contribution = blockerContribution (tk_status blocker);
               unresolvedCount = tk_unresolvedBlockerCount task +
                 (if wa_remove args then - unresolved contribution else unresolved contribution);
               cancelledCount = tk_cancelledBlockerCount task +
                 (if wa_remove args then - cancelled contribution else cancelled contribution) in
           if unresolvedCount < 0 \<or> cancelledCount < 0
           then repair_and_refuse task RK_task_readiness now (ca_requestId args)
             (blocking_details task (task_blocking_count task)) db1
           else (case append_event fresh task
                   (if wa_remove args then ''dependency.removed'' else ''dependency.added'') actor
                   (client_command args)
                   [(''blockerTaskId'', DT_text (tk_publicId blocker)), (''blockedTaskId'', DT_text (tk_publicId task))] now
                   (patch_task (tk_id task) (recounted unresolvedCount cancelledCount actor now) db1) of
                   None \<Rightarrow> None
                 | Some db2 \<Rightarrow> Some (Inr dependency, db2))))"

definition complete_dependency ::
  "DependencyData ReceiptCodec \<Rightarrow> string \<Rightarrow> 'z DependencyArgs_scheme \<Rightarrow> AuthorizedAgent \<Rightarrow> nat \<Rightarrow> TaskDependency \<Rightarrow>
   int \<Rightarrow> Db \<Rightarrow> ((DomainError + DependencyData \<times> string) \<times> Db) option" where
  "complete_dependency codec operation args authorization taskId dependency now db =
     (case Option.bind (get_task db taskId) taskView of
        None \<Rightarrow> None
      | Some view \<Rightarrow>
          (case dependencyView db dependency of
             None \<Rightarrow> None
           | Some (blockerKey, blockedKey, createdAt) \<Rightarrow>
               (let data = \<lparr>dd_blockerKey = blockerKey, dd_blockedKey = blockedKey, dd_createdAt = createdAt,
                      dd_task = view\<rparr> in
                case storeReceipt (rx_stringify codec) (receiptIdentity authorization) operation
                       (ca_idempotencyKey args) (ca_requestDigest args) (ca_requestId args) data now db of
                  None \<Rightarrow> None
                | Some db1 \<Rightarrow>
                    Some (Inr (data, ca_requestId args), touchAuthorizedAgent authorization now db1))))"

text \<open>The checks between the loaded task and the writes.\<close>

definition admit_dependency ::
  "'z DependencyArgs_scheme \<Rightarrow> AuthorizedAgent \<Rightarrow> Task \<Rightarrow> int \<Rightarrow> Db \<Rightarrow>
   ((DomainError + Task \<times> TaskDependency option) \<times> Db) option" where
  "admit_dependency args authorization task now db =
     (let requestId = ca_requestId args in
      case taskByKey db (tk_workspaceId task) (wa_blockerKey args) of
        None \<Rightarrow> None
      | Some None \<Rightarrow> refuse EC_NOT_FOUND requestId [] db
      | Some (Some blocker) \<Rightarrow>
     (if \<not> taskMatchesAuthorizedScope (tk_organizationId blocker, tk_workspaceId blocker)
             (au_organizationId authorization, au_workspaceId authorization)
      then repair_and_refuse task RK_task_readiness now requestId (state_details task) db
      else if tk_id blocker = tk_id task then refuse EC_DEPENDENCY_CYCLE requestId (state_details task) db
      else case ensureCounterProjection task now requestId db of
        None \<Rightarrow> None
      | Some (Inl err, db1) \<Rightarrow> Some (Inl err, db1)
      | Some (Inr actual, db1) \<Rightarrow>
     (case existing_dependency db1 task blocker of
        None \<Rightarrow> None
      | Some existing \<Rightarrow>
     (if (case existing of None \<Rightarrow> False | Some row \<Rightarrow> \<not> dependencyMatchesTasks row blocker task)
      then repair_and_refuse task RK_task_readiness now requestId (state_details task) db1
      else if \<not> wa_remove args \<and> \<not> Option.is_none existing
      then refuse EC_DEPENDENCY_DUPLICATE requestId (state_details task) db1
      else if wa_remove args \<and> Option.is_none existing then refuse EC_NOT_FOUND requestId [] db1
      else if wa_remove args then Some (Inr (blocker, existing), db1)
      else case admit_insertion task blocker now requestId db1 of
        None \<Rightarrow> None
      | Some (Inl err, db2) \<Rightarrow> Some (Inl err, db2)
      | Some (Inr u, db2) \<Rightarrow> Some (Inr (blocker, existing), db2)))))"

definition mutateTaskDependency ::
  "DependencyData ReceiptCodec \<Rightarrow> (nat \<Rightarrow> string) \<Rightarrow> 'z DependencyArgs_scheme \<Rightarrow> int \<Rightarrow> Db \<Rightarrow>
   ((DomainError + DependencyData \<times> string) \<times> Db) option" where
  "mutateTaskDependency codec fresh args now db =
     (let operation = (if wa_remove args then ''tasks.dependencies.remove'' else ''tasks.dependencies.add'') in
      case assertRequestMetadata (ca_idempotencyKey args) (ca_requestDigest args) (ca_requestId args) now of
        Some err \<Rightarrow> Some (Inl err, db)
      | None \<Rightarrow>
     (case command_prologue (rx_parse codec) operation ''dependencies:write'' RC_agent_write args now db of
        None \<Rightarrow> None
      | Some (PG_done result db1) \<Rightarrow> Some (result, db1)
      | Some (PG_go authorization db1) \<Rightarrow>
     (case loadMutableAgentTask authorization (wa_key args) (wa_revision args) (wa_fence args) now (ca_requestId args) db1 of
        None \<Rightarrow> None
      | Some (Inl err, db2) \<Rightarrow> Some (Inl err, db2)
      | Some (Inr task, db2) \<Rightarrow>
     (case admit_dependency args authorization task now db2 of
        None \<Rightarrow> None
      | Some (Inl err, db3) \<Rightarrow> Some (Inl err, db3)
      | Some (Inr (blocker, existing), db3) \<Rightarrow>
     (case dependency_writes fresh args (agentActor authorization) task blocker existing now db3 of
        None \<Rightarrow> None
      | Some (Inl err, db4) \<Rightarrow> Some (Inl err, db4)
      | Some (Inr dependency, db4) \<Rightarrow>
          complete_dependency codec operation args authorization (tk_id task) dependency now db4)))))"

end
