(* ===== verification/StatusCommands.thy ===== *)
theory StatusCommands
  imports DependencyCommands
begin

text \<open>
  The mutations of \<open>apps/web/convex/workGraph.ts\<close> that move a task between its statuses and carry
  the change to its dependents: \<open>propagateBlockerTransition\<close>, \<open>submitTask\<close>,
  \<open>reviewSubmissionTransition\<close> with \<open>reviewTaskForAgent\<close>, \<open>cancelTaskForHuman\<close> and
  \<open>reopenTaskForHuman\<close>, each the whole handler.
\<close>

subsection \<open>Carrying a status change to the dependents\<close>

definition loadBlockingDependents :: "Db \<Rightarrow> Task \<Rightarrow> TaskDependency list" where
  "loadBlockingDependents db blocker =
     take (nat (MAX_BLOCKING_DEPENDENTS + 1)) (blocking_edges db (tk_workspaceId blocker) (tk_id blocker))"

definition task_counters :: "Task \<Rightarrow> blocker_counters" where
  "task_counters t = \<lparr>unresolved = tk_unresolvedBlockerCount t, cancelled = tk_cancelledBlockerCount t\<rparr>"

definition compactCountersAreValid :: "Task \<Rightarrow> int \<Rightarrow> bool" where
  "compactCountersAreValid dependent now \<longleftrightarrow>
     is_safe_integer (tk_unresolvedBlockerCount dependent) \<and> tk_unresolvedBlockerCount dependent \<ge> 0 \<and>
     is_safe_integer (tk_cancelledBlockerCount dependent) \<and> tk_cancelledBlockerCount dependent \<ge> 0 \<and>
     task_blocking_count dependent \<le> MAX_DIRECT_BLOCKERS \<and>
     (tk_isBlocked dependent = Some True) = (task_blocking_count dependent > 0) \<and>
     tk_isReady dependent = derivedReady (tk_status dependent) (tk_availableAt dependent) now (task_counters dependent)"

text \<open>The first loop reads and checks every dependent before anything is written.\<close>

datatype propagation =
    PP_mismatch Task "(string \<times> detail) list"
  | PP_plan "(Task \<times> blocker_counters) list"

fun plan_dependents ::
  "Db \<Rightarrow> Task \<Rightarrow> TaskStatus \<Rightarrow> TaskStatus \<Rightarrow> int \<Rightarrow> TaskDependency list \<Rightarrow> nat list \<Rightarrow> propagation" where
  "plan_dependents db blocker previous next' now [] seen = PP_plan []"
| "plan_dependents db blocker previous next' now (edge # edges) seen =
     (case get_task db (dp_blockedTaskId edge) of
        None \<Rightarrow> PP_mismatch blocker (state_details blocker)
      | Some dependent \<Rightarrow>
          (if \<not> dependencyMatchesTasks edge blocker dependent \<or> tk_id dependent \<in> set seen
           then PP_mismatch blocker (state_details blocker)
           else if \<not> compactCountersAreValid dependent now
           then PP_mismatch dependent (blocking_details dependent (task_blocking_count dependent))
           else let counters = transitionBlockerCounters (task_counters dependent) previous next' in
             if unresolved counters < 0 \<or> cancelled counters < 0
             then PP_mismatch dependent (blocking_details dependent (task_blocking_count dependent))
             else case plan_dependents db blocker previous next' now edges (tk_id dependent # seen) of
               PP_mismatch task details \<Rightarrow> PP_mismatch task details
             | PP_plan plan \<Rightarrow> PP_plan ((dependent, counters) # plan)))"

fun write_dependents ::
  "(nat \<Rightarrow> string) \<Rightarrow> EventActor \<Rightarrow> EventCommand \<Rightarrow> int \<Rightarrow> (Task \<times> blocker_counters) list \<Rightarrow> Db \<Rightarrow> Db option" where
  "write_dependents fresh actor command now [] db = Some db"
| "write_dependents fresh actor command now ((dependent, counters) # plan) db =
     (case append_event fresh dependent ''task.updated'' actor command [(''fields'', DT_text ''blockers'')] now
             (patch_task (tk_id dependent) (recounted (unresolved counters) (cancelled counters) actor now) db) of
        None \<Rightarrow> None
      | Some db1 \<Rightarrow> write_dependents fresh actor command now plan db1)"

definition propagateBlockerTransition ::
  "(nat \<Rightarrow> string) \<Rightarrow> Task \<Rightarrow> TaskStatus \<Rightarrow> TaskStatus \<Rightarrow> int \<Rightarrow> EventActor \<Rightarrow> string \<Rightarrow> string \<Rightarrow> int \<Rightarrow> Db \<Rightarrow>
   ((DomainError + unit) \<times> Db) option" where
  "propagateBlockerTransition fresh blocker previous next' directBlockerCount actor idempotencyKey requestId now db =
     (let edges = loadBlockingDependents db blocker in
      if int (length edges) > MAX_BLOCKING_DEPENDENTS \<or>
         Option.is_none (blockerPropagationReadBound directBlockerCount (int (length edges)))
      then refuse EC_DEPENDENT_LIMIT requestId (blocking_details blocker (int (length edges))) db
      else case plan_dependents db blocker previous next' now edges [] of
        PP_mismatch task details \<Rightarrow> repair_and_refuse task RK_task_readiness now requestId details db
      | PP_plan plan \<Rightarrow>
          (case write_dependents fresh actor (EM_client idempotencyKey requestId) now plan db of
             None \<Rightarrow> None
           | Some db1 \<Rightarrow> Some (Inr (), db1)))"

text \<open>The \<open>total\<close> of \<open>actualBlockerCounters\<close>.\<close>

definition direct_blocker_count :: "Db \<Rightarrow> Task \<Rightarrow> int" where
  "direct_blocker_count db task = int (length (blockerRows db task))"

subsection \<open>Submitting\<close>

record SubmitArgs = AgentArgs +
  ub_key :: string
  ub_fence :: int
  ub_expectedReviewRevision :: "int option"
  ub_dispatch :: "SubmissionRequest option"
  ub_summary :: string
  ub_evidence :: "SubmissionEvidence list"
  ub_randomSubmissionId :: string

text \<open>The checks of single items, which rest on the URL parser and the schema library, and the size of the JSON.\<close>

record EvidenceRules =
  er_item :: "SubmissionEvidence \<Rightarrow> bool"
  er_binding :: "SubmissionRequest \<Rightarrow> bool"
  er_contentBytes :: "string \<Rightarrow> SubmissionEvidence list \<Rightarrow> int"

definition MAX_SERIALIZED_SUBMISSION_CONTENT_BYTES :: int where
  "MAX_SERIALIZED_SUBMISSION_CONTENT_BYTES = 400 * 1024"

definition positive_generation :: "int \<Rightarrow> bool" where
  "positive_generation n \<longleftrightarrow> is_safe_integer n \<and> n > 0"

definition not_blank :: "nat \<Rightarrow> string \<Rightarrow> bool" where
  "not_blank limit s \<longleftrightarrow> length s \<le> limit \<and> js_trim s \<noteq> []"

definition submitTaskRequestSchema :: "EvidenceRules \<Rightarrow> 'z SubmitArgs_scheme \<Rightarrow> bool" where
  "submitTaskRequestSchema rules args \<longleftrightarrow>
     positive_generation (ub_fence args) \<and>
     (case ub_expectedReviewRevision args of None \<Rightarrow> True | Some n \<Rightarrow> positive_generation n) \<and>
     (case ub_dispatch args of None \<Rightarrow> True
      | Some binding \<Rightarrow> er_binding rules binding \<and> sr_claimFence binding = ub_fence args) \<and>
     not_blank MAX_SUBMISSION_SUMMARY_BYTES (ub_summary args) \<and>
     1 \<le> length (ub_evidence args) \<and> length (ub_evidence args) \<le> MAX_SUBMISSION_EVIDENCE \<and>
     list_all (er_item rules) (ub_evidence args) \<and>
     er_contentBytes rules (ub_summary args) (ub_evidence args) \<le> MAX_SERIALIZED_SUBMISSION_CONTENT_BYTES"

definition DISPATCH_BOUND_SUBMISSION_PHASES :: "RunPhase list" where
  "DISPATCH_BOUND_SUBMISSION_PHASES =
     [RP_leased, RP_provisioning, RP_starting, RP_running, RP_waiting, RP_cancel_requested, RP_ambiguous]"

datatype ClaimDispatchState = CX_none | CX_bound | CX_corrupt

definition taskClaimDispatchState :: "Db \<Rightarrow> Task \<Rightarrow> TaskClaim \<Rightarrow> ClaimDispatchState" where
  "taskClaimDispatchState db task claim =
     (let phasePages = map (\<lambda>phase. take 2 (filter (\<lambda>d. dr_workspaceId d = tk_workspaceId task \<and>
            dr_taskId d = tk_id task \<and> dr_phase d = phase) (db_dispatches db))) DISPATCH_BOUND_SUBMISSION_PHASES in
      if list_ex (\<lambda>page. length page > 1) phasePages then CX_corrupt
      else case concat phasePages of
        [] \<Rightarrow> CX_none
      | [dispatch] \<Rightarrow>
          (case dr_hold dispatch of
             None \<Rightarrow> CX_corrupt
           | Some hold \<Rightarrow>
               (if dr_organizationId dispatch \<noteq> tk_organizationId task \<or> dr_workspaceId dispatch \<noteq> tk_workspaceId task \<or>
                   dr_taskId dispatch \<noteq> tk_id task \<or> dh_taskClaimId hold \<noteq> cl_id claim \<or>
                   dh_taskClaimPublicId hold \<noteq> cl_publicId claim \<or> dh_claimFence hold \<noteq> cl_fence claim
                then CX_corrupt else CX_bound))
      | _ \<Rightarrow> CX_corrupt)"

definition claim_state_name :: "ClaimState \<Rightarrow> string" where
  "claim_state_name state = (case state of CS_active \<Rightarrow> ''active'' | CS_released \<Rightarrow> ''released''
     | CS_expired \<Rightarrow> ''expired'' | CS_submitted \<Rightarrow> ''submitted'' | CS_replaced \<Rightarrow> ''replaced'')"

definition submission_authority_input ::
  "AuthorizedAgent \<Rightarrow> Task \<Rightarrow> TaskClaim \<Rightarrow> SubmissionRequest \<Rightarrow> DispatchRow \<Rightarrow> DispatchHold \<Rightarrow> DispatchRunnerRow \<Rightarrow>
   DispatchAuthorityRow \<Rightarrow> int \<Rightarrow> DispatchSubmissionAuthorityInput" where
  "submission_authority_input authorization task claim binding dispatch hold runner authority now =
     \<lparr>si_now = now,
      si_authorization = \<lparr>sa_organizationId = decimal (au_organizationId authorization),
        sa_workspaceId = decimal (au_workspaceId authorization), sa_agentId = decimal (au_agentId authorization)\<rparr>,
      si_request = binding,
      si_task = \<lparr>sk_id = decimal (tk_id task), sk_organizationId = decimal (tk_organizationId task),
        sk_workspaceId = decimal (tk_workspaceId task)\<rparr>,
      si_claim = \<lparr>sc_id = decimal (cl_id claim), sc_organizationId = decimal (cl_organizationId claim),
        sc_workspaceId = decimal (cl_workspaceId claim), sc_taskId = decimal (cl_taskId claim),
        sc_agentId = decimal (cl_agentId claim), sc_publicId = cl_publicId claim, sc_fence = cl_fence claim,
        sc_state = claim_state_name (cl_state claim), sc_leaseUntil = cl_leaseUntil claim\<rparr>,
      si_dispatch = \<lparr>sd_publicId = dr_publicId dispatch, sd_organizationId = decimal (dr_organizationId dispatch),
        sd_workspaceId = decimal (dr_workspaceId dispatch), sd_taskId = decimal (dr_taskId dispatch),
        sd_runnerId = decimal (dh_runnerId hold), sd_runnerPublicId = dh_runnerPublicId hold,
        sd_bootId = dh_bootId hold, sd_bootGeneration = dh_bootGeneration hold,
        sd_taskClaimId = decimal (dh_taskClaimId hold), sd_taskClaimPublicId = dh_taskClaimPublicId hold,
        sd_claimFence = dh_claimFence hold, sd_leaseUntil = dh_leaseUntil hold, sd_phase = dr_phase dispatch\<rparr>,
      si_runner = \<lparr>sn_id = decimal (dn_id runner), sn_organizationId = decimal (dn_organizationId runner),
        sn_workspaceId = decimal (dn_workspaceId runner), sn_agentId = decimal (dn_agentId runner),
        sn_publicId = dn_publicId runner, sn_installationId = dn_installationId runner, sn_bootId = dn_bootId runner,
        sn_bootGeneration = dn_bootGeneration runner, sn_leaseUntil = dn_leaseUntil runner\<rparr>,
      si_authority = \<lparr>su_tuple = \<lparr>rt_organizationId = decimal (da_organizationId authority),
          rt_workspaceId = decimal (da_workspaceId authority), rt_runnerId = decimal (da_runnerId authority),
          rt_runnerPublicId = da_runnerPublicId authority, rt_installationId = da_installationId authority\<rparr>,
        su_generation = da_generation authority, su_leaseUntil = da_leaseUntil authority\<rparr>\<rparr>"

datatype SubmissionAuthorityState = SX_current | SX_stale | SX_corrupt

definition dispatchSubmissionAuthorityState ::
  "Db \<Rightarrow> AuthorizedAgent \<Rightarrow> Task \<Rightarrow> TaskClaim \<Rightarrow> SubmissionRequest \<Rightarrow> int \<Rightarrow> SubmissionAuthorityState" where
  "dispatchSubmissionAuthorityState db authorization task claim binding now =
     (let dispatches = take 2 (filter (\<lambda>d. dr_publicId d = sr_runId binding) (db_dispatches db));
          runners = take 2 (filter (\<lambda>r. dn_publicId r = sr_runnerId binding) (db_runners db));
          authorities = take 2 (filter (\<lambda>a. da_workspaceId a = tk_workspaceId task) (db_authorities db)) in
      if length dispatches > 1 \<or> length runners > 1 \<or> length authorities > 1 then SX_corrupt
      else case (dispatches, runners, authorities) of
        (dispatch # _, runner # _, authority # _) \<Rightarrow>
          (case dr_hold dispatch of
             None \<Rightarrow> SX_stale
           | Some hold \<Rightarrow>
               (if dispatchSubmissionAuthorityMatches
                     (submission_authority_input authorization task claim binding dispatch hold runner authority now)
                then SX_current else SX_stale))
      | _ \<Rightarrow> SX_stale)"

text \<open>The claim that the compact copy names, column by column; the status is not read here.\<close>

definition submit_claim_matches :: "Task \<Rightarrow> CompactClaim \<Rightarrow> TaskClaim \<Rightarrow> bool" where
  "submit_claim_matches task compact claim \<longleftrightarrow>
     cl_organizationId claim = tk_organizationId task \<and> cl_workspaceId claim = tk_workspaceId task \<and>
     cl_taskId claim = tk_id task \<and> cl_state claim = CS_active \<and> cl_publicId claim = cc_publicId compact \<and>
     cl_agentId claim = cc_agentId compact \<and> cl_agentPublicId claim = cc_agentPublicId compact \<and>
     cl_fence claim = cc_fence compact \<and> cl_leaseGeneration claim = cc_leaseGeneration compact \<and>
     cl_leaseUntil claim = cc_leaseUntil compact"

definition submitted_task :: "EventActor \<Rightarrow> int \<Rightarrow> Task \<Rightarrow> Task" where
  "submitted_task actor now t = t \<lparr>tk_status := TS_in_review, tk_currentClaim := None, tk_isReady := False,
     tk_readySince := None, tk_submittedAt := Some now, tk_revision := tk_revision t + 1,
     tk_lastEditedBy := Some actor, tk_updatedAt := now\<rparr>"

definition submission_of :: "'z SubmitArgs_scheme \<Rightarrow> AuthorizedAgent \<Rightarrow> Task \<Rightarrow> nat \<Rightarrow> int \<Rightarrow> TaskSubmission" where
  "submission_of args authorization task i now =
     \<lparr>ts_id = i, ts_organizationId = tk_organizationId task, ts_workspaceId = tk_workspaceId task,
      ts_taskId = tk_id task, ts_publicId = ub_randomSubmissionId args,
      ts_dispatchPublicId = map_option sr_runId (ub_dispatch args),
      ts_submittedBy = (au_agentPublicId authorization, au_credentialPublicId authorization, au_sessionPublicId authorization),
      ts_reviewRevision = tk_reviewRevision task, ts_summary = ub_summary args, ts_evidence = ub_evidence args,
      ts_submittedAt = now, ts_status = SS_pending\<rparr>"

definition submit_writes ::
  "(nat \<Rightarrow> string) \<Rightarrow> 'z SubmitArgs_scheme \<Rightarrow> AuthorizedAgent \<Rightarrow> Task \<Rightarrow> TaskClaim \<Rightarrow> int \<Rightarrow> Db \<Rightarrow> (nat \<times> Db) option" where
  "submit_writes fresh args authorization task claim now db =
     (let submissionId = db_next db;
          db1 = db \<lparr>db_next := Suc submissionId,
            db_submissions := db_submissions db @ [submission_of args authorization task submissionId now]\<rparr>;
          db2 = patch_claim (cl_id claim)
            (\<lambda>c. c \<lparr>cl_state := CS_submitted, cl_endedAt := Some now, cl_updatedAt := now\<rparr>) db1;
          db3 = patch_task (tk_id task) (submitted_task (agentActor authorization) now) db2 in
      case append_event fresh task ''task.submitted'' (agentActor authorization) (client_command args)
             [(''submissionId'', DT_text (ub_randomSubmissionId args))] now db3 of
        None \<Rightarrow> None
      | Some db4 \<Rightarrow> Some (submissionId, db4))"

text \<open>What the review and the submission answer, and their receipt.\<close>

definition submission_data :: "Db \<Rightarrow> nat \<Rightarrow> nat \<Rightarrow> string \<Rightarrow> SubmissionMutationData option" where
  "submission_data db taskId submissionId taskKey =
     (case (Option.bind (get_task db taskId) taskView, get_row ts_id (db_submissions db) submissionId) of
        (Some view, Some submission) \<Rightarrow> Some \<lparr>sv_task = view, sv_submission = submissionView submission taskKey\<rparr>
      | _ \<Rightarrow> None)"

definition complete_submission ::
  "SubmissionMutationData ReceiptCodec \<Rightarrow> string \<Rightarrow> 'z AgentArgs_scheme \<Rightarrow> AuthorizedAgent \<Rightarrow> SubmissionMutationData \<Rightarrow>
   int \<Rightarrow> Db \<Rightarrow> ((DomainError + SubmissionMutationData \<times> string) \<times> Db) option" where
  "complete_submission codec operation args authorization data now db =
     (case storeReceipt (rx_stringify codec) (receiptIdentity authorization) operation (ca_idempotencyKey args)
             (ca_requestDigest args) (ca_requestId args) data now db of
        None \<Rightarrow> None
      | Some db1 \<Rightarrow> Some (Inr (data, ca_requestId args), touchAuthorizedAgent authorization now db1))"

text \<open>The checks of \<open>submitTask\<close> from the loaded task to the writes, in the order of the code.\<close>

definition admit_submission ::
  "'z SubmitArgs_scheme \<Rightarrow> AuthorizedAgent \<Rightarrow> Task \<Rightarrow> int \<Rightarrow> Db \<Rightarrow> ((DomainError + TaskClaim) \<times> Db) option" where
  "admit_submission args authorization task now db =
     (let requestId = ca_requestId args; stale = [(''taskKey'', DT_text (tk_key task)),
            (''fence'', DT_number (ub_fence args)), (''currentRevision'', DT_number (tk_revision task))] in
      if \<not> taskMatchesAuthorizedScope (tk_organizationId task, tk_workspaceId task)
           (au_organizationId authorization, au_workspaceId authorization)
      then refuse EC_PROJECTION_MISMATCH requestId [] db
      else if ''dispatch:execute'' \<in> set (au_scopes authorization) \<and> Option.is_none (ub_expectedReviewRevision args)
      then refuse EC_VALIDATION_ERROR requestId [] db
      else if (case ub_expectedReviewRevision args of None \<Rightarrow> False
               | Some expected \<Rightarrow> \<not> dispatchSubmissionInputRevisionMatches (tk_reviewRevision task) expected)
      then refuse EC_TASK_STATE_CONFLICT requestId (state_details task) db
      else case taskDetail db task of
        None \<Rightarrow> None
      | Some None \<Rightarrow> repair_and_refuse task RK_task_readiness now requestId (state_details task) db
      | Some (Some detail) \<Rightarrow>
     (case claimCommandDisposition CK_submit (tk_status task) (\<not> Option.is_none (tk_currentClaim task))
             (map_option cc_agentId (tk_currentClaim task)) (au_agentId authorization)
             (map_option cc_fence (tk_currentClaim task)) (ub_fence args)
             (map_option cc_leaseUntil (tk_currentClaim task)) now None of
        CD_task_state_conflict \<Rightarrow> refuse EC_TASK_STATE_CONFLICT requestId (state_details task) db
      | CD_claim_not_owned \<Rightarrow> refuse EC_CLAIM_NOT_OWNED requestId
          [(''taskKey'', DT_text (tk_key task)), (''fence'', DT_number (ub_fence args))] db
      | CD_claim_stale \<Rightarrow> refuse EC_CLAIM_STALE requestId
          [(''taskKey'', DT_text (tk_key task)),
           (''fence'', DT_number (case tk_currentClaim task of None \<Rightarrow> ub_fence args | Some c \<Rightarrow> cc_fence c)),
           (''currentRevision'', DT_number (tk_revision task))] db
      | CD_lease_not_renewable \<Rightarrow> None
      | CD_allowed \<Rightarrow>
     (case tk_currentClaim task of
        None \<Rightarrow> None
      | Some compact \<Rightarrow>
     (case get_claim db (cc_claimId compact) of
        None \<Rightarrow> repair_and_refuse task RK_task_claim now requestId (state_details task) db
      | Some claim \<Rightarrow>
     (if \<not> submit_claim_matches task compact claim
      then repair_and_refuse task RK_task_claim now requestId (state_details task) db
      else if taskClaimDispatchState db task claim = CX_corrupt
      then refuse EC_PROJECTION_MISMATCH requestId (state_details task) db
      else if taskClaimDispatchState db task claim = CX_bound \<and> Option.is_none (ub_dispatch args)
      then refuse EC_CLAIM_STALE requestId stale db
      else if (case ub_dispatch args of None \<Rightarrow> False
               | Some binding \<Rightarrow> dispatchSubmissionAuthorityState db authorization task claim binding now = SX_corrupt)
      then refuse EC_PROJECTION_MISMATCH requestId (state_details task) db
      else if (case ub_dispatch args of None \<Rightarrow> False
               | Some binding \<Rightarrow> dispatchSubmissionAuthorityState db authorization task claim binding now = SX_stale)
      then refuse EC_CLAIM_STALE requestId stale db
      else case ensureCounterProjection task now requestId db of
        None \<Rightarrow> None
      | Some (Inl err, db1) \<Rightarrow> Some (Inl err, db1)
      | Some (Inr actual, db1) \<Rightarrow>
          (if unresolved actual + cancelled actual > 0
           then refuse EC_TASK_BLOCKED requestId (blocking_details task (unresolved actual + cancelled actual)) db1
           else if pendingSubmissionsForTask db1 task \<noteq> []
           then repair_and_refuse task RK_task_review now requestId (state_details task) db1
           else Some (Inr claim, db1)))))))"

definition submitTask ::
  "SubmissionMutationData ReceiptCodec \<Rightarrow> EvidenceRules \<Rightarrow> (nat \<Rightarrow> string) \<Rightarrow> 'z SubmitArgs_scheme \<Rightarrow> int \<Rightarrow> Db \<Rightarrow>
   ((DomainError + SubmissionMutationData \<times> string) \<times> Db) option" where
  "submitTask codec rules fresh args now db =
     (case assertRequestMetadata (ca_idempotencyKey args) (ca_requestDigest args) (ca_requestId args) now of
        Some err \<Rightarrow> Some (Inl err, db)
      | None \<Rightarrow>
     (if \<not> submitTaskRequestSchema rules args then refuse EC_VALIDATION_ERROR (ca_requestId args) [] db
      else case command_prologue (rx_parse codec) ''tasks.submit'' ''tasks:submit'' RC_agent_review args now db of
        None \<Rightarrow> None
      | Some (PG_done result db1) \<Rightarrow> Some (result, db1)
      | Some (PG_go authorization db1) \<Rightarrow>
     (case taskByKey db1 (au_workspaceId authorization) (ub_key args) of
        None \<Rightarrow> None
      | Some None \<Rightarrow> refuse EC_NOT_FOUND (ca_requestId args) [] db1
      | Some (Some task) \<Rightarrow>
     (case admit_submission args authorization task now db1 of
        None \<Rightarrow> None
      | Some (Inl err, db2) \<Rightarrow> Some (Inl err, db2)
      | Some (Inr claim, db2) \<Rightarrow>
     (case submit_writes fresh args authorization task claim now db2 of
        None \<Rightarrow> None
      | Some (submissionId, db3) \<Rightarrow>
     (case submission_data db3 (tk_id task) submissionId (tk_key task) of
        None \<Rightarrow> None
      | Some data \<Rightarrow> complete_submission codec ''tasks.submit'' args authorization data now db3))))))"

end
