(* ===== verification/SettleCommands.thy ===== *)
theory SettleCommands
  imports StatusCommands
begin

text \<open>
  The mutations of \<open>apps/web/convex/workGraph.ts\<close> that end a task or open it again and carry the
  change to its dependents: \<open>reviewSubmissionTransition\<close> with \<open>reviewTaskForAgent\<close>,
  \<open>cancelTaskForHuman\<close> and \<open>reopenTaskForHuman\<close>, each the whole handler.
\<close>

subsection \<open>Reviewing\<close>

record ReviewRequest =
  rq_organizationId :: "nat option"
  rq_workspaceId :: nat
  rq_key :: string
  rq_submissionPublicId :: string
  rq_reviewRevision :: int
  rq_action :: ReviewAction
  rq_reason :: "string option"
  rq_actor :: EventActor
  rq_reviewerAgentPublicId :: "string option"
  rq_idempotencyKey :: string
  rq_requestId :: string

text \<open>The patches of a task write values computed from the document read before, \<open>task\<close>.\<close>

definition accepted_task :: "Task \<Rightarrow> EventActor \<Rightarrow> int \<Rightarrow> Task \<Rightarrow> Task" where
  "accepted_task task actor now t = t \<lparr>tk_status := TS_done, tk_isReady := False, tk_isBlocked := Some False,
     tk_needsAttention := Some False, tk_revision := tk_revision task + 1, tk_readySince := None,
     tk_lastEditedBy := Some actor, tk_completedAt := Some now, tk_cancelledAt := None, tk_updatedAt := now\<rparr>"

definition rejected_task :: "Task \<Rightarrow> blocker_counters \<Rightarrow> EventActor \<Rightarrow> int \<Rightarrow> Task \<Rightarrow> Task" where
  "rejected_task task actual actor now t =
     (let ready = derivedReady TS_open (tk_availableAt task) now actual in
      t \<lparr>tk_status := TS_open, tk_isReady := ready, tk_isBlocked := Some (unresolved actual + cancelled actual > 0),
         tk_needsAttention := Some (derivedNeedsAttention TS_open actual), tk_revision := tk_revision task + 1,
         tk_readySince := (if ready then Some now else None), tk_lastEditedBy := Some actor,
         tk_submittedAt := None, tk_completedAt := None, tk_cancelledAt := None, tk_updatedAt := now\<rparr>)"

text \<open>The checks before any write: the task, its one pending submission, the reviewer, and its blockers.\<close>

definition admit_review ::
  "ReviewRequest \<Rightarrow> int \<Rightarrow> Db \<Rightarrow> ((DomainError + Task \<times> TaskSubmission \<times> blocker_counters) \<times> Db) option" where
  "admit_review request now db =
     (let requestId = rq_requestId request in
      if rq_action request = RA_reject \<and>
        (case rq_reason request of None \<Rightarrow> True | Some reason \<Rightarrow> \<not> not_blank MAX_TASK_COMMENT_BYTES reason)
      then refuse EC_VALIDATION_ERROR requestId [] db
      else case taskByKey db (rq_workspaceId request) (rq_key request) of
        None \<Rightarrow> None
      | Some None \<Rightarrow> refuse EC_NOT_FOUND requestId [] db
      | Some (Some task) \<Rightarrow>
     (if (case rq_organizationId request of None \<Rightarrow> False
          | Some organizationId \<Rightarrow> tk_organizationId task \<noteq> organizationId \<or> tk_workspaceId task \<noteq> rq_workspaceId request)
      then refuse EC_PROJECTION_MISMATCH requestId [] db
      else if tk_status task \<noteq> TS_in_review \<or> \<not> Option.is_none (tk_currentClaim task)
      then (case (if tk_status task = TS_in_review then queueTaskReviewRepair task now db else Some db) of
              None \<Rightarrow> None
            | Some db1 \<Rightarrow> refuse EC_TASK_STATE_CONFLICT requestId (state_details task) db1)
      else case pendingSubmissionsForTask db task of
        [submission] \<Rightarrow>
          (if \<not> submissionHasTaskOwnership task submission
           then repair_and_refuse task RK_task_review now requestId (state_details task) db
           else if ts_publicId submission \<noteq> rq_submissionPublicId request
           then refuse EC_SUBMISSION_STALE requestId (state_details task) db
           else if ts_reviewRevision submission \<noteq> rq_reviewRevision request \<or>
             tk_reviewRevision task \<noteq> rq_reviewRevision request
           then (case queueTaskReviewRepair task now db of
                   None \<Rightarrow> None
                 | Some db1 \<Rightarrow> refuse EC_SUBMISSION_STALE requestId (state_details task) db1)
           else if \<not> reviewActorAllowed (fst (ts_submittedBy submission)) (rq_reviewerAgentPublicId request)
           then refuse EC_SELF_REVIEW_DENIED requestId (state_details task) db
           else case ensureCounterProjection task now requestId db of
             None \<Rightarrow> None
           | Some (Inl err, db1) \<Rightarrow> Some (Inl err, db1)
           | Some (Inr actual, db1) \<Rightarrow>
               (if \<not> reviewAcceptanceAllowed (rq_action request) (unresolved actual + cancelled actual)
                then refuse EC_TASK_BLOCKED requestId (blocking_details task (unresolved actual + cancelled actual)) db1
                else if Option.is_none (transitionSubmissionLifecycle (submission_lifecycle (ts_status submission))
                  (case rq_action request of RA_accept \<Rightarrow> SC_accept | RA_reject \<Rightarrow> SC_reject))
                then repair_and_refuse task RK_task_review now requestId (state_details task) db1
                else Some (Inr (task, submission, actual), db1)))
      | _ \<Rightarrow> repair_and_refuse task RK_task_review now requestId (state_details task) db))"

text \<open>An acceptance checks the usage and carries the change to the dependents before it writes.\<close>

definition accept_dependents ::
  "(nat \<Rightarrow> string) \<Rightarrow> ReviewRequest \<Rightarrow> Task \<Rightarrow> int \<Rightarrow> Db \<Rightarrow> ((DomainError + WorkspaceUsage) \<times> Db) option" where
  "accept_dependents fresh request task now db =
     (case activeWorkspaceUsage db (tk_workspaceId task) of
        None \<Rightarrow> None
      | Some None \<Rightarrow> refuse EC_SERVICE_UNAVAILABLE (rq_requestId request) [] db
      | Some (Some usage) \<Rightarrow>
          (if us_activeTasks usage \<le> 0 then refuse EC_INTERNAL_ERROR (rq_requestId request) [] db
           else case propagateBlockerTransition fresh task TS_in_review TS_done (direct_blocker_count db task)
                  (rq_actor request) (rq_idempotencyKey request) (rq_requestId request) now db of
             None \<Rightarrow> None
           | Some (Inl err, db1) \<Rightarrow> Some (Inl err, db1)
           | Some (Inr u, db1) \<Rightarrow> Some (Inr usage, db1)))"

definition review_event ::
  "(nat \<Rightarrow> string) \<Rightarrow> ReviewRequest \<Rightarrow> Task \<Rightarrow> TaskSubmission \<Rightarrow> int \<Rightarrow> Db \<Rightarrow> Db option" where
  "review_event fresh request task submission now db =
     append_event fresh task (case rq_action request of RA_accept \<Rightarrow> ''task.accepted'' | RA_reject \<Rightarrow> ''task.rejected'')
       (rq_actor request) (EM_client (rq_idempotencyKey request) (rq_requestId request))
       ([(''submissionId'', DT_text (ts_publicId submission))] @
        (case rq_action request of RA_accept \<Rightarrow> []
         | RA_reject \<Rightarrow> [(''reason'', DT_text (take 1000 (case rq_reason request of None \<Rightarrow> [] | Some reason \<Rightarrow> reason)))]))
       now db"

definition accept_writes :: "ReviewRequest \<Rightarrow> Task \<Rightarrow> TaskSubmission \<Rightarrow> WorkspaceUsage \<Rightarrow> int \<Rightarrow> Db \<Rightarrow> Db" where
  "accept_writes request task submission usage now db =
     patch_usage usage (us_activeTasks usage - 1) now
       (patch_task (tk_id task) (accepted_task task (rq_actor request) now)
         (patch_submission (ts_id submission)
           (\<lambda>s. pendingSubmissionBase submission (SS_accepted (rq_actor request) now)) db))"

definition reject_writes :: "ReviewRequest \<Rightarrow> Task \<Rightarrow> TaskSubmission \<Rightarrow> blocker_counters \<Rightarrow> string \<Rightarrow> int \<Rightarrow> Db \<Rightarrow> Db" where
  "reject_writes request task submission actual reason now db =
     patch_task (tk_id task) (rejected_task task actual (rq_actor request) now)
       (patch_submission (ts_id submission)
         (\<lambda>s. pendingSubmissionBase submission (SS_rejected (rq_actor request) now reason)) db)"

definition reviewSubmissionTransition ::
  "(nat \<Rightarrow> string) \<Rightarrow> ReviewRequest \<Rightarrow> int \<Rightarrow> Db \<Rightarrow> ((DomainError + SubmissionMutationData) \<times> Db) option" where
  "reviewSubmissionTransition fresh request now db =
     (case admit_review request now db of
        None \<Rightarrow> None
      | Some (Inl err, db1) \<Rightarrow> Some (Inl err, db1)
      | Some (Inr (task, submission, actual), db1) \<Rightarrow>
     (case (case rq_action request of
              RA_accept \<Rightarrow>
                (case accept_dependents fresh request task now db1 of
                   None \<Rightarrow> None
                 | Some (Inl err, db2) \<Rightarrow> Some (Inl err, db2)
                 | Some (Inr usage, db2) \<Rightarrow> Some (Inr (), accept_writes request task submission usage now db2))
            | RA_reject \<Rightarrow>
                (case rq_reason request of
                   None \<Rightarrow> refuse EC_VALIDATION_ERROR (rq_requestId request) [] db1
                 | Some reason \<Rightarrow> Some (Inr (), reject_writes request task submission actual reason now db1))) of
        None \<Rightarrow> None
      | Some (Inl err, db2) \<Rightarrow> Some (Inl err, db2)
      | Some (Inr u, db2) \<Rightarrow>
     (case review_event fresh request task submission now db2 of
        None \<Rightarrow> None
      | Some db3 \<Rightarrow>
     (case submission_data db3 (tk_id task) (ts_id submission) (tk_key task) of
        None \<Rightarrow> None
      | Some data \<Rightarrow> Some (Inr data, db3)))))"

record ReviewArgs = AgentArgs +
  rv_key :: string
  rv_submissionPublicId :: string
  rv_reviewRevision :: int
  rv_action :: ReviewAction
  rv_reason :: "string option"

definition review_request :: "'z ReviewArgs_scheme \<Rightarrow> AuthorizedAgent \<Rightarrow> ReviewRequest" where
  "review_request args authorization =
     \<lparr>rq_organizationId = Some (au_organizationId authorization), rq_workspaceId = au_workspaceId authorization,
      rq_key = rv_key args, rq_submissionPublicId = rv_submissionPublicId args,
      rq_reviewRevision = rv_reviewRevision args, rq_action = rv_action args, rq_reason = rv_reason args,
      rq_actor = agentActor authorization, rq_reviewerAgentPublicId = Some (au_agentPublicId authorization),
      rq_idempotencyKey = ca_idempotencyKey args, rq_requestId = ca_requestId args\<rparr>"

definition reviewTaskForAgent ::
  "SubmissionMutationData ReceiptCodec \<Rightarrow> (nat \<Rightarrow> string) \<Rightarrow> 'z ReviewArgs_scheme \<Rightarrow> int \<Rightarrow> Db \<Rightarrow>
   ((DomainError + SubmissionMutationData \<times> string) \<times> Db) option" where
  "reviewTaskForAgent codec fresh args now db =
     (let operation = (case rv_action args of RA_accept \<Rightarrow> ''tasks.accept'' | RA_reject \<Rightarrow> ''tasks.reject'') in
      case assertRequestMetadata (ca_idempotencyKey args) (ca_requestDigest args) (ca_requestId args) now of
        Some err \<Rightarrow> Some (Inl err, db)
      | None \<Rightarrow>
     (case command_prologue (rx_parse codec) operation ''tasks:review'' RC_agent_review args now db of
        None \<Rightarrow> None
      | Some (PG_done result db1) \<Rightarrow> Some (result, db1)
      | Some (PG_go authorization db1) \<Rightarrow>
     (case reviewSubmissionTransition fresh (review_request args authorization) now db1 of
        None \<Rightarrow> None
      | Some (Inl err, db2) \<Rightarrow> Some (Inl err, db2)
      | Some (Inr data, db2) \<Rightarrow> complete_submission codec operation args authorization data now db2)))"

subsection \<open>What the commands of a planner share\<close>

record HumanArgs =
  ha_workspacePublicId :: string
  ha_key :: string
  ha_revision :: int
  ha_idempotencyKey :: string
  ha_requestDigest :: string
  ha_requestId :: string

datatype 'd human_prologue =
    HP_done "DomainError + 'd \<times> string"
  | HP_go AuthorizedHuman

definition planner_prologue ::
  "(string \<Rightarrow> 'd option) \<Rightarrow> string \<Rightarrow> HumanIdentity option \<Rightarrow> 'z HumanArgs_scheme \<Rightarrow> Db \<Rightarrow> 'd human_prologue option" where
  "planner_prologue parse operation identified args db =
     (case authorizePlanner db identified (ha_requestId args) (ha_workspacePublicId args) of
        None \<Rightarrow> None
      | Some (Inl err) \<Rightarrow> Some (HP_done (Inl err))
      | Some (Inr authorization) \<Rightarrow>
          (case lookupHumanReceipt parse db (humanReceiptIdentity authorization) operation (ha_idempotencyKey args)
                  (ha_requestDigest args) (ha_requestId args) of
             None \<Rightarrow> None
           | Some (RL_failure err) \<Rightarrow> Some (HP_done (Inl err))
           | Some (RL_replay data requestId) \<Rightarrow> Some (HP_done (Inr (data, requestId)))
           | Some RL_none \<Rightarrow> Some (HP_go authorization)))"

definition complete_planner ::
  "TaskDetailData ReceiptCodec \<Rightarrow> string \<Rightarrow> 'z HumanArgs_scheme \<Rightarrow> AuthorizedHuman \<Rightarrow> nat \<Rightarrow> int \<Rightarrow> Db \<Rightarrow>
   ((DomainError + TaskDetailData \<times> string) \<times> Db) option" where
  "complete_planner codec operation args authorization taskId now db =
     (case get_task db taskId of
        None \<Rightarrow> None
      | Some updated \<Rightarrow>
          (case taskDetail db updated of
             Some (Some data) \<Rightarrow>
               (case storeHumanReceipt (rx_stringify codec) (humanReceiptIdentity authorization) operation
                       (ha_idempotencyKey args) (ha_requestDigest args) (ha_requestId args) data now db of
                  None \<Rightarrow> None
                | Some db1 \<Rightarrow> Some (Inr (data, ha_requestId args), db1))
           | _ \<Rightarrow> None))"

subsection \<open>Cancelling\<close>

record CancelArgs = HumanArgs +
  hn_reason :: string

definition cancelled_task :: "Task \<Rightarrow> EventActor \<Rightarrow> int \<Rightarrow> Task \<Rightarrow> Task" where
  "cancelled_task task actor now t = t \<lparr>tk_status := TS_cancelled, tk_isReady := False,
     tk_isBlocked := Some (task_blocking_count task > 0), tk_revision := tk_revision task + 1, tk_readySince := None,
     tk_currentClaim := None, tk_lastEditedBy := Some actor, tk_cancelledAt := Some now, tk_updatedAt := now\<rparr>"

text \<open>The pending submission and the active claim that a cancellation ends, and the checks of both.\<close>

definition admit_cancellation ::
  "'z CancelArgs_scheme \<Rightarrow> Task \<Rightarrow> int \<Rightarrow> Db \<Rightarrow>
   ((DomainError + TaskSubmission option \<times> TaskClaim option \<times> WorkspaceUsage) \<times> Db) option" where
  "admit_cancellation args task now db =
     (let requestId = ha_requestId args;
          pendingSubmissions = (if tk_status task = TS_in_review then pendingSubmissionsForTask db task else []);
          activeClaim = Option.bind (tk_currentClaim task) (\<lambda>c. get_claim db (cc_claimId c));
          holds = (tk_status task = TS_in_progress \<or> \<not> Option.is_none (tk_currentClaim task)) in
      if taskCancellationDisposition (tk_revision task) (ha_revision args) (tk_status task) \<noteq> TC_allowed
      then refuse EC_TASK_STATE_CONFLICT requestId (state_details task) db
      else if tk_status task = TS_in_review \<and>
        (case pendingSubmissions of [submission] \<Rightarrow> \<not> submissionHasTaskOwnership task submission | _ \<Rightarrow> True)
      then repair_and_refuse task RK_task_review now requestId (state_details task) db
      else if holds \<and> \<not> activeClaimMatchesTask task activeClaim
      then repair_and_refuse task RK_task_claim now requestId (state_details task) db
      else case activeWorkspaceUsage db (tk_workspaceId task) of
        None \<Rightarrow> None
      | Some None \<Rightarrow> refuse EC_SERVICE_UNAVAILABLE requestId [] db
      | Some (Some usage) \<Rightarrow>
          (if us_activeTasks usage \<le> 0 then refuse EC_INTERNAL_ERROR requestId [] db
           else Some (Inr (case pendingSubmissions of [] \<Rightarrow> None | s # _ \<Rightarrow> Some s,
             if holds then activeClaim else None, usage), db)))"

definition cancel_writes ::
  "'z CancelArgs_scheme \<Rightarrow> EventActor \<Rightarrow> Task \<Rightarrow> TaskSubmission option \<Rightarrow> TaskClaim option \<Rightarrow> WorkspaceUsage \<Rightarrow> int \<Rightarrow> Db \<Rightarrow> Db" where
  "cancel_writes args actor task submission claim usage now db =
     (let db1 = (case claim of None \<Rightarrow> db
            | Some c \<Rightarrow> patch_claim (cl_id c)
                (\<lambda>c. c \<lparr>cl_state := CS_released, cl_endedAt := Some now, cl_updatedAt := now\<rparr>) db);
          db2 = (case submission of None \<Rightarrow> db1
            | Some s \<Rightarrow> patch_submission (ts_id s)
                (\<lambda>r. pendingSubmissionBase s (SS_cancelled actor now (hn_reason args))) db1);
          db3 = db2 \<lparr>db_next := Suc (db_next db2), db_cancellations := db_cancellations db2 @
            [\<lparr>tx_organizationId = tk_organizationId task, tx_workspaceId = tk_workspaceId task, tx_taskId = tk_id task,
              tx_reason = hn_reason args, tx_actor = actor, tx_cancelledAt = now\<rparr>]\<rparr> in
      patch_usage usage (us_activeTasks usage - 1) now (patch_task (tk_id task) (cancelled_task task actor now) db3))"

definition human_command :: "'z HumanArgs_scheme \<Rightarrow> EventCommand" where
  "human_command args = EM_client (ha_idempotencyKey args) (ha_requestId args)"

text \<open>The counters, the dependents, and then the task itself: what a cancellation does once it is admitted.\<close>

definition cancel_admitted ::
  "(nat \<Rightarrow> string) \<Rightarrow> 'z CancelArgs_scheme \<Rightarrow> EventActor \<Rightarrow> Task \<Rightarrow> TaskSubmission option \<Rightarrow> TaskClaim option \<Rightarrow>
   WorkspaceUsage \<Rightarrow> int \<Rightarrow> Db \<Rightarrow> ((DomainError + unit) \<times> Db) option" where
  "cancel_admitted fresh args actor task submission claim usage now db =
     (case ensureCounterProjection task now (ha_requestId args) db of
        None \<Rightarrow> None
      | Some (Inl err, db1) \<Rightarrow> Some (Inl err, db1)
      | Some (Inr actual, db1) \<Rightarrow>
     (case propagateBlockerTransition fresh task (tk_status task) TS_cancelled (direct_blocker_count db1 task) actor
             (ha_idempotencyKey args) (ha_requestId args) now db1 of
        None \<Rightarrow> None
      | Some (Inl err, db2) \<Rightarrow> Some (Inl err, db2)
      | Some (Inr u, db2) \<Rightarrow>
     (case append_event fresh task ''task.cancelled'' actor (human_command args)
             [(''reason'', DT_text (take 1000 (hn_reason args)))] now
             (cancel_writes args actor task submission claim usage now db2) of
        None \<Rightarrow> None
      | Some db3 \<Rightarrow> Some (Inr (), db3))))"

definition cancelTaskForHuman ::
  "TaskDetailData ReceiptCodec \<Rightarrow> HumanIdentity option \<Rightarrow> (nat \<Rightarrow> string) \<Rightarrow> 'z CancelArgs_scheme \<Rightarrow> int \<Rightarrow> Db \<Rightarrow>
   ((DomainError + TaskDetailData \<times> string) \<times> Db) option" where
  "cancelTaskForHuman codec identified fresh args now db =
     (case assertRequestMetadata (ha_idempotencyKey args) (ha_requestDigest args) (ha_requestId args) now of
        Some err \<Rightarrow> Some (Inl err, db)
      | None \<Rightarrow>
     (if js_trim (hn_reason args) = [] \<or> length (hn_reason args) > 16 * 1024
      then refuse EC_VALIDATION_ERROR (ha_requestId args) [] db
      else case planner_prologue (rx_parse codec) ''tasks.cancel'' identified args db of
        None \<Rightarrow> None
      | Some (HP_done result) \<Rightarrow> Some (result, db)
      | Some (HP_go authorization) \<Rightarrow>
     (case taskByKey db (ws_id (ah_workspace authorization)) (ha_key args) of
        None \<Rightarrow> None
      | Some None \<Rightarrow> refuse EC_NOT_FOUND (ha_requestId args) [] db
      | Some (Some task) \<Rightarrow>
     (case admit_cancellation args task now db of
        None \<Rightarrow> None
      | Some (Inl err, db1) \<Rightarrow> Some (Inl err, db1)
      | Some (Inr (submission, claim, usage), db1) \<Rightarrow>
     (case cancel_admitted fresh args (humanActor authorization) task submission claim usage now db1 of
        None \<Rightarrow> None
      | Some (Inl err, db2) \<Rightarrow> Some (Inl err, db2)
      | Some (Inr u, db2) \<Rightarrow> complete_planner codec ''tasks.cancel'' args authorization (tk_id task) now db2)))))"

subsection \<open>Opening again\<close>

definition reopened_task :: "Task \<Rightarrow> blocker_counters \<Rightarrow> EventActor \<Rightarrow> int \<Rightarrow> Task \<Rightarrow> Task" where
  "reopened_task task actual actor now t =
     (let ready = derivedReady TS_open (tk_availableAt task) now actual in
      t \<lparr>tk_status := TS_open, tk_isReady := ready, tk_isBlocked := Some (unresolved actual + cancelled actual > 0),
         tk_needsAttention := Some (cancelled actual > 0), tk_revision := tk_revision task + 1,
         tk_readySince := (if ready then Some now else None), tk_currentClaim := None,
         tk_lastEditedBy := Some actor, tk_completedAt := None, tk_cancelledAt := None, tk_updatedAt := now\<rparr>)"

definition reopen_admitted ::
  "(nat \<Rightarrow> string) \<Rightarrow> 'z HumanArgs_scheme \<Rightarrow> EventActor \<Rightarrow> Task \<Rightarrow> WorkspaceUsage \<Rightarrow> int \<Rightarrow> Db \<Rightarrow>
   ((DomainError + unit) \<times> Db) option" where
  "reopen_admitted fresh args actor task usage now db =
     (case ensureCounterProjection task now (ha_requestId args) db of
        None \<Rightarrow> None
      | Some (Inl err, db1) \<Rightarrow> Some (Inl err, db1)
      | Some (Inr actual, db1) \<Rightarrow>
     (case propagateBlockerTransition fresh task (tk_status task) TS_open (direct_blocker_count db1 task) actor
             (ha_idempotencyKey args) (ha_requestId args) now db1 of
        None \<Rightarrow> None
      | Some (Inl err, db2) \<Rightarrow> Some (Inl err, db2)
      | Some (Inr u, db2) \<Rightarrow>
     (case append_event fresh task ''task.reopened'' actor (human_command args) [] now
             (patch_usage usage (us_activeTasks usage + 1) now
               (patch_task (tk_id task) (reopened_task task actual actor now) db2)) of
        None \<Rightarrow> None
      | Some db3 \<Rightarrow> Some (Inr (), db3))))"

definition reopenTaskForHuman ::
  "TaskDetailData ReceiptCodec \<Rightarrow> HumanIdentity option \<Rightarrow> (nat \<Rightarrow> string) \<Rightarrow> 'z HumanArgs_scheme \<Rightarrow> int \<Rightarrow> Db \<Rightarrow>
   ((DomainError + TaskDetailData \<times> string) \<times> Db) option" where
  "reopenTaskForHuman codec identified fresh args now db =
     (case assertRequestMetadata (ha_idempotencyKey args) (ha_requestDigest args) (ha_requestId args) now of
        Some err \<Rightarrow> Some (Inl err, db)
      | None \<Rightarrow>
     (case planner_prologue (rx_parse codec) ''tasks.reopen'' identified args db of
        None \<Rightarrow> None
      | Some (HP_done result) \<Rightarrow> Some (result, db)
      | Some (HP_go authorization) \<Rightarrow>
     (case taskByKey db (ws_id (ah_workspace authorization)) (ha_key args) of
        None \<Rightarrow> None
      | Some None \<Rightarrow> refuse EC_NOT_FOUND (ha_requestId args) [] db
      | Some (Some task) \<Rightarrow>
     (if tk_revision task \<noteq> ha_revision args \<or> (tk_status task \<noteq> TS_done \<and> tk_status task \<noteq> TS_cancelled)
      then refuse EC_TASK_STATE_CONFLICT (ha_requestId args) (state_details task) db
      else case activeWorkspaceUsage db (tk_workspaceId task) of
        None \<Rightarrow> None
      | Some None \<Rightarrow> refuse EC_SERVICE_UNAVAILABLE (ha_requestId args) [] db
      | Some (Some usage) \<Rightarrow>
     (if us_activeTasks usage \<ge> WORKSPACE_ACTIVE_TASK_LIMIT
      then refuse EC_WORKSPACE_TASK_LIMIT (ha_requestId args) [] db
      else case reopen_admitted fresh args (humanActor authorization) task usage now db of
        None \<Rightarrow> None
      | Some (Inl err, db1) \<Rightarrow> Some (Inl err, db1)
      | Some (Inr u, db1) \<Rightarrow> complete_planner codec ''tasks.reopen'' args authorization (tk_id task) now db1)))))"

end
