(* ===== verification/WorkGraph.thy ===== *)
theory WorkGraph
  imports SettleCommands ClaimRuns
begin

text \<open>
  The invariant of the stored work graph: every dependency row connects two tasks of one tenant, no
  pair twice and no cycle; every task's blocker counters are a recount over its rows, its blocked and
  ready flags follow from them. One lemma per way in which a command changes the tables: tasks in
  place, a new task, a new row, a removed row.
\<close>

subsection \<open>The invariant\<close>

definition rows_into :: "Db \<Rightarrow> nat \<Rightarrow> TaskDependency list" where
  "rows_into db i = filter (\<lambda>d. dp_blockedTaskId d = i) (db_dependencies db)"

definition blocker_status :: "Db \<Rightarrow> TaskDependency \<Rightarrow> TaskStatus" where
  "blocker_status db d = (case get_task db (dp_blockerTaskId d) of None \<Rightarrow> TS_open | Some b \<Rightarrow> tk_status b)"

definition blocker_statuses :: "Db \<Rightarrow> nat \<Rightarrow> TaskStatus list" where
  "blocker_statuses db i = map (blocker_status db) (rows_into db i)"

definition rows_ok :: "Db \<Rightarrow> bool" where
  "rows_ok db \<longleftrightarrow>
     (\<forall>d \<in> set (db_dependencies db). \<exists>a b. get_task db (dp_blockerTaskId d) = Some a \<and>
        get_task db (dp_blockedTaskId d) = Some b \<and> dependencyMatchesTasks d a b) \<and>
     distinct (map dp_id (db_dependencies db)) \<and> (\<forall>d \<in> set (db_dependencies db). dp_id d < db_next db) \<and>
     distinct (map (\<lambda>d. (dp_blockerTaskId d, dp_blockedTaskId d)) (db_dependencies db)) \<and>
     acyclic (dependency_pairs db)"

definition flags_ok :: "Task \<Rightarrow> bool" where
  "flags_ok t \<longleftrightarrow> (tk_isBlocked t = Some True) = (task_blocking_count t > 0) \<and>
     (tk_isReady t \<longrightarrow> tk_status t = TS_open \<and> tk_currentClaim t = None \<and> unblocked t)"

definition graph_inv :: "Db \<Rightarrow> bool" where
  "graph_inv db \<longleftrightarrow> rows_ok db \<and>
     (\<forall>i t. get_task db i = Some t \<longrightarrow> task_counters t = recount (blocker_statuses db i) \<and> flags_ok t)"

lemma graph_invD:
  assumes "graph_inv db"
  shows "rows_ok db"
    and "get_task db i = Some t \<Longrightarrow> task_counters t = recount (blocker_statuses db i)"
    and "get_task db i = Some t \<Longrightarrow> flags_ok t"
  using assms by (auto simp: graph_inv_def)

lemma rows_okD:
  assumes "rows_ok db"
  shows "d \<in> set (db_dependencies db) \<Longrightarrow> \<exists>a b. get_task db (dp_blockerTaskId d) = Some a \<and>
      get_task db (dp_blockedTaskId d) = Some b \<and> dependencyMatchesTasks d a b"
    and "distinct (map dp_id (db_dependencies db))" "d \<in> set (db_dependencies db) \<Longrightarrow> dp_id d < db_next db"
    and "distinct (map (\<lambda>d. (dp_blockerTaskId d, dp_blockedTaskId d)) (db_dependencies db))"
    and "acyclic (dependency_pairs db)"
  using assms by (auto simp: rows_ok_def)

lemma rows_distinct: "rows_ok db \<Longrightarrow> distinct (rows_into db i)"
  by (simp add: rows_into_def distinct_filter distinct_map rows_ok_def)

lemma pair_unique:
  assumes "rows_ok db" "d \<in> set (db_dependencies db)" "e \<in> set (db_dependencies db)"
    and "dp_blockerTaskId d = dp_blockerTaskId e" "dp_blockedTaskId d = dp_blockedTaskId e"
  shows "d = e"
  using rows_okD(4) [OF assms(1)] assms(2-5) by (auto simp: distinct_map dest: inj_onD)

lemma no_self_edge: "rows_ok db \<Longrightarrow> (i, i) \<notin> dependency_pairs db"
  by (auto simp: rows_ok_def acyclic_def)

lemma pair_row:
  assumes "(i, j) \<in> dependency_pairs db"
  obtains d where "d \<in> set (db_dependencies db)" "dp_blockerTaskId d = i" "dp_blockedTaskId d = j"
  using assms by (auto simp: dependency_pairs_def)

subsection \<open>Recounts\<close>

lemma counters_eq_iff:
  "(c :: blocker_counters) = d \<longleftrightarrow> unresolved c = unresolved d \<and> cancelled c = cancelled d"
  by (cases c, cases d) simp

lemma recount_append:
  "recount (xs @ [s]) = \<lparr>unresolved = unresolved (recount xs) + unresolved (blockerContribution s),
     cancelled = cancelled (recount xs) + cancelled (blockerContribution s)\<rparr>"
  by (simp add: recount_def)

lemma sum_list_change:
  fixes h h' :: "'a \<Rightarrow> int"
  assumes "distinct xs" "x \<in> set xs" "\<And>y. y \<in> set xs \<Longrightarrow> y \<noteq> x \<Longrightarrow> h' y = h y"
  shows "sum_list (map h' xs) = sum_list (map h xs) - h x + h' x"
proof -
  have "sum h' (set xs - {x}) = sum h (set xs - {x})" using assms(3) by (intro sum.cong) auto
  with assms(1,2) show ?thesis
    by (simp add: sum_list_distinct_conv_sum_set sum.remove [of "set xs" x])
qed

lemma recount_change:
  assumes "distinct rows" "d \<in> set rows" "\<And>e. e \<in> set rows \<Longrightarrow> e \<noteq> d \<Longrightarrow> s' e = s e"
  shows "recount (map s' rows) = transitionBlockerCounters (recount (map s rows)) (s d) (s' d)"
proof -
  have "sum_list (map (\<lambda>e. unresolved (blockerContribution (s' e))) rows) =
      sum_list (map (\<lambda>e. unresolved (blockerContribution (s e))) rows) -
      unresolved (blockerContribution (s d)) + unresolved (blockerContribution (s' d))"
    by (rule sum_list_change [OF assms(1,2)]) (simp add: assms(3))
  moreover have "sum_list (map (\<lambda>e. cancelled (blockerContribution (s' e))) rows) =
      sum_list (map (\<lambda>e. cancelled (blockerContribution (s e))) rows) -
      cancelled (blockerContribution (s d)) + cancelled (blockerContribution (s' d))"
    by (rule sum_list_change [OF assms(1,2)]) (simp add: assms(3))
  ultimately show ?thesis by (simp add: recount_def transitionBlockerCounters_def Let_def comp_def)
qed

lemma transition_same:
  "blockerContribution s = blockerContribution s' \<Longrightarrow> transitionBlockerCounters c s s' = c"
  by (simp add: transitionBlockerCounters_def)

subsection \<open>Tasks change in place\<close>

text \<open>One task's status changes from \<open>s\<close> to \<open>s'\<close> and every dependent's counters follow.\<close>

lemma graph_inv_update:
  assumes inv: "graph_inv db" and t: "get_task db i = Some t"
    and tasks: "db_tasks db' = map g (db_tasks db)" and rows: "db_dependencies db' = db_dependencies db"
    and next': "db_next db \<le> db_next db'"
    and same: "\<And>u. u \<in> set (db_tasks db) \<Longrightarrow> tk_id (g u) = tk_id u \<and> tk_organizationId (g u) = tk_organizationId u \<and>
      tk_workspaceId (g u) = tk_workspaceId u \<and> flags_ok (g u)"
    and others: "\<And>u. u \<in> set (db_tasks db) \<Longrightarrow> tk_id u \<noteq> i \<Longrightarrow> tk_status (g u) = tk_status u"
    and counters: "\<And>u. u \<in> set (db_tasks db) \<Longrightarrow> task_counters (g u) =
      (if (i, tk_id u) \<in> dependency_pairs db
       then transitionBlockerCounters (task_counters u) (tk_status t) (tk_status (g t)) else task_counters u)"
  shows "graph_inv db'"
proof -
  note old = graph_invD [OF inv]
  have get: "get_task db' j = map_option g (get_task db j)" for j
    unfolding tasks using same by (intro get_row_map) blast
  have pairs: "dependency_pairs db' = dependency_pairs db" by (simp add: dependency_pairs_def rows)
  have "rows_ok db'"
    unfolding rows_ok_def rows pairs
  proof (intro conjI ballI)
    fix d assume d: "d \<in> set (db_dependencies db)"
    from rows_okD(1) [OF old(1) d] obtain a b where ab: "get_task db (dp_blockerTaskId d) = Some a"
      "get_task db (dp_blockedTaskId d) = Some b" "dependencyMatchesTasks d a b" by auto
    from get_row_Some [OF ab(1)] get_row_Some [OF ab(2)] same ab(3) have "dependencyMatchesTasks d (g a) (g b)"
      by (simp add: dependencyMatchesTasks_def dependencyTupleMatches_def)
    with ab get show "\<exists>a b. get_task db' (dp_blockerTaskId d) = Some a \<and> get_task db' (dp_blockedTaskId d) = Some b \<and>
      dependencyMatchesTasks d a b" by auto
    from rows_okD(3) [OF old(1) d] next' show "dp_id d < db_next db'" by simp
  qed (use rows_okD [OF old(1)] in auto)
  moreover have "task_counters u' = recount (blocker_statuses db' j) \<and> flags_ok u'" if u': "get_task db' j = Some u'" for j u'
  proof -
    from u' get obtain u where u: "get_task db j = Some u" "u' = g u" by auto
    from get_row_Some [OF u(1)] have mem: "u \<in> set (db_tasks db)" "tk_id u = j" by auto
    have into: "rows_into db' j = rows_into db j" by (simp add: rows_into_def rows)
    have status: "blocker_status db' d = blocker_status db d" if "d \<in> set (rows_into db j)" "dp_blockerTaskId d \<noteq> i" for d
      using that get_row_Some [of tk_id "db_tasks db" "dp_blockerTaskId d"] others
      by (auto simp: blocker_status_def get split: option.split)
    have "recount (blocker_statuses db' j) = task_counters (g u)"
    proof (cases "(i, j) \<in> dependency_pairs db")
      case True
      then obtain d where d: "d \<in> set (db_dependencies db)" "dp_blockerTaskId d = i" "dp_blockedTaskId d = j"
        by (rule pair_row)
      then have in_rows: "d \<in> set (rows_into db j)" by (simp add: rows_into_def)
      have "e = d" if "e \<in> set (rows_into db j)" "dp_blockerTaskId e = i" for e
        using that d by (intro pair_unique [OF old(1)]) (auto simp: rows_into_def)
      with status have change: "blocker_status db' e = blocker_status db e" if "e \<in> set (rows_into db j)" "e \<noteq> d" for e
        using that by auto
      have "blocker_status db d = tk_status t" "blocker_status db' d = tk_status (g t)"
        by (simp_all add: blocker_status_def get t d(2))
      with recount_change [OF rows_distinct [OF old(1)] in_rows change] have
        "recount (blocker_statuses db' j) =
          transitionBlockerCounters (recount (blocker_statuses db j)) (tk_status t) (tk_status (g t))"
        by (simp add: blocker_statuses_def into)
      with counters [OF mem(1)] mem(2) old(2) [OF u(1)] True show ?thesis by simp
    next
      case False
      then have "dp_blockerTaskId d \<noteq> i" if "d \<in> set (rows_into db j)" for d
        using that by (auto simp: rows_into_def dependency_pairs_def)
      with status have "blocker_statuses db' j = blocker_statuses db j" by (simp add: blocker_statuses_def into)
      with counters [OF mem(1)] mem(2) old(2) [OF u(1)] False show ?thesis by simp
    qed
    with same [OF mem(1)] u(2) show ?thesis by simp
  qed
  ultimately show ?thesis by (simp add: graph_inv_def)
qed

text \<open>One task changes alone, with a status of the same weight for its dependents.\<close>

lemma graph_inv_patch:
  assumes inv: "graph_inv db" and t: "get_task db i = Some t" and distinct: "distinct (map tk_id (db_tasks db))"
    and tasks: "db_tasks db' = patch_row tk_id i f (db_tasks db)" and rows: "db_dependencies db' = db_dependencies db"
    and next': "db_next db \<le> db_next db'"
    and same: "tk_id (f t) = tk_id t" "tk_organizationId (f t) = tk_organizationId t" "tk_workspaceId (f t) = tk_workspaceId t"
      "task_counters (f t) = task_counters t" "blockerContribution (tk_status (f t)) = blockerContribution (tk_status t)"
      "flags_ok (f t)"
  shows "graph_inv db'"
proof (rule graph_inv_update [OF inv t _ rows next', of "\<lambda>u. if tk_id u = i then f u else u"])
  have only: "u = t" if "u \<in> set (db_tasks db)" "tk_id u = i" for u
    using get_row_mem [OF distinct that(1)] that(2) t by simp
  from get_row_Some [OF t] have ti: "tk_id t = i" by simp
  show "db_tasks db' = map (\<lambda>u. if tk_id u = i then f u else u) (db_tasks db)" by (simp add: tasks patch_row_def)
  show "tk_id (if tk_id u = i then f u else u) = tk_id u \<and>
      tk_organizationId (if tk_id u = i then f u else u) = tk_organizationId u \<and>
      tk_workspaceId (if tk_id u = i then f u else u) = tk_workspaceId u \<and> flags_ok (if tk_id u = i then f u else u)"
    if "u \<in> set (db_tasks db)" for u
    using only [OF that] same graph_invD(3) [OF inv get_row_mem [OF distinct that]] by auto
  show "tk_status (if tk_id u = i then f u else u) = tk_status u" if "tk_id u \<noteq> i" for u
    using that by simp
  show "task_counters (if tk_id u = i then f u else u) =
      (if (i, tk_id u) \<in> dependency_pairs db
       then transitionBlockerCounters (task_counters u) (tk_status t) (tk_status (if tk_id t = i then f t else t))
       else task_counters u)" if "u \<in> set (db_tasks db)" for u
    using only [OF that] same ti by (auto simp: transition_same)
qed

text \<open>A new task has no rows.\<close>

lemma graph_inv_insert:
  assumes inv: "graph_inv db" and fresh: "get_task db (tk_id t) = None" and tasks: "db_tasks db' = db_tasks db @ [t]"
    and rows: "db_dependencies db' = db_dependencies db" and next': "db_next db \<le> db_next db'"
    and t: "unblocked t" "flags_ok t"
  shows "graph_inv db'"
proof -
  note old = graph_invD [OF inv]
  have get: "get_task db' j = (if j = tk_id t then Some t else get_task db j)" for j
    using fresh by (auto simp: tasks table_simps split: option.split)
  have ends: "dp_blockerTaskId d \<noteq> tk_id t" "dp_blockedTaskId d \<noteq> tk_id t" if "d \<in> set (db_dependencies db)" for d
    using rows_okD(1) [OF old(1) that] fresh by auto
  have pairs: "dependency_pairs db' = dependency_pairs db" by (simp add: dependency_pairs_def rows)
  have status: "blocker_status db' d = blocker_status db d" if "d \<in> set (db_dependencies db)" for d
    using ends [OF that] by (simp add: blocker_status_def get)
  have "rows_ok db'"
    unfolding rows_ok_def rows pairs
  proof (intro conjI ballI)
    fix d assume d: "d \<in> set (db_dependencies db)"
    from rows_okD(1) [OF old(1) d] ends [OF d] show "\<exists>a b. get_task db' (dp_blockerTaskId d) = Some a \<and>
      get_task db' (dp_blockedTaskId d) = Some b \<and> dependencyMatchesTasks d a b" by (simp add: get)
    from rows_okD(3) [OF old(1) d] next' show "dp_id d < db_next db'" by simp
  qed (use rows_okD [OF old(1)] in auto)
  moreover have "task_counters u = recount (blocker_statuses db' j) \<and> flags_ok u" if u: "get_task db' j = Some u" for j u
  proof (cases "j = tk_id t")
    case True
    have "rows_into db' j = []"
      using ends(2) by (auto simp: rows_into_def rows True filter_empty_conv)
    with True u t show ?thesis by (simp add: get blocker_statuses_def task_counters_def unblocked_def)
  next
    case False
    with u have u': "get_task db j = Some u" by (simp add: get)
    have "blocker_statuses db' j = blocker_statuses db j"
      using status by (auto simp: blocker_statuses_def rows_into_def rows)
    with old(2,3) [OF u'] show ?thesis by simp
  qed
  ultimately show ?thesis by (simp add: graph_inv_def)
qed

subsection \<open>A row comes or goes\<close>

lemma blocker_status_cong:
  assumes "\<And>j. map_option tk_status (get_task db' j) = map_option tk_status (get_task db j)"
  shows "blocker_status db' d = blocker_status db d"
proof -
  have "map_option tk_status (get_task db' (dp_blockerTaskId d)) = map_option tk_status (get_task db (dp_blockerTaskId d))"
    by (rule assms)
  then show ?thesis unfolding blocker_status_def by (auto split: option.splits)
qed

text \<open>The blocked task of the changed row gets new counters; no status and no tenant changes.\<close>

lemma graph_inv_rows:
  assumes inv: "graph_inv db" and t: "get_task db i = Some t" and distinct: "distinct (map tk_id (db_tasks db))"
    and tasks: "db_tasks db' = patch_row tk_id i f (db_tasks db)" and f: "\<And>x. tk_id (f x) = tk_id x"
    and same: "tk_organizationId (f t) = tk_organizationId t" "tk_workspaceId (f t) = tk_workspaceId t"
      "tk_status (f t) = tk_status t" "flags_ok (f t)"
    and ends: "\<And>d. d \<in> set (db_dependencies db') \<Longrightarrow> \<exists>a b. get_task db (dp_blockerTaskId d) = Some a \<and>
      get_task db (dp_blockedTaskId d) = Some b \<and> dependencyMatchesTasks d a b"
    and ids: "distinct (map dp_id (db_dependencies db'))" "\<And>d. d \<in> set (db_dependencies db') \<Longrightarrow> dp_id d < db_next db'"
    and pairs: "distinct (map (\<lambda>d. (dp_blockerTaskId d, dp_blockedTaskId d)) (db_dependencies db'))"
    and acyclic: "acyclic (dependency_pairs db')"
    and mine: "task_counters (f t) = recount (map (blocker_status db) (rows_into db' i))"
    and others: "\<And>j. j \<noteq> i \<Longrightarrow> rows_into db' j = rows_into db j"
  shows "graph_inv db'"
proof -
  note old = graph_invD [OF inv]
  have get: "get_task db' j = (if i = j then map_option f (get_task db j) else get_task db j)" for j
    using tasks by (simp add: get_row_patch [of tk_id f, OF f])
  have "blocker_status db' = blocker_status db"
    by (rule ext, rule blocker_status_cong) (use t same(3) in \<open>auto simp: get\<close>)
  then have statuses: "blocker_statuses db' j = map (blocker_status db) (rows_into db' j)" for j
    by (simp add: blocker_statuses_def)
  have "\<exists>a b. get_task db' (dp_blockerTaskId d) = Some a \<and> get_task db' (dp_blockedTaskId d) = Some b \<and>
      dependencyMatchesTasks d a b" if d: "d \<in> set (db_dependencies db')" for d
  proof -
    from ends [OF d] obtain a b where ab: "get_task db (dp_blockerTaskId d) = Some a"
      "get_task db (dp_blockedTaskId d) = Some b" "dependencyMatchesTasks d a b" by auto
    define h where "h j x = (if i = j then f x else x)" for j x
    have keep: "tk_id (h j x) = tk_id x \<and> tk_organizationId (h j x) = tk_organizationId x \<and>
        tk_workspaceId (h j x) = tk_workspaceId x" if "get_task db j = Some x" for j x
      using that t same f by (auto simp: h_def)
    have "dependencyMatchesTasks d (h (dp_blockerTaskId d) a) (h (dp_blockedTaskId d) b)"
      using ab(3) keep [OF ab(1)] keep [OF ab(2)] by (simp add: dependencyMatchesTasks_def dependencyTupleMatches_def)
    then show ?thesis using ab by (auto simp: get h_def split: if_splits)
  qed
  then have "rows_ok db'" using ids pairs acyclic by (auto simp: rows_ok_def)
  moreover have "task_counters u = recount (blocker_statuses db' j) \<and> flags_ok u" if u: "get_task db' j = Some u" for j u
  proof (cases "j = i")
    case True
    with u t have "u = f t" by (simp add: get)
    with mine same(4) True show ?thesis by (simp add: statuses)
  next
    case False
    with u have u': "get_task db j = Some u" by (simp add: get)
    with others [OF False] old(2) [OF u', unfolded blocker_statuses_def] old(3) [OF u'] show ?thesis by (simp add: statuses)
  qed
  ultimately show ?thesis by (simp add: graph_inv_def)
qed

text \<open>A path stays in the workspace it starts in.\<close>

lemma path_in_workspace:
  assumes "rows_ok db" "(i, j) \<in> (dependency_pairs db)\<^sup>*" "get_task db i = Some t"
  shows "(i, j) \<in> (workspace_pairs db (tk_workspaceId t))\<^sup>* \<and>
    (\<exists>u. get_task db j = Some u \<and> tk_workspaceId u = tk_workspaceId t)"
  using assms(2)
proof (induction rule: rtrancl_induct)
  case base
  with assms(3) show ?case by auto
next
  case (step j k)
  from step.hyps(2) obtain d where d: "d \<in> set (db_dependencies db)" "dp_blockerTaskId d = j" "dp_blockedTaskId d = k"
    by (rule pair_row)
  from rows_okD(1) [OF assms(1) d(1)] step.IH d have "dp_workspaceId d = tk_workspaceId t"
    "\<exists>v. get_task db k = Some v \<and> tk_workspaceId v = tk_workspaceId t"
    by (auto simp: dependencyMatchesTasks_def dependencyTupleMatches_def)
  moreover from this(1) d have "(j, k) \<in> workspace_pairs db (tk_workspaceId t)"
    by (auto simp: workspace_pairs_def)
  ultimately show ?case using step.IH by (auto intro: rtrancl_into_rtrancl)
qed

lemma acyclic_insert_edge:
  assumes "rows_ok db" "get_task db j = Some t" "(j, i) \<notin> (workspace_pairs db (tk_workspaceId t))\<^sup>*"
  shows "acyclic (insert (i, j) (dependency_pairs db))"
  using rows_okD(5) [OF assms(1)] path_in_workspace [OF assms(1) _ assms(2), of i] assms(3) by (auto simp: acyclic_insert)

lemma graph_inv_link:
  assumes inv: "graph_inv db" and distinct: "distinct (map tk_id (db_tasks db))"
    and t: "get_task db i = Some t" and b: "get_task db j = Some b"
    and row: "dp_blockerTaskId row = j" "dp_blockedTaskId row = i" "dependencyMatchesTasks row b t" "dp_id row = db_next db"
    and new: "(j, i) \<notin> dependency_pairs db" and path: "(i, j) \<notin> (workspace_pairs db (tk_workspaceId t))\<^sup>*"
    and rows: "db_dependencies db' = db_dependencies db @ [row]"
    and tasks: "db_tasks db' = patch_row tk_id i f (db_tasks db)" and next': "db_next db < db_next db'"
    and f: "\<And>x. tk_id (f x) = tk_id x" "tk_organizationId (f t) = tk_organizationId t" "tk_workspaceId (f t) = tk_workspaceId t"
      "tk_status (f t) = tk_status t" "flags_ok (f t)"
    and counters: "unresolved (task_counters (f t)) = unresolved (task_counters t) + unresolved (blockerContribution (tk_status b))"
      "cancelled (task_counters (f t)) = cancelled (task_counters t) + cancelled (blockerContribution (tk_status b))"
  shows "graph_inv db'"
proof (rule graph_inv_rows [OF inv t distinct tasks f])
  note old = graph_invD(1) [OF inv]
  show "\<exists>x y. get_task db (dp_blockerTaskId d) = Some x \<and> get_task db (dp_blockedTaskId d) = Some y \<and>
      dependencyMatchesTasks d x y" if "d \<in> set (db_dependencies db')" for d
    using that rows_okD(1) [OF old, of d] row t b by (auto simp: rows)
  show "distinct (map dp_id (db_dependencies db'))"
    using rows_okD(2,3) [OF old] row(4) by (auto simp: rows dest: rows_okD(3) [OF old])
  show "dp_id d < db_next db'" if "d \<in> set (db_dependencies db')" for d
    using that rows_okD(3) [OF old, of d] row(4) next' by (auto simp: rows)
  show "distinct (map (\<lambda>d. (dp_blockerTaskId d, dp_blockedTaskId d)) (db_dependencies db'))"
    using rows_okD(4) [OF old] new row(1,2) by (auto simp: rows dependency_pairs_def)
  have "dependency_pairs db' = insert (j, i) (dependency_pairs db)"
    using row by (auto simp: dependency_pairs_def rows)
  with acyclic_insert_edge [OF old t path] show "acyclic (dependency_pairs db')" by simp
  have into: "rows_into db' k = rows_into db k @ (if k = i then [row] else [])" for k
    using row(2) by (simp add: rows_into_def rows)
  have "blocker_status db row = tk_status b" by (simp add: blocker_status_def row(1) b)
  then show "task_counters (f t) = recount (map (blocker_status db) (rows_into db' i))"
    using counters graph_invD(2) [OF inv t]
    by (simp add: into recount_append counters_eq_iff blocker_statuses_def)
  show "rows_into db' k = rows_into db k" if "k \<noteq> i" for k using that by (simp add: into)
qed

lemma sum_list_drop:
  fixes h :: "'a \<Rightarrow> int"
  assumes "distinct (map key xs)" "x \<in> set xs"
  shows "sum_list (map h (filter (\<lambda>y. key y \<noteq> key x) xs)) = sum_list (map h xs) - h x"
proof -
  from assms(1) have d: "distinct xs" by (simp add: distinct_map)
  from assms have "set (filter (\<lambda>y. key y \<noteq> key x) xs) = set xs - {x}"
    by (auto simp: distinct_map dest: inj_onD)
  with d assms(2) show ?thesis
    by (simp add: sum_list_distinct_conv_sum_set sum.remove [of "set xs" x] del: set_filter)
qed

lemma graph_inv_unlink:
  assumes inv: "graph_inv db" and distinct: "distinct (map tk_id (db_tasks db))"
    and t: "get_task db i = Some t" and b: "get_task db j = Some b"
    and row: "row \<in> set (db_dependencies db)" "dp_blockerTaskId row = j" "dp_blockedTaskId row = i"
    and rows: "db_dependencies db' = filter (\<lambda>d. dp_id d \<noteq> dp_id row) (db_dependencies db)"
    and tasks: "db_tasks db' = patch_row tk_id i f (db_tasks db)" and next': "db_next db \<le> db_next db'"
    and f: "\<And>x. tk_id (f x) = tk_id x" "tk_organizationId (f t) = tk_organizationId t" "tk_workspaceId (f t) = tk_workspaceId t"
      "tk_status (f t) = tk_status t" "flags_ok (f t)"
    and counters: "unresolved (task_counters (f t)) = unresolved (task_counters t) - unresolved (blockerContribution (tk_status b))"
      "cancelled (task_counters (f t)) = cancelled (task_counters t) - cancelled (blockerContribution (tk_status b))"
  shows "graph_inv db'"
proof (rule graph_inv_rows [OF inv t distinct tasks f])
  note old = graph_invD(1) [OF inv]
  have sub: "set (db_dependencies db') \<subseteq> set (db_dependencies db)" by (auto simp: rows)
  show "\<exists>x y. get_task db (dp_blockerTaskId d) = Some x \<and> get_task db (dp_blockedTaskId d) = Some y \<and>
      dependencyMatchesTasks d x y" if "d \<in> set (db_dependencies db')" for d
    using rows_okD(1) [OF old, of d] that sub by blast
  show "distinct (map dp_id (db_dependencies db'))" using rows_okD(2) [OF old] by (simp add: rows distinct_map_filter)
  show "dp_id d < db_next db'" if "d \<in> set (db_dependencies db')" for d
    using rows_okD(3) [OF old, of d] that sub next' by auto
  show "distinct (map (\<lambda>d. (dp_blockerTaskId d, dp_blockedTaskId d)) (db_dependencies db'))"
    using rows_okD(4) [OF old] by (simp add: rows distinct_map_filter)
  have "dependency_pairs db' \<subseteq> dependency_pairs db" using sub by (auto simp: dependency_pairs_def)
  with rows_okD(5) [OF old] show "acyclic (dependency_pairs db')" by (rule acyclic_subset)
  have into: "rows_into db' k = filter (\<lambda>d. dp_id d \<noteq> dp_id row) (rows_into db k)" for k
    by (simp add: rows_into_def rows conj_commute)
  have ids: "distinct (map dp_id (rows_into db k))" for k
    using rows_okD(2) [OF old] by (simp add: rows_into_def distinct_map_filter)
  from row have mem: "row \<in> set (rows_into db i)" by (simp add: rows_into_def)
  have "blocker_status db row = tk_status b" by (simp add: blocker_status_def row(2) b)
  then show "task_counters (f t) = recount (map (blocker_status db) (rows_into db' i))"
    using counters graph_invD(2) [OF inv t] sum_list_drop [OF ids mem]
    by (simp add: into recount_def counters_eq_iff blocker_statuses_def comp_def)
  show "rows_into db' k = rows_into db k" if k: "k \<noteq> i" for k
  proof -
    have "dp_id d \<noteq> dp_id row" if "d \<in> set (rows_into db k)" for d
    proof
      assume "dp_id d = dp_id row"
      moreover from that have "d \<in> set (db_dependencies db)" "dp_blockedTaskId d = k" by (auto simp: rows_into_def)
      ultimately show False using rows_okD(2) [OF old] row k by (auto simp: distinct_map dest: inj_onD)
    qed
    then show ?thesis by (simp add: into)
  qed
qed

end
