(* ===== verification/WorkEffects.thy ===== *)
theory WorkEffects
  imports WorkGraph
begin

text \<open>
  What each mutation of the work graph amounts to on the tables of tasks, claims and dependency rows:
  the helpers leave them alone (\<open>frame\<close>), the propagation rewrites the dependents, and each handler
  either changes nothing or writes what one of the lemmas below names.
\<close>

subsection \<open>Helpers that leave the tables alone\<close>

lemma frame_repair_and_refuse: "repair_and_refuse task kind now requestId details db = Some (r, db') \<Longrightarrow> frame db db'"
  by (auto simp: repair_and_refuse_def dest: frame_repair split: option.splits)

lemma frame_event: "append_event fresh t kind actor command payload now db = Some db' \<Longrightarrow> frame db db'"
  unfolding append_event_def by (rule frame_append)

lemma frame_human_receipt:
  "storeHumanReceipt stringify identity operation key digest requestId data now db = Some db' \<Longrightarrow> frame db db'"
  by (auto simp: storeHumanReceipt_def Let_def frame_def split: if_splits)

lemma frame_load: "loadMutableAgentTask a key revision fence now requestId db = Some (r, db') \<Longrightarrow> frame db db'"
  unfolding loadMutableAgentTask_def
  by (auto dest: frame_refuse frame_repair_and_refuse split: option.splits if_splits)

lemma frame_admit_insertion: "admit_insertion t b now requestId db = Some (r, db') \<Longrightarrow> frame db db'"
  unfolding admit_insertion_def Let_def
  by (auto dest: frame_refuse frame_repair_and_refuse split: if_splits CycleCheck.splits)

lemma frame_complete_dependency:
  "complete_dependency codec operation args a i d now db = Some (r, db') \<Longrightarrow> frame db db'"
  unfolding complete_dependency_def Let_def
  by (auto dest!: frame_receipt split: option.splits)

lemma frame_complete_submission: "complete_submission codec operation args a data now db = Some (r, db') \<Longrightarrow> frame db db'"
  unfolding complete_submission_def by (auto dest: frame_receipt split: option.splits)

lemma frame_complete_planner: "complete_planner codec operation args a i now db = Some (r, db') \<Longrightarrow> frame db db'"
  unfolding complete_planner_def by (auto dest: frame_human_receipt split: option.splits)

lemma frame_admit_dependency:
  assumes "admit_dependency args a t now db = Some (r, db')"
  shows "frame db db'"
proof -
  have "frame db db1 \<Longrightarrow> admit_insertion t b now requestId db1 = Some (s, db2) \<Longrightarrow> frame db db2" for b requestId db1 s db2
    by (blast intro: frame_trans frame_admit_insertion)
  then show ?thesis
    using assms unfolding admit_dependency_def Let_def
    by (auto dest!: frame_refuse frame_repair_and_refuse frame_counters intro: frame_trans
        split: option.splits sum.splits if_splits)
qed

lemmas work_frames = frame_refuse frame_repair_and_refuse frame_event frame_human_receipt frame_load
  frame_admit_insertion frame_admit_dependency frame_complete_dependency frame_complete_submission
  frame_complete_planner frame_counters frame_prologue

subsection \<open>Tasks change and claims stay\<close>

definition lease_same :: "Task \<Rightarrow> Task \<Rightarrow> bool" where
  "lease_same u v \<longleftrightarrow> tk_id v = tk_id u \<and> tk_organizationId v = tk_organizationId u \<and>
     tk_workspaceId v = tk_workspaceId u \<and> tk_claimFence v = tk_claimFence u \<and>
     tk_currentClaim v = tk_currentClaim u \<and> (tk_status v = TS_in_progress) = (tk_status u = TS_in_progress)"

lemma lease_same_lease: "lease_same u v \<Longrightarrow> lease_of v = lease_of u"
  by (simp add: lease_same_def lease_of_def)

lemma lease_same_tuple: "lease_same u v \<Longrightarrow> activeTaskClaimTupleMatches v compact c = activeTaskClaimTupleMatches u compact c"
  by (auto simp: lease_same_def activeTaskClaimTupleMatches_def)

lemma store_inv_map:
  assumes inv: "store_inv db" and tasks: "db_tasks db' = map g (db_tasks db)"
    and tables: "db_claims db' = db_claims db" "db_workspaces db' = db_workspaces db" "db_next db \<le> db_next db'"
    and same: "\<And>u. u \<in> set (db_tasks db) \<Longrightarrow> lease_same u (g u)"
  shows "store_inv db'"
proof -
  note ok = store_invD(1) [OF inv]
  have key: "u \<in> set (db_tasks db) \<Longrightarrow> tk_id (g u) = tk_id u" for u using same by (simp add: lease_same_def)
  have get: "get_task db' j = map_option g (get_task db j)" for j
    unfolding tasks using key by (rule get_row_map)
  have keys: "map tk_id (db_tasks db') = map tk_id (db_tasks db)" using key by (simp add: tasks)
  have "claims_ok db'"
  proof (rule claims_okI)
    show "distinct (map tk_id (db_tasks db'))" unfolding keys by (rule claims_okD(1) [OF ok])
    show "distinct (map cl_id (db_claims db'))" unfolding tables by (rule claims_okD(2) [OF ok])
    show "i < db_next db' \<and> task_claim_ok db' v" if "get_task db' i = Some v" for i v
    proof -
      from that get obtain u where u: "get_task db i = Some u" "v = g u" by auto
      from get_row_Some [OF u(1)] same have s: "lease_same u v" using u(2) by auto
      from claims_okD(3) [OF ok u(1)] s tables(1,3) show ?thesis
        by (auto simp: task_claim_ok_def lease_same_tuple [OF s] lease_same_def split: option.splits)
    qed
    show "i < db_next db' \<and> claim_owned db' c" if "get_claim db' i = Some c" for i c
    proof -
      from that tables(1) have "get_claim db i = Some c" by simp
      from claims_okD(4) [OF ok this] obtain u where u: "i < db_next db" "1 \<le> cl_fence c" "get_task db (cl_taskId c) = Some u"
        "cl_fence c \<le> tk_claimFence u"
        "cl_state c = CS_active \<longrightarrow> (\<exists>compact. tk_currentClaim u = Some compact \<and> cc_claimId compact = cl_id c)"
        by (auto simp: claim_owned_def)
      moreover from get_row_Some [OF u(3)] same have "lease_same u (g u)" by simp
      ultimately show ?thesis using tables(3) by (simp add: claim_owned_def get lease_same_def)
    qed
    show "i = j" if "get_claim db' i = Some c" "get_claim db' j = Some d" "cl_taskId c = cl_taskId d" "cl_fence c = cl_fence d"
      for i j c d
      using that claims_okD(5) [OF ok, of i c j d] by (simp add: tables)
  qed
  moreover have "tenants_ok db'"
    using store_invD(2) [OF inv] same by (fastforce simp: tenants_ok_def tasks tables lease_same_def)
  ultimately show ?thesis by (simp add: store_inv_def)
qed

text \<open>One task closes, and so does the claim it held, if any.\<close>

definition closes :: "(Task \<Rightarrow> Task) \<Rightarrow> Task \<Rightarrow> bool" where
  "closes f t \<longleftrightarrow> tk_claimFence (f t) = tk_claimFence t \<and> tk_currentClaim (f t) = None \<and>
     tk_status (f t) \<noteq> TS_in_progress"

definition keeps_tenant :: "(Task \<Rightarrow> Task) \<Rightarrow> bool" where
  "keeps_tenant f \<longleftrightarrow> (\<forall>x. tk_id (f x) = tk_id x \<and> tk_organizationId (f x) = tk_organizationId x \<and>
     tk_workspaceId (f x) = tk_workspaceId x)"

definition end_claim :: "ClaimState \<Rightarrow> int \<Rightarrow> TaskClaim option \<Rightarrow> Db \<Rightarrow> Db" where
  "end_claim state now claim db = (case claim of None \<Rightarrow> db | Some c \<Rightarrow> patch_claim (cl_id c) (ended state now) db)"

lemma end_claim_simps [simp]:
  "db_tasks (end_claim state now c db) = db_tasks db" "db_next (end_claim state now c db) = db_next db"
  "db_workspaces (end_claim state now c db) = db_workspaces db"
  "db_dependencies (end_claim state now c db) = db_dependencies db"
  by (simp_all add: end_claim_def split: option.split)

lemma store_inv_close:
  assumes inv: "store_inv db" and t: "get_task db i = Some t"
    and claim: "case tk_currentClaim t of None \<Rightarrow> claim = None
      | Some compact \<Rightarrow> \<exists>c. claim = Some c \<and> get_claim db (cc_claimId compact) = Some c"
    and state: "state \<noteq> CS_active" and f: "closes f t" "keeps_tenant f"
    and frame: "frame (patch_task i f (end_claim state now claim db)) db'"
  shows "store_inv db'"
proof -
  note ok = store_invD(1) [OF inv]
  have "claims_ok db'"
  proof (cases "tk_currentClaim t")
    case (Some compact)
    with claim obtain c where c: "claim = Some c" "get_claim db (cc_claimId compact) = Some c" by auto
    from get_row_Some [OF c(2)] have "cc_claimId compact = cl_id c" by simp
    from c(1) frame have "frame (patch_task i f (patch_claim (cl_id c) (ended state now) db)) db'" by (simp add: end_claim_def)
    from claims_ok_close [OF ok t _ Some _ state _ _ _ _ this [unfolded ended_def [abs_def]]] c \<open>cc_claimId compact = cl_id c\<close> f
    show ?thesis by (simp add: closes_def keeps_tenant_def)
  next
    case None
    with claim have "claim = None" by simp
    let ?g = "\<lambda>u. if tk_id u = i then f u else u"
    have g: "lease_same u (?g u)" if "u \<in> set (db_tasks db)" for u
    proof (cases "tk_id u = i")
      case True
      with get_row_mem [OF claims_okD(1) [OF ok] that] t have "u = t" by simp
      with f None claims_okD(3) [OF ok t] show ?thesis
        by (auto simp: lease_same_def closes_def keeps_tenant_def task_claim_ok_def)
    qed (simp add: lease_same_def)
    have "store_inv (patch_task i f db)"
      by (rule store_inv_map [OF inv _ _ _ _ g]) (simp_all add: patch_row_def)
    from claims_ok_frame [OF store_invD(1) [OF this]] frame \<open>claim = None\<close> show ?thesis by (simp add: end_claim_def)
  qed
  moreover have "tenants_ok db'"
    by (rule tenants_ok_frame_patch [OF store_invD(2) [OF inv] _ _ frame]) (use f(2) in \<open>simp_all add: keeps_tenant_def\<close>)
  ultimately show ?thesis by (simp add: store_inv_def)
qed

subsection \<open>The propagation\<close>

definition carry :: "(Task \<times> blocker_counters) list \<Rightarrow> EventActor \<Rightarrow> int \<Rightarrow> Task \<Rightarrow> Task" where
  "carry plan actor now u =
     (case map_of (map (\<lambda>(t, c). (tk_id t, c)) plan) (tk_id u) of
        None \<Rightarrow> u
      | Some c \<Rightarrow> recounted (unresolved c) (cancelled c) actor now u)"

definition plan_ids :: "(Task \<times> blocker_counters) list \<Rightarrow> nat list" where
  "plan_ids plan = map (\<lambda>(t, c). tk_id t) plan"

lemma plan_ids_simps [simp]: "plan_ids [] = []" "plan_ids ((t, c) # plan) = tk_id t # plan_ids plan"
  by (simp_all add: plan_ids_def)

lemma recounted_same [simp]:
  "tk_id (recounted n m actor now t) = tk_id t" "tk_organizationId (recounted n m actor now t) = tk_organizationId t"
  "tk_workspaceId (recounted n m actor now t) = tk_workspaceId t" "tk_status (recounted n m actor now t) = tk_status t"
  "tk_currentClaim (recounted n m actor now t) = tk_currentClaim t" "tk_claimFence (recounted n m actor now t) = tk_claimFence t"
  "task_counters (recounted n m actor now t) = \<lparr>unresolved = n, cancelled = m\<rparr>"
  by (simp_all add: recounted_def Let_def task_counters_def)

lemma recounted_flags:
  assumes "tk_currentClaim t = None \<or> tk_status t = TS_in_progress"
  shows "flags_ok (recounted n m actor now t)"
  using assms by (auto simp: flags_ok_def recounted_def Let_def derivedReady_def unblocked_def task_blocking_count_def)

lemma claimed_in_progress:
  assumes "store_inv db" "u \<in> set (db_tasks db)"
  shows "tk_currentClaim u = None \<or> tk_status u = TS_in_progress"
proof -
  note ok = store_invD(1) [OF assms(1)]
  from claims_okD(3) [OF ok claims_ok_task [OF ok assms(2)]] show ?thesis
    by (auto simp: task_claim_ok_def activeTaskClaimTupleMatches_def split: option.splits)
qed

lemma carry_same [simp]:
  "tk_id (carry plan actor now u) = tk_id u" "tk_organizationId (carry plan actor now u) = tk_organizationId u"
  "tk_workspaceId (carry plan actor now u) = tk_workspaceId u" "tk_status (carry plan actor now u) = tk_status u"
  "tk_currentClaim (carry plan actor now u) = tk_currentClaim u" "tk_claimFence (carry plan actor now u) = tk_claimFence u"
  by (simp_all add: carry_def split: option.split)

lemma carry_lease: "lease_same u (carry plan actor now u)"
  by (simp add: lease_same_def)

lemma carry_other: "tk_id u \<notin> set (plan_ids plan) \<Longrightarrow> carry plan actor now u = u"
  by (force simp: carry_def plan_ids_def dest: map_of_SomeD split: option.split)

lemma carry_planned:
  assumes "(t, c) \<in> set plan" "distinct (plan_ids plan)" "tk_id u = tk_id t"
  shows "carry plan actor now u = recounted (unresolved c) (cancelled c) actor now u"
proof -
  have "map fst (map (\<lambda>(t, c). (tk_id t, c)) plan) = plan_ids plan" by (simp add: plan_ids_def comp_def case_prod_unfold)
  with assms have "map_of (map (\<lambda>(t, c). (tk_id t, c)) plan) (tk_id u) = Some c"
    by (intro map_of_is_SomeI) force+
  then show ?thesis by (simp add: carry_def)
qed

text \<open>A store with other tasks and the same rest.\<close>

definition tasks_only :: "Db \<Rightarrow> Db \<Rightarrow> bool" where
  "tasks_only db db' \<longleftrightarrow> frame (db \<lparr>db_tasks := db_tasks db'\<rparr>) db'"

lemma tasks_onlyD:
  assumes "tasks_only db db'"
  shows "db_claims db' = db_claims db" "db_workspaces db' = db_workspaces db" "db_next db \<le> db_next db'"
    "db_dependencies db' = db_dependencies db" "db_submissions db' = db_submissions db" "db_usage db' = db_usage db"
  using assms by (simp_all add: tasks_only_def frame_def)

lemma tasks_only_trans: "tasks_only a b \<Longrightarrow> tasks_only b c \<Longrightarrow> tasks_only a c"
  by (auto simp: tasks_only_def frame_def)

lemma write_dependents_tasks:
  assumes "write_dependents fresh actor command now plan db = Some db'" "distinct (plan_ids plan)"
  shows "db_tasks db' = map (carry plan actor now) (db_tasks db) \<and> tasks_only db db'"
  using assms
proof (induction fresh actor command now plan db rule: write_dependents.induct)
  case (1 fresh actor command now db)
  then show ?case by (simp add: carry_def tasks_only_def)
next
  case (2 fresh actor command now t c plan db)
  let ?db = "patch_task (tk_id t) (recounted (unresolved c) (cancelled c) actor now) db"
  from 2(2) obtain db1 where event: "append_event fresh t ''task.updated'' actor command [(''fields'', DT_text ''blockers'')] now ?db = Some db1"
    and rest: "write_dependents fresh actor command now plan db1 = Some db'" by (auto split: option.splits)
  from frame_event [OF event] have f: "frame ?db db1" .
  from 2(1) [OF event rest] 2(3) have ih: "db_tasks db' = map (carry plan actor now) (db_tasks db1)" "tasks_only db1 db'"
    by (simp_all add: plan_ids_def)
  have fresh_id: "tk_id t \<notin> set (plan_ids plan)" using 2(3) by (simp add: plan_ids_def)
  have "carry plan actor now (if tk_id u = tk_id t then recounted (unresolved c) (cancelled c) actor now u else u) =
      carry ((t, c) # plan) actor now u" for u
    using fresh_id by (auto simp: carry_other) (simp_all add: carry_def)
  moreover have "db_tasks db1 = patch_row tk_id (tk_id t) (recounted (unresolved c) (cancelled c) actor now) (db_tasks db)"
    using f by (simp add: frame_def)
  ultimately have "db_tasks db' = map (carry ((t, c) # plan) actor now) (db_tasks db)"
    by (simp add: ih(1) patch_row_def comp_def)
  moreover have "tasks_only db db1" using f by (simp add: tasks_only_def frame_def)
  ultimately show ?case using tasks_only_trans [OF _ ih(2)] by blast
qed

lemma plan_dependents_plan:
  assumes "plan_dependents db blocker s s' now edges seen = PP_plan plan"
  shows "plan_ids plan = map dp_blockedTaskId edges \<and> distinct (plan_ids plan) \<and> set (plan_ids plan) \<inter> set seen = {} \<and>
    (\<forall>(t, c) \<in> set plan. get_task db (tk_id t) = Some t \<and> c = transitionBlockerCounters (task_counters t) s s')"
  using assms
proof (induction edges arbitrary: seen plan)
  case Nil
  then show ?case by simp
next
  case (Cons edge edges)
  from Cons.prems obtain t rest where t: "get_task db (dp_blockedTaskId edge) = Some t" "tk_id t \<notin> set seen"
    and rest: "plan_dependents db blocker s s' now edges (tk_id t # seen) = PP_plan rest"
    and plan: "plan = (t, transitionBlockerCounters (task_counters t) s s') # rest"
    by (auto simp: Let_def split: option.splits if_splits propagation.splits)
  from get_row_Some [OF t(1)] have id: "tk_id t = dp_blockedTaskId edge" by simp
  from Cons.IH [OF rest] have ih: "plan_ids rest = map dp_blockedTaskId edges" "distinct (plan_ids rest)"
    "set (plan_ids rest) \<inter> set (tk_id t # seen) = {}"
    "\<forall>(t, c) \<in> set rest. get_task db (tk_id t) = Some t \<and> c = transitionBlockerCounters (task_counters t) s s'"
    by blast+
  from ih(3) have "tk_id t \<notin> set (plan_ids rest)" "set (plan_ids rest) \<inter> set seen = {}" by simp_all
  with ih(1,2,4) t id show ?case by (simp add: plan)
qed

lemma rows_of_blocker:
  assumes "rows_ok db" "get_task db i = Some t"
  shows "dp_blockedTaskId ` set (blocking_edges db (tk_workspaceId t) i) = dependency_pairs db `` {i}"
proof -
  have "dp_workspaceId d = tk_workspaceId t" if "d \<in> set (db_dependencies db)" "dp_blockerTaskId d = i" for d
    using rows_okD(1) [OF assms(1) that(1)] that(2) assms(2) by (auto simp: dependencyMatchesTasks_def dependencyTupleMatches_def)
  then show ?thesis by (fastforce simp: blocking_edges_def dependency_pairs_def)
qed

text \<open>What a propagation that was not refused has written.\<close>

definition carries :: "Db \<Rightarrow> nat \<Rightarrow> TaskStatus \<Rightarrow> TaskStatus \<Rightarrow> EventActor \<Rightarrow> int \<Rightarrow> (Task \<times> blocker_counters) list \<Rightarrow> bool" where
  "carries db i s s' actor now plan \<longleftrightarrow> distinct (plan_ids plan) \<and> set (plan_ids plan) = dependency_pairs db `` {i} \<and>
     (\<forall>(t, c) \<in> set plan. get_task db (tk_id t) = Some t \<and> c = transitionBlockerCounters (task_counters t) s s')"

lemma carries_counters:
  assumes "carries db i s s' actor now plan" "get_task db (tk_id u) = Some u" "(i, tk_id u) \<in> dependency_pairs db"
  shows "task_counters (carry plan actor now u) = transitionBlockerCounters (task_counters u) s s'"
proof -
  from assms(1,3) have "tk_id u \<in> set (plan_ids plan)" by (simp add: carries_def)
  then obtain v c where v: "(v, c) \<in> set plan" "tk_id u = tk_id v" by (auto simp: plan_ids_def)
  from assms(1) v(1) have "get_task db (tk_id v) = Some v" and c: "c = transitionBlockerCounters (task_counters v) s s'"
    by (auto simp: carries_def)
  with assms(2) v(2) have "v = u" by simp
  from assms(1) have "distinct (plan_ids plan)" by (simp add: carries_def)
  from carry_planned [OF v(1) this v(2)] show ?thesis by (simp add: c \<open>v = u\<close>)
qed

lemma propagate_writes:
  assumes run: "propagateBlockerTransition fresh t s s' n actor key requestId now db = Some (r, db')"
    and inv: "graph_inv db" and t: "get_task db i = Some t"
  shows "(case r of Inl err \<Rightarrow> frame db db' | Inr u \<Rightarrow> \<exists>plan. carries db i s s' actor now plan \<and>
    db_tasks db' = map (carry plan actor now) (db_tasks db) \<and> tasks_only db db')"
proof -
  let ?edges = "loadBlockingDependents db t"
  from get_row_Some [OF t] have i: "tk_id t = i" by simp
  show ?thesis
  proof (cases "int (length ?edges) > MAX_BLOCKING_DEPENDENTS \<or> Option.is_none (blockerPropagationReadBound n (int (length ?edges)))")
    case True
    with run show ?thesis by (auto simp: propagateBlockerTransition_def Let_def refuse_def)
  next
    case False
    then have short: "length ?edges \<le> nat MAX_BLOCKING_DEPENDENTS" by (simp add: MAX_BLOCKING_DEPENDENTS_def)
    then have whole: "?edges = blocking_edges db (tk_workspaceId t) i"
      by (auto simp: loadBlockingDependents_def i MAX_BLOCKING_DEPENDENTS_def)
    note run = run [unfolded propagateBlockerTransition_def Let_def if_not_P [OF False]]
    show ?thesis
    proof (cases "plan_dependents db t s s' now ?edges []")
      case (PP_mismatch task details)
      note run = run [unfolded this propagation.case]
      from run have "\<exists>e. r = Inl e" by (auto simp: repair_and_refuse_def split: option.splits)
      with frame_repair_and_refuse [OF run] show ?thesis by auto
    next
      case (PP_plan plan)
      note planned = plan_dependents_plan [OF PP_plan]
      from run [unfolded PP_plan propagation.case] obtain u where "r = Inr u"
        "write_dependents fresh actor (EM_client key requestId) now plan db = Some db'" by (auto split: option.splits)
      moreover have "set (plan_ids plan) = dependency_pairs db `` {i}"
        unfolding rows_of_blocker [OF graph_invD(1) [OF inv] t, symmetric] using planned by (simp add: whole)
      ultimately show ?thesis using planned write_dependents_tasks [of fresh actor "EM_client key requestId" now plan db db']
        by (auto simp: carries_def)
    qed
  qed
qed

subsection \<open>A task settles\<close>

lemma store_inv_carry:
  assumes "store_inv db" "db_tasks db' = map (carry plan actor now) (db_tasks db)" "tasks_only db db'"
  shows "store_inv db'"
  using assms(1,2) tasks_onlyD(1-3) [OF assms(3)] by (rule store_inv_map) (rule carry_lease)

text \<open>The dependents follow the task from its status to the new one.\<close>

lemma graph_inv_settle:
  assumes inv: "graph_inv db" "store_inv db" and t: "get_task db i = Some t"
    and plan: "carries db i (tk_status t) (tk_status (f t)) actor now plan"
    and tasks: "db_tasks db' = patch_row tk_id i f (map (carry plan actor now) (db_tasks db))"
    and rows: "db_dependencies db' = db_dependencies db" and next': "db_next db \<le> db_next db'"
    and f: "keeps_tenant f" "task_counters (f t) = task_counters t" "flags_ok (f t)"
  shows "graph_inv db'"
proof (rule graph_inv_update [OF inv(1) t _ rows next',
      of "\<lambda>u. if tk_id u = i then f (carry plan actor now u) else carry plan actor now u"])
  note ok = store_invD(1) [OF inv(2)]
  from get_row_Some [OF t] have ti: "tk_id t = i" by simp
  have not_self: "i \<notin> set (plan_ids plan)"
    using plan no_self_edge [OF graph_invD(1) [OF inv(1)], of i] by (auto simp: carries_def)
  have only: "u = t" if "u \<in> set (db_tasks db)" "tk_id u = i" for u
    using claims_ok_task [OF ok that(1)] that(2) t by simp
  have carry_t: "carry plan actor now t = t" using not_self ti by (simp add: carry_other)
  show "db_tasks db' = map (\<lambda>u. if tk_id u = i then f (carry plan actor now u) else carry plan actor now u) (db_tasks db)"
    by (simp add: tasks patch_row_def comp_def)
  show "tk_id (if tk_id u = i then f (carry plan actor now u) else carry plan actor now u) = tk_id u \<and>
      tk_organizationId (if tk_id u = i then f (carry plan actor now u) else carry plan actor now u) = tk_organizationId u \<and>
      tk_workspaceId (if tk_id u = i then f (carry plan actor now u) else carry plan actor now u) = tk_workspaceId u \<and>
      flags_ok (if tk_id u = i then f (carry plan actor now u) else carry plan actor now u)" if u: "u \<in> set (db_tasks db)" for u
  proof -
    have "flags_ok (carry plan actor now u)"
      using graph_invD(3) [OF inv(1) claims_ok_task [OF ok u]] recounted_flags [OF claimed_in_progress [OF inv(2) u]]
      by (simp add: carry_def split: option.split)
    with only [OF u] f(1,3) carry_t show ?thesis by (auto simp: keeps_tenant_def)
  qed
  show "tk_status (if tk_id u = i then f (carry plan actor now u) else carry plan actor now u) = tk_status u"
    if "tk_id u \<noteq> i" for u using that by simp
  show "task_counters (if tk_id u = i then f (carry plan actor now u) else carry plan actor now u) =
      (if (i, tk_id u) \<in> dependency_pairs db
       then transitionBlockerCounters (task_counters u) (tk_status t)
         (tk_status (if tk_id t = i then f (carry plan actor now t) else carry plan actor now t))
       else task_counters u)" if u: "u \<in> set (db_tasks db)" for u
  proof (cases "(i, tk_id u) \<in> dependency_pairs db")
    case True
    have "tk_id u \<noteq> i" using True no_self_edge [OF graph_invD(1) [OF inv(1)], of i] by metis
    with True carries_counters [OF plan claims_ok_task [OF ok u]] show ?thesis
      by (simp only: if_True if_False ti carry_t refl)
  next
    case False
    with plan have "carry plan actor now u = u" by (intro carry_other) (auto simp: carries_def)
    with False only [OF u] f(2) show ?thesis by auto
  qed
qed

end
