(* ===== verification/WorkReviews.thy ===== *)
theory WorkReviews
  imports WorkEffects
begin

text \<open>
  The invariant of the submissions: each belongs to a task of its tenant, a task in review has exactly
  one pending submission and any other task none, and a settled submission names no dispatch. One
  lemma for the ways in which a command changes a task and its submissions together.
\<close>

definition in_review :: "Db \<Rightarrow> nat \<Rightarrow> bool" where
  "in_review db i \<longleftrightarrow> (\<exists>t. get_task db i = Some t \<and> tk_status t = TS_in_review)"

definition pending_of :: "Db \<Rightarrow> nat \<Rightarrow> TaskSubmission list" where
  "pending_of db i = filter (\<lambda>s. ts_taskId s = i \<and> ts_status s = SS_pending) (db_submissions db)"

definition submission_owned :: "Db \<Rightarrow> TaskSubmission \<Rightarrow> bool" where
  "submission_owned db s \<longleftrightarrow> (\<exists>t. get_task db (ts_taskId s) = Some t \<and> submissionHasTaskOwnership t s)"

definition sub_inv :: "Db \<Rightarrow> bool" where
  "sub_inv db \<longleftrightarrow> distinct (map ts_id (db_submissions db)) \<and>
     (\<forall>s \<in> set (db_submissions db). ts_id s < db_next db \<and> submission_owned db s \<and>
        (ts_status s \<noteq> SS_pending \<longrightarrow> ts_dispatchPublicId s = None)) \<and>
     (\<forall>i. length (pending_of db i) = (if in_review db i then 1 else 0))"

lemma sub_invD:
  assumes "sub_inv db"
  shows "distinct (map ts_id (db_submissions db))"
    and "s \<in> set (db_submissions db) \<Longrightarrow> ts_id s < db_next db"
    and "s \<in> set (db_submissions db) \<Longrightarrow> submission_owned db s"
    and "s \<in> set (db_submissions db) \<Longrightarrow> ts_status s \<noteq> SS_pending \<Longrightarrow> ts_dispatchPublicId s = None"
    and "length (pending_of db i) = (if in_review db i then 1 else 0)"
  using assms by (auto simp: sub_inv_def)

text \<open>Every task stays, in its tenant; a task other than \<open>i\<close> is in review as before.\<close>

definition others_stay :: "nat option \<Rightarrow> Db \<Rightarrow> Db \<Rightarrow> bool" where
  "others_stay i db db' \<longleftrightarrow>
     (\<forall>j t. get_task db j = Some t \<longrightarrow> (\<exists>t'. get_task db' j = Some t' \<and> tk_id t' = tk_id t \<and>
        tk_organizationId t' = tk_organizationId t \<and> tk_workspaceId t' = tk_workspaceId t)) \<and>
     (\<forall>j. i \<noteq> Some j \<longrightarrow> in_review db' j = in_review db j)"

lemma owned_stays: "others_stay i db db' \<Longrightarrow> submission_owned db s \<Longrightarrow> submission_owned db' s"
  by (fastforce simp: others_stay_def submission_owned_def submissionHasTaskOwnership_def task_scope_def
      taskScopedRecordMatches_def)

lemma sub_inv_same:
  assumes "sub_inv db" "others_stay None db db'" "db_submissions db' = db_submissions db" "db_next db \<le> db_next db'"
  shows "sub_inv db'"
proof -
  have "in_review db' = in_review db" "pending_of db' = pending_of db"
    using assms(2,3) by (auto simp: others_stay_def pending_of_def)
  with assms(1,3,4) owned_stays [OF assms(2)] show ?thesis by (fastforce simp: sub_inv_def)
qed

lemma sub_inv_stay:
  assumes "sub_inv db" "others_stay (Some i) db db'" "in_review db' i = in_review db i"
    and "db_submissions db' = db_submissions db" "db_next db \<le> db_next db'"
  shows "sub_inv db'"
proof (rule sub_inv_same [OF assms(1) _ assms(4,5)])
  show "others_stay None db db'" using assms(2,3) unfolding others_stay_def by (metis option.inject)
qed

text \<open>A task enters review with a new submission, or leaves it as its submission is settled.\<close>

lemma sub_inv_enter:
  assumes inv: "sub_inv db" and others: "others_stay (Some i) db db'"
    and rows: "db_submissions db' = db_submissions db @ [s]" "db_next db < db_next db'"
    and s: "ts_id s = db_next db" "ts_taskId s = i" "ts_status s = SS_pending" "submission_owned db s"
    and review: "\<not> in_review db i" "in_review db' i"
  shows "sub_inv db'"
proof -
  have "length (pending_of db' j) = (if in_review db' j then 1 else 0)" for j
  proof (cases "j = i")
    case True
    have "pending_of db' i = pending_of db i @ [s]" using s by (simp add: pending_of_def rows)
    with True sub_invD(5) [OF inv, of i] review show ?thesis by simp
  next
    case False
    then have "pending_of db' j = pending_of db j" "in_review db' j = in_review db j"
      using s others by (auto simp: pending_of_def rows others_stay_def)
    with sub_invD(5) [OF inv, of j] show ?thesis by simp
  qed
  moreover have "distinct (map ts_id (db_submissions db'))"
    using sub_invD(1) [OF inv] less_irrefl sub_invD(2) [OF inv] by (fastforce simp: rows s(1))
  moreover have "ts_id r < db_next db' \<and> submission_owned db' r \<and> (ts_status r \<noteq> SS_pending \<longrightarrow> ts_dispatchPublicId r = None)"
    if "r \<in> set (db_submissions db')" for r
    using that owned_stays [OF others] sub_invD(2-4) [OF inv] s rows by (cases "r = s") (fastforce simp: rows(1))+
  ultimately show ?thesis by (simp add: sub_inv_def)
qed

lemma sub_inv_leave:
  assumes inv: "sub_inv db" and others: "others_stay (Some i) db db'"
    and rows: "db_submissions db' = patch_row ts_id (ts_id s) (\<lambda>r. pendingSubmissionBase s status) (db_submissions db)"
      "db_next db \<le> db_next db'"
    and s: "s \<in> set (db_submissions db)" "ts_taskId s = i" "ts_status s = SS_pending" "status \<noteq> SS_pending"
    and review: "\<not> in_review db' i"
  shows "sub_inv db'"
proof -
  let ?s = "pendingSubmissionBase s status"
  let ?g = "\<lambda>r. if ts_id r = ts_id s then ?s else r"
  have base: "ts_id ?s = ts_id s" "ts_taskId ?s = i" "ts_status ?s = status" "ts_dispatchPublicId ?s = None"
    by (simp_all add: pendingSubmissionBase_def s)
  have only: "r = s" if "r \<in> set (db_submissions db)" "ts_id r = ts_id s" for r
    using sub_invD(1) [OF inv] that s(1) by (auto simp: distinct_map dest: inj_onD)
  have map: "db_submissions db' = map ?g (db_submissions db)" by (simp add: rows(1) patch_row_def)
  have keep: "ts_taskId (?g r) = j \<and> ts_status (?g r) = SS_pending \<longleftrightarrow> ts_taskId r = j \<and> ts_status r = SS_pending"
    if "r \<in> set (db_submissions db)" "j \<noteq> i" for r j
    using only [OF that(1)] that(2) base s by (cases "ts_id r = ts_id s") auto
  have "length (pending_of db' j) = (if in_review db' j then 1 else 0)" for j
  proof (cases "j = i")
    case True
    from s have mem: "s \<in> set (pending_of db i)" by (simp add: pending_of_def)
    then have "length (pending_of db i) = 1" using sub_invD(5) [OF inv, of i] by (cases "pending_of db i") (auto split: if_splits)
    with mem have one: "pending_of db i = [s]" by (cases "pending_of db i") auto
    have "r = s" if "r \<in> set (db_submissions db)" "ts_taskId r = i" "ts_status r = SS_pending" for r
    proof -
      from that have "r \<in> set (pending_of db i)" by (simp add: pending_of_def)
      with one show ?thesis by simp
    qed
    then have "pending_of db' i = []" using s(4) base
      by (auto simp: pending_of_def map filter_empty_conv split: if_splits)
    with True review show ?thesis by simp
  next
    case False
    have "length (pending_of db' j) = length (pending_of db j)"
      unfolding pending_of_def map filter_map length_map comp_def using keep False
      by (intro arg_cong [of _ _ length] filter_cong) auto
    with False sub_invD(5) [OF inv, of j] others show ?thesis by (simp add: others_stay_def)
  qed
  moreover have "distinct (map ts_id (db_submissions db'))"
  proof -
    have "ts_id (?g r) = ts_id r" for r by (simp add: base(1))
    then have "map ts_id (db_submissions db') = map ts_id (db_submissions db)" by (simp add: map)
    with sub_invD(1) [OF inv] show ?thesis by simp
  qed
  moreover have "ts_id r < db_next db' \<and> submission_owned db' r \<and> (ts_status r \<noteq> SS_pending \<longrightarrow> ts_dispatchPublicId r = None)"
    if "r \<in> set (db_submissions db')" for r
  proof -
    from that obtain q where q: "q \<in> set (db_submissions db)" "r = ?g q" by (auto simp: map)
    have owned: "submission_owned db' q" using owned_stays [OF others sub_invD(3) [OF inv q(1)]] .
    show ?thesis
    proof (cases "ts_id q = ts_id s")
      case True
      with only q have "q = s" "r = ?s" by auto
      with owned sub_invD(2) [OF inv s(1)] rows(2) base show ?thesis
        by (auto simp: submission_owned_def submissionHasTaskOwnership_def pendingSubmissionBase_def)
    next
      case False
      with q owned sub_invD(2,4) [OF inv q(1)] rows(2) show ?thesis by auto
    qed
  qed
  ultimately show ?thesis by (simp add: sub_inv_def)
qed

subsection \<open>The claim commands leave the submissions alone\<close>

lemma others_stay_map:
  assumes "\<And>j. get_task db' j = map_option (g j) (get_task db j)"
    and "\<And>j u. get_task db j = Some u \<Longrightarrow> tk_id (g j u) = tk_id u \<and> tk_organizationId (g j u) = tk_organizationId u \<and>
      tk_workspaceId (g j u) = tk_workspaceId u \<and>
      (i \<noteq> Some j \<longrightarrow> (tk_status (g j u) = TS_in_review) = (tk_status u = TS_in_review))"
  shows "others_stay i db db'"
  using assms(2) by (fastforce simp: others_stay_def in_review_def assms(1))

lemma others_stay_frame: "frame db db' \<Longrightarrow> others_stay i db db'"
  by (rule others_stay_map [where g = "\<lambda>j u. u"]) (simp_all add: frame_tasks option.map_ident)

lemma sub_inv_frame: "sub_inv db \<Longrightarrow> frame db db' \<Longrightarrow> sub_inv db'"
  using sub_inv_same [of db db', OF _ others_stay_frame] by (simp add: frame_def)

lemma others_stay_patched:
  assumes "frame (patch_task i f db1) db'" "db_tasks db1 = db_tasks db" "get_task db i = Some t" "keeps_tenant f"
    and "k = Some i \<or> (tk_status (f t) = TS_in_review) = (tk_status t = TS_in_review)"
  shows "others_stay k db db'"
proof -
  have get: "get_task db' j = (if i = j then map_option f (get_task db j) else get_task db j)" for j
    by (rule patched_task [OF assms(1,2)]) (use assms(4) in \<open>simp add: keeps_tenant_def\<close>)
  show ?thesis
    by (rule others_stay_map [where g = "\<lambda>j. if i = j then f else (\<lambda>u. u)"])
      (use assms(3-5) in \<open>auto simp: get option.map_ident keeps_tenant_def\<close>)
qed

lemma others_stay_effect:
  assumes "effect now db db'" "store_inv db"
  shows "others_stay None db db' \<and> db_submissions db' = db_submissions db \<and> db_next db \<le> db_next db'"
  using assms
proof (induction rule: effect.induct)
  case (idle db db')
  from others_stay_frame [OF idle(1)] idle(1) show ?case by (simp add: frame_def)
next
  case (acquire db db0 i t previous a fence publicId revision db')
  have "others_stay None db db'"
    by (rule others_stay_patched [OF acquire(7) _ acquire(2)])
      (use acquire(8) in \<open>auto simp: insert_claim_def frame_store [OF acquire(1)] acquired_def keeps_tenant_def
        end_previous_def split: option.split\<close>)
  with acquire(1,7) show ?case by (auto simp: frame_def insert_claim_def end_previous_def split: option.splits)
next
  case (renew db db0 i t compact c revision db')
  have "others_stay None db db'"
    by (rule others_stay_patched [OF renew(8) _ renew(2)])
      (simp_all add: frame_store [OF renew(1)] renewed_def keeps_tenant_def)
  with renew(1,8) show ?case by (simp add: frame_def)
next
  case (reopen db db0 i t compact c state ready revision db')
  have "others_stay None db db'"
    by (rule others_stay_patched [OF reopen(7) _ reopen(2)])
      (use reopen(5) in \<open>simp_all add: frame_store [OF reopen(1)] reopened_def keeps_tenant_def activeTaskClaimTupleMatches_def\<close>)
  with reopen(1,7) show ?case by (simp add: frame_def)
next
  case (suppress db j c db')
  then have "db_tasks db' = db_tasks db" "db_submissions db' = db_submissions db" "db_next db \<le> db_next db'" by (simp_all add: frame_def)
  then show ?case by (simp add: others_stay_def in_review_def)
next
  case (create db db0 t db')
  have ok: "claims_ok db0" by (rule claims_ok_frame [OF store_invD(1) [OF create(10)] create(1)])
  note get = get_task_insert [OF ok create(2)]
  have get': "get_task db' j = (if j = db_next db0 then Some t else get_task db j)" for j
    using frame_tasks [OF create(7), of j] by (simp add: get frame_store [OF create(1)])
  have "get_task db (db_next db0) = None"
  proof (rule ccontr)
    assume "\<not> ?thesis"
    then obtain u where "get_task db0 (db_next db0) = Some u" by (auto simp: frame_store [OF create(1)])
    from claims_okD(3) [OF ok this] show False by simp
  qed
  then have "others_stay None db db'"
    using create(3) by (auto simp: others_stay_def in_review_def get')
  with create(1,7) show ?case by (simp add: frame_def insert_task_def)
next
  case (wake db i t db' revision)
  have keys: "tk_id (woken revision now x) = tk_id x" for x by (simp add: woken_def)
  have "others_stay None db db'"
    by (rule others_stay_map [where g = "\<lambda>j. if i = j then woken revision now else (\<lambda>u. u)"])
      (use wake(1,2) in \<open>auto simp: wake(3) get_row_patch [of tk_id, OF keys] woken_def option.map_ident\<close>)
  with wake show ?case by simp
qed

end
