(* ===== verification/WorkSteps.thy ===== *)
theory WorkSteps
  imports WorkReviews
begin

text \<open>
  Every command keeps the invariant of the claims and the invariant of the graph: the claim commands
  and jobs through their effects, the work graph mutations through the writes of their handlers.
\<close>

subsection \<open>The claim commands\<close>

lemma graph_inv_frame:
  assumes "graph_inv db" "frame db db'"
  shows "graph_inv db'"
proof (cases "db_tasks db")
  case Nil
  with assms have "db_dependencies db = []"
    by (force simp: graph_inv_def rows_ok_def table_simps dest: hd_in_set)
  with Nil assms show ?thesis
    by (simp add: graph_inv_def rows_ok_def frame_def table_simps dependency_pairs_def)
next
  case (Cons t ts)
  from assms(2) have eqs: "db_tasks db' = db_tasks db" "db_dependencies db' = db_dependencies db" "db_next db \<le> db_next db'"
    by (simp_all add: frame_def)
  have "blocker_status db' = blocker_status db" by (rule ext) (simp add: blocker_status_def eqs)
  with assms(1) eqs show ?thesis
    by (auto simp: graph_inv_def rows_ok_def dependency_pairs_def blocker_statuses_def rows_into_def intro: less_le_trans)
qed

lemma effect_graph:
  assumes "effect now db db'" "store_inv db" "graph_inv db"
  shows "graph_inv db'"
  using assms
proof (induction rule: effect.induct)
  case (idle db db')
  from graph_inv_frame [OF idle(3,1)] show ?case .
next
  case (acquire db db0 i t previous a fence publicId revision db')
  note g = graph_inv_frame [OF acquire(10,1)]
  have ok: "claims_ok db0" by (rule claims_ok_frame [OF store_invD(1) [OF acquire(9)] acquire(1)])
  from acquire(2) have t0: "get_task db0 i = Some t" by (simp add: frame_tasks [OF acquire(1)])
  from graph_invD(3) [OF g t0] have flags: "flags_ok t" .
  have "graph_inv (patch_task i (acquired a publicId fence (db_next db0) revision now)
      (insert_claim (acquired_claim a publicId fence (db_next db0) i now) (end_previous previous now db0)))"
    by (rule graph_inv_patch [where f = "acquired a publicId fence (db_next db0) revision now", OF g t0 claims_okD(1) [OF ok]])
      (use acquire(8) flags in \<open>auto simp: insert_claim_def acquired_def task_counters_def blockerContribution_def flags_ok_def
        task_blocking_count_def end_previous_def split: option.split\<close>)
  from graph_inv_frame [OF this acquire(7)] show ?case .
next
  case (renew db db0 i t compact c revision db')
  note g = graph_inv_frame [OF renew(10,1)]
  have ok: "claims_ok db0" by (rule claims_ok_frame [OF store_invD(1) [OF renew(9)] renew(1)])
  from renew(2) have t0: "get_task db0 i = Some t" by (simp add: frame_tasks [OF renew(1)])
  from graph_invD(3) [OF g t0] renew(3) have flags: "flags_ok t" "\<not> tk_isReady t" by (auto simp: flags_ok_def)
  have "graph_inv (patch_task i (renewed compact (cl_leaseGeneration c + 1) (now + DEFAULT_CLAIM_LEASE_MS) revision now)
      (patch_claim (cl_id c) (renewed_claim (cl_leaseGeneration c + 1) (now + DEFAULT_CLAIM_LEASE_MS) now) db0))"
    by (rule graph_inv_patch [where f = "renewed compact (cl_leaseGeneration c + 1) (now + DEFAULT_CLAIM_LEASE_MS) revision now",
        OF g t0 claims_okD(1) [OF ok]])
      (use flags in \<open>simp_all add: renewed_def task_counters_def flags_ok_def task_blocking_count_def\<close>)
  from graph_inv_frame [OF this renew(8)] show ?case .
next
  case (reopen db db0 i t compact c state ready revision db')
  note g = graph_inv_frame [OF reopen(10,1)]
  have ok: "claims_ok db0" by (rule claims_ok_frame [OF store_invD(1) [OF reopen(9)] reopen(1)])
  from reopen(2) have t0: "get_task db0 i = Some t" by (simp add: frame_tasks [OF reopen(1)])
  from graph_invD(3) [OF g t0] have flags: "flags_ok t" .
  from reopen(5) have "tk_status t = TS_in_progress" by (simp add: activeTaskClaimTupleMatches_def)
  then have "graph_inv (patch_task i (reopened ready revision now) (patch_claim (cl_id c) (ended state now) db0))"
    by (intro graph_inv_patch [where f = "reopened ready revision now", OF g t0 claims_okD(1) [OF ok]])
      (use flags reopen(8) in \<open>auto simp: reopened_def task_counters_def flags_ok_def task_blocking_count_def
        blockerContribution_def unblocked_def\<close>)
  from graph_inv_frame [OF this reopen(7)] show ?case .
next
  case (suppress db j c db')
  have "graph_inv (patch_claim j (suppressed now) db)"
    using suppress(4) by (simp add: graph_inv_def rows_ok_def dependency_pairs_def blocker_statuses_def rows_into_def
        blocker_status_def [abs_def])
  from graph_inv_frame [OF this suppress(2)] show ?case .
next
  case (create db db0 t db')
  note g = graph_inv_frame [OF create(11,1)]
  have ok: "claims_ok db0" by (rule claims_ok_frame [OF store_invD(1) [OF create(10)] create(1)])
  have "get_task db0 (tk_id t) = None"
  proof (rule ccontr)
    assume "\<not> ?thesis"
    then obtain u where "get_task db0 (tk_id t) = Some u" by auto
    from claims_okD(3) [OF ok this] create(2) show False by simp
  qed
  then have "graph_inv (insert_task t db0)"
    by (rule graph_inv_insert [OF g])
      (use create in \<open>simp_all add: insert_task_def flags_ok_def unblocked_def task_blocking_count_def\<close>)
  from graph_inv_frame [OF this create(7)] show ?case .
next
  case (wake db i t db' revision)
  note ok = store_invD(1) [OF wake(11)]
  from graph_invD(3) [OF wake(12,1)] have flags: "flags_ok t" .
  show ?case
    by (rule graph_inv_patch [OF wake(12,1) claims_okD(1) [OF ok] wake(3,7,6)])
      (use flags wake(2,8,9) in \<open>simp_all add: woken_def task_counters_def flags_ok_def task_blocking_count_def
        unblocked_def\<close>)
qed

subsection \<open>What a step must keep\<close>

definition step_ok :: "int \<Rightarrow> Db \<Rightarrow> Db \<Rightarrow> bool" where
  "step_ok now db db' \<longleftrightarrow> store_inv db' \<and> graph_inv db' \<and>
     (\<forall>j u. get_task db j = Some u \<longrightarrow>
        (\<exists>u'. get_task db' j = Some u' \<and> lease_step now (lease_of u) (lease_of u'))) \<and>
     (sub_inv db \<longrightarrow> sub_inv db')"

lemma step_ok_effect: "effect now db db' \<Longrightarrow> store_inv db \<Longrightarrow> graph_inv db \<Longrightarrow> step_ok now db db'"
  using others_stay_effect [of now db db'] sub_inv_same [of db db']
  by (auto simp: step_ok_def intro: effect_store_inv effect_graph effect_lease)

lemma step_ok_frame: "frame db db' \<Longrightarrow> store_inv db \<Longrightarrow> graph_inv db \<Longrightarrow> step_ok now db db'"
  by (rule step_ok_effect [OF effect.idle])

lemma step_ok_between:
  assumes "frame db db1" "step_ok now db1 db2" "frame db2 db'"
  shows "step_ok now db db'"
  using assms store_inv_frame [OF _ assms(3)] graph_inv_frame [OF _ assms(3)] sub_inv_frame [OF _ assms(1)]
    sub_inv_frame [OF _ assms(3)]
  by (auto simp: step_ok_def frame_tasks)

subsection \<open>Adding and removing a dependency\<close>

lemma load_accepts:
  assumes "loadMutableAgentTask a key revision fence now requestId db = Some (Inr t, db')"
  shows "db' = db" "t \<in> set (db_tasks db)" "tk_organizationId t = au_organizationId a" "tk_workspaceId t = au_workspaceId a" "tk_key t = key"
  using assms unfolding loadMutableAgentTask_def
  by (auto simp: refuse_def repair_and_refuse_def taskMatchesAuthorizedScope_def dest: taskByKey_mem
      split: option.splits if_splits)

lemma unique_row_set: "unique_row xs = Some (Some x) \<Longrightarrow> set xs = {x}" "unique_row xs = Some None \<Longrightarrow> xs = []"
  by (cases xs rule: unique_row.cases; simp)+

lemma existing_row:
  assumes "existing_dependency db t b = Some (Some row)"
  shows "row \<in> set (db_dependencies db)" "dp_blockerTaskId row = tk_id b" "dp_blockedTaskId row = tk_id t"
  using unique_row_set(1) [OF assms [unfolded existing_dependency_def]] by auto

lemma admit_insertion_accepts:
  assumes "admit_insertion t b now requestId db = Some (Inr u, db')"
  shows "db' = db" "validateDependencyCycleIntegrityDb db (tk_workspaceId t) (tk_id b) (tk_id t) = CY_valid"
    "int (length (blockerRows db t)) < MAX_DIRECT_BLOCKERS"
  using assms unfolding admit_insertion_def Let_def
  by (auto simp: refuse_def repair_and_refuse_def split: if_splits CycleCheck.splits option.splits)

lemma admit_dependency_accepts:
  assumes "admit_dependency args a t now db = Some (Inr (b, existing), db')"
  shows "db' = db" "b \<in> set (db_tasks db)" "tk_organizationId b = au_organizationId a" "tk_workspaceId b = au_workspaceId a"
    "tk_id b \<noteq> tk_id t" "existing_dependency db t b = Some existing"
    "if wa_remove args then existing \<noteq> None else existing = None \<and>
      validateDependencyCycleIntegrityDb db (tk_workspaceId t) (tk_id b) (tk_id t) = CY_valid"
    "tk_key b = wa_blockerKey args"
proof -
  note run = assms [unfolded admit_dependency_def Let_def]
  from run obtain b' where key: "taskByKey db (tk_workspaceId t) (wa_blockerKey args) = Some (Some b')"
    and scope: "taskMatchesAuthorizedScope (tk_organizationId b', tk_workspaceId b') (au_organizationId a, au_workspaceId a)"
    and other: "tk_id b' \<noteq> tk_id t"
    by (auto simp: refuse_def repair_and_refuse_def split: option.splits if_splits)
  from run key scope other obtain actual db1 where checked: "ensureCounterProjection t now (ca_requestId args) db = Some (Inr actual, db1)"
    by (auto split: option.splits sum.splits)
  from checked_counters(4) [OF checked] have db1: "db1 = db" .
  note run = run [unfolded key, simplified option.case, unfolded if_not_P [OF other] if_not_P [OF notI [OF notE [OF _ scope]]]]
  from run key scope other checked db1 obtain row where row: "existing_dependency db t b' = Some row"
    by (auto split: option.splits)
  have end': "b' = b \<and> row = existing \<and> db' = db \<and> (if wa_remove args then existing \<noteq> None else existing = None \<and>
      validateDependencyCycleIntegrityDb db (tk_workspaceId t) (tk_id b) (tk_id t) = CY_valid)"
    using run key scope other checked row
    by (auto simp: db1 refuse_def repair_and_refuse_def Option.is_none_def dest: admit_insertion_accepts
        split: option.splits if_splits sum.splits)
  show "db' = db" "b \<in> set (db_tasks db)" "tk_organizationId b = au_organizationId a" "tk_workspaceId b = au_workspaceId a"
    "tk_id b \<noteq> tk_id t" "existing_dependency db t b = Some existing"
    "if wa_remove args then existing \<noteq> None else existing = None \<and>
      validateDependencyCycleIntegrityDb db (tk_workspaceId t) (tk_id b) (tk_id t) = CY_valid"
    "tk_key b = wa_blockerKey args"
    using end' taskByKey_mem [OF key] scope other row by (auto simp: taskMatchesAuthorizedScope_def)
qed

lemma step_ok_tasks:
  assumes inv: "store_inv db" and tasks: "db_tasks db' = map g (db_tasks db)"
    and tables: "db_claims db' = db_claims db" "db_workspaces db' = db_workspaces db" "db_next db \<le> db_next db'"
    and same: "\<And>u. u \<in> set (db_tasks db) \<Longrightarrow> lease_same u (g u)" and graph: "graph_inv db'"
    and status: "\<And>u. tk_status (g u) = tk_status u" "db_submissions db' = db_submissions db"
  shows "step_ok now db db'"
proof -
  have get: "get_task db' j = map_option g (get_task db j)" for j
    unfolding tasks using same by (intro get_row_map) (simp add: lease_same_def)
  have "lease_of (g u) = lease_of u" if "get_task db j = Some u" for j u
    using get_row_Some [OF that] same lease_same_lease by simp
  moreover have "others_stay None db db'"
    by (rule others_stay_map [where g = "\<lambda>j. g", OF get]) (use same get_row_Some in \<open>force simp: lease_same_def status(1)\<close>)
  from sub_inv_same [OF _ this status(2) tables(3)] have "sub_inv db \<longrightarrow> sub_inv db'" by blast
  ultimately show ?thesis using store_inv_map [OF inv tasks tables same] graph by (simp add: step_ok_def get)
qed

lemma step_ok_recounted:
  assumes "store_inv db" "db_tasks db' = patch_row tk_id i (recounted n m actor now) (db_tasks db)"
    and "db_claims db' = db_claims db" "db_workspaces db' = db_workspaces db" "db_next db \<le> db_next db'" "graph_inv db'"
    and "db_submissions db' = db_submissions db"
  shows "step_ok now' db db'"
  by (rule step_ok_tasks [where g = "\<lambda>u. if tk_id u = i then recounted n m actor now u else u", OF assms(1) _ assms(3-5) _ assms(6) _ assms(7)])
    (simp_all add: assms(2) patch_row_def lease_same_def)

lemma counters_fields:
  "unresolved (task_counters t) = tk_unresolvedBlockerCount t" "cancelled (task_counters t) = tk_cancelledBlockerCount t"
  by (simp_all add: task_counters_def)

lemma recount_member:
  assumes "s \<in> set ss"
  shows "unresolved (blockerContribution s) \<le> unresolved (recount ss) \<and>
    cancelled (blockerContribution s) \<le> cancelled (recount ss)"
  using assms
proof (induction ss)
  case (Cons s' ss)
  have "0 \<le> unresolved (recount ss)" "0 \<le> cancelled (recount ss)" "0 \<le> unresolved (blockerContribution s')"
    "0 \<le> cancelled (blockerContribution s')" by simp_all
  moreover from Cons have "s = s' \<or> unresolved (blockerContribution s) \<le> unresolved (recount ss) \<and>
    cancelled (blockerContribution s) \<le> cancelled (recount ss)" by auto
  ultimately show ?case by (auto simp del: recount_nonneg contribution_nonneg)
qed simp

text \<open>A row that is counted can be taken out of the count.\<close>

lemma counted_row:
  assumes inv: "graph_inv db" and t: "get_task db i = Some t" and b: "get_task db j = Some b"
    and row: "row \<in> set (db_dependencies db)" "dp_blockerTaskId row = j" "dp_blockedTaskId row = i"
  shows "unresolved (blockerContribution (tk_status b)) \<le> tk_unresolvedBlockerCount t"
    "cancelled (blockerContribution (tk_status b)) \<le> tk_cancelledBlockerCount t"
proof -
  from row have "row \<in> set (rows_into db i)" by (simp add: rows_into_def)
  moreover have "blocker_status db row = tk_status b" by (simp add: blocker_status_def row(2) b)
  ultimately have "tk_status b \<in> set (blocker_statuses db i)" by (force simp: blocker_statuses_def)
  then have "unresolved (blockerContribution (tk_status b)) \<le> unresolved (recount (blocker_statuses db i))"
    "cancelled (blockerContribution (tk_status b)) \<le> cancelled (recount (blocker_statuses db i))"
    using recount_member by blast+
  then show "unresolved (blockerContribution (tk_status b)) \<le> tk_unresolvedBlockerCount t"
    "cancelled (blockerContribution (tk_status b)) \<le> tk_cancelledBlockerCount t"
    unfolding counters_fields [symmetric] graph_invD(2) [OF inv t] .
qed

lemma counters_nonneg:
  assumes "graph_inv db" "get_task db i = Some t"
  shows "0 \<le> tk_unresolvedBlockerCount t" "0 \<le> tk_cancelledBlockerCount t"
  using graph_invD(2) [OF assms] recount_nonneg unfolding counters_fields [symmetric] by simp_all

text \<open>The writes of an admitted change succeed as far as the counters go, and keep both invariants.\<close>

lemma dependency_writes_step:
  assumes inv: "store_inv db" "graph_inv db" and t: "t \<in> set (db_tasks db)" and b: "b \<in> set (db_tasks db)"
    and tenant: "tk_organizationId b = tk_organizationId t" "tk_workspaceId b = tk_workspaceId t" "tk_id b \<noteq> tk_id t"
    and existing: "existing_dependency db t b = Some existing"
    and admitted: "if wa_remove args then existing \<noteq> None else existing = None \<and>
      validateDependencyCycleIntegrityDb db (tk_workspaceId t) (tk_id b) (tk_id t) = CY_valid"
    and run: "dependency_writes fresh args actor t b existing now db = Some (r, db')"
  shows "step_ok now db db'" "\<exists>row. r = Inr row"
proof -
  note ok = store_invD(1) [OF inv(1)]
  note get = claims_ok_task [OF ok t] claims_ok_task [OF ok b]
  note distinct = claims_okD(1) [OF ok]
  let ?c = "blockerContribution (tk_status b)"
  let ?n = "tk_unresolvedBlockerCount t + (if wa_remove args then - unresolved ?c else unresolved ?c)"
  let ?m = "tk_cancelledBlockerCount t + (if wa_remove args then - cancelled ?c else cancelled ?c)"
  let ?f = "recounted ?n ?m actor now"
  have flags: "flags_ok (?f t)" by (rule recounted_flags [OF claimed_in_progress [OF inv(1) t]])
  have "\<exists>row db1. dependency_rows (wa_remove args) t b existing actor now db = Some (row, db1) \<and> 0 \<le> ?n \<and> 0 \<le> ?m \<and>
    (\<forall>db2. frame (patch_task (tk_id t) ?f db1) db2 \<longrightarrow> step_ok now db db2)"
  proof (cases "wa_remove args")
    case True
    with admitted obtain row where row: "existing = Some row" by auto
    note r = existing_row [OF existing [unfolded row]]
    let ?db1 = "db \<lparr>db_dependencies := filter (\<lambda>d. dp_id d \<noteq> dp_id row) (db_dependencies db)\<rparr>"
    have "dependency_rows (wa_remove args) t b existing actor now db = Some (row, ?db1)"
      by (simp add: dependency_rows_def True row)
    moreover have "0 \<le> ?n \<and> 0 \<le> ?m" using counted_row [OF inv(2) get r] by (simp add: True)
    moreover have "graph_inv (patch_task (tk_id t) ?f ?db1)"
      by (rule graph_inv_unlink [where f = ?f, OF inv(2) distinct get r])
        (use flags in \<open>simp_all add: True counters_fields\<close>)
    then have "step_ok now db (patch_task (tk_id t) ?f ?db1)"
      by (intro step_ok_recounted [OF inv(1)]) simp_all
    ultimately show ?thesis using step_ok_between [OF frame_refl] by blast
  next
    case False
    with admitted have new: "existing = None" and valid: "validateDependencyCycleIntegrityDb db (tk_workspaceId t) (tk_id b) (tk_id t) = CY_valid"
      by simp_all
    let ?row = "\<lparr>dp_organizationId = tk_organizationId t, dp_workspaceId = tk_workspaceId t, dp_blockerTaskId = tk_id b,
      dp_blockedTaskId = tk_id t, dp_kind = ''blocks'', dp_id = db_next db, dp_createdBy = actor, dp_createdAt = now\<rparr>"
    let ?db1 = "db \<lparr>db_next := Suc (db_next db), db_dependencies := db_dependencies db @ [?row]\<rparr>"
    have "dependency_rows (wa_remove args) t b existing actor now db = Some (?row, ?db1)"
      by (simp add: dependency_rows_def False Let_def)
    moreover have "0 \<le> ?n \<and> 0 \<le> ?m" using counters_nonneg [OF inv(2) get(1)] by (simp add: False)
    moreover have "graph_inv (patch_task (tk_id t) ?f ?db1)"
    proof (rule graph_inv_link [where f = ?f and row = ?row, OF inv(2) distinct get])
      have "dp_workspaceId d = tk_workspaceId t" if "d \<in> set (db_dependencies db)" "dp_blockedTaskId d = tk_id t" for d
        using rows_okD(1) [OF graph_invD(1) [OF inv(2)] that(1)] that(2) get(1)
        by (auto simp: dependencyMatchesTasks_def dependencyTupleMatches_def)
      with unique_row_set(2) [OF existing [unfolded new existing_dependency_def]]
      show "(tk_id b, tk_id t) \<notin> dependency_pairs db" by (auto simp: dependency_pairs_def filter_empty_conv)
      show "(tk_id t, tk_id b) \<notin> (workspace_pairs db (tk_workspaceId t))\<^sup>*" by (rule valid_not_reachable [OF valid])
    qed (use tenant flags in \<open>simp_all add: False counters_fields dependencyMatchesTasks_def dependencyTupleMatches_def\<close>)
    then have "step_ok now db (patch_task (tk_id t) ?f ?db1)"
      by (intro step_ok_recounted [OF inv(1)]) simp_all
    ultimately show ?thesis using step_ok_between [OF frame_refl] by blast
  qed
  then obtain row db1 where rows: "dependency_rows (wa_remove args) t b existing actor now db = Some (row, db1)"
    "\<not> (?n < 0 \<or> ?m < 0)" "\<And>db2. frame (patch_task (tk_id t) ?f db1) db2 \<Longrightarrow> step_ok now db db2" by auto
  note run = run [unfolded dependency_writes_def rows(1) option.case prod.case Let_def if_not_P [OF rows(2)]]
  from run have "r = Inr row" and "frame (patch_task (tk_id t) ?f db1) db'"
    by (auto split: option.splits dest: frame_event)
  then show "step_ok now db db'" "\<exists>row. r = Inr row" using rows(3) by auto
qed

lemma complete_dependency_answers:
  "complete_dependency codec operation args a i d now db = Some (r, db') \<Longrightarrow> \<exists>y. r = Inr y"
  by (auto simp: complete_dependency_def Let_def split: option.splits)

text \<open>The handler changes nothing, or it writes an admitted change and answers.\<close>

lemma mutateTaskDependency_cases:
  assumes run: "mutateTaskDependency codec fresh args now db = Some (r, db')"
  obtains (nothing) "frame db db'"
  | (written) a t b existing db1 row db4 where
      "frame db db1" "t \<in> set (db_tasks db1)" "b \<in> set (db_tasks db1)" "tk_organizationId b = tk_organizationId t"
      "tk_workspaceId b = tk_workspaceId t" "tk_id b \<noteq> tk_id t" "existing_dependency db1 t b = Some existing"
      "if wa_remove args then existing \<noteq> None else existing = None \<and>
        validateDependencyCycleIntegrityDb db1 (tk_workspaceId t) (tk_id b) (tk_id t) = CY_valid"
      "dependency_writes fresh args (agentActor a) t b existing now db1 = Some (row, db4)"
      "frame db4 db'" "\<And>err. row = Inl err \<Longrightarrow> r = Inl err" "\<And>x. row = Inr x \<Longrightarrow> \<exists>y. r = Inr y"
      "tk_key t = wa_key args" "tk_key b = wa_blockerKey args"
proof -
  let ?op = "if wa_remove args then ''tasks.dependencies.remove'' else ''tasks.dependencies.add''"
  let ?prologue = "command_prologue (rx_parse codec) ?op ''dependencies:write'' RC_agent_write args now db"
  note run = run [unfolded mutateTaskDependency_def Let_def]
  show thesis
  proof (cases "assertRequestMetadata (ca_idempotencyKey args) (ca_requestDigest args) (ca_requestId args) now")
    case (Some err)
    with run have "frame db db'" by simp
    then show thesis by (rule nothing)
  next
    case None
    note run = run [unfolded None option.case]
    show thesis
    proof (cases ?prologue)
      case None
      with run show thesis by simp
    next
      case prologue: (Some p)
      show thesis
      proof (cases p)
        case (PG_done result db1)
        with run prologue frame_prologue(1) [OF prologue [unfolded PG_done]] have "frame db db'" by simp
        then show thesis by (rule nothing)
      next
        case (PG_go a db1)
        note f1 = frame_prologue(2) [OF prologue [unfolded PG_go]]
        note run = run [unfolded prologue PG_go option.case prologue.case]
        let ?load = "loadMutableAgentTask a (wa_key args) (wa_revision args) (wa_fence args) now (ca_requestId args) db1"
        show thesis
        proof (cases "\<exists>t. ?load = Some (Inr t, db1)")
          case False
          with run obtain err where "?load = Some (Inl err, db')"
            by (auto dest: load_accepts(1) split: option.splits sum.splits)
          from frame_trans [OF f1 frame_load [OF this]] show thesis by (rule nothing)
        next
          case True
          then obtain t where load: "?load = Some (Inr t, db1)" by auto
          note run = run [unfolded load option.case prod.case sum.case]
          show thesis
          proof (cases "\<exists>b existing. admit_dependency args a t now db1 = Some (Inr (b, existing), db1)")
            case False
            with run obtain err where "admit_dependency args a t now db1 = Some (Inl err, db')"
              by (auto dest: admit_dependency_accepts(1) split: option.splits sum.splits)
            from frame_trans [OF f1 frame_admit_dependency [OF this]] show thesis by (rule nothing)
          next
            case True
            then obtain b existing where admit: "admit_dependency args a t now db1 = Some (Inr (b, existing), db1)" by auto
            note run = run [unfolded admit option.case prod.case sum.case]
            from run obtain row db4 where w: "dependency_writes fresh args (agentActor a) t b existing now db1 = Some (row, db4)"
              by (auto split: option.splits)
            have "frame db4 db' \<and> (\<forall>err. row = Inl err \<longrightarrow> r = Inl err) \<and> (\<forall>x. row = Inr x \<longrightarrow> (\<exists>y. r = Inr y))"
              using run [unfolded w option.case prod.case]
              by (auto dest: frame_complete_dependency complete_dependency_answers split: sum.splits)
            with load_accepts [OF load] admit_dependency_accepts [OF admit] w f1 show thesis
              by (intro written [of db1 t b existing a row db4]) auto
          qed
        qed
      qed
    qed
  qed
qed

lemma mutateTaskDependency_step:
  assumes inv: "store_inv db" "graph_inv db" and run: "mutateTaskDependency codec fresh args now db = Some (r, db')"
  shows "step_ok now db db'"
  using run
proof (cases rule: mutateTaskDependency_cases)
  case nothing
  then show ?thesis using inv by (rule step_ok_frame)
next
  case (written a t b existing db1 row db4)
  from dependency_writes_step(1) [OF store_inv_frame [OF inv(1) written(1)] graph_inv_frame [OF inv(2) written(1)]
      written(2-9)] show ?thesis
    by (rule step_ok_between [OF written(1) _ written(10)])
qed

subsection \<open>Settling a task\<close>

text \<open>A store that differs at most in its submissions and its usage rows.\<close>

definition beside :: "Db \<Rightarrow> Db \<Rightarrow> bool" where
  "beside db db' \<longleftrightarrow> frame (db \<lparr>db_submissions := db_submissions db', db_usage := db_usage db'\<rparr>) db'"

lemma besideD:
  assumes "beside db db'"
  shows "get_task db' i = get_task db i" "get_claim db' j = get_claim db j"
  using assms by (simp_all add: beside_def frame_def)

lemma beside_inv:
  assumes "beside db db'"
  shows "store_inv db \<Longrightarrow> store_inv db'" "graph_inv db \<Longrightarrow> graph_inv db'"
proof -
  let ?db = "db \<lparr>db_submissions := db_submissions db', db_usage := db_usage db'\<rparr>"
  have f: "frame ?db db'" using assms by (simp add: beside_def)
  have "task_claim_ok ?db = task_claim_ok db" "claim_owned ?db = claim_owned db"
    by (rule ext, rule task_claim_ok_cong claim_owned_cong, simp)+
  then have s: "store_inv ?db = store_inv db" by (simp add: store_inv_def claims_ok_def tenants_ok_def)
  have g: "graph_inv ?db = graph_inv db"
    by (simp add: graph_inv_def rows_ok_def dependency_pairs_def blocker_statuses_def rows_into_def blocker_status_def [abs_def])
  show "store_inv db \<Longrightarrow> store_inv db'" using store_inv_frame [OF _ f] s by simp
  show "graph_inv db \<Longrightarrow> graph_inv db'" using graph_inv_frame [OF _ f] g by simp
qed

text \<open>After a propagation the task itself changes, and the claim it held, if any, ends.\<close>

lemma step_ok_settle:
  assumes inv: "store_inv db" "graph_inv db" and t: "get_task db i = Some t"
    and plan: "carries db i (tk_status t) (tk_status (f t)) actor now' plan"
    and tasks: "db_tasks db1 = map (carry plan actor now') (db_tasks db)" "tasks_only db db1"
    and claim: "case tk_currentClaim t of None \<Rightarrow> claim = None
      | Some compact \<Rightarrow> \<exists>c. claim = Some c \<and> get_claim db (cc_claimId compact) = Some c"
    and state: "state \<noteq> CS_active"
    and f: "closes f t" "keeps_tenant f" "task_counters (f t) = task_counters t" "flags_ok (f t)"
    and frame: "beside db1 db2" "frame (patch_task i f (end_claim state now' claim db2)) db'"
    and subs: "sub_inv db \<Longrightarrow> others_stay (Some i) db db' \<Longrightarrow> get_task db' i = Some (f t) \<Longrightarrow> sub_inv db'"
  shows "step_ok now db db'"
proof -
  note only = tasks_onlyD [OF tasks(2)]
  from get_row_Some [OF t] have ti: "tk_id t = i" by simp
  have "i \<notin> set (plan_ids plan)"
    using plan no_self_edge [OF graph_invD(1) [OF inv(2)], of i] by (auto simp: carries_def)
  then have carry_t: "carry plan actor now' t = t" by (simp add: carry_other ti)
  have get1: "get_task db1 j = map_option (carry plan actor now') (get_task db j)" for j
    unfolding tasks(1) by (rule get_row_map) simp
  have s2: "store_inv db2" by (rule beside_inv(1) [OF frame(1) store_inv_carry [OF inv(1) tasks]])
  have t2: "get_task db2 i = Some t" by (simp add: besideD(1) [OF frame(1)] get1 t carry_t)
  have claim2: "case tk_currentClaim t of None \<Rightarrow> claim = None
      | Some compact \<Rightarrow> \<exists>c. claim = Some c \<and> get_claim db2 (cc_claimId compact) = Some c"
    using claim by (simp add: besideD(2) [OF frame(1)] only(1) split: option.splits)
  have patched: "get_task db' j = (if i = j then map_option f (get_task db2 j) else get_task db2 j)" for j
    by (rule patched_task [OF frame(2)]) (use f(2) in \<open>simp_all add: keeps_tenant_def\<close>)
  have "others_stay (Some i) db db'"
    by (rule others_stay_map [where g = "\<lambda>j. if i = j then f \<circ> carry plan actor now' else carry plan actor now'"])
      (use f(2) in \<open>auto simp: patched besideD(1) [OF frame(1)] get1 keeps_tenant_def option.map_comp comp_def\<close>)
  note stay = this
  have "store_inv db'" by (rule store_inv_close [OF s2 t2 claim2 state f(1,2) frame(2)])
  moreover have "graph_inv db'"
  proof (rule graph_inv_settle [where f = f, OF inv(2,1) t plan _ _ _ f(2-4)])
    show "db_tasks db' = patch_row tk_id i f (map (carry plan actor now') (db_tasks db))"
      using frame by (simp add: frame_def beside_def tasks(1))
    show "db_dependencies db' = db_dependencies db" "db_next db \<le> db_next db'"
      using frame only(3,4) by (simp_all add: frame_def beside_def)
  qed
  moreover have "\<exists>u'. get_task db' j = Some u' \<and> lease_step now (lease_of u) (lease_of u')" if u: "get_task db j = Some u" for j u
  proof -
    note patched [of j]
    moreover have "get_task db2 j = Some (carry plan actor now' u)" by (simp add: besideD(1) [OF frame(1)] get1 u)
    moreover have "lease_of (carry plan actor now' u) = lease_of u" by (rule lease_same_lease [OF carry_lease])
    moreover have "lease_step now (lease_of t) (lease_of (f t))"
      using f(1) by (cases "tk_currentClaim t") (simp_all add: lease_of_def closes_def)
    ultimately show ?thesis using t u carry_t by (cases "i = j") auto
  qed
  moreover have "sub_inv db \<longrightarrow> sub_inv db'" using subs [OF _ stay] t2 patched [of i] by simp
  ultimately show ?thesis by (simp add: step_ok_def)
qed

text \<open>Without dependents to tell, when the new status weighs the same.\<close>

lemma step_ok_close:
  assumes inv: "store_inv db" "graph_inv db" and t: "get_task db i = Some t"
    and weight: "blockerContribution (tk_status (f t)) = blockerContribution (tk_status t)"
    and claim: "case tk_currentClaim t of None \<Rightarrow> claim = None
      | Some compact \<Rightarrow> \<exists>c. claim = Some c \<and> get_claim db (cc_claimId compact) = Some c"
    and state: "state \<noteq> CS_active"
    and f: "closes f t" "keeps_tenant f" "task_counters (f t) = task_counters t" "flags_ok (f t)"
    and frame: "beside db db2" "frame (patch_task i f (end_claim state now' claim db2)) db'"
    and subs: "sub_inv db \<Longrightarrow> others_stay (Some i) db db' \<Longrightarrow> get_task db' i = Some (f t) \<Longrightarrow> sub_inv db'"
  shows "step_ok now db db'"
proof -
  note ok = store_invD(1) [OF beside_inv(1) [OF frame(1) inv(1)]]
  have t2: "get_task db2 i = Some t" using t by (simp add: besideD(1) [OF frame(1)])
  have claim2: "case tk_currentClaim t of None \<Rightarrow> claim = None
      | Some compact \<Rightarrow> \<exists>c. claim = Some c \<and> get_claim db2 (cc_claimId compact) = Some c"
    using claim by (simp add: besideD(2) [OF frame(1)] split: option.splits)
  have patched: "get_task db' j = (if i = j then map_option f (get_task db2 j) else get_task db2 j)" for j
    by (rule patched_task [OF frame(2)]) (use f(2) in \<open>simp_all add: keeps_tenant_def\<close>)
  have stay: "others_stay (Some i) db db'"
    by (rule others_stay_map [where g = "\<lambda>j. if i = j then f else (\<lambda>u. u)"])
      (use f(2) in \<open>auto simp: patched besideD(1) [OF frame(1)] keeps_tenant_def option.map_ident\<close>)
  have "store_inv db'" by (rule store_inv_close [OF beside_inv(1) [OF frame(1) inv(1)] t2 claim2 state f(1,2) frame(2)])
  moreover have "graph_inv db'"
    by (rule graph_inv_patch [where f = f, OF beside_inv(2) [OF frame(1) inv(2)] t2 claims_okD(1) [OF ok]])
      (use frame(2) f weight in \<open>simp_all add: frame_def keeps_tenant_def\<close>)
  moreover have "\<exists>u'. get_task db' j = Some u' \<and> lease_step now (lease_of u) (lease_of u')" if u: "get_task db j = Some u" for j u
  proof -
    note patched [of j]
    moreover have "get_task db2 j = Some u" by (simp add: besideD(1) [OF frame(1)] u)
    moreover have "lease_step now (lease_of t) (lease_of (f t))"
      using f(1) by (cases "tk_currentClaim t") (simp_all add: lease_of_def closes_def)
    ultimately show ?thesis using t u by (cases "i = j") auto
  qed
  moreover have "sub_inv db \<longrightarrow> sub_inv db'" using subs [OF _ stay] t2 patched [of i] by simp
  ultimately show ?thesis by (simp add: step_ok_def)
qed

end
