(* ===== verification/WorkSettle.thy ===== *)
theory WorkSettle
  imports WorkSteps
begin

text \<open>
  The mutations that move a task between its statuses keep the invariants of the claims and of the
  graph: a submission, a review, a cancellation and a reopening, each from the whole handler.
\<close>

subsection \<open>What the handlers share\<close>

lemma step_ok_prologue:
  assumes inv: "store_inv db" "graph_inv db"
    and run: "(case command_prologue parse operation scope routeClass args now db of
        None \<Rightarrow> None
      | Some (PG_done result db1) \<Rightarrow> Some (result, db1)
      | Some (PG_go a db1) \<Rightarrow> rest a db1) = Some (r, db')"
    and rest: "\<And>a db1. store_inv db1 \<Longrightarrow> graph_inv db1 \<Longrightarrow> rest a db1 = Some (r, db') \<Longrightarrow> step_ok now db1 db'"
  shows "step_ok now db db'"
proof (cases "command_prologue parse operation scope routeClass args now db")
  case None
  with run show ?thesis by simp
next
  case (Some p)
  show ?thesis
  proof (cases p)
    case (PG_done result db1)
    from frame_prologue(1) [OF Some [unfolded PG_done]] run Some PG_done have "frame db db'" by simp
    then show ?thesis using inv by (rule step_ok_frame)
  next
    case (PG_go a db1)
    note f = frame_prologue(2) [OF Some [unfolded PG_go]]
    from run have "rest a db1 = Some (r, db')" by (simp add: Some PG_go)
    from rest [OF store_inv_frame [OF inv(1) f] graph_inv_frame [OF inv(2) f] this]
    show ?thesis by (rule step_ok_between [OF f _ frame_refl])
  qed
qed

lemma refusals_accept_nothing [simp]:
  "refuse code requestId details db = Some (Inr x, db') \<longleftrightarrow> False"
  "repair_and_refuse task kind now requestId details db = Some (Inr x, db') \<longleftrightarrow> False"
  by (simp_all add: refuse_def repair_and_refuse_def split: option.splits)

text \<open>A task that a claim holds, in the form the settling lemmas take.\<close>

lemma claim_found:
  assumes "get_claim db (cc_claimId compact) = Some c" "tk_currentClaim t = Some compact"
  shows "case tk_currentClaim t of None \<Rightarrow> Some c = None
    | Some compact \<Rightarrow> \<exists>d. Some c = Some d \<and> get_claim db (cc_claimId compact) = Some d"
  using assms by simp

lemma pending_row:
  assumes "pendingSubmissionsForTask db t = [s]"
  shows "s \<in> set (db_submissions db)" "ts_taskId s = tk_id t" "ts_status s = SS_pending"
proof -
  have "s \<in> set (pendingSubmissionsForTask db t)" using assms by simp
  then have "s \<in> set (sort_key ts_submittedAt (filter (\<lambda>s. ts_workspaceId s = tk_workspaceId t \<and>
      ts_taskId s = tk_id t \<and> ts_status s = SS_pending) (db_submissions db)))"
    unfolding pendingSubmissionsForTask_def by (rule in_set_takeD)
  then show "s \<in> set (db_submissions db)" "ts_taskId s = tk_id t" "ts_status s = SS_pending" by auto
qed

lemma in_review_get: "get_task db i = Some t \<Longrightarrow> in_review db i = (tk_status t = TS_in_review)"
  by (simp add: in_review_def)

subsection \<open>A submission\<close>

lemma frame_admit_submission:
  "admit_submission args a task now db = Some (Inl err, db') \<Longrightarrow> frame db db'"
  unfolding admit_submission_def Let_def
  by (auto dest!: frame_refuse frame_repair_and_refuse frame_counters intro: frame_trans
      split: option.splits sum.splits if_splits ClaimCommandDisposition.splits)

lemma admit_submission_accepts:
  assumes "admit_submission args a task now db = Some (Inr claim, db')"
  shows "db' = db" "tk_status task = TS_in_progress"
    "\<exists>compact. tk_currentClaim task = Some compact \<and> get_claim db (cc_claimId compact) = Some claim"
  using assms unfolding admit_submission_def Let_def
  by (auto simp: refuse_def repair_and_refuse_def claimCommandDisposition_def dest: checked_counters(4)
      split: option.splits sum.splits if_splits ClaimCommandDisposition.splits)

lemma submit_writes_step:
  assumes inv: "store_inv db" "graph_inv db" and t: "t \<in> set (db_tasks db)"
    and status: "tk_status t = TS_in_progress"
    and claim: "tk_currentClaim t = Some compact" "get_claim db (cc_claimId compact) = Some c"
    and run: "submit_writes fresh args a t c now db = Some (i, db')"
  shows "step_ok now db db'"
proof -
  note ok = store_invD(1) [OF inv(1)]
  note get = claims_ok_task [OF ok t]
  let ?db1 = "db \<lparr>db_next := Suc (db_next db),
    db_submissions := db_submissions db @ [submission_of args a t (db_next db) now]\<rparr>"
  let ?f = "submitted_task (agentActor a) now"
  have "beside db ?db1" by (simp add: beside_def frame_def)
  moreover have last: "frame (patch_task (tk_id t) ?f (end_claim CS_submitted now (Some c) ?db1)) db'"
    using run by (auto simp: submit_writes_def Let_def end_claim_def ended_def [abs_def] split: option.splits dest!: frame_event)
  moreover have "flags_ok (?f t)" "closes ?f t" "keeps_tenant ?f" "task_counters (?f t) = task_counters t"
    using graph_invD(3) [OF inv(2) get]
    by (simp_all add: flags_ok_def submitted_task_def closes_def keeps_tenant_def task_counters_def task_blocking_count_def)
  moreover have "sub_inv db'"
    if "sub_inv db" "others_stay (Some (tk_id t)) db db'" "get_task db' (tk_id t) = Some (?f t)"
  proof (rule sub_inv_enter [OF that(1,2), of "submission_of args a t (db_next db) now"])
    show "db_submissions db' = db_submissions db @ [submission_of args a t (db_next db) now]" "db_next db < db_next db'"
      using last by (simp_all add: frame_def end_claim_def)
    show "submission_owned db (submission_of args a t (db_next db) now)"
      using get by (simp add: submission_owned_def submission_of_def submissionHasTaskOwnership_def task_scope_def
          taskScopedRecordMatches_def)
    show "\<not> in_review db (tk_id t)" "in_review db' (tk_id t)"
      using status by (simp_all add: in_review_get [OF get] in_review_get [OF that(3)] submitted_task_def)
  qed (simp_all add: submission_of_def)
  ultimately show ?thesis
    by (intro step_ok_close [OF inv get _ claim_found [OF claim(2,1)], where state = CS_submitted and f = ?f])
      (simp_all add: status submitted_task_def blockerContribution_def)
qed

lemma submitTask_step:
  assumes inv: "store_inv db" "graph_inv db" and run: "submitTask codec rules fresh args now db = Some (r, db')"
  shows "step_ok now db db'"
proof -
  have idle: "frame db db' \<Longrightarrow> step_ok now db db'" by (rule step_ok_frame [OF _ inv])
  note run = run [unfolded submitTask_def]
  show ?thesis
  proof (cases "assertRequestMetadata (ca_idempotencyKey args) (ca_requestDigest args) (ca_requestId args) now")
    case (Some err)
    with run idle show ?thesis by simp
  next
    case None
    note run = run [unfolded None option.case]
    show ?thesis
    proof (cases "submitTaskRequestSchema rules args")
      case False
      with run idle show ?thesis by (auto dest: frame_refuse)
    next
      case True
      then have valid: "\<not> \<not> submitTaskRequestSchema rules args" by simp
      show ?thesis
      proof (rule step_ok_prologue [OF inv run [unfolded if_not_P [OF valid]]], goal_cases)
        case (1 a db1)
        from 1(3) obtain found where found: "taskByKey db1 (au_workspaceId a) (ub_key args) = Some found"
          by (auto split: option.splits)
        show ?case
        proof (cases found)
          case None
          with 1 found show ?thesis by (auto intro!: step_ok_frame dest: frame_refuse)
        next
          case (Some t)
          from taskByKey_mem [OF found [unfolded Some]] have t: "t \<in> set (db_tasks db1)" by simp
          note run = 1(3) [unfolded found Some option.case]
          show ?thesis
          proof (cases "\<exists>c db2. admit_submission args a t now db1 = Some (Inr c, db2)")
            case False
            with run obtain err where "admit_submission args a t now db1 = Some (Inl err, db')"
              by (auto split: option.splits sum.splits)
            from step_ok_frame [OF frame_admit_submission [OF this] 1(1,2)] show ?thesis .
          next
            case True
            then obtain c db2 where admit: "admit_submission args a t now db1 = Some (Inr c, db2)" by auto
            note acc = admit_submission_accepts [OF admit]
            from acc(3) obtain compact where compact: "tk_currentClaim t = Some compact" "get_claim db1 (cc_claimId compact) = Some c"
              by auto
            note run = run [unfolded admit acc(1) option.case prod.case sum.case]
            from run obtain i db3 where w: "submit_writes fresh args a t c now db1 = Some (i, db3)" "frame db3 db'"
              by (auto split: option.splits dest!: frame_complete_submission)
            from step_ok_between [OF frame_refl submit_writes_step [OF 1(1,2) t acc(2) compact w(1)] w(2)] show ?thesis .
          qed
        qed
      qed
    qed
  qed
qed


subsection \<open>A review\<close>

lemma frame_admit_review: "admit_review request now db = Some (Inl err, db') \<Longrightarrow> frame db db'"
  unfolding admit_review_def Let_def
  by (auto dest!: frame_refuse frame_repair frame_repair_and_refuse frame_counters intro: frame_trans
      split: option.splits sum.splits if_splits list.splits)

lemma admit_review_accepts:
  assumes "admit_review request now db = Some (Inr (t, submission, actual), db')"
  shows "db' = db" "t \<in> set (db_tasks db)" "tk_status t = TS_in_review" "tk_currentClaim t = None"
    "actual = task_counters t" "rq_action request = RA_accept \<Longrightarrow> tk_unresolvedBlockerCount t + tk_cancelledBlockerCount t = 0"
    "pendingSubmissionsForTask db t = [submission]"
proof -
  note run = assms [unfolded admit_review_def Let_def]
  have "taskByKey db (rq_workspaceId request) (rq_key request) = Some (Some t) \<and> tk_status t = TS_in_review \<and>
    tk_currentClaim t = None \<and> pendingSubmissionsForTask db t = [submission] \<and>
    ensureCounterProjection t now (rq_requestId request) db = Some (Inr actual, db') \<and>
    reviewAcceptanceAllowed (rq_action request) (unresolved actual + cancelled actual)"
    using run
    by (simp add: Option.is_none_def split: if_split_asm option.split_asm list.split_asm prod.split_asm sum.split_asm)
  then show "db' = db" "t \<in> set (db_tasks db)" "tk_status t = TS_in_review" "tk_currentClaim t = None"
    "actual = task_counters t" "rq_action request = RA_accept \<Longrightarrow> tk_unresolvedBlockerCount t + tk_cancelledBlockerCount t = 0"
    "pendingSubmissionsForTask db t = [submission]"
    using checked_counters taskByKey_mem
    by (auto simp: reviewAcceptanceAllowed_def task_counters_def)
qed

lemma accept_dependents_cases:
  assumes run: "accept_dependents fresh request t now db = Some (r, db')"
    and inv: "graph_inv db" and t: "get_task db i = Some t"
  shows "case r of Inl err \<Rightarrow> frame db db' | Inr usage \<Rightarrow> \<exists>plan. carries db i TS_in_review TS_done (rq_actor request) now plan \<and>
    db_tasks db' = map (carry plan (rq_actor request) now) (db_tasks db) \<and> tasks_only db db'"
  using run unfolding accept_dependents_def refuse_def
  by (auto dest!: propagate_writes [OF _ inv t] split: option.splits sum.splits if_splits)

lemma besides:
  "beside db (patch_usage usage n now db)" "beside db (patch_submission j g db)"
  "beside db db1 \<Longrightarrow> beside db (patch_usage usage n now db1)" "beside db db1 \<Longrightarrow> beside db (patch_submission j g db1)"
  by (simp_all add: beside_def frame_def patch_usage_def patch_submission_def)

lemma review_writes_step:
  assumes inv: "store_inv db" "graph_inv db" and t: "t \<in> set (db_tasks db)"
    and status: "tk_status t = TS_in_review" "tk_currentClaim t = None"
    and pending: "pendingSubmissionsForTask db t = [submission]"
  shows "rq_action request = RA_accept \<Longrightarrow> tk_unresolvedBlockerCount t + tk_cancelledBlockerCount t = 0 \<Longrightarrow>
      accept_dependents fresh request t now db = Some (Inr usage, db1) \<Longrightarrow>
      step_ok now db (accept_writes request t submission usage now db1)"
    and "step_ok now db (reject_writes request t submission (task_counters t) reason now db)"
proof -
  note ok = store_invD(1) [OF inv(1)]
  note get = claims_ok_task [OF ok t]
  have none: "case tk_currentClaim t of None \<Rightarrow> None = None
    | Some compact \<Rightarrow> \<exists>c. None = Some c \<and> get_claim db (cc_claimId compact) = Some c"
    by (simp add: status)
  show "step_ok now db (accept_writes request t submission usage now db1)"
    if unblocked: "tk_unresolvedBlockerCount t + tk_cancelledBlockerCount t = 0"
      and dependents: "accept_dependents fresh request t now db = Some (Inr usage, db1)"
  proof -
    let ?f = "accepted_task t (rq_actor request) now"
    from accept_dependents_cases [OF dependents inv(2) get] obtain plan where
      plan: "carries db (tk_id t) (tk_status t) (tk_status (?f t)) (rq_actor request) now plan"
        "db_tasks db1 = map (carry plan (rq_actor request) now) (db_tasks db)" "tasks_only db db1"
      by (auto simp: status accepted_task_def)
    let ?db2 = "patch_usage usage (us_activeTasks usage - 1) now (patch_submission (ts_id submission)
      (\<lambda>s. pendingSubmissionBase submission (SS_accepted (rq_actor request) now)) db1)"
    have "accept_writes request t submission usage now db1 = patch_task (tk_id t) ?f ?db2"
      by (simp add: accept_writes_def patch_usage_def patch_submission_def patch_task_def)
    moreover have "closes ?f t" "keeps_tenant ?f" "task_counters (?f t) = task_counters t" "flags_ok (?f t)"
      using unblocked status
      by (simp_all add: accepted_task_def closes_def keeps_tenant_def task_counters_def flags_ok_def task_blocking_count_def)
    moreover have "sub_inv db'" if "sub_inv db" "others_stay (Some (tk_id t)) db db'" "get_task db' (tk_id t) = Some (?f t)"
      "frame (patch_task (tk_id t) ?f ?db2) db'" for db'
      by (rule sub_inv_leave [OF that(1,2) _ _ pending_row [OF pending], of "SS_accepted (rq_actor request) now"])
        (use that(4) tasks_onlyD(3,5) [OF plan(3)] in \<open>simp_all add: frame_def patch_usage_def patch_submission_def
          in_review_get [OF that(3)] accepted_task_def\<close>)
    ultimately show ?thesis
      by (intro step_ok_settle [where state = CS_submitted and f = ?f and ?db2.0 = ?db2, OF inv get plan none])
        (simp_all add: besides end_claim_def)
  qed
  show "step_ok now db (reject_writes request t submission (task_counters t) reason now db)"
  proof -
    let ?f = "rejected_task t (task_counters t) (rq_actor request) now"
    let ?db2 = "patch_submission (ts_id submission)
      (\<lambda>s. pendingSubmissionBase submission (SS_rejected (rq_actor request) now reason)) db"
    have "closes ?f t" "keeps_tenant ?f" "task_counters (?f t) = task_counters t" "flags_ok (?f t)"
      using status
      by (auto simp: rejected_task_def closes_def keeps_tenant_def task_counters_def flags_ok_def task_blocking_count_def
          Let_def derivedReady_def unblocked_def)
    moreover have "sub_inv db'" if "sub_inv db" "others_stay (Some (tk_id t)) db db'" "get_task db' (tk_id t) = Some (?f t)"
      "frame (patch_task (tk_id t) ?f ?db2) db'" for db'
      by (rule sub_inv_leave [OF that(1,2) _ _ pending_row [OF pending], of "SS_rejected (rq_actor request) now reason"])
        (use that(4) in \<open>simp_all add: frame_def patch_submission_def
          in_review_get [OF that(3)] rejected_task_def Let_def\<close>)
    ultimately show ?thesis
      by (intro step_ok_close [where state = CS_submitted and f = ?f and ?db2.0 = ?db2, OF inv get _ none])
        (simp_all add: besides end_claim_def reject_writes_def status rejected_task_def Let_def blockerContribution_def)
  qed
qed

lemma reviewSubmissionTransition_step:
  assumes inv: "store_inv db" "graph_inv db"
    and run: "reviewSubmissionTransition fresh request now db = Some (r, db')"
  shows "step_ok now db db'"
proof -
  have idle: "frame db db' \<Longrightarrow> step_ok now db db'" by (rule step_ok_frame [OF _ inv])
  note run = run [unfolded reviewSubmissionTransition_def]
  show ?thesis
  proof (cases "\<exists>t s actual db1. admit_review request now db = Some (Inr (t, s, actual), db1)")
    case False
    with run obtain err where "admit_review request now db = Some (Inl err, db')"
      by (auto split: option.splits sum.splits)
    from idle [OF frame_admit_review [OF this]] show ?thesis .
  next
    case True
    then obtain t s actual db1 where admit: "admit_review request now db = Some (Inr (t, s, actual), db1)" by auto
    note acc = admit_review_accepts [OF admit]
    note run = run [unfolded admit acc(1) acc(5) option.case prod.case sum.case]
    note writes = review_writes_step [OF inv acc(2-4,7)]
    show ?thesis
    proof (cases "rq_action request")
      case RA_accept
      note run = run [unfolded RA_accept ReviewAction.case]
      show ?thesis
      proof (cases "\<exists>usage db2. accept_dependents fresh request t now db = Some (Inr usage, db2)")
        case False
        with run obtain err where "accept_dependents fresh request t now db = Some (Inl err, db')"
          by (auto split: option.splits sum.splits)
        from accept_dependents_cases [OF this inv(2) claims_ok_task [OF store_invD(1) [OF inv(1)] acc(2)]] idle
        show ?thesis by simp
      next
        case True
        then obtain usage db2 where dependents: "accept_dependents fresh request t now db = Some (Inr usage, db2)" by auto
        from run [unfolded dependents option.case prod.case sum.case]
        have "frame (accept_writes request t s usage now db2) db'"
          by (auto simp: review_event_def split: option.splits dest: frame_event)
        from step_ok_between [OF frame_refl writes(1) [OF RA_accept acc(6) [OF RA_accept] dependents] this]
        show ?thesis .
      qed
    next
      case RA_reject
      note run = run [unfolded RA_reject ReviewAction.case]
      show ?thesis
      proof (cases "rq_reason request")
        case None
        with run idle show ?thesis by (auto simp: refuse_def)
      next
        case (Some reason)
        from run [unfolded Some option.case prod.case sum.case]
        have "frame (reject_writes request t s (task_counters t) reason now db) db'"
          by (auto simp: review_event_def split: option.splits dest: frame_event)
        from step_ok_between [OF frame_refl writes(2) this] show ?thesis .
      qed
    qed
  qed
qed

lemma reviewTaskForAgent_step:
  assumes inv: "store_inv db" "graph_inv db" and run: "reviewTaskForAgent codec fresh args now db = Some (r, db')"
  shows "step_ok now db db'"
proof (cases "assertRequestMetadata (ca_idempotencyKey args) (ca_requestDigest args) (ca_requestId args) now")
  case (Some err)
  with run have "frame db db'" by (simp add: reviewTaskForAgent_def)
  then show ?thesis by (rule step_ok_frame [OF _ inv])
next
  case None
  note run = run [unfolded reviewTaskForAgent_def Let_def None option.case]
  show ?thesis
  proof (rule step_ok_prologue [OF inv run], goal_cases)
    case (1 a db1)
    then obtain s db2 where "reviewSubmissionTransition fresh (review_request args a) now db1 = Some (s, db2)" "frame db2 db'"
      by (auto split: option.splits sum.splits dest!: frame_complete_submission)
    with reviewSubmissionTransition_step [OF 1(1,2)] show ?case by (blast intro: step_ok_between frame_refl)
  qed
qed

subsection \<open>The commands of a planner\<close>

lemma step_ok_planner:
  assumes inv: "store_inv db" "graph_inv db"
    and run: "(case planner_prologue parse operation identified args db of
        None \<Rightarrow> None
      | Some (HP_done result) \<Rightarrow> Some (result, db)
      | Some (HP_go a) \<Rightarrow> rest a) = Some (r, db')"
    and rest: "\<And>a. rest a = Some (r, db') \<Longrightarrow> step_ok now db db'"
  shows "step_ok now db db'"
  using run step_ok_frame [OF frame_refl inv] rest by (auto split: option.splits human_prologue.splits)

text \<open>The part that a cancellation and a reopening share: the counters, then the dependents.\<close>

lemma carried_writes:
  assumes inv: "store_inv db" "graph_inv db" and get: "get_task db i = Some t"
    and run: "propagateBlockerTransition fresh t (tk_status t) (tk_status (f t)) n actor key requestId now db = Some (u, db1)"
    and claim: "case tk_currentClaim t of None \<Rightarrow> claim = None
      | Some compact \<Rightarrow> \<exists>c. claim = Some c \<and> get_claim db (cc_claimId compact) = Some c"
    and f: "closes f t" "keeps_tenant f" "task_counters (f t) = task_counters t" "flags_ok (f t)"
    and frame: "u = Inr () \<Longrightarrow> \<exists>db2. beside db1 db2 \<and> frame (patch_task i f (end_claim CS_released now claim db2)) db'"
    and refused: "\<And>err. u = Inl err \<Longrightarrow> db' = db1"
    and subs: "sub_inv db \<Longrightarrow> others_stay (Some i) db db' \<Longrightarrow> get_task db' i = Some (f t) \<Longrightarrow> u = Inr () \<Longrightarrow>
      db_submissions db1 = db_submissions db \<Longrightarrow> db_next db \<le> db_next db1 \<Longrightarrow> sub_inv db'"
  shows "step_ok now db db'"
proof (cases u)
  case (Inl err)
  with propagate_writes [OF run inv(2) get] refused show ?thesis by (simp add: step_ok_frame [OF _ inv])
next
  case (Inr u')
  with propagate_writes [OF run inv(2) get] obtain plan where
    plan: "carries db i (tk_status t) (tk_status (f t)) actor now plan"
      "db_tasks db1 = map (carry plan actor now) (db_tasks db)" "tasks_only db db1"
    by auto
  from Inr frame obtain db2 where "beside db1 db2" "frame (patch_task i f (end_claim CS_released now claim db2)) db'" by auto
  then show ?thesis
    using subs Inr tasks_onlyD(3,5) [OF plan(3)]
    by (intro step_ok_settle [where state = CS_released and f = f, OF inv get plan claim _ f]) simp_all
qed

lemma frame_admit_cancellation: "admit_cancellation args t now db = Some (Inl err, db') \<Longrightarrow> frame db db'"
  unfolding admit_cancellation_def Let_def
  by (auto dest!: frame_refuse frame_repair_and_refuse split: option.splits if_splits)

lemma admit_cancellation_accepts:
  assumes "admit_cancellation args t now db = Some (Inr (submission, claim, usage), db')"
  shows "db' = db" "case tk_currentClaim t of None \<Rightarrow> claim = None
    | Some compact \<Rightarrow> \<exists>c. claim = Some c \<and> get_claim db (cc_claimId compact) = Some c"
    "if tk_status t = TS_in_review then \<exists>s. submission = Some s \<and> pendingSubmissionsForTask db t = [s] else submission = None"
  using assms unfolding admit_cancellation_def Let_def
  by (auto simp: activeClaimMatchesTask_def Option.is_none_def split: if_split_asm option.splits list.splits)

lemma cancel_admitted_step:
  assumes inv: "store_inv db" "graph_inv db" and t: "t \<in> set (db_tasks db)"
    and claim: "case tk_currentClaim t of None \<Rightarrow> claim = None
      | Some compact \<Rightarrow> \<exists>c. claim = Some c \<and> get_claim db (cc_claimId compact) = Some c"
    and submission: "if tk_status t = TS_in_review then \<exists>s. submission = Some s \<and> pendingSubmissionsForTask db t = [s]
      else submission = None"
    and run: "cancel_admitted fresh args actor t submission claim usage now db = Some (r, db')"
  shows "step_ok now db db'"
proof (cases "\<exists>actual db1. ensureCounterProjection t now (ha_requestId args) db = Some (Inr actual, db1)")
  case False
  with run obtain err where "ensureCounterProjection t now (ha_requestId args) db = Some (Inl err, db')"
    by (auto simp: cancel_admitted_def split: option.splits sum.splits)
  from step_ok_frame [OF frame_counters [OF this] inv] show ?thesis .
next
  case True
  then obtain actual db1 where checked: "ensureCounterProjection t now (ha_requestId args) db = Some (Inr actual, db1)" by auto
  note run = run [unfolded cancel_admitted_def checked checked_counters(4) [OF checked] option.case prod.case sum.case]
  let ?f = "cancelled_task t actor now"
  from run obtain u db2 where
    moved: "propagateBlockerTransition fresh t (tk_status t) TS_cancelled (direct_blocker_count db t) actor
      (ha_idempotencyKey args) (ha_requestId args) now db = Some (u, db2)"
    by (auto split: option.splits)
  note run = run [unfolded moved option.case prod.case]
  let ?db2 = "patch_usage usage (us_activeTasks usage - 1) now
    ((case submission of None \<Rightarrow> db2 | Some s \<Rightarrow> patch_submission (ts_id s)
        (\<lambda>r. pendingSubmissionBase s (SS_cancelled actor now (hn_reason args))) db2)
      \<lparr>db_next := Suc (db_next db2), db_cancellations := db_cancellations db2 @
        [\<lparr>tx_organizationId = tk_organizationId t, tx_workspaceId = tk_workspaceId t, tx_taskId = tk_id t,
          tx_reason = hn_reason args, tx_actor = actor, tx_cancelledAt = now\<rparr>]\<rparr>)"
  have writes: "cancel_writes args actor t submission claim usage now db2 =
      patch_task (tk_id t) ?f (end_claim CS_released now claim ?db2)"
    by (simp add: cancel_writes_def Let_def patch_usage_def patch_task_def patch_claim_def patch_submission_def
        end_claim_def ended_def [abs_def] split: option.split)
  have "beside db2 ?db2"
    by (simp add: beside_def frame_def patch_usage_def patch_submission_def split: option.split)
  have f: "closes ?f t" "keeps_tenant ?f" "task_counters (?f t) = task_counters t" "flags_ok (?f t)"
    by (simp_all add: cancelled_task_def closes_def keeps_tenant_def task_counters_def flags_ok_def task_blocking_count_def)
  have status: "tk_status (?f t) = TS_cancelled" by (simp add: cancelled_task_def)
  show ?thesis
  proof (rule carried_writes [where f = ?f and claim = claim, OF inv claims_ok_task [OF store_invD(1) [OF inv(1)] t] _ claim f])
    show "propagateBlockerTransition fresh t (tk_status t) (tk_status (?f t)) (direct_blocker_count db t) actor
      (ha_idempotencyKey args) (ha_requestId args) now db = Some (u, db2)" using moved by (simp add: status)
    show "db' = db2" if "u = Inl err" for err using run that by simp
    show "sub_inv db'" if "sub_inv db" "others_stay (Some (tk_id t)) db db'" "get_task db' (tk_id t) = Some (?f t)" "u = Inr ()"
      "db_submissions db2 = db_submissions db" "db_next db \<le> db_next db2"
    proof -
      from run that(4) have last: "frame (patch_task (tk_id t) ?f (end_claim CS_released now claim ?db2)) db'"
        by (auto simp: writes split: option.splits dest!: frame_event)
      have left: "\<not> in_review db' (tk_id t)" by (simp add: in_review_get [OF that(3)] status)
      have grown: "db_next db \<le> db_next db'"
        using last that(6) by (simp add: frame_def patch_usage_def)
      show ?thesis
      proof (cases "tk_status t = TS_in_review")
        case True
        with submission obtain s where s: "submission = Some s" "pendingSubmissionsForTask db t = [s]" by auto
        show ?thesis
          by (rule sub_inv_leave [OF that(1,2) _ grown pending_row [OF s(2)], of "SS_cancelled actor now (hn_reason args)"])
            (use last that(5) left in \<open>simp_all add: s(1) frame_def patch_usage_def patch_submission_def end_claim_def
              split: option.splits\<close>)
      next
        case False
        with submission left in_review_get [OF claims_ok_task [OF store_invD(1) [OF inv(1)] t]] show ?thesis
          by (intro sub_inv_stay [OF that(1,2) _ _ grown])
            (use last that(5) in \<open>simp_all add: frame_def patch_usage_def end_claim_def split: option.splits\<close>)
      qed
    qed
    show "\<exists>db3. beside db2 db3 \<and> frame (patch_task (tk_id t) ?f (end_claim CS_released now claim db3)) db'" if "u = Inr ()"
      using run that \<open>beside db2 ?db2\<close> by (auto simp: writes split: option.splits dest!: frame_event)
  qed
qed

lemma cancelTaskForHuman_step:
  assumes inv: "store_inv db" "graph_inv db"
    and run: "cancelTaskForHuman codec identified fresh args now db = Some (r, db')"
  shows "step_ok now db db'"
proof -
  have idle: "frame db db' \<Longrightarrow> step_ok now db db'" by (rule step_ok_frame [OF _ inv])
  note run = run [unfolded cancelTaskForHuman_def]
  show ?thesis
  proof (cases "assertRequestMetadata (ha_idempotencyKey args) (ha_requestDigest args) (ha_requestId args) now")
    case (Some err)
    with run idle show ?thesis by simp
  next
    case None
    note run = run [unfolded None option.case]
    show ?thesis
    proof (cases "js_trim (hn_reason args) = [] \<or> length (hn_reason args) > 16 * 1024")
      case True
      with run idle show ?thesis by (simp add: refuse_def)
    next
      case False
      show ?thesis
      proof (rule step_ok_planner [OF inv run [unfolded if_not_P [OF False]]], goal_cases)
        case (1 a)
        show ?case
        proof (cases "\<exists>t. taskByKey db (ws_id (ah_workspace a)) (ha_key args) = Some (Some t)")
          case False
          with 1 idle show ?thesis by (auto simp: refuse_def split: option.splits)
        next
          case True
          then obtain t where t: "taskByKey db (ws_id (ah_workspace a)) (ha_key args) = Some (Some t)" by auto
          from taskByKey_mem [OF t] have mem: "t \<in> set (db_tasks db)" by simp
          note run = 1 [unfolded t option.case]
          show ?thesis
          proof (cases "\<exists>s c usage db1. admit_cancellation args t now db = Some (Inr (s, c, usage), db1)")
            case False
            with run obtain err where "admit_cancellation args t now db = Some (Inl err, db')"
              by (auto split: option.splits sum.splits)
            from idle [OF frame_admit_cancellation [OF this]] show ?thesis .
          next
            case True
            then obtain s c usage db1 where admit: "admit_cancellation args t now db = Some (Inr (s, c, usage), db1)" by auto
            note acc = admit_cancellation_accepts [OF admit]
            from run [unfolded admit acc(1) option.case prod.case sum.case] obtain u db2 where
              "cancel_admitted fresh args (humanActor a) t s c usage now db = Some (u, db2)" "frame db2 db'"
              by (auto split: option.splits sum.splits dest!: frame_complete_planner)
            with cancel_admitted_step [OF inv mem acc(2,3)] show ?thesis by (blast intro: step_ok_between frame_refl)
          qed
        qed
      qed
    qed
  qed
qed

text \<open>A task that is done or cancelled is held by no claim.\<close>

lemma ended_without_claim:
  assumes "store_inv db" "t \<in> set (db_tasks db)" "tk_status t \<noteq> TS_in_progress"
  shows "case tk_currentClaim t of None \<Rightarrow> None = None
    | Some compact \<Rightarrow> \<exists>c. None = Some c \<and> get_claim db (cc_claimId compact) = Some c"
  using claimed_in_progress [OF assms(1,2)] assms(3) by auto

lemma reopen_admitted_step:
  assumes inv: "store_inv db" "graph_inv db" and t: "t \<in> set (db_tasks db)" and ended: "tk_status t \<in> {TS_done, TS_cancelled}"
    and run: "reopen_admitted fresh args actor t usage now db = Some (r, db')"
  shows "step_ok now db db'"
proof (cases "\<exists>actual db1. ensureCounterProjection t now (ha_requestId args) db = Some (Inr actual, db1)")
  case False
  with run obtain err where "ensureCounterProjection t now (ha_requestId args) db = Some (Inl err, db')"
    by (auto simp: reopen_admitted_def split: option.splits sum.splits)
  from step_ok_frame [OF frame_counters [OF this] inv] show ?thesis .
next
  case True
  then obtain actual db1 where checked: "ensureCounterProjection t now (ha_requestId args) db = Some (Inr actual, db1)" by auto
  note run = run [unfolded reopen_admitted_def checked checked_counters(4) [OF checked] option.case prod.case sum.case]
  let ?f = "reopened_task t actual actor now"
  from run obtain u db2 where
    moved: "propagateBlockerTransition fresh t (tk_status t) TS_open (direct_blocker_count db t) actor
      (ha_idempotencyKey args) (ha_requestId args) now db = Some (u, db2)"
    by (auto split: option.splits)
  note run = run [unfolded moved option.case prod.case]
  let ?db2 = "patch_usage usage (us_activeTasks usage + 1) now db2"
  have writes: "patch_usage usage (us_activeTasks usage + 1) now (patch_task (tk_id t) ?f db2) =
      patch_task (tk_id t) ?f (end_claim CS_released now None ?db2)"
    by (simp add: patch_usage_def patch_task_def end_claim_def)
  have f: "closes ?f t" "keeps_tenant ?f" "task_counters (?f t) = task_counters t" "flags_ok (?f t)"
    by (auto simp: reopened_task_def closes_def keeps_tenant_def task_counters_def flags_ok_def task_blocking_count_def Let_def
        derivedReady_def unblocked_def checked_counters(2,3) [OF checked])
  have settled: "tk_status t \<noteq> TS_in_progress" "tk_status t \<noteq> TS_in_review" using ended by auto
  have status: "tk_status (?f t) = TS_open" by (simp add: reopened_task_def Let_def)
  show ?thesis
  proof (rule carried_writes [where f = ?f and claim = None, OF inv claims_ok_task [OF store_invD(1) [OF inv(1)] t] _
        ended_without_claim [OF inv(1) t settled(1)] f])
    show "propagateBlockerTransition fresh t (tk_status t) (tk_status (?f t)) (direct_blocker_count db t) actor
      (ha_idempotencyKey args) (ha_requestId args) now db = Some (u, db2)" using moved by (simp add: status)
    show "db' = db2" if "u = Inl err" for err using run that by simp
    show "sub_inv db'" if "sub_inv db" "others_stay (Some (tk_id t)) db db'" "get_task db' (tk_id t) = Some (?f t)" "u = Inr ()"
      "db_submissions db2 = db_submissions db" "db_next db \<le> db_next db2"
    proof -
      from run that(4) have last: "frame (patch_task (tk_id t) ?f (end_claim CS_released now None ?db2)) db'"
        by (auto simp: writes split: option.splits dest!: frame_event)
      show ?thesis
        by (rule sub_inv_stay [OF that(1,2)])
          (use last that(5,6) settled(2) in \<open>simp_all add: frame_def patch_usage_def end_claim_def in_review_get [OF that(3)] status
            in_review_get [OF claims_ok_task [OF store_invD(1) [OF inv(1)] t]]\<close>)
    qed
    show "\<exists>db3. beside db2 db3 \<and> frame (patch_task (tk_id t) ?f (end_claim CS_released now None db3)) db'" if "u = Inr ()"
      using run that by (intro exI [where x = ?db2]) (auto simp: writes besides split: option.splits dest!: frame_event)
  qed
qed

lemma reopenTaskForHuman_step:
  assumes inv: "store_inv db" "graph_inv db"
    and run: "reopenTaskForHuman codec identified fresh args now db = Some (r, db')"
  shows "step_ok now db db'"
proof -
  have idle: "frame db db' \<Longrightarrow> step_ok now db db'" by (rule step_ok_frame [OF _ inv])
  note run = run [unfolded reopenTaskForHuman_def]
  show ?thesis
  proof (cases "assertRequestMetadata (ha_idempotencyKey args) (ha_requestDigest args) (ha_requestId args) now")
    case (Some err)
    with run idle show ?thesis by simp
  next
    case None
    note run = run [unfolded None option.case]
    show ?thesis
    proof (rule step_ok_planner [OF inv run], goal_cases)
      case (1 a)
      show ?case
      proof (cases "\<exists>t usage. taskByKey db (ws_id (ah_workspace a)) (ha_key args) = Some (Some t) \<and>
          (tk_status t = TS_done \<or> tk_status t = TS_cancelled) \<and>
          activeWorkspaceUsage db (tk_workspaceId t) = Some (Some usage) \<and> tk_revision t = ha_revision args \<and>
          us_activeTasks usage < WORKSPACE_ACTIVE_TASK_LIMIT")
        case False
        with 1 idle show ?thesis by (auto simp: refuse_def split: option.splits if_split_asm)
      next
        case True
        then obtain t usage where t: "taskByKey db (ws_id (ah_workspace a)) (ha_key args) = Some (Some t)"
          and rest: "tk_status t = TS_done \<or> tk_status t = TS_cancelled"
            "activeWorkspaceUsage db (tk_workspaceId t) = Some (Some usage)" "tk_revision t = ha_revision args"
            "us_activeTasks usage < WORKSPACE_ACTIVE_TASK_LIMIT" by auto
        from taskByKey_mem [OF t] have mem: "t \<in> set (db_tasks db)" by simp
        from 1 t rest obtain u db2 where
          reopened: "reopen_admitted fresh args (humanActor a) t usage now db = Some (u, db2)" "frame db2 db'"
          by (auto split: option.splits sum.splits dest!: frame_complete_planner)
        from rest(1) have "tk_status t \<in> {TS_done, TS_cancelled}" by auto
        from step_ok_between [OF frame_refl reopen_admitted_step [OF inv mem this reopened(1)] reopened(2)] show ?thesis .
      qed
    qed
  qed
qed

end
