(* ===== verification/WorkRuns.thy ===== *)
theory WorkRuns
  imports WorkSettle
begin

text \<open>
  Runs of every modelled mutation of the work graph: the claim commands and jobs, the dependency
  mutations, submission, review, cancellation and reopening, in any order and at any times. The three
  invariants hold after any of them, and what one of them leaves of a lease is a step of the lease.
\<close>

record WorkCodec =
  wk_task :: TaskViewCodec
  wk_dependency :: "DependencyData ReceiptCodec"
  wk_submission :: "SubmissionMutationData ReceiptCodec"
  wk_detail :: "TaskDetailData ReceiptCodec"
  wk_rules :: EvidenceRules
  wk_fresh :: "nat \<Rightarrow> string"

datatype WorkCommand =
    WC_claim Command
  | WC_dependency DependencyArgs
  | WC_submit SubmitArgs
  | WC_review ReviewArgs
  | WC_cancel "HumanIdentity option" CancelArgs
  | WC_reopen "HumanIdentity option" HumanArgs

fun work_exec :: "WorkCodec \<Rightarrow> Db \<Rightarrow> int \<times> WorkCommand \<Rightarrow> Db option" where
  "work_exec codec db (now, WC_claim command) = exec (wk_task codec) db (now, command)"
| "work_exec codec db (now, WC_dependency args) =
     map_option snd (mutateTaskDependency (wk_dependency codec) (wk_fresh codec) args now db)"
| "work_exec codec db (now, WC_submit args) =
     map_option snd (submitTask (wk_submission codec) (wk_rules codec) (wk_fresh codec) args now db)"
| "work_exec codec db (now, WC_review args) =
     map_option snd (reviewTaskForAgent (wk_submission codec) (wk_fresh codec) args now db)"
| "work_exec codec db (now, WC_cancel identified args) =
     map_option snd (cancelTaskForHuman (wk_detail codec) identified (wk_fresh codec) args now db)"
| "work_exec codec db (now, WC_reopen identified args) =
     map_option snd (reopenTaskForHuman (wk_detail codec) identified (wk_fresh codec) args now db)"

abbreviation run_work :: "WorkCodec \<Rightarrow> Db \<Rightarrow> (int \<times> WorkCommand) list \<Rightarrow> Db" where
  "run_work codec \<equiv> run_steps (work_exec codec)"

definition no_work :: "Db \<Rightarrow> Db" where
  "no_work db = db \<lparr>db_tasks := [], db_claims := [], db_dependencies := [], db_submissions := []\<rparr>"

lemma work_exec_step:
  assumes "store_inv db" "graph_inv db" "work_exec codec db (now, command) = Some db'"
  shows "step_ok now db db'"
  using assms(3)
proof (cases command)
  case (WC_claim c)
  with assms show ?thesis by (auto intro: step_ok_effect exec_effect)
qed (auto intro: mutateTaskDependency_step submitTask_step reviewTaskForAgent_step cancelTaskForHuman_step
  reopenTaskForHuman_step assms(1,2))

lemma work_step:
  assumes "store_inv db" "graph_inv db"
  shows "step_ok (fst c) db (step_or_stay (work_exec codec) db c)"
  using assms work_exec_step [OF assms, of codec "fst c" "snd c"] step_ok_frame [OF frame_refl assms]
  by (simp add: step_or_stay_def split: option.split)

lemma step_okD: "step_ok now db db' \<Longrightarrow> store_inv db' \<and> graph_inv db' \<and> (sub_inv db \<longrightarrow> sub_inv db')"
  by (simp add: step_ok_def)

lemma run_work_inv:
  assumes "store_inv db" "graph_inv db"
  shows "store_inv (run_work codec db commands)" "graph_inv (run_work codec db commands)"
    "sub_inv db \<Longrightarrow> sub_inv (run_work codec db commands)"
proof -
  have "store_inv (run_work codec db commands) \<and> graph_inv (run_work codec db commands) \<and>
    (sub_inv db \<longrightarrow> sub_inv (run_work codec db commands))"
    using assms
  proof (induction commands arbitrary: db)
    case (Cons c commands)
    from step_okD [OF work_step [OF Cons.prems]] Cons.IH show ?case by simp
  qed simp
  then show "store_inv (run_work codec db commands)" "graph_inv (run_work codec db commands)"
    "sub_inv db \<Longrightarrow> sub_inv (run_work codec db commands)" by blast+
qed

lemma work_lease:
  assumes "store_inv db" "graph_inv db" "get_task db i = Some t"
  shows "\<exists>t'. get_task (step_or_stay (work_exec codec) db c) i = Some t' \<and> lease_step (fst c) (lease_of t) (lease_of t')"
  using work_step [OF assms(1,2)] assms(3) by (simp add: step_ok_def)


lemma no_work_inv: "store_inv (no_work db)" "graph_inv (no_work db)" "sub_inv (no_work db)"
  by (simp_all add: no_work_def sub_inv_def pending_of_def in_review_def store_inv_def claims_ok_def tenants_ok_def graph_inv_def rows_ok_def dependency_pairs_def
      table_simps wf_acyclic)

lemmas built_inv = run_work_inv [OF no_work_inv(1,2)]

end
