(* ===== verification/DispatchRetry.thy ===== *)
theory DispatchRetry
  imports WorkRuns
begin

text \<open>
  The decision of \<open>retryRun\<close> in \<open>apps/web/convex/dispatch.ts\<close>, whether a settled dispatch may be queued
  again: the latest submission of the task, the fence of the claim that the dispatch was bound to, and
  the other dispatches of the task, by \<open>rejectedSubmissionMatchesDispatch\<close> and \<open>dispatchRetryAllowed\<close>.
\<close>

definition lifecycle_name :: "SubmissionLifecycle \<Rightarrow> string" where
  "lifecycle_name state = (case state of SL_pending \<Rightarrow> ''pending'' | SL_accepted \<Rightarrow> ''accepted''
     | SL_rejected \<Rightarrow> ''rejected'' | SL_cancelled \<Rightarrow> ''cancelled'')"

text \<open>The first row of the index in descending order: the last one submitted, later rows last.\<close>

definition latestSubmission :: "Db \<Rightarrow> nat \<Rightarrow> nat \<Rightarrow> TaskSubmission option" where
  "latestSubmission db workspaceId taskId =
     (case List.rev (sort_key ts_submittedAt (filter (\<lambda>s. ts_workspaceId s = workspaceId \<and> ts_taskId s = taskId)
             (db_submissions db))) of
        [] \<Rightarrow> None
      | submission # _ \<Rightarrow> Some submission)"

definition sourceSubmissionRejected :: "Db \<Rightarrow> DispatchRow \<Rightarrow> bool" where
  "sourceSubmissionRejected db source =
     (let latest = latestSubmission db (dr_workspaceId source) (dr_taskId source) in
      rejectedSubmissionMatchesDispatch (dr_publicId source) (Option.bind latest ts_dispatchPublicId)
        (map_option (\<lambda>s. lifecycle_name (submission_lifecycle (ts_status s))) latest))"

definition anotherBlockingDispatchExists :: "Db \<Rightarrow> Task \<Rightarrow> nat \<Rightarrow> bool option" where
  "anotherBlockingDispatchExists db task excludedDispatchId =
     (let rows = concat (map (\<lambda>phase. take 2 (filter (\<lambda>d. dr_workspaceId d = tk_workspaceId task \<and>
            dr_taskId d = tk_id task \<and> dr_phase d = phase) (db_dispatches db))) FAIL_CLOSED_TASK_DISPATCH_PHASES) in
      if list_ex (\<lambda>d. dr_organizationId d \<noteq> tk_organizationId task \<or> dr_workspaceId d \<noteq> tk_workspaceId task \<or>
           dr_taskId d \<noteq> tk_id task \<or> \<not> taskDispatchBlocksTaskRelease (dr_phase d)) rows
      then None
      else Some (list_ex (\<lambda>d. dr_id d \<noteq> excludedDispatchId) rows))"

text \<open>A queued dispatch is fenced by the revision it was queued at, a bound one by its claim.\<close>

definition sourceFenceMatches :: "Db \<Rightarrow> DispatchRow \<Rightarrow> Task \<Rightarrow> bool option" where
  "sourceFenceMatches db source task =
     (case dr_hold source of
        None \<Rightarrow> Some (dr_queuedClaimFence source = tk_claimFence task)
      | Some hold \<Rightarrow>
          (case get_claim db (dh_taskClaimId hold) of
             None \<Rightarrow> None
           | Some claim \<Rightarrow>
               (if cl_organizationId claim \<noteq> dr_organizationId source \<or> cl_workspaceId claim \<noteq> dr_workspaceId source \<or>
                   cl_taskId claim \<noteq> dr_taskId source \<or> cl_publicId claim \<noteq> dh_taskClaimPublicId hold \<or>
                   cl_fence claim \<noteq> dh_claimFence hold
                then None
                else Some ((cl_state claim = CS_released \<or>
                    dr_phase source = RP_submitted \<and> cl_state claim = CS_submitted) \<and>
                  cl_fence claim = tk_claimFence task \<and> dh_claimFence hold = tk_claimFence task))))"

text \<open>
  The decision on the documents read: \<open>None\<close> for a projection mismatch. The column that links a retry
  to its source is not part of the store here; whether it was retried is an argument.
\<close>

definition retry_decision :: "Db \<Rightarrow> DispatchRow \<Rightarrow> Task \<Rightarrow> int \<Rightarrow> bool \<Rightarrow> bool option" where
  "retry_decision db source task expectedTaskRevision sourceAlreadyRetried =
     (case (anotherBlockingDispatchExists db task (dr_id source), sourceFenceMatches db source task) of
        (Some anotherBlocking, Some fenceMatches) \<Rightarrow>
          Some (dispatchRetryAllowed \<lparr>hr_sourcePhase = dr_phase source,
            hr_sourceSubmissionRejected = sourceSubmissionRejected db source,
            hr_taskRevision = tk_revision task, hr_expectedTaskRevision = expectedTaskRevision,
            hr_taskStatus = tk_status task, hr_taskHasCurrentClaim = tk_currentClaim task \<noteq> None,
            hr_sourceFenceMatches = fenceMatches, hr_anotherDispatchBlocksTask = anotherBlocking,
            hr_sourceAlreadyRetried = sourceAlreadyRetried\<rparr>)
      | _ \<Rightarrow> None)"

lemma latest_submission_row:
  assumes "latestSubmission db w i = Some s"
  shows "s \<in> set (db_submissions db)"
proof -
  let ?rows = "List.rev (sort_key ts_submittedAt (filter (\<lambda>s. ts_workspaceId s = w \<and> ts_taskId s = i) (db_submissions db)))"
  obtain rest where "?rows = s # rest"
    using assms by (cases ?rows) (simp_all add: latestSubmission_def del: rev_eq_Cons_iff)
  then have "s \<in> set ?rows" by (simp only: list.set_intros(1))
  then show ?thesis by simp
qed

text \<open>A settled submission names no dispatch, so a rejection is never traced back to one.\<close>

lemma never_rejected:
  assumes "sub_inv db"
  shows "\<not> sourceSubmissionRejected db source"
proof
  assume "sourceSubmissionRejected db source"
  then obtain s where s: "latestSubmission db (dr_workspaceId source) (dr_taskId source) = Some s"
    "lifecycle_name (submission_lifecycle (ts_status s)) = ''rejected''" "ts_dispatchPublicId s = Some (dr_publicId source)"
    by (auto simp: sourceSubmissionRejected_def rejectedSubmissionMatchesDispatch_def Let_def)
  from s(2) have "ts_status s \<noteq> SS_pending" by (auto simp: lifecycle_name_def)
  from sub_invD(4) [OF assms latest_submission_row [OF s(1)] this] s(3) show False by simp
qed

lemma retry_refused:
  assumes "sub_inv db" "dr_phase source = RP_submitted"
  shows "retry_decision db source task expected retried \<noteq> Some True"
  using never_rejected [OF assms(1), of source] assms(2)
  by (auto simp: retry_decision_def dispatchRetryAllowed_def split: option.splits)

end
