(* ===== verification/WorkContracts.thy ===== *)
theory WorkContracts
  imports DispatchRetry ClaimContracts
begin

text \<open>
  The properties of the work graph over runs of its mutations, from a workspace without work, and the
  sample stores of their witnesses: two tasks with a dependency between them, the blocker claimed and
  submitted, and a store in which it is in review.
\<close>

subsection \<open>A sample history\<close>

definition work_scopes :: "string list" where
  "work_scopes = [''tasks:claim'', ''tasks:create'', ''tasks:submit'', ''tasks:review'', ''dependencies:write'']"

text \<open>The sample workspace with a second agent, who reviews, and the usage row of two tasks.\<close>

definition work_db :: Db where
  "work_db = sample_db \<lparr>
     db_agents := db_agents sample_db @
       [\<lparr>an_id = 13, an_organizationId = 1, an_publicId = ''agt_b'', an_name = ''b'', an_status = ''active''\<rparr>],
     db_grants := [\<lparr>gr_id = 4, gr_organizationId = 1, gr_workspaceId = 2, gr_agentId = 3, gr_status = ''active'',
         gr_scopes = work_scopes\<rparr>,
       \<lparr>gr_id = 14, gr_organizationId = 1, gr_workspaceId = 2, gr_agentId = 13, gr_status = ''active'',
         gr_scopes = work_scopes\<rparr>],
     db_credentials := [\<lparr>cr_id = 8, cr_locator = ''crd'', cr_organizationId = 1, cr_workspaceId = 2, cr_agentId = 3,
         cr_grantId = 4, cr_scopes = work_scopes, cr_status = ''active'', cr_expiresAt = 9000000, cr_lastUsedAt = 0\<rparr>,
       \<lparr>cr_id = 18, cr_locator = ''crd_b'', cr_organizationId = 1, cr_workspaceId = 2, cr_agentId = 13,
         cr_grantId = 14, cr_scopes = work_scopes, cr_status = ''active'', cr_expiresAt = 9000000, cr_lastUsedAt = 0\<rparr>],
     db_sessions := db_sessions sample_db @ [\<lparr>se_id = 19, se_publicId = ''ses_b'', se_organizationId = 1, se_workspaceId = 2,
       se_agentId = 13, se_credentialId = 18, se_status = ''active'', se_lastSeenAt = 0, se_idleExpiresAt = 9000000\<rparr>],
     db_usage := [\<lparr>us_id = 6, us_organizationId = 1, us_workspaceId = 2, us_activeTasks = 2, us_totalTasks = 2,
       us_updatedAt = 0\<rparr>]\<rparr>"

definition work_codec :: WorkCodec where
  "work_codec = \<lparr>wk_task = sample_codec, wk_dependency = \<lparr>rx_stringify = (\<lambda>d. ''dependency''), rx_parse = (\<lambda>s. None)\<rparr>,
     wk_submission = \<lparr>rx_stringify = (\<lambda>d. ''submission''), rx_parse = (\<lambda>s. None)\<rparr>,
     wk_detail = \<lparr>rx_stringify = (\<lambda>d. ''detail''), rx_parse = (\<lambda>s. None)\<rparr>,
     wk_rules = \<lparr>er_item = (\<lambda>e. True), er_binding = (\<lambda>b. True), er_contentBytes = (\<lambda>s es. 100)\<rparr>,
     wk_fresh = (\<lambda>n. ''evt_'' @ decimal n)\<rparr>"

definition work_key :: "string \<Rightarrow> string" where
  "work_key suffix = ''0000000a-ae60-7000-8000-0000000000'' @ suffix"

definition work_create :: "string \<Rightarrow> string \<Rightarrow> CreateArgs" where
  "work_create suffix taskId = sample_create \<lparr>ca_idempotencyKey := work_key suffix, ct_randomTaskId := taskId,
     ct_randomSuffix := ''00000'' @ suffix\<rparr>"

definition work_claim :: ClaimArgs where
  "work_claim = sample_args \<lparr>ca_idempotencyKey := work_key ''03'', ca_key := ''HR-0000002''\<rparr>"

text \<open>Task 1 waits for task 2.\<close>

definition work_dependency :: DependencyArgs where
  "work_dependency = \<lparr>ca_credentialId = 8, ca_sessionPublicId = ''ses'', ca_idempotencyKey = work_key ''04'',
     ca_requestDigest = replicate 43 CHR ''A'', ca_requestId = sample_request_id, ca_randomEventId = ''evt_4'',
     wa_key = ''HR-0000001'', wa_blockerKey = ''HR-0000002'', wa_revision = 1, wa_fence = None, wa_remove = False\<rparr>"

definition work_submit :: SubmitArgs where
  "work_submit = \<lparr>ca_credentialId = 8, ca_sessionPublicId = ''ses'', ca_idempotencyKey = work_key ''05'',
     ca_requestDigest = replicate 43 CHR ''A'', ca_requestId = sample_request_id, ca_randomEventId = ''evt_5'',
     ub_key = ''HR-0000002'', ub_fence = 1, ub_expectedReviewRevision = None, ub_dispatch = None,
     ub_summary = ''done'', ub_evidence = [SE_note ''n''], ub_randomSubmissionId = ''sub_1''\<rparr>"

definition work_commands :: "(int \<times> WorkCommand) list" where
  "work_commands = [(700000, WC_claim (CM_create (work_create ''01'' ''tsk_1''))),
     (700001, WC_claim (CM_create (work_create ''02'' ''tsk_2''))),
     (700002, WC_dependency work_dependency), (700003, WC_claim (CM_claim work_claim)),
     (700004, WC_submit work_submit)]"

definition submitted_db :: Db where
  "submitted_db = run_work work_codec (no_work work_db) work_commands"

subsection \<open>A store with a task in review\<close>

text \<open>Task 5, submitted from the dispatch \<open>run_1\<close>, is in review; task 6 waits for it.\<close>

definition reviewed_task :: Task where
  "reviewed_task = sample_task \<lparr>tk_status := TS_in_review, tk_currentClaim := None, tk_isReady := False,
     tk_isBlocked := Some False\<rparr>"

definition waiting_task :: Task where
  "waiting_task = sample_task \<lparr>tk_id := 6, tk_publicId := ''tsk_6'', tk_key := ''HR-0000006'', tk_status := TS_open,
     tk_currentClaim := None, tk_claimFence := 0, tk_isReady := False, tk_isBlocked := Some True,
     tk_unresolvedBlockerCount := 1, tk_cancelledBlockerCount := 0\<rparr>"

definition review_db :: Db where
  "review_db = work_db \<lparr>db_tasks := [reviewed_task, waiting_task], db_claims := [],
     db_dependencies := [\<lparr>dp_organizationId = 1, dp_workspaceId = 2, dp_blockerTaskId = 5, dp_blockedTaskId = 6,
       dp_kind = ''blocks'', dp_id = 10, dp_createdBy = EA_human ''usr'', dp_createdAt = 0\<rparr>],
     db_submissions := [\<lparr>ts_id = 11, ts_organizationId = 1, ts_workspaceId = 2, ts_taskId = 5, ts_publicId = ''sub_1'',
       ts_dispatchPublicId = Some ''run_1'', ts_submittedBy = (''agt'', ''crd'', ''ses''),
       ts_reviewRevision = tk_reviewRevision reviewed_task, ts_summary = ''done'', ts_evidence = [], ts_submittedAt = 600000,
       ts_status = SS_pending\<rparr>]\<rparr>"

definition review_of :: "ReviewAction \<Rightarrow> ReviewRequest" where
  "review_of action = \<lparr>rq_organizationId = Some 1, rq_workspaceId = 2, rq_key = tk_key reviewed_task,
     rq_submissionPublicId = ''sub_1'', rq_reviewRevision = tk_reviewRevision reviewed_task, rq_action = action,
     rq_reason = Some ''not yet'', rq_actor = EA_human ''usr'', rq_reviewerAgentPublicId = None,
     rq_idempotencyKey = ''key'', rq_requestId = sample_request_id\<rparr>"

lemma review_db_store: "store_inv review_db"
  by (simp add: store_inv_def claims_ok_def tenants_ok_def review_db_def work_db_def sample_db_def task_claim_ok_def
      table_simps sample_task_def reviewed_task_def waiting_task_def)

lemma review_db_graph: "graph_inv review_db"
  by (simp add: graph_inv_def rows_ok_def dependency_pairs_def review_db_def work_db_def sample_db_def table_simps
      sample_task_def reviewed_task_def waiting_task_def task_counters_def recount_def blocker_statuses_def rows_into_def
      flags_ok_def task_blocking_count_def dependencyMatchesTasks_def dependencyTupleMatches_def blocker_status_def
      blockerContribution_def acyclic_insert wf_acyclic)

lemma review_db_submissions: "sub_inv review_db"
  by (simp add: sub_inv_def review_db_def work_db_def sample_db_def table_simps sample_task_def reviewed_task_def
      waiting_task_def in_review_def pending_of_def submission_owned_def submissionHasTaskOwnership_def task_scope_def
      taskScopedRecordMatches_def)

lemma answered:
  assumes "map_option (\<lambda>(r, db). case r of Inl err \<Rightarrow> False | Inr data \<Rightarrow> True) x = Some True"
  shows "\<exists>data db. x = Some (Inr data, db)"
proof -
  from assms obtain r db where x: "x = Some (r, db)" "case r of Inl err \<Rightarrow> False | Inr data \<Rightarrow> True" by auto
  from x(2) obtain data where "r = Inr data" by (cases r) simp_all
  with x(1) show ?thesis by blast
qed

lemma review_runs:
  "map_option (\<lambda>(r, db). case r of Inl err \<Rightarrow> False | Inr data \<Rightarrow> True)
     (reviewSubmissionTransition (\<lambda>n. ''evt'') (review_of RA_accept) 700000 review_db) = Some True"
  "map_option (\<lambda>(r, db). case r of Inl err \<Rightarrow> False | Inr data \<Rightarrow> True)
     (reviewSubmissionTransition (\<lambda>n. ''evt'') (review_of RA_reject) 700000 review_db) = Some True"
  by code_simp+

subsection \<open>Claims over every mutation\<close>

text \<open>
  C2. One owner per task, over every history. After any sequence of creations, claims, renewals,
  releases, expiries, wakes, sweeps, dependency changes, submissions, reviews, cancellations and
  reopenings, in any order and at any times, from a workspace without work: a task in progress
  carries a claim, the claim a task carries is an active row of the claim table with the same
  tenant, owner, fence, generation and deadline, its fence is the task's fence; and a task has at
  most one active claim and never two claims with the same fence.
\<close>

theorem work_claims_consistent:
  assumes "db' = run_work codec (no_work db) commands"
  shows "(\<forall>t \<in> set (db_tasks db'). case tk_currentClaim t of None \<Rightarrow> tk_status t \<noteq> TS_in_progress
      | Some compact \<Rightarrow> cc_fence compact = tk_claimFence t \<and>
          (\<exists>c \<in> set (db_claims db'). activeTaskClaimTupleMatches t compact c)) \<and>
    (\<forall>c \<in> set (db_claims db'). \<forall>d \<in> set (db_claims db'). cl_taskId c = cl_taskId d \<and>
       (cl_fence c = cl_fence d \<or> cl_state c = CS_active \<and> cl_state d = CS_active) \<longrightarrow> c = d)"
  unfolding assms by (rule claims_ok_consistent) (rule built_inv(1))

text \<open>A task that was created and then claimed; the commands run in the wider system too.\<close>

definition work_claimed :: Db where
  "work_claimed = run_work work_codec (no_work sample_db)
     [(700000, WC_claim (CM_create sample_create)), (700001, WC_claim (CM_claim sample_args))]"

lemma work_claimed_history: "work_claimed = sample_history"
proof -
  have "no_work sample_db = no_tasks sample_db" by (simp add: no_work_def no_tasks_def sample_db_def)
  moreover have "step_or_stay (work_exec work_codec) db (now, WC_claim command) =
      step_or_stay (exec sample_codec) db (now, command)" for db now command
    by (simp add: step_or_stay_def work_codec_def)
  ultimately show ?thesis by (simp add: work_claimed_def sample_history_def)
qed

lemma work_claimed_row: "\<exists>t \<in> set (db_tasks work_claimed). tk_claimFence t = 1 \<and> tk_currentClaim t \<noteq> None"
  unfolding work_claimed_history using claims_consistent_witness by blast

theorem work_claims_consistent_witness:
  "\<exists>t \<in> set (db_tasks work_claimed). \<exists>compact. tk_currentClaim t = Some compact \<and> tk_claimFence t = 1 \<and>
     (\<exists>c \<in> set (db_claims work_claimed). activeTaskClaimTupleMatches t compact c)"
proof -
  from work_claimed_row obtain t compact where
    t: "t \<in> set (db_tasks work_claimed)" "tk_claimFence t = 1" "tk_currentClaim t = Some compact"
    by auto
  from bspec [OF conjunct1 [OF work_claims_consistent [OF work_claimed_def]] t(1)] t(2,3)
  show ?thesis by (intro bexI [OF _ t(1)] exI [of _ compact]) simp
qed

text \<open>
  C4. Every mutation implements the lease of a task. Whatever a claim command, a job, a dependency
  change, a submission, a review, a cancellation or a reopening does, whether it succeeds, is refused
  or throws, every task is still there and its fence and current claim have made one step of the
  lease specification: taken with the next fence when free, extended by a renewal in the last five
  minutes, given up, or taken over with the next fence once lapsed.
\<close>

theorem work_refines_lease:
  assumes "store_inv db" "graph_inv db" "get_task db i = Some t"
  shows "\<exists>t'. get_task (step_or_stay (work_exec codec) db (now, command)) i = Some t' \<and>
    lease_step now (lease_of t) (lease_of t')"
  using work_lease [OF assms, of codec "(now, command)"] by simp

lemma sample_graph_inv: "graph_inv sample_db"
  by (simp add: graph_inv_def rows_ok_def dependency_pairs_def sample_db_def table_simps sample_task_def wf_acyclic
      task_counters_def recount_def blocker_statuses_def rows_into_def flags_ok_def task_blocking_count_def)

theorem work_refines_lease_witness:
  "\<exists>t'. get_task (step_or_stay (work_exec work_codec) sample_db (700000, WC_claim (CM_release sample_args))) 5 = Some t' \<and>
     lease_step 700000 (lease_of sample_task) (lease_of t')"
proof -
  have "get_task sample_db 5 = Some sample_task" by (simp add: sample_db_def table_simps sample_task_def)
  from work_refines_lease [OF sample_db_inv sample_graph_inv this] show ?thesis .
qed

lemma run_work_lease_le:
  assumes "store_inv db" "graph_inv db" "get_task db i = Some t"
  shows "\<exists>t'. get_task (run_work codec db commands) i = Some t' \<and> lease_le (lease_of t) (lease_of t')"
  using assms
proof (induction commands arbitrary: db t)
  case (Cons c commands)
  from work_lease [OF Cons.prems, of codec c] obtain u where u: "get_task (step_or_stay (work_exec codec) db c) i = Some u"
    "lease_step (fst c) (lease_of t) (lease_of u)" by blast
  from Cons.IH [OF _ _ u(1)] step_okD [OF work_step [OF Cons.prems(1,2)]] lease_step_le [OF u(2)] show ?case
    by (auto intro: lease_le_trans)
qed simp

text \<open>
  C9. A fence identifies its owner for ever. Over any run of these mutations the fence of a task never
  falls, and while it stays the same the task is held by the same claim of the same agent, whose lease
  generation never falls, or by nobody: once given up, a task is never held again under the old fence.
\<close>

theorem work_fence_identifies_owner:
  assumes "store_inv db" "graph_inv db" "get_task db i = Some t"
  shows "\<exists>t'. get_task (run_work codec db commands) i = Some t' \<and> tk_claimFence t \<le> tk_claimFence t' \<and>
    (\<forall>compact'. tk_currentClaim t' = Some compact' \<and> tk_claimFence t' = tk_claimFence t \<longrightarrow>
      (\<exists>compact. tk_currentClaim t = Some compact \<and> cc_claimId compact = cc_claimId compact' \<and>
         cc_agentId compact = cc_agentId compact' \<and> cc_leaseGeneration compact \<le> cc_leaseGeneration compact'))"
  using run_work_lease_le [OF assms, of codec commands]
  by (auto simp: lease_le_def lease_of_def split: option.splits)

theorem work_fence_identifies_owner_witness:
  "\<exists>t'. get_task (run_work work_codec sample_db [(700000, WC_claim (CM_release sample_args)),
     (700001, WC_dependency work_dependency), (700002, WC_claim (CM_claim sample_args))]) 5 = Some t' \<and> 2 \<le> tk_claimFence t'"
proof -
  have "get_task sample_db 5 = Some sample_task" "tk_claimFence sample_task = 2"
    by (simp_all add: sample_db_def table_simps sample_task_def)
  with work_fence_identifies_owner [OF sample_db_inv sample_graph_inv this(1), of work_codec
      "[(700000, WC_claim (CM_release sample_args)), (700001, WC_dependency work_dependency),
        (700002, WC_claim (CM_claim sample_args))]"] show ?thesis by auto
qed

subsection \<open>The dependency graph\<close>

text \<open>How many tasks that directly block a task have a status of some kind, counted over the rows.\<close>

definition waiting_on :: "Db \<Rightarrow> nat \<Rightarrow> TaskStatus set \<Rightarrow> int" where
  "waiting_on db i statuses = int (length (filter (\<lambda>d. dp_blockedTaskId d = i \<and>
     (\<exists>b. get_task db (dp_blockerTaskId d) = Some b \<and> tk_status b \<in> statuses)) (db_dependencies db)))"

lemma recount_counts:
  "unresolved (recount ss) = int (length (filter (\<lambda>s. s \<notin> {TS_done, TS_cancelled}) ss))"
  "cancelled (recount ss) = int (length (filter (\<lambda>s. s = TS_cancelled) ss))"
  by (induction ss) (auto simp: recount_def blockerContribution_def)

lemma blocker_counts:
  assumes "rows_ok db"
  shows "unresolved (recount (blocker_statuses db i)) = waiting_on db i (- {TS_done, TS_cancelled})"
    and "cancelled (recount (blocker_statuses db i)) = waiting_on db i {TS_cancelled}"
proof -
  have "filter (\<lambda>d. blocker_status db d \<in> S) (rows_into db i) = filter (\<lambda>d. dp_blockedTaskId d = i \<and>
      (\<exists>b. get_task db (dp_blockerTaskId d) = Some b \<and> tk_status b \<in> S)) (db_dependencies db)" for S
    unfolding rows_into_def filter_filter
    by (rule filter_cong [OF refl]) (use rows_okD(1) [OF assms] in \<open>fastforce simp: blocker_status_def\<close>)
  then have "int (length (filter (\<lambda>s. s \<in> S) (blocker_statuses db i))) = waiting_on db i S" for S
    by (simp add: blocker_statuses_def filter_map comp_def waiting_on_def)
  from this [of "- {TS_done, TS_cancelled}"] this [of "{TS_cancelled}"]
  show "unresolved (recount (blocker_statuses db i)) = waiting_on db i (- {TS_done, TS_cancelled})"
    "cancelled (recount (blocker_statuses db i)) = waiting_on db i {TS_cancelled}"
    by (simp_all add: recount_counts)
qed

text \<open>
  C1. The counters of every task are exact, always. After any sequence of mutations from a workspace
  without work, the unresolved counter of a task is the number of its direct blockers that are
  neither done nor cancelled, its cancelled counter the number of those that are cancelled; it is
  marked blocked exactly when one of them is positive, and it is marked ready only when it is open,
  unclaimed and has neither: no propagation is ever lost, applied twice or applied to the wrong task.
\<close>

theorem counters_always_exact:
  assumes "db' = run_work codec (no_work db) commands" "t \<in> set (db_tasks db')"
  shows "tk_unresolvedBlockerCount t = waiting_on db' (tk_id t) (- {TS_done, TS_cancelled}) \<and>
    tk_cancelledBlockerCount t = waiting_on db' (tk_id t) {TS_cancelled} \<and>
    (tk_isBlocked t = Some True) = (tk_unresolvedBlockerCount t + tk_cancelledBlockerCount t > 0) \<and>
    (tk_isReady t \<longrightarrow> tk_status t = TS_open \<and> tk_currentClaim t = None \<and>
      tk_unresolvedBlockerCount t = 0 \<and> tk_cancelledBlockerCount t = 0)"
proof -
  have inv: "store_inv db'" "graph_inv db'" using built_inv by (simp_all add: assms(1))
  note get = claims_ok_task [OF store_invD(1) [OF inv(1)] assms(2)]
  from graph_invD(2) [OF inv(2) get] graph_invD(3) [OF inv(2) get] show ?thesis
    unfolding blocker_counts [OF graph_invD(1) [OF inv(2)], symmetric]
    by (auto simp: task_counters_def flags_ok_def task_blocking_count_def unblocked_def dest: sym)
qed

theorem counters_always_exact_witness:
  "\<exists>t \<in> set (db_tasks work_claimed). tk_unresolvedBlockerCount t = waiting_on work_claimed (tk_id t) (- {TS_done, TS_cancelled})"
proof -
  from work_claimed_row obtain t where t: "t \<in> set (db_tasks work_claimed)" by blast
  from counters_always_exact [OF work_claimed_def t] t show ?thesis by blast
qed

text \<open>
  C3. The dependency graph never closes a cycle. After any sequence of mutations from a workspace
  without work, the relation of blockers and blocked tasks is acyclic, no pair has two rows, and
  every row joins two existing tasks of the row's own organization and workspace.
\<close>

theorem graph_always_acyclic:
  assumes "db' = run_work codec (no_work db) commands"
  shows "acyclic (dependency_pairs db') \<and>
    distinct (map (\<lambda>d. (dp_blockerTaskId d, dp_blockedTaskId d)) (db_dependencies db')) \<and>
    (\<forall>d \<in> set (db_dependencies db'). \<exists>a b. get_task db' (dp_blockerTaskId d) = Some a \<and>
       get_task db' (dp_blockedTaskId d) = Some b \<and> tk_organizationId a = dp_organizationId d \<and>
       tk_organizationId b = dp_organizationId d \<and> tk_workspaceId a = dp_workspaceId d \<and> tk_workspaceId b = dp_workspaceId d)"
proof -
  have rows: "rows_ok db'" using graph_invD(1) [OF built_inv(2)] by (simp add: assms)
  from rows_okD(1) [OF rows] show ?thesis
    using rows_okD(4,5) [OF rows] by (fastforce simp: dependencyMatchesTasks_def dependencyTupleMatches_def)
qed

theorem graph_always_acyclic_witness: "acyclic (dependency_pairs submitted_db)"
  using graph_always_acyclic [OF submitted_db_def] by blast

subsection \<open>What a dependency mutation answers\<close>

lemma dependency_writes_pairs:
  assumes inv: "store_inv db" "graph_inv db" and t: "t \<in> set (db_tasks db)" and b: "b \<in> set (db_tasks db)"
    and tenant: "tk_workspaceId b = tk_workspaceId t"
    and existing: "existing_dependency db t b = Some existing"
    and admitted: "if wa_remove args then existing \<noteq> None else existing = None \<and>
      validateDependencyCycleIntegrityDb db (tk_workspaceId t) (tk_id b) (tk_id t) = CY_valid"
    and run: "dependency_writes fresh args actor t b existing now db = Some (r, db')"
  shows "if wa_remove args
    then (tk_id b, tk_id t) \<in> dependency_pairs db \<and> dependency_pairs db' = dependency_pairs db - {(tk_id b, tk_id t)}
    else (tk_id b, tk_id t) \<notin> dependency_pairs db \<and> (tk_id t, tk_id b) \<notin> (dependency_pairs db)\<^sup>* \<and>
      dependency_pairs db' = insert (tk_id b, tk_id t) (dependency_pairs db)"
proof -
  note rows = graph_invD(1) [OF inv(2)]
  note get = claims_ok_task [OF store_invD(1) [OF inv(1)] t]
  from run admitted obtain row db1 where new: "dependency_rows (wa_remove args) t b existing actor now db = Some (row, db1)"
    by (cases "wa_remove args") (auto simp: dependency_rows_def Let_def)
  have same: "db_dependencies db' = db_dependencies db1"
    using run [unfolded dependency_writes_def new option.case prod.case Let_def]
    by (auto simp: frame_def split: option.splits if_splits dest!: frame_event frame_repair_and_refuse)
  show ?thesis
  proof (cases "wa_remove args")
    case True
    with admitted obtain old where old: "existing = Some old" by auto
    note row = existing_row [OF existing [unfolded old]]
    from new True old have deps: "db_dependencies db1 = filter (\<lambda>d. dp_id d \<noteq> dp_id old) (db_dependencies db)"
      by (auto simp: dependency_rows_def)
    have only: "d = old" if "d \<in> set (db_dependencies db)" "dp_id d = dp_id old" for d
      using rows_okD(2) [OF rows] that row(1) by (auto simp: distinct_map dest: inj_onD)
    have pair: "d = old" if "d \<in> set (db_dependencies db)" "dp_blockerTaskId d = tk_id b" "dp_blockedTaskId d = tk_id t" for d
      by (rule pair_unique [OF rows that(1) row(1)]) (simp_all add: that row)
    have "p \<in> dependency_pairs db' \<longleftrightarrow> p \<in> dependency_pairs db \<and> p \<noteq> (tk_id b, tk_id t)" for p
    proof
      assume "p \<in> dependency_pairs db'"
      then obtain d where d: "d \<in> set (db_dependencies db)" "dp_id d \<noteq> dp_id old" "p = (dp_blockerTaskId d, dp_blockedTaskId d)"
        by (auto simp: dependency_pairs_def same deps)
      with pair [OF d(1)] show "p \<in> dependency_pairs db \<and> p \<noteq> (tk_id b, tk_id t)" by (auto simp: dependency_pairs_def)
    next
      assume p: "p \<in> dependency_pairs db \<and> p \<noteq> (tk_id b, tk_id t)"
      then obtain d where d: "d \<in> set (db_dependencies db)" "p = (dp_blockerTaskId d, dp_blockedTaskId d)"
        by (auto simp: dependency_pairs_def)
      with p row have "d \<noteq> old" by auto
      with only [OF d(1)] d show "p \<in> dependency_pairs db'" by (auto simp: dependency_pairs_def same deps)
    qed
    then have "dependency_pairs db' = dependency_pairs db - {(tk_id b, tk_id t)}" by blast
    moreover have "(tk_id b, tk_id t) \<in> dependency_pairs db" using row by (force simp: dependency_pairs_def)
    ultimately show ?thesis using True by simp
  next
    case False
    with admitted have none: "existing = None"
      and valid: "validateDependencyCycleIntegrityDb db (tk_workspaceId t) (tk_id b) (tk_id t) = CY_valid" by simp_all
    have ws: "dp_workspaceId d = tk_workspaceId t" if "d \<in> set (db_dependencies db)" "dp_blockedTaskId d = tk_id t" for d
      using rows_okD(1) [OF rows that(1)] that(2) get by (auto simp: dependencyMatchesTasks_def dependencyTupleMatches_def)
    with unique_row_set(2) [OF existing [unfolded none existing_dependency_def]]
    have "(tk_id b, tk_id t) \<notin> dependency_pairs db" by (auto simp: dependency_pairs_def filter_empty_conv)
    moreover have "(tk_id t, tk_id b) \<notin> (dependency_pairs db)\<^sup>*"
      using valid_not_reachable [OF valid] path_in_workspace [OF rows _ get] by blast
    moreover have "dependency_pairs db' = insert (tk_id b, tk_id t) (dependency_pairs db)"
      using new False by (auto simp: dependency_rows_def Let_def dependency_pairs_def same)
    ultimately show ?thesis using False by simp
  qed
qed


lemma dependency_refused:
  assumes "assertRequestMetadata (ca_idempotencyKey args) (ca_requestDigest args) (ca_requestId args) now = Some err"
  shows "mutateTaskDependency receipts fresh args now db = Some (Inl err, db)"
  by (simp add: mutateTaskDependency_def assms)


subsection \<open>Reviews\<close>

text \<open>
  C8. A task in review has its submission. After any sequence of mutations from a workspace without
  work, the lookup that a review starts from finds exactly one pending submission, owned by the task,
  when the task is in review, and none otherwise: the branches that queue a repair of the review
  are never taken for a store that these mutations wrote.
\<close>

theorem review_has_submission:
  assumes "db' = run_work codec (no_work db) commands" "t \<in> set (db_tasks db')"
  shows "if tk_status t = TS_in_review
    then \<exists>s. pendingSubmissionsForTask db' t = [s] \<and> submissionHasTaskOwnership t s
    else pendingSubmissionsForTask db' t = []"
proof -
  have inv: "store_inv db'" "sub_inv db'"
    using built_inv(1) built_inv(3) [OF no_work_inv(3)] by (simp_all add: assms(1))
  note get = claims_ok_task [OF store_invD(1) [OF inv(1)] assms(2)]
  have owned: "submissionHasTaskOwnership t s" if "s \<in> set (db_submissions db')" "ts_taskId s = tk_id t" for s
    using sub_invD(3) [OF inv(2) that(1)] get that(2) by (auto simp: submission_owned_def)
  have "filter (\<lambda>s. ts_workspaceId s = tk_workspaceId t \<and> ts_taskId s = tk_id t \<and> ts_status s = SS_pending)
      (db_submissions db') = pending_of db' (tk_id t)"
    unfolding pending_of_def
    by (rule filter_cong [OF refl])
      (use owned in \<open>auto simp: submissionHasTaskOwnership_def task_scope_def taskScopedRecordMatches_def\<close>)
  then have found: "pendingSubmissionsForTask db' t = take 2 (sort_key ts_submittedAt (pending_of db' (tk_id t)))"
    by (simp add: pendingSubmissionsForTask_def)
  show ?thesis
  proof (cases "tk_status t = TS_in_review")
    case True
    with sub_invD(5) [OF inv(2), of "tk_id t"] get obtain s where s: "pending_of db' (tk_id t) = [s]"
      by (auto simp: in_review_def length_Suc_conv)
    then have "s \<in> set (pending_of db' (tk_id t))" by simp
    then have "submissionHasTaskOwnership t s" by (intro owned) (simp_all add: pending_of_def)
    with True s show ?thesis by (simp add: found)
  next
    case False
    with sub_invD(5) [OF inv(2), of "tk_id t"] get show ?thesis by (simp add: in_review_def found)
  qed
qed

theorem review_has_submission_witness:
  "\<exists>t \<in> set (db_tasks work_claimed). tk_claimFence t = 1 \<and> pendingSubmissionsForTask work_claimed t = []"
proof -
  from work_claimed_row obtain t where t: "t \<in> set (db_tasks work_claimed)" "tk_claimFence t = 1" "tk_currentClaim t \<noteq> None"
    by blast
  have "tk_status t = TS_in_progress"
    using claimed_in_progress [OF built_inv(1) t(1) [unfolded work_claimed_def]] t(3) by blast
  with review_has_submission [OF work_claimed_def t(1)] t(1,2) show ?thesis by auto
qed

lemma admit_review_named:
  assumes "admit_review request now db = Some (Inr (t, submission, actual), db')"
  shows "taskByKey db (rq_workspaceId request) (rq_key request) = Some (Some t)" "ts_publicId submission = rq_submissionPublicId request"
proof -
  note run = assms [unfolded admit_review_def Let_def]
  have "taskByKey db (rq_workspaceId request) (rq_key request) = Some (Some t) \<and> ts_publicId submission = rq_submissionPublicId request"
    using run
    by (simp add: Option.is_none_def split: if_split_asm option.split_asm list.split_asm prod.split_asm sum.split_asm)
  then show "taskByKey db (rq_workspaceId request) (rq_key request) = Some (Some t)"
    "ts_publicId submission = rq_submissionPublicId request" by blast+
qed

lemma review_admitted:
  assumes "reviewSubmissionTransition fresh request now db = Some (Inr data, db')"
  obtains t s where "admit_review request now db = Some (Inr (t, s, task_counters t), db)"
proof -
  from assms obtain t s actual db1 where admit: "admit_review request now db = Some (Inr (t, s, actual), db1)"
    by (auto simp: reviewSubmissionTransition_def split: option.splits sum.splits)
  from admit_review_accepts(1,5) [OF admit] admit show thesis by (intro that) simp
qed

lemma review_accepted:
  assumes run: "reviewSubmissionTransition fresh request now db = Some (Inr data, db')" and "rq_action request = RA_accept"
    and admit: "admit_review request now db = Some (Inr (t, s, actual), db)"
  obtains usage db2 where "accept_dependents fresh request t now db = Some (Inr usage, db2)"
    "frame (accept_writes request t s usage now db2) db'"
  using run assms(2)
  by (auto simp: reviewSubmissionTransition_def admit review_event_def split: option.splits sum.splits dest!: frame_event)

lemma review_rejected:
  assumes run: "reviewSubmissionTransition fresh request now db = Some (Inr data, db')" and "rq_action request = RA_reject"
    and admit: "admit_review request now db = Some (Inr (t, s, actual), db)"
  obtains reason where "frame (reject_writes request t s actual reason now db) db'"
  using run assms(2)
  by (auto simp: reviewSubmissionTransition_def admit review_event_def refuse_def split: option.splits sum.splits dest!: frame_event)

lemma carries_carry:
  assumes "carries db i s s' actor now plan" "get_task db (tk_id u) = Some u" "(i, tk_id u) \<in> dependency_pairs db"
  shows "carry plan actor now u = recounted (unresolved (transitionBlockerCounters (task_counters u) s s'))
    (cancelled (transitionBlockerCounters (task_counters u) s s')) actor now u"
proof -
  from assms(1,3) have "tk_id u \<in> set (plan_ids plan)" by (simp add: carries_def)
  then obtain v c where v: "(v, c) \<in> set plan" "tk_id u = tk_id v" by (auto simp: plan_ids_def)
  from assms(1) v(1) have "get_task db (tk_id v) = Some v" "c = transitionBlockerCounters (task_counters v) s s'"
    "distinct (plan_ids plan)" by (auto simp: carries_def)
  with carry_planned [OF v(1) this(3) v(2)] assms(2) v(2) show ?thesis by simp
qed

text \<open>
  C6. An acceptance frees what waits for it. When a review accepts a task, the task is done in the
  same step, and every task that it blocked directly has one unresolved blocker less and becomes
  ready exactly when the accepted task was its last blocker, it is open and its time has come; no
  other task changes at all.
\<close>

theorem acceptance_frees_dependents:
  assumes "store_inv db" "graph_inv db" "rq_action request = RA_accept"
    and "reviewSubmissionTransition fresh request now db = Some (Inr data, db')"
  shows "\<exists>t t'. t \<in> set (db_tasks db) \<and> tk_workspaceId t = rq_workspaceId request \<and> tk_key t = rq_key request \<and>
    tk_status t = TS_in_review \<and> get_task db' (tk_id t) = Some t' \<and> tk_status t' = TS_done \<and>
    (\<forall>u \<in> set (db_tasks db). tk_id u \<noteq> tk_id t \<longrightarrow> (\<exists>u'. get_task db' (tk_id u) = Some u' \<and>
      (if (tk_id t, tk_id u) \<in> dependency_pairs db
       then tk_unresolvedBlockerCount u' = tk_unresolvedBlockerCount u - 1 \<and>
         tk_cancelledBlockerCount u' = tk_cancelledBlockerCount u \<and>
         tk_isReady u' = (tk_status u = TS_open \<and> tk_availableAt u \<le> now \<and>
           tk_unresolvedBlockerCount u = 1 \<and> tk_cancelledBlockerCount u = 0)
       else u' = u)))"
proof -
  note ok = store_invD(1) [OF assms(1)]
  from review_admitted [OF assms(4)] obtain t s where
    admit: "admit_review request now db = Some (Inr (t, s, task_counters t), db)" by blast
  note acc = admit_review_accepts [OF admit] and named = admit_review_named [OF admit]
  note get = claims_ok_task [OF ok acc(2)]
  from review_accepted [OF assms(4,3) admit] obtain usage db2 where
    dependents: "accept_dependents fresh request t now db = Some (Inr usage, db2)"
    and last: "frame (accept_writes request t s usage now db2) db'" by blast
  from accept_dependents_cases [OF dependents assms(2) get] obtain plan where
    plan: "carries db (tk_id t) TS_in_review TS_done (rq_actor request) now plan"
      "db_tasks db2 = map (carry plan (rq_actor request) now) (db_tasks db)" by auto
  let ?f = "accepted_task t (rq_actor request) now"
  have tasks: "db_tasks db' = patch_row tk_id (tk_id t) ?f (db_tasks db2)"
    using last by (simp add: frame_def accept_writes_def patch_usage_def patch_submission_def patch_task_def)
  have after: "get_task db' j = (if tk_id t = j then map_option ?f (get_task db2 j) else get_task db2 j)" for j
    unfolding tasks by (rule get_row_patch) (simp add: accepted_task_def)
  have carried: "get_task db2 j = map_option (carry plan (rq_actor request) now) (get_task db j)" for j
    unfolding plan(2) by (rule get_row_map) simp
  have settled: "\<exists>t'. get_task db' (tk_id t) = Some t' \<and> tk_status t' = TS_done"
    by (simp add: after carried get accepted_task_def)
  have "\<exists>u'. get_task db' (tk_id u) = Some u' \<and>
      (if (tk_id t, tk_id u) \<in> dependency_pairs db
       then tk_unresolvedBlockerCount u' = tk_unresolvedBlockerCount u - 1 \<and>
         tk_cancelledBlockerCount u' = tk_cancelledBlockerCount u \<and>
         tk_isReady u' = (tk_status u = TS_open \<and> tk_availableAt u \<le> now \<and>
           tk_unresolvedBlockerCount u = 1 \<and> tk_cancelledBlockerCount u = 0)
       else u' = u)" if u: "u \<in> set (db_tasks db)" "tk_id u \<noteq> tk_id t" for u
  proof -
    note getu = claims_ok_task [OF ok u(1)]
    have "get_task db' (tk_id u) = Some (carry plan (rq_actor request) now u)"
      using u(2) by (simp add: after carried getu)
    moreover have "carry plan (rq_actor request) now u = u" if "(tk_id t, tk_id u) \<notin> dependency_pairs db"
      using plan(1) that by (intro carry_other) (auto simp: carries_def)
    moreover note carries_carry [OF plan(1) getu]
    ultimately show ?thesis
      by (auto simp: transitionBlockerCounters_def blockerContribution_def task_counters_def recounted_def Let_def
          derivedReady_def)
  qed
  with settled taskByKey_mem [OF named(1)] acc(3) show ?thesis by blast
qed

theorem acceptance_frees_dependents_witness:
  "\<exists>data db' u. reviewSubmissionTransition (\<lambda>n. ''evt'') (review_of RA_accept) 700000 review_db = Some (Inr data, db') \<and>
     get_task db' 6 = Some u \<and> tk_isReady u \<and> tk_unresolvedBlockerCount u = 0"
proof -
  from answered [OF review_runs(1)] obtain data db' where
    run: "reviewSubmissionTransition (\<lambda>n. ''evt'') (review_of RA_accept) 700000 review_db = Some (Inr data, db')"
    by blast
  have tasks: "db_tasks review_db = [reviewed_task, waiting_task]" by (simp add: review_db_def)
  have facts: "tk_id reviewed_task = 5" "tk_id waiting_task = 6" "tk_status waiting_task = TS_open"
    "(5, 6) \<in> dependency_pairs review_db" "tk_unresolvedBlockerCount waiting_task = 1"
    "tk_cancelledBlockerCount waiting_task = 0" "tk_availableAt waiting_task = 0"
    by (simp_all add: reviewed_task_def waiting_task_def sample_task_def dependency_pairs_def review_db_def)
  have "rq_action (review_of RA_accept) = RA_accept" by (simp add: review_of_def)
  from acceptance_frees_dependents [OF review_db_store review_db_graph this run, unfolded tasks] run facts
  show ?thesis by fastforce
qed

text \<open>
  C7. A rejected dispatch cannot be retried. Settling a submission drops the dispatch it came from, so
  after a review has rejected a submission, and it is stored as rejected, no dispatch is recognised
  as its source: whatever the task and whatever the caller expects, the decision of \<open>retryRun\<close> on a
  submitted dispatch is never to retry it, although \<open>dispatchRetryAllowed\<close> names this case.
\<close>

theorem rejected_dispatch_not_retryable:
  assumes "store_inv db" "graph_inv db" "sub_inv db" "rq_action request = RA_reject"
    and "reviewSubmissionTransition fresh request now db = Some (Inr data, db')" "dr_phase source = RP_submitted"
  shows "(\<exists>s \<in> set (db_submissions db'). ts_publicId s = rq_submissionPublicId request \<and>
      submission_lifecycle (ts_status s) = SL_rejected) \<and>
    \<not> sourceSubmissionRejected db' source \<and> retry_decision db' source task expected retried \<noteq> Some True"
proof -
  from step_okD [OF reviewSubmissionTransition_step [OF assms(1,2,5)]] assms(3) have inv: "sub_inv db'" by simp
  from review_admitted [OF assms(5)] obtain t s where
    admit: "admit_review request now db = Some (Inr (t, s, task_counters t), db)" by blast
  note pending = pending_row [OF admit_review_accepts(7) [OF admit]] and named = admit_review_named [OF admit]
  from review_rejected [OF assms(5,4) admit] obtain reason where
    "frame (reject_writes request t s (task_counters t) reason now db) db'" by blast
  then have "db_submissions db' = patch_row ts_id (ts_id s)
      (\<lambda>r. pendingSubmissionBase s (SS_rejected (rq_actor request) now reason)) (db_submissions db)"
    by (simp add: frame_def reject_writes_def patch_submission_def)
  with pending(1) have "pendingSubmissionBase s (SS_rejected (rq_actor request) now reason) \<in> set (db_submissions db')"
    by (force simp: patch_row_def)
  then have "\<exists>s \<in> set (db_submissions db'). ts_publicId s = rq_submissionPublicId request \<and>
      submission_lifecycle (ts_status s) = SL_rejected"
    by (rule rev_bexI) (simp add: pendingSubmissionBase_def named(2))
  with never_rejected [OF inv, of source] retry_refused [OF inv assms(6), of task expected retried] show ?thesis by blast
qed

text \<open>The dispatch that the sample submission came from, submitted and released, with no other dispatch in its way.\<close>

definition submitted_run :: DispatchRow where
  "submitted_run = \<lparr>dr_id = 12, dr_organizationId = 1, dr_workspaceId = 2, dr_taskId = 5, dr_publicId = ''run_1'',
     dr_taskKey = ''HR-0000001'', dr_phase = RP_submitted, dr_hold = None, dr_queuedTaskRevision = 3,
     dr_queuedClaimFence = 2, dr_candidateOrderAt = 0, dr_updatedAt = 0\<rparr>"

theorem rejected_dispatch_not_retryable_witness:
  "\<exists>data db'. reviewSubmissionTransition (\<lambda>n. ''evt'') (review_of RA_reject) 700000 review_db = Some (Inr data, db') \<and>
     (\<exists>s \<in> set (db_submissions review_db). ts_publicId s = ''sub_1'' \<and> ts_dispatchPublicId s = Some (dr_publicId submitted_run)) \<and>
     (\<exists>s \<in> set (db_submissions db'). ts_publicId s = ''sub_1'' \<and> submission_lifecycle (ts_status s) = SL_rejected) \<and>
     \<not> sourceSubmissionRejected db' submitted_run \<and>
     retry_decision db' submitted_run (the (get_task db' 5)) 5 False \<noteq> Some True"
proof -
  from answered [OF review_runs(2)] obtain data db' where
    run: "reviewSubmissionTransition (\<lambda>n. ''evt'') (review_of RA_reject) 700000 review_db = Some (Inr data, db')"
    by blast
  have "rq_action (review_of RA_reject) = RA_reject" "dr_phase submitted_run = RP_submitted"
    "rq_submissionPublicId (review_of RA_reject) = ''sub_1''"
    by (simp_all add: review_of_def submitted_run_def)
  note rejected = rejected_dispatch_not_retryable [OF review_db_store review_db_graph review_db_submissions this(1) run this(2),
      unfolded this(3), of "the (get_task db' 5)" 5 False]
  have "\<exists>s \<in> set (db_submissions review_db). ts_publicId s = ''sub_1'' \<and> ts_dispatchPublicId s = Some (dr_publicId submitted_run)"
    by (simp add: review_db_def submitted_run_def)
  with run rejected show ?thesis by blast
qed

end
