(* ===== verification/Spec2Isabelle.thy ===== *)
theory Spec2Isabelle
  imports Prelude GraphLaws RunEvents InteractionLaws RunnerLaws DispatchLeases Candidates Identifiers Projection
    RateLimit ClaimLaws TaskStore ClaimCommands ClaimJobs ClaimSafety ClaimRuns ClaimContracts EntityMap Jsonl
    DispatchBudget AccountReservations LocalCapabilities
    SyncNumbers SessionSync SessionPublish SessionRetention SessionDirectory
    WorkStore DependencyCommands StatusCommands SettleCommands WorkGraph WorkEffects WorkReviews WorkSteps WorkSettle
    WorkRuns DispatchRetry WorkContracts
begin

text \<open>
  A verification library for hra: a task graph shared by humans and agents, whose server is a set of
  Convex mutations over documents (\<open>apps/web/convex\<close>), with its pure laws in \<open>packages/task-domain\<close>
  and its wire schemas in \<open>packages/task-protocol\<close>, and a desktop runtime
  (\<open>apps/desktop/runtime\<close>) that runs agents for the tasks it is dispatched.

  How the parts interact. An agent claims a ready task (\<open>tasks.ts\<close>) and holds it by a fence number and
  a lease, which the scheduled jobs (\<open>schedules.ts\<close>) expire. A dispatch hands a task to a runner: the
  runner's heartbeat (\<open>dispatch.ts\<close>) renews an authority and presence row and asks for candidates,
  which are picked fairly over repositories; the events and interactions it reports are bounded and
  sequenced. Every mutation is rate limited, authorised, answered at most once through a receipt, and
  advances the revisions of the workspace's projection heads. On the desktop the runner draws slots from
  the local capabilities, which reserve account lanes from an arbiter that ranks accounts by their
  remaining budget, and speaks JSON lines with the agent process. Session sync replicates the sessions
  of a device to the other devices of a vault as sealed envelopes (\<open>sessionSyncModel.ts\<close>).

  Conventions. Documents are records, keyed by a number for the platform's identifier; a table is the
  list of its documents in creation order, with \<open>get_row\<close>, \<open>patch_row\<close> and appending (\<open>TaskStore\<close>);
  an index is a filter and a stable sort. A mutation is a function from its arguments, the time and the
  store to a result and a store; a thrown error is \<open>None\<close> and commits nothing, as the platform rolls a
  failed mutation back, while a failure value keeps what was written before it. A mutation is atomic, so
  concurrency is the order of a run. JavaScript numbers that are integers in the source are \<open>int\<close> with
  \<open>is_safe_integer\<close> where the code tests it, \<open>js_number\<close> (\<open>DispatchBudget\<close>) where NaN or an
  infinity matters, 32-bit words for \<open>Math.imul\<close> and \<open>>>> 0\<close>, bytes as \<open>8 word\<close>. \<open>localeCompare\<close>,
  \<open>Date.parse\<close> and the JSON codec of a receipt belong to the platform and are parameters; what a
  property needs of them is a hypothesis of it, with a witness that instantiates it.

  The theories.
  \<^item> \<open>Prelude\<close>: safe integers, JavaScript sort and set, decimal text, option lists.
  \<^item> \<open>GraphLaws\<close> (\<open>graph-laws.ts\<close>): the cycle checks of a new dependency or parent, exact on acyclic graphs
    within the bounds (a worklist search that ends by the measure of unseen tasks), blocker counters as
    recounts, the submission lifecycle.
  \<^item> \<open>RunEvents\<close>, \<open>InteractionLaws\<close> (\<open>dispatch.ts\<close>, \<open>interaction-laws.ts\<close> of task-domain and
    \<open>dispatchInteractions.ts\<close>): run phases as a step relation that only moves forward, display budgets that
    agree with a recount of the events, batch admission of interactions.
  \<^item> \<open>RunnerLaws\<close>, \<open>DispatchLeases\<close>, \<open>Candidates\<close> (\<open>dispatchLaws.ts\<close>, the heartbeat of \<open>dispatch.ts\<close>): authority
    generations, monotone heartbeat clocks, leases inside claims, submission fences, and a fair choice of
    candidates in which no eligible repository starves.
  \<^item> \<open>Projection\<close>, \<open>RateLimit\<close>, \<open>Identifiers\<close> (\<open>hraProjection.ts\<close>, \<open>rateLimitPolicy.ts\<close>, \<open>rateLimits.ts\<close>,
    \<open>identifiers.ts\<close>): revisions, and charges that are all or nothing and bounded over a window.
  \<^item> \<open>ClaimLaws\<close>, \<open>TaskStore\<close>, \<open>ClaimCommands\<close>, \<open>ClaimJobs\<close> (\<open>workGraphLaws.ts\<close>, \<open>domain.ts\<close>, \<open>authorization.ts\<close>,
    \<open>dispatchSafety.ts\<close>, \<open>events.ts\<close>, \<open>tasks.ts\<close>, \<open>schedules.ts\<close>): the claim handlers and jobs whole;
    \<open>ClaimSafety\<close>, \<open>ClaimRuns\<close>, \<open>ClaimContracts\<close>: their invariant over every interleaving, the refinement of
    an abstract lease with fences, and that a fence names one owner for ever.
  \<^item> \<open>WorkStore\<close>, \<open>DependencyCommands\<close>, \<open>StatusCommands\<close>, \<open>SettleCommands\<close> (\<open>workGraph.ts\<close>,
    \<open>humanAuthorization.ts\<close>, \<open>humanTenancy.ts\<close>): the mutations of the work graph, whole handlers on the same store as
    the claims: dependencies with the bounded search for a cycle, submission with its dispatch checks, review,
    cancellation, reopening, and the propagation of a status to the dependents. \<open>WorkGraph\<close>: the invariant of the
    stored graph and how each kind of write keeps it; \<open>WorkEffects\<close>, \<open>WorkReviews\<close>: what the handlers write,
    and the invariant of the submissions; \<open>WorkSteps\<close>, \<open>WorkSettle\<close>: every handler keeps the three invariants and
    steps the lease; \<open>WorkRuns\<close>: runs that mix all of them with the claim commands and jobs. \<open>DispatchRetry\<close>: the
    decision of \<open>retryRun\<close>. \<open>WorkContracts\<close>: over every run the counters are exact, the graph is acyclic, a task
    in review has its one submission and a claim has one owner; what a dependency mutation and an acceptance
    do; and that a rejected dispatch is never retried, against the intent of the code.
  \<^item> \<open>EntityMap\<close>, \<open>Jsonl\<close> (\<open>sessions/entity-map.ts\<close>, \<open>codex/jsonl.ts\<close>): the persistent AVL map refines a finite
    map; the line decoder gives the same lines for every way the bytes arrive in chunks.
  \<^item> \<open>DispatchBudget\<close>, \<open>AccountReservations\<close>, \<open>LocalCapabilities\<close> (\<open>accounts/dispatch-budget.ts\<close>,
    \<open>dispatch/account-reservations.ts\<close>, \<open>dispatch/local-capabilities.ts\<close>): what a budget verdict means, lanes
    that are exclusive and chosen best first, slots that mirror lanes.
  \<^item> \<open>SyncNumbers\<close>, \<open>SessionSync\<close>, \<open>SessionPublish\<close> (\<open>session-sync.ts\<close>, \<open>sessionSyncLaws.ts\<close>, \<open>sessionSyncModel.ts\<close>):
    canonical 64-bit counters and order keys, and the handlers of a session's life: boot, reservation,
    writer, publication with the pruning of old events, deletion, retirement. \<open>SessionRetention\<close>: over any
    run from a store without sessions, the counters of vaults and sessions are the counts and bytes of the
    rows and stay within the quotas. \<open>SessionDirectory\<close>: what makes a publication acceptable and what it
    does, directory versions without a gap, and snapshots whose later changes are never pruned.

  Bounds and fuel. Recursion is structural or has a measure; no definition uses fuel that the code does not
  have. The bounds in the definitions are the code's own (256 changes a prune reads, 128 changes a sweep
  purges, 64 targets, the limits of the graph search).

  Not modelled, and why. Of \<open>workGraph.ts\<close>, the edits that touch neither a status nor a dependency (title, assignee,
  deferral, labels, comments, references, parents), the repair job and the queries; of \<open>dispatch.ts\<close>, the claiming of a
  dispatch and the append of its events; \<open>humanTaskMutations.ts\<close>, whose commands call the transitions modelled here
  behind a ledger of hosted attempts; the promotion of a local workspace. They are left out for their volume.
  Of session sync, request authentication (signatures, proof nonces), enrollment, membership and key rotation,
  snapshot and change pages and scheduled chats are left out: most of them call cryptography. The desktop runtime beyond the parts
  above drives processes, a database and a user interface. User interfaces, the Zig host, generated
  contracts, the command line client and the build scripts carry no logic of this kind.
\<close>

end
